(* ===== verification/Js_Prelude.thy ===== *)
theory Js_Prelude
  imports Main "HOL-Library.Word" "HOL-Library.List_Lexorder" "HOL-Library.Sublist" "HOL-Library.Multiset"
begin

unbundle bit_operations_syntax

text \<open>
  The part of the JavaScript platform the cloister sources rely on, and the vocabulary the
  component theories share.

  \<^item> A \<open>Uint8Array\<close> is a list of 8-bit words; \<open>to_u8\<close> is the truncation a store into one does.
  \<^item> A JS string is a list of UTF-16 code units (16-bit words); \<open>js ''abc''\<close> is a literal. The
    \<open><\<close> of two strings and the default order of \<open>Array.prototype.sort\<close> are the lexicographic
    order of code units, which is the list order of \<open>List_Lexorder\<close>.
  \<^item> A JS number that is used as an integer is an \<open>int\<close>; the 32-bit bitwise operators are
    \<open>js_bitor\<close>, \<open>js_shl\<close> and \<open>js_ushr\<close>, at their width.
  \<^item> \<open>null\<close> and \<open>undefined\<close> are \<open>None\<close>; a thrown error is \<open>Inl\<close>.
  \<^item> \<open>TextEncoder\<close>, \<open>TextDecoder\<close>, \<open>btoa\<close>, \<open>atob\<close> are written out here.
  \<^item> \<open>codec\<close> is the interface of an encoder with its decoder; base64url and UTF-8 are instances
    here, the receipt CBOR is one in \<open>Receipts_Cbor\<close>.
\<close>

named_theorems js_simps \<open>evaluation of the platform's string and number operations\<close>
named_theorems table_simps \<open>SQL statements on keyed tables\<close>
named_theorems inv_intros \<open>preservation of a component's invariant by its operations\<close>

type_synonym byte = "8 word"
type_synonym bytes = "byte list"
type_synonym jschar = "16 word"
type_synonym jsstr = "jschar list"

abbreviation js :: "string \<Rightarrow> jsstr" where
  "js s \<equiv> map of_char s"

section \<open>Options, strings and lists\<close>

text \<open>\<open>a ?? b\<close>.\<close>

definition nullish :: "'a option \<Rightarrow> 'a \<Rightarrow> 'a" where
  "nullish a b = (case a of None \<Rightarrow> b | Some x \<Rightarrow> x)"

lemma nullish_simps [simp]: "nullish None b = b" "nullish (Some a) b = a"
  by (simp_all add: nullish_def)

text \<open>\<open>!!s\<close> on an optional string: absent and empty are both falsy.\<close>

definition truthy_str :: "jsstr option \<Rightarrow> bool" where
  "truthy_str s = (case s of None \<Rightarrow> False | Some t \<Rightarrow> t \<noteq> [])"

lemma truthy_str_simps [simp]:
  "truthy_str None = False" "truthy_str (Some []) = False" "truthy_str (Some (c # t)) = True"
  by (simp_all add: truthy_str_def)

lemma truthy_strE: "truthy_str s \<Longrightarrow> \<exists>t. s = Some t \<and> t \<noteq> []"
  by (cases s) (auto simp: truthy_str_def)

definition starts_with :: "'a list \<Rightarrow> 'a list \<Rightarrow> bool" where
  "starts_with s p = (take (length p) s = p)"

definition ends_with :: "'a list \<Rightarrow> 'a list \<Rightarrow> bool" where
  "ends_with s p = (length p \<le> length s \<and> drop (length s - length p) s = p)"

lemma starts_with_iff: "starts_with s p \<longleftrightarrow> (\<exists>t. s = p @ t)"
  unfolding starts_with_def by (metis append_eq_conv_conj append_take_drop_id)

lemma ends_with_iff: "ends_with s p \<longleftrightarrow> (\<exists>t. s = t @ p)"
proof
  assume "ends_with s p"
  then have "s = take (length s - length p) s @ p"
    unfolding ends_with_def by (metis append_take_drop_id)
  then show "\<exists>t. s = t @ p" ..
qed (auto simp: ends_with_def)

lemma ends_with_butlast:
  "p \<noteq> [] \<Longrightarrow> ends_with s p \<Longrightarrow> butlast s = take (length s - length p) s @ butlast p"
  by (auto simp: ends_with_iff butlast_append)

text \<open>\<open>s.indexOf(c)\<close>, with \<open>None\<close> for -1.\<close>

fun index_of :: "'a \<Rightarrow> 'a list \<Rightarrow> nat option" where
  "index_of c [] = None"
| "index_of c (x # xs) = (if x = c then Some 0 else map_option Suc (index_of c xs))"

lemma index_of_SomeD: "index_of c xs = Some i \<Longrightarrow> i < length xs \<and> xs ! i = c \<and> c \<notin> set (take i xs)"
  by (induction xs arbitrary: i) (auto split: if_splits)

lemma index_of_None_iff: "index_of c xs = None \<longleftrightarrow> c \<notin> set xs"
  by (induction xs) auto

text \<open>Concatenations whose first parts have equal lengths.\<close>

lemma append_eq_by_length: "length a = length b \<Longrightarrow> a @ x = b @ y \<longleftrightarrow> a = b \<and> x = y"
  by auto

lemma append_eq_by_length_right: "length x = length y \<Longrightarrow> a @ x = b @ y \<longleftrightarrow> a = b \<and> x = y"
  by auto

text \<open>A prefix before the first separator is determined by the whole string.\<close>

lemma split_at_first_sep:
  "c \<notin> set a \<Longrightarrow> c \<notin> set b \<Longrightarrow> a @ c # x = b @ c # y \<longleftrightarrow> a = b \<and> x = y"
proof (induction a arbitrary: b)
  case Nil
  then show ?case by (cases b) auto
next
  case (Cons u a)
  then show ?case by (cases b) auto
qed

section \<open>String literals\<close>

lemma unat_js_char [simp]: "unat (of_char c :: jschar) = of_char c"
proof -
  have "of_char c mod 65536 = (of_char c :: nat)"
    using nat_of_char_less_256 [of c] by (simp del: nat_of_char_less_256)
  then show ?thesis
    using of_nat_of_char [of c, where 'a = jschar, symmetric] by (simp add: unat_of_nat)
qed

lemma js_char_eq [simp]: "(of_char c :: jschar) = of_char d \<longleftrightarrow> c = d"
  by (metis of_char_eq_iff unat_js_char)

lemma js_inject [simp]: "js s = js t \<longleftrightarrow> s = t"
  by (simp add: inj_map_eq_map inj_def)

section \<open>32-bit operators of JavaScript numbers\<close>

definition js_bitor :: "int \<Rightarrow> int \<Rightarrow> int" where
  "js_bitor a b = sint ((word_of_int a :: 32 word) OR word_of_int b)"

definition js_bitand :: "int \<Rightarrow> int \<Rightarrow> int" where
  "js_bitand a b = sint ((word_of_int a :: 32 word) AND word_of_int b)"

definition js_shl :: "int \<Rightarrow> nat \<Rightarrow> int" where
  "js_shl a n = sint (push_bit n (word_of_int a :: 32 word))"

definition js_shr :: "int \<Rightarrow> nat \<Rightarrow> int" where
  "js_shr a n = drop_bit n (sint (word_of_int a :: 32 word))"

definition js_ushr :: "int \<Rightarrow> nat \<Rightarrow> int" where
  "js_ushr a n = uint (drop_bit n (word_of_int a :: 32 word))"

text \<open>A store into a \<open>Uint8Array\<close> keeps the value modulo 256.\<close>

definition to_u8 :: "int \<Rightarrow> byte" where
  "to_u8 n = word_of_int n"

lemma uint_to_u8 [simp]: "uint (to_u8 n) = n mod 256"
  by (simp add: to_u8_def uint_word_of_int)

lemma byte_uint_bounds: "0 \<le> uint (b :: byte)" "uint (b :: byte) < 256"
  using uint_lt2p [of b] by simp_all

subsection \<open>The operators as integer arithmetic\<close>

definition to_int32 :: "int \<Rightarrow> int" where
  "to_int32 a = sint (word_of_int a :: 32 word)"

lemma to_int32_small: "- (2 ^ 31) \<le> a \<Longrightarrow> a < 2 ^ 31 \<Longrightarrow> to_int32 a = a"
  by (simp add: to_int32_def sint_sbintrunc' signed_take_bit_int_eq_self)

lemma to_int32_nonneg: "0 \<le> a \<Longrightarrow> a < 2 ^ 31 \<Longrightarrow> to_int32 a = a"
  by (rule to_int32_small) simp_all

lemma to_int32_high: "2 ^ 31 \<le> a \<Longrightarrow> a < 2 ^ 32 \<Longrightarrow> to_int32 a = a - 2 ^ 32"
  using mod_pos_geq [of "2 ^ 32" "a + 2 ^ 31"] by (simp add: to_int32_def int_word_sint)

lemma js_bitor_int: "js_bitor a b = to_int32 (a OR b)"
  by (simp add: to_int32_def js_bitor_def word_wi_log_defs)

lemma js_bitor_absorb: "js_bitor (to_int32 a) b = js_bitor a b"
  by (simp add: to_int32_def js_bitor_def)

lemma js_bitand_int: "js_bitand a b = to_int32 (a AND b)"
  by (simp add: to_int32_def js_bitand_def word_wi_log_defs)

lemma js_shl_int: "js_shl a n = to_int32 (a * 2 ^ n)"
  by (simp add: to_int32_def js_shl_def push_bit_eq_mult)

lemma js_ushr_int: "js_ushr a n = a mod 2 ^ 32 div 2 ^ n"
  by (simp add: js_ushr_def unsigned_drop_bit_eq uint_word_of_int)
    (simp add: drop_bit_eq_div take_bit_eq_mod)

lemma js_shr_int: "- (2 ^ 31) \<le> a \<Longrightarrow> a < 2 ^ 31 \<Longrightarrow> js_shr a n = a div 2 ^ n"
  using to_int32_small [of a] by (simp add: js_shr_def to_int32_def drop_bit_eq_div)

lemma int_and_masks:
  "a AND 255 = a mod (256 :: int)" "a AND 31 = a mod (32 :: int)" "a AND 7 = a mod (8 :: int)"
  using take_bit_eq_mask [of 8 a] take_bit_eq_mask [of 5 a] take_bit_eq_mask [of 3 a]
  by (simp_all add: mask_eq_exp_minus_1 take_bit_eq_mod)

lemma js_bitand_masks: "js_bitand a 255 = a mod 256" "js_bitand a 31 = a mod 32" "js_bitand a 7 = a mod 8"
  by (simp_all add: js_bitand_int int_and_masks to_int32_small)

lemma int_or_low: "0 \<le> b \<Longrightarrow> b < 2 ^ n \<Longrightarrow> a * 2 ^ n OR b = a * 2 ^ n + (b :: int)"
proof -
  assume "0 \<le> b" "b < 2 ^ n"
  then have b: "take_bit n b = b" by (simp add: take_bit_int_eq_self)
  have "push_bit n a AND take_bit n b = 0"
    by (rule bit_eqI) (simp add: bit_simps)
  then show ?thesis
    by (simp add: b push_bit_eq_mult flip: disjunctive_add_eq_or)
qed

lemma js_bitor_low:
  "0 \<le> b \<Longrightarrow> b < 2 ^ n \<Longrightarrow> 0 \<le> a \<Longrightarrow> a * 2 ^ n + b < 2 ^ 31 \<Longrightarrow> js_bitor (a * 2 ^ n) b = a * 2 ^ n + b"
proof -
  assume b: "0 \<le> b" "b < 2 ^ n" and a: "0 \<le> a" and sum: "a * 2 ^ n + b < 2 ^ 31"
  have "0 \<le> a * 2 ^ n + b" using a b by simp
  then show ?thesis
    unfolding js_bitor_int int_or_low [OF b] using sum by (intro to_int32_small) linarith+
qed

section \<open>Sorting with a comparator\<close>

text \<open>
  \<open>Array.prototype.sort(cmp)\<close> is stable. With a comparator that agrees with a linear order on
  a key it is \<open>sort_key\<close>.
\<close>

fun insert_by :: "('a \<Rightarrow> 'a \<Rightarrow> int) \<Rightarrow> 'a \<Rightarrow> 'a list \<Rightarrow> 'a list" where
  "insert_by cmp x [] = [x]"
| "insert_by cmp x (y # ys) = (if cmp x y \<le> 0 then x # y # ys else y # insert_by cmp x ys)"

definition sort_by :: "('a \<Rightarrow> 'a \<Rightarrow> int) \<Rightarrow> 'a list \<Rightarrow> 'a list" where
  "sort_by cmp xs = foldr (insert_by cmp) xs []"

lemma sort_by_eq_sort_key:
  assumes "\<And>x y. cmp x y \<le> 0 \<longleftrightarrow> f x \<le> f y"
  shows "sort_by cmp xs = sort_key f xs"
proof -
  have "insert_by cmp x ys = insort_key f x ys" for x ys
    by (induction ys) (simp_all add: assms)
  then show ?thesis by (induction xs) (simp_all add: sort_by_def)
qed

text \<open>Sorting a list whose keys are distinct does not depend on the order it came in.\<close>

lemma sort_key_perm:
  assumes "mset xs = mset ys" "inj_on f (set xs)"
  shows "sort_key f xs = sort_key f ys"
proof (rule properties_for_sort_key)
  show "mset (sort_key f ys) = mset xs" using assms(1) by simp
  show "filter (\<lambda>x. f k = f x) (sort_key f ys) = filter (\<lambda>x. f k = f x) xs" if "k \<in> set (sort_key f ys)" for k
  proof -
    have sets: "set ys = set xs" using mset_eq_setD [OF assms(1)] by simp
    then have "filter (\<lambda>x. f k = f x) zs = filter ((=) k) zs" if "set zs = set xs" for zs
      using that \<open>k \<in> _\<close> assms(2) by (intro filter_cong) (auto dest: inj_onD)
    moreover have "filter ((=) k) (sort_key f ys) = filter ((=) k) xs"
      using assms(1) by (simp flip: replicate_count_mset_eq_filter_eq)
    ultimately show ?thesis by (simp add: sets)
  qed
  show "sorted (map f (sort_key f ys))" by simp
qed

end
