(* ===== verification/Js_Text.thy ===== *)
theory Js_Text
  imports Js_Prelude
begin

text \<open>
  Text on the wire: UTF-8 (\<open>TextEncoder\<close> and the non-fatal \<open>TextDecoder\<close> of the WHATWG
  Encoding standard, byte order mark handling included), base64url as the routes build it from
  \<open>btoa\<close> and \<open>atob\<close>, lower-case hex and decimal rendering of integers, and the \<open>codec\<close>
  interface whose clients only use that an encoder has a decoder.
\<close>

section \<open>The codec interface\<close>

locale codec =
  fixes enc :: "'a \<Rightarrow> 'b"
    and dec :: "'b \<Rightarrow> 'a option"
    and dom :: "'a \<Rightarrow> bool"
  assumes dec_enc: "dom a \<Longrightarrow> dec (enc a) = Some a"
begin

lemma enc_inject: "dom a \<Longrightarrow> dom b \<Longrightarrow> enc a = enc b \<longleftrightarrow> a = b"
  by (metis dec_enc option.inject)

lemma enc_inj_on: "inj_on enc {a. dom a}"
  by (auto intro: inj_onI simp: enc_inject)

end

section \<open>UTF-16 to scalar values\<close>

definition is_hi :: "jschar \<Rightarrow> bool" where
  "is_hi c = (0xD800 \<le> unat c \<and> unat c \<le> 0xDBFF)"

definition is_lo :: "jschar \<Rightarrow> bool" where
  "is_lo c = (0xDC00 \<le> unat c \<and> unat c \<le> 0xDFFF)"

definition surrogate_pair :: "jschar \<Rightarrow> jschar \<Rightarrow> nat" where
  "surrogate_pair c d = 0x10000 + (unat c - 0xD800) * 1024 + (unat d - 0xDC00)"

text \<open>The USVString conversion: a lone surrogate becomes U+FFFD.\<close>

fun code_points :: "jsstr \<Rightarrow> nat list" where
  "code_points [] = []"
| "code_points [c] = [if is_hi c \<or> is_lo c then 0xFFFD else unat c]"
| "code_points (c # d # cs) =
     (if is_hi c \<and> is_lo d then surrogate_pair c d # code_points cs
      else (if is_hi c \<or> is_lo c then 0xFFFD else unat c) # code_points (d # cs))"

text \<open>\<open>String.prototype.isWellFormed\<close>.\<close>

fun well_formed :: "jsstr \<Rightarrow> bool" where
  "well_formed [] = True"
| "well_formed [c] = (\<not> is_hi c \<and> \<not> is_lo c)"
| "well_formed (c # d # cs) =
     (if is_hi c then is_lo d \<and> well_formed cs
      else \<not> is_lo c \<and> well_formed (d # cs))"

definition is_scalar :: "nat \<Rightarrow> bool" where
  "is_scalar n = (n < 0xD800 \<or> 0xE000 \<le> n \<and> n < 0x110000)"

definition utf16_of :: "nat \<Rightarrow> jsstr" where
  "utf16_of n =
     (if n < 0x10000 then [of_nat n]
      else [of_nat (0xD800 + (n - 0x10000) div 1024), of_nat (0xDC00 + (n - 0x10000) mod 1024)])"

section \<open>UTF-8\<close>

definition utf8_scalar :: "nat \<Rightarrow> nat list" where
  "utf8_scalar n =
     (if n < 0x80 then [n]
      else if n < 0x800 then [192 + n div 64, 128 + n mod 64]
      else if n < 0x10000 then [224 + n div 4096, 128 + n div 64 mod 64, 128 + n mod 64]
      else [240 + n div 262144, 128 + n div 4096 mod 64, 128 + n div 64 mod 64, 128 + n mod 64])"

text \<open>\<open>new TextEncoder().encode(s)\<close>.\<close>

definition utf8_encode :: "jsstr \<Rightarrow> bytes" where
  "utf8_encode s = map of_nat (concat (map utf8_scalar (code_points s)))"

text \<open>
  The decoder of the Encoding standard: bytes still needed, the bounds the next continuation
  byte must lie in, the scalar value so far. A byte out of bounds yields U+FFFD and is looked at
  again as a first byte.
\<close>

function utf8_loop :: "nat \<Rightarrow> nat \<Rightarrow> nat \<Rightarrow> nat \<Rightarrow> nat list \<Rightarrow> nat list" where
  "utf8_loop needed lower upper cp [] = (if needed = 0 then [] else [0xFFFD])"
| "utf8_loop needed lower upper cp (b # bs) =
     (if needed = 0 then
        (if b < 0x80 then b # utf8_loop 0 0x80 0xBF 0 bs
         else if 0xC2 \<le> b \<and> b \<le> 0xDF then utf8_loop 1 0x80 0xBF (b mod 32) bs
         else if 0xE0 \<le> b \<and> b \<le> 0xEF then
           utf8_loop 2 (if b = 0xE0 then 0xA0 else 0x80) (if b = 0xED then 0x9F else 0xBF) (b mod 16) bs
         else if 0xF0 \<le> b \<and> b \<le> 0xF4 then
           utf8_loop 3 (if b = 0xF0 then 0x90 else 0x80) (if b = 0xF4 then 0x8F else 0xBF) (b mod 8) bs
         else 0xFFFD # utf8_loop 0 0x80 0xBF 0 bs)
      else if \<not> (lower \<le> b \<and> b \<le> upper) then 0xFFFD # utf8_loop 0 0x80 0xBF 0 (b # bs)
      else if needed = 1 then (cp * 64 + b mod 64) # utf8_loop 0 0x80 0xBF 0 bs
      else utf8_loop (needed - 1) 0x80 0xBF (cp * 64 + b mod 64) bs)"
  by pat_completeness auto
termination
  by (relation "measure (\<lambda>(n, l, u, c, bs). 2 * length bs + (if n = 0 then 0 else 1))") auto

declare utf8_loop.simps(2) [simp del]

definition strip_bom :: "nat list \<Rightarrow> nat list" where
  "strip_bom bs = (if take 3 bs = [0xEF, 0xBB, 0xBF] then drop 3 bs else bs)"

text \<open>\<open>new TextDecoder().decode(b)\<close>: not fatal, and a leading byte order mark is dropped.\<close>

definition utf8_decode :: "bytes \<Rightarrow> jsstr" where
  "utf8_decode b = concat (map utf16_of (utf8_loop 0 0x80 0xBF 0 (strip_bom (map unat b))))"

text \<open>The texts that survive encode and decode: well formed, not starting with U+FEFF.\<close>

definition plain_text :: "jsstr \<Rightarrow> bool" where
  "plain_text s = (well_formed s \<and> (s \<noteq> [] \<longrightarrow> hd s \<noteq> 0xFEFF))"

subsection \<open>Encoding and decoding are inverse on plain text\<close>

lemma utf8_mods:
  "k < 32 \<Longrightarrow> (192 + k) mod 32 = (k::nat)" "k < 16 \<Longrightarrow> (224 + k) mod 16 = (k::nat)"
  "k < 8 \<Longrightarrow> (240 + k) mod 8 = (k::nat)" "(128 + m mod 64) mod 64 = (m::nat) mod 64"
  by (subst mod_add_left_eq [symmetric], simp)+

lemma mod64_le: "(m::nat) mod 64 \<le> 63"
  using mod_less_divisor [of 64 m] by linarith

lemma utf8_loop_scalar:
  assumes "is_scalar n"
  shows "utf8_loop 0 0x80 0xBF 0 (utf8_scalar n @ bs) = n # utf8_loop 0 0x80 0xBF 0 bs"
proof -
  note evals = utf8_scalar_def utf8_loop.simps(2) utf8_mods mod64_le
  define q r where "q = n div 64" and "r = n div 4096"
  have n: "q * 64 + n mod 64 = n" and q: "r * 64 + q mod 64 = q"
    and r: "n div 262144 * 64 + r mod 64 = r"
    using div_mult2_eq [of n 64 64] div_mult2_eq [of n 4096 64] by (simp_all add: q_def r_def)
  consider "n < 0x80" | "0x80 \<le> n" "n < 0x800" | "0x800 \<le> n" "n < 0x10000" | "0x10000 \<le> n" "n < 0x110000"
    using assms unfolding is_scalar_def by linarith
  then show ?thesis
  proof cases
    case 1 then show ?thesis by (simp add: evals)
  next
    case 2
    then have "q < 32" "2 \<le> q" by (simp_all add: q_def)
    then show ?thesis using 2 n by (simp add: evals flip: q_def)
  next
    case 3
    then have "r < 16" "32 \<le> q" by (simp_all add: q_def r_def)
    moreover have "r = 13 \<Longrightarrow> q < 864"
      using 3 assms by (auto simp: q_def r_def is_scalar_def)
    ultimately show ?thesis using 3 n q mod64_le [of q]
      by (auto simp: evals simp flip: q_def r_def)
  next
    case 4
    then have "n div 262144 \<le> 4" "16 \<le> r" "r < 272" by (simp_all add: r_def)
    then show ?thesis using 4 n q r mod64_le [of q] mod64_le [of r]
      by (auto simp: evals simp flip: q_def r_def)
  qed
qed

lemma utf8_loop_scalars:
  "\<forall>n \<in> set ns. is_scalar n \<Longrightarrow> utf8_loop 0 0x80 0xBF 0 (concat (map utf8_scalar ns)) = ns"
  by (induction ns) (simp_all add: utf8_loop_scalar)
lemma unat_jschar: "unat (c :: jschar) < 65536" using unsigned_less [of c] by simp
lemma code_points_scalar: "\<forall>n \<in> set (code_points s). is_scalar n"
proof (induction s rule: code_points.induct)
  case (2 c) then show ?case using unat_jschar [of c] by (auto simp: is_scalar_def is_hi_def is_lo_def)
next
  case (3 c d cs)
  have "is_hi c \<Longrightarrow> is_lo d \<Longrightarrow> is_scalar (surrogate_pair c d)"
    by (auto simp: is_hi_def is_lo_def surrogate_pair_def is_scalar_def)
  moreover have "\<not> is_hi c \<Longrightarrow> \<not> is_lo c \<Longrightarrow> is_scalar (unat c)"
    using unat_jschar [of c] by (auto simp: is_hi_def is_lo_def is_scalar_def)
  ultimately show ?case using 3 by (auto simp: is_scalar_def)
qed simp

lemma utf16_of_pair: "is_hi c \<Longrightarrow> is_lo d \<Longrightarrow> utf16_of (surrogate_pair c d) = [c, d]"
proof -
  assume hi: "is_hi c" and lo: "is_lo d"
  define a b where "a = unat c - 0xD800" and "b = unat d - 0xDC00"
  have b: "b < 1024" and c: "unat c = 0xD800 + a" and d: "unat d = 0xDC00 + b"
    using hi lo by (auto simp: is_hi_def is_lo_def a_def b_def)
  have "surrogate_pair c d = 0x10000 + (a * 1024 + b)"
    by (simp add: surrogate_pair_def a_def b_def)
  then have "utf16_of (surrogate_pair c d) = [of_nat (0xD800 + a), of_nat (0xDC00 + b)]"
    using b by (simp add: utf16_of_def)
  then show ?thesis
    unfolding c [symmetric] d [symmetric] by simp
qed

lemma utf16_of_unat: "utf16_of (unat c) = [c]"
  using unat_jschar [of c] by (simp add: utf16_of_def)

lemma utf16_code_points: "well_formed s \<Longrightarrow> concat (map utf16_of (code_points s)) = s"
  by (induction s rule: code_points.induct) (auto simp: utf16_of_pair utf16_of_unat split: if_splits)

lemma utf8_scalar_bytes: "is_scalar n \<Longrightarrow> \<forall>b \<in> set (utf8_scalar n). b < 256"
  by (auto simp: utf8_scalar_def is_scalar_def)

lemma unat_of_nat_bytes: "\<forall>b \<in> set bs. b < 256 \<Longrightarrow> map unat (map (of_nat :: nat \<Rightarrow> byte) bs) = bs"
  by (induction bs) (auto simp: unat_of_nat)

lemma unat_utf8_encode: "map unat (utf8_encode s) = concat (map utf8_scalar (code_points s))"
  unfolding utf8_encode_def
  by (rule unat_of_nat_bytes) (use code_points_scalar [of s] utf8_scalar_bytes in auto)

lemma utf8_scalar_bom:
  assumes "take 3 (utf8_scalar n @ bs) = [0xEF, 0xBB, 0xBF]"
  shows "n = 0xFEFF"
proof -
  define q r where "q = n div 64" and "r = n div 4096"
  have n: "q * 64 + n mod 64 = n" and q: "r * 64 + q mod 64 = q"
    using div_mult2_eq [of n 64 64] by (simp_all add: q_def r_def)
  have "n < 0x800 \<Longrightarrow> q < 32" by (simp add: q_def)
  then have "224 + r = 239" "128 + q mod 64 = 187" "128 + n mod 64 = 191"
    using assms by (auto simp: utf8_scalar_def simp flip: q_def r_def split: if_splits)
  then show ?thesis using n q by simp
qed

lemma code_points_hd: "code_points s = 0xFEFF # ns \<Longrightarrow> hd s = 0xFEFF"
  by (cases s rule: code_points.cases)
    (auto simp: surrogate_pair_def word_unat_eq_iff split: if_splits)

lemma strip_bom_encode:
  assumes "plain_text s"
  shows "strip_bom (concat (map utf8_scalar (code_points s))) = concat (map utf8_scalar (code_points s))"
proof (cases "code_points s")
  case (Cons n ns)
  have "s \<noteq> []" using Cons by auto
  then have "n \<noteq> 0xFEFF" using assms Cons code_points_hd unfolding plain_text_def by blast
  then show ?thesis using utf8_scalar_bom [of n] Cons by (auto simp: strip_bom_def)
qed (simp add: strip_bom_def)

lemma utf8_roundtrip: "plain_text s \<Longrightarrow> utf8_decode (utf8_encode s) = s"
  unfolding utf8_decode_def unat_utf8_encode
  by (simp add: strip_bom_encode utf8_loop_scalars code_points_scalar utf16_code_points plain_text_def)

interpretation utf8: codec utf8_encode "\<lambda>b. Some (utf8_decode b)" plain_text
  by unfold_locales (simp add: utf8_roundtrip)

lemma utf8_encode_Nil [simp]: "utf8_encode [] = []"
  by (simp add: utf8_encode_def)

lemma code_points_eq_Nil [simp]: "code_points s = [] \<longleftrightarrow> s = []"
  by (cases s rule: code_points.cases) auto

text \<open>Well formed texts have distinct encodings, the byte order mark included.\<close>

lemma utf8_encode_inject:
  assumes "well_formed s" "well_formed t"
  shows "utf8_encode s = utf8_encode t \<longleftrightarrow> s = t"
proof
  assume "utf8_encode s = utf8_encode t"
  then have "concat (map utf8_scalar (code_points s)) = concat (map utf8_scalar (code_points t))"
    by (simp flip: unat_utf8_encode)
  then have "code_points s = code_points t"
    by (metis utf8_loop_scalars code_points_scalar)
  then show "s = t"
    by (metis utf16_code_points assms)
qed simp

text \<open>Strings without surrogates, in particular ASCII ones.\<close>

lemma no_surrogates:
  assumes "\<forall>c \<in> set s. unat c < 0xD800"
  shows "well_formed s" "code_points s = map unat s"
  using assms by (induction s rule: well_formed.induct) (auto simp: is_hi_def is_lo_def)

definition ascii :: "jsstr \<Rightarrow> bool" where
  "ascii s = (\<forall>c \<in> set s. unat c < 128)"

lemma ascii_simps [simp]:
  "ascii []" "ascii (c # s) \<longleftrightarrow> unat c < 128 \<and> ascii s" "ascii (s @ t) \<longleftrightarrow> ascii s \<and> ascii t"
  by (auto simp: ascii_def)

lemma ascii_well_formed: "ascii s \<Longrightarrow> well_formed s"
  by (rule no_surrogates) (auto simp: ascii_def)

lemma utf8_encode_ascii:
  assumes "ascii s"
  shows "utf8_encode s = map (\<lambda>c. of_nat (unat c)) s"
proof -
  have "code_points s = map unat s"
    by (rule no_surrogates) (use assms in \<open>auto simp: ascii_def\<close>)
  moreover have "map of_nat (concat (map utf8_scalar (map unat s))) = map (\<lambda>c. of_nat (unat c)) s"
    using assms by (induction s) (auto simp: utf8_scalar_def)
  ultimately show ?thesis by (simp add: utf8_encode_def)
qed

end
