(* ===== verification/Js_Base64.thy ===== *)
theory Js_Base64
  imports Js_Text
begin

text \<open>
  Base64url without padding as the routes write it over \<open>btoa\<close> and \<open>atob\<close>
  (\<open>b64encode\<close> and \<open>b64decode\<close> of \<open>src/routes/lease-middleware.ts\<close>), lower-case hex
  (\<open>certFingerprint\<close>, \<open>nextChainHash\<close>, \<open>digestBytes\<close>) and the decimal rendering of an
  integer in a template literal. Decoding undoes encoding for base64url, and the three renderings
  are injective.
\<close>

section \<open>Base64\<close>

definition b64_alphabet :: string where
  "b64_alphabet = ''ABCDEFGHIJKLMNOPQRSTUVWXYZabcdefghijklmnopqrstuvwxyz0123456789+/''"

definition b64_digit :: "nat \<Rightarrow> jschar" where
  "b64_digit n = of_char (b64_alphabet ! n)"

definition b64_value :: "jschar \<Rightarrow> nat option" where
  "b64_value c = index_of c (js b64_alphabet)"

text \<open>\<open>btoa\<close> of the binary string of some bytes.\<close>

fun btoa :: "bytes \<Rightarrow> jsstr" where
  "btoa [] = []"
| "btoa [a] = [b64_digit (unat a div 4), b64_digit (unat a mod 4 * 16), of_char CHR ''='', of_char CHR ''='']"
| "btoa [a, b] =
     [b64_digit (unat a div 4), b64_digit (unat a mod 4 * 16 + unat b div 16),
      b64_digit (unat b mod 16 * 4), of_char CHR ''='']"
| "btoa (a # b # c # r) =
     [b64_digit (unat a div 4), b64_digit (unat a mod 4 * 16 + unat b div 16),
      b64_digit (unat b mod 16 * 4 + unat c div 64), b64_digit (unat c mod 64)] @ btoa r"

fun b64_groups :: "nat list \<Rightarrow> bytes" where
  "b64_groups (w # x # y # z # r) =
     [of_nat (w * 4 + x div 16), of_nat (x mod 16 * 16 + y div 4), of_nat (y mod 4 * 64 + z)] @ b64_groups r"
| "b64_groups [w, x, y] = [of_nat (w * 4 + x div 16), of_nat (x mod 16 * 16 + y div 4)]"
| "b64_groups [w, x] = [of_nat (w * 4 + x div 16)]"
| "b64_groups _ = []"

definition is_ws :: "jschar \<Rightarrow> bool" where
  "is_ws c = (c = 9 \<or> c = 10 \<or> c = 12 \<or> c = 13 \<or> c = 32)"

definition drop_pad :: "jsstr \<Rightarrow> jsstr" where
  "drop_pad s =
     (if length s mod 4 = 0 then
        (if ends_with s (js ''=='') then take (length s - 2) s
         else if ends_with s (js ''='') then take (length s - 1) s else s)
      else s)"

text \<open>\<open>atob\<close>, the forgiving base64 decoder; \<open>None\<close> is the \<open>InvalidCharacterError\<close> it throws.\<close>

definition atob :: "jsstr \<Rightarrow> bytes option" where
  "atob s =
     (let t = drop_pad (filter (\<lambda>c. \<not> is_ws c) s); vs = map b64_value t in
      if length t mod 4 = 1 \<or> None \<in> set vs then None
      else Some (b64_groups (map the vs)))"

text \<open>The base64url pair of the routes: \<open>b64encode\<close> and \<open>b64decode\<close>.\<close>

definition url_char :: "jschar \<Rightarrow> jschar" where
  "url_char c = (if c = of_char CHR ''+'' then of_char CHR ''-''
                 else if c = of_char CHR ''/'' then of_char CHR ''_'' else c)"

definition std_char :: "jschar \<Rightarrow> jschar" where
  "std_char c = (if c = of_char CHR ''-'' then of_char CHR ''+''
                 else if c = of_char CHR ''_'' then of_char CHR ''/'' else c)"

definition strip_eq :: "jsstr \<Rightarrow> jsstr" where
  "strip_eq s = rev (dropWhile (\<lambda>c. c = of_char CHR ''='') (rev s))"

definition b64encode :: "bytes \<Rightarrow> jsstr" where
  "b64encode bs = strip_eq (map url_char (btoa bs))"

definition b64decode :: "jsstr \<Rightarrow> bytes option" where
  "b64decode s = atob (map std_char s @ drop ((length s + 3) mod 4) (js ''===''))"

lemma b64_alphabet_length: "length b64_alphabet = 64"
  by (simp add: b64_alphabet_def)

lemma index_of_nth: "distinct xs \<Longrightarrow> i < length xs \<Longrightarrow> index_of (xs ! i) xs = Some i"
  by (induction xs arbitrary: i) (auto simp: nth_Cons split: nat.splits)

lemma b64_alphabet_distinct: "distinct b64_alphabet"
  by (simp add: b64_alphabet_def)

lemma b64_digit_value [simp]: "n < 64 \<Longrightarrow> b64_value (b64_digit n) = Some n"
  unfolding b64_value_def b64_digit_def
  using index_of_nth [of "js b64_alphabet" n] b64_alphabet_distinct b64_alphabet_length
  by (simp add: distinct_map inj_on_def)

lemma b64_alphabet_chars:
  "list_all (\<lambda>c. std_char (url_char (of_char c)) = of_char c \<and> url_char (of_char c) \<noteq> of_char CHR ''='' \<and>
     \<not> is_ws (of_char c) \<and> (of_char c :: jschar) \<noteq> of_char CHR ''='' \<and> unat (url_char (of_char c)) < 128 \<and>
     url_char (of_char c) \<noteq> of_char CHR ''.'') b64_alphabet"
  by (simp add: b64_alphabet_def url_char_def std_char_def is_ws_def)

lemma b64_digit_props:
  assumes "n < 64"
  shows "std_char (url_char (b64_digit n)) = b64_digit n" "url_char (b64_digit n) \<noteq> of_char CHR ''=''"
    "\<not> is_ws (b64_digit n)" "b64_digit n \<noteq> of_char CHR ''=''" "unat (url_char (b64_digit n)) < 128"
    "url_char (b64_digit n) \<noteq> of_char CHR ''.''"
  using assms b64_alphabet_chars b64_alphabet_length
  by (simp_all add: list_all_length b64_digit_def)

text \<open>The encoder group by group, its padding gone.\<close>

lemma strip_eq_simps [simp]:
  "strip_eq [] = []" "strip_eq [61] = []" "strip_eq [61, 61] = []" "url_char 61 = 61"
  by (simp_all add: strip_eq_def url_char_def)

lemma strip_eq_Cons: "c \<noteq> 61 \<Longrightarrow> strip_eq (c # s) = c # strip_eq s"
  by (simp add: strip_eq_def dropWhile_append)

lemma byte_unat: "unat (b :: byte) < 256"
  using unsigned_less [of b] by simp

lemma b64_digit_bounds:
  "unat (a :: byte) div 4 < 64" "unat (a :: byte) mod 4 * 16 + unat (b :: byte) div 16 < 64"
  "unat (a :: byte) mod 4 * 16 < 64" "unat (b :: byte) mod 16 * 4 < 64"
  "unat (b :: byte) mod 16 * 4 + unat (c :: byte) div 64 < 64" "unat (c :: byte) mod 64 < 64"
  using byte_unat [of a] byte_unat [of b] byte_unat [of c] by (simp_all add: less_mult_imp_div_less) 

lemma b64encode_simps:
  "b64encode [] = []"
  "b64encode [a] = map url_char [b64_digit (unat a div 4), b64_digit (unat a mod 4 * 16)]"
  "b64encode [a, b] = map url_char
     [b64_digit (unat a div 4), b64_digit (unat a mod 4 * 16 + unat b div 16), b64_digit (unat b mod 16 * 4)]"
  "b64encode (a # b # c # r) = map url_char
     [b64_digit (unat a div 4), b64_digit (unat a mod 4 * 16 + unat b div 16),
      b64_digit (unat b mod 16 * 4 + unat c div 64), b64_digit (unat c mod 64)] @ b64encode r"
  using b64_digit_props(2) [OF b64_digit_bounds(1), of a] b64_digit_props(2) [OF b64_digit_bounds(2), of a b]
    b64_digit_props(2) [OF b64_digit_bounds(3), of a] b64_digit_props(2) [OF b64_digit_bounds(4), of b]
    b64_digit_props(2) [OF b64_digit_bounds(5), of b c] b64_digit_props(2) [OF b64_digit_bounds(6), of c]
  by (simp_all add: b64encode_def strip_eq_Cons)

text \<open>What \<open>b64decode\<close> sees of an encoding: the digits again, whose groups are the bytes.\<close>

lemma b64_groups_digits:
  "unat a div 4 * 4 + (unat a mod 4 * 16 + unat b div 16) div 16 = unat (a :: byte)"
  "unat a div 4 * 4 + (unat a mod 4 * 16) div 16 = unat (a :: byte)"
  "(unat a mod 4 * 16 + unat b div 16) mod 16 * 16 + (unat b mod 16 * 4 + unat c div 64) div 4 = unat (b :: byte)"
  "(unat a mod 4 * 16 + unat b div 16) mod 16 * 16 + (unat b mod 16 * 4) div 4 = unat (b :: byte)"
  "(unat b mod 16 * 4 + unat c div 64) mod 4 * 64 + unat c mod 64 = unat (c :: byte)"
  using byte_unat [of a] byte_unat [of b] byte_unat [of c]
  by (simp_all add: div_mult_mod_eq mult.commute)

fun b64_digits :: "bytes \<Rightarrow> nat list" where
  "b64_digits [] = []"
| "b64_digits [a] = [unat a div 4, unat a mod 4 * 16]"
| "b64_digits [a, b] = [unat a div 4, unat a mod 4 * 16 + unat b div 16, unat b mod 16 * 4]"
| "b64_digits (a # b # c # r) =
     [unat a div 4, unat a mod 4 * 16 + unat b div 16, unat b mod 16 * 4 + unat c div 64, unat c mod 64] @ b64_digits r"

lemma b64_digits_bound: "\<forall>d \<in> set (b64_digits bs). d < 64"
  by (induction bs rule: b64_digits.induct) (simp_all add: b64_digit_bounds)

lemma b64_digits_length: "length (b64_digits bs) mod 4 \<noteq> 1"
  by (induction bs rule: b64_digits.induct) simp_all

lemma b64encode_digits: "b64encode bs = map (\<lambda>d. url_char (b64_digit d)) (b64_digits bs)"
  by (induction bs rule: b64_digits.induct) (simp_all add: b64encode_simps)

lemma word_of_nat_unat: "word_of_nat (unat w) = w"
  by simp

lemma b64_groups_of_digits: "b64_groups (b64_digits bs) = bs"
  by (induction bs rule: b64_digits.induct)
    (simp_all only: b64_digits.simps b64_groups.simps append_Cons append_Nil b64_groups_digits word_of_nat_unat)

lemma drop_pad_padded:
  assumes "of_char CHR ''='' \<notin> set t" "length t mod 4 \<noteq> 1"
  shows "drop_pad (t @ drop ((length t + 3) mod 4) (js ''==='')) = t"
proof -
  have no: "\<not> ends_with (t @ u) (js ''=='' )" if "length u < 2" "of_char CHR ''='' \<notin> set t" "u \<noteq> [] \<Longrightarrow> t \<noteq> []" for u
    using that by (cases t rule: rev_cases; cases u) (auto simp: ends_with_iff append_eq_append_conv2 Cons_eq_append_conv)
  have no1: "\<not> ends_with t (js ''='')"
    using assms(1) by (auto simp: ends_with_iff)
  consider "length t mod 4 = 0" | "length t mod 4 = 2" | "length t mod 4 = 3"
    using assms(2) by linarith
  then show ?thesis
  proof cases
    case 1
    then have "(length t + 3) mod 4 = 3" by presburger
    then show ?thesis using no [of "[]"] no1 assms by (simp add: drop_pad_def)
  next
    case 2
    then have "(length t + 3) mod 4 = 1" "(length t + 2) mod 4 = 0" by presburger+
    then show ?thesis by (simp add: drop_pad_def ends_with_def)
  next
    case 3
    then have "(length t + 3) mod 4 = 2" "(length t + 1) mod 4 = 0" "t \<noteq> []" by (presburger, presburger, auto)
    then show ?thesis using no [of "js ''=''"] assms(1) by (auto simp: drop_pad_def ends_with_def)
  qed
qed

lemma b64_roundtrip: "b64decode (b64encode bs) = Some bs"
proof -
  let ?t = "map b64_digit (b64_digits bs)"
  have digit: "std_char (url_char (b64_digit d)) = b64_digit d" "\<not> is_ws (b64_digit d)"
    "b64_digit d \<noteq> of_char CHR ''=''" "b64_value (b64_digit d) = Some d" if "d \<in> set (b64_digits bs)" for d
    using that b64_digits_bound [of bs] b64_digit_props [of d] by simp_all
  have "filter (\<lambda>c. \<not> is_ws c) (?t @ drop n (js ''==='')) = ?t @ drop n (js ''==='')" for n
    using digit(2) by (auto simp: filter_id_conv is_ws_def dest: in_set_dropD)
  moreover have "of_char CHR ''='' \<notin> set ?t"
    unfolding set_map image_iff using digit(3) by metis
  then have "drop_pad (?t @ drop ((length ?t + 3) mod 4) (js ''==='')) = ?t"
    using b64_digits_length [of bs] by (intro drop_pad_padded) simp_all
  moreover have "map b64_value ?t = map Some (b64_digits bs)"
    using digit(4) by simp
  moreover have "map std_char (b64encode bs) = ?t" "length (b64encode bs) = length ?t"
    using digit(1) by (simp_all add: b64encode_digits)
  ultimately show ?thesis
    using b64_digits_length [of bs]
    by (simp only: b64decode_def atob_def Let_def) (auto simp: b64_groups_of_digits comp_def)
qed

interpretation b64: codec b64encode b64decode "\<lambda>_. True"
  by unfold_locales (simp add: b64_roundtrip)

lemma b64encode_ascii: "ascii (b64encode bs)"
  using b64_digits_bound [of bs] b64_digit_props(5) by (auto simp: ascii_def b64encode_digits)

lemma b64encode_no_dot: "of_char CHR ''.'' \<notin> set (b64encode bs)"
  unfolding b64encode_digits set_map image_iff using b64_digits_bound [of bs] b64_digit_props(6) by metis

section \<open>Hexadecimal and decimal\<close>

text \<open>\<open>b.toString(16).padStart(2, "0")\<close>, byte by byte.\<close>

definition hex_alphabet :: string where
  "hex_alphabet = ''0123456789abcdef''"

definition hex_digit :: "nat \<Rightarrow> jschar" where
  "hex_digit n = of_char (hex_alphabet ! n)"

definition to_hex :: "bytes \<Rightarrow> jsstr" where
  "to_hex bs = concat (map (\<lambda>b. [hex_digit (unat b div 16), hex_digit (unat b mod 16)]) bs)"

lemma hex_digit_inject: "m < 16 \<Longrightarrow> n < 16 \<Longrightarrow> hex_digit m = hex_digit n \<longleftrightarrow> m = n"
proof -
  have "distinct hex_alphabet" "length hex_alphabet = 16"
    by (simp_all add: hex_alphabet_def)
  then show "m < 16 \<Longrightarrow> n < 16 \<Longrightarrow> hex_digit m = hex_digit n \<longleftrightarrow> m = n"
    by (simp add: hex_digit_def nth_eq_iff_index_eq)
qed

lemma hex_digit_ascii: "n < 16 \<Longrightarrow> unat (hex_digit n) < 128"
proof -
  have "list_all (\<lambda>c. of_char c < (128 :: nat)) hex_alphabet" "length hex_alphabet = 16"
    by (simp_all add: hex_alphabet_def)
  then show "n < 16 \<Longrightarrow> unat (hex_digit n) < 128"
    by (simp add: hex_digit_def list_all_length)
qed

lemma to_hex_simps [simp]:
  "to_hex [] = []" "to_hex (b # bs) = hex_digit (unat b div 16) # hex_digit (unat b mod 16) # to_hex bs"
  by (simp_all add: to_hex_def)

lemma length_to_hex [simp]: "length (to_hex bs) = 2 * length bs"
  by (induction bs) simp_all

lemma byte_nibbles: "unat (b :: byte) div 16 < 16" "unat (b :: byte) mod 16 < 16"
  using byte_unat [of b] by simp_all

lemma to_hex_inject [simp]: "to_hex a = to_hex b \<longleftrightarrow> a = b"
proof (induction a arbitrary: b)
  case Nil
  then show ?case by (cases b) simp_all
next
  case (Cons x a)
  have "unat x div 16 = unat y div 16 \<Longrightarrow> unat x mod 16 = unat y mod 16 \<Longrightarrow> x = y" for y
    by (metis div_mult_mod_eq word_unat_eq_iff)
  with Cons show ?case
    by (cases b) (auto simp: hex_digit_inject byte_nibbles)
qed

lemma to_hex_ascii: "ascii (to_hex bs)"
  by (induction bs) (simp_all add: hex_digit_ascii byte_nibbles)

text \<open>The template literal of an integer: decimal digits, a minus sign before them if negative.\<close>

fun dec_digits :: "nat \<Rightarrow> jsstr" where
  "dec_digits n = (if n < 10 then [of_nat (48 + n)] else dec_digits (n div 10) @ [of_nat (48 + n mod 10)])"

declare dec_digits.simps [simp del]

definition dec_of_int :: "int \<Rightarrow> jsstr" where
  "dec_of_int n = (if n < 0 then of_char CHR ''-'' # dec_digits (nat (- n)) else dec_digits (nat n))"

lemma dec_digits_nonempty: "dec_digits n \<noteq> []"
  by (subst dec_digits.simps) simp

lemma dec_digits_range: "\<forall>c \<in> set (dec_digits n). 48 \<le> unat c \<and> unat c \<le> 57"
proof (induction n rule: dec_digits.induct)
  case (1 n)
  have "m < 10 \<Longrightarrow> unat (of_nat (48 + m) :: jschar) = 48 + m" for m
    by (simp add: unat_of_nat del: of_nat_add of_nat_numeral)
  with 1 show ?case
    by (cases "n < 10") (auto simp: dec_digits.simps [of n] simp del: of_nat_add of_nat_numeral)
qed

lemma dec_digit_inject:
  "m < 10 \<Longrightarrow> n < 10 \<Longrightarrow> (of_nat (48 + m) :: jschar) = of_nat (48 + n) \<longleftrightarrow> m = n"
  by (simp add: word_unat_eq_iff unat_of_nat del: of_nat_add of_nat_numeral)

lemma dec_digits_inject [simp]: "dec_digits m = dec_digits n \<longleftrightarrow> m = n"
proof (induction m arbitrary: n rule: dec_digits.induct)
  case (1 m)
  have "m div 10 = n div 10 \<Longrightarrow> m mod 10 = n mod 10 \<Longrightarrow> m = n"
    by (metis div_mult_mod_eq)
  with 1 show ?case
    by (auto simp: dec_digits.simps [of m] dec_digits.simps [of n] dec_digits_nonempty dec_digits_nonempty [symmetric] dec_digit_inject
        simp del: of_nat_add of_nat_numeral)
qed

lemma dec_of_int_inject [simp]: "dec_of_int m = dec_of_int n \<longleftrightarrow> m = n"
proof -
  have "of_char CHR ''-'' # xs \<noteq> dec_digits k" for xs k
  proof
    assume "of_char CHR ''-'' # xs = dec_digits k"
    then have "of_char CHR ''-'' \<in> set (dec_digits k)" by (metis list.set_intros(1))
    then show False using dec_digits_range [of k] by fastforce
  qed
  then show ?thesis by (auto simp: dec_of_int_def) (metis+)
qed

lemma dec_of_int_ascii: "ascii (dec_of_int n)"
  using dec_digits_range by (fastforce simp: ascii_def dec_of_int_def)

end
