(* ===== verification/Receipts_Cbor.thy ===== *)
theory Receipts_Cbor
  imports Js_Base64
begin

text \<open>
  The canonical CBOR codec of signed receipts, \<open>src/wire/receipts-cbor.ts\<close>: the encoder
  (\<open>canonicalCbor\<close>) and the strict decoder (\<open>decodeCanonicalCbor\<close>), every \<open>throw\<close> a value of
  \<open>cbor_error\<close>. The decoder's cursor is the list of bytes not yet read; the 32-bit operators of
  \<open>readArgument\<close> are kept at their width. A JS object is the list of its own enumerable
  properties; an entry under \<open>__proto__\<close> stands for a prototype that an assignment to that name
  installed, and no own property has that name. A prototype that is a byte array gives its object the
  accessors of typed arrays, which this model does not follow: the decoder answers
  \<open>ExoticPrototype\<close> there, and no theorem says anything about such an input.

  Shown here: heads are read back as written, the decoder returns on every input and consumes what
  it reads, decoding an encoding gives the value back, the encoder's bytes do not depend on the
  order of properties, and a four-byte argument with its top bit set is refused.
\<close>

section \<open>Values and errors\<close>

datatype js_number = NonFinite | NonInteger | Integer int

datatype cbor_value =
    Num js_number
  | Big int
  | Bytes bytes
  | Text jsstr
  | Arr "cbor_value list"
  | Obj "(jsstr \<times> cbor_value) list"
  | Null
  | Undefined

datatype cbor_error =
    NegativeHead | ExceedsU64
  | NonFiniteNumber | NonIntegerNumber | NegativeUint
  | NullishValue | DuplicateKey
  | UnexpectedEnd | ShortRead
  | NonCanonical1 | NonCanonical2 | NonCanonical4 | NonCanonical8 | ForbiddenInfo
  | TrailingBytes | NegativeForbidden | TagForbidden | SimpleForbidden
  | NonTextKey | KeyOrder | UnreachableMajor | NoProgress | ExoticPrototype

section \<open>Encoder\<close>

text \<open>The loop over \<open>out[8] .. out[1]\<close>: low byte last.\<close>

fun be_bytes :: "nat \<Rightarrow> int \<Rightarrow> bytes" where
  "be_bytes 0 v = []"
| "be_bytes (Suc n) v = be_bytes n (drop_bit 8 v) @ [to_u8 (v AND 0xff)]"

definition writeHead :: "int \<Rightarrow> int \<Rightarrow> cbor_error + bytes" where
  "writeHead major value =
     (if value < 0 then Inl NegativeHead
      else let tag = js_shl (js_bitand major 0x07) 5 in
        if value < 24 then Inr [to_u8 (js_bitor tag value)]
        else if value < 0x100 then Inr [to_u8 (js_bitor tag 24), to_u8 value]
        else if value < 0x10000 then
          Inr [to_u8 (js_bitor tag 25), to_u8 (js_bitand (js_shr value 8) 0xff), to_u8 (js_bitand value 0xff)]
        else if value < 0x100000000 then
          Inr [to_u8 (js_bitor tag 26),
               to_u8 (js_bitand (js_ushr value 24) 0xff), to_u8 (js_bitand (js_ushr value 16) 0xff),
               to_u8 (js_bitand (js_ushr value 8) 0xff), to_u8 (js_bitand value 0xff)]
        else if value < 0x10000000000000000 then Inr (to_u8 (js_bitor tag 27) # be_bytes 8 value)
        else Inl ExceedsU64)"

definition encodeUint :: "int \<Rightarrow> cbor_error + bytes" where
  "encodeUint v = (if v < 0 then Inl NegativeUint else writeHead 0 v)"

definition encodeNumber :: "js_number \<Rightarrow> cbor_error + bytes" where
  "encodeNumber v =
     (case v of NonFinite \<Rightarrow> Inl NonFiniteNumber
      | NonInteger \<Rightarrow> Inl NonIntegerNumber
      | Integer n \<Rightarrow> encodeUint n)"

definition with_head :: "int \<Rightarrow> int \<Rightarrow> bytes \<Rightarrow> cbor_error + bytes" where
  "with_head major len payload =
     (case writeHead major len of Inl e \<Rightarrow> Inl e | Inr head \<Rightarrow> Inr (head @ payload))"

definition encodeBytes :: "bytes \<Rightarrow> cbor_error + bytes" where
  "encodeBytes v = with_head 2 (int (length v)) v"

definition encodeText :: "jsstr \<Rightarrow> cbor_error + bytes" where
  "encodeText v = (let b = utf8_encode v in with_head 3 (int (length b)) b)"

fun compareBytes :: "bytes \<Rightarrow> bytes \<Rightarrow> int" where
  "compareBytes (a # as) (b # bs) = (if a \<noteq> b then uint a - uint b else compareBytes as bs)"
| "compareBytes as bs = int (length as) - int (length bs)"

fun adjacent_dup :: "(bytes \<times> bytes) list \<Rightarrow> bool" where
  "adjacent_dup (x # y # r) = (compareBytes (fst x) (fst y) = 0 \<or> adjacent_dup (y # r))"
| "adjacent_dup _ = False"

text \<open>The part of \<open>encodeMap\<close> after the loop over \<open>Object.entries\<close>.\<close>

definition finishMap :: "(bytes \<times> bytes) list \<Rightarrow> cbor_error + bytes" where
  "finishMap entries =
     (let sorted_entries = sort_by (\<lambda>a b. compareBytes (fst a) (fst b)) entries in
      if adjacent_dup sorted_entries then Inl DuplicateKey
      else with_head 5 (int (length sorted_entries)) (concat (map (\<lambda>(k, v). k @ v) sorted_entries)))"

fun encodeValue :: "cbor_value \<Rightarrow> cbor_error + bytes"
  and encodeItems :: "cbor_value list \<Rightarrow> cbor_error + bytes"
  and encodeEntries :: "(jsstr \<times> cbor_value) list \<Rightarrow> cbor_error + (bytes \<times> bytes) list" where
  "encodeValue (Num n) = encodeNumber n"
| "encodeValue (Big n) = encodeUint n"
| "encodeValue (Bytes b) = encodeBytes b"
| "encodeValue (Text s) = encodeText s"
| "encodeValue (Arr vs) =
     (case writeHead 4 (int (length vs)) of Inl e \<Rightarrow> Inl e
      | Inr head \<Rightarrow> (case encodeItems vs of Inl e \<Rightarrow> Inl e | Inr body \<Rightarrow> Inr (head @ body)))"
| "encodeValue (Obj m) = (case encodeEntries m of Inl e \<Rightarrow> Inl e | Inr es \<Rightarrow> finishMap es)"
| "encodeValue Null = Inl NullishValue"
| "encodeValue Undefined = Inl NullishValue"
| "encodeItems [] = Inr []"
| "encodeItems (v # vs) =
     (case encodeValue v of Inl e \<Rightarrow> Inl e
      | Inr b \<Rightarrow> (case encodeItems vs of Inl e \<Rightarrow> Inl e | Inr bs \<Rightarrow> Inr (b @ bs)))"
| "encodeEntries [] = Inr []"
| "encodeEntries ((k, v) # r) =
     (if v = Undefined \<or> k = js ''__proto__'' then encodeEntries r
      else (case encodeText k of Inl e \<Rightarrow> Inl e
        | Inr ke \<Rightarrow> (case encodeValue v of Inl e \<Rightarrow> Inl e
            | Inr ve \<Rightarrow> (case encodeEntries r of Inl e \<Rightarrow> Inl e | Inr es \<Rightarrow> Inr ((ke, ve) # es)))))"

definition canonicalCbor :: "cbor_value \<Rightarrow> cbor_error + bytes" where
  "canonicalCbor v = encodeValue v"

section \<open>Decoder\<close>

definition readByte :: "bytes \<Rightarrow> cbor_error + (byte \<times> bytes)" where
  "readByte c = (case c of [] \<Rightarrow> Inl UnexpectedEnd | b # r \<Rightarrow> Inr (b, r))"

definition readBytes :: "bytes \<Rightarrow> int \<Rightarrow> cbor_error + (bytes \<times> bytes)" where
  "readBytes c n = (if n > int (length c) then Inl ShortRead else Inr (take (nat n) c, drop (nat n) c))"

text \<open>The loop of the eight-byte argument: \<open>v = (v << 8n) | BigInt(readByte(c))\<close>.\<close>

fun readBig :: "nat \<Rightarrow> int \<Rightarrow> bytes \<Rightarrow> cbor_error + (int \<times> bytes)" where
  "readBig 0 v c = Inr (v, c)"
| "readBig (Suc n) v c =
     (case readByte c of Inl e \<Rightarrow> Inl e | Inr (b, r) \<Rightarrow> readBig n (push_bit 8 v OR uint b) r)"

definition readArgument :: "byte \<Rightarrow> bytes \<Rightarrow> cbor_error + (int \<times> bytes)" where
  "readArgument initial c =
     (let info = js_bitand (uint initial) 0x1f in
      if info < 24 then Inr (info, c)
      else if info = 24 then
        (case readByte c of Inl e \<Rightarrow> Inl e
         | Inr (v, r) \<Rightarrow> if uint v < 24 then Inl NonCanonical1 else Inr (uint v, r))
      else if info = 25 then
        (case readByte c of Inl e \<Rightarrow> Inl e
         | Inr (hi, r) \<Rightarrow> (case readByte r of Inl e \<Rightarrow> Inl e
           | Inr (lo, r') \<Rightarrow>
               let v = js_bitor (js_shl (uint hi) 8) (uint lo)
               in if v < 256 then Inl NonCanonical2 else Inr (v, r')))
      else if info = 26 then
        (case readByte c of Inl e \<Rightarrow> Inl e
         | Inr (b3, r3) \<Rightarrow> (case readByte r3 of Inl e \<Rightarrow> Inl e
           | Inr (b2, r2) \<Rightarrow> (case readByte r2 of Inl e \<Rightarrow> Inl e
             | Inr (b1, r1) \<Rightarrow> (case readByte r1 of Inl e \<Rightarrow> Inl e
               | Inr (b0, r0) \<Rightarrow>
                   let v = js_bitor (js_bitor (js_bitor (js_ushr (js_shl (uint b3) 24) 0) (js_shl (uint b2) 16))
                                       (js_shl (uint b1) 8)) (uint b0)
                   in if v < 65536 then Inl NonCanonical4 else Inr (v, r0)))))
      else if info = 27 then
        (case readBig 8 0 c of Inl e \<Rightarrow> Inl e
         | Inr (v, r) \<Rightarrow> if v < 0x100000000 then Inl NonCanonical8 else Inr (v, r))
      else Inl ForbiddenInfo)"

definition uintValue :: "int \<Rightarrow> cbor_value" where
  "uintValue arg = (if arg < 0x20000000000000 then Num (Integer arg) else Big arg)"

text \<open>\<open>out[key] = v\<close> on a plain object; \<open>__proto__\<close> is the setter every object inherits, which takes objects
  and ignores primitives.\<close>

fun set_prop :: "(jsstr \<times> 'v) list \<Rightarrow> jsstr \<Rightarrow> 'v \<Rightarrow> (jsstr \<times> 'v) list" where
  "set_prop [] k v = [(k, v)]"
| "set_prop ((k', v') # r) k v = (if k' = k then (k, v) # r else (k', v') # set_prop r k v)"

fun js_object :: "cbor_value \<Rightarrow> bool" where
  "js_object (Obj m) = True"
| "js_object (Arr vs) = True"
| "js_object (Bytes b) = True"
| "js_object v = False"

definition exotic :: "jsstr \<Rightarrow> cbor_value \<Rightarrow> bool" where
  "exotic k v = (k = js ''__proto__'' \<and> (case v of Bytes b \<Rightarrow> True | _ \<Rightarrow> False))"

definition assign :: "(jsstr \<times> cbor_value) list \<Rightarrow> jsstr \<Rightarrow> cbor_value \<Rightarrow> (jsstr \<times> cbor_value) list" where
  "assign m k v = (if k = js ''__proto__'' \<and> \<not> js_object v then m else set_prop m k v)"

text \<open>
  \<open>decodeValue\<close> and its two loops. Each reads at least one byte, so the remaining input shrinks;
  the test before a recursive call makes that visible to the termination proof, and
  \<open>decode_shrinks\<close> below shows the branch \<open>NoProgress\<close> is never taken.
\<close>

function decodeValue :: "bytes \<Rightarrow> cbor_error + (cbor_value \<times> bytes)"
  and decodeItems :: "int \<Rightarrow> bytes \<Rightarrow> cbor_error + (cbor_value list \<times> bytes)"
  and decodeEntries :: "int \<Rightarrow> bytes option \<Rightarrow> (jsstr \<times> cbor_value) list \<Rightarrow> bytes
        \<Rightarrow> cbor_error + ((jsstr \<times> cbor_value) list \<times> bytes)" where
  "decodeValue [] = Inl UnexpectedEnd"
| "decodeValue (initial # c) =
     (let major = js_shr (uint initial) 5 in
      if major = 0 then
        (case readArgument initial c of Inl e \<Rightarrow> Inl e | Inr (arg, r) \<Rightarrow> Inr (uintValue arg, r))
      else if major = 1 then Inl NegativeForbidden
      else if major = 2 then
        (case readArgument initial c of Inl e \<Rightarrow> Inl e
         | Inr (len, r) \<Rightarrow> (case readBytes r len of Inl e \<Rightarrow> Inl e | Inr (b, r') \<Rightarrow> Inr (Bytes b, r')))
      else if major = 3 then
        (case readArgument initial c of Inl e \<Rightarrow> Inl e
         | Inr (len, r) \<Rightarrow> (case readBytes r len of Inl e \<Rightarrow> Inl e | Inr (b, r') \<Rightarrow> Inr (Text (utf8_decode b), r')))
      else if major = 4 then
        (case readArgument initial c of Inl e \<Rightarrow> Inl e
         | Inr (n, r) \<Rightarrow>
             if length r \<le> length c
             then (case decodeItems n r of Inl e \<Rightarrow> Inl e | Inr (vs, r') \<Rightarrow> Inr (Arr vs, r'))
             else Inl NoProgress)
      else if major = 5 then
        (case readArgument initial c of Inl e \<Rightarrow> Inl e
         | Inr (n, r) \<Rightarrow>
             if length r \<le> length c
             then (case decodeEntries n None [] r of Inl e \<Rightarrow> Inl e | Inr (m, r') \<Rightarrow> Inr (Obj m, r'))
             else Inl NoProgress)
      else if major = 6 then Inl TagForbidden
      else if major = 7 then Inl SimpleForbidden
      else Inl UnreachableMajor)"
| "decodeItems n c =
     (if n \<le> 0 then Inr ([], c)
      else (case decodeValue c of Inl e \<Rightarrow> Inl e
        | Inr (v, r) \<Rightarrow>
            if length r < length c
            then (case decodeItems (n - 1) r of Inl e \<Rightarrow> Inl e | Inr (vs, r') \<Rightarrow> Inr (v # vs, r'))
            else Inl NoProgress))"
| "decodeEntries n prevKeyBytes out c =
     (if n \<le> 0 then Inr (out, c)
      else (case decodeValue c of Inl e \<Rightarrow> Inl e
        | Inr (key, r) \<Rightarrow>
            (case key of
               Text k \<Rightarrow>
                 let keyBytes = take (length c - length r) c in
                 if (case prevKeyBytes of None \<Rightarrow> False | Some p \<Rightarrow> compareBytes p keyBytes \<ge> 0) then Inl KeyOrder
                 else if length r < length c then
                   (case decodeValue r of Inl e \<Rightarrow> Inl e
                    | Inr (v, r') \<Rightarrow>
                        if exotic k v then Inl ExoticPrototype
                        else if length r' < length c then decodeEntries (n - 1) (Some keyBytes) (assign out k v) r'
                        else Inl NoProgress)
                 else Inl NoProgress
             | _ \<Rightarrow> Inl NonTextKey)))"
  by pat_completeness auto
termination
  by (relation "measure (\<lambda>x. case x of
        Inl c \<Rightarrow> 2 * length c
      | Inr (Inl (n, c)) \<Rightarrow> 2 * length c + 1
      | Inr (Inr (n, p, out, c)) \<Rightarrow> 2 * length c + 1)") auto

declare decodeValue.simps(2) [simp del] decodeItems.simps [simp del] decodeEntries.simps [simp del]

definition decodeCanonicalCbor :: "bytes \<Rightarrow> cbor_error + cbor_value" where
  "decodeCanonicalCbor bs =
     (case decodeValue bs of Inl e \<Rightarrow> Inl e
      | Inr (v, r) \<Rightarrow> if r \<noteq> [] then Inl TrailingBytes else Inr v)"

section \<open>Heads are read back as written\<close>

text \<open>The four-byte argument is the big-endian value, read as a signed 32-bit integer.\<close>

lemma four_byte_value:
  "js_bitor (js_bitor (js_bitor (js_ushr (js_shl (uint b3) 24) 0) (js_shl (uint b2) 16)) (js_shl (uint b1) 8)) (uint b0)
   = to_int32 (uint (b3 :: byte) * 2 ^ 24 + uint (b2 :: byte) * 2 ^ 16 + uint (b1 :: byte) * 2 ^ 8 + uint (b0 :: byte))"
proof -
  note bounds = byte_uint_bounds [of b3] byte_uint_bounds [of b2] byte_uint_bounds [of b1] byte_uint_bounds [of b0]
  have s3: "js_ushr (js_shl (uint b3) 24) 0 = uint b3 * 2 ^ 24"
  proof (cases "uint b3 < 128")
    case True
    then show ?thesis using bounds by (simp add: js_shl_int js_ushr_int to_int32_nonneg)
  next
    case False
    then show ?thesis using bounds by (simp add: js_shl_int js_ushr_int to_int32_high)
  qed
  have s2: "js_shl (uint b2) 16 = uint b2 * 2 ^ 16" and s1: "js_shl (uint b1) 8 = uint b1 * 2 ^ 8"
    using bounds by (simp_all add: js_shl_int to_int32_nonneg)
  have o1: "uint b3 * 2 ^ 24 OR uint b2 * 2 ^ 16 = (uint b3 * 2 ^ 8 + uint b2) * 2 ^ 16"
    using int_or_low [of "uint b2 * 2 ^ 16" 24 "uint b3"] bounds by simp
  have o2: "(uint b3 * 2 ^ 8 + uint b2) * 2 ^ 16 OR uint b1 * 2 ^ 8 = ((uint b3 * 2 ^ 8 + uint b2) * 2 ^ 8 + uint b1) * 2 ^ 8"
    using int_or_low [of "uint b1 * 2 ^ 8" 16 "uint b3 * 2 ^ 8 + uint b2"] bounds by simp
  have o3: "((uint b3 * 2 ^ 8 + uint b2) * 2 ^ 8 + uint b1) * 2 ^ 8 OR uint b0
      = ((uint b3 * 2 ^ 8 + uint b2) * 2 ^ 8 + uint b1) * 2 ^ 8 + uint b0"
    by (rule int_or_low) (use bounds in simp_all)
  show ?thesis
    unfolding s3 s2 s1
    by (simp only: js_bitor_int [of "uint b3 * 2 ^ 24"] o1 js_bitor_absorb js_bitor_int [of "(uint b3 * 2 ^ 8 + uint b2) * 2 ^ 16"] o2 js_bitor_int [of "((uint b3 * 2 ^ 8 + uint b2) * 2 ^ 8 + uint b1) * 2 ^ 8"] o3)
      (simp add: algebra_simps)
qed

lemma two_byte_value: "js_bitor (js_shl (uint (hi :: byte)) 8) (uint (lo :: byte)) = uint hi * 256 + uint lo"
  using js_bitor_low [of "uint lo" 8 "uint hi"] byte_uint_bounds [of hi] byte_uint_bounds [of lo]
  by (simp add: js_shl_int to_int32_nonneg)

lemma readBig_foldl:
  "length bs = n \<Longrightarrow> readBig n a (bs @ r) = Inr (foldl (\<lambda>v b. push_bit 8 v OR uint b) a bs, r)"
  by (induction bs arbitrary: n a) (auto simp: readByte_def)

lemma push_byte: "push_bit 8 v OR uint (b :: byte) = v * 256 + uint b"
  using int_or_low [of "uint b" 8 v] byte_uint_bounds [of b] by (simp add: push_bit_eq_mult)

lemma length_be_bytes [simp]: "length (be_bytes n v) = n"
  by (induction n arbitrary: v) simp_all

lemma foldl_be_bytes:
  "0 \<le> v \<Longrightarrow> v < 256 ^ n \<Longrightarrow> foldl (\<lambda>v b. push_bit 8 v OR uint b) a (be_bytes n v) = a * 256 ^ n + v"
proof (induction n arbitrary: v)
  case (Suc n)
  have "v div 256 < 256 ^ n" using Suc.prems by (simp add: div_less_iff_less_mult mult.commute)
  then show ?case
    using Suc by (simp add: push_byte int_and_masks drop_bit_eq_div algebra_simps)
qed simp

text \<open>The initial byte of a head carries the major type above five bits of information.\<close>

definition initial_byte :: "int \<Rightarrow> int \<Rightarrow> byte" where
  "initial_byte major info = to_u8 (js_bitor (js_shl (js_bitand major 7) 5) info)"

lemma initial_byte_fields:
  assumes "0 \<le> major" "major < 8" "0 \<le> info" "info < 32"
  shows "js_shr (uint (initial_byte major info)) 5 = major" "js_bitand (uint (initial_byte major info)) 31 = info"
proof -
  have "uint (initial_byte major info) = major * 32 + info"
    using assms js_bitor_low [of info 5 major]
    by (simp add: initial_byte_def js_bitand_masks js_shl_int to_int32_nonneg)
  then show "js_shr (uint (initial_byte major info)) 5 = major" "js_bitand (uint (initial_byte major info)) 31 = info"
    using assms by (simp_all add: js_shr_int js_bitand_masks)
qed

definition head_ok :: "int \<Rightarrow> bool" where
  "head_ok n = (0 \<le> n \<and> n < 2 ^ 64 \<and> \<not> (2 ^ 31 \<le> n \<and> n < 2 ^ 32))"

lemma writeHead_cases:
  "0 \<le> n \<Longrightarrow> n < 24 \<Longrightarrow> writeHead m n = Inr [initial_byte m n]"
  "24 \<le> n \<Longrightarrow> n < 256 \<Longrightarrow> writeHead m n = Inr [initial_byte m 24, to_u8 n]"
  "256 \<le> n \<Longrightarrow> n < 65536 \<Longrightarrow> writeHead m n = Inr [initial_byte m 25, to_u8 (n div 256), to_u8 n]"
  "65536 \<le> n \<Longrightarrow> n < 2 ^ 32 \<Longrightarrow> writeHead m n =
     Inr [initial_byte m 26, to_u8 (n div 2 ^ 24), to_u8 (n div 2 ^ 16), to_u8 (n div 2 ^ 8), to_u8 n]"
  "2 ^ 32 \<le> n \<Longrightarrow> n < 2 ^ 64 \<Longrightarrow> writeHead m n = Inr (initial_byte m 27 # be_bytes 8 n)"
proof -
  have u8: "to_u8 (x mod 256) = to_u8 x" for x
    by (simp add: word_uint_eq_iff)
  show "0 \<le> n \<Longrightarrow> n < 24 \<Longrightarrow> writeHead m n = Inr [initial_byte m n]"
    "24 \<le> n \<Longrightarrow> n < 256 \<Longrightarrow> writeHead m n = Inr [initial_byte m 24, to_u8 n]"
    "256 \<le> n \<Longrightarrow> n < 65536 \<Longrightarrow> writeHead m n = Inr [initial_byte m 25, to_u8 (n div 256), to_u8 n]"
    "65536 \<le> n \<Longrightarrow> n < 2 ^ 32 \<Longrightarrow> writeHead m n =
       Inr [initial_byte m 26, to_u8 (n div 2 ^ 24), to_u8 (n div 2 ^ 16), to_u8 (n div 2 ^ 8), to_u8 n]"
    "2 ^ 32 \<le> n \<Longrightarrow> n < 2 ^ 64 \<Longrightarrow> writeHead m n = Inr (initial_byte m 27 # be_bytes 8 n)"
    by (simp_all add: writeHead_def initial_byte_def Let_def js_bitand_masks(1) js_shr_int js_ushr_int u8 del: be_bytes.simps)
qed

lemma readArgument_cases:
  "js_bitand (uint i) 31 = k \<Longrightarrow> k < 24 \<Longrightarrow> readArgument i c = Inr (k, c)"
  "js_bitand (uint i) 31 = 24 \<Longrightarrow> readArgument i (v # c) = (if uint v < 24 then Inl NonCanonical1 else Inr (uint v, c))"
  "js_bitand (uint i) 31 = 25 \<Longrightarrow> readArgument i (hi # lo # c) =
     (if uint hi * 256 + uint lo < 256 then Inl NonCanonical2 else Inr (uint hi * 256 + uint lo, c))"
  "js_bitand (uint i) 31 = 26 \<Longrightarrow> readArgument i (b3 # b2 # b1 # b0 # c) =
     (let v = to_int32 (uint b3 * 2 ^ 24 + uint b2 * 2 ^ 16 + uint b1 * 2 ^ 8 + uint b0)
      in if v < 65536 then Inl NonCanonical4 else Inr (v, c))"
  "js_bitand (uint i) 31 = 27 \<Longrightarrow> readArgument i c =
     (case readBig 8 0 c of Inl e \<Rightarrow> Inl e
      | Inr (v, r) \<Rightarrow> if v < 0x100000000 then Inl NonCanonical8 else Inr (v, r))"
  by (simp_all add: readArgument_def readByte_def two_byte_value four_byte_value)

lemma int_byte_expansion:
  assumes "0 \<le> n" "n < 2 ^ 32"
  shows "n div 2 ^ 24 mod 256 * 2 ^ 24 + n div 2 ^ 16 mod 256 * 2 ^ 16 + n div 2 ^ 8 mod 256 * 2 ^ 8 + n mod 256 = (n :: int)"
proof -
  have horner: "n = p * 256 + a \<Longrightarrow> p = q * 256 + b \<Longrightarrow> q = r * 256 + c \<Longrightarrow>
      r * 2 ^ 24 + c * 2 ^ 16 + b * 2 ^ 8 + a = n" for a b c p q r :: int
    by simp
  have top: "n div 2 ^ 24 mod 256 = n div 2 ^ 24"
    using assms by simp
  have n: "n = n div 2 ^ 8 * 256 + n mod 256" by simp
  have p: "n div 2 ^ 8 = n div 2 ^ 16 * 256 + n div 2 ^ 8 mod 256"
    using zdiv_zmult2_eq [of 256 n 256] div_mult_mod_eq [of "n div 2 ^ 8" 256] by simp
  have q: "n div 2 ^ 16 = n div 2 ^ 24 * 256 + n div 2 ^ 16 mod 256"
    using zdiv_zmult2_eq [of 256 n 65536] div_mult_mod_eq [of "n div 2 ^ 16" 256] by simp
  show ?thesis
    unfolding top by (rule horner [OF n p q])
qed

lemma read_write_head:
  assumes "0 \<le> major" "major < 8" "head_ok n"
  shows "\<exists>i h. writeHead major n = Inr (i # h) \<and> js_shr (uint i) 5 = major \<and>
    (\<forall>r. readArgument i (h @ r) = Inr (n, r))"
proof -
  note fields = initial_byte_fields [OF assms(1,2)]
  consider "0 \<le> n" "n < 24" | "24 \<le> n" "n < 256" | "256 \<le> n" "n < 65536" | "65536 \<le> n" "n < 2 ^ 31"
    | "2 ^ 32 \<le> n" "n < 2 ^ 64"
    using assms(3) unfolding head_ok_def by linarith
  then show ?thesis
  proof cases
    case 1 then show ?thesis by (simp add: writeHead_cases readArgument_cases fields)
  next
    case 2 then show ?thesis by (simp add: writeHead_cases readArgument_cases fields)
  next
    case 3 then show ?thesis by (simp add: writeHead_cases readArgument_cases fields)
  next
    case 4
    have "uint (to_u8 (n div 2 ^ 24)) * 2 ^ 24 + uint (to_u8 (n div 2 ^ 16)) * 2 ^ 16
        + uint (to_u8 (n div 2 ^ 8)) * 2 ^ 8 + uint (to_u8 n) = n"
      unfolding uint_to_u8 by (rule int_byte_expansion) (use 4 in simp_all)
    then have "readArgument (initial_byte major 26)
        (to_u8 (n div 2 ^ 24) # to_u8 (n div 2 ^ 16) # to_u8 (n div 2 ^ 8) # to_u8 n # r) = Inr (n, r)" for r
      using 4 fields(2) [of 26] by (simp only: readArgument_cases(4) Let_def to_int32_nonneg) simp
    then show ?thesis using 4 by (simp add: writeHead_cases fields)
  next
    case 5
    then show ?thesis
      by (simp add: writeHead_cases readArgument_cases fields readBig_foldl foldl_be_bytes del: be_bytes.simps)
  qed
qed

section \<open>Progress of the decoder\<close>

lemma readBig_shrinks: "readBig n v c = Inr (w, r) \<Longrightarrow> length r \<le> length c"
proof (induction n arbitrary: v c)
  case (Suc n)
  then show ?case by (cases c) (auto simp: readByte_def, fastforce)
qed simp

lemma readArgument_shrinks: "readArgument i c = Inr (n, r) \<Longrightarrow> length r \<le> length c"
  by (auto simp: readArgument_def readByte_def Let_def split: if_splits sum.splits list.splits dest: readBig_shrinks)

lemma readBytes_shrinks: "readBytes c n = Inr (b, r) \<Longrightarrow> length r \<le> length c"
  by (auto simp: readBytes_def split: if_splits)

lemma decodeItems_InrE:
  assumes "decodeItems n c = Inr (vs, r)"
  obtains (stop) "n \<le> 0" "vs = []" "r = c"
  | (item) v r1 vs' where "0 < n" "decodeValue c = Inr (v, r1)" "length r1 < length c"
      "decodeItems (n - 1) r1 = Inr (vs', r)" "vs = v # vs'"
  using assms by (subst (asm) decodeItems.simps) (auto split: if_splits sum.splits)

lemma decodeEntries_InrE:
  assumes "decodeEntries n p out c = Inr (m, r)"
  obtains (stop) "n \<le> 0" "m = out" "r = c"
  | (entry) k r1 v r2 where "0 < n" "decodeValue c = Inr (Text k, r1)" "length r1 < length c" "\<not> exotic k v"
      "\<forall>b. p = Some b \<longrightarrow> compareBytes b (take (length c - length r1) c) < 0"
      "decodeValue r1 = Inr (v, r2)" "length r2 < length c"
      "decodeEntries (n - 1) (Some (take (length c - length r1) c)) (assign out k v) r2 = Inr (m, r)"
proof (cases "n \<le> 0")
  case True
  then show thesis using assms stop by (simp add: decodeEntries.simps)
next
  case False
  note step = assms [unfolded decodeEntries.simps [of n p out c]]
  from False step obtain key r1 where 1: "decodeValue c = Inr (key, r1)"
    by (auto split: sum.splits)
  from False step 1 obtain k where 2: "key = Text k" by (cases key) auto
  from False step 1 2 have 3: "\<forall>b. p = Some b \<longrightarrow> compareBytes b (take (length c - length r1) c) < 0"
    and 4: "length r1 < length c"
    by (auto simp: Let_def split: if_splits option.splits)
  from False step 1 2 obtain v r2 where 5: "decodeValue r1 = Inr (v, r2)"
    by (auto simp: Let_def split: if_splits sum.splits)
  from False step 1 2 5 have "length r2 < length c" "\<not> exotic k v"
    "decodeEntries (n - 1) (Some (take (length c - length r1) c)) (assign out k v) r2 = Inr (m, r)"
    by (auto simp: Let_def split: if_splits)
  with False 1 2 3 4 5 show thesis by (intro entry) auto
qed

lemma decode_shrinks:
  "decodeValue c = Inr (v, r) \<Longrightarrow> length r < length c"
  "decodeItems n c = Inr (vs, r) \<Longrightarrow> length r \<le> length c"
  "decodeEntries n p out c = Inr (m, r) \<Longrightarrow> length r \<le> length c"
proof (induction c and n c and n p out c arbitrary: v r and vs r and m r rule: decodeValue_decodeItems_decodeEntries.induct)
  case (2 initial c)
  then show ?case
    by (auto simp: decodeValue.simps(2) Let_def split: if_splits sum.splits
        dest!: readArgument_shrinks readBytes_shrinks) fastforce+
next
  case (3 n c)
  from "3.prems" show ?case
  proof (cases rule: decodeItems_InrE)
    case (item v r1 vs')
    then show ?thesis using "3.IH"(2) [of "(v, r1)" v r1 vs' r] by simp
  qed simp
next
  case (4 n p out c)
  from "4.prems" show ?case
  proof (cases rule: decodeEntries_InrE)
    case (entry k r1 v r2)
    then show ?thesis using "4.IH"(3) [of "(Text k, r1)" "Text k" r1 k "take (length c - length r1) c" "(v, r2)" v r2 m r] by (cases p) auto
  qed simp
qed simp


lemma decodeItems_simps:
  "decodeItems 0 c = Inr ([], c)"
  "decodeValue c = Inr (v, r) \<Longrightarrow> decodeItems (int (Suc n)) c =
     (case decodeItems (int n) r of Inl e \<Rightarrow> Inl e | Inr (vs, r') \<Rightarrow> Inr (v # vs, r'))"
  using decode_shrinks(1) [of c v r] by (subst decodeItems.simps, simp)+

lemma decodeEntries_simps:
  "decodeEntries 0 p out c = Inr (out, c)"
  "decodeValue c = Inr (Text k, r) \<Longrightarrow> decodeValue r = Inr (v, r') \<Longrightarrow>
     \<forall>b. p = Some b \<longrightarrow> compareBytes b (take (length c - length r) c) < 0 \<Longrightarrow> \<not> exotic k v \<Longrightarrow>
     decodeEntries (int (Suc n)) p out c =
       decodeEntries (int n) (Some (take (length c - length r) c)) (assign out k v) r'"
  using decode_shrinks(1) [of c "Text k" r] decode_shrinks(1) [of r v r']
  by (subst decodeEntries.simps, auto simp: Let_def split: option.splits)+

section \<open>Round trip\<close>

definition text_ok :: "jsstr \<Rightarrow> bool" where
  "text_ok s = (plain_text s \<and> head_ok (int (length (utf8_encode s))))"

definition key_bytes :: "jsstr \<Rightarrow> bytes" where
  "key_bytes k = (case encodeText k of Inl e \<Rightarrow> [] | Inr b \<Rightarrow> b)"

text \<open>
  The values that come back: integers and lengths that \<open>head_ok\<close> accepts, a \<open>bigint\<close> only where
  the decoder makes one, plain texts, objects whose keys are in canonical order.
\<close>

fun cbor_ok :: "cbor_value \<Rightarrow> bool" where
  "cbor_ok (Num (Integer n)) = (head_ok n \<and> n < 2 ^ 53)"
| "cbor_ok (Num NonFinite) = False"
| "cbor_ok (Num NonInteger) = False"
| "cbor_ok (Big n) = (head_ok n \<and> 2 ^ 53 \<le> n)"
| "cbor_ok (Bytes b) = head_ok (int (length b))"
| "cbor_ok (Text s) = text_ok s"
| "cbor_ok (Arr vs) = (head_ok (int (length vs)) \<and> (\<forall>v \<in> set vs. cbor_ok v))"
| "cbor_ok (Obj m) =
     (head_ok (int (length m)) \<and>
      (\<forall>e \<in> set m. text_ok (fst e) \<and> fst e \<noteq> js ''__proto__'' \<and> cbor_ok (snd e)) \<and>
      sorted_wrt (\<lambda>a b. compareBytes (key_bytes (fst a)) (key_bytes (fst b)) < 0) m)"
| "cbor_ok Null = False"
| "cbor_ok Undefined = False"

lemma Nil_less_bytes: "[] < (b :: bytes) \<longleftrightarrow> b \<noteq> []"
  by (cases b) simp_all

lemma compareBytes_iff:
  "compareBytes a b = 0 \<longleftrightarrow> a = b" "compareBytes a b < 0 \<longleftrightarrow> a < b" "compareBytes a b \<le> 0 \<longleftrightarrow> a \<le> b"
proof (induction a b rule: compareBytes.induct)
  case (1 a as b bs)
  { case 1 then show ?case using "1.IH"(1) by (auto simp: word_uint_eq_iff) }
  { case 2 then show ?case using "1.IH"(2) by (auto simp: word_less_def) }
  { case 3 then show ?case using "1.IH"(3) by (auto simp: word_less_def word_uint_eq_iff) }
qed (auto simp: Nil_less_bytes)

text \<open>Each leaf: a head and, after it, as many bytes as the head says.\<close>

lemma decode_uint:
  assumes "head_ok n"
  shows "\<exists>b. writeHead 0 n = Inr b \<and> (\<forall>r. decodeValue (b @ r) = Inr (uintValue n, r))"
  using read_write_head [of 0 n] assms by (auto simp: decodeValue.simps Let_def)

lemma encodeUint_ok: "head_ok n \<Longrightarrow> encodeUint n = writeHead 0 n"
  by (simp add: encodeUint_def head_ok_def)

lemma decode_payload:
  assumes "head_ok (int (length p))"
  shows "\<exists>b. with_head 2 (int (length p)) p = Inr b \<and> (\<forall>r. decodeValue (b @ r) = Inr (Bytes p, r))"
    "\<exists>b. with_head 3 (int (length p)) p = Inr b \<and> (\<forall>r. decodeValue (b @ r) = Inr (Text (utf8_decode p), r))"
  using read_write_head [of 2 "int (length p)"] read_write_head [of 3 "int (length p)"] assms
  by (auto simp: with_head_def decodeValue.simps Let_def readBytes_def)

lemma decode_text:
  assumes "text_ok s"
  shows "encodeText s = Inr (key_bytes s)" "decodeValue (key_bytes s @ r) = Inr (Text s, r)"
proof -
  obtain b where b: "encodeText s = Inr b" "\<forall>r. decodeValue (b @ r) = Inr (Text (utf8_decode (utf8_encode s)), r)"
    using decode_payload(2) [of "utf8_encode s"] assms by (auto simp: text_ok_def encodeText_def Let_def)
  moreover have "utf8_decode (utf8_encode s) = s"
    using assms by (simp add: text_ok_def utf8_roundtrip)
  ultimately show "encodeText s = Inr (key_bytes s)" "decodeValue (key_bytes s @ r) = Inr (Text s, r)"
    by (simp_all add: key_bytes_def)
qed

lemma set_prop_new: "k \<notin> fst ` set m \<Longrightarrow> set_prop m k v = m @ [(k, v)]"
  by (induction m) auto

lemma adjacent_dup_sorted: "sorted_wrt (<) (map fst es) \<Longrightarrow> \<not> adjacent_dup es"
  by (induction es rule: adjacent_dup.induct) (auto simp: compareBytes_iff)

lemma finishMap_sorted:
  assumes "sorted_wrt (<) (map fst es)"
  shows "finishMap es = with_head 5 (int (length es)) (concat (map (\<lambda>(k, v). k @ v) es))"
proof -
  have "sort_by (\<lambda>a b. compareBytes (fst a) (fst b)) es = sort_key fst es"
    by (rule sort_by_eq_sort_key) (simp add: compareBytes_iff)
  also have "\<dots> = es"
    by (rule sort_key_id_if_sorted) (rule strict_sorted_imp_sorted [OF assms])
  finally show ?thesis using adjacent_dup_sorted [OF assms] by (simp add: finishMap_def Let_def)
qed

text \<open>One more entry in front of entries that decode: its key is smaller than all of theirs.\<close>

lemma decode_entries_Cons:
  fixes es :: "(bytes \<times> bytes) list"
  defines "enc \<equiv> \<lambda>es. concat (map (\<lambda>(k, v). k @ v) es) :: bytes"
  assumes k: "text_ok k" "k \<noteq> js ''__proto__''"
    and vb: "\<And>r. decodeValue (vb @ r) = Inr (v, r)"
    and es: "\<And>r p out. fst ` set out \<inter> fst ` set m = {} \<Longrightarrow> (\<forall>b. p = Some b \<longrightarrow> (\<forall>e \<in> set m. b < key_bytes (fst e))) \<Longrightarrow>
      decodeEntries (int (length m)) p out (enc es @ r) = Inr (out @ m, r)"
    and less: "\<forall>e \<in> set m. key_bytes k < key_bytes (fst e)"
    and out: "fst ` set out \<inter> fst ` set ((k, v) # m) = {}"
    and p: "\<forall>b. p = Some b \<longrightarrow> (\<forall>e \<in> set ((k, v) # m). b < key_bytes (fst e))"
  shows "decodeEntries (int (length ((k, v) # m))) p out (enc ((key_bytes k, vb) # es) @ r) = Inr (out @ (k, v) # m, r)"
proof -
  have fresh: "k \<notin> fst ` set m" using less by auto
  have "decodeEntries (int (length ((k, v) # m))) p out (key_bytes k @ vb @ enc es @ r)
      = decodeEntries (int (length m)) (Some (key_bytes k)) (assign out k v) (enc es @ r)"
    using decodeEntries_simps(2) [OF decode_text(2) [OF k(1)] vb, of p "enc es @ r" "length m" out] p k(2)
    by (simp add: compareBytes_iff exotic_def)
  also have "assign out k v = out @ [(k, v)]"
    using out k(2) by (simp add: assign_def set_prop_new)
  also have "decodeEntries (int (length m)) (Some (key_bytes k)) (out @ [(k, v)]) (enc es @ r) = Inr ((out @ [(k, v)]) @ m, r)"
    using out fresh less by (intro es) auto
  finally show ?thesis by (simp add: enc_def)
qed

lemma decode_encode:
  "cbor_ok v \<Longrightarrow> \<exists>b. encodeValue v = Inr b \<and> (\<forall>r. decodeValue (b @ r) = Inr (v, r))"
  "\<forall>v \<in> set vs. cbor_ok v \<Longrightarrow>
     \<exists>b. encodeItems vs = Inr b \<and> (\<forall>r. decodeItems (int (length vs)) (b @ r) = Inr (vs, r))"
  "\<forall>e \<in> set m. text_ok (fst e) \<and> fst e \<noteq> js ''__proto__'' \<and> cbor_ok (snd e) \<Longrightarrow>
     sorted_wrt (\<lambda>a b. compareBytes (key_bytes (fst a)) (key_bytes (fst b)) < 0) m \<Longrightarrow>
     \<exists>es. encodeEntries m = Inr es \<and> map fst es = map (\<lambda>e. key_bytes (fst e)) m \<and>
       (\<forall>r p out. fst ` set out \<inter> fst ` set m = {} \<longrightarrow> (\<forall>b. p = Some b \<longrightarrow> (\<forall>e \<in> set m. b < key_bytes (fst e))) \<longrightarrow>
         decodeEntries (int (length m)) p out (concat (map (\<lambda>(k, v). k @ v) es) @ r) = Inr (out @ m, r))"
proof (induction v and vs and m rule: encodeValue_encodeItems_encodeEntries.induct)
  case (1 n)
  then show ?case using decode_uint by (cases n) (fastforce simp: encodeNumber_def encodeUint_ok uintValue_def)+
next
  case (2 n)
  then show ?case using decode_uint by (fastforce simp: encodeUint_ok uintValue_def)
next
  case (3 b)
  then show ?case using decode_payload(1) by (simp add: encodeBytes_def)
next
  case (4 s)
  then show ?case using decode_text by auto
next
  case (5 vs)
  then show ?case using read_write_head [of 4 "int (length vs)"]
    by (auto simp: decodeValue.simps Let_def)
next
  case (6 m)
  then obtain es where es: "encodeEntries m = Inr es" "map fst es = map (\<lambda>e. key_bytes (fst e)) m"
    "\<forall>r. decodeEntries (int (length m)) None [] (concat (map (\<lambda>(k, v). k @ v) es) @ r) = Inr (m, r)"
    by auto
  have len: "length es = length m" using es(2) by (metis length_map)
  have "sorted_wrt (<) (map fst es)"
    unfolding es(2) using "6.prems" by (simp add: sorted_wrt_map compareBytes_iff)
  then have "encodeValue (Obj m) = with_head 5 (int (length m)) (concat (map (\<lambda>(k, v). k @ v) es))"
    by (simp add: es(1) finishMap_sorted len)
  then show ?case using read_write_head [of 5 "int (length m)"] "6.prems" es(3)
    by (auto simp: with_head_def decodeValue.simps Let_def)
next
  case (10 v vs)
  then show ?case by (auto simp: decodeItems_simps simp del: of_nat_Suc)
next
  case (12 k v m)
  have v: "\<not> (v = Undefined \<or> k = js ''__proto__'')" and k: "text_ok k" "k \<noteq> js ''__proto__''" using "12.prems"(1) by auto
  obtain vb where vb: "encodeValue v = Inr vb" "\<And>r. decodeValue (vb @ r) = Inr (v, r)"
    using "12.IH" v k "12.prems"(1) decode_text(1) [OF k(1)] by auto
  have "\<exists>es. encodeEntries m = Inr es \<and> map fst es = map (\<lambda>e. key_bytes (fst e)) m \<and>
      (\<forall>r p out. fst ` set out \<inter> fst ` set m = {} \<longrightarrow> (\<forall>b. p = Some b \<longrightarrow> (\<forall>e \<in> set m. b < key_bytes (fst e))) \<longrightarrow>
        decodeEntries (int (length m)) p out (concat (map (\<lambda>(k, v). k @ v) es) @ r) = Inr (out @ m, r))"
    using "12.IH" v vb(1) "12.prems" decode_text(1) [OF k(1)] by auto
  then obtain es where es: "encodeEntries m = Inr es" "map fst es = map (\<lambda>e. key_bytes (fst e)) m"
    and dec: "\<And>r p out. fst ` set out \<inter> fst ` set m = {} \<Longrightarrow> (\<forall>b. p = Some b \<longrightarrow> (\<forall>e \<in> set m. b < key_bytes (fst e))) \<Longrightarrow>
      decodeEntries (int (length m)) p out (concat (map (\<lambda>(k, v). k @ v) es) @ r) = Inr (out @ m, r)"
    by blast
  have "\<forall>e \<in> set m. key_bytes k < key_bytes (fst e)"
    using "12.prems"(2) by (simp add: compareBytes_iff)
  note cons = decode_entries_Cons [OF k vb(2) dec this]
  show ?case
    using v vb(1) es decode_text(1) [OF k(1)]
    by (intro exI [of _ "(key_bytes k, vb) # es"]) (use cons in auto)
qed (auto simp: decodeItems_simps decodeEntries_simps)

definition cbor_bytes :: "cbor_value \<Rightarrow> bytes" where
  "cbor_bytes v = (case canonicalCbor v of Inl e \<Rightarrow> [] | Inr b \<Rightarrow> b)"

definition cbor_parse :: "bytes \<Rightarrow> cbor_value option" where
  "cbor_parse b = (case decodeCanonicalCbor b of Inl e \<Rightarrow> None | Inr v \<Rightarrow> Some v)"

lemma cbor_ok_roundtrip: "cbor_ok v \<Longrightarrow> \<exists>b. canonicalCbor v = Inr b \<and> decodeCanonicalCbor b = Inr v"
  using decode_encode(1) [of v] by (fastforce simp: canonicalCbor_def decodeCanonicalCbor_def dest: spec [of _ "[]"])

interpretation cbor: codec cbor_bytes cbor_parse cbor_ok
proof
  show "cbor_parse (cbor_bytes v) = Some v" if "cbor_ok v" for v
    using cbor_ok_roundtrip [OF that] by (auto simp: cbor_bytes_def cbor_parse_def)
qed

lemma adjacent_dup_distinct: "sorted (map fst es) \<Longrightarrow> \<not> adjacent_dup es \<Longrightarrow> distinct (map fst es)"
  by (induction es rule: adjacent_dup.induct) (auto simp: compareBytes_iff)

lemma finishMap_perm:
  assumes "finishMap es = Inr b" "mset es' = mset es"
  shows "finishMap es' = Inr b"
proof -
  have sort: "sort_by (\<lambda>a b. compareBytes (fst a) (fst b)) es = sort_key fst es" for es :: "(bytes \<times> bytes) list"
    by (rule sort_by_eq_sort_key) (simp add: compareBytes_iff)
  have "\<not> adjacent_dup (sort_key fst es)"
    using assms(1) by (auto simp: finishMap_def sort Let_def split: if_splits)
  then have "distinct (map fst (sort_key fst es))" by (intro adjacent_dup_distinct) simp_all
  then have "inj_on fst (set es)" by (simp add: distinct_map)
  then have "sort_key fst es = sort_key fst es'" using assms(2) by (intro sort_key_perm) simp_all
  then show ?thesis using assms(1) by (simp add: finishMap_def sort)
qed

text \<open>The properties the encoder writes.\<close>

definition encoded :: "jsstr \<times> cbor_value \<Rightarrow> bool" where
  "encoded e = (snd e \<noteq> Undefined \<and> fst e \<noteq> js ''__proto__'')"

lemma encodeEntries_mset:
  "encodeEntries m = Inr es \<longleftrightarrow>
   (\<forall>e \<in> set m. encoded e \<longrightarrow> (\<exists>k v. encodeText (fst e) = Inr k \<and> encodeValue (snd e) = Inr v)) \<and>
   es = map (\<lambda>e. (key_bytes (fst e), cbor_bytes (snd e))) (filter encoded m)"
proof (induction m arbitrary: es)
  case (Cons e m)
  then show ?case
    by (cases e) (auto simp: encoded_def key_bytes_def cbor_bytes_def canonicalCbor_def split: sum.splits, blast)
qed auto

lemma encodeValue_Obj_perm:
  assumes "encodeValue (Obj m) = Inr b" "mset m' = mset m"
  shows "encodeValue (Obj m') = Inr b"
proof -
  obtain es where es: "encodeEntries m = Inr es" "finishMap es = Inr b"
    using assms(1) by (auto split: sum.splits)
  let ?row = "\<lambda>e. (key_bytes (fst e), cbor_bytes (snd e))"
  have "encodeEntries m' = Inr (map ?row (filter encoded m'))"
    using es(1) mset_eq_setD [OF assms(2)] by (simp add: encodeEntries_mset)
  moreover have "mset (map ?row (filter encoded m')) = mset es"
    using es(1) assms(2) by (simp add: encodeEntries_mset)
  ultimately show ?thesis using finishMap_perm [OF es(2)] by simp
qed

section \<open>Strictness\<close>

text \<open>A head the decoder accepts is the head the encoder writes for that argument.\<close>

lemma byte_head_eq: "i = initial_byte (js_shr (uint (i :: byte)) 5) (js_bitand (uint i) 31)"
proof -
  have "uint i = uint i div 32 * 32 + uint i mod 32" by simp
  moreover have "0 \<le> uint i div 32" "uint i div 32 < 8" using byte_uint_bounds [of i] by (simp_all add: pos_imp_zdiv_nonneg_iff)
  ultimately have "uint (initial_byte (uint i div 32) (uint i mod 32)) = uint i"
    using js_bitor_low [of "uint i mod 32" 5 "uint i div 32"] byte_uint_bounds [of i]
    by (simp add: initial_byte_def js_bitand_masks js_shl_int to_int32_nonneg)
  moreover have "js_shr (uint i) 5 = uint i div 32"
    using byte_uint_bounds [of i] js_shr_int [of "uint i" 5] order_trans [of "- 2147483648" 0 "uint i"] by simp
  ultimately show ?thesis by (simp add: js_bitand_masks word_uint_eq_iff)
qed

lemma to_u8_uint [simp]: "to_u8 (uint b) = b"
  by (simp add: to_u8_def)

lemma be_bytes_foldl:
  "length bs = n \<Longrightarrow> be_bytes n (foldl (\<lambda>v b. push_bit 8 v OR uint b) 0 bs) = bs"
proof (induction bs arbitrary: n rule: rev_induct)
  case (snoc b bs)
  then show ?case
    using byte_uint_bounds [of b] by (auto simp: push_byte int_and_masks drop_bit_eq_div)
qed simp

lemma foldl_bytes_bound:
  "0 \<le> foldl (\<lambda>v b. push_bit 8 v OR uint b) 0 bs \<and> foldl (\<lambda>v b. push_bit 8 v OR uint b) 0 bs < 256 ^ length (bs :: bytes)"
proof (induction bs rule: rev_induct)
  case (snoc b bs)
  then show ?case using byte_uint_bounds [of b] by (simp add: push_byte)
qed simp
lemma readBig_InrD:
  assumes "readBig n 0 c = Inr (v, r)"
  shows "\<exists>bs. length bs = n \<and> c = bs @ r \<and> v = foldl (\<lambda>v b. push_bit 8 v OR uint b) 0 bs"
proof -
  have "\<exists>bs. length bs = n \<and> c = bs @ r" if "readBig n a c = Inr (v, r)" for a
    using that
  proof (induction n arbitrary: a c)
    case (Suc n)
    then show ?case by (cases c) (auto simp: readByte_def, metis append_Cons length_Cons)
  qed simp
  then show ?thesis using assms readBig_foldl by (metis Inr_inject fst_conv prod.inject)
qed

lemma four_bytes_div:
  fixes b3 b2 b1 b0 :: byte
  defines "x \<equiv> uint b3 * 2 ^ 24 + uint b2 * 2 ^ 16 + uint b1 * 2 ^ 8 + uint b0"
  shows "to_u8 (x div 2 ^ 24) = b3" "to_u8 (x div 2 ^ 16) = b2" "to_u8 (x div 2 ^ 8) = b1" "to_u8 x = b0"
    "0 \<le> x" "x < 2 ^ 32"
proof -
  note bounds = byte_uint_bounds [of b3] byte_uint_bounds [of b2] byte_uint_bounds [of b1] byte_uint_bounds [of b0]
  have x: "x = ((uint b3 * 256 + uint b2) * 256 + uint b1) * 256 + uint b0" by (simp add: x_def)
  have shift: "(k * 256 + uint b) div 256 = k" "(k * 256 + uint b) mod 256 = uint b" for k and b :: byte
    using byte_uint_bounds [of b] by simp_all
  have 1: "x div 256 = (uint b3 * 256 + uint b2) * 256 + uint b1" unfolding x by (rule shift)
  have 2: "x div 65536 = uint b3 * 256 + uint b2"
    using zdiv_zmult2_eq [of 256 x 256] shift(1) [of "uint b3 * 256 + uint b2" b1] unfolding 1 by simp
  have 3: "x div 16777216 = uint b3"
    using zdiv_zmult2_eq [of 256 x 65536] shift(1) [of "uint b3" b2] unfolding 2 by simp
  show "to_u8 (x div 2 ^ 24) = b3" "to_u8 (x div 2 ^ 16) = b2" "to_u8 (x div 2 ^ 8) = b1"
    using bounds 1 2 3 shift(2) [of "uint b3" b2] shift(2) [of "uint b3 * 256 + uint b2" b1]
    by (simp_all add: word_uint_eq_iff)
  show "to_u8 x = b0"
    using shift(2) [of "(uint b3 * 256 + uint b2) * 256 + uint b1" b0] unfolding x by (simp add: word_uint_eq_iff)
  show "0 \<le> x" "x < 2 ^ 32" using bounds unfolding x_def by simp_all
qed

lemma readArgument_canonical:
  assumes "readArgument i c = Inr (n, r)"
  shows "\<exists>h. c = h @ r \<and> writeHead (js_shr (uint i) 5) n = Inr (i # h)"
proof -
  define info where "info = js_bitand (uint i) 31"
  have i: "i = initial_byte (js_shr (uint i) 5) info" unfolding info_def by (rule byte_head_eq)
  have info: "0 \<le> info" "info < 32" by (simp_all add: info_def js_bitand_masks)
  note arg = readArgument_cases [of i, folded info_def]
  consider "info < 24" | "info = 24" | "info = 25" | "info = 26" | "info = 27" | "27 < info"
    by linarith
  then show ?thesis
  proof cases
    case 1
    then show ?thesis using assms arg(1) [of info c] info i by (simp add: writeHead_cases)
  next
    case 2
    then obtain v where "c = v # r" "n = uint v" "24 \<le> uint v"
      using assms by (cases c) (auto simp: readArgument_def readByte_def Let_def info_def split: if_splits)
    then show ?thesis using i 2 byte_uint_bounds [of v] by (simp add: writeHead_cases)
  next
    case 3
    then obtain hi lo where c: "c = hi # lo # r" and n: "n = uint hi * 256 + uint lo" "256 \<le> n"
      using assms by (cases c; cases "tl c")
        (auto simp: readArgument_def readByte_def Let_def info_def two_byte_value split: if_splits)
    have "to_u8 (n div 256) = hi" "to_u8 n = lo" "n < 65536"
      using byte_uint_bounds [of hi] byte_uint_bounds [of lo] by (auto simp: n word_uint_eq_iff)
    then show ?thesis using i 3 c n by (simp add: writeHead_cases)
  next
    case 4
    then obtain b3 b2 b1 b0 where c: "c = b3 # b2 # b1 # b0 # r"
      using assms by (cases c; cases "tl c"; cases "tl (tl c)"; cases "tl (tl (tl c))")
        (auto simp: readArgument_def readByte_def Let_def info_def split: if_splits)
    define x where "x = uint b3 * 2 ^ 24 + uint b2 * 2 ^ 16 + uint b1 * 2 ^ 8 + uint b0"
    note x = four_bytes_div [of b3 b2 b1 b0, folded x_def]
    have "readArgument i c = (let v = to_int32 x in if v < 65536 then Inl NonCanonical4 else Inr (v, r))"
      using arg(4) [OF 4] unfolding c x_def .
    then have "n = to_int32 x" "65536 \<le> n" using assms by (auto simp: Let_def split: if_splits)
    moreover have "x < 2 ^ 31"
      using calculation to_int32_high [of x] x(5,6) by (cases "x < 2 ^ 31") auto
    ultimately have "n = x" using to_int32_nonneg x(5) by simp
    then show ?thesis using i 4 c x \<open>65536 \<le> n\<close> by (simp add: writeHead_cases)
  next
    case 5
    then obtain bs where bs: "length bs = 8" "c = bs @ r" "n = foldl (\<lambda>v b. push_bit 8 v OR uint b) 0 bs" "2 ^ 32 \<le> n"
      using assms arg(5) [of c] by (auto split: sum.splits if_splits dest!: readBig_InrD)
    then show ?thesis
      using i 5 be_bytes_foldl [of bs 8] foldl_bytes_bound [of bs]
      by (simp add: writeHead_cases del: be_bytes.simps)
  next
    case 6
    then show ?thesis using assms by (simp add: readArgument_def info_def Let_def)
  qed
qed

lemma writeHead_high_bit:
  assumes "0 \<le> m" "m < 8" "2 ^ 31 \<le> n" "n < 2 ^ 32"
  shows "\<exists>i h. writeHead m n = Inr (i # h) \<and> js_shr (uint i) 5 = m \<and> (\<forall>r. readArgument i (h @ r) = Inl NonCanonical4)"
proof -
  note fields = initial_byte_fields [OF assms(1,2), of 26]
  have "uint (to_u8 (n div 2 ^ 24)) * 2 ^ 24 + uint (to_u8 (n div 2 ^ 16)) * 2 ^ 16
      + uint (to_u8 (n div 2 ^ 8)) * 2 ^ 8 + uint (to_u8 n) = n"
    unfolding uint_to_u8 by (rule int_byte_expansion) (use assms in simp_all)
  then have "readArgument (initial_byte m 26)
      (to_u8 (n div 2 ^ 24) # to_u8 (n div 2 ^ 16) # to_u8 (n div 2 ^ 8) # to_u8 n # r) = Inl NonCanonical4" for r
    using assms fields(2) by (simp only: readArgument_cases(4) Let_def to_int32_high) simp
  then show ?thesis using assms by (simp add: writeHead_cases fields)
qed

lemmas js_eval [js_simps] =
  js_bitand_masks js_bitor_int js_shl_int js_ushr_int js_shr_int to_int32_nonneg
lemmas head_eval [js_simps] = writeHead_cases initial_byte_def to_u8_def readArgument_def readByte_def readBytes_def
lemmas text_eval [js_simps] =
  utf8_encode_def utf8_scalar_def is_hi_def is_lo_def utf8_decode_def strip_bom_def utf8_loop.simps utf16_of_def
lemmas cbor_eval [js_simps] =
  canonicalCbor_def encodeNumber_def encodeUint_def encodeText_def encodeBytes_def with_head_def key_bytes_def
  decodeCanonicalCbor_def decodeValue.simps uintValue_def head_ok_def text_ok_def plain_text_def
  finishMap_def sort_by_def

section \<open>Properties\<close>

text \<open>C39: every receipt value in canonical form (integers and lengths within range, plain texts, keys in
  canonical order) is encoded, and \<open>decodeCanonicalCbor\<close> of the bytes gives the value back.\<close>

theorem cbor_roundtrip:
  "cbor_ok v \<Longrightarrow> \<exists>b. canonicalCbor v = Inr b \<and> decodeCanonicalCbor b = Inr v"
  by (rule cbor_ok_roundtrip)

theorem cbor_roundtrip_witness:
  "\<exists>b. canonicalCbor (Obj [(js ''n'', Num (Integer 500)), (js ''sig'', Arr [Bytes [1, 2], Text (js ''ok'')])]) = Inr b \<and>
       decodeCanonicalCbor b = Inr (Obj [(js ''n'', Num (Integer 500)), (js ''sig'', Arr [Bytes [1, 2], Text (js ''ok'')])])"
  by (rule cbor_roundtrip) (simp add: js_simps)

text \<open>the encoder is injective on canonical values, so the bytes a receipt signature covers determine
  the receipt.\<close>

theorem cbor_bytes_determine_value:
  assumes "cbor_ok v" "cbor_ok w" "canonicalCbor v = canonicalCbor w"
  shows "v = w"
  using assms cbor.enc_inject [of v w] by (simp add: cbor_bytes_def)

theorem cbor_bytes_determine_value_witness:
  "Num (Integer 70000) = Num (Integer (70001 - 1))"
  by (rule cbor_bytes_determine_value) (simp_all add: head_ok_def)

text \<open>the encoding of an object does not depend on the order its properties were written in.\<close>

theorem cbor_property_order_irrelevant:
  assumes "canonicalCbor (Obj m) = Inr b" "mset m' = mset m"
  shows "canonicalCbor (Obj m') = Inr b"
  using assms unfolding canonicalCbor_def by (rule encodeValue_Obj_perm)

theorem cbor_property_order_irrelevant_witness:
  "canonicalCbor (Obj [(js ''bb'', Num (Integer 1)), (js ''a'', Bytes [])]) = Inr [0xa2, 0x61, 0x61, 0x40, 0x62, 0x62, 0x62, 0x01]"
  by (rule cbor_property_order_irrelevant [of "[(js ''a'', Bytes []), (js ''bb'', Num (Integer 1))]"]) (simp_all add: js_simps)

text \<open>an unsigned integer with bit 31 set and nothing above it is encoded in the four-byte form, and
  the decoder refuses that encoding as not canonical: the bitwise or of \<open>readArgument\<close> yields a signed
  32-bit number. The encoder's output is not accepted by its own decoder there.\<close>

theorem cbor_uint32_high_bit_refused:
  assumes "2 ^ 31 \<le> n" "n < 2 ^ 32"
  shows "\<exists>b. canonicalCbor (Num (Integer n)) = Inr b \<and> decodeCanonicalCbor b = Inl NonCanonical4"
proof -
  obtain i h where "writeHead 0 n = Inr (i # h)" "js_shr (uint i) 5 = 0" "\<forall>r. readArgument i (h @ r) = Inl NonCanonical4"
    using writeHead_high_bit [of 0 n] assms by auto
  then show ?thesis
    using assms spec [of "\<lambda>r. readArgument i (h @ r) = Inl NonCanonical4" "[]"]
    by (simp add: canonicalCbor_def encodeNumber_def encodeUint_def decodeCanonicalCbor_def decodeValue.simps(2) Let_def)
qed

theorem cbor_uint32_high_bit_refused_witness:
  "\<exists>b. canonicalCbor (Num (Integer 2147483648)) = Inr b \<and> decodeCanonicalCbor b = Inl NonCanonical4"
  by (rule cbor_uint32_high_bit_refused) simp_all

text \<open>whatever \<open>decodeCanonicalCbor\<close> accepts starts with the shortest head of a permitted major type
  (no negative integer, tag, simple value, indefinite or reserved length, padded argument).\<close>

theorem cbor_accepts_shortest_heads_only:
  assumes "decodeCanonicalCbor (i # c) = Inr v"
  shows "\<exists>m \<in> {0, 2, 3, 4, 5}. \<exists>n h t. writeHead m n = Inr (i # h) \<and> c = h @ t"
proof -
  let ?m = "js_shr (uint i) 5"
  obtain r where "decodeValue (i # c) = Inr (v, r)"
    using assms by (auto simp: decodeCanonicalCbor_def split: sum.splits if_splits)
  then have "?m \<in> {0, 2, 3, 4, 5}" and "\<exists>n t. readArgument i c = Inr (n, t)"
    by (auto simp: decodeValue.simps(2) Let_def split: if_splits sum.splits)
  then show ?thesis using readArgument_canonical by blast
qed

theorem cbor_accepts_shortest_heads_only_witness:
  "\<exists>m \<in> {0, 2, 3, 4, 5}. \<exists>n h t. writeHead m n = Inr (0x18 # h) \<and> [0x64] = h @ t"
  by (rule cbor_accepts_shortest_heads_only [of _ _ "Num (Integer 100)"]) (simp add: js_simps)

text \<open>invalid UTF-8 inside a text string is accepted and replaced, so two byte strings decode to the
  same value and the accepted one is not what the encoder writes for it.\<close>

theorem cbor_text_not_strict:
  "decodeCanonicalCbor [0x61, 0xff] = Inr (Text [0xfffd]) \<and> canonicalCbor (Text [0xfffd]) = Inr [0x63, 0xef, 0xbf, 0xbd]"
  by (simp add: js_simps)

end
