(* ===== verification/Js_Json.thy ===== *)
theory Js_Json
  imports Js_Base64
begin

text \<open>
  JSON values as \<open>JSON.parse\<close> gives them and the few operations of JavaScript on them that the code
  uses: property access, truthiness and conversion to a string. Objects are association lists in
  property order with distinct names. Numbers are the integral ones; no property of this development
  reads a fraction. \<open>parse_int10\<close> is \<open>Number.parseInt(s, 10)\<close> with \<open>None\<close> for \<open>NaN\<close> and exact where
  JavaScript rounds above \<open>2^53\<close>.
\<close>

datatype json =
  JNull
| JBool bool
| JNum int
| JStr jsstr
| JArr "json list"
| JObj "(jsstr \<times> json) list"

text \<open>\<open>v?.name\<close>: \<open>None\<close> is \<open>undefined\<close>. Strings and arrays have none of the properties the code reads.\<close>

definition get_prop :: "json option \<Rightarrow> jsstr \<Rightarrow> json option" where
  "get_prop v name = (case v of Some (JObj ps) \<Rightarrow> map_of ps name | _ \<Rightarrow> None)"

fun truthy :: "json \<Rightarrow> bool" where
  "truthy JNull = False"
| "truthy (JBool b) = b"
| "truthy (JNum n) = (n \<noteq> 0)"
| "truthy (JStr s) = (s \<noteq> [])"
| "truthy (JArr _) = True"
| "truthy (JObj _) = True"

definition truthy_opt :: "json option \<Rightarrow> bool" where
  "truthy_opt v = (case v of None \<Rightarrow> False | Some j \<Rightarrow> truthy j)"

text \<open>\<open>Array.prototype.join\<close>.\<close>

fun join_with :: "jsstr \<Rightarrow> jsstr list \<Rightarrow> jsstr" where
  "join_with sep [] = []"
| "join_with sep [x] = x"
| "join_with sep (x # xs) = x @ sep @ join_with sep xs"

text \<open>\<open>String(v)\<close>, as in a template literal; inside an array \<open>null\<close> is the empty string.\<close>

fun js_string :: "json \<Rightarrow> jsstr" and array_item :: "json \<Rightarrow> jsstr" where
  "js_string JNull = js ''null''"
| "js_string (JBool b) = (if b then js ''true'' else js ''false'')"
| "js_string (JNum n) = dec_of_int n"
| "js_string (JStr s) = s"
| "js_string (JArr vs) = join_with (js '','') (map array_item vs)"
| "js_string (JObj _) = js ''[object Object]''"
| "array_item JNull = []"
| "array_item (JBool b) = (if b then js ''true'' else js ''false'')"
| "array_item (JNum n) = dec_of_int n"
| "array_item (JStr s) = s"
| "array_item (JArr vs) = join_with (js '','') (map array_item vs)"
| "array_item (JObj _) = js ''[object Object]''"

section \<open>Whitespace and decimal numbers\<close>

definition js_space :: "jschar \<Rightarrow> bool" where
  "js_space c = (let n = unat c in 9 \<le> n \<and> n \<le> 13 \<or>
     n \<in> {32, 160, 5760, 8232, 8233, 8239, 8287, 12288, 65279} \<or> 8192 \<le> n \<and> n \<le> 8202)"

definition js_trim :: "jsstr \<Rightarrow> jsstr" where
  "js_trim s = rev (dropWhile js_space (rev (dropWhile js_space s)))"

definition dec_digit :: "jschar \<Rightarrow> bool" where
  "dec_digit c = (48 \<le> unat c \<and> unat c \<le> 57)"

definition digits_value :: "jsstr \<Rightarrow> int" where
  "digits_value ds = foldl (\<lambda>a c. a * 10 + (int (unat c) - 48)) 0 ds"

definition parse_int10 :: "jsstr \<Rightarrow> int option" where
  "parse_int10 s =
     (let t = dropWhile js_space s;
          (neg, u) = (case t of c # r \<Rightarrow> if c = of_char CHR ''-'' then (True, r)
                                          else if c = of_char CHR ''+'' then (False, r) else (False, t)
                              | [] \<Rightarrow> (False, []));
          ds = takeWhile dec_digit u
      in if ds = [] then None else Some (if neg then - digits_value ds else digits_value ds))"

lemma digits_value_snoc [simp]: "digits_value (ds @ [c]) = digits_value ds * 10 + (int (unat c) - 48)"
  by (simp add: digits_value_def)

lemma digits_value_dec: "digits_value (dec_digits n) = int n"
proof (induction n rule: dec_digits.induct)
  case (1 n)
  have u: "uint (of_nat (48 + m) :: jschar) = 48 + int m" if "m < 10" for m
    by (subst uint_nat, subst unat_of_nat) (use that in \<open>simp add: take_bit_nat_eq_self\<close>)
  show ?case
  proof (cases "n < 10")
    case True
    then show ?thesis using u [of n] by (subst dec_digits.simps) (simp add: digits_value_def)
  next
    case False
    have "int (n div 10) * 10 + int (n mod 10) = int n" by (simp add: zdiv_int zmod_int)
    then show ?thesis using False 1 u [of "n mod 10"] by (subst dec_digits.simps) (simp del: of_nat_add)
  qed
qed

lemma parse_int10_dec: "parse_int10 (dec_digits n) = Some (int n)"
proof -
  have r: "\<forall>c \<in> set (dec_digits n). 48 \<le> unat c \<and> unat c \<le> 57" by (rule dec_digits_range)
  obtain c cs where c: "dec_digits n = c # cs" using dec_digits_nonempty by (cases "dec_digits n") auto
  then have "48 \<le> unat c" "unat c \<le> 57" using r by auto
  then have "\<not> js_space c" "c \<noteq> of_char CHR ''-''" "c \<noteq> of_char CHR ''+''"
    by (auto simp: js_space_def Let_def)
  moreover have "takeWhile dec_digit (c # cs) = c # cs" using r c by (simp add: takeWhile_eq_all_conv dec_digit_def)
  ultimately show ?thesis using digits_value_dec [of n] c by (simp add: parse_int10_def)
qed

lemma parse_int10_pos: "0 \<le> n \<Longrightarrow> parse_int10 (dec_of_int n) = Some n"
  using parse_int10_dec [of "nat n"] by (simp add: dec_of_int_def)

end
