(* ===== verification/Js_Strings.thy ===== *)
theory Js_Strings
  imports Js_Json
begin

text \<open>
  String methods the vault and its routes use: \<open>split\<close> on one character, \<open>indexOf\<close> and \<open>includes\<close> of a
  substring, \<open>toLowerCase\<close> on ASCII text, character classes of the regular expressions, and
  \<open>Object.entries\<close> of a parsed JSON value. The facts are the ones a client needs: \<open>indexOf\<close> finds the
  first occurrence, and a split string is never empty and holds no separator.
\<close>

section \<open>Lower case and character classes\<close>

definition ascii_lower :: "jsstr \<Rightarrow> jsstr" where
  "ascii_lower s = map (\<lambda>c. if 65 \<le> unat c \<and> unat c \<le> 90 then c + 32 else c) s"

definition is_lower :: "jschar \<Rightarrow> bool" where
  "is_lower c = (97 \<le> unat c \<and> unat c \<le> 122)"

definition is_upper :: "jschar \<Rightarrow> bool" where
  "is_upper c = (65 \<le> unat c \<and> unat c \<le> 90)"

definition is_control :: "jschar \<Rightarrow> bool" where
  "is_control c = (unat c < 32)"

section \<open>Splitting and searching\<close>

fun split_on :: "jschar \<Rightarrow> jsstr \<Rightarrow> jsstr list" where
  "split_on c [] = [[]]"
| "split_on c (x # s) =
     (if x = c then [] # split_on c s
      else case split_on c s of [] \<Rightarrow> [[x]] | w # ws \<Rightarrow> (x # w) # ws)"

fun find_sub :: "'a list \<Rightarrow> 'a list \<Rightarrow> nat option" where
  "find_sub p [] = (if p = [] then Some 0 else None)"
| "find_sub p (x # s) = (if starts_with (x # s) p then Some 0 else map_option Suc (find_sub p s))"

text \<open>\<open>s.indexOf(p, pos)\<close>.\<close>

definition index_from :: "'a list \<Rightarrow> 'a list \<Rightarrow> nat \<Rightarrow> nat option" where
  "index_from s p pos = map_option (\<lambda>i. min pos (length s) + i) (find_sub p (drop pos s))"

definition has_sub :: "'a list \<Rightarrow> 'a list \<Rightarrow> bool" where
  "has_sub s p = (find_sub p s \<noteq> None)"

lemma split_on_nonempty [simp]: "split_on c s \<noteq> []"
  by (induction s) (auto split: list.split)

lemma split_on_no_sep: "w \<in> set (split_on c s) \<Longrightarrow> c \<notin> set w"
  by (induction s arbitrary: w) (auto split: if_splits list.splits)

lemma split_on_single: "c \<notin> set s \<Longrightarrow> split_on c s = [s]"
  by (induction s) auto

lemma split_on_hd: "\<exists>t. s = hd (split_on c s) @ t"
  by (induction s) (auto split: list.split)

lemma starts_with_Nil [simp]: "starts_with s []"
  by (simp add: starts_with_def)

lemma ends_with_Nil [simp]: "ends_with s []"
  by (simp add: ends_with_iff)

lemma find_sub_Nil [simp]: "find_sub [] s = Some 0"
  by (cases s) auto

lemma find_sub_SomeD: "find_sub p s = Some i \<Longrightarrow> starts_with (drop i s) p \<and> i \<le> length s"
  by (induction p s arbitrary: i rule: find_sub.induct) (auto split: if_splits)

lemma find_sub_first: "starts_with (drop j s) p \<Longrightarrow> j \<le> length s \<Longrightarrow> \<exists>i \<le> j. find_sub p s = Some i"
proof (induction p s arbitrary: j rule: find_sub.induct)
  case (1 p)
  then show ?case by (auto simp: starts_with_iff)
next
  case (2 p x s)
  show ?case
  proof (cases "starts_with (x # s) p")
    case False
    then obtain j' where "j = Suc j'" using 2 by (cases j) auto
    then show ?thesis using 2 False by fastforce
  qed auto
qed

lemma find_sub_length: "find_sub p s = Some i \<Longrightarrow> i + length p \<le> length s"
  using find_sub_SomeD [of p s i] by (auto simp: starts_with_iff dest!: arg_cong [of _ _ length])

section \<open>Object entries\<close>

definition index_key :: "nat \<times> 'a \<Rightarrow> jsstr \<times> 'a" where
  "index_key p = (dec_of_int (int (fst p)), snd p)"

text \<open>\<open>Object.entries(v)\<close>; \<open>None\<close> is the \<open>TypeError\<close> on \<open>null\<close>.\<close>

fun object_entries :: "json \<Rightarrow> (jsstr \<times> json) list option" where
  "object_entries JNull = None"
| "object_entries (JObj ps) = Some ps"
| "object_entries (JArr vs) = Some (map index_key (enumerate 0 vs))"
| "object_entries (JStr s) = Some (map index_key (enumerate 0 (map (\<lambda>c. JStr [c]) s)))"
| "object_entries (JBool _) = Some []"
| "object_entries (JNum _) = Some []"

end
