(* ===== verification/Js_Web.thy ===== *)
theory Js_Web
  imports Js_Strings "HOL-Library.AList"
begin

text \<open>
  What the handlers share of the web platform: a parsed URL, a request with its whole body, a response, and
  a call to a Durable Object, which may be delivered, lost before the callee ran, or executed with its reply
  lost. Header lists hold lower-case names, as iterating a \<open>Headers\<close> object yields them.
\<close>

section \<open>Requests and responses\<close>

record url =
  u_protocol :: jsstr
  u_username :: jsstr
  u_password :: jsstr
  u_hostname :: jsstr
  u_pathname :: jsstr
  u_params :: "(jsstr \<times> jsstr) list"

type_synonym headers = "(jsstr \<times> jsstr) list"

record response =
  rs_status :: int
  rs_statusText :: jsstr
  rs_headers :: headers
  rs_body :: bytes

record web_request =
  wr_method :: jsstr
  wr_url :: jsstr
  wr_headers :: headers
  wr_body :: bytes

section \<open>Setting a header\<close>

definition alnum :: "jschar \<Rightarrow> bool" where
  "alnum c = (is_lower c \<or> is_upper c \<or> dec_digit c)"

definition token_char :: "jschar \<Rightarrow> bool" where
  "token_char c = (alnum c \<or> c \<in> set (js ''!#$%&'' @ [39] @ js ''*+-.^_`|~''))"

definition http_ws :: "jschar \<Rightarrow> bool" where
  "http_ws c = (c = 9 \<or> c = 10 \<or> c = 13 \<or> c = 32)"

definition http_trim :: "jsstr \<Rightarrow> jsstr" where
  "http_trim s = rev (dropWhile http_ws (rev (dropWhile http_ws s)))"

text \<open>\<open>Headers.prototype.set\<close>; \<open>None\<close> is its \<open>TypeError\<close>.\<close>

definition headers_set :: "headers \<Rightarrow> jsstr \<Rightarrow> jsstr \<Rightarrow> headers option" where
  "headers_set hs name value =
     (let v = http_trim value in
      if name = [] \<or> (\<exists>c \<in> set name. \<not> token_char c) \<or> (\<exists>c \<in> set v. c = 0 \<or> c = 10 \<or> c = 13 \<or> unat c > 255) then None
      else Some (AList.update (ascii_lower name) v hs))"

lemma headers_set_lookup: "headers_set hs k v = Some hs' \<Longrightarrow> map_of hs' = (map_of hs)(ascii_lower k \<mapsto> http_trim v)"
  by (auto simp: headers_set_def update_conv' Let_def split: if_splits)

section \<open>Remote calls\<close>

datatype rpc_fate = Delivered | Request_lost | Reply_lost

definition rpc :: "rpc_fate \<Rightarrow> 's \<Rightarrow> ('s \<Rightarrow> 's \<times> 'r) \<Rightarrow> 's \<times> 'r option" where
  "rpc fate st f =
     (case fate of
        Delivered \<Rightarrow> (case f st of (st', r) \<Rightarrow> (st', Some r))
      | Request_lost \<Rightarrow> (st, None)
      | Reply_lost \<Rightarrow> (fst (f st), None))"

lemma rpc_cases:
  "rpc fate st f = (st', r) \<Longrightarrow> (st' = st \<and> r = None) \<or> (st' = fst (f st) \<and> (r = None \<or> r = Some (snd (f st))))"
  by (auto simp: rpc_def split: rpc_fate.splits prod.splits)

lemma rpc_Some: "rpc fate st f = (st', Some x) \<Longrightarrow> f st = (st', x)"
  by (auto simp: rpc_def split: rpc_fate.splits prod.splits)

end
