(* ===== verification/Receipts.thy ===== *)
theory Receipts
  imports Receipts_Cbor Js_Web
begin

text \<open>
  Signed receipts, \<open>src/wire/receipts.ts\<close>, and their verification, \<open>src/wire/receipt-verify.ts\<close>: the three
  commitments and their envelopes, encoding and strict decoding, signing, the event chain of a stream, and the live,
  archival and stream verifiers. SHA-256, Ed25519 and the key import of Web Crypto are parameters. Numbers of a
  commitment are integers; \<open>to_number\<close> is the rounding of a \<open>bigint\<close> that \<open>Number\<close> performs.
\<close>

section \<open>Constants and schemas\<close>

definition INTERLACE_RECEIPT_HEADER :: jsstr where
  "INTERLACE_RECEIPT_HEADER = js ''Interlace-Receipt''"

definition HEADER_ALLOWLIST :: "jsstr list" where
  "HEADER_ALLOWLIST = map js
     [''access-control-allow-credentials'', ''access-control-allow-origin'', ''access-control-expose-headers'',
      ''cache-control'', ''content-encoding'', ''content-language'', ''content-length'', ''content-type'',
      ''docker-content-digest'', ''docker-distribution-api-version'', ''etag'', ''last-modified'', ''link'', ''location'',
      ''mcp-protocol-version'', ''mcp-session-id'', ''retry-after'', ''www-authenticate'']"

definition RECEIPT_CLOCK_SKEW_MS :: int where
  "RECEIPT_CLOCK_SKEW_MS = 300000"

record ReceiptCommitment =
  rc_nonce :: bytes
  rc_requestHash :: bytes
  rc_status :: int
  rc_bodyHash :: bytes
  rc_headersHash :: bytes
  rc_timestampMs :: int
  rc_actorFp :: bytes
  rc_originsHash :: "bytes option"
  rc_epoch :: int

record ReceiptEnvelope =
  re_commitment :: ReceiptCommitment
  re_signature :: bytes

datatype stream_mode = Sse | Ndjson

record StreamOpenCommitment =
  so_nonce :: bytes
  so_requestHash :: bytes
  so_status :: int
  so_streamMode :: stream_mode
  so_streamId :: bytes
  so_timestampMs :: int
  so_actorFp :: bytes
  so_epoch :: int

record StreamOpenEnvelope =
  soe_commitment :: StreamOpenCommitment
  soe_signature :: bytes

datatype close_status = Close_ok | Client_disconnect | Server_shutdown

record StreamCloseCommitment =
  sc_streamId :: bytes
  sc_openCommitmentHash :: bytes
  sc_tipHash :: bytes
  sc_eventCount :: int
  sc_closeStatus :: close_status
  sc_timestampMs :: int

record StreamCloseEnvelope =
  sce_commitment :: StreamCloseCommitment
  sce_signature :: bytes

section \<open>Canonical bytes\<close>

definition commitmentCborMap :: "ReceiptCommitment \<Rightarrow> cbor_value" where
  "commitmentCborMap c = Obj
     ([(js ''actor_fp'', Bytes (rc_actorFp c)), (js ''body_hash'', Bytes (rc_bodyHash c)), (js ''epoch'', Num (Integer (rc_epoch c))),
       (js ''headers_hash'', Bytes (rc_headersHash c)), (js ''nonce'', Bytes (rc_nonce c)), (js ''request_hash'', Bytes (rc_requestHash c)),
       (js ''status'', Num (Integer (rc_status c))), (js ''timestamp_ms'', Num (Integer (rc_timestampMs c)))] @
      (case rc_originsHash c of None \<Rightarrow> [] | Some h \<Rightarrow> [(js ''origins_hash'', Bytes h)]))"

definition mode_text :: "stream_mode \<Rightarrow> jsstr" where
  "mode_text m = (case m of Sse \<Rightarrow> js ''sse'' | Ndjson \<Rightarrow> js ''ndjson'')"

definition status_text :: "close_status \<Rightarrow> jsstr" where
  "status_text s = (case s of Close_ok \<Rightarrow> js ''ok'' | Client_disconnect \<Rightarrow> js ''client-disconnect'' | Server_shutdown \<Rightarrow> js ''server-shutdown'')"

definition streamOpenCborMap :: "StreamOpenCommitment \<Rightarrow> cbor_value" where
  "streamOpenCborMap c = Obj
     [(js ''actor_fp'', Bytes (so_actorFp c)), (js ''epoch'', Num (Integer (so_epoch c))), (js ''nonce'', Bytes (so_nonce c)),
      (js ''request_hash'', Bytes (so_requestHash c)), (js ''status'', Num (Integer (so_status c))), (js ''stream_id'', Bytes (so_streamId c)),
      (js ''stream_mode'', Text (mode_text (so_streamMode c))), (js ''timestamp_ms'', Num (Integer (so_timestampMs c)))]"

definition streamCloseCborMap :: "StreamCloseCommitment \<Rightarrow> cbor_value" where
  "streamCloseCborMap c = Obj
     [(js ''close_status'', Text (status_text (sc_closeStatus c))), (js ''event_count'', Num (Integer (sc_eventCount c))),
      (js ''open_commitment_hash'', Bytes (sc_openCommitmentHash c)), (js ''stream_id'', Bytes (sc_streamId c)),
      (js ''timestamp_ms'', Num (Integer (sc_timestampMs c))), (js ''tip_hash'', Bytes (sc_tipHash c))]"

definition encodeCommitment :: "ReceiptCommitment \<Rightarrow> cbor_error + bytes" where
  "encodeCommitment c = canonicalCbor (commitmentCborMap c)"

definition encodeStreamOpenCommitment :: "StreamOpenCommitment \<Rightarrow> cbor_error + bytes" where
  "encodeStreamOpenCommitment c = canonicalCbor (streamOpenCborMap c)"

definition encodeStreamCloseCommitment :: "StreamCloseCommitment \<Rightarrow> cbor_error + bytes" where
  "encodeStreamCloseCommitment c = canonicalCbor (streamCloseCborMap c)"

definition encodeReceiptEnvelope :: "ReceiptEnvelope \<Rightarrow> cbor_error + bytes" where
  "encodeReceiptEnvelope env = canonicalCbor (Obj
     [(js ''commitment'', commitmentCborMap (re_commitment env)), (js ''signature'', Bytes (re_signature env))])"

definition encodeStreamOpenEnvelope :: "StreamOpenEnvelope \<Rightarrow> cbor_error + bytes" where
  "encodeStreamOpenEnvelope env = canonicalCbor (Obj
     [(js ''commitment'', streamOpenCborMap (soe_commitment env)), (js ''kind'', Text (js ''stream-open'')),
      (js ''signature'', Bytes (soe_signature env))])"

definition encodeStreamCloseEnvelope :: "StreamCloseEnvelope \<Rightarrow> cbor_error + bytes" where
  "encodeStreamCloseEnvelope env = canonicalCbor (Obj
     [(js ''commitment'', streamCloseCborMap (sce_commitment env)), (js ''signature'', Bytes (sce_signature env))])"

section \<open>Decoding\<close>

text \<open>Why a decoder or a verifier refuses; the texts of the source are constructors.\<close>

datatype reason =
    Bad_base64 | Bad_cbor cbor_error
  | Not_a_map | Unexpected_keys "jsstr list" | Kind_mismatch
  | Commitment_not_map | Signature_not_bytes | Signature_length nat
  | Missing_key jsstr | Unexpected_clauses "jsstr list" | Bad_field jsstr
  | Nonce_mismatch | Request_hash_mismatch | Actor_fp_mismatch | Epoch_not_tolerated | No_pubkey
  | Bad_signature | Body_hash_mismatch | Headers_hash_mismatch | Out_of_skew | Bad_status
  | Open_hash_mismatch | Tip_hash_mismatch

definition own_keys :: "(jsstr \<times> cbor_value) list \<Rightarrow> jsstr list" where
  "own_keys m = filter (\<lambda>k. k \<noteq> js ''__proto__'') (map fst m)"

text \<open>\<open>m[k]\<close> and \<open>k in m\<close> for a name that no built-in prototype has: the own property, or that of the prototype.\<close>

function js_member :: "cbor_value \<Rightarrow> jsstr \<Rightarrow> cbor_value option" where
  "js_member (Obj m) k =
     (if k \<in> set (own_keys m) then map_of m k
      else (case map_of m (js ''__proto__'') of None \<Rightarrow> None | Some p \<Rightarrow> js_member p k))"
| "js_member (Num n) k = None"
| "js_member (Big n) k = None"
| "js_member (Bytes b) k = None"
| "js_member (Text s) k = None"
| "js_member (Arr vs) k = None"
| "js_member Null k = None"
| "js_member Undefined k = None"
  by pat_completeness auto
termination
proof (relation "measure (\<lambda>(v, k). size v)")
  fix m :: "(jsstr \<times> cbor_value) list" and k p assume "map_of m (js ''__proto__'') = Some p"
  then have "(js ''__proto__'', p) \<in> set m" by (rule map_of_SomeD)
  then have "size p \<le> size_list (size_prod (\<lambda>_. 0) size) m" by (rule size_list_estimation') simp
  then show "((p, k), Obj m, k) \<in> measure (\<lambda>(v, k). size v)" by simp
qed simp

text \<open>\<open>Number(n)\<close> of a non-negative \<open>bigint\<close>: 53 significant bits, nearest, ties to even.\<close>

fun excess_bits :: "nat \<Rightarrow> int \<Rightarrow> nat" where
  "excess_bits 0 n = 0"
| "excess_bits (Suc f) n = (if n < 2 ^ 53 then 0 else Suc (excess_bits f (n div 2)))"

definition to_number :: "int \<Rightarrow> int" where
  "to_number n =
     (let e = excess_bits 12 n; q = n div 2 ^ e; r = 2 * (n mod 2 ^ e) in
      if e = 0 then n
      else if r < 2 ^ e \<or> r = 2 ^ e \<and> even q then q * 2 ^ e else (q + 1) * 2 ^ e)"

definition member_bytes :: "cbor_value \<Rightarrow> jsstr \<Rightarrow> bytes option" where
  "member_bytes m k = (case js_member m k of Some (Bytes b) \<Rightarrow> Some b | _ \<Rightarrow> None)"

definition member_sized :: "cbor_value \<Rightarrow> jsstr \<Rightarrow> nat \<Rightarrow> bytes option" where
  "member_sized m k n = (case member_bytes m k of Some b \<Rightarrow> if length b \<noteq> n then None else Some b | None \<Rightarrow> None)"

definition member_nonce :: "cbor_value \<Rightarrow> bytes option" where
  "member_nonce m = (case member_bytes m (js ''nonce'') of Some b \<Rightarrow> if length b < 16 then None else Some b | None \<Rightarrow> None)"

definition member_number :: "cbor_value \<Rightarrow> jsstr \<Rightarrow> int option" where
  "member_number m k = (case js_member m k of Some (Num (Integer n)) \<Rightarrow> Some n | _ \<Rightarrow> None)"

definition member_timestamp :: "cbor_value \<Rightarrow> int option" where
  "member_timestamp m = (case js_member m (js ''timestamp_ms'') of Some (Num (Integer n)) \<Rightarrow> Some n | Some (Big n) \<Rightarrow> Some (to_number n) | _ \<Rightarrow> None)"

definition member_text :: "cbor_value \<Rightarrow> jsstr \<Rightarrow> (jsstr \<times> 'a) list \<Rightarrow> 'a option" where
  "member_text m k table = (case js_member m k of Some (Text s) \<Rightarrow> map_of table s | _ \<Rightarrow> None)"

definition need :: "jsstr \<Rightarrow> 'a option \<Rightarrow> ('a \<Rightarrow> reason + 'b) \<Rightarrow> reason + 'b" where
  "need k x f = (case x of None \<Rightarrow> Inl (Bad_field k) | Some a \<Rightarrow> f a)"

text \<open>The two key checks every schema makes, in this order.\<close>

definition schema_keys :: "cbor_value \<Rightarrow> jsstr list \<Rightarrow> jsstr list \<Rightarrow> reason option" where
  "schema_keys m required optional =
     (case find (\<lambda>r. js_member m r = None) required of
        Some r \<Rightarrow> Some (Missing_key r)
      | None \<Rightarrow>
          let extra = filter (\<lambda>k. k \<notin> set required \<and> k \<notin> set optional) (case m of Obj es \<Rightarrow> own_keys es | _ \<Rightarrow> []) in
          if extra \<noteq> [] then Some (Unexpected_clauses extra) else None)"

definition commitment_required :: "jsstr list" where
  "commitment_required =
     [js ''actor_fp'', js ''body_hash'', js ''epoch'', js ''headers_hash'', js ''nonce'', js ''request_hash'', js ''status'', js ''timestamp_ms'']"

definition parseCommitmentMap :: "cbor_value \<Rightarrow> reason + ReceiptCommitment" where
  "parseCommitmentMap m =
     (case schema_keys m commitment_required [js ''origins_hash''] of Some e \<Rightarrow> Inl e
      | None \<Rightarrow>
          need (js ''origins_hash'') (case js_member m (js ''origins_hash'') of None \<Rightarrow> Some None
              | Some v \<Rightarrow> map_option Some (member_sized m (js ''origins_hash'') 32)) (\<lambda>originsHash.
          need (js ''actor_fp'') (member_sized m (js ''actor_fp'') 32) (\<lambda>actorFp.
          need (js ''body_hash'') (member_sized m (js ''body_hash'') 32) (\<lambda>bodyHash.
          need (js ''epoch'') (member_number m (js ''epoch'')) (\<lambda>epoch.
          need (js ''headers_hash'') (member_sized m (js ''headers_hash'') 32) (\<lambda>headersHash.
          need (js ''nonce'') (member_nonce m) (\<lambda>nonce.
          need (js ''request_hash'') (member_sized m (js ''request_hash'') 32) (\<lambda>requestHash.
          need (js ''status'') (member_number m (js ''status'')) (\<lambda>status.
          need (js ''timestamp_ms'') (member_timestamp m) (\<lambda>ts.
            Inr \<lparr>rc_nonce = nonce, rc_requestHash = requestHash, rc_status = status, rc_bodyHash = bodyHash, rc_headersHash = headersHash,
                 rc_timestampMs = ts, rc_actorFp = actorFp, rc_originsHash = originsHash, rc_epoch = epoch\<rparr>))))))))))"

definition stream_open_required :: "jsstr list" where
  "stream_open_required =
     [js ''actor_fp'', js ''epoch'', js ''nonce'', js ''request_hash'', js ''status'', js ''stream_id'', js ''stream_mode'', js ''timestamp_ms'']"

definition parseStreamOpenMap :: "cbor_value \<Rightarrow> reason + StreamOpenCommitment" where
  "parseStreamOpenMap m =
     (case schema_keys m stream_open_required [] of Some e \<Rightarrow> Inl e
      | None \<Rightarrow>
          need (js ''actor_fp'') (member_sized m (js ''actor_fp'') 32) (\<lambda>actorFp.
          need (js ''epoch'') (member_number m (js ''epoch'')) (\<lambda>epoch.
          need (js ''nonce'') (member_nonce m) (\<lambda>nonce.
          need (js ''request_hash'') (member_sized m (js ''request_hash'') 32) (\<lambda>requestHash.
          need (js ''status'') (member_number m (js ''status'')) (\<lambda>status.
          need (js ''stream_id'') (member_sized m (js ''stream_id'') 16) (\<lambda>streamId.
          need (js ''stream_mode'') (member_text m (js ''stream_mode'') [(js ''sse'', Sse), (js ''ndjson'', Ndjson)]) (\<lambda>mode.
          need (js ''timestamp_ms'') (member_timestamp m) (\<lambda>ts.
            Inr \<lparr>so_nonce = nonce, so_requestHash = requestHash, so_status = status, so_streamMode = mode, so_streamId = streamId,
                 so_timestampMs = ts, so_actorFp = actorFp, so_epoch = epoch\<rparr>)))))))))"

definition stream_close_required :: "jsstr list" where
  "stream_close_required =
     [js ''close_status'', js ''event_count'', js ''open_commitment_hash'', js ''stream_id'', js ''timestamp_ms'', js ''tip_hash'']"

definition parseStreamCloseMap :: "cbor_value \<Rightarrow> reason + StreamCloseCommitment" where
  "parseStreamCloseMap m =
     (case schema_keys m stream_close_required [] of Some e \<Rightarrow> Inl e
      | None \<Rightarrow>
          need (js ''close_status'') (member_text m (js ''close_status'')
              [(js ''ok'', Close_ok), (js ''client-disconnect'', Client_disconnect), (js ''server-shutdown'', Server_shutdown)]) (\<lambda>closeStatus.
          need (js ''event_count'') (member_number m (js ''event_count'')) (\<lambda>eventCount.
          need (js ''open_commitment_hash'') (member_sized m (js ''open_commitment_hash'') 32) (\<lambda>openHash.
          need (js ''stream_id'') (member_sized m (js ''stream_id'') 16) (\<lambda>streamId.
          need (js ''timestamp_ms'') (member_timestamp m) (\<lambda>ts.
          need (js ''tip_hash'') (member_sized m (js ''tip_hash'') 32) (\<lambda>tipHash.
            Inr \<lparr>sc_streamId = streamId, sc_openCommitmentHash = openHash, sc_tipHash = tipHash, sc_eventCount = eventCount,
                 sc_closeStatus = closeStatus, sc_timestampMs = ts\<rparr>)))))))"

text \<open>The envelope checks: a map with exactly the given keys, the commitment a map, the signature 64 bytes. \<open>kind\<close> is the
  text a stream-open envelope must carry, tested before the commitment.\<close>

definition open_envelope :: "bytes \<Rightarrow> jsstr list \<Rightarrow> jsstr option \<Rightarrow> reason + cbor_value \<times> bytes" where
  "open_envelope bs keys kind =
     (case decodeCanonicalCbor bs of
        Inl e \<Rightarrow> Inl (Bad_cbor e)
      | Inr outer \<Rightarrow> (case outer of
          Obj m \<Rightarrow>
            if sort (own_keys m) \<noteq> keys then Inl (Unexpected_keys (sort (own_keys m)))
            else if (case kind of None \<Rightarrow> False | Some t \<Rightarrow> js_member outer (js ''kind'') \<noteq> Some (Text t)) then Inl Kind_mismatch
            else (case js_member outer (js ''commitment'') of
              Some (Obj c) \<Rightarrow> (case js_member outer (js ''signature'') of
                  Some (Bytes sig) \<Rightarrow> if length sig \<noteq> 64 then Inl (Signature_length (length sig)) else Inr (Obj c, sig)
                | _ \<Rightarrow> Inl Signature_not_bytes)
            | _ \<Rightarrow> Inl Commitment_not_map)
        | _ \<Rightarrow> Inl Not_a_map))"

definition decodeReceiptBytes :: "bytes \<Rightarrow> reason + ReceiptEnvelope" where
  "decodeReceiptBytes bs =
     (case open_envelope bs [js ''commitment'', js ''signature''] None of Inl e \<Rightarrow> Inl e
      | Inr (m, sig) \<Rightarrow> (case parseCommitmentMap m of Inl e \<Rightarrow> Inl e
          | Inr c \<Rightarrow> Inr \<lparr>re_commitment = c, re_signature = sig\<rparr>))"

definition decodeStreamOpenEnvelopeBytes :: "bytes \<Rightarrow> reason + StreamOpenEnvelope" where
  "decodeStreamOpenEnvelopeBytes bs =
     (case open_envelope bs [js ''commitment'', js ''kind'', js ''signature''] (Some (js ''stream-open'')) of Inl e \<Rightarrow> Inl e
      | Inr (m, sig) \<Rightarrow> (case parseStreamOpenMap m of Inl e \<Rightarrow> Inl e
          | Inr c \<Rightarrow> Inr \<lparr>soe_commitment = c, soe_signature = sig\<rparr>))"

definition decodeStreamCloseEnvelopeBytes :: "bytes \<Rightarrow> reason + StreamCloseEnvelope" where
  "decodeStreamCloseEnvelopeBytes bs =
     (case open_envelope bs [js ''commitment'', js ''signature''] None of Inl e \<Rightarrow> Inl e
      | Inr (m, sig) \<Rightarrow> (case parseStreamCloseMap m of Inl e \<Rightarrow> Inl e
          | Inr c \<Rightarrow> Inr \<lparr>sce_commitment = c, sce_signature = sig\<rparr>))"

definition b64urlEncode :: "bytes \<Rightarrow> jsstr" where
  "b64urlEncode bs = strip_eq (map url_char (btoa bs))"

definition b64urlDecode :: "jsstr \<Rightarrow> bytes option" where
  "b64urlDecode s = atob (map std_char s @ drop ((length s + 3) mod 4) (js ''===''))"

definition b64stdDecode :: "jsstr \<Rightarrow> bytes option" where
  "b64stdDecode s = (if s = [] then Some [] else atob s)"

definition decodeReceiptHeader :: "jsstr \<Rightarrow> reason + ReceiptEnvelope" where
  "decodeReceiptHeader s = (case b64urlDecode s of None \<Rightarrow> Inl Bad_base64 | Some bs \<Rightarrow> decodeReceiptBytes bs)"

section \<open>Signing\<close>

record ReceiptSigner =
  sg_sign :: "bytes \<Rightarrow> bytes option"
  sg_pubkey :: bytes

datatype sign_error = Keypair_length nat | Import_failed | Sign_failed | Encode_failed cbor_error

definition pkcs8_prefix :: bytes where
  "pkcs8_prefix = [0x30, 0x2e, 0x02, 0x01, 0x00, 0x30, 0x05, 0x06, 0x03, 0x2b, 0x65, 0x70, 0x04, 0x22, 0x04, 0x20]"

text \<open>\<open>import_key\<close> is \<open>crypto.subtle.importKey\<close> for PKCS#8 followed by \<open>sign\<close>; \<open>None\<close> is a raised error.\<close>

definition makeReceiptSignerFromKeypair :: "(bytes \<Rightarrow> (bytes \<Rightarrow> bytes option) option) \<Rightarrow> bytes \<Rightarrow> sign_error + ReceiptSigner" where
  "makeReceiptSignerFromKeypair import_key keypair =
     (if length keypair \<noteq> 64 then Inl (Keypair_length (length keypair))
      else (case import_key (pkcs8_prefix @ take 32 keypair) of
              None \<Rightarrow> Inl Import_failed
            | Some sign \<Rightarrow> Inr \<lparr>sg_sign = sign, sg_pubkey = drop 32 keypair\<rparr>))"

definition sign_bytes :: "ReceiptSigner \<Rightarrow> (cbor_error + bytes) \<Rightarrow> sign_error + bytes \<times> bytes" where
  "sign_bytes signer enc =
     (case enc of Inl e \<Rightarrow> Inl (Encode_failed e)
      | Inr canon \<Rightarrow> (case sg_sign signer canon of None \<Rightarrow> Inl Sign_failed | Some sig \<Rightarrow> Inr (canon, sig)))"

definition signCommitmentToHeader :: "ReceiptCommitment \<Rightarrow> ReceiptSigner \<Rightarrow> sign_error + jsstr \<times> bytes \<times> bytes" where
  "signCommitmentToHeader c signer =
     (case sign_bytes signer (encodeCommitment c) of Inl e \<Rightarrow> Inl e
      | Inr (canon, sig) \<Rightarrow> (case encodeReceiptEnvelope \<lparr>re_commitment = c, re_signature = sig\<rparr> of Inl e \<Rightarrow> Inl (Encode_failed e)
          | Inr env \<Rightarrow> Inr (b64urlEncode env, env, sig)))"

definition signStreamOpenToHeader :: "(bytes \<Rightarrow> bytes) \<Rightarrow> StreamOpenCommitment \<Rightarrow> ReceiptSigner \<Rightarrow> sign_error + jsstr \<times> bytes \<times> bytes \<times> bytes" where
  "signStreamOpenToHeader sha c signer =
     (case sign_bytes signer (encodeStreamOpenCommitment c) of Inl e \<Rightarrow> Inl e
      | Inr (canon, sig) \<Rightarrow> (case encodeStreamOpenEnvelope \<lparr>soe_commitment = c, soe_signature = sig\<rparr> of Inl e \<Rightarrow> Inl (Encode_failed e)
          | Inr env \<Rightarrow> Inr (b64urlEncode env, env, sig, sha canon)))"

definition signStreamCloseToEventPayload :: "StreamCloseCommitment \<Rightarrow> ReceiptSigner \<Rightarrow> sign_error + jsstr \<times> bytes \<times> bytes" where
  "signStreamCloseToEventPayload c signer =
     (case sign_bytes signer (encodeStreamCloseCommitment c) of Inl e \<Rightarrow> Inl e
      | Inr (canon, sig) \<Rightarrow> (case encodeStreamCloseEnvelope \<lparr>sce_commitment = c, sce_signature = sig\<rparr> of Inl e \<Rightarrow> Inl (Encode_failed e)
          | Inr env \<Rightarrow> Inr (b64urlEncode env, env, sig)))"

text \<open>\<open>ed\<close> is the import of a raw key and \<open>crypto.subtle.verify\<close>; \<open>None\<close> is a raised error.\<close>

definition verifyEd25519 :: "(bytes \<Rightarrow> bytes \<Rightarrow> bytes \<Rightarrow> bool option) \<Rightarrow> bytes \<Rightarrow> bytes \<Rightarrow> bytes \<Rightarrow> bool" where
  "verifyEd25519 ed pubkey signature canonical =
     (if length pubkey \<noteq> 32 \<or> length signature \<noteq> 64 then False
      else (case ed pubkey signature canonical of None \<Rightarrow> False | Some ok \<Rightarrow> ok))"

definition committed_headers :: "headers \<Rightarrow> (jsstr \<times> cbor_value) list" where
  "committed_headers hs = List.map_filter (\<lambda>name. map_option (\<lambda>v. (name, Bytes (utf8_encode v))) (map_of hs name)) HEADER_ALLOWLIST"

definition buildHeadersCommittedBytes :: "headers \<Rightarrow> cbor_error + bytes" where
  "buildHeadersCommittedBytes hs = canonicalCbor (Obj (committed_headers hs))"

definition eventChainStep :: "(bytes \<Rightarrow> bytes) \<Rightarrow> bytes \<Rightarrow> bytes \<Rightarrow> int \<Rightarrow> cbor_error + bytes" where
  "eventChainStep sha prev eventData seq =
     (case canonicalCbor (Obj [(js ''event_data'', Bytes eventData), (js ''prev'', Bytes prev), (js ''seq'', Num (Integer seq))]) of
        Inl e \<Rightarrow> Inl e | Inr canon \<Rightarrow> Inr (sha canon))"

section \<open>Verification\<close>

definition constantTimeEqual :: "bytes \<Rightarrow> bytes \<Rightarrow> bool" where
  "constantTimeEqual a b =
     (if length a \<noteq> length b then False else foldl (\<lambda>diff (x, y). diff OR (x XOR y)) 0 (zip a b) = 0)"

datatype 'a verdict = Throws cbor_error | Refused reason | Accepted 'a

text \<open>A canonical encoding that throws rejects the promise of the verifier.\<close>

definition encoding :: "cbor_error + bytes \<Rightarrow> (bytes \<Rightarrow> 'a verdict) \<Rightarrow> 'a verdict" where
  "encoding x f = (case x of Inl e \<Rightarrow> Throws e | Inr b \<Rightarrow> f b)"

record PLiveVerifyArgs =
  pl_headerValue :: jsstr
  pl_expectedActorFp :: bytes
  pl_currentEpoch :: int
  pl_prevEpoch :: "int option"
  pl_resolvePubkey :: "int \<Rightarrow> bytes option"
  pl_expectedNonce :: bytes
  pl_requestCanon :: bytes
  pl_responseBody :: bytes
  pl_responseHeaders :: headers
  pl_nowMs :: int

definition verifyReceiptPLive :: "(bytes \<Rightarrow> bytes) \<Rightarrow> (bytes \<Rightarrow> bytes \<Rightarrow> bytes \<Rightarrow> bool option) \<Rightarrow> PLiveVerifyArgs \<Rightarrow> ReceiptEnvelope verdict" where
  "verifyReceiptPLive sha ed args =
     (case decodeReceiptHeader (pl_headerValue args) of
        Inl e \<Rightarrow> Refused e
      | Inr envelope \<Rightarrow>
          let c = re_commitment envelope in
          if \<not> constantTimeEqual (rc_nonce c) (pl_expectedNonce args) then Refused Nonce_mismatch
          else if \<not> constantTimeEqual (rc_requestHash c) (sha (pl_requestCanon args)) then Refused Request_hash_mismatch
          else if \<not> constantTimeEqual (rc_actorFp c) (pl_expectedActorFp args) then Refused Actor_fp_mismatch
          else if rc_epoch c \<noteq> pl_currentEpoch args \<and> Some (rc_epoch c) \<noteq> pl_prevEpoch args then Refused Epoch_not_tolerated
          else (case pl_resolvePubkey args (rc_epoch c) of
              None \<Rightarrow> Refused No_pubkey
            | Some pubkey \<Rightarrow> encoding (encodeCommitment c) (\<lambda>canonical.
                if \<not> verifyEd25519 ed pubkey (re_signature envelope) canonical then Refused Bad_signature
                else if \<not> constantTimeEqual (rc_bodyHash c) (sha (pl_responseBody args)) then Refused Body_hash_mismatch
                else encoding (buildHeadersCommittedBytes (pl_responseHeaders args)) (\<lambda>headersBytes.
                  if \<not> constantTimeEqual (rc_headersHash c) (sha headersBytes) then Refused Headers_hash_mismatch
                  else if \<bar>pl_nowMs args - rc_timestampMs c\<bar> > RECEIPT_CLOCK_SKEW_MS then Refused Out_of_skew
                  else if rc_status c < 200 \<or> rc_status c \<ge> 300 then Refused Bad_status
                  else Accepted envelope))))"

record VArchivalVerifyArgs =
  va_envelopeBytes :: bytes
  va_requestCanon :: bytes
  va_responseBody :: bytes
  va_responseHeaders :: headers
  va_archivalPubkey :: bytes
  va_expectedActorFp :: bytes
  va_compromiseNotice :: "(int \<times> bool) option"

definition verifyReceiptVArchival :: "(bytes \<Rightarrow> bytes) \<Rightarrow> (bytes \<Rightarrow> bytes \<Rightarrow> bytes \<Rightarrow> bool option) \<Rightarrow> VArchivalVerifyArgs \<Rightarrow> (ReceiptEnvelope \<times> bool) verdict" where
  "verifyReceiptVArchival sha ed args =
     (case decodeReceiptBytes (va_envelopeBytes args) of
        Inl e \<Rightarrow> Refused e
      | Inr envelope \<Rightarrow>
          let c = re_commitment envelope in
          if \<not> constantTimeEqual (rc_actorFp c) (va_expectedActorFp args) then Refused Actor_fp_mismatch
          else if \<not> constantTimeEqual (rc_requestHash c) (sha (va_requestCanon args)) then Refused Request_hash_mismatch
          else encoding (encodeCommitment c) (\<lambda>canonical.
            if \<not> verifyEd25519 ed (va_archivalPubkey args) (re_signature envelope) canonical then Refused Bad_signature
            else if \<not> constantTimeEqual (rc_bodyHash c) (sha (va_responseBody args)) then Refused Body_hash_mismatch
            else encoding (buildHeadersCommittedBytes (va_responseHeaders args)) (\<lambda>headersBytes.
              if \<not> constantTimeEqual (rc_headersHash c) (sha headersBytes) then Refused Headers_hash_mismatch
              else if rc_status c < 200 \<or> rc_status c \<ge> 300 then Refused Bad_status
              else Accepted (envelope, case va_compromiseNotice args of
                  Some (compromisedAtMs, True) \<Rightarrow> \<not> rc_timestampMs c \<ge> compromisedAtMs
                | _ \<Rightarrow> True))))"

record StreamOpenVerifyArgs =
  sv_headerValue :: jsstr
  sv_expectedActorFp :: bytes
  sv_currentEpoch :: int
  sv_prevEpoch :: "int option"
  sv_resolvePubkey :: "int \<Rightarrow> bytes option"
  sv_expectedNonce :: bytes
  sv_requestCanon :: bytes
  sv_nowMs :: int

definition base64UrlDecode :: "jsstr \<Rightarrow> bytes option" where
  "base64UrlDecode s = atob (map std_char s @ drop ((length s + 3) mod 4) (js ''===''))"

definition verifyStreamOpen :: "(bytes \<Rightarrow> bytes) \<Rightarrow> (bytes \<Rightarrow> bytes \<Rightarrow> bytes \<Rightarrow> bool option) \<Rightarrow> StreamOpenVerifyArgs \<Rightarrow> (StreamOpenEnvelope \<times> bytes) verdict" where
  "verifyStreamOpen sha ed args =
     (case base64UrlDecode (sv_headerValue args) of None \<Rightarrow> Refused Bad_base64
      | Some bs \<Rightarrow> (case decodeStreamOpenEnvelopeBytes bs of
          Inl e \<Rightarrow> Refused e
        | Inr envelope \<Rightarrow>
            let c = soe_commitment envelope in
            if \<not> constantTimeEqual (so_nonce c) (sv_expectedNonce args) then Refused Nonce_mismatch
            else if \<not> constantTimeEqual (so_requestHash c) (sha (sv_requestCanon args)) then Refused Request_hash_mismatch
            else if \<not> constantTimeEqual (so_actorFp c) (sv_expectedActorFp args) then Refused Actor_fp_mismatch
            else if so_epoch c \<noteq> sv_currentEpoch args \<and> Some (so_epoch c) \<noteq> sv_prevEpoch args then Refused Epoch_not_tolerated
            else (case sv_resolvePubkey args (so_epoch c) of
                None \<Rightarrow> Refused No_pubkey
              | Some pubkey \<Rightarrow> encoding (encodeStreamOpenCommitment c) (\<lambda>canonical.
                  if \<not> verifyEd25519 ed pubkey (soe_signature envelope) canonical then Refused Bad_signature
                  else if \<bar>sv_nowMs args - so_timestampMs c\<bar> > RECEIPT_CLOCK_SKEW_MS then Refused Out_of_skew
                  else if so_status c \<noteq> 200 then Refused Bad_status
                  else Accepted (envelope, sha canonical)))))"

record StreamCloseVerifyArgs =
  cv_payload :: jsstr
  cv_expectedOpenCommitmentHash :: bytes
  cv_expectedTipHash :: bytes
  cv_pubkey :: bytes

definition verifyStreamClose :: "(bytes \<Rightarrow> bytes \<Rightarrow> bytes \<Rightarrow> bool option) \<Rightarrow> StreamCloseVerifyArgs \<Rightarrow> StreamCloseEnvelope verdict" where
  "verifyStreamClose ed args =
     (case base64UrlDecode (cv_payload args) of None \<Rightarrow> Refused Bad_base64
      | Some bs \<Rightarrow> (case decodeStreamCloseEnvelopeBytes bs of
          Inl e \<Rightarrow> Refused e
        | Inr envelope \<Rightarrow>
            let c = sce_commitment envelope in
            if \<not> constantTimeEqual (sc_openCommitmentHash c) (cv_expectedOpenCommitmentHash args) then Refused Open_hash_mismatch
            else if \<not> constantTimeEqual (sc_tipHash c) (cv_expectedTipHash args) then Refused Tip_hash_mismatch
            else encoding (encodeStreamCloseCommitment c) (\<lambda>canonical.
              if \<not> verifyEd25519 ed (cv_pubkey args) (sce_signature envelope) canonical then Refused Bad_signature
              else Accepted envelope)))"

end
