(* ===== verification/Receipts_Codec.thy ===== *)
theory Receipts_Codec
  imports Receipts
begin

text \<open>
  The wire form of receipts: every commitment has one canonical form, its bytes decode to that form, and an envelope
  built from a well-formed commitment and a 64-byte signature decodes to exactly these. Conversely whatever the decoder
  accepts is a well-formed commitment, up to timestamps that do not fit 64 bits after rounding.
\<close>

section \<open>Comparison\<close>

lemma or_xor_zero: "(d :: byte) OR (x XOR y) = 0 \<longleftrightarrow> d = 0 \<and> x = y"
  by (auto simp: bit_eq_iff bit_simps)

lemma fold_or_zero:
  "length a = length b \<Longrightarrow> foldl (\<lambda>d (x, y). d OR (x XOR y)) d (zip a b) = (0 :: byte) \<longleftrightarrow> d = 0 \<and> a = b"
  by (induction a b arbitrary: d rule: list_induct2) (auto simp: or_xor_zero)

lemma constantTimeEqual_iff [simp]: "constantTimeEqual a b \<longleftrightarrow> a = b"
  by (auto simp: constantTimeEqual_def fold_or_zero)

section \<open>Keys of the schemas\<close>

text \<open>Short ASCII keys are ordered by length, then by their characters.\<close>

definition key_less :: "jsstr \<Rightarrow> jsstr \<Rightarrow> bool" where
  "key_less k k' = (length k < length k' \<or> length k = length k' \<and> k < k')"

lemma byte_of_char: "unat (c :: jschar) < 128 \<Longrightarrow> unat (ucast c :: byte) = unat c"
  by (simp add: unsigned_ucast_eq take_bit_nat_eq_self)

lemma ascii_bytes_less:
  "ascii k \<Longrightarrow> ascii k' \<Longrightarrow> length k = length k' \<Longrightarrow>
   map (\<lambda>c. ucast c) k < (map (\<lambda>c. ucast c) k' :: bytes) \<longleftrightarrow> k < k'"
proof (induction k k' rule: list_induct2')
  case (4 c k d k')
  then have "(ucast c :: byte) < ucast d \<longleftrightarrow> c < d" "(ucast c :: byte) = ucast d \<longleftrightarrow> c = d"
    by (simp_all add: word_less_nat_alt word_unat_eq_iff byte_of_char)
  then show ?case using 4 by simp
qed simp_all

lemma schema_key:
  assumes "ascii k" "length k < 24"
  shows "text_ok k" "key_bytes k = to_u8 (96 + int (length k)) # map (\<lambda>c. ucast c) k"
proof -
  have hd: "hd k \<noteq> 0xFEFF" if "k \<noteq> []" using that assms(1) by (cases k) auto
  show "text_ok k"
    using assms hd by (simp add: text_ok_def plain_text_def ascii_well_formed utf8_encode_ascii head_ok_def)
  show "key_bytes k = to_u8 (96 + int (length k)) # map (\<lambda>c. ucast c) k"
    using assms js_bitor_low [of "int (length k)" 5 3]
    by (simp add: key_bytes_def encodeText_def Let_def with_head_def utf8_encode_ascii writeHead_cases initial_byte_def js_bitand_masks js_shl_int to_int32_nonneg)
qed

lemma schema_key_less:
  assumes "ascii k" "length k < 24" "ascii k'" "length k' < 24"
  shows "compareBytes (key_bytes k) (key_bytes k') < 0 \<longleftrightarrow> key_less k k'"
proof -
  have "to_u8 (96 + int (length k)) < to_u8 (96 + int (length k')) \<longleftrightarrow> length k < length k'"
    "to_u8 (96 + int (length k)) = to_u8 (96 + int (length k')) \<longleftrightarrow> length k = length k'"
    using assms by (simp_all add: word_less_def word_uint_eq_iff)
  then show ?thesis using assms ascii_bytes_less [of k k']
    by (auto simp: compareBytes_iff schema_key key_less_def)
qed

section \<open>Canonical forms of the maps\<close>

definition same_entry :: "jsstr \<times> cbor_value \<Rightarrow> jsstr \<times> cbor_value \<Rightarrow> bool" where
  "same_entry a b \<longleftrightarrow> fst a = fst b \<and> encodeValue (snd a) = encodeValue (snd b) \<and> (snd a = Undefined \<longleftrightarrow> snd b = Undefined)"

lemma encodeEntries_cong: "list_all2 same_entry m m' \<Longrightarrow> encodeEntries m = encodeEntries m'"
proof (induction m m' rule: list_all2_induct)
  case (Cons a m b m')
  then show ?case by (cases a, cases b) (auto simp: same_entry_def simp del: list.map split: sum.split)
qed simp

lemma same_entry_refl: "list_all2 same_entry m m" "same_entry e e"
  by (simp_all add: same_entry_def list_all2_same)

lemma encode_uintValue: "encodeValue (uintValue n) = encodeValue (Num (Integer n))"
  by (simp add: uintValue_def encodeNumber_def)

lemma same_entry_uint: "same_entry (k, Num (Integer n)) (k, uintValue n)"
  by (simp add: same_entry_def encode_uintValue) (simp add: uintValue_def)

text \<open>A map in any order, its numbers as numbers, has the bytes of its canonical form, and those decode to it.\<close>

lemma canonical_form:
  assumes "list_all2 same_entry m m1" "mset m2 = mset m1" "cbor_ok (Obj m2)"
  shows "\<exists>b. canonicalCbor (Obj m) = Inr b \<and> canonicalCbor (Obj m2) = Inr b \<and> decodeCanonicalCbor b = Inr (Obj m2)"
proof -
  obtain b where b: "canonicalCbor (Obj m2) = Inr b" "decodeCanonicalCbor b = Inr (Obj m2)"
    using cbor_ok_roundtrip [OF assms(3)] by auto
  have "encodeValue (Obj m1) = Inr b"
    using encodeValue_Obj_perm [of m2 b m1] b(1) assms(2) by (simp add: canonicalCbor_def)
  then have "canonicalCbor (Obj m) = Inr b"
    using encodeEntries_cong [OF assms(1)] by (simp add: canonicalCbor_def)
  then show ?thesis using b by auto
qed

text \<open>A map with schema keys in order whose values come back.\<close>

lemma cbor_ok_schema:
  assumes "length m < 24" "\<forall>e \<in> set m. ascii (fst e) \<and> length (fst e) < 24 \<and> fst e \<noteq> js ''__proto__'' \<and> cbor_ok (snd e)"
    and "sorted_wrt (\<lambda>a b. key_less (fst a) (fst b)) m"
  shows "cbor_ok (Obj m)"
proof -
  have "sorted_wrt (\<lambda>a b. compareBytes (key_bytes (fst a)) (key_bytes (fst b)) < 0) m"
    using assms(3) by (rule sorted_wrt_mono_rel [rotated]) (use assms(2) schema_key_less in auto)
  then show ?thesis using assms(1,2) schema_key(1) by (auto simp: head_ok_def)
qed

lemma cbor_ok_uintValue: "cbor_ok (uintValue n) \<longleftrightarrow> head_ok n"
  by (auto simp: uintValue_def)

abbreviation entry :: "string \<Rightarrow> cbor_value \<Rightarrow> jsstr \<times> cbor_value" where
  "entry k v \<equiv> (js k, v)"

definition canon_commitment :: "ReceiptCommitment \<Rightarrow> cbor_value" where
  "canon_commitment c = Obj
     ([entry ''epoch'' (uintValue (rc_epoch c)), entry ''nonce'' (Bytes (rc_nonce c)), entry ''status'' (uintValue (rc_status c)),
       entry ''actor_fp'' (Bytes (rc_actorFp c)), entry ''body_hash'' (Bytes (rc_bodyHash c)), entry ''headers_hash'' (Bytes (rc_headersHash c))] @
      (case rc_originsHash c of None \<Rightarrow> [] | Some h \<Rightarrow> [entry ''origins_hash'' (Bytes h)]) @
      [entry ''request_hash'' (Bytes (rc_requestHash c)), entry ''timestamp_ms'' (uintValue (rc_timestampMs c))])"

definition safe_uint :: "int \<Rightarrow> bool" where
  "safe_uint n = (head_ok n \<and> n < 2 ^ 53)"

text \<open>A commitment the receiver reads back unchanged.\<close>

definition commitment_ok :: "ReceiptCommitment \<Rightarrow> bool" where
  "commitment_ok c \<longleftrightarrow> 16 \<le> length (rc_nonce c) \<and> head_ok (int (length (rc_nonce c))) \<and> length (rc_requestHash c) = 32 \<and>
     length (rc_bodyHash c) = 32 \<and> length (rc_headersHash c) = 32 \<and> length (rc_actorFp c) = 32 \<and>
     (\<forall>h. rc_originsHash c = Some h \<longrightarrow> length h = 32) \<and> safe_uint (rc_status c) \<and> safe_uint (rc_epoch c) \<and>
     head_ok (rc_timestampMs c) \<and> to_number (rc_timestampMs c) = rc_timestampMs c"

lemma head_ok_32: "head_ok 32" "head_ok 64" "head_ok 16"
  by (simp_all add: head_ok_def)

lemma canon_commitment_ok: "commitment_ok c \<Longrightarrow> cbor_ok (canon_commitment c)"
  unfolding canon_commitment_def
  by (rule cbor_ok_schema; cases "rc_originsHash c")
    (auto simp: commitment_ok_def cbor_ok_uintValue safe_uint_def key_less_def head_ok_32)

lemma commitment_bytes:
  assumes "commitment_ok c"
  shows "\<exists>b. encodeCommitment c = Inr b \<and> canonicalCbor (canon_commitment c) = Inr b \<and> decodeCanonicalCbor b = Inr (canon_commitment c)"
proof -
  let ?m = "\<lambda>u es. [entry ''actor_fp'' (Bytes (rc_actorFp c)), entry ''body_hash'' (Bytes (rc_bodyHash c)), entry ''epoch'' (u (rc_epoch c)),
       entry ''headers_hash'' (Bytes (rc_headersHash c)), entry ''nonce'' (Bytes (rc_nonce c)), entry ''request_hash'' (Bytes (rc_requestHash c)),
       entry ''status'' (u (rc_status c)), entry ''timestamp_ms'' (u (rc_timestampMs c))] @ es"
  have 1: "list_all2 same_entry (?m (\<lambda>n. Num (Integer n)) es) (?m uintValue es)" for es
    by (simp add: list_all2_append same_entry_refl same_entry_uint del: list.map)
  have 2: "mset [a, b, d, e, f, g] + mset es + mset [h, i] = mset ([e, f, b, g, a, h, d, i] @ es)" for a b d e f g h i :: "jsstr \<times> cbor_value" and es
    by simp
  show ?thesis
    using canonical_form [OF 1, of _ "case rc_originsHash c of None \<Rightarrow> [] | Some h \<Rightarrow> [entry ''origins_hash'' (Bytes h)]"] canon_commitment_ok [OF assms] 2
    unfolding encodeCommitment_def commitmentCborMap_def canon_commitment_def by (simp add: ac_simps del: list.map)
qed

section \<open>Reading a canonical form\<close>

lemma own_keys_plain: "js ''__proto__'' \<notin> fst ` set m \<Longrightarrow> own_keys m = map fst m"
  unfolding own_keys_def by (rule filter_True) force

lemma js_member_plain: "js ''__proto__'' \<notin> fst ` set m \<Longrightarrow> js_member (Obj m) k = map_of m k"
  by (simp add: own_keys_plain map_of_eq_None_iff image_iff del: list.map split: option.split)
    (metis fst_conv image_eqI map_of_SomeD not_None_eq)

lemma need_Some: "need k (Some a) f = f a"
  by (simp add: need_def)

lemmas member_defs = member_bytes_def member_sized_def member_nonce_def member_number_def member_timestamp_def member_text_def

lemma canon_members:
  "js_member (canon_commitment c) (js ''epoch'') = Some (uintValue (rc_epoch c))"
  "js_member (canon_commitment c) (js ''nonce'') = Some (Bytes (rc_nonce c))"
  "js_member (canon_commitment c) (js ''status'') = Some (uintValue (rc_status c))"
  "js_member (canon_commitment c) (js ''actor_fp'') = Some (Bytes (rc_actorFp c))"
  "js_member (canon_commitment c) (js ''body_hash'') = Some (Bytes (rc_bodyHash c))"
  "js_member (canon_commitment c) (js ''headers_hash'') = Some (Bytes (rc_headersHash c))"
  "js_member (canon_commitment c) (js ''origins_hash'') = map_option Bytes (rc_originsHash c)"
  "js_member (canon_commitment c) (js ''request_hash'') = Some (Bytes (rc_requestHash c))"
  "js_member (canon_commitment c) (js ''timestamp_ms'') = Some (uintValue (rc_timestampMs c))"
proof -
  have "js ''__proto__'' \<notin> fst ` set (case canon_commitment c of Obj m \<Rightarrow> m)"
    by (cases "rc_originsHash c") (simp_all add: canon_commitment_def)
  then have look: "js_member (canon_commitment c) k = map_of (case canon_commitment c of Obj m \<Rightarrow> m) k" for k
    using js_member_plain unfolding canon_commitment_def by (simp del: list.map)
  show "js_member (canon_commitment c) (js ''epoch'') = Some (uintValue (rc_epoch c))"
    "js_member (canon_commitment c) (js ''nonce'') = Some (Bytes (rc_nonce c))"
    "js_member (canon_commitment c) (js ''status'') = Some (uintValue (rc_status c))"
    "js_member (canon_commitment c) (js ''actor_fp'') = Some (Bytes (rc_actorFp c))"
    "js_member (canon_commitment c) (js ''body_hash'') = Some (Bytes (rc_bodyHash c))"
    "js_member (canon_commitment c) (js ''headers_hash'') = Some (Bytes (rc_headersHash c))"
    by (simp_all add: look) (simp_all add: canon_commitment_def)
  show "js_member (canon_commitment c) (js ''origins_hash'') = map_option Bytes (rc_originsHash c)"
    "js_member (canon_commitment c) (js ''request_hash'') = Some (Bytes (rc_requestHash c))"
    "js_member (canon_commitment c) (js ''timestamp_ms'') = Some (uintValue (rc_timestampMs c))"
    by (simp_all add: look) (simp_all add: canon_commitment_def split: option.split)
qed

lemma number_uintValue: "safe_uint n \<Longrightarrow> uintValue n = Num (Integer n)"
  by (simp add: safe_uint_def uintValue_def)

lemma timestamp_uintValue:
  "to_number n = n \<Longrightarrow> (case Some (uintValue n) of Some (Num (Integer k)) \<Rightarrow> Some k | Some (Big k) \<Rightarrow> Some (to_number k) | _ \<Rightarrow> None) = Some n"
  by (simp add: uintValue_def)

lemma canon_commitment_keys: "schema_keys (canon_commitment c) commitment_required [js ''origins_hash''] = None"
proof -
  have found: "find (\<lambda>r. js_member (canon_commitment c) r = None) commitment_required = None"
    unfolding commitment_required_def by (simp add: canon_members del: list.map)
  have "filter (\<lambda>k. k \<notin> set commitment_required \<and> k \<notin> set [js ''origins_hash'']) (own_keys (case canon_commitment c of Obj m \<Rightarrow> m)) = []"
    by (auto simp: filter_empty_conv canon_commitment_def commitment_required_def own_keys_def split: option.splits)
  then show ?thesis using found by (simp add: schema_keys_def canon_commitment_def Let_def del: list.map)
qed

lemma parse_canon_commitment:
  assumes "commitment_ok c"
  shows "parseCommitmentMap (canon_commitment c) = Inr c"
  using assms timestamp_uintValue [of "rc_timestampMs c"]
  by (cases "rc_originsHash c")
    (auto simp: parseCommitmentMap_def canon_commitment_keys commitment_ok_def member_defs canon_members number_uintValue need_Some simp del: list.map)

section \<open>Envelopes\<close>

lemma base64_names: "b64urlDecode = b64decode" "base64UrlDecode = b64decode" "b64urlEncode = b64encode"
  by (simp_all add: fun_eq_iff b64urlDecode_def base64UrlDecode_def b64decode_def b64urlEncode_def b64encode_def)

lemma receipt_envelope_opens:
  assumes "canonicalCbor v = canonicalCbor (Obj m)" "v \<noteq> Undefined" "cbor_ok (Obj m)" "length sig = 64"
  shows "\<exists>b. canonicalCbor (Obj [entry ''commitment'' v, entry ''signature'' (Bytes sig)]) = Inr b \<and>
    open_envelope b [js ''commitment'', js ''signature''] None = Inr (Obj m, sig)"
proof -
  let ?m = "[entry ''signature'' (Bytes sig), entry ''commitment'' (Obj m)]"
  have same: "list_all2 same_entry [entry ''commitment'' v, entry ''signature'' (Bytes sig)] [entry ''commitment'' (Obj m), entry ''signature'' (Bytes sig)]"
    using assms(1,2) by (simp add: same_entry_def canonicalCbor_def)
  have ok: "cbor_ok (Obj ?m)"
    by (rule cbor_ok_schema) (use assms(3,4) in \<open>simp_all add: key_less_def head_ok_32\<close>)
  have "mset ?m = mset [entry ''commitment'' (Obj m), entry ''signature'' (Bytes sig)]" by simp
  from canonical_form [OF same this ok] obtain b where b: "canonicalCbor (Obj [entry ''commitment'' v, entry ''signature'' (Bytes sig)]) = Inr b" "decodeCanonicalCbor b = Inr (Obj ?m)"
    by blast
  have "js_member (Obj ?m) k = map_of ?m k" for k by (rule js_member_plain) simp
  moreover have "sort (own_keys ?m) = [js ''commitment'', js ''signature'']" by (simp add: own_keys_def)
  ultimately show ?thesis using b assms(4) by (simp add: open_envelope_def)
qed

lemma stream_open_envelope_opens:
  assumes "canonicalCbor v = canonicalCbor (Obj m)" "v \<noteq> Undefined" "cbor_ok (Obj m)" "length sig = 64"
  shows "\<exists>b. canonicalCbor (Obj [entry ''commitment'' v, entry ''kind'' (Text (js ''stream-open'')), entry ''signature'' (Bytes sig)]) = Inr b \<and>
    open_envelope b [js ''commitment'', js ''kind'', js ''signature''] (Some (js ''stream-open'')) = Inr (Obj m, sig)"
proof -
  let ?m = "[entry ''kind'' (Text (js ''stream-open'')), entry ''signature'' (Bytes sig), entry ''commitment'' (Obj m)]"
  have same: "list_all2 same_entry [entry ''commitment'' v, entry ''kind'' (Text (js ''stream-open'')), entry ''signature'' (Bytes sig)]
      [entry ''commitment'' (Obj m), entry ''kind'' (Text (js ''stream-open'')), entry ''signature'' (Bytes sig)]"
    using assms(1,2) by (simp add: same_entry_def canonicalCbor_def)
  have "text_ok (js ''stream-open'')" by (rule schema_key) simp_all
  then have ok: "cbor_ok (Obj ?m)"
    by (intro cbor_ok_schema) (use assms(3,4) in \<open>simp_all add: key_less_def head_ok_32\<close>)
  have "mset ?m = mset [entry ''commitment'' (Obj m), entry ''kind'' (Text (js ''stream-open'')), entry ''signature'' (Bytes sig)]" by simp
  from canonical_form [OF same this ok] obtain b where b: "canonicalCbor (Obj [entry ''commitment'' v, entry ''kind'' (Text (js ''stream-open'')), entry ''signature'' (Bytes sig)]) = Inr b"
      "decodeCanonicalCbor b = Inr (Obj ?m)"
    by blast
  have "js_member (Obj ?m) k = map_of ?m k" for k by (rule js_member_plain) simp
  moreover have "sort (own_keys ?m) = [js ''commitment'', js ''kind'', js ''signature'']" by (simp add: own_keys_def)
  ultimately show ?thesis using b assms(4) by (simp add: open_envelope_def)
qed

lemma receipt_roundtrip:
  assumes "commitment_ok c" "length sig = 64"
  shows "\<exists>b. encodeReceiptEnvelope \<lparr>re_commitment = c, re_signature = sig\<rparr> = Inr b \<and>
    decodeReceiptBytes b = Inr \<lparr>re_commitment = c, re_signature = sig\<rparr>"
proof -
  obtain m where m: "canon_commitment c = Obj m" by (simp add: canon_commitment_def)
  have "canonicalCbor (commitmentCborMap c) = canonicalCbor (Obj m)" "commitmentCborMap c \<noteq> Undefined" "cbor_ok (Obj m)"
    using commitment_bytes [OF assms(1)] canon_commitment_ok [OF assms(1)] by (auto simp: m encodeCommitment_def commitmentCborMap_def simp del: list.map)
  then show ?thesis
    using receipt_envelope_opens [of "commitmentCborMap c" m sig] assms parse_canon_commitment [OF assms(1)]
    by (auto simp: m encodeReceiptEnvelope_def decodeReceiptBytes_def simp del: list.map)
qed

lemma header_of_bytes: "decodeReceiptHeader (b64urlEncode b) = decodeReceiptBytes b"
  by (simp add: decodeReceiptHeader_def base64_names b64_roundtrip)

section \<open>Stream commitments\<close>

definition canon_stream_open :: "StreamOpenCommitment \<Rightarrow> cbor_value" where
  "canon_stream_open c = Obj
     [entry ''epoch'' (uintValue (so_epoch c)), entry ''nonce'' (Bytes (so_nonce c)), entry ''status'' (uintValue (so_status c)),
      entry ''actor_fp'' (Bytes (so_actorFp c)), entry ''stream_id'' (Bytes (so_streamId c)), entry ''stream_mode'' (Text (mode_text (so_streamMode c))),
      entry ''request_hash'' (Bytes (so_requestHash c)), entry ''timestamp_ms'' (uintValue (so_timestampMs c))]"

definition stream_open_ok :: "StreamOpenCommitment \<Rightarrow> bool" where
  "stream_open_ok c \<longleftrightarrow> 16 \<le> length (so_nonce c) \<and> head_ok (int (length (so_nonce c))) \<and> length (so_requestHash c) = 32 \<and>
     length (so_streamId c) = 16 \<and> length (so_actorFp c) = 32 \<and> safe_uint (so_status c) \<and> safe_uint (so_epoch c) \<and>
     head_ok (so_timestampMs c) \<and> to_number (so_timestampMs c) = so_timestampMs c"

lemma schema_texts: "text_ok (mode_text m)" "text_ok (status_text s)"
  by (rule schema_key; cases m; simp add: mode_text_def) (rule schema_key; cases s; simp add: status_text_def)

lemma canon_stream_open_ok: "stream_open_ok c \<Longrightarrow> cbor_ok (canon_stream_open c)"
  unfolding canon_stream_open_def
  by (rule cbor_ok_schema) (auto simp: stream_open_ok_def cbor_ok_uintValue safe_uint_def key_less_def head_ok_32 schema_texts)

lemma stream_open_bytes:
  assumes "stream_open_ok c"
  shows "\<exists>b. encodeStreamOpenCommitment c = Inr b \<and> canonicalCbor (canon_stream_open c) = Inr b \<and> decodeCanonicalCbor b = Inr (canon_stream_open c)"
proof -
  let ?m = "\<lambda>u. [entry ''actor_fp'' (Bytes (so_actorFp c)), entry ''epoch'' (u (so_epoch c)), entry ''nonce'' (Bytes (so_nonce c)),
      entry ''request_hash'' (Bytes (so_requestHash c)), entry ''status'' (u (so_status c)), entry ''stream_id'' (Bytes (so_streamId c)),
      entry ''stream_mode'' (Text (mode_text (so_streamMode c))), entry ''timestamp_ms'' (u (so_timestampMs c))]"
  have 1: "list_all2 same_entry (?m (\<lambda>n. Num (Integer n))) (?m uintValue)"
    by (simp add: same_entry_refl same_entry_uint del: list.map)
  have 2: "mset [a, b, d, e, f, g, h, i] = mset [e, a, b, h, d, f, g, i]" for a b d e f g h i :: "jsstr \<times> cbor_value"
    by simp
  show ?thesis
    unfolding encodeStreamOpenCommitment_def streamOpenCborMap_def canon_stream_open_def
    by (rule canonical_form [OF 1 2]) (rule canon_stream_open_ok [OF assms, unfolded canon_stream_open_def])
qed

lemma canon_stream_open_members:
  "js_member (canon_stream_open c) (js ''epoch'') = Some (uintValue (so_epoch c))"
  "js_member (canon_stream_open c) (js ''nonce'') = Some (Bytes (so_nonce c))"
  "js_member (canon_stream_open c) (js ''status'') = Some (uintValue (so_status c))"
  "js_member (canon_stream_open c) (js ''actor_fp'') = Some (Bytes (so_actorFp c))"
  "js_member (canon_stream_open c) (js ''stream_id'') = Some (Bytes (so_streamId c))"
  "js_member (canon_stream_open c) (js ''stream_mode'') = Some (Text (mode_text (so_streamMode c)))"
  "js_member (canon_stream_open c) (js ''request_hash'') = Some (Bytes (so_requestHash c))"
  "js_member (canon_stream_open c) (js ''timestamp_ms'') = Some (uintValue (so_timestampMs c))"
  unfolding canon_stream_open_def by (subst js_member_plain, simp, simp)+

lemma canon_stream_open_keys: "schema_keys (canon_stream_open c) stream_open_required [] = None"
proof -
  have found: "find (\<lambda>r. js_member (canon_stream_open c) r = None) stream_open_required = None"
    unfolding stream_open_required_def by (simp add: canon_stream_open_members del: list.map)
  have "filter (\<lambda>k. k \<notin> set stream_open_required \<and> k \<notin> set []) (own_keys (case canon_stream_open c of Obj m \<Rightarrow> m)) = []"
    by (auto simp: filter_empty_conv canon_stream_open_def stream_open_required_def own_keys_def)
  then show ?thesis using found by (simp add: schema_keys_def canon_stream_open_def Let_def del: list.map)
qed

lemma mode_table: "map_of [(js ''sse'', Sse), (js ''ndjson'', Ndjson)] (mode_text m) = Some m"
  by (cases m) (simp_all add: mode_text_def)

lemma parse_canon_stream_open:
  assumes "stream_open_ok c"
  shows "parseStreamOpenMap (canon_stream_open c) = Inr c"
  using assms timestamp_uintValue [of "so_timestampMs c"]
  by (auto simp: parseStreamOpenMap_def canon_stream_open_keys stream_open_ok_def member_defs canon_stream_open_members number_uintValue need_Some mode_table
      simp del: list.map map_of.simps)

lemma stream_open_roundtrip:
  assumes "stream_open_ok c" "length sig = 64"
  shows "\<exists>b. encodeStreamOpenEnvelope \<lparr>soe_commitment = c, soe_signature = sig\<rparr> = Inr b \<and>
    decodeStreamOpenEnvelopeBytes b = Inr \<lparr>soe_commitment = c, soe_signature = sig\<rparr>"
proof -
  obtain m where m: "canon_stream_open c = Obj m" by (simp add: canon_stream_open_def)
  have "canonicalCbor (streamOpenCborMap c) = canonicalCbor (Obj m)" "streamOpenCborMap c \<noteq> Undefined" "cbor_ok (Obj m)"
    using stream_open_bytes [OF assms(1)] canon_stream_open_ok [OF assms(1)] by (auto simp: m encodeStreamOpenCommitment_def streamOpenCborMap_def simp del: list.map)
  then show ?thesis
    using stream_open_envelope_opens [of "streamOpenCborMap c" m sig] assms parse_canon_stream_open [OF assms(1)]
    by (auto simp: m encodeStreamOpenEnvelope_def decodeStreamOpenEnvelopeBytes_def simp del: list.map)
qed

definition canon_stream_close :: "StreamCloseCommitment \<Rightarrow> cbor_value" where
  "canon_stream_close c = Obj
     [entry ''tip_hash'' (Bytes (sc_tipHash c)), entry ''stream_id'' (Bytes (sc_streamId c)), entry ''event_count'' (uintValue (sc_eventCount c)),
      entry ''close_status'' (Text (status_text (sc_closeStatus c))), entry ''timestamp_ms'' (uintValue (sc_timestampMs c)),
      entry ''open_commitment_hash'' (Bytes (sc_openCommitmentHash c))]"

definition stream_close_ok :: "StreamCloseCommitment \<Rightarrow> bool" where
  "stream_close_ok c \<longleftrightarrow> length (sc_tipHash c) = 32 \<and> length (sc_streamId c) = 16 \<and> length (sc_openCommitmentHash c) = 32 \<and>
     safe_uint (sc_eventCount c) \<and> head_ok (sc_timestampMs c) \<and> to_number (sc_timestampMs c) = sc_timestampMs c"

lemma canon_stream_close_ok: "stream_close_ok c \<Longrightarrow> cbor_ok (canon_stream_close c)"
  unfolding canon_stream_close_def
  by (rule cbor_ok_schema) (auto simp: stream_close_ok_def cbor_ok_uintValue safe_uint_def key_less_def head_ok_32 schema_texts)

lemma stream_close_bytes:
  assumes "stream_close_ok c"
  shows "\<exists>b. encodeStreamCloseCommitment c = Inr b \<and> canonicalCbor (canon_stream_close c) = Inr b \<and> decodeCanonicalCbor b = Inr (canon_stream_close c)"
proof -
  let ?m = "\<lambda>u. [entry ''close_status'' (Text (status_text (sc_closeStatus c))), entry ''event_count'' (u (sc_eventCount c)),
      entry ''open_commitment_hash'' (Bytes (sc_openCommitmentHash c)), entry ''stream_id'' (Bytes (sc_streamId c)),
      entry ''timestamp_ms'' (u (sc_timestampMs c)), entry ''tip_hash'' (Bytes (sc_tipHash c))]"
  have 1: "list_all2 same_entry (?m (\<lambda>n. Num (Integer n))) (?m uintValue)"
    by (simp add: same_entry_refl same_entry_uint del: list.map)
  have 2: "mset [a, b, d, e, f, g] = mset [e, d, g, b, f, a]" for a b d e f g :: "jsstr \<times> cbor_value"
    by simp
  show ?thesis
    unfolding encodeStreamCloseCommitment_def streamCloseCborMap_def canon_stream_close_def
    by (rule canonical_form [OF 1 2]) (rule canon_stream_close_ok [OF assms, unfolded canon_stream_close_def])
qed

lemma canon_stream_close_members:
  "js_member (canon_stream_close c) (js ''tip_hash'') = Some (Bytes (sc_tipHash c))"
  "js_member (canon_stream_close c) (js ''stream_id'') = Some (Bytes (sc_streamId c))"
  "js_member (canon_stream_close c) (js ''event_count'') = Some (uintValue (sc_eventCount c))"
  "js_member (canon_stream_close c) (js ''close_status'') = Some (Text (status_text (sc_closeStatus c)))"
  "js_member (canon_stream_close c) (js ''timestamp_ms'') = Some (uintValue (sc_timestampMs c))"
  "js_member (canon_stream_close c) (js ''open_commitment_hash'') = Some (Bytes (sc_openCommitmentHash c))"
  unfolding canon_stream_close_def by (subst js_member_plain, simp, simp)+

lemma canon_stream_close_keys: "schema_keys (canon_stream_close c) stream_close_required [] = None"
proof -
  have found: "find (\<lambda>r. js_member (canon_stream_close c) r = None) stream_close_required = None"
    unfolding stream_close_required_def by (simp add: canon_stream_close_members del: list.map)
  have "filter (\<lambda>k. k \<notin> set stream_close_required \<and> k \<notin> set []) (own_keys (case canon_stream_close c of Obj m \<Rightarrow> m)) = []"
    by (auto simp: filter_empty_conv canon_stream_close_def stream_close_required_def own_keys_def)
  then show ?thesis using found by (simp add: schema_keys_def canon_stream_close_def Let_def del: list.map)
qed

lemma status_table:
  "map_of [(js ''ok'', Close_ok), (js ''client-disconnect'', Client_disconnect), (js ''server-shutdown'', Server_shutdown)] (status_text s) = Some s"
  by (cases s) (simp_all add: status_text_def)

lemma parse_canon_stream_close:
  assumes "stream_close_ok c"
  shows "parseStreamCloseMap (canon_stream_close c) = Inr c"
  using assms timestamp_uintValue [of "sc_timestampMs c"]
  by (auto simp: parseStreamCloseMap_def canon_stream_close_keys stream_close_ok_def member_defs canon_stream_close_members number_uintValue need_Some status_table
      simp del: list.map map_of.simps)

lemma stream_close_roundtrip:
  assumes "stream_close_ok c" "length sig = 64"
  shows "\<exists>b. encodeStreamCloseEnvelope \<lparr>sce_commitment = c, sce_signature = sig\<rparr> = Inr b \<and>
    decodeStreamCloseEnvelopeBytes b = Inr \<lparr>sce_commitment = c, sce_signature = sig\<rparr>"
proof -
  obtain m where m: "canon_stream_close c = Obj m" by (simp add: canon_stream_close_def)
  have "canonicalCbor (streamCloseCborMap c) = canonicalCbor (Obj m)" "streamCloseCborMap c \<noteq> Undefined" "cbor_ok (Obj m)"
    using stream_close_bytes [OF assms(1)] canon_stream_close_ok [OF assms(1)] by (auto simp: m encodeStreamCloseCommitment_def streamCloseCborMap_def simp del: list.map)
  then show ?thesis
    using receipt_envelope_opens [of "streamCloseCborMap c" m sig] assms parse_canon_stream_close [OF assms(1)]
    by (auto simp: m encodeStreamCloseEnvelope_def decodeStreamCloseEnvelopeBytes_def simp del: list.map)
qed

section \<open>What the decoder accepts\<close>

lemma excess_bits_eq:
  "0 \<le> n \<Longrightarrow> n div 2 ^ e < 2 ^ 53 \<Longrightarrow> e = 0 \<or> 2 ^ 53 \<le> n div 2 ^ (e - 1) \<Longrightarrow> e \<le> f \<Longrightarrow> excess_bits f n = e"
proof (induction f arbitrary: n e)
  case (Suc f)
  show ?case
  proof (cases e)
    case e: (Suc d)
    have "n div 2 div 2 ^ d < 2 ^ 53" using Suc.prems(2) e by (simp add: zdiv_zmult2_eq)
    moreover have "d = 0 \<or> 2 ^ 53 \<le> n div 2 div 2 ^ (d - 1)"
      using Suc.prems(3) e by (cases d) (simp_all add: zdiv_zmult2_eq)
    moreover have "n div 2 ^ d \<le> n" using zdiv_mono2 [of n 1 "2 ^ d"] Suc.prems(1) by simp
    then have "\<not> n < 2 ^ 53" using Suc.prems(3) e by simp
    ultimately show ?thesis using Suc.IH [of "n div 2" d] Suc.prems(1,4) e by simp
  qed (use Suc.prems in simp)
qed simp

lemma excess_bits_spec:
  "0 \<le> n \<Longrightarrow> n < 2 ^ (53 + f) \<Longrightarrow> n div 2 ^ excess_bits f n < 2 ^ 53 \<and> (excess_bits f n = 0 \<or> 2 ^ 53 \<le> n div 2 ^ (excess_bits f n - 1))"
proof (induction f arbitrary: n)
  case (Suc f)
  have "n div 2 < 2 ^ (53 + f)" using Suc.prems by (simp add: div_less_iff_less_mult power_add)
  then have IH: "n div 2 div 2 ^ excess_bits f (n div 2) < 2 ^ 53 \<and> (excess_bits f (n div 2) = 0 \<or> 2 ^ 53 \<le> n div 2 div 2 ^ (excess_bits f (n div 2) - 1))"
    using Suc.IH [of "n div 2"] Suc.prems(1) by simp
  then show ?case
    using zdiv_zmult2_eq [of 2 n 2] by (cases "excess_bits f (n div 2)") (auto simp: zdiv_zmult2_eq)
qed simp

lemma to_number_fixed:
  assumes "0 \<le> q" "q < 2 ^ 53" "2 ^ 52 \<le> q" "e \<le> 12"
  shows "to_number (q * 2 ^ e) = q * 2 ^ e"
proof -
  have "e = 0 \<or> (q * 2 ^ e) div 2 ^ (e - 1) = 2 * q"
    using nonzero_mult_div_cancel_right [of "2 ^ (e - 1)" "2 * q"] by (cases e) (simp_all add: ac_simps)
  then have "e = 0 \<or> 2 ^ 53 \<le> (q * 2 ^ e) div 2 ^ (e - 1)" using assms(3) by auto
  then have "excess_bits 12 (q * 2 ^ e) = e"
    using assms by (intro excess_bits_eq) simp_all
  then show ?thesis by (simp add: to_number_def)
qed

lemma to_number_rounded:
  assumes "2 ^ 53 \<le> n" "n < 2 ^ 64"
  shows "to_number (to_number n) = to_number n" "2 ^ 53 \<le> to_number n"
proof -
  define e where "e = excess_bits 12 n"
  have pos: "e \<noteq> 0" using assms(1) by (simp add: e_def eval_nat_numeral)
  have spec: "n div 2 ^ e < 2 ^ 53" "2 ^ 53 \<le> n div 2 ^ (e - 1)"
    using excess_bits_spec [of n 12] assms pos by (auto simp: e_def)
  define q where "q = n div 2 ^ e"
  have half: "q = n div 2 ^ (e - 1) div 2" using pos by (cases e) (simp_all add: q_def zdiv_zmult2_eq [symmetric] mult.commute)
  have q: "2 ^ 52 \<le> q" "q < 2 ^ 53" using spec half by (auto simp: q_def)
  have "2 ^ 52 * 2 ^ e \<le> q * 2 ^ e" using q(1) by (rule mult_right_mono) simp
  also have "q * 2 ^ e = n - n mod 2 ^ e" using minus_mod_eq_mult_div [of n "2 ^ e"] by (simp add: q_def mult.commute)
  also have "\<dots> \<le> n" by simp
  finally have "(2::int) ^ (52 + e) < 2 ^ 64" using assms(2) by (simp add: power_add)
  then have e: "e \<le> 11" using power_strict_increasing_iff [of "2::int" "52 + e" 64] by simp
  obtain q' where q': "to_number n = q' * 2 ^ e" "q' = q \<or> q' = q + 1"
  proof (cases "2 * (n mod 2 ^ e) < 2 ^ e \<or> 2 * (n mod 2 ^ e) = 2 ^ e \<and> even q")
    case True
    then show thesis using that [of q] pos unfolding to_number_def e_def [symmetric] Let_def q_def by simp
  next
    case False
    then show thesis using that [of "q + 1"] pos unfolding to_number_def e_def [symmetric] Let_def q_def by simp
  qed
  have double: "to_number n = 2 ^ 52 * 2 ^ Suc e" if "q' = 2 ^ 53" using that q' by simp
  show "to_number (to_number n) = to_number n"
  proof (cases "q' < 2 ^ 53")
    case True
    then show ?thesis unfolding q'(1) using q' q e by (intro to_number_fixed) auto
  next
    case False
    then have "q' = 2 ^ 53" using q' q by auto
    then show ?thesis unfolding double [OF \<open>q' = 2 ^ 53\<close>] using e by (intro to_number_fixed) auto
  qed
  have "2 ^ 52 * 2 \<le> q' * 2 ^ e"
  proof (rule mult_mono)
    show "(2::int) \<le> 2 ^ e" using pos power_increasing [of 1 e "2::int"] by simp
  qed (use q q' in auto)
  then show "2 ^ 53 \<le> to_number n" using q'(1) by simp
qed

lemma readArgument_head_ok:
  assumes "readArgument i c = Inr (n, r)"
  shows "head_ok n"
proof -
  let ?m = "js_shr (uint i) 5"
  obtain h where h: "c = h @ r" "writeHead ?m n = Inr (i # h)" using readArgument_canonical [OF assms] by blast
  have range: "0 \<le> n" "n < 2 ^ 64" using h(2) by (auto simp: writeHead_def Let_def split: if_splits)
  have bound: "0 \<le> uint i" "uint i < 256" using byte_uint_bounds [of i] by auto
  have "- (2 ^ 31) \<le> uint i" by (rule order_trans [OF _ bound(1)]) simp
  from js_shr_int [OF this, of 5] have major: "0 \<le> ?m" "?m < 8" using bound by (simp_all add: pos_imp_zdiv_nonneg_iff)
  have "\<not> (2 ^ 31 \<le> n \<and> n < 2 ^ 32)"
  proof
    assume "2 ^ 31 \<le> n \<and> n < 2 ^ 32"
    then obtain j t where "writeHead ?m n = Inr (j # t)" "\<forall>r. readArgument j (t @ r) = Inl NonCanonical4"
      using writeHead_high_bit [of ?m n] major by blast
    then show False using h assms by simp
  qed
  then show ?thesis using range by (simp add: head_ok_def)
qed

text \<open>Values the decoder makes.\<close>

fun decodable :: "cbor_value \<Rightarrow> bool" where
  "decodable (Num (Integer n)) = safe_uint n"
| "decodable (Num NonFinite) = False"
| "decodable (Num NonInteger) = False"
| "decodable (Big n) = (head_ok n \<and> 2 ^ 53 \<le> n)"
| "decodable (Bytes b) = head_ok (int (length b))"
| "decodable (Text s) = True"
| "decodable (Arr vs) = (\<forall>v \<in> set vs. decodable v)"
| "decodable (Obj m) = (\<forall>e \<in> set m. decodable (snd e))"
| "decodable Null = False"
| "decodable Undefined = False"

lemma set_set_prop: "set (set_prop m k v) \<subseteq> insert (k, v) (set m)"
  by (induction m) (auto split: if_splits)

lemma assign_decodable: "\<forall>e \<in> set m. decodable (snd e) \<Longrightarrow> decodable v \<Longrightarrow> \<forall>e \<in> set (assign m k v). decodable (snd e)"
  using set_set_prop [of m k v] by (auto simp: assign_def)

lemma readBytes_InrD: "readBytes c n = Inr (b, r) \<Longrightarrow> 0 \<le> n \<Longrightarrow> int (length b) = n"
  by (auto simp: readBytes_def split: if_splits)

lemma decode_decodable:
  "decodeValue c = Inr (v, r) \<Longrightarrow> decodable v"
  "decodeItems n c = Inr (vs, r) \<Longrightarrow> \<forall>v \<in> set vs. decodable v"
  "decodeEntries n p out c = Inr (m, r) \<Longrightarrow> \<forall>e \<in> set out. decodable (snd e) \<Longrightarrow> \<forall>e \<in> set m. decodable (snd e)"
proof (induction c and n c and n p out c arbitrary: v r and vs r and m r rule: decodeValue_decodeItems_decodeEntries.induct)
  case (2 initial c)
  have bytes: "head_ok (int (length b))" if "readArgument initial c = Inr (len, r1)" "readBytes r1 len = Inr (b, r2)" for len r1 b r2
    using readArgument_head_ok [OF that(1)] readBytes_InrD [OF that(2)] by (simp add: head_ok_def)
  have uint: "decodable (uintValue n)" if "readArgument initial c = Inr (n, r1)" for n r1
    using readArgument_head_ok [OF that] by (simp add: uintValue_def safe_uint_def)
  show ?case using 2
    by (auto simp: decodeValue.simps(2) Let_def bytes uint split: if_splits sum.splits)
next
  case (3 n c)
  from "3.prems" show ?case
  proof (cases rule: decodeItems_InrE)
    case (item v r1 vs')
    then show ?thesis using "3.IH"(1) [of v r1] "3.IH"(2) [of "(v, r1)" v r1 vs' r] by auto
  qed simp
next
  case (4 n p out c)
  from "4.prems"(1) show ?case
  proof (cases rule: decodeEntries_InrE)
    case (entry k r1 v r2)
    note IH = "4.IH"(2) [of "(Text k, r1)" "Text k" r1 k "take (length c - length r1) c"]
      "4.IH"(3) [of "(Text k, r1)" "Text k" r1 k "take (length c - length r1) c" "(v, r2)" v r2 m r]
    have "decodable v" using IH(1) entry by (cases p) auto
    then show ?thesis using IH(2) entry assign_decodable [OF "4.prems"(2)] by (cases p) auto
  qed (use "4.prems"(2) in simp)
qed simp

lemma member_decodable: "decodable v \<Longrightarrow> js_member v k = Some x \<Longrightarrow> decodable x"
proof (induction v k rule: js_member.induct)
  case (1 m k)
  then show ?case by (auto split: if_splits option.splits dest!: map_of_SomeD simp del: list.map)
qed auto

lemma need_InrE:
  assumes "need k x f = Inr y"
  obtains a where "x = Some a" "f a = Inr y"
  using assms by (auto simp: need_def split: option.splits)

lemma member_sized_length: "member_sized m k n = Some b \<Longrightarrow> length b = n"
  by (auto simp: member_sized_def split: option.splits if_splits)

lemma member_nonce_facts:
  assumes "decodable m" "member_nonce m = Some b"
  shows "16 \<le> length b \<and> head_ok (int (length b))"
proof -
  have "js_member m (js ''nonce'') = Some (Bytes b)" "16 \<le> length b"
    using assms(2) by (auto simp: member_nonce_def member_bytes_def simp del: list.map split: option.splits if_splits cbor_value.splits)
  then show ?thesis using member_decodable [OF assms(1)] by fastforce
qed

lemma member_number_safe:
  assumes "decodable m" "member_number m k = Some i"
  shows "safe_uint i"
proof -
  have "js_member m k = Some (Num (Integer i))"
    using assms(2) by (auto simp: member_number_def split: option.splits cbor_value.splits js_number.splits)
  then show ?thesis using member_decodable [OF assms(1)] by fastforce
qed

lemma to_number_small: "n < 2 ^ 53 \<Longrightarrow> to_number n = n"
  by (simp add: to_number_def eval_nat_numeral)

lemma member_timestamp_facts:
  assumes "decodable m" "member_timestamp m = Some t" "t < 2 ^ 64"
  shows "head_ok t" "to_number t = t"
proof -
  consider "js_member m (js ''timestamp_ms'') = Some (Num (Integer t))" | n where "js_member m (js ''timestamp_ms'') = Some (Big n)" "t = to_number n"
    using assms(2) by (auto simp: member_timestamp_def simp del: list.map split: option.splits cbor_value.splits js_number.splits)
  then have "head_ok t \<and> to_number t = t"
  proof cases
    case 1
    then show ?thesis using member_decodable [OF assms(1)] by (fastforce simp: safe_uint_def to_number_small)
  next
    case 2
    then have "head_ok n" "2 ^ 53 \<le> n" using member_decodable [OF assms(1)] by fastforce+
    then show ?thesis using 2 assms(3) to_number_rounded [of n] by (auto simp: head_ok_def)
  qed
  then show "head_ok t" "to_number t = t" by auto
qed

lemma origins_facts:
  "(case js_member m k of None \<Rightarrow> Some None | Some v \<Rightarrow> map_option Some (member_sized m k n)) = Some x \<Longrightarrow> x = Some h \<Longrightarrow> length h = n"
  by (auto split: option.splits dest: member_sized_length)

lemma parse_commitment_ok:
  assumes "parseCommitmentMap m = Inr c" "decodable m" "rc_timestampMs c < 2 ^ 64"
  shows "commitment_ok c"
proof -
  from assms(1) have *: "schema_keys m commitment_required [js ''origins_hash''] = None"
    by (auto simp: parseCommitmentMap_def simp del: list.map split: option.splits)
  show ?thesis
    using assms(1) unfolding parseCommitmentMap_def *
    apply (simp del: list.map)
    apply (elim need_InrE)
    using assms(3) member_sized_length member_nonce_facts [OF assms(2)] member_number_safe [OF assms(2)] member_timestamp_facts [OF assms(2)] origins_facts
    by (auto simp: commitment_ok_def simp del: list.map)
qed

lemma parse_stream_open_ok:
  assumes "parseStreamOpenMap m = Inr c" "decodable m" "so_timestampMs c < 2 ^ 64"
  shows "stream_open_ok c"
proof -
  from assms(1) have *: "schema_keys m stream_open_required [] = None"
    by (auto simp: parseStreamOpenMap_def simp del: list.map split: option.splits)
  show ?thesis
    using assms(1) unfolding parseStreamOpenMap_def *
    apply (simp del: list.map)
    apply (elim need_InrE)
    using assms(3) member_sized_length member_nonce_facts [OF assms(2)] member_number_safe [OF assms(2)] member_timestamp_facts [OF assms(2)]
    by (auto simp: stream_open_ok_def simp del: list.map)
qed

lemma parse_stream_close_ok:
  assumes "parseStreamCloseMap m = Inr c" "decodable m" "sc_timestampMs c < 2 ^ 64"
  shows "stream_close_ok c"
proof -
  from assms(1) have *: "schema_keys m stream_close_required [] = None"
    by (auto simp: parseStreamCloseMap_def simp del: list.map split: option.splits)
  show ?thesis
    using assms(1) unfolding parseStreamCloseMap_def *
    apply (simp del: list.map)
    apply (elim need_InrE)
    using assms(3) member_sized_length member_nonce_facts [OF assms(2)] member_number_safe [OF assms(2)] member_timestamp_facts [OF assms(2)]
    by (auto simp: stream_close_ok_def simp del: list.map)
qed

lemma open_envelope_decodable:
  assumes "open_envelope b keys kind = Inr (m, sig)"
  shows "decodable m \<and> length sig = 64"
proof -
  obtain outer where outer: "decodeCanonicalCbor b = Inr outer" "js_member outer (js ''commitment'') = Some m" "length sig = 64"
    using assms by (auto simp: open_envelope_def simp del: list.map split: sum.splits cbor_value.splits if_splits option.splits)
  then have "decodable outer"
    using decode_decodable(1) [of b outer] by (auto simp: decodeCanonicalCbor_def split: sum.splits if_splits)
  then show ?thesis using outer member_decodable by blast
qed

text \<open>A canonical encoding exists only when every number fits.\<close>

lemma encoded_entry:
  assumes "canonicalCbor (Obj m) = Inr b" "(k, Num (Integer n)) \<in> set m" "k \<noteq> js ''__proto__''"
  shows "0 \<le> n \<and> n < 2 ^ 64"
proof -
  obtain es where "encodeEntries m = Inr es" using assms(1) by (auto simp: canonicalCbor_def split: sum.splits)
  then obtain v where "encodeValue (Num (Integer n)) = Inr v"
    using assms(2,3) unfolding encodeEntries_mset encoded_def by fastforce
  then show ?thesis by (auto simp: encodeNumber_def encodeUint_def writeHead_def Let_def split: if_splits)
qed

lemma encoded_timestamps:
  "encodeCommitment c = Inr b \<Longrightarrow> rc_timestampMs c < 2 ^ 64"
  "encodeStreamOpenCommitment so = Inr b \<Longrightarrow> so_timestampMs so < 2 ^ 64"
  "encodeStreamCloseCommitment sc = Inr b \<Longrightarrow> sc_timestampMs sc < 2 ^ 64"
  using encoded_entry [of _ b "js ''timestamp_ms''" "rc_timestampMs c"] encoded_entry [of _ b "js ''timestamp_ms''" "so_timestampMs so"]
    encoded_entry [of _ b "js ''timestamp_ms''" "sc_timestampMs sc"]
  by (simp_all add: encodeCommitment_def encodeStreamOpenCommitment_def encodeStreamCloseCommitment_def
      commitmentCborMap_def streamOpenCborMap_def streamCloseCborMap_def) 

section \<open>Bytes of a map determine it up to order\<close>

lemma key_bytes_inject: "text_ok k \<Longrightarrow> text_ok k' \<Longrightarrow> key_bytes k = key_bytes k' \<longleftrightarrow> k = k'"
  by (metis Inr_inject Pair_inject append_Nil2 cbor_value.inject(4) decode_text(2))

definition map_ok :: "(jsstr \<times> cbor_value) list \<Rightarrow> bool" where
  "map_ok m \<longleftrightarrow> distinct (map fst m) \<and> head_ok (int (length m)) \<and> (\<forall>e \<in> set m. text_ok (fst e) \<and> fst e \<noteq> js ''__proto__'' \<and> cbor_ok (snd e))"

lemma sorted_map_ok:
  assumes "map_ok m"
  shows "cbor_ok (Obj (sort_key (key_bytes \<circ> fst) m))"
proof -
  let ?s = "sort_key (key_bytes \<circ> fst) m"
  have "inj_on (key_bytes \<circ> fst) (set m)"
    using assms by (auto simp: map_ok_def inj_on_def key_bytes_inject distinct_map)
  then have "distinct (map (key_bytes \<circ> fst) ?s)"
    using assms by (simp add: distinct_map map_ok_def)
  then have "sorted_wrt (<) (map (key_bytes \<circ> fst) ?s)"
    by (simp add: strict_sorted_iff)
  then show ?thesis using assms by (simp add: sorted_wrt_map compareBytes_iff map_ok_def)
qed

lemma cbor_map_bytes:
  assumes "map_ok m"
  shows "\<exists>b. canonicalCbor (Obj m) = Inr b \<and> decodeCanonicalCbor b = Inr (Obj (sort_key (key_bytes \<circ> fst) m))"
  using canonical_form [OF same_entry_refl(1), of "sort_key (key_bytes \<circ> fst) m" m] sorted_map_ok [OF assms] by auto

lemma cbor_map_determined:
  assumes "map_ok m" "map_ok m'" "canonicalCbor (Obj m) = canonicalCbor (Obj m')"
  shows "map_of m = map_of m'"
proof -
  have "sort_key (key_bytes \<circ> fst) m = sort_key (key_bytes \<circ> fst) m'"
    using cbor_map_bytes [OF assms(1)] cbor_map_bytes [OF assms(2)] assms(3) by auto
  then have "set m = set m'" by (metis set_sort)
  then show ?thesis using assms(1,2) by (intro map_of_eqI) (auto simp: map_ok_def image_def map_of_is_SomeI)
qed

text \<open>The committed header values determine each other.\<close>

lemma allowlist_keys: "\<forall>n \<in> set HEADER_ALLOWLIST. text_ok n \<and> n \<noteq> js ''__proto__''" "distinct HEADER_ALLOWLIST" "length HEADER_ALLOWLIST = 18"
proof -
  have "\<forall>n \<in> set HEADER_ALLOWLIST. ascii n \<and> length n < 256 \<and> n \<noteq> js ''__proto__'' \<and> n \<noteq> []"
    by (simp add: HEADER_ALLOWLIST_def)
  moreover have "text_ok n" if "ascii n" "length n < 256" "n \<noteq> []" for n
    using that by (cases n) (auto simp: text_ok_def plain_text_def ascii_well_formed utf8_encode_ascii head_ok_def)
  ultimately show "\<forall>n \<in> set HEADER_ALLOWLIST. text_ok n \<and> n \<noteq> js ''__proto__''" by blast
  show "distinct HEADER_ALLOWLIST" "length HEADER_ALLOWLIST = 18" by (simp_all add: HEADER_ALLOWLIST_def)
qed

definition headers_short :: "headers \<Rightarrow> bool" where
  "headers_short hs = (\<forall>e \<in> set hs. length (utf8_encode (snd e)) < 2 ^ 31)"

lemma map_filter_Cons: "List.map_filter f (x # xs) = (case f x of None \<Rightarrow> List.map_filter f xs | Some y \<Rightarrow> y # List.map_filter f xs)"
  by (simp add: List.map_filter_def split: option.split)

lemma map_filter_alist:
  "map fst (List.map_filter (\<lambda>n. map_option (\<lambda>v. (n, f v)) (g n)) ns) = filter (\<lambda>n. g n \<noteq> None) ns"
  "map_of (List.map_filter (\<lambda>n. map_option (\<lambda>v. (n, f v)) (g n)) ns) k = (if k \<in> set ns then map_option f (g k) else None)"
  "e \<in> set (List.map_filter (\<lambda>n. map_option (\<lambda>v. (n, f v)) (g n)) ns) \<Longrightarrow> \<exists>n \<in> set ns. \<exists>v. g n = Some v \<and> e = (n, f v)"
proof (induction ns)
  case Nil
  { case 1 show ?case by (simp add: List.map_filter_def) }
  { case 2 show ?case by (simp add: List.map_filter_def) }
  { case 3 then show ?case by (simp add: List.map_filter_def) }
next
  case (Cons n ns)
  { case 1 show ?case using Cons.IH(1) by (cases "g n") (simp_all add: map_filter_Cons) }
  { case 2 show ?case using Cons.IH(2) by (cases "g n") (simp_all add: map_filter_Cons) }
  { case 3 then show ?case using Cons.IH(3) by (cases "g n") (auto simp: map_filter_Cons) }
qed

lemma committed_headers_ok:
  assumes "headers_short hs"
  shows "map_ok (committed_headers hs)"
proof -
  have keys: "map fst (committed_headers hs) = filter (\<lambda>n. map_of hs n \<noteq> None) HEADER_ALLOWLIST"
    unfolding committed_headers_def by (rule map_filter_alist)
  have len: "length (committed_headers hs) \<le> 18"
    using arg_cong [OF keys, of length] allowlist_keys(3) length_filter_le [of "\<lambda>n. map_of hs n \<noteq> None" HEADER_ALLOWLIST] by simp
  have "text_ok k \<and> k \<noteq> js ''__proto__'' \<and> cbor_ok v" if "(k, v) \<in> set (committed_headers hs)" for k v
  proof -
    from map_filter_alist(3) [OF that [unfolded committed_headers_def]] obtain w
      where w: "k \<in> set HEADER_ALLOWLIST" "map_of hs k = Some w" "v = Bytes (utf8_encode w)" by auto
    then have "length (utf8_encode w) < 2 ^ 31" using assms map_of_SomeD [OF w(2)] unfolding headers_short_def by fastforce
    then have "head_ok (int (length (utf8_encode w)))" by (simp add: head_ok_def)
    then show ?thesis using allowlist_keys(1) w(1,3) by simp
  qed
  moreover have "distinct (map fst (committed_headers hs))" unfolding keys using allowlist_keys(2) by (rule distinct_filter)
  moreover have "head_ok (int (length (committed_headers hs)))" using len by (simp add: head_ok_def)
  ultimately show ?thesis unfolding map_ok_def by (metis prod.collapse)
qed

lemma committed_headers_determined:
  assumes "headers_short hs" "headers_short hs'" "buildHeadersCommittedBytes hs = buildHeadersCommittedBytes hs'" "n \<in> set HEADER_ALLOWLIST"
  shows "map_option utf8_encode (map_of hs n) = map_option utf8_encode (map_of hs' n)"
proof -
  have "map_of (committed_headers hs) n = map_of (committed_headers hs') n"
    using cbor_map_determined [OF committed_headers_ok [OF assms(1)] committed_headers_ok [OF assms(2)] assms(3) [unfolded buildHeadersCommittedBytes_def]] by simp
  then have "map_option (\<lambda>v. Bytes (utf8_encode v)) (map_of hs n) = map_option (\<lambda>v. Bytes (utf8_encode v)) (map_of hs' n)"
    using assms(4) by (simp add: committed_headers_def map_filter_alist)
  then show ?thesis by (cases "map_of hs n"; cases "map_of hs' n") auto
qed

lemma headers_bytes: "headers_short hs \<Longrightarrow> \<exists>b. buildHeadersCommittedBytes hs = Inr b"
  using cbor_map_bytes [OF committed_headers_ok] by (auto simp: buildHeadersCommittedBytes_def)

end
