(* ===== verification/Receipts_Verify.thy ===== *)
theory Receipts_Verify
  imports Receipts_Codec
begin

text \<open>
  What the receipt verifiers guarantee: acceptance is exactly the documented list of checks, an accepted receipt binds the
  request, the response body and the committed headers, a live verification is the later audit and a check of freshness, and the
  close of a stream binds every event that was sent. Bindings hold as far as SHA-256 does not collide on the strings hashed.
\<close>

section \<open>Acceptance\<close>

lemma decoded_receipt:
  assumes "decodeReceiptBytes bs = Inr env" "encodeCommitment (re_commitment env) = Inr canon"
  shows "commitment_ok (re_commitment env)" "length (re_signature env) = 64"
proof -
  obtain m sig where open_env: "open_envelope bs [js ''commitment'', js ''signature''] None = Inr (m, sig)"
    and parse: "parseCommitmentMap m = Inr (re_commitment env)" and "re_signature env = sig"
    using assms(1) by (auto simp: decodeReceiptBytes_def simp del: list.map split: sum.splits)
  then show "commitment_ok (re_commitment env)" "length (re_signature env) = 64"
    using parse_commitment_ok [OF parse] open_envelope_decodable [OF open_env] encoded_timestamps(1) [OF assms(2)] by auto
qed

lemma encoding_Accepted: "encoding x f = Accepted y \<longleftrightarrow> (\<exists>b. x = Inr b \<and> f b = Accepted y)"
  by (auto simp: encoding_def split: sum.split)

lemma guard_Accepted:
  "(if p then Refused r else v) = Accepted y \<longleftrightarrow> \<not> p \<and> v = Accepted y"
  by simp

lemma option_Accepted: "(case x of None \<Rightarrow> Refused r | Some a \<Rightarrow> f a) = Accepted y \<longleftrightarrow> (\<exists>a. x = Some a \<and> f a = Accepted y)"
  by (cases x) simp_all

lemma verifyEd25519_True: "verifyEd25519 ed pub sig canon \<longleftrightarrow> length pub = 32 \<and> length sig = 64 \<and> ed pub sig canon = Some True"
  by (auto simp: verifyEd25519_def split: option.split)

text \<open>The checks of a live verification, all of them.\<close>

definition live_checks :: "(bytes \<Rightarrow> bytes) \<Rightarrow> (bytes \<Rightarrow> bytes \<Rightarrow> bytes \<Rightarrow> bool option) \<Rightarrow> PLiveVerifyArgs \<Rightarrow> ReceiptEnvelope \<Rightarrow> bool" where
  "live_checks sha ed args env \<longleftrightarrow> (let c = re_commitment env in
     rc_nonce c = pl_expectedNonce args \<and> rc_requestHash c = sha (pl_requestCanon args) \<and> rc_actorFp c = pl_expectedActorFp args \<and>
     (rc_epoch c = pl_currentEpoch args \<or> Some (rc_epoch c) = pl_prevEpoch args) \<and>
     (\<exists>pubkey canon. pl_resolvePubkey args (rc_epoch c) = Some pubkey \<and> encodeCommitment c = Inr canon \<and> verifyEd25519 ed pubkey (re_signature env) canon) \<and>
     rc_bodyHash c = sha (pl_responseBody args) \<and>
     (\<exists>hb. buildHeadersCommittedBytes (pl_responseHeaders args) = Inr hb \<and> rc_headersHash c = sha hb) \<and>
     \<bar>pl_nowMs args - rc_timestampMs c\<bar> \<le> 300000 \<and> 200 \<le> rc_status c \<and> rc_status c < 300)"

lemma live_accepts_iff:
  "verifyReceiptPLive sha ed args = Accepted env \<longleftrightarrow> decodeReceiptHeader (pl_headerValue args) = Inr env \<and> live_checks sha ed args env"
proof (cases "decodeReceiptHeader (pl_headerValue args)")
  case (Inr e)
  then show ?thesis
    unfolding verifyReceiptPLive_def live_checks_def Let_def RECEIPT_CLOCK_SKEW_MS_def
    by (simp add: encoding_Accepted guard_Accepted option_Accepted not_less not_le cong: conj_cong) metis
qed (simp add: verifyReceiptPLive_def)

text \<open>The checks of an archival verification, all of them, and the verdict on a compromised key.\<close>

definition archival_checks :: "(bytes \<Rightarrow> bytes) \<Rightarrow> (bytes \<Rightarrow> bytes \<Rightarrow> bytes \<Rightarrow> bool option) \<Rightarrow> VArchivalVerifyArgs \<Rightarrow> ReceiptEnvelope \<Rightarrow> bool" where
  "archival_checks sha ed args env \<longleftrightarrow> (let c = re_commitment env in
     rc_actorFp c = va_expectedActorFp args \<and> rc_requestHash c = sha (va_requestCanon args) \<and>
     (\<exists>canon. encodeCommitment c = Inr canon \<and> verifyEd25519 ed (va_archivalPubkey args) (re_signature env) canon) \<and>
     rc_bodyHash c = sha (va_responseBody args) \<and>
     (\<exists>hb. buildHeadersCommittedBytes (va_responseHeaders args) = Inr hb \<and> rc_headersHash c = sha hb) \<and>
     200 \<le> rc_status c \<and> rc_status c < 300)"

lemma archival_accepts_iff:
  "verifyReceiptVArchival sha ed args = Accepted (env, trusted) \<longleftrightarrow>
     decodeReceiptBytes (va_envelopeBytes args) = Inr env \<and> archival_checks sha ed args env \<and>
     (trusted \<longleftrightarrow> (\<forall>t. va_compromiseNotice args = Some (t, True) \<longrightarrow> rc_timestampMs (re_commitment env) < t))"
proof (cases "decodeReceiptBytes (va_envelopeBytes args)")
  case (Inr e)
  have "(case va_compromiseNotice args of Some (t, True) \<Rightarrow> \<not> rc_timestampMs (re_commitment e) \<ge> t | _ \<Rightarrow> True) =
      (\<forall>t. va_compromiseNotice args = Some (t, True) \<longrightarrow> rc_timestampMs (re_commitment e) < t)"
    by (auto split: option.split prod.split bool.split)
  with Inr show ?thesis
    unfolding verifyReceiptVArchival_def archival_checks_def Let_def
    by (simp add: encoding_Accepted guard_Accepted not_less not_le cong: conj_cong) metis
qed (simp add: verifyReceiptVArchival_def)

lemma live_accepted_ok:
  assumes "verifyReceiptPLive sha ed args = Accepted env"
  shows "commitment_ok (re_commitment env)"
proof -
  obtain bs where "b64urlDecode (pl_headerValue args) = Some bs" "decodeReceiptBytes bs = Inr env"
    using assms unfolding live_accepts_iff by (auto simp: decodeReceiptHeader_def split: option.splits)
  then show ?thesis using assms decoded_receipt(1) unfolding live_accepts_iff live_checks_def Let_def by blast
qed

lemma commitment_determined:
  assumes "commitment_ok c" "commitment_ok c'" "encodeCommitment c = encodeCommitment c'"
  shows "c = c'"
proof -
  have "canon_commitment c = canon_commitment c'"
    using commitment_bytes [OF assms(1)] commitment_bytes [OF assms(2)] assms(3) by (metis Inr_inject)
  then show ?thesis using parse_canon_commitment [OF assms(1)] parse_canon_commitment [OF assms(2)] by (metis Inr_inject)
qed

text \<open>C5: Acceptance of a live receipt is sound: the nonce, the request hash, the actor and the epoch are the expected ones, the
  signature of the epoch's key covers the canonical bytes of the commitment, the body and the committed headers hash to the
  committed values, the timestamp is within five minutes and the status is a success; and the commitment is well formed.\<close>

theorem live_receipt_sound:
  assumes "verifyReceiptPLive sha ed args = Accepted env"
  shows "live_checks sha ed args env \<and> commitment_ok (re_commitment env)"
  using assms live_accepted_ok live_accepts_iff by blast

text \<open>C6: A receipt binds the exchange: two accepted verifications of the same signed bytes are about the same nonce, request, status,
  response body and values of every committed header, unless SHA-256 collides on one of the strings hashed.\<close>

theorem receipt_binds_exchange:
  assumes "verifyReceiptPLive sha ed args = Accepted env" "verifyReceiptPLive sha ed args' = Accepted env'"
    and "encodeCommitment (re_commitment env) = encodeCommitment (re_commitment env')"
    and "headers_short (pl_responseHeaders args)" "headers_short (pl_responseHeaders args')"
    and "buildHeadersCommittedBytes (pl_responseHeaders args) = Inr hb" "buildHeadersCommittedBytes (pl_responseHeaders args') = Inr hb'"
    and "inj_on sha {pl_requestCanon args, pl_requestCanon args', pl_responseBody args, pl_responseBody args', hb, hb'}"
  shows "pl_expectedNonce args = pl_expectedNonce args' \<and> pl_requestCanon args = pl_requestCanon args' \<and> pl_responseBody args = pl_responseBody args' \<and>
    rc_status (re_commitment env) = rc_status (re_commitment env') \<and>
    (\<forall>n \<in> set HEADER_ALLOWLIST. map_option utf8_encode (map_of (pl_responseHeaders args) n) = map_option utf8_encode (map_of (pl_responseHeaders args') n))"
proof -
  have c: "re_commitment env = re_commitment env'"
    using commitment_determined [OF live_accepted_ok live_accepted_ok] assms(1-3) by blast
  have checks: "live_checks sha ed args env" "live_checks sha ed args' env'" using assms(1,2) unfolding live_accepts_iff by auto
  have "sha (pl_requestCanon args) = sha (pl_requestCanon args')" "sha (pl_responseBody args) = sha (pl_responseBody args')" "sha hb = sha hb'"
    and nonce: "pl_expectedNonce args = pl_expectedNonce args'"
    using checks assms(6,7) unfolding live_checks_def Let_def c by auto
  then have eqs: "pl_requestCanon args = pl_requestCanon args'" "pl_responseBody args = pl_responseBody args'" "hb = hb'"
    using assms(8) unfolding inj_on_def by blast+
  then show ?thesis using c nonce committed_headers_determined [OF assms(4,5)] assms(6,7) by auto
qed

section \<open>Completeness\<close>

text \<open>A signer whose signatures the verifier accepts under its public key.\<close>

definition signer_ok :: "(bytes \<Rightarrow> bytes \<Rightarrow> bytes \<Rightarrow> bool option) \<Rightarrow> ReceiptSigner \<Rightarrow> bool" where
  "signer_ok ed s \<longleftrightarrow> length (sg_pubkey s) = 32 \<and> (\<forall>m. \<exists>sig. sg_sign s m = Some sig \<and> length sig = 64 \<and> ed (sg_pubkey s) sig m = Some True)"

lemma signed_receipt:
  assumes "commitment_ok c" "signer_ok ed s"
  shows "\<exists>hdr envb sig canon. signCommitmentToHeader c s = Inr (hdr, envb, sig) \<and> hdr = b64urlEncode envb \<and> encodeCommitment c = Inr canon \<and>
    verifyEd25519 ed (sg_pubkey s) sig canon \<and> decodeReceiptBytes envb = Inr \<lparr>re_commitment = c, re_signature = sig\<rparr> \<and>
    decodeReceiptHeader hdr = Inr \<lparr>re_commitment = c, re_signature = sig\<rparr>"
proof -
  obtain canon where canon: "encodeCommitment c = Inr canon" using commitment_bytes [OF assms(1)] by blast
  obtain sig where sig: "sg_sign s canon = Some sig" "length sig = 64" "ed (sg_pubkey s) sig canon = Some True"
    using assms(2) unfolding signer_ok_def by blast
  obtain b where "encodeReceiptEnvelope \<lparr>re_commitment = c, re_signature = sig\<rparr> = Inr b" "decodeReceiptBytes b = Inr \<lparr>re_commitment = c, re_signature = sig\<rparr>"
    using receipt_roundtrip [OF assms(1) sig(2)] by blast
  then show ?thesis using canon sig assms(2)
    by (simp add: signCommitmentToHeader_def sign_bytes_def verifyEd25519_True signer_ok_def header_of_bytes)
qed

text \<open>C10: Acceptance by the archival verifier is sound, and it is what a live verification checks without freshness. It accepts
  exactly an envelope that decodes, whose actor and request are the expected ones, whose signature under the archived key covers the
  canonical bytes of the commitment, whose body and committed headers hash to the committed values and whose status is a success;
  and it marks the receipt as trusted exactly when no verified compromise notice of the epoch dates from before or at its timestamp.
  For one exchange and the key of the receipt's epoch, the live verifier accepts exactly the receipts the archival verifier accepts
  whose nonce is the expected one, whose epoch is current or the previous one and whose timestamp is within five minutes.\<close>

theorem archived_receipt_audits:
  assumes "b64urlDecode (pl_headerValue args) = Some (va_envelopeBytes audit)"
    and "va_requestCanon audit = pl_requestCanon args" "va_responseBody audit = pl_responseBody args" "va_responseHeaders audit = pl_responseHeaders args"
    and "va_expectedActorFp audit = pl_expectedActorFp args" "pl_resolvePubkey args (rc_epoch (re_commitment env)) = Some (va_archivalPubkey audit)"
  shows "(verifyReceiptVArchival sha ed audit = Accepted (env, trusted) \<longleftrightarrow>
      decodeReceiptBytes (va_envelopeBytes audit) = Inr env \<and> archival_checks sha ed audit env \<and>
      (trusted \<longleftrightarrow> (\<forall>t. va_compromiseNotice audit = Some (t, True) \<longrightarrow> rc_timestampMs (re_commitment env) < t))) \<and>
    (verifyReceiptPLive sha ed args = Accepted env \<longleftrightarrow>
      (\<exists>v. verifyReceiptVArchival sha ed audit = Accepted (env, v)) \<and>
      rc_nonce (re_commitment env) = pl_expectedNonce args \<and>
      (rc_epoch (re_commitment env) = pl_currentEpoch args \<or> Some (rc_epoch (re_commitment env)) = pl_prevEpoch args) \<and>
      \<bar>pl_nowMs args - rc_timestampMs (re_commitment env)\<bar> \<le> 300000)"
proof
  have "decodeReceiptHeader (pl_headerValue args) = decodeReceiptBytes (va_envelopeBytes audit)"
    using assms(1) by (simp add: decodeReceiptHeader_def)
  then show "verifyReceiptPLive sha ed args = Accepted env \<longleftrightarrow>
      (\<exists>v. verifyReceiptVArchival sha ed audit = Accepted (env, v)) \<and> rc_nonce (re_commitment env) = pl_expectedNonce args \<and>
      (rc_epoch (re_commitment env) = pl_currentEpoch args \<or> Some (rc_epoch (re_commitment env)) = pl_prevEpoch args) \<and>
      \<bar>pl_nowMs args - rc_timestampMs (re_commitment env)\<bar> \<le> 300000"
    unfolding live_accepts_iff archival_accepts_iff live_checks_def archival_checks_def Let_def using assms(2-6) by auto
qed (rule archival_accepts_iff)

section \<open>Streams\<close>

lemma decoded_stream_open:
  assumes "decodeStreamOpenEnvelopeBytes bs = Inr env" "encodeStreamOpenCommitment (soe_commitment env) = Inr canon"
  shows "stream_open_ok (soe_commitment env)"
proof -
  obtain m sig where open_env: "open_envelope bs [js ''commitment'', js ''kind'', js ''signature''] (Some (js ''stream-open'')) = Inr (m, sig)"
    and parse: "parseStreamOpenMap m = Inr (soe_commitment env)"
    using assms(1) by (auto simp: decodeStreamOpenEnvelopeBytes_def simp del: list.map split: sum.splits)
  then show ?thesis using parse_stream_open_ok [OF parse] open_envelope_decodable [OF open_env] encoded_timestamps(2) [OF assms(2)] by auto
qed

definition stream_open_checks :: "(bytes \<Rightarrow> bytes) \<Rightarrow> (bytes \<Rightarrow> bytes \<Rightarrow> bytes \<Rightarrow> bool option) \<Rightarrow> StreamOpenVerifyArgs \<Rightarrow> StreamOpenEnvelope \<Rightarrow> bytes \<Rightarrow> bool" where
  "stream_open_checks sha ed args env canon \<longleftrightarrow> (let c = soe_commitment env in
     so_nonce c = sv_expectedNonce args \<and> so_requestHash c = sha (sv_requestCanon args) \<and> so_actorFp c = sv_expectedActorFp args \<and>
     (so_epoch c = sv_currentEpoch args \<or> Some (so_epoch c) = sv_prevEpoch args) \<and> encodeStreamOpenCommitment c = Inr canon \<and>
     (\<exists>pubkey. sv_resolvePubkey args (so_epoch c) = Some pubkey \<and> verifyEd25519 ed pubkey (soe_signature env) canon) \<and>
     \<bar>sv_nowMs args - so_timestampMs c\<bar> \<le> 300000 \<and> so_status c = 200)"

lemma stream_open_accepts_iff:
  "verifyStreamOpen sha ed args = Accepted (env, oh) \<longleftrightarrow> (\<exists>bs canon. b64decode (sv_headerValue args) = Some bs \<and>
     decodeStreamOpenEnvelopeBytes bs = Inr env \<and> stream_open_checks sha ed args env canon \<and> oh = sha canon)"
proof (cases "b64decode (sv_headerValue args)")
  case (Some bs)
  then show ?thesis
  proof (cases "decodeStreamOpenEnvelopeBytes bs")
    case (Inr e)
    then show ?thesis
      unfolding verifyStreamOpen_def stream_open_checks_def Let_def RECEIPT_CLOCK_SKEW_MS_def
      by (simp add: Some base64_names encoding_Accepted guard_Accepted option_Accepted not_less not_le cong: conj_cong) metis
  qed (simp add: verifyStreamOpen_def base64_names Some)
qed (simp add: verifyStreamOpen_def base64_names)

lemma stream_close_accepts_iff:
  "verifyStreamClose ed args = Accepted env \<longleftrightarrow> (\<exists>bs canon. b64decode (cv_payload args) = Some bs \<and> decodeStreamCloseEnvelopeBytes bs = Inr env \<and>
     sc_openCommitmentHash (sce_commitment env) = cv_expectedOpenCommitmentHash args \<and> sc_tipHash (sce_commitment env) = cv_expectedTipHash args \<and>
     encodeStreamCloseCommitment (sce_commitment env) = Inr canon \<and> verifyEd25519 ed (cv_pubkey args) (sce_signature env) canon)"
proof (cases "b64decode (cv_payload args)")
  case (Some bs)
  then show ?thesis
  proof (cases "decodeStreamCloseEnvelopeBytes bs")
    case (Inr e)
    then show ?thesis unfolding verifyStreamClose_def Let_def
      by (simp add: Some base64_names encoding_Accepted guard_Accepted cong: conj_cong) metis
  qed (simp add: verifyStreamClose_def base64_names Some)
qed (simp add: verifyStreamClose_def base64_names)

text \<open>The chain over the events of a stream, newest first: the tip, and the strings that were hashed.\<close>

definition event_map :: "bytes \<Rightarrow> bytes \<Rightarrow> int \<Rightarrow> cbor_value" where
  "event_map prev e seq = Obj [entry ''event_data'' (Bytes e), entry ''prev'' (Bytes prev), entry ''seq'' (Num (Integer seq))]"

fun event_tip :: "(bytes \<Rightarrow> bytes) \<Rightarrow> bytes \<Rightarrow> bytes list \<Rightarrow> cbor_error + bytes" where
  "event_tip sha start [] = Inr start"
| "event_tip sha start (e # es) = (case event_tip sha start es of Inl x \<Rightarrow> Inl x | Inr prev \<Rightarrow> eventChainStep sha prev e (int (length es)))"

fun event_inputs :: "(bytes \<Rightarrow> bytes) \<Rightarrow> bytes \<Rightarrow> bytes list \<Rightarrow> bytes set" where
  "event_inputs sha start [] = {}"
| "event_inputs sha start (e # es) = {b. \<exists>prev. event_tip sha start es = Inr prev \<and> canonicalCbor (event_map prev e (int (length es))) = Inr b} \<union> event_inputs sha start es"

definition events_short :: "bytes list \<Rightarrow> bool" where
  "events_short es \<longleftrightarrow> length es < 2 ^ 31 \<and> (\<forall>e \<in> set es. length e < 2 ^ 31)"

definition sha32 :: "(bytes \<Rightarrow> bytes) \<Rightarrow> bool" where
  "sha32 sha \<longleftrightarrow> (\<forall>b. length (sha b) = 32)"

lemma events_short_Cons: "events_short (e # es) \<Longrightarrow> events_short es \<and> length e < 2 ^ 31 \<and> int (length es) < 2 ^ 31"
  by (auto simp: events_short_def)

lemma event_map_bytes:
  assumes "length prev = 32" "length e < 2 ^ 31" "0 \<le> seq" "seq < 2 ^ 31"
  shows "\<exists>b. canonicalCbor (event_map prev e seq) = Inr b \<and>
    decodeCanonicalCbor b = Inr (Obj [entry ''seq'' (Num (Integer seq)), entry ''prev'' (Bytes prev), entry ''event_data'' (Bytes e)])"
proof -
  let ?m = "[entry ''seq'' (Num (Integer seq)), entry ''prev'' (Bytes prev), entry ''event_data'' (Bytes e)]"
  have "cbor_ok (Obj ?m)"
    by (rule cbor_ok_schema) (use assms in \<open>auto simp: key_less_def head_ok_def\<close>)
  moreover have "mset ?m = mset [entry ''event_data'' (Bytes e), entry ''prev'' (Bytes prev), entry ''seq'' (Num (Integer seq))]" by simp
  ultimately show ?thesis unfolding event_map_def using canonical_form [OF same_entry_refl(1)] by blast
qed

lemma eventChainStep_map: "eventChainStep sha prev e seq = (case canonicalCbor (event_map prev e seq) of Inl x \<Rightarrow> Inl x | Inr b \<Rightarrow> Inr (sha b))"
  by (simp add: eventChainStep_def event_map_def)

lemma event_tip_total:
  assumes "sha32 sha" "length start = 32" "events_short es"
  shows "\<exists>t. event_tip sha start es = Inr t \<and> length t = 32"
  using assms(3)
proof (induction es)
  case (Cons e es)
  then obtain t where t: "event_tip sha start es = Inr t" "length t = 32" using events_short_Cons by blast
  obtain b where "canonicalCbor (event_map t e (int (length es))) = Inr b"
    using event_map_bytes [of t e "int (length es)"] t events_short_Cons [OF Cons.prems] by auto
  then show ?case using t assms(1) by (simp add: eventChainStep_map sha32_def)
qed (use assms(2) in simp)

lemma event_step_determined:
  assumes sha: "sha32 sha" and start: "length start = 32" "length start' = 32"
    and short: "events_short (e # es)" "events_short (e' # es')"
    and tips: "event_tip sha start (e # es) = Inr t" "event_tip sha start' (e' # es') = Inr t"
    and inj: "inj_on sha (event_inputs sha start (e # es) \<union> event_inputs sha start' (e' # es'))"
  shows "e = e' \<and> length es = length es' \<and> event_tip sha start es = event_tip sha start' es'"
proof -
  obtain p where p: "event_tip sha start es = Inr p" "length p = 32"
    using event_tip_total [OF sha start(1), of es] events_short_Cons [OF short(1)] by blast
  obtain p' where p': "event_tip sha start' es' = Inr p'" "length p' = 32"
    using event_tip_total [OF sha start(2), of es'] events_short_Cons [OF short(2)] by blast
  obtain b where b: "canonicalCbor (event_map p e (int (length es))) = Inr b"
      "decodeCanonicalCbor b = Inr (Obj [entry ''seq'' (Num (Integer (int (length es)))), entry ''prev'' (Bytes p), entry ''event_data'' (Bytes e)])"
    using event_map_bytes [of p e "int (length es)"] p events_short_Cons [OF short(1)] by (auto simp del: list.map)
  obtain b' where b': "canonicalCbor (event_map p' e' (int (length es'))) = Inr b'"
      "decodeCanonicalCbor b' = Inr (Obj [entry ''seq'' (Num (Integer (int (length es')))), entry ''prev'' (Bytes p'), entry ''event_data'' (Bytes e')])"
    using event_map_bytes [of p' e' "int (length es')"] p' events_short_Cons [OF short(2)] by (auto simp del: list.map)
  have "sha b = sha b'" using tips p(1) p'(1) b(1) b'(1) by (simp add: eventChainStep_map)
  moreover have "b \<in> event_inputs sha start (e # es)" "b' \<in> event_inputs sha start' (e' # es')" using p(1) p'(1) b(1) b'(1) by simp_all
  ultimately have "b = b'" using inj_onD [OF inj] by blast
  then show ?thesis using b(2) b'(2) p p' by (simp del: list.map)
qed

lemma open_not_event:
  assumes "stream_open_ok c" "encodeStreamOpenCommitment c = Inr b"
    and "length prev = 32" "length e < 2 ^ 31" "0 \<le> seq" "seq < 2 ^ 31"
  shows "canonicalCbor (event_map prev e seq) \<noteq> Inr b"
  using stream_open_bytes [OF assms(1)] event_map_bytes [OF assms(3-6)] assms(2) by (auto simp: canon_stream_open_def simp del: list.map)

lemma first_event_not_open:
  assumes sha: "sha32 sha" and short: "events_short (e # es)" and start: "length start = 32"
    and canon: "stream_open_ok c" "encodeStreamOpenCommitment c = Inr b" "event_tip sha start (e # es) = Inr (sha b)"
    and inj: "inj_on sha (insert b (event_inputs sha start (e # es)))"
  shows False
proof -
  obtain p where p: "event_tip sha start es = Inr p" "length p = 32"
    using event_tip_total [OF sha start, of es] events_short_Cons [OF short] by blast
  have lens: "length e < 2 ^ 31" "0 \<le> int (length es)" "int (length es) < 2 ^ 31" using events_short_Cons [OF short] by auto
  obtain b' where b': "canonicalCbor (event_map p e (int (length es))) = Inr b'"
    using event_map_bytes [OF p(2) lens] by blast
  have "sha b' = sha b" using canon(3) p(1) b' by (simp add: eventChainStep_map)
  moreover have "b' \<in> event_inputs sha start (e # es)" using p(1) b' by simp
  ultimately have "b' = b" using inj_onD [OF inj] by blast
  then show False using open_not_event [OF canon(1,2) p(2) lens] b' by simp
qed

lemma tip_binds:
  assumes sha: "sha32 sha"
    and c: "stream_open_ok c" "encodeStreamOpenCommitment c = Inr b" and c': "stream_open_ok c'" "encodeStreamOpenCommitment c' = Inr b'"
  shows "events_short es \<Longrightarrow> events_short es' \<Longrightarrow> event_tip sha (sha b) es = Inr t \<Longrightarrow> event_tip sha (sha b') es' = Inr t \<Longrightarrow>
    inj_on sha ({b, b'} \<union> event_inputs sha (sha b) es \<union> event_inputs sha (sha b') es') \<Longrightarrow> es = es' \<and> b = b'"
proof (induction es arbitrary: es' t)
  case Nil
  show ?case
  proof (cases es')
    case Nil
    then have "sha b = sha b'" using Nil.prems(3,4) by simp
    then show ?thesis using inj_onD [OF Nil.prems(5), of b b'] Nil by simp
  next
    case (Cons e es)
    have "inj_on sha (insert b (event_inputs sha (sha b') (e # es)))"
      using Nil.prems(5) unfolding Cons by (rule inj_on_subset) auto
    moreover have "length (sha b') = 32" "event_tip sha (sha b') (e # es) = Inr (sha b)" "events_short (e # es)"
      using sha Nil.prems unfolding Cons sha32_def by auto
    ultimately show ?thesis using first_event_not_open [OF sha _ _ c] by blast
  qed
next
  case (Cons e es)
  show ?case
  proof (cases es')
    case Nil
    have "inj_on sha (insert b' (event_inputs sha (sha b) (e # es)))"
      using Cons.prems(5) by (rule inj_on_subset) auto
    moreover have "length (sha b) = 32" "event_tip sha (sha b) (e # es) = Inr (sha b')"
      using sha Cons.prems(3,4) unfolding Nil sha32_def by auto
    ultimately show ?thesis using first_event_not_open [OF sha Cons.prems(1) _ c'] by blast
  next
    case es': (Cons e' fs)
    have step: "e = e' \<and> length es = length fs \<and> event_tip sha (sha b) es = event_tip sha (sha b') fs"
    proof (rule event_step_determined [OF sha])
      show "inj_on sha (event_inputs sha (sha b) (e # es) \<union> event_inputs sha (sha b') (e' # fs))"
        using Cons.prems(5) unfolding es' by (rule inj_on_subset) auto
    qed (use Cons.prems sha in \<open>simp_all add: es' sha32_def\<close>)
    have short: "events_short es" "events_short fs" using Cons.prems(1,2) events_short_Cons unfolding es' by blast+
    obtain p where p: "event_tip sha (sha b) es = Inr p" using event_tip_total [OF sha _ short(1)] sha unfolding sha32_def by blast
    have "inj_on sha ({b, b'} \<union> event_inputs sha (sha b) es \<union> event_inputs sha (sha b') fs)"
      using Cons.prems(5) unfolding es' by (rule inj_on_subset) auto
    then show ?thesis using Cons.IH [OF short p] step p es' by auto
  qed
qed

text \<open>C11: The close of a stream binds its events: when a client accepted the open and the close commitment and its own chain over the
  events it saw ends in the accepted tip, then the events it saw are exactly those the server chained, in number, order and
  content, and the open commitment is the server's, unless SHA-256 collides on one of the strings hashed.\<close>

theorem stream_close_binds_events:
  assumes "verifyStreamOpen sha ed oargs = Accepted (oenv, oh)" "verifyStreamClose ed cargs = Accepted cenv"
    and "cv_expectedOpenCommitmentHash cargs = oh" "event_tip sha oh seen = Inr (cv_expectedTipHash cargs)"
    and "stream_open_ok c" "encodeStreamOpenCommitment c = Inr b" "sc_openCommitmentHash (sce_commitment cenv) = sha b"
    and "event_tip sha (sha b) sent = Inr (sc_tipHash (sce_commitment cenv))"
    and "sha32 sha" "events_short seen" "events_short sent"
    and "encodeStreamOpenCommitment (soe_commitment oenv) = Inr ob"
    and "inj_on sha ({ob, b} \<union> event_inputs sha oh seen \<union> event_inputs sha oh sent)"
  shows "seen = sent \<and> soe_commitment oenv = c"
proof -
  obtain bs where oh: "oh = sha ob" and ok: "stream_open_ok (soe_commitment oenv)"
    using assms(1,12) decoded_stream_open unfolding stream_open_accepts_iff stream_open_checks_def Let_def by auto
  have tip: "sc_tipHash (sce_commitment cenv) = cv_expectedTipHash cargs" "sha b = oh"
    using assms(2,3,7) unfolding stream_close_accepts_iff by auto
  have "seen = sent \<and> ob = b"
  proof (rule tip_binds [OF assms(9) ok assms(12) assms(5,6) assms(10,11)])
    show "event_tip sha (sha ob) seen = Inr (cv_expectedTipHash cargs)" using assms(4) oh by simp
    show "event_tip sha (sha b) sent = Inr (cv_expectedTipHash cargs)" using assms(8) tip(1) by simp
    show "inj_on sha ({ob, b} \<union> event_inputs sha (sha ob) seen \<union> event_inputs sha (sha b) sent)" using assms(13) tip(2) oh by simp
  qed
  moreover have "canon_stream_open (soe_commitment oenv) = canon_stream_open c" if "ob = b"
    using stream_open_bytes [OF ok] stream_open_bytes [OF assms(5)] assms(6,12) that by (metis Inr_inject)
  ultimately show ?thesis using parse_canon_stream_open [OF ok] parse_canon_stream_open [OF assms(5)] by (metis Inr_inject)
qed

section \<open>Signed streams\<close>

lemma signed_stream_open:
  assumes "stream_open_ok c" "signer_ok ed s"
  shows "\<exists>hdr envb sig canon. signStreamOpenToHeader sha c s = Inr (hdr, envb, sig, sha canon) \<and> encodeStreamOpenCommitment c = Inr canon \<and>
    verifyEd25519 ed (sg_pubkey s) sig canon \<and> hdr = b64urlEncode envb \<and> decodeStreamOpenEnvelopeBytes envb = Inr \<lparr>soe_commitment = c, soe_signature = sig\<rparr>"
proof -
  obtain canon where canon: "encodeStreamOpenCommitment c = Inr canon" using stream_open_bytes [OF assms(1)] by blast
  obtain sig where sig: "sg_sign s canon = Some sig" "length sig = 64" "ed (sg_pubkey s) sig canon = Some True"
    using assms(2) unfolding signer_ok_def by blast
  obtain b where "encodeStreamOpenEnvelope \<lparr>soe_commitment = c, soe_signature = sig\<rparr> = Inr b"
      "decodeStreamOpenEnvelopeBytes b = Inr \<lparr>soe_commitment = c, soe_signature = sig\<rparr>"
    using stream_open_roundtrip [OF assms(1) sig(2)] by blast
  then show ?thesis using canon sig assms(2) by (simp add: signStreamOpenToHeader_def sign_bytes_def verifyEd25519_True signer_ok_def)
qed

lemma signed_stream_close:
  assumes "stream_close_ok c" "signer_ok ed s"
  shows "\<exists>payload envb sig canon. signStreamCloseToEventPayload c s = Inr (payload, envb, sig) \<and> encodeStreamCloseCommitment c = Inr canon \<and>
    verifyEd25519 ed (sg_pubkey s) sig canon \<and> payload = b64urlEncode envb \<and> decodeStreamCloseEnvelopeBytes envb = Inr \<lparr>sce_commitment = c, sce_signature = sig\<rparr>"
proof -
  obtain canon where canon: "encodeStreamCloseCommitment c = Inr canon" using stream_close_bytes [OF assms(1)] by blast
  obtain sig where sig: "sg_sign s canon = Some sig" "length sig = 64" "ed (sg_pubkey s) sig canon = Some True"
    using assms(2) unfolding signer_ok_def by blast
  obtain b where "encodeStreamCloseEnvelope \<lparr>sce_commitment = c, sce_signature = sig\<rparr> = Inr b"
      "decodeStreamCloseEnvelopeBytes b = Inr \<lparr>sce_commitment = c, sce_signature = sig\<rparr>"
    using stream_close_roundtrip [OF assms(1) sig(2)] by blast
  then show ?thesis using canon sig assms(2) by (simp add: signStreamCloseToEventPayload_def sign_bytes_def verifyEd25519_True signer_ok_def)
qed

lemma stream_open_verifies:
  assumes "stream_open_ok c" "signer_ok ed s" "signStreamOpenToHeader sha c s = Inr (hdr, envb, sig, oh)"
    and "so_nonce c = sv_expectedNonce args" "so_requestHash c = sha (sv_requestCanon args)" "so_actorFp c = sv_expectedActorFp args"
    and "so_epoch c = sv_currentEpoch args" "sv_resolvePubkey args (so_epoch c) = Some (sg_pubkey s)" "\<bar>sv_nowMs args - so_timestampMs c\<bar> \<le> 300000"
    and "so_status c = 200" "sv_headerValue args = hdr"
  shows "verifyStreamOpen sha ed args = Accepted (\<lparr>soe_commitment = c, soe_signature = sig\<rparr>, oh)"
  using signed_stream_open [OF assms(1,2), of sha] assms(3-11)
  unfolding stream_open_accepts_iff stream_open_checks_def Let_def by (auto simp: base64_names b64_roundtrip)

lemma stream_close_verifies:
  assumes "stream_close_ok c" "signer_ok ed s" "signStreamCloseToEventPayload c s = Inr (payload, envb, sig)"
    and "cv_payload args = payload" "cv_expectedOpenCommitmentHash args = sc_openCommitmentHash c" "cv_expectedTipHash args = sc_tipHash c" "cv_pubkey args = sg_pubkey s"
  shows "verifyStreamClose ed args = Accepted \<lparr>sce_commitment = c, sce_signature = sig\<rparr>"
  using signed_stream_close [OF assms(1,2)] assms(3-7) unfolding stream_close_accepts_iff by (auto simp: base64_names b64_roundtrip)

section \<open>Concrete receipts\<close>

definition pad_sha :: "bytes \<Rightarrow> bytes" where
  "pad_sha b = take 32 (b @ replicate 32 0)"

definition any_ed :: "bytes \<Rightarrow> bytes \<Rightarrow> bytes \<Rightarrow> bool option" where
  "any_ed pub sig m = Some True"

definition zero_signer :: ReceiptSigner where
  "zero_signer = \<lparr>sg_sign = (\<lambda>m. Some (replicate 64 0)), sg_pubkey = replicate 32 0\<rparr>"

lemma sample_crypto: "sha32 pad_sha" "signer_ok any_ed zero_signer"
  by (auto simp: sha32_def pad_sha_def signer_ok_def any_ed_def zero_signer_def min_def)

definition sample_commitment :: ReceiptCommitment where
  "sample_commitment = \<lparr>rc_nonce = replicate 16 3, rc_requestHash = pad_sha [1], rc_status = 200, rc_bodyHash = pad_sha [2], rc_headersHash = pad_sha [160],
     rc_timestampMs = 1700000000000, rc_actorFp = replicate 32 9, rc_originsHash = None, rc_epoch = 7\<rparr>"

definition sample_header :: jsstr where
  "sample_header = (case signCommitmentToHeader sample_commitment zero_signer of Inr (hdr, _) \<Rightarrow> hdr | Inl _ \<Rightarrow> [])"

definition sample_args :: "int \<Rightarrow> PLiveVerifyArgs" where
  "sample_args now = \<lparr>pl_headerValue = sample_header, pl_expectedActorFp = replicate 32 9, pl_currentEpoch = 7, pl_prevEpoch = None,
     pl_resolvePubkey = (\<lambda>n. Some (replicate 32 0)), pl_expectedNonce = replicate 16 3, pl_requestCanon = [1], pl_responseBody = [2],
     pl_responseHeaders = [], pl_nowMs = now\<rparr>"

lemma sample_commitment_ok: "commitment_ok sample_commitment"
  by (simp add: commitment_ok_def sample_commitment_def pad_sha_def head_ok_def safe_uint_def to_number_small)

lemma no_headers_bytes: "buildHeadersCommittedBytes [] = Inr [160]"
proof -
  have "committed_headers [] = []" by (simp add: committed_headers_def List.map_filter_def)
  then show ?thesis by (simp add: buildHeadersCommittedBytes_def js_simps)
qed

lemma sample_accepted:
  assumes "\<bar>now - 1700000000000\<bar> \<le> 300000"
  obtains sig where "verifyReceiptPLive pad_sha any_ed (sample_args now) = Accepted \<lparr>re_commitment = sample_commitment, re_signature = sig\<rparr>"
proof -
  obtain hdr envb sig canon where s: "signCommitmentToHeader sample_commitment zero_signer = Inr (hdr, envb, sig)" "encodeCommitment sample_commitment = Inr canon"
      "verifyEd25519 any_ed (sg_pubkey zero_signer) sig canon" "decodeReceiptHeader hdr = Inr \<lparr>re_commitment = sample_commitment, re_signature = sig\<rparr>"
    using signed_receipt [OF sample_commitment_ok sample_crypto(2)] by blast
  have "live_checks pad_sha any_ed (sample_args now) \<lparr>re_commitment = sample_commitment, re_signature = sig\<rparr>"
    using s(2,3) assms no_headers_bytes by (simp add: live_checks_def Let_def sample_args_def sample_commitment_def zero_signer_def)
  moreover have "pl_headerValue (sample_args now) = hdr" using s(1) by (simp add: sample_args_def sample_header_def)
  ultimately show thesis using that s(4) unfolding live_accepts_iff by simp
qed

theorem live_receipt_sound_witness:
  "\<exists>env. verifyReceiptPLive pad_sha any_ed (sample_args 1700000000001) = Accepted env \<and> live_checks pad_sha any_ed (sample_args 1700000000001) env \<and> rc_status (re_commitment env) = 200"
proof -
  obtain sig where "verifyReceiptPLive pad_sha any_ed (sample_args 1700000000001) = Accepted \<lparr>re_commitment = sample_commitment, re_signature = sig\<rparr>" by (rule sample_accepted [of 1700000000001]) simp_all
  then show ?thesis using live_receipt_sound by (fastforce simp: sample_commitment_def)
qed

theorem receipt_binds_exchange_witness:
  "\<exists>env env'. verifyReceiptPLive pad_sha any_ed (sample_args 1700000000001) = Accepted env \<and> verifyReceiptPLive pad_sha any_ed (sample_args 1699999999999) = Accepted env' \<and>
     pl_responseBody (sample_args 1700000000001) = pl_responseBody (sample_args 1699999999999)"
proof -
  let ?a = "sample_args 1700000000001" let ?b = "sample_args 1699999999999"
  obtain sig where acc: "verifyReceiptPLive pad_sha any_ed ?a = Accepted \<lparr>re_commitment = sample_commitment, re_signature = sig\<rparr>"
    by (rule sample_accepted [of 1700000000001]) simp_all
  obtain sig' where acc': "verifyReceiptPLive pad_sha any_ed ?b = Accepted \<lparr>re_commitment = sample_commitment, re_signature = sig'\<rparr>"
    by (rule sample_accepted [of 1699999999999]) simp_all
  have short: "headers_short (pl_responseHeaders (sample_args now))" and hb: "buildHeadersCommittedBytes (pl_responseHeaders (sample_args now)) = Inr [160]" for now
    using no_headers_bytes by (simp_all add: headers_short_def sample_args_def)
  have "inj_on pad_sha {pl_requestCanon ?a, pl_requestCanon ?b, pl_responseBody ?a, pl_responseBody ?b, [160], [160]}"
    by (simp add: sample_args_def pad_sha_def)
  from receipt_binds_exchange [OF acc acc' _ short short hb hb this] acc acc' show ?thesis by auto
qed

theorem archived_receipt_audits_witness:
  "\<exists>bytes env. verifyReceiptVArchival pad_sha any_ed \<lparr>va_envelopeBytes = bytes, va_requestCanon = [1], va_responseBody = [2], va_responseHeaders = [],
     va_archivalPubkey = replicate 32 0, va_expectedActorFp = replicate 32 9, va_compromiseNotice = Some (1699999999999, True)\<rparr> = Accepted (env, False)"
proof -
  let ?env = "\<lambda>sig. \<lparr>re_commitment = sample_commitment, re_signature = sig\<rparr>"
  obtain sig where acc: "verifyReceiptPLive pad_sha any_ed (sample_args 1700000000001) = Accepted (?env sig)" by (rule sample_accepted [of 1700000000001]) simp_all
  then obtain bytes where b: "b64urlDecode (pl_headerValue (sample_args 1700000000001)) = Some bytes"
    unfolding live_accepts_iff by (auto simp: decodeReceiptHeader_def split: option.splits)
  let ?audit = "\<lparr>va_envelopeBytes = bytes, va_requestCanon = [1], va_responseBody = [2], va_responseHeaders = [],
     va_archivalPubkey = replicate 32 0, va_expectedActorFp = replicate 32 9, va_compromiseNotice = Some (1699999999999, True)\<rparr>"
  have same: "va_requestCanon ?audit = pl_requestCanon (sample_args 1700000000001)" "va_responseBody ?audit = pl_responseBody (sample_args 1700000000001)"
    "va_responseHeaders ?audit = pl_responseHeaders (sample_args 1700000000001)" "va_expectedActorFp ?audit = pl_expectedActorFp (sample_args 1700000000001)"
    "pl_resolvePubkey (sample_args 1700000000001) (rc_epoch (re_commitment (?env sig))) = Some (va_archivalPubkey ?audit)"
    "b64urlDecode (pl_headerValue (sample_args 1700000000001)) = Some (va_envelopeBytes ?audit)"
    using b by (simp_all add: sample_args_def)
  note audits = archived_receipt_audits [OF same(6,1-5)]
  obtain v where v: "verifyReceiptVArchival pad_sha any_ed ?audit = Accepted (?env sig, v)" using audits acc by blast
  then have "\<not> v" using audits [of pad_sha any_ed v] by (simp add: sample_commitment_def)
  then show ?thesis using v by auto
qed

definition sample_open :: StreamOpenCommitment where
  "sample_open = \<lparr>so_nonce = replicate 16 3, so_requestHash = pad_sha [1], so_status = 200, so_streamMode = Sse, so_streamId = replicate 16 5,
     so_timestampMs = 1700000000000, so_actorFp = replicate 32 9, so_epoch = 7\<rparr>"

definition sample_close :: "bytes \<Rightarrow> bytes \<Rightarrow> StreamCloseCommitment" where
  "sample_close oh tip = \<lparr>sc_streamId = replicate 16 5, sc_openCommitmentHash = oh, sc_tipHash = tip, sc_eventCount = 0, sc_closeStatus = Close_ok,
     sc_timestampMs = 1700000000000\<rparr>"

theorem stream_close_binds_events_witness:
  "\<exists>oargs oenv oh cargs cenv. verifyStreamOpen pad_sha any_ed oargs = Accepted (oenv, oh) \<and> verifyStreamClose any_ed cargs = Accepted cenv \<and>
     soe_commitment oenv = sample_open"
proof -
  have ok: "stream_open_ok sample_open"
    by (simp add: stream_open_ok_def sample_open_def pad_sha_def head_ok_def safe_uint_def to_number_small)
  obtain hdr envb sig canon where o: "signStreamOpenToHeader pad_sha sample_open zero_signer = Inr (hdr, envb, sig, pad_sha canon)"
      "encodeStreamOpenCommitment sample_open = Inr canon"
    using signed_stream_open [OF ok sample_crypto(2)] by blast
  define oargs where "oargs = \<lparr>sv_headerValue = hdr, sv_expectedActorFp = replicate 32 9, sv_currentEpoch = 7, sv_prevEpoch = None,
     sv_resolvePubkey = (\<lambda>n. Some (replicate 32 0)), sv_expectedNonce = replicate 16 3, sv_requestCanon = [1], sv_nowMs = 1700000000000\<rparr>"
  have acc: "verifyStreamOpen pad_sha any_ed oargs = Accepted (\<lparr>soe_commitment = sample_open, soe_signature = sig\<rparr>, pad_sha canon)"
    by (rule stream_open_verifies [OF ok sample_crypto(2) o(1)]) (simp_all add: oargs_def sample_open_def zero_signer_def)
  let ?c = "sample_close (pad_sha canon) (pad_sha canon)"
  have cok: "stream_close_ok ?c"
    by (simp add: stream_close_ok_def sample_close_def pad_sha_def head_ok_def safe_uint_def to_number_small)
  obtain payload cb csig where c: "signStreamCloseToEventPayload ?c zero_signer = Inr (payload, cb, csig)"
    using signed_stream_close [OF cok sample_crypto(2)] by blast
  define cargs where "cargs = \<lparr>cv_payload = payload, cv_expectedOpenCommitmentHash = pad_sha canon, cv_expectedTipHash = pad_sha canon, cv_pubkey = replicate 32 0\<rparr>"
  have cacc: "verifyStreamClose any_ed cargs = Accepted \<lparr>sce_commitment = ?c, sce_signature = csig\<rparr>"
    by (rule stream_close_verifies [OF cok sample_crypto(2) c]) (simp_all add: cargs_def sample_close_def zero_signer_def)
  have "[] = ([] :: bytes list) \<and> soe_commitment \<lparr>soe_commitment = sample_open, soe_signature = sig\<rparr> = sample_open"
    by (rule stream_close_binds_events [OF acc cacc _ _ ok o(2) _ _ sample_crypto(1), where seen = "[]" and sent = "[]"])
      (use o(2) in \<open>auto simp: cargs_def sample_close_def events_short_def\<close>)
  then show ?thesis using acc cacc by (intro exI conjI) auto
qed

end
