(* ===== verification/Canonical_Json.thy ===== *)
theory Canonical_Json
  imports Js_Json
begin

text \<open>
  Canonical JSON (\<open>src/storage/canonical.ts\<close>): \<open>stringify\<close> with sorted keys, over the JSON values of
  \<open>Js_Json\<close>, and the string quoting of \<open>JSON.stringify\<close> it uses. \<open>json_parse\<close> is \<open>JSON.parse\<close> on
  documents whose numbers are integers; its fuel is the length of the text plus one, and every nested
  call has consumed a character. \<open>Array#sort\<close> on strings is the order of the UTF-16 units.
\<close>

section \<open>Quoting\<close>

definition hex4 :: "jschar \<Rightarrow> jsstr" where
  "hex4 c = (let n = unat c in
     [hex_digit (n div 4096), hex_digit (n div 256 mod 16), hex_digit (n div 16 mod 16), hex_digit (n mod 16)])"

definition escape_unit :: "jschar \<Rightarrow> jsstr" where
  "escape_unit c =
     (if c = 8 then js [CHR 0x5C, CHR ''b'']
      else if c = 9 then js [CHR 0x5C, CHR ''t'']
      else if c = 10 then js [CHR 0x5C, CHR ''n'']
      else if c = 12 then js [CHR 0x5C, CHR ''f'']
      else if c = 13 then js [CHR 0x5C, CHR ''r'']
      else if c = 34 then js [CHR 0x5C, CHR 0x22]
      else if c = 92 then js [CHR 0x5C, CHR 0x5C]
      else if unat c < 32 then js [CHR 0x5C, CHR ''u''] @ hex4 c
      else [c])"

text \<open>\<open>JSON.stringify\<close> of a string: a surrogate that is not half of a pair is escaped too.\<close>

fun escape :: "jsstr \<Rightarrow> jsstr" where
  "escape [] = []"
| "escape [c] = (if is_hi c \<or> is_lo c then js [CHR 0x5C, CHR ''u''] @ hex4 c else escape_unit c)"
| "escape (c # d # s) =
     (if is_hi c \<and> is_lo d then c # d # escape s
      else if is_hi c \<or> is_lo c then js [CHR 0x5C, CHR ''u''] @ hex4 c @ escape (d # s)
      else escape_unit c @ escape (d # s))"

definition json_quote :: "jsstr \<Rightarrow> jsstr" where
  "json_quote s = [34] @ escape s @ [34]"

section \<open>Canonical serialization\<close>

fun stringify :: "json \<Rightarrow> jsstr" where
  "stringify JNull = js ''null''"
| "stringify (JBool b) = (if b then js ''true'' else js ''false'')"
| "stringify (JNum n) = dec_of_int n"
| "stringify (JStr s) = json_quote s"
| "stringify (JArr vs) = js ''['' @ join_with (js '','') (map stringify vs) @ js '']''"
| "stringify (JObj ps) =
     [123] @ join_with (js '','') (map snd (sort_key fst (map (\<lambda>(k, v). (k, json_quote k @ js '':'' @ stringify v)) ps))) @ [125]"

text \<open>\<open>JSON.stringify\<close> without a replacer: the same with the keys in property order.\<close>

fun json_text :: "json \<Rightarrow> jsstr" where
  "json_text JNull = js ''null''"
| "json_text (JBool b) = (if b then js ''true'' else js ''false'')"
| "json_text (JNum n) = dec_of_int n"
| "json_text (JStr s) = json_quote s"
| "json_text (JArr vs) = js ''['' @ join_with (js '','') (map json_text vs) @ js '']''"
| "json_text (JObj ps) = [123] @ join_with (js '','') (map (\<lambda>(k, v). json_quote k @ js '':'' @ json_text v) ps) @ [125]"

definition canonical :: "json \<Rightarrow> bytes" where
  "canonical value = utf8_encode (stringify value)"

definition digestBytes :: "(bytes \<Rightarrow> bytes) \<Rightarrow> bytes \<Rightarrow> jsstr" where
  "digestBytes sha bytes = to_hex (sha bytes)"

definition digestValue :: "(bytes \<Rightarrow> bytes) \<Rightarrow> json \<Rightarrow> jsstr" where
  "digestValue sha value = digestBytes sha (canonical value)"

section \<open>Parsing\<close>

definition hex_value :: "jschar \<Rightarrow> nat option" where
  "hex_value c = (let n = unat c in
     if 48 \<le> n \<and> n \<le> 57 then Some (n - 48)
     else if 97 \<le> n \<and> n \<le> 102 then Some (n - 87)
     else if 65 \<le> n \<and> n \<le> 70 then Some (n - 55) else None)"

definition unescape_simple :: "jschar \<Rightarrow> jschar option" where
  "unescape_simple c =
     (if c = 98 then Some 8 else if c = 116 then Some 9 else if c = 110 then Some 10 else if c = 102 then Some 12
      else if c = 114 then Some 13 else if c = 34 \<or> c = 92 \<or> c = 47 then Some c else None)"

text \<open>The body of a string up to its closing quote, with the rest of the text.\<close>

fun parse_string :: "jsstr \<Rightarrow> (jsstr \<times> jsstr) option" where
  "parse_string [] = None"
| "parse_string (c # s) =
     (if c = 34 then Some ([], s)
      else if c = 92 then
        (case s of
           [] \<Rightarrow> None
         | e # t \<Rightarrow>
             if e = 117 then
               (case t of
                  h1 # h2 # h3 # h4 # u \<Rightarrow>
                    (case (hex_value h1, hex_value h2, hex_value h3, hex_value h4) of
                       (Some a, Some b, Some d, Some e') \<Rightarrow>
                         map_option (\<lambda>(x, r). (of_nat (a * 4096 + b * 256 + d * 16 + e') # x, r)) (parse_string u)
                     | _ \<Rightarrow> None)
                | _ \<Rightarrow> None)
             else case unescape_simple e of
                    None \<Rightarrow> None
                  | Some d \<Rightarrow> map_option (\<lambda>(x, r). (d # x, r)) (parse_string t))
      else if unat c < 32 then None
      else map_option (\<lambda>(x, r). (c # x, r)) (parse_string s))"

definition json_ws :: "jschar \<Rightarrow> bool" where
  "json_ws c = (c = 32 \<or> c = 9 \<or> c = 10 \<or> c = 13)"

definition skip_ws :: "jsstr \<Rightarrow> jsstr" where
  "skip_ws s = dropWhile json_ws s"

definition parse_number :: "jsstr \<Rightarrow> (json \<times> jsstr) option" where
  "parse_number s =
     (let (neg, t) = (case s of c # r \<Rightarrow> if c = 45 then (True, r) else (False, s) | [] \<Rightarrow> (False, []));
          ds = takeWhile dec_digit t; r = dropWhile dec_digit t
      in if ds = [] \<or> (hd ds = 48 \<and> length ds > 1) \<or> (r \<noteq> [] \<and> (hd r = 46 \<or> hd r = 101 \<or> hd r = 69)) then None
         else Some (JNum (if neg then - digits_value ds else digits_value ds), r))"

definition set_prop :: "(jsstr \<times> json) list \<Rightarrow> jsstr \<Rightarrow> json \<Rightarrow> (jsstr \<times> json) list" where
  "set_prop ps k v = (if k \<in> fst ` set ps then map (\<lambda>(a, b). if a = k then (a, v) else (a, b)) ps else ps @ [(k, v)])"

fun parse_value :: "nat \<Rightarrow> jsstr \<Rightarrow> (json \<times> jsstr) option"
  and parse_items :: "nat \<Rightarrow> jsstr \<Rightarrow> (json list \<times> jsstr) option"
  and parse_members :: "nat \<Rightarrow> (jsstr \<times> json) list \<Rightarrow> jsstr \<Rightarrow> (json \<times> jsstr) option" where
  "parse_value 0 s = None"
| "parse_value (Suc n) s =
     (let t = skip_ws s in
      if starts_with t (js ''null'') then Some (JNull, drop 4 t)
      else if starts_with t (js ''true'') then Some (JBool True, drop 4 t)
      else if starts_with t (js ''false'') then Some (JBool False, drop 5 t)
      else case t of
        [] \<Rightarrow> None
      | c # r \<Rightarrow>
          if c = 34 then map_option (\<lambda>(x, u). (JStr x, u)) (parse_string r)
          else if c = 91 then
            (case skip_ws r of
               d # u \<Rightarrow> if d = 93 then Some (JArr [], u) else map_option (\<lambda>(vs, w). (JArr vs, w)) (parse_items n r)
             | [] \<Rightarrow> None)
          else if c = 123 then
            (case skip_ws r of
               d # u \<Rightarrow> if d = 125 then Some (JObj [], u) else parse_members n [] r
             | [] \<Rightarrow> None)
          else parse_number t)"
| "parse_items 0 s = None"
| "parse_items (Suc n) s =
     (case parse_value n s of
        None \<Rightarrow> None
      | Some (v, r) \<Rightarrow>
          (case skip_ws r of
             c # u \<Rightarrow>
               if c = 44 then map_option (\<lambda>(vs, w). (v # vs, w)) (parse_items n u)
               else if c = 93 then Some ([v], u) else None
           | [] \<Rightarrow> None))"
| "parse_members 0 ps s = None"
| "parse_members (Suc n) ps s =
     (case skip_ws s of
        q # t \<Rightarrow>
          if q \<noteq> 34 then None
          else (case parse_string t of
            None \<Rightarrow> None
          | Some (k, r) \<Rightarrow>
              (case skip_ws r of
                 c # u \<Rightarrow>
                   if c \<noteq> 58 then None
                   else (case parse_value n u of
                     None \<Rightarrow> None
                   | Some (v, w) \<Rightarrow>
                       (case skip_ws w of
                          d # x \<Rightarrow>
                            if d = 44 then parse_members n (set_prop ps k v) x
                            else if d = 125 then Some (JObj (set_prop ps k v), x) else None
                        | [] \<Rightarrow> None))
               | [] \<Rightarrow> None))
      | [] \<Rightarrow> None)"

definition json_parse :: "jsstr \<Rightarrow> json option" where
  "json_parse s =
     (case parse_value (Suc (length s)) s of
        Some (v, r) \<Rightarrow> if skip_ws r = [] then Some v else None
      | None \<Rightarrow> None)"


section \<open>Strings\<close>

lemma hex_value_digit: "n < 16 \<Longrightarrow> hex_value (hex_digit n) = Some n"
proof -
  assume "n < 16"
  moreover have "list_all (\<lambda>n. hex_value (hex_digit n) = Some n) [0..<16]"
    by code_simp
  ultimately show ?thesis by (simp add: list_all_iff)
qed

lemma hex4_value:
  "n div 4096 * 4096 + n div 256 mod 16 * 256 + n div 16 mod 16 * 16 + n mod 16 = (n :: nat)"
proof -
  have "n div 256 = n div 4096 * 16 + n div 256 mod 16" using div_mult_mod_eq [of "n div 256" 16] by (simp add: div_mult2_eq [symmetric])
  moreover have "n div 16 = n div 256 * 16 + n div 16 mod 16" using div_mult_mod_eq [of "n div 16" 16] by (simp add: div_mult2_eq [symmetric])
  moreover have "n = n div 16 * 16 + n mod 16" by simp
  ultimately show ?thesis by linarith
qed

lemma parse_hex4:
  "parse_string (92 # 117 # hex4 c @ t) = map_option (\<lambda>(x, r). (c # x, r)) (parse_string t)"
proof -
  have b: "unat c div 4096 < 16" using unat_jschar [of c] by (simp add: less_mult_imp_div_less)
  have "parse_string (92 # 117 # hex4 c @ t) =
      map_option (\<lambda>(x, r). (of_nat (unat c div 4096 * 4096 + unat c div 256 mod 16 * 256 + unat c div 16 mod 16 * 16 + unat c mod 16) # x, r)) (parse_string t)"
    using b by (simp add: hex4_def Let_def hex_value_digit)
  then show ?thesis by (simp only: hex4_value word_of_nat_unat)
qed

lemma parse_verbatim:
  "c \<noteq> 34 \<Longrightarrow> c \<noteq> 92 \<Longrightarrow> \<not> unat c < 32 \<Longrightarrow> parse_string (c # t) = map_option (\<lambda>(x, r). (c # x, r)) (parse_string t)"
  by simp

lemma parse_unit: "parse_string (escape_unit c @ t) = map_option (\<lambda>(x, r). (c # x, r)) (parse_string t)"
proof (cases "c \<in> {8, 9, 10, 12, 13, 34, 92}")
  case True
  then show ?thesis by (elim insertE) (simp_all add: escape_unit_def unescape_simple_def)
next
  case False
  then show ?thesis using parse_hex4 [of c t] parse_verbatim [of c t]
    by (auto simp: escape_unit_def simp del: parse_string.simps)
qed

lemma surrogate_verbatim: "is_hi c \<or> is_lo c \<Longrightarrow> c \<noteq> 34 \<and> c \<noteq> 92 \<and> \<not> unat c < 32"
  by (auto simp: is_hi_def is_lo_def)

lemma parse_escape: "parse_string (escape s @ 34 # r) = Some (s, r)"
proof (induction s rule: escape.induct)
  case (2 c)
  then show ?case using parse_hex4 [of c "34 # r"] parse_unit [of c "34 # r"] by (auto simp del: parse_string.simps(2)) (simp_all)
next
  case (3 c d s)
  consider "is_hi c \<and> is_lo d" | "\<not> (is_hi c \<and> is_lo d)" "is_hi c \<or> is_lo c" | "\<not> is_hi c" "\<not> is_lo c" by blast
  then show ?case
  proof cases
    case 1
    then show ?thesis using 3(1) surrogate_verbatim [of c] surrogate_verbatim [of d]
      by (simp add: parse_verbatim del: parse_string.simps)
  next
    case 2
    then show ?thesis using 3(2) parse_hex4 [of c "escape (d # s) @ 34 # r"] by (auto simp del: parse_string.simps)
  next
    case 3
    then show ?thesis using "3.IH"(3) parse_unit [of c "escape (d # s) @ 34 # r"] by (simp del: parse_string.simps)
  qed
qed simp


section \<open>The parser reads what the serializer writes\<close>

definition delim :: "jsstr \<Rightarrow> bool" where
  "delim r = (r = [] \<or> hd r \<in> {44, 93, 125})"

fun distinct_keys :: "json \<Rightarrow> bool" where
  "distinct_keys (JArr vs) = list_all distinct_keys vs"
| "distinct_keys (JObj ps) = (distinct (map fst ps) \<and> list_all (\<lambda>(k, v). distinct_keys v) ps)"
| "distinct_keys _ = True"

fun sorted_keys :: "json \<Rightarrow> bool" where
  "sorted_keys (JArr vs) = list_all sorted_keys vs"
| "sorted_keys (JObj ps) = (sorted_wrt (<) (map fst ps) \<and> list_all (\<lambda>(k, v). sorted_keys v) ps)"
| "sorted_keys _ = True"

fun norm :: "json \<Rightarrow> json" where
  "norm (JArr vs) = JArr (map norm vs)"
| "norm (JObj ps) = JObj (sort_key fst (map (\<lambda>(k, v). (k, norm v)) ps))"
| "norm v = v"

lemma dec_digits_lead: "hd (dec_digits n) = 48 \<Longrightarrow> length (dec_digits n) = 1"
proof (induction n rule: dec_digits.induct)
  case (1 n)
  show ?case
  proof (cases "n < 10")
    case True
    then show ?thesis by (subst dec_digits.simps) simp
  next
    case False
    then have "dec_digits n = dec_digits (n div 10) @ [of_nat (48 + n mod 10)]" by (subst dec_digits.simps) simp
    moreover from this have "hd (dec_digits (n div 10)) = 48" using 1(2) dec_digits_nonempty by simp
    then have "length (dec_digits (n div 10)) = 1" using 1(1) False by simp
    then have "dec_digits (n div 10) = [48]" using \<open>hd (dec_digits (n div 10)) = 48\<close>
      by (cases "dec_digits (n div 10)") auto
    then have "int (n div 10) = 0" using digits_value_dec [of "n div 10"] by (simp add: digits_value_def)
    then show ?thesis using False by simp
  qed
qed

lemma parse_digits:
  "delim r \<Longrightarrow> takeWhile dec_digit (dec_digits n @ r) = dec_digits n \<and> dropWhile dec_digit (dec_digits n @ r) = r"
  using dec_digits_range [of n]
  by (cases r) (auto simp: delim_def dec_digit_def takeWhile_append2 dropWhile_append2 takeWhile_append1)

lemma parse_number_dec: "delim r \<Longrightarrow> parse_number (dec_of_int n @ r) = Some (JNum n, r)"
proof -
  assume d: "delim r"
  define D where "D = dec_digits (nat \<bar>n\<bar>)"
  have r: "\<not> (r \<noteq> [] \<and> (hd r = 46 \<or> hd r = 101 \<or> hd r = 69))" using d by (auto simp: delim_def)
  have l: "\<not> (D = [] \<or> hd D = 48 \<and> length D > 1)"
    using dec_digits_lead [of "nat \<bar>n\<bar>"] dec_digits_nonempty by (auto simp: D_def)
  have t: "takeWhile dec_digit (D @ r) = D" "dropWhile dec_digit (D @ r) = r" using parse_digits [OF d] by (auto simp: D_def)
  have v: "digits_value D = \<bar>n\<bar>" by (simp add: D_def digits_value_dec)
  have s: "(case D @ r of c # r' \<Rightarrow> if c = 45 then (True, r') else (False, D @ r) | [] \<Rightarrow> (False, [])) = (False, D @ r)"
    using dec_digits_range [of "nat \<bar>n\<bar>"] l by (cases D) (auto simp: D_def)
  show ?thesis
  proof (cases "n < 0")
    case True
    then have "dec_of_int n = 45 # D" by (simp add: dec_of_int_def D_def)
    then show ?thesis using True r l by (simp add: parse_number_def t v del: dropWhile_eq_Nil_conv)
  next
    case False
    then have "dec_of_int n = D" by (simp add: dec_of_int_def D_def)
    then show ?thesis using False r l s by (simp add: parse_number_def t v del: dropWhile_eq_Nil_conv)
  qed
qed


definition reads :: "json \<Rightarrow> bool" where
  "reads v = (\<forall>n r. length (json_text v) \<le> n \<longrightarrow> delim r \<longrightarrow> parse_value n (json_text v @ r) = Some (v, r))"

lemma json_text_start:
  "\<exists>c s. json_text v = c # s \<and> \<not> json_ws c \<and> c \<notin> {44, 58, 93, 125}"
proof (cases v)
  case (JNum n)
  obtain c cs where c: "dec_digits (nat \<bar>n\<bar>) = c # cs" using dec_digits_nonempty by (cases "dec_digits (nat \<bar>n\<bar>)") auto
  then have "48 \<le> unat c" "unat c \<le> 57" using dec_digits_range [of "nat \<bar>n\<bar>"] by auto
  then show ?thesis using JNum c by (cases "n < 0") (auto simp: dec_of_int_def json_ws_def)
qed (auto simp: json_ws_def json_quote_def)

lemma skip_ws_json_text: "skip_ws (json_text v @ r) = json_text v @ r"
  using json_text_start [of v] by (auto simp: skip_ws_def)

lemma skip_ws_plain [simp]: "\<not> json_ws c \<Longrightarrow> skip_ws (c # s) = c # s"
  by (simp add: skip_ws_def)

lemma plain_marks [simp]: "\<not> json_ws 44" "\<not> json_ws 93" "\<not> json_ws 125" "\<not> json_ws 34" "\<not> json_ws 58" "\<not> json_ws 123" "\<not> json_ws 91"
  by (simp_all add: json_ws_def)

lemma join_cons: "xs \<noteq> [] \<Longrightarrow> join_with sep (x # xs) = x @ sep @ join_with sep xs"
  by (cases xs) auto

lemma items_read:
  assumes "\<forall>v \<in> set vs. reads v" "vs \<noteq> []" "length (join_with [44] (map json_text vs)) < n"
  shows "parse_items n (join_with [44] (map json_text vs) @ 93 # r) = Some (vs, r)"
  using assms
proof (induction vs arbitrary: n)
  case (Cons v vs)
  obtain m where n: "n = Suc m" using Cons.prems(3) by (cases n) auto
  show ?case
  proof (cases "vs = []")
    case True
    then have "parse_value m (json_text v @ 93 # r) = Some (v, 93 # r)"
      using Cons.prems n by (simp add: reads_def delim_def)
    then show ?thesis using True n by simp
  next
    case False
    let ?j = "join_with [44] (map json_text vs)"
    have j: "join_with [44] (map json_text (v # vs)) = json_text v @ 44 # ?j"
      using False by (simp add: join_cons)
    then have "length (json_text v) \<le> m" "length ?j < m" using Cons.prems(3) n by auto
    moreover from this have "parse_value m (json_text v @ 44 # ?j @ 93 # r) = Some (v, 44 # ?j @ 93 # r)"
      using Cons.prems by (simp add: reads_def delim_def)
    ultimately show ?thesis using Cons.IH [of m] Cons.prems(1) False j n by simp
  qed
qed simp

definition member :: "jsstr \<times> json \<Rightarrow> jsstr" where
  "member p = json_quote (fst p) @ 58 # json_text (snd p)"

lemma members_read:
  assumes "\<forall>p \<in> set qs. reads (snd p)" "qs \<noteq> []" "length (join_with [44] (map member qs)) < n" "distinct (map fst (ps @ qs))"
  shows "parse_members n ps (join_with [44] (map member qs) @ 125 # r) = Some (JObj (ps @ qs), r)"
  using assms
proof (induction qs arbitrary: n ps)
  case (Cons q qs)
  obtain k v where q: "q = (k, v)" by force
  obtain m where n: "n = Suc m" using Cons.prems(3) by (cases n) auto
  have s: "set_prop ps k v = ps @ [q]" using Cons.prems(4) q by (auto simp: set_prop_def)
  have mq: "member q = 34 # escape k @ 34 # 58 # json_text v" using q by (simp add: member_def json_quote_def)
  have p: "parse_string (escape k @ 34 # 58 # json_text v @ t) = Some (k, 58 # json_text v @ t)" for t
    by (rule parse_escape)
  show ?case
  proof (cases "qs = []")
    case True
    then have "parse_value m (json_text v @ 125 # r) = Some (v, 125 # r)"
      using Cons.prems n q by (simp add: reads_def delim_def member_def)
    then show ?thesis using True n q p [of "125 # r"] s by (simp add: member_def json_quote_def)
  next
    case False
    let ?j = "join_with [44] (map member qs)"
    have j: "join_with [44] (map member (q # qs)) = member q @ 44 # ?j"
      using False by (simp add: join_cons)
    then have "length (json_text v) \<le> m" "length ?j < m" using Cons.prems(3) n mq by auto
    moreover from this have "parse_value m (json_text v @ 44 # ?j @ 125 # r) = Some (v, 44 # ?j @ 125 # r)"
      using Cons.prems q by (simp add: reads_def delim_def)
    ultimately show ?thesis using Cons.IH [of m "ps @ [q]"] Cons.prems(1,4) False j n q s p [of "44 # ?j @ 125 # r"]
      by (simp add: mq [unfolded q])
  qed
qed simp

lemma keyword_reads:
  "parse_value (Suc n) (js ''null'' @ r) = Some (JNull, r)"
  "parse_value (Suc n) (js ''true'' @ r) = Some (JBool True, r)"
  "parse_value (Suc n) (js ''false'' @ r) = Some (JBool False, r)"
  by (simp_all add: skip_ws_def json_ws_def starts_with_def)

lemma quote_reads: "parse_value (Suc n) (json_quote s @ r) = Some (JStr s, r)"
  using parse_escape [of s r] by (simp add: json_quote_def starts_with_def)

lemma number_reads: "delim r \<Longrightarrow> parse_value (Suc m) (dec_of_int n @ r) = Some (JNum n, r)"
proof -
  assume d: "delim r"
  obtain c cs where c: "dec_of_int n @ r = c # cs" using dec_digits_nonempty by (cases "dec_of_int n @ r") (auto simp: dec_of_int_def split: if_splits)
  then have "c = 45 \<or> 48 \<le> unat c \<and> unat c \<le> 57" 
    using dec_digits_range [of "nat n"] dec_digits_nonempty [of "nat n"] by (auto simp: dec_of_int_def hd_append split: if_splits dest!: arg_cong [where f = hd])
  then have "\<not> json_ws c" "c \<notin> {110, 116, 102, 34, 91, 123}" by (auto simp: json_ws_def)
  then show ?thesis using parse_number_dec [OF d, of n] c by (auto simp: starts_with_def)
qed


lemma json_text_obj: "json_text (JObj ps) = 123 # join_with [44] (map member ps) @ [125]"
  by (simp add: member_def [abs_def] case_prod_unfold)

lemma readsI:
  assumes "\<And>m r. length (json_text v) \<le> Suc m \<Longrightarrow> delim r \<Longrightarrow> parse_value (Suc m) (json_text v @ r) = Some (v, r)"
  shows "reads v"
  unfolding reads_def
proof (intro allI impI)
  fix n r assume "length (json_text v) \<le> n" "delim r"
  then show "parse_value n (json_text v @ r) = Some (v, r)"
    using assms [of "n - 1" r] json_text_start [of v] by (cases n) auto
qed

lemma leaf_reads: "reads JNull" "reads (JBool b)" "reads (JNum n)" "reads (JStr s)"
proof -
  show "reads JNull" using keyword_reads(1) by (intro readsI) (simp only: json_text.simps)
  show "reads (JBool b)" using keyword_reads(2,3) by (intro readsI) (cases b; simp only: json_text.simps if_True if_False)
  show "reads (JNum n)" using number_reads by (intro readsI) (simp only: json_text.simps)
  show "reads (JStr s)" using quote_reads by (intro readsI) (simp only: json_text.simps)
qed

lemma json_text_reads: "distinct_keys v \<Longrightarrow> reads v"
proof (induction v rule: distinct_keys.induct)
  case (1 vs)
  have e: "\<forall>v \<in> set vs. reads v" using 1 by (auto simp: list_all_iff)
  show ?case
  proof (cases "vs = []")
    case True
    then show ?thesis by (intro readsI) (simp add: starts_with_def)
  next
    case False
    have "parse_value n (json_text (JArr vs) @ r) = Some (JArr vs, r)"
      if n: "length (json_text (JArr vs)) \<le> n" for n r
    proof -
      let ?j = "join_with [44] (map json_text vs)"
      obtain m where m: "n = Suc m" "length ?j < m" using n by (cases n) auto
      obtain c s where c: "?j = c # s" "\<not> json_ws c" "c \<noteq> 93"
        using False json_text_start [of "hd vs"] by (cases vs; cases "tl vs") auto
      then have "skip_ws (?j @ 93 # r) = c # s @ 93 # r" by simp
      then show ?thesis using items_read [OF e False m(2), of r] c(3) m(1) by (simp add: starts_with_def)
    qed
    then show ?thesis by (simp add: reads_def)
  qed
next
  case (2 ps)
  have e: "\<forall>p \<in> set ps. reads (snd p)" using 2 by (fastforce simp: list_all_iff)
  have d: "distinct (map fst ([] @ ps))" using 2(2) by simp
  have s: "json_text (JObj ps) = 123 # join_with [44] (map member ps) @ [125]" by (rule json_text_obj)
  show ?case
  proof (cases "ps = []")
    case True
    then show ?thesis by (intro readsI) (simp add: starts_with_def)
  next
    case False
    have "parse_value n (json_text (JObj ps) @ r) = Some (JObj ps, r)"
      if n: "length (json_text (JObj ps)) \<le> n" for n r
    proof -
      let ?j = "join_with [44] (map member ps)"
      obtain m where m: "n = Suc m" "length ?j < m" using n s by (cases n) auto
      obtain t where t: "?j = 34 # t"
        using False by (cases ps; cases "tl ps") (auto simp: member_def json_quote_def)
      then have "skip_ws (?j @ 125 # r) = 34 # t @ 125 # r" by simp
      then show ?thesis using members_read [OF e False m(2) d, of r] m(1) by (simp add: starts_with_def s del: json_text.simps)
    qed
    then show ?thesis by (simp add: reads_def)
  qed
qed (rule leaf_reads)+


section \<open>The order of the keys is the only thing forgotten\<close>

lemma insort_map:
  "(\<And>x. f (g x) = f' x) \<Longrightarrow> insort_key f (g x) (map g xs) = map g (insort_key f' x xs)"
  by (induction xs) auto

lemma sort_key_map: "(\<And>x. f (g x) = f' x) \<Longrightarrow> sort_key f (map g xs) = map g (sort_key f' xs)"
  by (induction xs) (simp_all add: insort_map)

lemma sort_pairs_map: "sort_key fst (map (\<lambda>(k, v). (k, h k v)) ps) = map (\<lambda>(k, v). (k, h k v)) (sort_key fst ps)"
  by (rule sort_key_map) (simp add: case_prod_beta)

lemma stringify_norm: "stringify (norm v) = stringify v"
proof (induction v rule: norm.induct)
  case (1 vs)
  then show ?case by (simp cong: map_cong)
next
  case (2 ps)
  let ?G = "map (\<lambda>(k, v). (k, json_quote k @ 58 # stringify v))"
  let ?X = "map (\<lambda>(k, v). (k, norm v)) ps"
  have X: "?G ?X = ?G ps" using 2 by auto
  have "sort_key fst (?G (sort_key fst ?X)) = ?G (sort_key fst (sort_key fst ?X))" by (rule sort_pairs_map)
  also have "\<dots> = ?G (sort_key fst ?X)" by (simp add: sort_key_id_if_sorted)
  also have "\<dots> = sort_key fst (?G ps)" unfolding X [symmetric] by (rule sort_pairs_map [symmetric])
  finally show ?case by simp
qed auto

lemma stringify_json_text: "stringify v = json_text (norm v)"
proof (induction v rule: norm.induct)
  case (1 vs)
  then show ?case by (simp cong: map_cong)
next
  case (2 ps)
  let ?G = "map (\<lambda>(k, v). (k, json_quote k @ 58 # json_text v))"
  let ?X = "map (\<lambda>(k, v). (k, norm v)) ps"
  have "map (\<lambda>(k, v). (k, json_quote k @ 58 # stringify v)) ps = ?G ?X" using 2 by auto
  then have "sort_key fst (map (\<lambda>(k, v). (k, json_quote k @ 58 # stringify v)) ps) = ?G (sort_key fst ?X)"
    by (simp add: sort_pairs_map del: map_map)
  then show ?case by (simp add: comp_def case_prod_unfold)
qed auto

lemma sorted_distinct: "sorted_keys v \<Longrightarrow> distinct_keys v"
  by (induction v rule: sorted_keys.induct) (auto simp: list_all_iff strict_sorted_iff)

lemma norm_distinct: "distinct_keys v \<Longrightarrow> sorted_keys (norm v)"
proof (induction v rule: norm.induct)
  case (2 ps)
  have m: "map fst (map (\<lambda>(k, v). (k, norm v)) ps) = map fst ps" by auto
  have "mset (map fst (sort_key fst (map (\<lambda>(k, v). (k, norm v)) ps))) = mset (map fst ps)"
    unfolding m [symmetric] by (simp only: mset_map mset_sort)
  then have "distinct (map fst (sort_key fst (map (\<lambda>(k, v). (k, norm v)) ps)))"
    using 2(2) by (metis distinct_keys.simps(2) mset_eq_imp_distinct_iff)
  moreover have "list_all (\<lambda>(k, v). sorted_keys v) (sort_key fst (map (\<lambda>(k, v). (k, norm v)) ps))"
    using 2 by (auto simp: list_all_iff)
  ultimately show ?case by (simp add: strict_sorted_iff)
qed (auto simp: list_all_iff)

lemma norm_sorted: "sorted_keys v \<Longrightarrow> norm v = v"
proof (induction v rule: norm.induct)
  case (2 ps)
  then have "map (\<lambda>(k, v). (k, norm v)) ps = ps" by (intro map_idI) (auto simp: list_all_iff)
  then show ?case using 2(2) by (simp add: sort_key_id_if_sorted strict_sorted_imp_sorted)
qed (auto simp: list_all_iff intro: map_idI)

lemma json_parse_text: "distinct_keys v \<Longrightarrow> json_parse (json_text v) = Some v"
proof -
  assume "distinct_keys v"
  then have "parse_value (Suc (length (json_text v))) (json_text v @ []) = Some (v, [])"
    using json_text_reads unfolding reads_def by (simp add: delim_def del: parse_value.simps)
  then show ?thesis by (simp add: json_parse_def skip_ws_def del: parse_value.simps)
qed

lemma json_parse_sorted: "sorted_keys v \<Longrightarrow> json_parse (stringify v) = Some v"
  by (simp add: stringify_json_text norm_sorted json_parse_text sorted_distinct)

lemma well_formed_append: "well_formed s \<Longrightarrow> well_formed t \<Longrightarrow> well_formed (s @ t)"
proof (induction s rule: well_formed.induct)
  case (2 c)
  then show ?case by (cases t) auto
qed (auto split: if_splits)

lemma well_formed_ascii: "ascii s \<Longrightarrow> well_formed t \<Longrightarrow> well_formed (s @ t)"
  by (rule well_formed_append [OF ascii_well_formed])

lemma ascii_hex4: "ascii (hex4 c)"
proof -
  have "unat c div 4096 < 16" using unat_jschar [of c] by (simp add: less_mult_imp_div_less)
  then show ?thesis by (simp add: hex4_def Let_def hex_digit_ascii)
qed

lemma well_formed_unit: "\<not> is_hi c \<Longrightarrow> \<not> is_lo c \<Longrightarrow> well_formed (escape_unit c)"
proof (cases "c \<in> {8, 9, 10, 12, 13, 34, 92} \<or> unat c < 32")
  case True
  then have "ascii (escape_unit c)" using ascii_hex4 [of c] by (auto simp: escape_unit_def)
  then show ?thesis by (rule ascii_well_formed)
qed (auto simp: escape_unit_def)

lemma well_formed_escape: "well_formed (escape s)"
proof (induction s rule: escape.induct)
  case (2 c)
  then show ?case using ascii_hex4 [of c] well_formed_unit [of c] ascii_well_formed [of "92 # 117 # hex4 c"] by auto
next
  case (3 c d s)
  have "well_formed (92 # 117 # hex4 c @ escape (d # s))" if "well_formed (escape (d # s))"
    using well_formed_ascii [of "92 # 117 # hex4 c", OF _ that] ascii_hex4 [of c] by simp
  then show ?case using 3 well_formed_append [OF well_formed_unit [of c]] by (simp)
qed simp

lemma well_formed_join:
  "ascii sep \<Longrightarrow> \<forall>x \<in> set xs. well_formed x \<Longrightarrow> well_formed (join_with sep xs)"
  by (induction sep xs rule: join_with.induct) (auto intro: well_formed_append well_formed_ascii)

lemma well_formed_quote: "well_formed (json_quote s)"
  using well_formed_ascii [of "[34]", OF _ well_formed_append [OF well_formed_escape [of s], of "[34]"]]
  by (simp add: json_quote_def is_hi_def is_lo_def)

lemma well_formed_stringify: "well_formed (stringify v)"
proof (induction v rule: stringify.induct)
  case (3 n)
  have "ascii (dec_of_int n)"
    using dec_digits_range by (fastforce simp: dec_of_int_def ascii_def)
  then show ?case by (simp add: ascii_well_formed)
next
  case (5 vs)
  then have "well_formed ([91] @ join_with [44] (map stringify vs) @ [93])"
    by (intro well_formed_append well_formed_join) (auto simp: is_hi_def is_lo_def)
  then show ?case by simp
next
  case (6 ps)
  have "well_formed (json_quote k @ [58] @ stringify v)" if "(k, v) \<in> set ps" for k v
    using that 6 by (intro well_formed_append well_formed_quote) (auto simp: is_hi_def is_lo_def)
  then have "well_formed ([123] @ join_with [44] (map snd (sort_key fst (map (\<lambda>(k, v). (k, json_quote k @ [58] @ stringify v)) ps))) @ [125])"
    by (intro well_formed_append well_formed_join) (auto simp: is_hi_def is_lo_def)
  then show ?case by simp
qed (auto simp: is_hi_def is_lo_def well_formed_quote)

lemma stringify_inject: "distinct_keys a \<Longrightarrow> distinct_keys b \<Longrightarrow> stringify a = stringify b \<longleftrightarrow> norm a = norm b"
  by (metis json_parse_sorted norm_distinct option.inject stringify_norm)

section \<open>Parsed documents have distinct keys\<close>

lemma set_prop_distinct:
  assumes "distinct_keys (JObj ps)" "distinct_keys v"
  shows "distinct_keys (JObj (set_prop ps k v))"
proof (cases "k \<in> fst ` set ps")
  case True
  let ?f = "\<lambda>(a, b). if a = k then (a, v) else (a, b)"
  have m: "map fst (map ?f ps) = map fst ps" by (induction ps) auto
  have "list_all (\<lambda>(k, v). distinct_keys v) (map ?f ps)"
    using assms by (induction ps) (auto split: if_splits)
  moreover have "distinct (map fst (map ?f ps))" unfolding m using assms by simp
  ultimately show ?thesis using True by (simp add: set_prop_def del: map_map)
next
  case False
  then show ?thesis using assms by (simp add: set_prop_def)
qed

lemma parse_value_cases:
  assumes "parse_value (Suc n) s = Some (v, r)"
  obtains (leaf) "v = JNull \<or> (\<exists>b. v = JBool b) \<or> (\<exists>x. v = JStr x) \<or> (\<exists>i. v = JNum i) \<or> v = JArr [] \<or> v = JObj []"
  | (arr) t vs where "v = JArr vs" "parse_items n t = Some (vs, r)"
  | (obj) t where "parse_members n [] t = Some (v, r)"
proof -
  define t where "t = skip_ws s"
  consider "starts_with t (js ''null'')" | "starts_with t (js ''true'')" | "starts_with t (js ''false'')" |
    "\<not> starts_with t (js ''null'')" "\<not> starts_with t (js ''true'')" "\<not> starts_with t (js ''false'')" by blast
  then show ?thesis
  proof cases
    case 4
    then show ?thesis using assms that
      by (cases t) (auto simp: Let_def parse_number_def t_def [symmetric] split: if_splits list.splits simp del: list.map)
  qed (use assms leaf in \<open>auto simp: Let_def t_def [symmetric] simp del: list.map split: if_splits\<close>)
qed

lemma parse_distinct_all:
  "(\<forall>s v r. parse_value n s = Some (v, r) \<longrightarrow> distinct_keys v) \<and>
   (\<forall>s vs r. parse_items n s = Some (vs, r) \<longrightarrow> list_all distinct_keys vs) \<and>
   (\<forall>ps s w r. parse_members n ps s = Some (w, r) \<longrightarrow> distinct_keys (JObj ps) \<longrightarrow> distinct_keys w)"
proof (induction n)
  case (Suc n)
  have V: "parse_value n s = Some (v, r) \<Longrightarrow> distinct_keys v" for s v r using Suc by blast
  have I: "parse_items n s = Some (vs, r) \<Longrightarrow> list_all distinct_keys vs" for s vs r using Suc by blast
  have M: "parse_members n ps s = Some (w, r) \<Longrightarrow> distinct_keys (JObj ps) \<Longrightarrow> distinct_keys w" for ps s w r using Suc by blast
  have v: "distinct_keys v" if "parse_value (Suc n) s = Some (v, r)" for s v r
    using that
  proof (cases rule: parse_value_cases)
    case (arr t vs)
    then show ?thesis using I by simp
  next
    case (obj t)
    then show ?thesis using M [of "[]"] by simp
  qed auto
  have i: "list_all distinct_keys vs" if "parse_items (Suc n) s = Some (vs, r)" for s vs r
    using that by (auto dest!: V I split: if_splits list.splits option.splits)
  have "distinct_keys w" if p: "parse_members (Suc n) ps s = Some (w, r)" and d: "distinct_keys (JObj ps)" for ps s w r
  proof -
    obtain t k q u x y z where x: "parse_value n u = Some (x, y)"
      and w: "parse_members n (set_prop ps k x) z = Some (w, r) \<or> w = JObj (set_prop ps k x)"
      using p by (simp split: if_splits list.splits option.splits prod.splits) blast+
    have "distinct_keys (JObj (set_prop ps k x))" using set_prop_distinct [OF d V [OF x]] .
    then show ?thesis using w M by blast
  qed
  then show ?case using v i by blast
qed simp

lemmas parse_value_distinct = parse_distinct_all [THEN conjunct1, rule_format]

lemma json_parse_distinct: "json_parse s = Some v \<Longrightarrow> distinct_keys v"
  by (auto simp: json_parse_def split: option.splits if_splits simp del: parse_value.simps dest: parse_value_distinct)

lemma get_prop_distinct: "distinct_keys v \<Longrightarrow> get_prop (Some v) name = Some w \<Longrightarrow> distinct_keys w"
  by (auto simp: get_prop_def list_all_iff dest: map_of_SomeD split: json.splits)

section \<open>Properties\<close>

text \<open>Two values have the same canonical bytes exactly when they are the same value up to the order
  of the keys of their objects: the digest of a bead or a manifest is computed over bytes that
  determine it.\<close>

theorem canonical_determines_value:
  assumes "distinct_keys a" "distinct_keys b"
  shows "canonical a = canonical b \<longleftrightarrow> norm a = norm b"
  using assms by (simp add: canonical_def utf8_encode_inject well_formed_stringify stringify_inject)

definition canonical_sample :: json where
  "canonical_sample = JObj [(js ''title'', JStr (js ''a'')), (js ''priority'', JNum 2)]"

definition canonical_reordered :: json where
  "canonical_reordered = JObj [(js ''priority'', JNum 2), (js ''title'', JStr (js ''a''))]"

theorem canonical_determines_value_witness:
  "canonical canonical_sample = canonical canonical_reordered \<and> canonical canonical_sample \<noteq> canonical (JObj [(js ''title'', JStr (js ''a''))])"
  using canonical_determines_value [of canonical_sample canonical_reordered]
    canonical_determines_value [of canonical_sample "JObj [(js ''title'', JStr (js ''a''))]"]
  by (simp add: canonical_sample_def canonical_reordered_def)

text \<open>\<open>JSON.parse\<close> of the canonical text of a value gives the value back with its keys sorted, strings
  with quotes, control characters and lone surrogates included.\<close>

theorem canonical_text_parses:
  assumes "distinct_keys v"
  shows "json_parse (stringify v) = Some (norm v)"
  using json_parse_sorted [OF norm_distinct [OF assms]] by (simp add: stringify_norm)

theorem canonical_text_parses_witness:
  "json_parse (stringify canonical_sample) = Some canonical_reordered"
  using canonical_text_parses [of canonical_sample]
  by (simp add: canonical_sample_def canonical_reordered_def)

end
