(* ===== verification/Origins.thy ===== *)
theory Origins
  imports Canonical_Json "HOL-Library.AList" "HOL-Library.Product_Lexorder"
begin

text \<open>
  Content provenance (\<open>src/wire/origin.ts\<close>) and the origin set of a new bead
  (\<open>buildContentOrigins\<close> of \<open>src/routes/bead-create-orchestrator.ts\<close>). A \<open>Map\<close> is an association list
  in insertion order: \<open>set\<close> on a known key keeps its position and replaces the value. The caught
  exceptions of \<open>JSON.parse\<close> are the \<open>None\<close> of \<open>json_parse\<close>.
\<close>

section \<open>Origins and their union\<close>

record OriginEntry =
  uri :: jsstr
  vouchedBy :: jsstr

type_synonym OriginSet = "OriginEntry list"

datatype Confidence = Origin_attested | Origin_asserted | Origin_unknown

definition CLOISTER_AUTHORITY :: jsstr where
  "CLOISTER_AUTHORITY = js ''cloister/lease-gate''"

definition MAX_DECLARED_ORIGINS :: nat where
  "MAX_DECLARED_ORIGINS = 64"

definition MAX_ORIGIN_URI_LENGTH :: nat where
  "MAX_ORIGIN_URI_LENGTH = 2048"

definition fetchedOrigin :: "jsstr \<Rightarrow> OriginEntry" where
  "fetchedOrigin url = \<lparr>uri = url, vouchedBy = CLOISTER_AUTHORITY\<rparr>"

definition declaredOrigin :: "jsstr \<Rightarrow> jsstr \<Rightarrow> OriginEntry" where
  "declaredOrigin u declaringPeerFp = \<lparr>uri = u, vouchedBy = js ''interlace:peer/'' @ declaringPeerFp\<rparr>"

definition unvouchedOrigin :: "jsstr \<Rightarrow> OriginEntry" where
  "unvouchedOrigin u = \<lparr>uri = u, vouchedBy = []\<rparr>"

definition origin_key :: "OriginEntry \<Rightarrow> jsstr" where
  "origin_key e = uri e @ [0] @ vouchedBy e"

definition unionOrigins :: "OriginSet list \<Rightarrow> OriginSet" where
  "unionOrigins sets =
     (let seen = fold (\<lambda>set' m. fold (\<lambda>entry m. AList.update (origin_key entry) entry m) set' m) sets []
      in sort_key (\<lambda>e. (uri e, vouchedBy e)) (map snd seen))"

definition deriveConfidence :: "OriginSet \<Rightarrow> jsstr set \<Rightarrow> Confidence" where
  "deriveConfidence origins trustedAuthorities =
     (if length origins = 0 then Origin_unknown
      else if list_all (\<lambda>o'. vouchedBy o' \<noteq> [] \<and> vouchedBy o' \<in> trustedAuthorities) origins
      then Origin_attested else Origin_asserted)"

definition mayAttestFully :: "Confidence \<Rightarrow> bool" where
  "mayAttestFully confidence = (confidence = Origin_attested)"

section \<open>Storage\<close>

definition serializeOrigins :: "OriginSet \<Rightarrow> jsstr" where
  "serializeOrigins origins =
     js ''['' @ join_with (js '','') (map (\<lambda>o'.
        [123] @ json_quote (js ''uri'') @ js '':'' @ json_quote (uri o') @ js '','' @
        json_quote (js ''vouchedBy'') @ js '':'' @ json_quote (vouchedBy o') @ [125]) origins) @ js '']''"

definition read_entry :: "json \<Rightarrow> OriginEntry option" where
  "read_entry item =
     (case item of
        JObj ps \<Rightarrow>
          (case (map_of ps (js ''uri''), map_of ps (js ''vouchedBy'')) of
             (Some (JStr u), Some (JStr v)) \<Rightarrow> Some \<lparr>uri = u, vouchedBy = v\<rparr>
           | _ \<Rightarrow> None)
      | _ \<Rightarrow> None)"

definition parseOrigins :: "jsstr option \<Rightarrow> OriginSet" where
  "parseOrigins raw =
     (case raw of
        None \<Rightarrow> []
      | Some s \<Rightarrow>
          if s = [] then []
          else (case json_parse s of
                  Some (JArr value) \<Rightarrow> unionOrigins [List.map_filter read_entry value]
                | _ \<Rightarrow> []))"

definition originsDigest :: "(bytes \<Rightarrow> bytes) \<Rightarrow> OriginSet \<Rightarrow> bytes option" where
  "originsDigest sha256 origins =
     (if length origins = 0 then None else Some (sha256 (utf8_encode (serializeOrigins origins))))"

section \<open>The origins of a new bead\<close>

datatype origin_error =
  Too_many_origins nat
| Origin_too_long nat

definition is_nonempty_string :: "json \<Rightarrow> bool" where
  "is_nonempty_string v = (case v of JStr s \<Rightarrow> s \<noteq> [] | _ \<Rightarrow> False)"

definition string_of_json :: "json \<Rightarrow> jsstr" where
  "string_of_json v = (case v of JStr s \<Rightarrow> s | _ \<Rightarrow> [])"

definition buildContentOrigins :: "(jsstr \<times> json) list \<Rightarrow> jsstr \<Rightarrow> origin_error + OriginSet" where
  "buildContentOrigins toolArgs peerFp =
     (let raw = (case map_of toolArgs (js ''origins'') of Some (JArr vs) \<Rightarrow> vs | _ \<Rightarrow> []) in
      if length raw > MAX_DECLARED_ORIGINS then Inl (Too_many_origins (length raw))
      else let declared = map string_of_json (filter is_nonempty_string raw) in
        case find (\<lambda>u. length u > MAX_ORIGIN_URI_LENGTH) declared of
          Some u \<Rightarrow> Inl (Origin_too_long (length u))
        | None \<Rightarrow> Inr (unionOrigins [map (\<lambda>u. declaredOrigin u peerFp) declared]))"

section \<open>Laws of the union\<close>

lemma union_flat:
  "unionOrigins sets = sort_key (\<lambda>e. (uri e, vouchedBy e)) (map snd (fold (\<lambda>e. AList.update (origin_key e) e) (concat sets) []))"
proof -
  have "fold (\<lambda>s m. fold (\<lambda>e m. AList.update (origin_key e) e m) s m) sets m = fold (\<lambda>e. AList.update (origin_key e) e) (concat sets) m" for m
    by (induction sets arbitrary: m) simp_all
  then show ?thesis by (simp add: unionOrigins_def)
qed

definition plain_authorities :: "OriginEntry list \<Rightarrow> bool" where
  "plain_authorities es = (\<forall>e \<in> set es. 0 \<notin> set (vouchedBy e))"

lemma first_nul:
  "0 \<notin> set b \<Longrightarrow> 0 \<notin> set d \<Longrightarrow> b @ (0 :: jschar) # a = d @ 0 # c \<longleftrightarrow> b = d \<and> a = c"
proof (induction b arbitrary: d)
  case Nil
  then show ?case by (cases d) auto
next
  case (Cons x b)
  then show ?case by (cases d) auto
qed

lemma last_nul:
  "0 \<notin> set b \<Longrightarrow> 0 \<notin> set d \<Longrightarrow> a @ (0 :: jschar) # b = c @ 0 # d \<longleftrightarrow> a = c \<and> b = d"
  using first_nul [of "rev b" "rev d" "rev a" "rev c"] rev_is_rev_conv [of "a @ 0 # b" "c @ 0 # d"] by auto

lemma origin_key_inject:
  "0 \<notin> set (vouchedBy e) \<Longrightarrow> 0 \<notin> set (vouchedBy f) \<Longrightarrow> origin_key e = origin_key f \<longleftrightarrow> e = f"
  by (cases e; cases f) (auto simp: origin_key_def last_nul)

definition map_inv :: "(jsstr \<times> OriginEntry) list \<Rightarrow> bool" where
  "map_inv m = (distinct (map fst m) \<and> (\<forall>(k, e) \<in> set m. k = origin_key e))"

lemma map_inv_update: "map_inv m \<Longrightarrow> map_inv (AList.update (origin_key e) e m)"
  by (induction m) (auto simp: map_inv_def update_keys image_iff split: if_splits)

lemma map_inv_fold: "map_inv m \<Longrightarrow> map_inv (fold (\<lambda>e. AList.update (origin_key e) e) es m)"
  by (induction es arbitrary: m) (simp_all add: map_inv_update)


lemma update_known: "map_of m k = Some e \<Longrightarrow> AList.update k e m = m"
  by (induction m) (auto split: if_splits)

lemma update_new: "map_of m k = None \<Longrightarrow> AList.update k e m = m @ [(k, e)]"
  by (induction m) (auto split: if_splits)

lemma update_separate:
  assumes "map_inv m" "inj_on origin_key (insert e (snd ` set m))"
  shows "map snd (AList.update (origin_key e) e m) = (if e \<in> snd ` set m then map snd m else map snd m @ [e])"
proof (cases "map_of m (origin_key e)")
  case None
  then have "e \<notin> snd ` set m" using assms(1) by (force simp: map_inv_def map_of_eq_None_iff)
  then show ?thesis using None by (simp add: update_new)
next
  case (Some f)
  then have f: "(origin_key e, f) \<in> set m" by (rule map_of_SomeD)
  then have "origin_key e = origin_key f" using assms(1) by (auto simp: map_inv_def)
  moreover have m: "f \<in> snd ` set m" using f by force
  ultimately have "f = e" using inj_onD [OF assms(2), of e f] by simp
  then show ?thesis using Some m by (simp add: update_known)
qed

lemma fold_separate:
  assumes "map_inv m" "inj_on origin_key (set es \<union> snd ` set m)" "distinct (map snd m)"
  shows "distinct (map snd (fold (\<lambda>e. AList.update (origin_key e) e) es m)) \<and>
    snd ` set (fold (\<lambda>e. AList.update (origin_key e) e) es m) = set es \<union> snd ` set m"
  using assms
proof (induction es arbitrary: m)
  case (Cons e es)
  let ?m = "AList.update (origin_key e) e m"
  have u: "map snd ?m = (if e \<in> snd ` set m then map snd m else map snd m @ [e])"
    using Cons.prems by (intro update_separate) (auto intro: inj_on_subset)
  then have "set (map snd ?m) = insert e (set (map snd m))" by (subst u) auto
  then have s: "snd ` set ?m = insert e (snd ` set m)" by simp
  have p: "inj_on origin_key (set es \<union> snd ` set ?m)" using Cons.prems(2) s by simp
  have "distinct (map snd ?m)" using Cons.prems(3) by (subst u) auto
  then show ?case using Cons.IH [of ?m] p s Cons.prems(1) by (simp add: map_inv_update)
qed simp

lemma union_separate:
  assumes "inj_on origin_key (set (concat sets))"
  shows "set (unionOrigins sets) = (\<Union>s \<in> set sets. set s)" "distinct (unionOrigins sets)"
proof -
  have "map_inv []" by (simp add: map_inv_def)
  from fold_separate [OF this, of "concat sets"] assms
  show "set (unionOrigins sets) = (\<Union>s \<in> set sets. set s)" "distinct (unionOrigins sets)"
    by (auto simp: union_flat)
qed

lemma plain_separate: "plain_authorities es \<Longrightarrow> inj_on origin_key (set es)"
  by (auto simp: plain_authorities_def inj_on_def origin_key_inject)

lemmas union_plain = union_separate [OF plain_separate]

lemma declared_separate: "inj_on origin_key ((\<lambda>u. declaredOrigin u fp) ` A)"
  by (auto simp: inj_on_def origin_key_def declaredOrigin_def)

lemma origin_pair_inject: "inj (\<lambda>e :: OriginEntry. (uri e, vouchedBy e))"
  by (auto intro!: injI)

lemma union_sorted: "sorted (map (\<lambda>e. (uri e, vouchedBy e)) (unionOrigins sets))"
  by (simp add: union_flat)

lemma canonical_set_unique:
  assumes "set xs = set ys" "distinct xs" "distinct ys"
    "sorted (map (\<lambda>e :: OriginEntry. (uri e, vouchedBy e)) xs)" "sorted (map (\<lambda>e. (uri e, vouchedBy e)) ys)"
  shows "xs = ys"
  using assms by (intro map_sorted_distinct_set_unique [of "\<lambda>e. (uri e, vouchedBy e)"]) (auto simp: distinct_map intro: inj_on_subset [OF origin_pair_inject])


text \<open>\<open>unionOrigins\<close> loses and invents nothing: the result holds exactly the origins of its
  arguments, once each and in canonical order, so it depends neither on the order of the arguments nor
  on how they overlap. The authorities must not contain U+0000, the separator of the internal key.\<close>

theorem unionOrigins_canonical:
  assumes "plain_authorities (concat sets)"
  shows "set (unionOrigins sets) = (\<Union>s \<in> set sets. set s) \<and> distinct (unionOrigins sets) \<and>
    (\<forall>sets'. (\<Union>s \<in> set sets'. set s) = (\<Union>s \<in> set sets. set s) \<longrightarrow> unionOrigins sets' = unionOrigins sets)"
proof (intro conjI allI impI)
  fix sets' assume e: "(\<Union>s \<in> set sets'. set s) = (\<Union>s \<in> set sets. set s)"
  then have "plain_authorities (concat sets')" using assms by (simp add: plain_authorities_def)
  then show "unionOrigins sets' = unionOrigins sets"
    using assms e by (intro canonical_set_unique) (auto simp: union_plain union_sorted)
qed (use assms in \<open>auto simp: union_plain\<close>)

definition sample_declared :: OriginEntry where
  "sample_declared = declaredOrigin (js ''https://a'') (js ''p1'')"

definition sample_fetched :: OriginEntry where
  "sample_fetched = fetchedOrigin (js ''https://b'')"

theorem unionOrigins_canonical_witness:
  "set (unionOrigins [[sample_fetched, sample_declared], [sample_fetched]]) = {sample_declared, sample_fetched} \<and>
   unionOrigins [[sample_fetched, sample_declared], [sample_fetched]] = [sample_declared, sample_fetched]"
proof -
  have "plain_authorities (concat [[sample_fetched, sample_declared], [sample_fetched]])"
    by (simp add: plain_authorities_def sample_fetched_def sample_declared_def declaredOrigin_def fetchedOrigin_def CLOISTER_AUTHORITY_def)
  from unionOrigins_canonical [OF this] show ?thesis
    by (auto simp: union_flat sample_fetched_def sample_declared_def declaredOrigin_def fetchedOrigin_def CLOISTER_AUTHORITY_def origin_key_def)
qed

text \<open>Composition never launders provenance: a union is fully confident exactly when there is an
  origin at all and every origin of every set is vouched for by an authority the evaluator trusts.\<close>

theorem confidence_of_union:
  assumes "plain_authorities (concat sets)"
  shows "mayAttestFully (deriveConfidence (unionOrigins sets) trusted) \<longleftrightarrow>
    concat sets \<noteq> [] \<and> (\<forall>e \<in> set (concat sets). vouchedBy e \<noteq> [] \<and> vouchedBy e \<in> trusted)"
proof -
  have s: "set (unionOrigins sets) = set (concat sets)" using union_plain(1) [OF assms] by simp
  then have "unionOrigins sets = [] \<longleftrightarrow> concat sets = []" by (metis set_empty)
  then show ?thesis using s by (auto simp: mayAttestFully_def deriveConfidence_def list_all_iff)
qed

theorem confidence_of_union_witness:
  "mayAttestFully (deriveConfidence (unionOrigins [[sample_fetched]]) {CLOISTER_AUTHORITY}) \<and>
   \<not> mayAttestFully (deriveConfidence (unionOrigins [[sample_fetched], [sample_declared]]) {CLOISTER_AUTHORITY})"
  using confidence_of_union [of "[[sample_fetched]]" "{CLOISTER_AUTHORITY}"]
    confidence_of_union [of "[[sample_fetched], [sample_declared]]" "{CLOISTER_AUTHORITY}"]
  by (simp add: plain_authorities_def sample_fetched_def sample_declared_def fetchedOrigin_def declaredOrigin_def CLOISTER_AUTHORITY_def)

section \<open>Storage\<close>

definition entry_json :: "OriginEntry \<Rightarrow> json" where
  "entry_json e = JObj [(js ''uri'', JStr (uri e)), (js ''vouchedBy'', JStr (vouchedBy e))]"

lemma serialize_stringify: "serializeOrigins es = stringify (JArr (map entry_json es))"
  by (simp add: serializeOrigins_def entry_json_def comp_def)

lemma sorted_entries: "sorted_keys (JArr (map entry_json es))"
  by (simp add: list_all_iff entry_json_def)

lemma read_entry_json: "List.map_filter read_entry (map entry_json es) = es"
  by (induction es) (auto simp: read_entry_def entry_json_def List.map_filter_def)

lemma parse_serialize: "parseOrigins (Some (serializeOrigins es)) = unionOrigins [es]"
proof -
  have "json_parse (serializeOrigins es) = Some (JArr (map entry_json es))"
    using json_parse_sorted [OF sorted_entries] by (simp add: serialize_stringify)
  then show ?thesis by (simp add: parseOrigins_def read_entry_json) (simp add: serializeOrigins_def)
qed

text \<open>The stored text gives the origin set back: reading what \<open>serializeOrigins\<close> wrote for a union is
  that union, whatever characters the sources and authorities contain.\<close>

theorem origins_storage_roundtrip:
  assumes "plain_authorities (concat sets)"
  shows "parseOrigins (Some (serializeOrigins (unionOrigins sets))) = unionOrigins sets"
proof -
  have "plain_authorities (concat [unionOrigins sets])"
    using assms union_plain(1) [OF assms] by (auto simp: plain_authorities_def)
  from union_plain [OF this] have "unionOrigins [unionOrigins sets] = unionOrigins sets"
    using assms by (intro canonical_set_unique) (auto simp: union_plain union_sorted)
  then show ?thesis by (simp add: parse_serialize)
qed

theorem origins_storage_roundtrip_witness:
  "parseOrigins (Some (serializeOrigins (unionOrigins [[sample_fetched], [sample_declared]]))) = [sample_declared, sample_fetched]"
  using origins_storage_roundtrip [of "[[sample_fetched], [sample_declared]]"]
  by (simp add: union_flat plain_authorities_def origin_key_def sample_fetched_def sample_declared_def fetchedOrigin_def declaredOrigin_def CLOISTER_AUTHORITY_def)


text \<open>Equal stored texts are equal origin lists, so the digest a receipt carries is taken over
  bytes that determine the set; the empty set has no digest.\<close>

theorem originsDigest_binds:
  "(originsDigest sha es = None \<longleftrightarrow> es = []) \<and>
   (utf8_encode (serializeOrigins es) = utf8_encode (serializeOrigins fs) \<longleftrightarrow> es = fs)"
proof -
  have "serializeOrigins es = serializeOrigins fs \<longleftrightarrow> es = fs"
    using json_parse_sorted [OF sorted_entries, of es] json_parse_sorted [OF sorted_entries, of fs]
    by (metis json.inject(4) option.inject read_entry_json serialize_stringify)
  moreover have "well_formed (serializeOrigins xs)" for xs unfolding serialize_stringify by (rule well_formed_stringify)
  ultimately show ?thesis by (simp add: originsDigest_def utf8_encode_inject)
qed

section \<open>Declared origins\<close>

definition declared_uris :: "(jsstr \<times> json) list \<Rightarrow> jsstr set" where
  "declared_uris toolArgs = {u. u \<noteq> [] \<and> (\<exists>vs. map_of toolArgs (js ''origins'') = Some (JArr vs) \<and> JStr u \<in> set vs)}"

lemma build_cases:
  assumes "buildContentOrigins toolArgs peerFp = Inr os"
  obtains ds where "os = unionOrigins [map (\<lambda>u. declaredOrigin u peerFp) ds]" "set ds = declared_uris toolArgs"
    "length ds \<le> MAX_DECLARED_ORIGINS" "\<forall>u \<in> set ds. length u \<le> MAX_ORIGIN_URI_LENGTH"
proof -
  let ?raw = "case map_of toolArgs (js ''origins'') of Some (JArr vs) \<Rightarrow> vs | _ \<Rightarrow> []"
  let ?ds = "map string_of_json (filter is_nonempty_string ?raw)"
  have l: "length ?raw \<le> MAX_DECLARED_ORIGINS" using assms by (auto simp: buildContentOrigins_def Let_def split: if_splits)
  then have f: "find (\<lambda>u. length u > MAX_ORIGIN_URI_LENGTH) ?ds = None"
    and o: "os = unionOrigins [map (\<lambda>u. declaredOrigin u peerFp) ?ds]"
    using assms by (auto simp: buildContentOrigins_def Let_def split: option.splits)
  have "set ?ds = declared_uris toolArgs"
    by (cases "map_of toolArgs (js ''origins'')")
      (auto simp: declared_uris_def image_iff is_nonempty_string_def string_of_json_def split: json.splits)
  moreover have "length ?ds \<le> MAX_DECLARED_ORIGINS" using order_trans [OF length_filter_le l] by simp
  moreover have "\<forall>u \<in> set ?ds. length u \<le> MAX_ORIGIN_URI_LENGTH" using f unfolding find_None_iff by (metis not_less)
  ultimately show ?thesis using that [OF o] by blast
qed

text \<open>C40: The origin set of a new bead is exactly what the caller declared, attributed to the caller:
  at most 64 sources of at most 2048 characters, none dropped, and the set is fully confident only for
  an evaluator that trusts the declaring peer itself; declaring nothing is never full confidence.\<close>

theorem content_origins_declared:
  assumes "buildContentOrigins toolArgs peerFp = Inr os"
  shows "set os = (\<lambda>u. declaredOrigin u peerFp) ` declared_uris toolArgs \<and> length os \<le> 64 \<and>
    (\<forall>e \<in> set os. length (uri e) \<le> 2048) \<and>
    (mayAttestFully (deriveConfidence os trusted) \<longleftrightarrow> declared_uris toolArgs \<noteq> {} \<and> js ''interlace:peer/'' @ peerFp \<in> trusted)"
proof -
  obtain ds where d: "os = unionOrigins [map (\<lambda>u. declaredOrigin u peerFp) ds]" "set ds = declared_uris toolArgs"
    "length ds \<le> MAX_DECLARED_ORIGINS" "\<forall>u \<in> set ds. length u \<le> MAX_ORIGIN_URI_LENGTH"
    using build_cases [OF assms] .
  have i: "inj_on origin_key (set (concat [map (\<lambda>u. declaredOrigin u peerFp) ds]))" by (simp add: declared_separate)
  have s: "set os = (\<lambda>u. declaredOrigin u peerFp) ` declared_uris toolArgs" using union_separate(1) [OF i] d(1,2) by simp
  have "length os = card (set os)" using union_separate(2) [OF i] d(1) by (simp add: distinct_card)
  also have "\<dots> \<le> card (set ds)" unfolding s d(2) [symmetric] by (rule card_image_le) simp
  finally have l: "length os \<le> 64" using d(3) card_length [of ds] by (simp add: MAX_DECLARED_ORIGINS_def)
  have c: "\<forall>e \<in> set os. vouchedBy e = js ''interlace:peer/'' @ peerFp" unfolding s by (auto simp: declaredOrigin_def)
  have "os = [] \<longleftrightarrow> declared_uris toolArgs = {}" using s by (metis image_is_empty set_empty)
  then have "mayAttestFully (deriveConfidence os trusted) \<longleftrightarrow> declared_uris toolArgs \<noteq> {} \<and> js ''interlace:peer/'' @ peerFp \<in> trusted"
    using c by (cases os) (auto simp: mayAttestFully_def deriveConfidence_def list_all_iff)
  then show ?thesis using s l d(2,4) by (auto simp: MAX_ORIGIN_URI_LENGTH_def declaredOrigin_def)
qed

definition sample_origin_args :: "(jsstr \<times> json) list" where
  "sample_origin_args = [(js ''origins'', JArr [JStr (js ''https://a''), JNum 1, JStr []])]"

theorem content_origins_declared_witness:
  "set (unionOrigins [[declaredOrigin (js ''https://a'') (js ''p1'')]]) = (\<lambda>u. declaredOrigin u (js ''p1'')) ` declared_uris sample_origin_args \<and>
   \<not> mayAttestFully (deriveConfidence (unionOrigins [[declaredOrigin (js ''https://a'') (js ''p1'')]]) {CLOISTER_AUTHORITY})"
proof -
  have b: "buildContentOrigins sample_origin_args (js ''p1'') = Inr (unionOrigins [[declaredOrigin (js ''https://a'') (js ''p1'')]])"
    by (simp add: buildContentOrigins_def sample_origin_args_def MAX_DECLARED_ORIGINS_def MAX_ORIGIN_URI_LENGTH_def
        is_nonempty_string_def string_of_json_def)
  show ?thesis using content_origins_declared [OF b, of "{CLOISTER_AUTHORITY}"] by (simp add: CLOISTER_AUTHORITY_def)
qed

end
