(* ===== verification/CA_Bundle.thy ===== *)
theory CA_Bundle
  imports Js_Json
begin

text \<open>
  Where the lease verifier's trust root comes from: the canonical bytes and signature check of a CA
  bundle (\<open>src/storage/bundle-canonical.ts\<close>), the fetch from notme
  (\<open>src/storage/notme-bundle-fetcher.ts\<close>), the per-isolate cache (\<open>src/storage/ca-bundle-cache.ts\<close>),
  the choice between the dev bundle and the fetched one (\<open>src/storage/ca-bundle-source.ts\<close>) and the
  gate itself (\<open>src/routes/lease-gate.ts\<close>).

  Parameters: \<open>ed\<close> is \<open>importKey\<close> followed by \<open>verify\<close> of Web Crypto for Ed25519 on key, signature
  and message (\<open>Inl\<close> of the message when either throws), \<open>cbor\<close> the third-party \<open>cbor-x\<close> encoder on the bundle's
  six-entry message, and the response of notme.
\<close>

section \<open>The bundle\<close>

record caBundle =
  ca_epoch :: int
  ca_seqno :: int
  ca_keys :: "(jsstr \<times> jsstr) list"
  ca_keyId :: jsstr
  ca_prevKeyId :: "jsstr option"
  ca_issuedAt :: int
  ca_signature :: jsstr

type_synonym ed25519 = "bytes \<Rightarrow> bytes \<Rightarrow> bytes \<Rightarrow> jsstr + bool"
type_synonym bundle_message = "int \<times> int \<times> (jsstr \<times> bytes) list \<times> jsstr \<times> jsstr \<times> int"

definition bc_b64Decode :: "jsstr \<Rightarrow> bytes option" where
  "bc_b64Decode s =
     (let norm = map std_char s;
          pad = (4 - length norm mod 4) mod 4
      in atob (norm @ replicate pad (of_char CHR ''='')))"

fun first_difference :: "bytes \<Rightarrow> bytes \<Rightarrow> int" where
  "first_difference (a # as) (b # bs) = (if a \<noteq> b then uint a - uint b else first_difference as bs)"
| "first_difference _ _ = 0"

definition compare_keys :: "jsstr \<times> bytes \<Rightarrow> jsstr \<times> bytes \<Rightarrow> int" where
  "compare_keys a b =
     (let ab = utf8_encode (fst a); bb = utf8_encode (fst b) in
      if length ab \<noteq> length bb then int (length ab) - int (length bb) else first_difference ab bb)"

definition sortStringKeysCanonical :: "(jsstr \<times> bytes) list \<Rightarrow> (jsstr \<times> bytes) list" where
  "sortStringKeysCanonical entries = sort_by compare_keys entries"

fun decode_entries :: "(jsstr \<times> jsstr) list \<Rightarrow> (jsstr \<times> bytes) list option" where
  "decode_entries [] = Some []"
| "decode_entries ((kid, b64) # es) =
     (case bc_b64Decode b64 of
        None \<Rightarrow> None
      | Some bs \<Rightarrow> map_option (\<lambda>rest. (kid, bs) # rest) (decode_entries es))"

definition bundleCanonical :: "(bundle_message \<Rightarrow> bytes) \<Rightarrow> caBundle \<Rightarrow> bytes option" where
  "bundleCanonical cbor bundle =
     (case decode_entries (ca_keys bundle) of
        None \<Rightarrow> None
      | Some entries \<Rightarrow>
          let keysEntries = sortStringKeysCanonical entries in
          Some (cbor (ca_epoch bundle, ca_seqno bundle, keysEntries, ca_keyId bundle,
                      nullish (ca_prevKeyId bundle) [], ca_issuedAt bundle)))"

definition verifyBundleSignature :: "ed25519 \<Rightarrow> (bundle_message \<Rightarrow> bytes) \<Rightarrow> caBundle \<Rightarrow> jsstr \<Rightarrow> bool" where
  "verifyBundleSignature ed cbor bundle rootPublicKeyB64 =
     (case bc_b64Decode rootPublicKeyB64 of
        None \<Rightarrow> False
      | Some keyBytes \<Rightarrow>
          if length keyBytes \<noteq> 32 then False
          else case bc_b64Decode (ca_signature bundle) of
                 None \<Rightarrow> False
               | Some sig \<Rightarrow>
                   (case bundleCanonical cbor bundle of
                      None \<Rightarrow> False
                    | Some message \<Rightarrow> (case ed keyBytes sig message of Inl _ \<Rightarrow> False | Inr valid \<Rightarrow> valid)))"

section \<open>Fetching\<close>

text \<open>The members of an object whose values are all strings; \<open>Object.keys\<close> of an array gives its
  indices.\<close>

fun string_entries :: "(jsstr \<times> json) list \<Rightarrow> (jsstr \<times> jsstr) list option" where
  "string_entries [] = Some []"
| "string_entries ((k, JStr s) # ps) = map_option (\<lambda>r. (k, s) # r) (string_entries ps)"
| "string_entries _ = None"

definition object_entries :: "json \<Rightarrow> (jsstr \<times> json) list option" where
  "object_entries v =
     (case v of
        JObj ps \<Rightarrow> Some ps
      | JArr vs \<Rightarrow> Some (zip (map dec_digits [0..<length vs]) vs)
      | _ \<Rightarrow> None)"

text \<open>\<open>isCABundleShape\<close> together with the cast it justifies: \<open>Some\<close> is the value read as a bundle.\<close>

definition isCABundleShape :: "json \<Rightarrow> caBundle option" where
  "isCABundleShape v =
     (case (get_prop (Some v) (js ''epoch''), get_prop (Some v) (js ''seqno'')) of
        (Some (JNum epoch), Some (JNum seqno)) \<Rightarrow>
          (case (get_prop (Some v) (js ''keys''), get_prop (Some v) (js ''keyId''), get_prop (Some v) (js ''issuedAt'')) of
             (Some ks, Some (JStr keyId), Some (JNum issuedAt)) \<Rightarrow>
               (case (get_prop (Some v) (js ''signature''), Option.bind (object_entries ks) string_entries) of
                  (Some (JStr sig), Some keys) \<Rightarrow>
                    (case get_prop (Some v) (js ''prevKeyId'') of
                       None \<Rightarrow> Some \<lparr>ca_epoch = epoch, ca_seqno = seqno, ca_keys = keys, ca_keyId = keyId,
                                   ca_prevKeyId = None, ca_issuedAt = issuedAt, ca_signature = sig\<rparr>
                     | Some (JStr pk) \<Rightarrow> Some \<lparr>ca_epoch = epoch, ca_seqno = seqno, ca_keys = keys, ca_keyId = keyId,
                                   ca_prevKeyId = Some pk, ca_issuedAt = issuedAt, ca_signature = sig\<rparr>
                     | _ \<Rightarrow> None)
                | _ \<Rightarrow> None)
           | _ \<Rightarrow> None)
      | _ \<Rightarrow> None)"

datatype notme_response = NotmeThrew | NotmeStatus int "json option"

definition notmeBundleFetcher :: "notme_response \<Rightarrow> caBundle option" where
  "notmeBundleFetcher response =
     (case response of
        NotmeThrew \<Rightarrow> None
      | NotmeStatus status body \<Rightarrow>
          if \<not> (200 \<le> status \<and> status \<le> 299) then None
          else case body of None \<Rightarrow> None | Some b \<Rightarrow> isCABundleShape b)"

section \<open>The cache\<close>

record cacheEntry =
  ce_bundle :: caBundle
  ce_fetchedAtMs :: int

definition BUNDLE_REFRESH_MS :: int where
  "BUNDLE_REFRESH_MS = 4 * 60 * 1000"

datatype caUnavailable = FetchReturnedNull | SignatureVerifyFailed | NoTrustAnchor

text \<open>The fetcher is called only when the cache is stale; the fetcher of the routes returns null rather
  than throw. The result is the cache afterwards with the bundle or the \<open>CaUnavailableError\<close>.\<close>

definition getCABundle ::
    "ed25519 \<Rightarrow> (bundle_message \<Rightarrow> bytes) \<Rightarrow> cacheEntry option \<Rightarrow> (unit \<Rightarrow> caBundle option) \<Rightarrow> int \<Rightarrow> int option \<Rightarrow>
     jsstr option \<Rightarrow> cacheEntry option \<times> (caUnavailable + caBundle)" where
  "getCABundle ed cbor cache fetcher nowMs refresh rootPubkey =
     (let refreshMs = nullish refresh BUNDLE_REFRESH_MS in
      case (case cache of Some c \<Rightarrow> if nowMs - ce_fetchedAtMs c < refreshMs then Some (ce_bundle c) else None | None \<Rightarrow> None) of
        Some b \<Rightarrow> (cache, Inr b)
      | None \<Rightarrow>
          (case fetcher () of
             None \<Rightarrow> (cache, Inl FetchReturnedNull)
           | Some b \<Rightarrow>
               if truthy_str rootPubkey \<and> \<not> verifyBundleSignature ed cbor b (nullish rootPubkey [])
               then (cache, Inl SignatureVerifyFailed)
               else (Some \<lparr>ce_bundle = b, ce_fetchedAtMs = nowMs\<rparr>, Inr b)))"

definition isCertEpochCurrent :: "int \<Rightarrow> caBundle \<Rightarrow> bool" where
  "isCertEpochCurrent certEpoch bundle =
     (if certEpoch = ca_epoch bundle then True
      else if ca_prevKeyId bundle \<noteq> None \<and> certEpoch = ca_epoch bundle - 1 then True
      else False)"

section \<open>The gate and the source\<close>

record env =
  env_CLOISTER_MODE :: "jsstr option"
  env_DEV_CA_MASTER :: "jsstr option"
  env_DEV_CA_EPOCH :: "jsstr option"
  env_INTERLACE_ROOT_PUBKEY :: "jsstr option"

datatype leaseMode = GateOff | GateEnforce

definition resolveLeaseGate :: "env \<Rightarrow> leaseMode" where
  "resolveLeaseGate env =
     (let isDev = (env_CLOISTER_MODE env = Some (js ''dev''));
          hasAuthority = (truthy_str (env_DEV_CA_MASTER env) \<or> truthy_str (env_INTERLACE_ROOT_PUBKEY env))
      in if isDev \<and> \<not> hasAuthority then GateOff else GateEnforce)"

definition leaseEnforced :: "env \<Rightarrow> bool" where
  "leaseEnforced env = (resolveLeaseGate env = GateEnforce)"

definition devCaBundle :: "env \<Rightarrow> int \<Rightarrow> caBundle option" where
  "devCaBundle env dateNow =
     (if env_CLOISTER_MODE env \<noteq> Some (js ''dev'') \<or> \<not> truthy_str (env_DEV_CA_MASTER env) then None
      else Some \<lparr>ca_epoch = nullish (parse_int10 (nullish (env_DEV_CA_EPOCH env) (js ''1''))) 1, ca_seqno = 1,
                 ca_keys = [(js ''active'', nullish (env_DEV_CA_MASTER env) [])], ca_keyId = js ''active'',
                 ca_prevKeyId = None, ca_issuedAt = dateNow div 1000, ca_signature = []\<rparr>)"

definition resolveCABundle ::
    "ed25519 \<Rightarrow> (bundle_message \<Rightarrow> bytes) \<Rightarrow> env \<Rightarrow> cacheEntry option \<Rightarrow> (unit \<Rightarrow> notme_response) \<Rightarrow> int \<Rightarrow> int \<Rightarrow>
     cacheEntry option \<times> (caUnavailable + caBundle)" where
  "resolveCABundle ed cbor env cache notme dateNow nowMs =
     (case devCaBundle env dateNow of
        Some dev \<Rightarrow> (cache, Inr dev)
      | None \<Rightarrow>
          if \<not> truthy_str (env_INTERLACE_ROOT_PUBKEY env) then (cache, Inl NoTrustAnchor)
          else getCABundle ed cbor cache (\<lambda>u. notmeBundleFetcher (notme u)) nowMs None (env_INTERLACE_ROOT_PUBKEY env))"


section \<open>Lemmas\<close>

definition key_rank :: "jsstr \<times> bytes \<Rightarrow> int list" where
  "key_rank e = int (length (utf8_encode (fst e))) # map uint (utf8_encode (fst e))"

lemma first_difference_le:
  "length a = length b \<Longrightarrow> first_difference a b \<le> 0 \<longleftrightarrow> map uint a \<le> map uint b"
  by (induction a b rule: first_difference.induct) (auto simp: word_uint_eq_iff)

lemma compare_keys_rank: "compare_keys x y \<le> 0 \<longleftrightarrow> key_rank x \<le> key_rank y"
  by (auto simp: compare_keys_def key_rank_def Let_def first_difference_le)

lemma sortStringKeysCanonical_sort: "sortStringKeysCanonical es = sort_key key_rank es"
  unfolding sortStringKeysCanonical_def by (rule sort_by_eq_sort_key) (rule compare_keys_rank)

lemma decode_entries_map:
  "decode_entries es = (if list_all (\<lambda>e. bc_b64Decode (snd e) \<noteq> None) es
     then Some (map (\<lambda>(k, b). (k, the (bc_b64Decode b))) es) else None)"
  by (induction es rule: decode_entries.induct) (auto split: option.splits)

lemma key_rank_inj: "well_formed (fst x) \<Longrightarrow> well_formed (fst y) \<Longrightarrow> key_rank x = key_rank y \<longleftrightarrow> fst x = fst y"
proof -
  assume "well_formed (fst x)" "well_formed (fst y)"
  moreover have "map uint a = map uint b \<longleftrightarrow> a = b" for a b :: bytes
    by (rule inj_map_eq_map) (simp add: inj_def word_uint_eq_iff)
  ultimately show ?thesis by (auto simp: key_rank_def utf8_encode_inject)
qed

lemma sort_entries_perm:
  assumes "mset xs = mset ys" "distinct (map fst xs)" "\<forall>e \<in> set xs. well_formed (fst e)"
  shows "sortStringKeysCanonical xs = sortStringKeysCanonical ys"
  unfolding sortStringKeysCanonical_sort
proof (rule sort_key_perm [OF assms(1)])
  show "inj_on key_rank (set xs)"
    using assms(2,3) by (auto simp: inj_on_def key_rank_inj distinct_map)
qed

lemma canonical_perm:
  assumes "mset ks = mset (ca_keys b)" "distinct (map fst (ca_keys b))" "\<forall>k \<in> set (ca_keys b). well_formed (fst k)"
  shows "bundleCanonical cbor (b\<lparr>ca_keys := ks\<rparr>) = bundleCanonical cbor b"
proof -
  let ?d = "\<lambda>(k, b). (k, the (bc_b64Decode b))"
  have s: "set ks = set (ca_keys b)" using assms(1) by (metis set_mset_mset)
  have f: "map fst (map ?d ks) = map fst ks" by (induction ks) auto
  have "distinct (map fst ks)" using assms(1,2) by (metis mset_eq_imp_distinct_iff mset_map)
  then have "distinct (map fst (map ?d ks))" by (simp only: f)
  moreover have "mset (map ?d ks) = mset (map ?d (ca_keys b))" using assms(1) by simp
  moreover have "\<forall>e \<in> set (map ?d ks). well_formed (fst e)" using assms(3) s by auto
  ultimately have "sortStringKeysCanonical (map ?d ks) = sortStringKeysCanonical (map ?d (ca_keys b))"
    by (intro sort_entries_perm)
  then show ?thesis by (simp add: bundleCanonical_def decode_entries_map list_all_iff s)
qed

text \<open>The caches an isolate reaches under one environment.\<close>

inductive cache_reach :: "ed25519 \<Rightarrow> (bundle_message \<Rightarrow> bytes) \<Rightarrow> env \<Rightarrow> cacheEntry option \<Rightarrow> bool"
  for ed cbor env where
  start: "cache_reach ed cbor env None"
| resolve: "cache_reach ed cbor env c \<Longrightarrow> cache_reach ed cbor env (fst (resolveCABundle ed cbor env c notme dateNow nowMs))"

definition signed_by_root :: "ed25519 \<Rightarrow> (bundle_message \<Rightarrow> bytes) \<Rightarrow> env \<Rightarrow> caBundle \<Rightarrow> bool" where
  "signed_by_root ed cbor env b =
     (\<exists>root. env_INTERLACE_ROOT_PUBKEY env = Some root \<and> root \<noteq> [] \<and> verifyBundleSignature ed cbor b root)"

lemma getCABundle_signed:
  assumes "truthy_str (env_INTERLACE_ROOT_PUBKEY env)" "\<forall>e. c = Some e \<longrightarrow> signed_by_root ed cbor env (ce_bundle e)"
  shows "\<forall>e. fst (getCABundle ed cbor c f now None (env_INTERLACE_ROOT_PUBKEY env)) = Some e \<longrightarrow> signed_by_root ed cbor env (ce_bundle e)"
    and "snd (getCABundle ed cbor c f now None (env_INTERLACE_ROOT_PUBKEY env)) = Inr b \<Longrightarrow>
      signed_by_root ed cbor env b \<and>
      (\<exists>e. fst (getCABundle ed cbor c f now None (env_INTERLACE_ROOT_PUBKEY env)) = Some e \<and> ce_bundle e = b \<and>
           now - ce_fetchedAtMs e < BUNDLE_REFRESH_MS)"
  using assms truthy_strE [OF assms(1)]
  by (auto simp: getCABundle_def Let_def signed_by_root_def BUNDLE_REFRESH_MS_def split: option.splits if_splits)

lemma cache_signed:
  "cache_reach ed cbor env c \<Longrightarrow> c = Some e \<Longrightarrow> signed_by_root ed cbor env (ce_bundle e)"
proof (induction arbitrary: e rule: cache_reach.induct)
  case (resolve c notme dateNow nowMs)
  then show ?case
    using getCABundle_signed(1) [of env c ed cbor "\<lambda>u. notmeBundleFetcher (notme u)" nowMs]
    by (auto simp: resolveCABundle_def split: option.splits if_splits)
qed simp


section \<open>Properties\<close>

text \<open>The signed bytes of a bundle do not depend on the order in which the transport listed its
  keys.\<close>

theorem bundle_key_order_irrelevant:
  assumes "mset ks = mset (ca_keys b)" "distinct (map fst (ca_keys b))" "\<forall>k \<in> set (ca_keys b). well_formed (fst k)"
  shows "bundleCanonical cbor (b\<lparr>ca_keys := ks\<rparr>) = bundleCanonical cbor b"
  using assms by (rule canonical_perm)

definition sample_bundle :: caBundle where
  "sample_bundle = \<lparr>ca_epoch = 5, ca_seqno = 2, ca_keys = [(js ''k2'', b64encode [0, 0, 0]), (js ''k1'', b64encode [4, 16, 65])],
     ca_keyId = js ''k2'', ca_prevKeyId = None, ca_issuedAt = 1700000000, ca_signature = []\<rparr>"

theorem bundle_key_order_irrelevant_witness:
  "bundleCanonical (\<lambda>_. [1]) (sample_bundle\<lparr>ca_keys := [(js ''k1'', b64encode [4, 16, 65]), (js ''k2'', b64encode [0, 0, 0])]\<rparr>) =
   bundleCanonical (\<lambda>_. [1]) sample_bundle"
proof (rule bundle_key_order_irrelevant)
  show "\<forall>k \<in> set (ca_keys sample_bundle). well_formed (fst k)"
  proof
    fix k assume "k \<in> set (ca_keys sample_bundle)"
    then have "ascii (fst k)" by (auto simp: sample_bundle_def)
    then show "well_formed (fst k)" by (rule ascii_well_formed)
  qed
qed (simp_all add: sample_bundle_def)

text \<open>The signature does not cover whether a bundle names a previous key: a bundle without one and
  the same bundle with the empty string have the same signed bytes, so one signature is valid for
  both, yet with the empty string the verifier also accepts certificates of the epoch before.\<close>

theorem empty_prev_key_escapes_signature:
  "verifyBundleSignature ed cbor (b\<lparr>ca_prevKeyId := Some []\<rparr>) root = verifyBundleSignature ed cbor (b\<lparr>ca_prevKeyId := None\<rparr>) root \<and>
   \<not> isCertEpochCurrent (ca_epoch b - 1) (b\<lparr>ca_prevKeyId := None\<rparr>) \<and>
   isCertEpochCurrent (ca_epoch b - 1) (b\<lparr>ca_prevKeyId := Some []\<rparr>)"
proof -
  have "bundleCanonical cbor (b\<lparr>ca_prevKeyId := Some []\<rparr>) = bundleCanonical cbor (b\<lparr>ca_prevKeyId := None\<rparr>)"
    by (simp add: bundleCanonical_def cong: option.case_cong)
  then show ?thesis by (simp add: verifyBundleSignature_def isCertEpochCurrent_def cong: option.case_cong)
qed

text \<open>C38: Outside the dev bundle, every bundle an isolate hands to the lease verifier carries a valid
  signature of the pinned root key over its canonical bytes, and was fetched less than four minutes
  ago, whatever notme answered before and whether or not it came from the cache.\<close>

theorem resolved_bundle_signed_and_recent:
  assumes "cache_reach ed cbor env c" "devCaBundle env dateNow = None"
    and "resolveCABundle ed cbor env c notme dateNow nowMs = (c', Inr b)"
  shows "\<exists>root e. env_INTERLACE_ROOT_PUBKEY env = Some root \<and> root \<noteq> [] \<and> verifyBundleSignature ed cbor b root \<and>
     c' = Some e \<and> ce_bundle e = b \<and> nowMs - ce_fetchedAtMs e < 240000"
proof -
  let ?g = "getCABundle ed cbor c (\<lambda>u. notmeBundleFetcher (notme u)) nowMs None (env_INTERLACE_ROOT_PUBKEY env)"
  have root: "truthy_str (env_INTERLACE_ROOT_PUBKEY env)" and g: "?g = (c', Inr b)"
    using assms(2,3) by (auto simp: resolveCABundle_def split: if_splits)
  show ?thesis
    using getCABundle_signed(2) [OF root, of c ed cbor "\<lambda>u. notmeBundleFetcher (notme u)" nowMs b] cache_signed [OF assms(1)] g
    by (auto simp: signed_by_root_def BUNDLE_REFRESH_MS_def)
qed

definition sample_root :: jsstr where
  "sample_root = b64encode (replicate 32 0)"

definition prod_env :: env where
  "prod_env = \<lparr>env_CLOISTER_MODE = None, env_DEV_CA_MASTER = None, env_DEV_CA_EPOCH = None,
     env_INTERLACE_ROOT_PUBKEY = Some sample_root\<rparr>"

text \<open>A signature scheme for the examples that accepts everything.\<close>

definition yes_ed :: ed25519 where
  "yes_ed k s m = Inr True"

lemma bc_b64Decode_eq: "bc_b64Decode s = b64decode s"
proof -
  have e: "js ''==='' = replicate 3 (of_char CHR ''='')" by (simp only: numeral_3_eq_3 replicate_Suc replicate_0 list.map)
  have "k = 0 \<or> k = 1 \<or> k = 2 \<or> k = 3" if "k < 4" for k :: nat using that by arith
  then have "(4 - k) mod 4 = 3 - (k + 3) mod 4" if "k < 4" for k :: nat using that by fastforce
  from this [of "length s mod 4"] have "(4 - length s mod 4) mod 4 = 3 - (length s + 3) mod 4"
    by (simp only: mod_add_left_eq mod_less_divisor zero_less_numeral)
  then have "replicate ((4 - length s mod 4) mod 4) (of_char CHR ''='') = drop ((length s + 3) mod 4) (js ''==='')"
    by (simp only: e drop_replicate)
  then show ?thesis by (simp only: bc_b64Decode_def b64decode_def Let_def length_map)
qed

lemma sample_root_simps: "bc_b64Decode sample_root = Some (replicate 32 0)" "sample_root \<noteq> []" "truthy_str (Some sample_root)"
proof -
  show d: "bc_b64Decode sample_root = Some (replicate 32 0)"
    by (simp add: bc_b64Decode_eq sample_root_def b64_roundtrip)
  show ne: "sample_root \<noteq> []"
  proof
    assume "sample_root = []"
    then have "bc_b64Decode [] = Some (replicate 32 0)" using d by simp
    moreover have "bc_b64Decode [] = Some []" using b64_roundtrip [of "[]"] by (simp add: bc_b64Decode_eq b64encode_def)
    ultimately show False by simp
  qed
  then show "truthy_str (Some sample_root)" by (simp add: truthy_str_def)
qed

lemma sample_signed: "verifyBundleSignature yes_ed cbor (sample_bundle\<lparr>ca_epoch := e, ca_issuedAt := i\<rparr>) sample_root"
proof -
  have s: "bc_b64Decode [] = Some []" using b64_roundtrip [of "[]"] by (simp add: bc_b64Decode_eq b64encode_def)
  have "bc_b64Decode (b64encode bs) = Some bs" for bs by (simp add: bc_b64Decode_eq b64_roundtrip)
  then show ?thesis
    using s by (simp add: verifyBundleSignature_def sample_root_simps bundleCanonical_def sample_bundle_def yes_ed_def)
qed

definition sample_body :: json where
  "sample_body = JObj [(js ''epoch'', JNum 5), (js ''seqno'', JNum 2),
     (js ''keys'', JObj [(js ''k2'', JStr (b64encode [0, 0, 0])), (js ''k1'', JStr (b64encode [4, 16, 65]))]),
     (js ''keyId'', JStr (js ''k2'')), (js ''issuedAt'', JNum 1700000000), (js ''signature'', JStr [])]"

lemma sample_fetch: "notmeBundleFetcher (NotmeStatus 200 (Some sample_body)) = Some sample_bundle"
  by (simp add: notmeBundleFetcher_def isCABundleShape_def sample_body_def sample_bundle_def get_prop_def object_entries_def)

theorem resolved_bundle_signed_and_recent_witness:
  "case resolveCABundle yes_ed (\<lambda>_. []) prod_env None (\<lambda>_. NotmeStatus 200 (Some sample_body)) 0 1700000000000 of
     (c', Inr b) \<Rightarrow> ca_epoch b = 5 \<and> (\<exists>root. env_INTERLACE_ROOT_PUBKEY prod_env = Some root \<and> verifyBundleSignature yes_ed (\<lambda>_. []) b root)
   | _ \<Rightarrow> False"
proof -
  let ?r = "resolveCABundle yes_ed (\<lambda>_. []) prod_env None (\<lambda>_. NotmeStatus 200 (Some sample_body)) 0 1700000000000"
  have d: "devCaBundle prod_env 0 = None" by (simp add: devCaBundle_def prod_env_def)
  have s: "verifyBundleSignature yes_ed (\<lambda>_. []) sample_bundle sample_root"
    using sample_signed [where cbor = "\<lambda>_. []" and e = 5 and i = 1700000000] by (simp add: sample_bundle_def)
  have r: "?r = (Some \<lparr>ce_bundle = sample_bundle, ce_fetchedAtMs = 1700000000000\<rparr>, Inr sample_bundle)"
    using s d by (simp add: resolveCABundle_def getCABundle_def sample_fetch sample_root_simps prod_env_def)
  from resolved_bundle_signed_and_recent [OF cache_reach.start d r] r show ?thesis by (auto simp: sample_bundle_def)
qed

text \<open>The signature is the only check on a fetched bundle: once the cache has expired, a validly
  signed bundle is accepted and cached even when its epoch is below the one just used and its issue
  time is more than five minutes past, so a recorded older bundle undoes a rotation.\<close>

theorem older_signed_bundle_accepted:
  assumes "truthy_str root" "verifyBundleSignature ed cbor b (nullish root [])" "fetcher () = Some b"
    and "BUNDLE_REFRESH_MS \<le> nowMs - ce_fetchedAtMs e"
    and "ca_epoch b < ca_epoch (ce_bundle e)" "ca_issuedAt b * 1000 + 5 * 60 * 1000 < nowMs"
  shows "getCABundle ed cbor (Some e) fetcher nowMs None root = (Some \<lparr>ce_bundle = b, ce_fetchedAtMs = nowMs\<rparr>, Inr b) \<and>
     isCertEpochCurrent (ca_epoch b) b \<and> (ca_epoch b < ca_epoch (ce_bundle e) - 1 \<longrightarrow> \<not> isCertEpochCurrent (ca_epoch b) (ce_bundle e))"
  using assms by (simp add: getCABundle_def isCertEpochCurrent_def)

theorem older_signed_bundle_accepted_witness:
  "snd (getCABundle yes_ed (\<lambda>_. []) (Some \<lparr>ce_bundle = sample_bundle, ce_fetchedAtMs = 1700000000000\<rparr>)
      (\<lambda>_. Some (sample_bundle\<lparr>ca_epoch := 3, ca_issuedAt := 1600000000\<rparr>)) 1700000300000 None (Some sample_root)) =
   Inr (sample_bundle\<lparr>ca_epoch := 3, ca_issuedAt := 1600000000\<rparr>)"
proof -
  let ?b = "sample_bundle\<lparr>ca_epoch := 3, ca_issuedAt := 1600000000\<rparr>"
  have v: "verifyBundleSignature yes_ed (\<lambda>_. []) ?b (nullish (Some sample_root) [])" using sample_signed by simp
  have "BUNDLE_REFRESH_MS \<le> 1700000300000 - ce_fetchedAtMs \<lparr>ce_bundle = sample_bundle, ce_fetchedAtMs = 1700000000000\<rparr>"
      "ca_epoch ?b < ca_epoch (ce_bundle \<lparr>ce_bundle = sample_bundle, ce_fetchedAtMs = 1700000000000\<rparr>)"
      "ca_issuedAt ?b * 1000 + 5 * 60 * 1000 < (1700000300000 :: int)"
    by (simp_all add: BUNDLE_REFRESH_MS_def sample_bundle_def)
  from older_signed_bundle_accepted [OF sample_root_simps(3) v refl this] show ?thesis by simp
qed

end
