(* ===== verification/Sql_Table.thy ===== *)
theory Sql_Table
  imports Js_Text
begin

text \<open>
  The SQLite statements the storage helpers under \<open>src/storage\<close> send through their \<open>SqlExecutor\<close>.
  A table is the list of its rows in insertion (rowid) order; a primary key is a function of the
  row. \<open>RETURNING\<close> and \<open>SELECT\<close> give lists of rows. \<open>ORDER BY\<close> on a \<open>TEXT\<close> column is the
  \<open>BINARY\<close> collation, the order of the UTF-8 bytes; rows that tie stay in insertion order (SQLite
  leaves that order open, and no property here depends on it).

  \<open>keyed_store\<close> is the contract of a table that is written by upserts on its primary key: reading
  a key gives the last row written under it. The tag index, the membership index, the receipt
  archive, the CA bundle archive and the lease counters are instances, each in its own theory.
\<close>

section \<open>Statements\<close>

definition pk_unique :: "('r \<Rightarrow> 'k) \<Rightarrow> 'r list \<Rightarrow> bool" where
  "pk_unique key t = distinct (map key t)"

definition select_where :: "('r \<Rightarrow> bool) \<Rightarrow> 'r list \<Rightarrow> 'r list" where
  "select_where p t = filter p t"

text \<open>\<open>rows[0] ?? null\<close> of a \<open>SELECT\<close>.\<close>

definition first_row :: "'r list \<Rightarrow> 'r option" where
  "first_row rows = (case rows of [] \<Rightarrow> None | r # _ \<Rightarrow> Some r)"

definition lookup_pk :: "('r \<Rightarrow> 'k) \<Rightarrow> 'k \<Rightarrow> 'r list \<Rightarrow> 'r option" where
  "lookup_pk key k t = first_row (select_where (\<lambda>r. key r = k) t)"

text \<open>\<open>INSERT ... ON CONFLICT(key) DO NOTHING RETURNING ...\<close>: the table and the returned rows.\<close>

definition insert_ignore :: "('r \<Rightarrow> 'k) \<Rightarrow> 'r \<Rightarrow> 'r list \<Rightarrow> 'r list \<times> 'r list" where
  "insert_ignore key r t = (if key r \<in> key ` set t then (t, []) else (t @ [r], [r]))"

text \<open>A plain \<open>INSERT\<close>: \<open>None\<close> is the exception SQLite raises when the primary key is taken.\<close>

definition insert_row :: "('r \<Rightarrow> 'k) \<Rightarrow> 'r \<Rightarrow> 'r list \<Rightarrow> 'r list option" where
  "insert_row key r t = (if key r \<in> key ` set t then None else Some (t @ [r]))"

text \<open>\<open>INSERT ... ON CONFLICT(key) DO UPDATE SET ...\<close> of every column outside the key.\<close>

definition upsert :: "('r \<Rightarrow> 'k) \<Rightarrow> 'r \<Rightarrow> 'r list \<Rightarrow> 'r list" where
  "upsert key r t = (if key r \<in> key ` set t then map (\<lambda>x. if key x = key r then r else x) t else t @ [r])"

definition update_where :: "('r \<Rightarrow> bool) \<Rightarrow> ('r \<Rightarrow> 'r) \<Rightarrow> 'r list \<Rightarrow> 'r list" where
  "update_where p f t = map (\<lambda>x. if p x then f x else x) t"

text \<open>\<open>DELETE ... WHERE p RETURNING ...\<close>: the table and the returned rows.\<close>

definition delete_where :: "('r \<Rightarrow> bool) \<Rightarrow> 'r list \<Rightarrow> 'r list \<times> 'r list" where
  "delete_where p t = (filter (\<lambda>x. \<not> p x) t, filter p t)"

text \<open>\<open>LIMIT n\<close>; SQLite takes a negative limit as no limit.\<close>

definition limit :: "int \<Rightarrow> 'r list \<Rightarrow> 'r list" where
  "limit n rows = (if n < 0 then rows else take (nat n) rows)"

definition order_by_int :: "('r \<Rightarrow> int) \<Rightarrow> 'r list \<Rightarrow> 'r list" where
  "order_by_int c rows = sort_key c rows"

definition order_by_int_desc :: "('r \<Rightarrow> int) \<Rightarrow> 'r list \<Rightarrow> 'r list" where
  "order_by_int_desc c rows = sort_key (\<lambda>r. - c r) rows"

definition order_by_text :: "('r \<Rightarrow> jsstr) \<Rightarrow> 'r list \<Rightarrow> 'r list" where
  "order_by_text c rows = sort_key (\<lambda>r. utf8_encode (c r)) rows"

section \<open>Laws of the statements\<close>

lemma first_row_simps [simp]: "first_row [] = None" "first_row (r # rs) = Some r"
  by (simp_all add: first_row_def)

lemma first_row_filter: "first_row (filter p t) = find p t"
  by (induction t) simp_all

lemma lookup_pk_find: "lookup_pk key k t = find (\<lambda>r. key r = k) t"
  by (simp add: lookup_pk_def select_where_def first_row_filter)

lemma lookup_pk_simps [simp]:
  "lookup_pk key k [] = None"
  "lookup_pk key k (r # t) = (if key r = k then Some r else lookup_pk key k t)"
  by (simp_all add: lookup_pk_find)

lemma lookup_pk_append:
  "lookup_pk key k (s @ t) = (case lookup_pk key k s of None \<Rightarrow> lookup_pk key k t | Some r \<Rightarrow> Some r)"
  by (induction s) simp_all

lemma lookup_pk_None_iff: "lookup_pk key k t = None \<longleftrightarrow> k \<notin> key ` set t"
  by (induction t) auto

lemma lookup_pk_SomeD: "lookup_pk key k t = Some r \<Longrightarrow> r \<in> set t \<and> key r = k"
  by (induction t) (auto split: if_splits)

lemma lookup_pk_unique: "pk_unique key t \<Longrightarrow> r \<in> set t \<Longrightarrow> lookup_pk key (key r) t = Some r"
  by (induction t) (auto simp: pk_unique_def)

lemma lookup_pk_map:
  "(\<And>r. key (f r) = key r) \<Longrightarrow> lookup_pk key k (map f t) = map_option f (lookup_pk key k t)"
  by (induction t) simp_all

lemma pk_unique_Nil [simp]: "pk_unique key []"
  by (simp add: pk_unique_def)

lemma pk_unique_map: "(\<And>r. key (f r) = key r) \<Longrightarrow> pk_unique key (map f t) = pk_unique key t"
  by (simp add: pk_unique_def comp_def)

lemma pk_unique_filter [inv_intros]: "pk_unique key t \<Longrightarrow> pk_unique key (filter p t)"
  by (simp add: pk_unique_def distinct_map_filter)

lemma pk_unique_insert_ignore [inv_intros]: "pk_unique key t \<Longrightarrow> pk_unique key (fst (insert_ignore key r t))"
  by (auto simp: pk_unique_def insert_ignore_def)

lemma map_key_upsert:
  "map key (upsert key r t) = (if key r \<in> key ` set t then map key t else map key t @ [key r])"
proof -
  have "map key (map (\<lambda>x. if key x = key r then r else x) t) = map key t" by (induction t) simp_all
  then show ?thesis by (simp add: upsert_def)
qed

lemma key_image_upsert [table_simps]: "key ` set (upsert key r t) = insert (key r) (key ` set t)"
  using map_key_upsert [of key r t] by (auto simp flip: set_map)

lemma pk_unique_upsert [inv_intros]: "pk_unique key t \<Longrightarrow> pk_unique key (upsert key r t)"
  by (auto simp: pk_unique_def map_key_upsert)

lemma pk_unique_update [inv_intros]:
  "(\<And>r. key (f r) = key r) \<Longrightarrow> pk_unique key t \<Longrightarrow> pk_unique key (update_where p f t)"
  by (simp add: update_where_def pk_unique_map)

lemma pk_unique_delete [inv_intros]: "pk_unique key t \<Longrightarrow> pk_unique key (fst (delete_where p t))"
  by (simp add: delete_where_def pk_unique_filter)

lemma lookup_upsert [table_simps]:
  "lookup_pk key k (upsert key r t) = (if k = key r then Some r else lookup_pk key k t)"
proof (cases "key r \<in> key ` set t")
  case True
  have "lookup_pk key k (map (\<lambda>x. if key x = key r then r else x) t) =
      map_option (\<lambda>x. if key x = key r then r else x) (lookup_pk key k t)" by (rule lookup_pk_map) simp
  then show ?thesis using True lookup_pk_None_iff [of key k t]
    by (cases "lookup_pk key k t") (auto simp: upsert_def dest: lookup_pk_SomeD)
next
  case False
  then have "lookup_pk key (key r) t = None" by (simp add: lookup_pk_None_iff)
  then show ?thesis using False by (auto simp: upsert_def lookup_pk_append split: option.split)
qed

lemma lookup_insert_ignore [table_simps]:
  "lookup_pk key k (fst (insert_ignore key r t)) =
     (if k = key r then Some (case lookup_pk key k t of None \<Rightarrow> r | Some x \<Rightarrow> x) else lookup_pk key k t)"
proof (cases "key r \<in> key ` set t")
  case True
  then show ?thesis using lookup_pk_None_iff [of key k t]
    by (auto simp: insert_ignore_def split: option.split)
next
  case False
  then have "lookup_pk key (key r) t = None" by (simp add: lookup_pk_None_iff)
  then show ?thesis using False by (auto simp: insert_ignore_def lookup_pk_append split: option.split)
qed

lemma insert_ignore_rows [table_simps]:
  "length (snd (insert_ignore key r t)) = 1 \<longleftrightarrow> lookup_pk key (key r) t = None"
  by (simp add: insert_ignore_def lookup_pk_None_iff)

lemma lookup_update_where [table_simps]:
  "(\<And>r. key (f r) = key r) \<Longrightarrow>
   lookup_pk key k (update_where p f t) = map_option (\<lambda>r. if p r then f r else r) (lookup_pk key k t)"
  unfolding update_where_def by (rule lookup_pk_map) simp

lemma lookup_delete_where [table_simps]:
  assumes "pk_unique key t"
  shows "lookup_pk key k (fst (delete_where p t)) =
     (case lookup_pk key k t of None \<Rightarrow> None | Some r \<Rightarrow> if p r then None else Some r)"
  using assms
proof (induction t)
  case (Cons a t)
  then have u: "pk_unique key t" "key a \<notin> key ` set t" by (auto simp: pk_unique_def)
  then have "lookup_pk key (key a) t = None" by (simp add: lookup_pk_None_iff)
  with Cons.IH [OF u(1)] show ?case by (auto simp: delete_where_def)
qed (simp add: delete_where_def)

lemma set_upsert: "x \<in> set (upsert key r t) \<longleftrightarrow> x = r \<or> x \<in> set t \<and> key x \<noteq> key r"
proof (cases "key r \<in> key ` set t")
  case True
  then obtain y where "y \<in> set t" "key y = key r" by auto
  then show ?thesis using True by (auto simp: upsert_def image_iff)
next
  case False
  then have "x \<in> set t \<Longrightarrow> key x \<noteq> key r" by (auto simp: image_iff)
  then show ?thesis using False by (auto simp: upsert_def)
qed

lemma distinct_text_sort:
  assumes "distinct xs" "\<forall>x \<in> set xs. well_formed x"
  shows "sorted_wrt (<) (map utf8_encode (sort_key utf8_encode xs))"
proof -
  have "inj_on utf8_encode (set xs)" using assms(2) by (auto intro: inj_onI simp: utf8_encode_inject)
  then have "distinct (map utf8_encode (sort_key utf8_encode xs))" using assms(1) by (simp add: distinct_map)
  then show ?thesis by (simp add: strict_sorted_iff)
qed

lemma in_set_limitD: "r \<in> set (limit n rows) \<Longrightarrow> r \<in> set rows"
  by (auto simp: limit_def dest: in_set_takeD split: if_splits)

lemma sorted_order_by_int: "sorted (map c rows) \<Longrightarrow> order_by_int c rows = rows"
  by (simp add: order_by_int_def sorted_sort_id sort_key_id_if_sorted)

lemma order_by_int_desc_strict:
  assumes "sorted_wrt (<) (map c rows)"
  shows "order_by_int_desc c rows = rev rows"
proof -
  have "distinct (map c rows)" using assms by (simp add: strict_sorted_iff)
  then have "inj_on (\<lambda>r. - c r) (set rows)" by (simp add: distinct_map inj_on_def)
  moreover have "sorted (map (\<lambda>r. - c r) (rev rows))"
    using assms by (induction rows) (auto simp: sorted_append less_imp_le)
  ultimately have "sort_key (\<lambda>r. - c r) rows = rev rows" by (intro sort_key_inj_key_eq) simp_all
  then show ?thesis by (simp add: order_by_int_desc_def)
qed

section \<open>The keyed store interface\<close>

locale keyed_store =
  fixes init :: 't
    and put :: "'t \<Rightarrow> 'r \<Rightarrow> 't"
    and get :: "'t \<Rightarrow> 'k \<Rightarrow> 'r option"
    and key :: "'r \<Rightarrow> 'k"
    and inv :: "'t \<Rightarrow> bool"
  assumes inv_init: "inv init"
    and inv_put: "inv t \<Longrightarrow> inv (put t r)"
    and get_init: "get init k = None"
    and get_put: "inv t \<Longrightarrow> get (put t r) k = (if k = key r then Some r else get t k)"
begin

lemma inv_puts: "inv t \<Longrightarrow> inv (foldl put t rs)"
  by (induction rs arbitrary: t) (simp_all add: inv_put)

lemma last_write_wins:
  "inv t \<Longrightarrow> get (foldl put t rs) k =
     (case find (\<lambda>r. key r = k) (rev rs) of None \<Rightarrow> get t k | Some r \<Rightarrow> Some r)"
proof (induction rs rule: rev_induct)
  case (snoc r rs)
  then show ?case using inv_puts [OF snoc.prems, of rs] by (simp add: get_put)
qed simp

lemma put_idem: "inv t \<Longrightarrow> get (put (put t r) r) k = get (put t r) k"
  by (simp add: get_put inv_put)

lemma put_commute: "inv t \<Longrightarrow> key r \<noteq> key s \<Longrightarrow> get (put (put t r) s) k = get (put (put t s) r) k"
  by (simp add: get_put inv_put)

end

end
