(* ===== verification/Registry_Index.thy ===== *)
theory Registry_Index
  imports Sql_Table
begin

text \<open>
  The two OCI registry tables of the trust store: \<open>src/storage/registry-tags.ts\<close> (mutable tag
  pointers) and \<open>src/storage/registry-membership.ts\<close> (the per-repository gate the pull surface
  asks before it serves a blob). Both are keyed stores; the listings are the sorted, duplicate-free
  projections of the table.
\<close>

section \<open>Tags\<close>

record registry_tag =
  rt_repo :: jsstr
  rt_tag :: jsstr
  rt_manifest_digest :: jsstr
  rt_created_at :: int

definition rt_key :: "registry_tag \<Rightarrow> jsstr \<times> jsstr" where
  "rt_key r = (rt_repo r, rt_tag r)"

definition upsertTag :: "registry_tag list \<Rightarrow> jsstr \<Rightarrow> jsstr \<Rightarrow> jsstr \<Rightarrow> int \<Rightarrow> registry_tag list" where
  "upsertTag t repo tag digest nowMs =
     upsert rt_key \<lparr>rt_repo = repo, rt_tag = tag, rt_manifest_digest = digest, rt_created_at = nowMs\<rparr> t"

definition getManifestDigestForTag :: "registry_tag list \<Rightarrow> jsstr \<Rightarrow> jsstr \<Rightarrow> jsstr option" where
  "getManifestDigestForTag t repo tag =
     (let rows = limit 1 (select_where (\<lambda>r. rt_repo r = repo \<and> rt_tag r = tag) t) in
      case rows of [] \<Rightarrow> None | r # _ \<Rightarrow> Some (rt_manifest_digest r))"

definition listTagsForRepo :: "registry_tag list \<Rightarrow> jsstr \<Rightarrow> jsstr list" where
  "listTagsForRepo t repo = map rt_tag (order_by_text rt_tag (select_where (\<lambda>r. rt_repo r = repo) t))"

definition listRepos :: "registry_tag list \<Rightarrow> jsstr list" where
  "listRepos t = order_by_text (\<lambda>r. r) (remdups (map rt_repo t))"

section \<open>Blob and manifest membership\<close>

datatype membershipKind = MBlob | MManifest

record membership =
  mb_repo :: jsstr
  mb_digest :: jsstr
  mb_kind :: membershipKind
  mb_recorded_at :: int
  mb_recorded_by :: "jsstr option"

definition mb_key :: "membership \<Rightarrow> jsstr \<times> jsstr \<times> membershipKind" where
  "mb_key r = (mb_repo r, mb_digest r, mb_kind r)"

definition recordMembership ::
    "membership list \<Rightarrow> jsstr \<Rightarrow> jsstr \<Rightarrow> membershipKind \<Rightarrow> int \<Rightarrow> jsstr option \<Rightarrow> membership list" where
  "recordMembership t repo digest kind nowMs peerFp =
     upsert mb_key \<lparr>mb_repo = repo, mb_digest = digest, mb_kind = kind,
                    mb_recorded_at = nowMs, mb_recorded_by = peerFp\<rparr> t"

definition hasMembership :: "membership list \<Rightarrow> jsstr \<Rightarrow> jsstr \<Rightarrow> membershipKind \<Rightarrow> bool" where
  "hasMembership t repo digest kind =
     (0 < length (limit 1 (select_where (\<lambda>r. mb_repo r = repo \<and> mb_digest r = digest \<and> mb_kind r = kind) t)))"

definition listReposWithMembership :: "membership list \<Rightarrow> jsstr \<Rightarrow> jsstr list" where
  "listReposWithMembership t digest =
     order_by_text (\<lambda>r. r) (remdups (map mb_repo (select_where (\<lambda>r. mb_digest r = digest) t)))"

section \<open>Lemmas\<close>

interpretation tags: keyed_store "[] :: registry_tag list" "\<lambda>t r. upsert rt_key r t"
    "\<lambda>t k. lookup_pk rt_key k t" rt_key "pk_unique rt_key"
  by unfold_locales (auto simp: table_simps intro: inv_intros)

interpretation members: keyed_store "[] :: membership list" "\<lambda>t r. upsert mb_key r t"
    "\<lambda>t k. lookup_pk mb_key k t" mb_key "pk_unique mb_key"
  by unfold_locales (auto simp: table_simps intro: inv_intros)

lemma digest_for_tag_lookup:
  "getManifestDigestForTag t repo tag = map_option rt_manifest_digest (lookup_pk rt_key (repo, tag) t)"
  by (induction t) (auto simp: getManifestDigestForTag_def limit_def select_where_def rt_key_def)

lemma hasMembership_iff:
  "hasMembership t repo digest kind \<longleftrightarrow> (repo, digest, kind) \<in> mb_key ` set t"
  by (induction t) (auto simp: hasMembership_def limit_def select_where_def mb_key_def)

lemma hasMembership_record:
  "hasMembership (recordMembership t repo digest kind now fp) repo' digest' kind' \<longleftrightarrow>
     (repo', digest', kind') = (repo, digest, kind) \<or> hasMembership t repo' digest' kind'"
  unfolding hasMembership_iff recordMembership_def key_image_upsert by (simp add: mb_key_def)

text \<open>The tables after a sequence of writes.\<close>

type_synonym tag_write = "jsstr \<times> jsstr \<times> jsstr \<times> int"
type_synonym push = "jsstr \<times> jsstr \<times> membershipKind \<times> int \<times> jsstr option"

definition run_tag_writes :: "tag_write list \<Rightarrow> registry_tag list" where
  "run_tag_writes ws = foldl (\<lambda>t (repo, tag, digest, now). upsertTag t repo tag digest now) [] ws"

definition run_pushes :: "push list \<Rightarrow> membership list" where
  "run_pushes ps = foldl (\<lambda>t (repo, digest, kind, now, fp). recordMembership t repo digest kind now fp) [] ps"

definition tag_row :: "tag_write \<Rightarrow> registry_tag" where
  "tag_row = (\<lambda>(repo, tag, digest, now).
     \<lparr>rt_repo = repo, rt_tag = tag, rt_manifest_digest = digest, rt_created_at = now\<rparr>)"

lemma run_tag_writes_puts: "run_tag_writes ws = foldl (\<lambda>t r. upsert rt_key r t) [] (map tag_row ws)"
proof -
  have "foldl (\<lambda>t (repo, tag, digest, now). upsertTag t repo tag digest now) t ws =
      foldl (\<lambda>t r. upsert rt_key r t) t (map tag_row ws)" for t
    by (induction ws arbitrary: t) (auto simp: tag_row_def upsertTag_def)
  then show ?thesis by (simp add: run_tag_writes_def)
qed

lemma run_tag_writes_inv: "pk_unique rt_key (run_tag_writes ws)"
  unfolding run_tag_writes_puts by (rule tags.inv_puts) (rule tags.inv_init)

lemma find_tag_row:
  "find (\<lambda>r. rt_key r = (repo, tag)) (map tag_row ws) =
     map_option tag_row (find (\<lambda>(r, g, d, n). r = repo \<and> g = tag) ws)"
  by (induction ws) (auto simp: tag_row_def rt_key_def)

lemma distinct_tags: "pk_unique rt_key t \<Longrightarrow> distinct (map rt_tag (filter (\<lambda>r. rt_repo r = repo) t))"
  by (induction t) (force simp: pk_unique_def rt_key_def image_iff)+

lemma order_by_text_perm [simp]: "set (order_by_text c rows) = set rows" "mset (order_by_text c rows) = mset rows"
  by (simp_all add: order_by_text_def)

lemma order_by_text_sorted: "sorted (map (\<lambda>r. utf8_encode (c r)) (order_by_text c rows))"
  by (simp add: order_by_text_def)

lemma distinct_order_by_text: "distinct (map f (order_by_text c rows)) = distinct (map f rows)"
  by (rule mset_eq_imp_distinct_iff) simp

section \<open>Properties\<close>

text \<open>Tags are mutable pointers: after any sequence of tag writes, resolving a tag gives the
  digest of the most recent write to that repository and tag, and nothing when there was none.\<close>

theorem tag_resolves_to_last_write:
  "getManifestDigestForTag (run_tag_writes ws) repo tag =
     map_option (\<lambda>(_, _, digest, _). digest) (find (\<lambda>(r, g, _, _). r = repo \<and> g = tag) (rev ws))"
proof -
  have "lookup_pk rt_key (repo, tag) (run_tag_writes ws) = find (\<lambda>r. rt_key r = (repo, tag)) (map tag_row (rev ws))"
    unfolding run_tag_writes_puts tags.last_write_wins [OF tags.inv_init]
    by (simp add: rev_map split: option.split)
  then show ?thesis unfolding digest_for_tag_lookup find_tag_row
    by (cases "find (\<lambda>(r, g, _, _). r = repo \<and> g = tag) (rev ws)") (auto simp: tag_row_def)
qed

text \<open>The tag listing of a repository is in byte order, has no tag twice, and lists exactly the
  tags that resolve.\<close>

theorem tag_listing_complete:
  "sorted (map utf8_encode (listTagsForRepo (run_tag_writes ws) repo)) \<and>
   distinct (listTagsForRepo (run_tag_writes ws) repo) \<and>
   (\<forall>tag. tag \<in> set (listTagsForRepo (run_tag_writes ws) repo) \<longleftrightarrow>
          getManifestDigestForTag (run_tag_writes ws) repo tag \<noteq> None)"
proof (intro conjI allI)
  let ?t = "run_tag_writes ws"
  show "sorted (map utf8_encode (listTagsForRepo ?t repo))"
    using order_by_text_sorted [of rt_tag] by (simp add: listTagsForRepo_def comp_def)
  show "distinct (listTagsForRepo ?t repo)"
    using distinct_tags [OF run_tag_writes_inv]
    by (simp add: listTagsForRepo_def distinct_order_by_text select_where_def)
  fix tag
  show "tag \<in> set (listTagsForRepo ?t repo) \<longleftrightarrow> getManifestDigestForTag ?t repo tag \<noteq> None"
    by (auto simp: listTagsForRepo_def select_where_def digest_for_tag_lookup lookup_pk_None_iff rt_key_def image_iff)
qed

text \<open>The pull gate is isolated per repository: a repository can read a digest under a kind
  exactly when one of the recorded pushes was for that repository, that digest and that kind. A
  push by another repository never opens the gate, and no later push closes it.\<close>

theorem membership_isolation:
  "hasMembership (run_pushes ps) repo digest kind \<longleftrightarrow> (\<exists>now fp. (repo, digest, kind, now, fp) \<in> set ps)"
proof -
  have "hasMembership (foldl (\<lambda>t (r, d, k, now, fp). recordMembership t r d k now fp) t ps) repo digest kind \<longleftrightarrow>
      hasMembership t repo digest kind \<or> (\<exists>now fp. (repo, digest, kind, now, fp) \<in> set ps)" for t
  proof (induction ps arbitrary: t)
    case (Cons p ps)
    obtain r d k now fp where "p = (r, d, k, now, fp)" by (cases p)
    with Cons.IH show ?case by (fastforce simp: hasMembership_record)
  qed simp
  then show ?thesis by (simp add: run_pushes_def hasMembership_iff)
qed

text \<open>The operator's reverse listing agrees with the gate: it is in byte order without
  duplicates, and lists a repository exactly when the gate admits it for the digest under some kind.\<close>

theorem membership_reverse_listing:
  "sorted (map utf8_encode (listReposWithMembership t digest)) \<and>
   distinct (listReposWithMembership t digest) \<and>
   (\<forall>repo. repo \<in> set (listReposWithMembership t digest) \<longleftrightarrow>
      hasMembership t repo digest MBlob \<or> hasMembership t repo digest MManifest)"
proof (intro conjI allI)
  show "sorted (map utf8_encode (listReposWithMembership t digest))"
    using order_by_text_sorted [of "\<lambda>r. r"] by (simp add: listReposWithMembership_def)
  show "distinct (listReposWithMembership t digest)"
    using distinct_order_by_text [of "\<lambda>r. r" "\<lambda>r. r"] by (simp add: listReposWithMembership_def)
  fix repo
  have "repo \<in> set (listReposWithMembership t digest) \<longleftrightarrow> (\<exists>k. hasMembership t repo digest k)"
    by (auto simp: listReposWithMembership_def select_where_def hasMembership_iff mb_key_def image_iff)
  then show "repo \<in> set (listReposWithMembership t digest) \<longleftrightarrow>
      hasMembership t repo digest MBlob \<or> hasMembership t repo digest MManifest"
    by (metis membershipKind.exhaust)
qed

end
