(* ===== verification/Receipt_Archive.thy ===== *)
theory Receipt_Archive
  imports Sql_Table
begin

text \<open>
  The receipt archive (\<open>src/storage/peer-receipts.ts\<close>) and the archive of the actor's own signing
  epochs (\<open>src/storage/actor-ca-bundle.ts\<close>). The retention sweep joins the two: a receipt this
  actor emitted is dropped only when the epoch that signed it was retired longer ago than the
  retention window.
\<close>

section \<open>Receipts\<close>

datatype direction = DirIn | DirOut

record peerReceiptRow =
  pr_actor_fp :: jsstr
  pr_request_hash :: jsstr
  pr_direction :: direction
  pr_epoch :: int
  pr_peer_fp :: "jsstr option"
  pr_status :: int
  pr_timestamp_ms :: int
  pr_envelope_b64u :: jsstr
  pr_observed_at_ms :: int

definition pr_key :: "peerReceiptRow \<Rightarrow> jsstr \<times> jsstr \<times> direction" where
  "pr_key r = (pr_actor_fp r, pr_request_hash r, pr_direction r)"

definition upsertPeerReceipt :: "peerReceiptRow list \<Rightarrow> peerReceiptRow \<Rightarrow> peerReceiptRow list" where
  "upsertPeerReceipt t row = upsert pr_key row t"

definition findPeerReceipt ::
    "peerReceiptRow list \<Rightarrow> jsstr \<Rightarrow> jsstr \<Rightarrow> direction \<Rightarrow> peerReceiptRow option" where
  "findPeerReceipt t actorFp requestHash dir =
     (let rows = limit 1 (select_where (\<lambda>r. pr_actor_fp r = actorFp \<and> pr_request_hash r = requestHash
                                            \<and> pr_direction r = dir) t) in
      if length rows = 0 then None else Some (hd rows))"

definition DEFAULT_RECEIPT_RETENTION_MS :: int where
  "DEFAULT_RECEIPT_RETENTION_MS = 7 * 365 * 24 * 60 * 60 * 1000"

definition listReceiptsForActorEpoch :: "peerReceiptRow list \<Rightarrow> jsstr \<Rightarrow> int \<Rightarrow> int \<Rightarrow> peerReceiptRow list" where
  "listReceiptsForActorEpoch t actorFp epoch lim =
     limit lim (order_by_int pr_timestamp_ms (select_where (\<lambda>r. pr_actor_fp r = actorFp \<and> pr_epoch r = epoch) t))"

section \<open>The actor's signing epochs\<close>

datatype epochStatus = EActive | ERetired

record actorCaBundleEntry =
  cb_epoch :: int
  cb_signing_key_pubkey_b64u :: jsstr
  cb_cert_der_b64u :: "jsstr option"
  cb_issued_at_ms :: int
  cb_retired_at_ms :: "int option"
  cb_status :: epochStatus
  cb_compromise_notice_b64u :: "jsstr option"
  cb_external_anchor_uri :: "jsstr option"

definition upsertActorCaBundle :: "actorCaBundleEntry list \<Rightarrow> actorCaBundleEntry \<Rightarrow> actorCaBundleEntry list" where
  "upsertActorCaBundle t row = upsert cb_epoch row t"

definition getActorCaBundle :: "actorCaBundleEntry list \<Rightarrow> int \<Rightarrow> actorCaBundleEntry option" where
  "getActorCaBundle t epoch =
     (let rows = limit 1 (select_where (\<lambda>r. cb_epoch r = epoch) t) in
      if length rows = 0 then None else Some (hd rows))"

definition listActorCaBundleEpochs :: "actorCaBundleEntry list \<Rightarrow> actorCaBundleEntry list" where
  "listActorCaBundleEpochs t = order_by_int_desc cb_epoch t"

definition attachCompromiseNotice ::
    "actorCaBundleEntry list \<Rightarrow> int \<Rightarrow> jsstr \<Rightarrow> actorCaBundleEntry list \<times> bool" where
  "attachCompromiseNotice t compromisedEpoch noticeB64u =
     (case getActorCaBundle t compromisedEpoch of
        None \<Rightarrow> (t, False)
      | Some _ \<Rightarrow>
          (update_where (\<lambda>r. cb_epoch r = compromisedEpoch)
             (\<lambda>r. r\<lparr>cb_compromise_notice_b64u := Some noticeB64u\<rparr>) t, True))"

section \<open>The retention sweep\<close>

text \<open>The epochs the \<open>DELETE\<close>'s sub-select returns; \<open>retired_at_ms IS NOT NULL\<close> is the \<open>Some\<close> case.\<close>

definition expired_entry :: "int \<Rightarrow> int \<Rightarrow> actorCaBundleEntry \<Rightarrow> bool" where
  "expired_entry retentionMs nowMs e =
     (cb_status e = ERetired \<and>
      (case cb_retired_at_ms e of None \<Rightarrow> False | Some m \<Rightarrow> m + retentionMs < nowMs))"

definition min_timestamp :: "peerReceiptRow list \<Rightarrow> int option" where
  "min_timestamp t = (if t = [] then None else Some (Min (set (map pr_timestamp_ms t))))"

definition pruneExpiredReceipts ::
    "peerReceiptRow list \<Rightarrow> actorCaBundleEntry list \<Rightarrow> int \<Rightarrow> int \<Rightarrow> peerReceiptRow list \<times> int \<times> int option" where
  "pruneExpiredReceipts t ca nowMs retentionMs =
     (let epochs = map cb_epoch (select_where (expired_entry retentionMs nowMs) ca);
          (t', rows) = delete_where (\<lambda>r. pr_direction r = DirOut \<and> pr_epoch r \<in> set epochs) t
      in (t', int (length rows), min_timestamp t'))"

section \<open>Lemmas\<close>

interpretation receipts: keyed_store "[] :: peerReceiptRow list" upsertPeerReceipt
    "\<lambda>t k. findPeerReceipt t (fst k) (fst (snd k)) (snd (snd k))" pr_key "pk_unique pr_key"
proof -
  have f: "findPeerReceipt t (fst k) (fst (snd k)) (snd (snd k)) = lookup_pk pr_key k t" for t k
    by (induction t) (auto simp: findPeerReceipt_def limit_def select_where_def pr_key_def Let_def)
  show "keyed_store ([] :: peerReceiptRow list) upsertPeerReceipt
    (\<lambda>t k. findPeerReceipt t (fst k) (fst (snd k)) (snd (snd k))) pr_key (pk_unique pr_key)"
    by unfold_locales (auto simp: f upsertPeerReceipt_def table_simps intro: inv_intros)
qed

lemma findPeerReceipt_lookup: "findPeerReceipt t a h d = lookup_pk pr_key (a, h, d) t"
  by (induction t) (auto simp: findPeerReceipt_def limit_def select_where_def pr_key_def Let_def)

lemma getActorCaBundle_lookup: "getActorCaBundle t e = lookup_pk cb_epoch e t"
  by (induction t) (auto simp: getActorCaBundle_def limit_def select_where_def Let_def)

interpretation epochs: keyed_store "[] :: actorCaBundleEntry list" upsertActorCaBundle
    getActorCaBundle cb_epoch "pk_unique cb_epoch"
  by unfold_locales
     (auto simp: getActorCaBundle_lookup upsertActorCaBundle_def table_simps intro: inv_intros)

lemma attach_unique [inv_intros]:
  "pk_unique cb_epoch t \<Longrightarrow> pk_unique cb_epoch (fst (attachCompromiseNotice t e n))"
  by (auto simp: attachCompromiseNotice_def split: option.split intro: inv_intros)

lemma pruned_receipts:
  "fst (pruneExpiredReceipts t ca now ret) =
     filter (\<lambda>r. \<not> (pr_direction r = DirOut \<and> (\<exists>e \<in> set ca. cb_epoch e = pr_epoch r \<and> expired_entry ret now e))) t"
  by (auto simp: pruneExpiredReceipts_def delete_where_def select_where_def Let_def image_iff intro!: filter_cong)

lemma prune_unique [inv_intros]:
  "pk_unique pr_key t \<Longrightarrow> pk_unique pr_key (fst (pruneExpiredReceipts t ca now ret))"
  by (simp add: pruned_receipts pk_unique_filter)

lemma expired_epoch_lookup:
  assumes "pk_unique cb_epoch ca"
  shows "(\<exists>e \<in> set ca. cb_epoch e = k \<and> P e) \<longleftrightarrow> (case getActorCaBundle ca k of None \<Rightarrow> False | Some e \<Rightarrow> P e)"
proof (cases "getActorCaBundle ca k")
  case None
  then have "k \<notin> cb_epoch ` set ca" by (simp add: getActorCaBundle_lookup lookup_pk_None_iff)
  then show ?thesis using None by auto
next
  case (Some e)
  then have "e \<in> set ca \<and> cb_epoch e = k" by (auto simp: getActorCaBundle_lookup dest: lookup_pk_SomeD)
  moreover have "e' = e" if "e' \<in> set ca" "cb_epoch e' = k" for e'
    using lookup_pk_unique [OF assms that(1)] that(2) Some by (simp add: getActorCaBundle_lookup)
  ultimately show ?thesis using Some by auto
qed

lemma min_timestamp_attained:
  "min_timestamp t = Some m \<Longrightarrow> (\<exists>r \<in> set t. pr_timestamp_ms r = m) \<and> (\<forall>r \<in> set t. m \<le> pr_timestamp_ms r)"
proof -
  assume a: "min_timestamp t = Some m"
  then have ne: "t \<noteq> []" "m = Min (pr_timestamp_ms ` set t)" by (auto simp: min_timestamp_def split: if_splits)
  then have "m \<in> pr_timestamp_ms ` set t" by (metis Min_in finite_imageI finite_set image_is_empty set_empty)
  then obtain r where "r \<in> set t" "pr_timestamp_ms r = m" by auto
  then show ?thesis using ne(2) by auto
qed

section \<open>Properties\<close>

text \<open>The retention sweep seen through the lookup of a receipt: a receipt is gone afterwards
  exactly when this actor emitted it and the archive entry of its epoch is retired with a
  retirement time more than the retention window ago. Receipts observed from peers, receipts of
  active epochs and of epochs with no archive entry stay, whatever their age.\<close>

theorem prune_drops_only_expired:
  assumes "pk_unique pr_key t" "pk_unique cb_epoch ca"
  shows "findPeerReceipt (fst (pruneExpiredReceipts t ca now ret)) a h d =
     (case findPeerReceipt t a h d of
        None \<Rightarrow> None
      | Some r \<Rightarrow>
          if d = DirOut \<and> (\<exists>e m. getActorCaBundle ca (pr_epoch r) = Some e \<and> cb_status e = ERetired \<and>
                                 cb_retired_at_ms e = Some m \<and> m + ret < now)
          then None else Some r)"
proof -
  let ?p = "\<lambda>r. pr_direction r = DirOut \<and> (\<exists>e \<in> set ca. cb_epoch e = pr_epoch r \<and> expired_entry ret now e)"
  have "findPeerReceipt (fst (pruneExpiredReceipts t ca now ret)) a h d =
      (case findPeerReceipt t a h d of None \<Rightarrow> None | Some r \<Rightarrow> if ?p r then None else Some r)"
    using lookup_delete_where [OF assms(1), of "(a, h, d)" ?p]
    by (simp add: findPeerReceipt_lookup pruned_receipts delete_where_def)
  then show ?thesis
    by (auto simp: expired_epoch_lookup [OF assms(2)] expired_entry_def findPeerReceipt_lookup pr_key_def
        split: option.splits dest: lookup_pk_SomeD)
qed

definition sample_receipts :: "peerReceiptRow list" where
  "sample_receipts = map (\<lambda>(e, d, ts).
     \<lparr>pr_actor_fp = js ''me'', pr_request_hash = js ''h'' @ [of_int e], pr_direction = d, pr_epoch = e, pr_peer_fp = None,
      pr_status = 200, pr_timestamp_ms = ts, pr_envelope_b64u = js ''env'', pr_observed_at_ms = ts\<rparr>)
     [(1, DirOut, 10), (2, DirOut, 20), (1, DirIn, 5)]"

definition sample_epochs :: "actorCaBundleEntry list" where
  "sample_epochs =
     [\<lparr>cb_epoch = 1, cb_signing_key_pubkey_b64u = js ''k1'', cb_cert_der_b64u = None, cb_issued_at_ms = 0,
       cb_retired_at_ms = Some 100, cb_status = ERetired, cb_compromise_notice_b64u = None, cb_external_anchor_uri = None\<rparr>,
      \<lparr>cb_epoch = 2, cb_signing_key_pubkey_b64u = js ''k2'', cb_cert_der_b64u = None, cb_issued_at_ms = 100,
       cb_retired_at_ms = None, cb_status = EActive, cb_compromise_notice_b64u = None, cb_external_anchor_uri = None\<rparr>]"

lemma sample_archive_unique: "pk_unique pr_key sample_receipts" "pk_unique cb_epoch sample_epochs"
  by (simp_all add: pk_unique_def sample_receipts_def sample_epochs_def pr_key_def)

theorem prune_drops_only_expired_witness:
  "findPeerReceipt sample_receipts (js ''me'') (js ''h'' @ [1]) DirOut \<noteq> None \<and>
   findPeerReceipt (fst (pruneExpiredReceipts sample_receipts sample_epochs 301 200)) (js ''me'') (js ''h'' @ [1]) DirOut = None \<and>
   findPeerReceipt (fst (pruneExpiredReceipts sample_receipts sample_epochs 300 200)) (js ''me'') (js ''h'' @ [1]) DirOut \<noteq> None"
  unfolding prune_drops_only_expired [OF sample_archive_unique]
  by (simp add: findPeerReceipt_def getActorCaBundle_def sample_receipts_def sample_epochs_def select_where_def limit_def)

text \<open>The sweep reports what it did: the count is the number of receipts removed, and the
  oldest remaining time is that of a remaining receipt that no other remaining receipt precedes,
  or null when none remains.\<close>

theorem prune_report:
  assumes "pruneExpiredReceipts t ca now ret = (t', deleted, oldest)"
  shows "deleted = int (length t) - int (length t') \<and>
    (case oldest of None \<Rightarrow> t' = []
     | Some m \<Rightarrow> (\<exists>r \<in> set t'. pr_timestamp_ms r = m) \<and> (\<forall>r \<in> set t'. m \<le> pr_timestamp_ms r))"
proof -
  let ?p = "\<lambda>r. pr_direction r = DirOut \<and> pr_epoch r \<in> set (map cb_epoch (select_where (expired_entry ret now) ca))"
  have t': "t' = filter (\<lambda>r. \<not> ?p r) t" and n: "deleted = int (length (filter ?p t))" and o: "oldest = min_timestamp t'"
    using assms by (auto simp: pruneExpiredReceipts_def delete_where_def Let_def)
  have "length t = length (filter ?p t) + length t'"
    unfolding t' by (rule sum_length_filter_compl [symmetric])
  then show ?thesis using n o min_timestamp_attained [of t']
    by (auto simp: min_timestamp_def split: option.split if_splits)
qed

theorem prune_report_witness:
  "pruneExpiredReceipts sample_receipts sample_epochs 301 200 = (tl sample_receipts, 1, Some 5) \<and>
   (1 :: int) = int (length sample_receipts) - int (length (tl sample_receipts))"
proof -
  have "pruneExpiredReceipts sample_receipts sample_epochs 301 200 = (tl sample_receipts, 1, Some 5)"
    by (simp add: pruneExpiredReceipts_def delete_where_def select_where_def expired_entry_def
        sample_receipts_def sample_epochs_def min_timestamp_def)
  with prune_report [OF this] show ?thesis by simp
qed

text \<open>A compromise notice is attached to an existing epoch only: the call reports whether the
  epoch was archived, afterwards that epoch carries the notice with its other columns as they were,
  every other epoch is as it was, and nothing is inserted when it was not archived.\<close>

theorem attach_notice_effect:
  "snd (attachCompromiseNotice t e n) = (getActorCaBundle t e \<noteq> None) \<and>
   getActorCaBundle (fst (attachCompromiseNotice t e n)) k =
     (if k = e then map_option (\<lambda>r. r\<lparr>cb_compromise_notice_b64u := Some n\<rparr>) (getActorCaBundle t e)
      else getActorCaBundle t k)"
proof (cases "getActorCaBundle t e")
  case None
  then show ?thesis by (simp add: attachCompromiseNotice_def)
next
  case (Some r)
  have "lookup_pk cb_epoch k (update_where (\<lambda>r. cb_epoch r = e) (\<lambda>r. r\<lparr>cb_compromise_notice_b64u := Some n\<rparr>) t) =
      map_option (\<lambda>r. if cb_epoch r = e then r\<lparr>cb_compromise_notice_b64u := Some n\<rparr> else r) (lookup_pk cb_epoch k t)"
    by (rule lookup_update_where) simp
  then show ?thesis using Some
    by (cases "lookup_pk cb_epoch k t")
       (auto simp: attachCompromiseNotice_def getActorCaBundle_lookup dest: lookup_pk_SomeD)
qed

end
