(* ===== verification/Lease_Ledger.thy ===== *)
theory Lease_Ledger
  imports Sql_Table Js_Base64
begin

text \<open>
  The two tables behind an authenticated request: the replay ledger (\<open>src/storage/seen-nonces.ts\<close>)
  and the per-peer hash-chained counter (\<open>src/storage/peer-lease-counters.ts\<close>). \<open>crypto.subtle\<close>'s
  SHA-256 is the parameter \<open>sha\<close>; nothing is assumed of it, and the binding property names the
  colliding transcripts instead. \<open>replay_ledger\<close> is the contract the lease gate relies on.
\<close>

section \<open>The replay ledger\<close>

record seen_nonce =
  sn_cert_fp :: jsstr
  sn_nonce :: jsstr
  sn_ts_ms :: int

definition sn_key :: "seen_nonce \<Rightarrow> jsstr \<times> jsstr" where
  "sn_key r = (sn_cert_fp r, sn_nonce r)"

definition recordSeenNonce :: "seen_nonce list \<Rightarrow> jsstr \<Rightarrow> jsstr \<Rightarrow> int \<Rightarrow> seen_nonce list \<times> bool" where
  "recordSeenNonce t certFp nonce tsMs =
     (let (t', rows) = insert_ignore sn_key \<lparr>sn_cert_fp = certFp, sn_nonce = nonce, sn_ts_ms = tsMs\<rparr> t
      in (t', length rows = 1))"

definition pruneSeenNoncesBefore :: "seen_nonce list \<Rightarrow> int \<Rightarrow> seen_nonce list \<times> int" where
  "pruneSeenNoncesBefore t beforeTsMs =
     (let (t', rows) = delete_where (\<lambda>r. sn_ts_ms r < beforeTsMs) t in (t', int (length rows)))"

section \<open>The lease counter chain\<close>

record peerLeaseCounter =
  lc_peer_fingerprint :: jsstr
  lc_seq :: int
  lc_last_chain_hash :: jsstr
  lc_last_cert_fp :: jsstr
  lc_updated_at :: int

definition ZERO_HASH :: jsstr where
  "ZERO_HASH = replicate 64 (of_char CHR ''0'')"

definition chain_message :: "jsstr \<Rightarrow> jsstr \<Rightarrow> jsstr \<Rightarrow> int \<Rightarrow> bytes" where
  "chain_message prevHash certFp nonce ts = utf8_encode (prevHash @ certFp @ nonce @ dec_of_int ts)"

definition nextChainHash :: "(bytes \<Rightarrow> bytes) \<Rightarrow> jsstr \<Rightarrow> jsstr \<Rightarrow> jsstr \<Rightarrow> int \<Rightarrow> jsstr" where
  "nextChainHash sha prevHash certFp nonce ts = to_hex (sha (chain_message prevHash certFp nonce ts))"

definition readLeaseCounter :: "peerLeaseCounter list \<Rightarrow> jsstr \<Rightarrow> peerLeaseCounter option" where
  "readLeaseCounter t peerFingerprint = first_row (select_where (\<lambda>r. lc_peer_fingerprint r = peerFingerprint) t)"

datatype chain_integrity_error = NonMonotonicSeq int int | ChainHashSkip jsstr jsstr

definition assertChainStep ::
    "(bytes \<Rightarrow> bytes) \<Rightarrow> int \<Rightarrow> jsstr \<Rightarrow> int \<Rightarrow> jsstr \<Rightarrow> jsstr \<Rightarrow> jsstr \<Rightarrow> int \<Rightarrow> chain_integrity_error + unit" where
  "assertChainStep sha prevSeq prevHash nextSeq nextHash certFp nonce ts =
     (if nextSeq \<noteq> prevSeq + 1 then Inl (NonMonotonicSeq (prevSeq + 1) nextSeq)
      else let expectedNextHash = nextChainHash sha prevHash certFp nonce ts in
        if nextHash \<noteq> expectedNextHash then Inl (ChainHashSkip expectedNextHash nextHash)
        else Inr ())"

record lease_step =
  ls_prevSeq :: int
  ls_prevHash :: jsstr
  ls_seq :: int
  ls_last_chain_hash :: jsstr

definition computeNextLeaseStep ::
    "(bytes \<Rightarrow> bytes) \<Rightarrow> peerLeaseCounter list \<Rightarrow> jsstr \<Rightarrow> jsstr \<Rightarrow> jsstr \<Rightarrow> int \<Rightarrow> chain_integrity_error + lease_step" where
  "computeNextLeaseStep sha t peerFp certFp nonce ts =
     (let existing = readLeaseCounter t peerFp;
          prevHash = nullish (map_option lc_last_chain_hash existing) ZERO_HASH;
          prevSeq = nullish (map_option lc_seq existing) 0;
          last_chain_hash = nextChainHash sha prevHash certFp nonce ts;
          seq = prevSeq + 1
      in case assertChainStep sha prevSeq prevHash seq last_chain_hash certFp nonce ts of
           Inl e \<Rightarrow> Inl e
         | Inr _ \<Rightarrow> Inr \<lparr>ls_prevSeq = prevSeq, ls_prevHash = prevHash, ls_seq = seq, ls_last_chain_hash = last_chain_hash\<rparr>)"

definition writeLeaseCounterRow ::
    "peerLeaseCounter list \<Rightarrow> jsstr \<Rightarrow> jsstr \<Rightarrow> int \<Rightarrow> int \<Rightarrow> jsstr \<Rightarrow> peerLeaseCounter list" where
  "writeLeaseCounterRow t peerFp certFp ts seq lastChainHash =
     upsert lc_peer_fingerprint
       \<lparr>lc_peer_fingerprint = peerFp, lc_seq = seq, lc_last_chain_hash = lastChainHash,
        lc_last_cert_fp = certFp, lc_updated_at = ts\<rparr> t"

definition applyLeaseCounter ::
    "(bytes \<Rightarrow> bytes) \<Rightarrow> peerLeaseCounter list \<Rightarrow> jsstr \<Rightarrow> jsstr \<Rightarrow> jsstr \<Rightarrow> int \<Rightarrow>
     chain_integrity_error + peerLeaseCounter list \<times> int \<times> jsstr" where
  "applyLeaseCounter sha t peerFp certFp nonce ts =
     (case computeNextLeaseStep sha t peerFp certFp nonce ts of
        Inl e \<Rightarrow> Inl e
      | Inr step \<Rightarrow>
          Inr (writeLeaseCounterRow t peerFp certFp ts (ls_seq step) (ls_last_chain_hash step),
               ls_seq step, ls_last_chain_hash step))"

section \<open>The replay ledger interface\<close>

datatype 'k ledger_event = Record 'k int | Prune int

locale replay_ledger =
  fixes init :: 't
    and spend :: "'t \<Rightarrow> 'k \<Rightarrow> int \<Rightarrow> 't \<times> bool"
    and forget :: "'t \<Rightarrow> int \<Rightarrow> 't"
    and seen :: "'t \<Rightarrow> 'k \<Rightarrow> int option"
    and inv :: "'t \<Rightarrow> bool"
  assumes inv_init: "inv init"
    and inv_spend: "inv t \<Longrightarrow> inv (fst (spend t k ts))"
    and inv_forget: "inv t \<Longrightarrow> inv (forget t before)"
    and seen_init: "seen init k = None"
    and spend_fresh: "snd (spend t k ts) \<longleftrightarrow> seen t k = None"
    and seen_spend: "inv t \<Longrightarrow> seen (fst (spend t k ts)) k' = (if k' = k then Some (nullish (seen t k) ts) else seen t k')"
    and seen_forget: "inv t \<Longrightarrow> seen (forget t before) k =
          (case seen t k of None \<Rightarrow> None | Some ts \<Rightarrow> if ts < before then None else Some ts)"
begin

fun play :: "'t \<Rightarrow> 'k ledger_event list \<Rightarrow> 't" where
  "play t [] = t"
| "play t (Record k ts # es) = play (fst (spend t k ts)) es"
| "play t (Prune before # es) = play (forget t before) es"

lemma inv_play: "inv t \<Longrightarrow> inv (play t es)"
  by (induction t es rule: play.induct) (simp_all add: inv_spend inv_forget)

text \<open>An entry stays as long as no sweep has a cutoff past its time.\<close>

lemma entry_survives:
  "inv t \<Longrightarrow> seen t k = Some ts \<Longrightarrow> (\<And>before. Prune before \<in> set es \<Longrightarrow> before \<le> ts) \<Longrightarrow> seen (play t es) k = Some ts"
proof (induction t es rule: play.induct)
  case (3 t before es)
  then have "before \<le> ts" by simp
  with 3 show ?case by (simp add: inv_forget seen_forget)
next
  case (2 t k' ts' es)
  then show ?case by (cases "k = k'") (auto simp: inv_spend seen_spend)
qed simp

lemma second_use_refused:
  assumes "inv t" "snd (spend t k ts)" "\<And>before. Prune before \<in> set es \<Longrightarrow> before \<le> ts"
  shows "\<not> snd (spend (play (fst (spend t k ts)) es) k ts')"
proof -
  have "seen (fst (spend t k ts)) k = Some ts" using assms(1,2) by (simp add: spend_fresh seen_spend)
  then show ?thesis using entry_survives [of "fst (spend t k ts)" k ts es] assms(1,3) inv_spend
    by (simp add: spend_fresh)
qed

end

section \<open>Lemmas on the replay ledger\<close>

definition seen_at :: "seen_nonce list \<Rightarrow> jsstr \<times> jsstr \<Rightarrow> int option" where
  "seen_at t k = map_option sn_ts_ms (lookup_pk sn_key k t)"

interpretation nonces: replay_ledger "[] :: seen_nonce list"
    "\<lambda>t k ts. recordSeenNonce t (fst k) (snd k) ts" "\<lambda>t before. fst (pruneSeenNoncesBefore t before)"
    seen_at "pk_unique sn_key"
proof unfold_locales
  fix t :: "seen_nonce list" and k k' :: "jsstr \<times> jsstr" and ts before :: int
  let ?r = "\<lparr>sn_cert_fp = fst k, sn_nonce = snd k, sn_ts_ms = ts\<rparr>"
  have rec: "recordSeenNonce t (fst k) (snd k) ts =
      (fst (insert_ignore sn_key ?r t), length (snd (insert_ignore sn_key ?r t)) = 1)"
    by (simp add: recordSeenNonce_def split: prod.split)
  have k: "sn_key ?r = k" by (simp add: sn_key_def)
  have prune: "fst (pruneSeenNoncesBefore t before) = fst (delete_where (\<lambda>r. sn_ts_ms r < before) t)"
    by (simp add: pruneSeenNoncesBefore_def split: prod.split)
  show "snd (recordSeenNonce t (fst k) (snd k) ts) \<longleftrightarrow> seen_at t k = None"
    unfolding rec snd_conv insert_ignore_rows k by (simp add: seen_at_def)
  show "pk_unique sn_key (fst (recordSeenNonce t (fst k) (snd k) ts))" if "pk_unique sn_key t"
    using that by (simp add: rec inv_intros)
  show "pk_unique sn_key (fst (pruneSeenNoncesBefore t before))" if "pk_unique sn_key t"
    using that by (simp add: prune inv_intros)
  show "seen_at (fst (recordSeenNonce t (fst k) (snd k) ts)) k' =
      (if k' = k then Some (nullish (seen_at t k) ts) else seen_at t k')"
    by (simp add: rec seen_at_def lookup_insert_ignore k nullish_def split: option.split)
  show "seen_at (fst (pruneSeenNoncesBefore t before)) k =
      (case seen_at t k of None \<Rightarrow> None | Some ts \<Rightarrow> if ts < before then None else Some ts)" if "pk_unique sn_key t"
    using that by (simp add: prune seen_at_def lookup_delete_where split: option.split)
qed (simp_all add: seen_at_def)

section \<open>Lemmas on the counter chain\<close>

lemma readLeaseCounter_lookup: "readLeaseCounter t p = lookup_pk lc_peer_fingerprint p t"
  by (simp add: readLeaseCounter_def lookup_pk_def)

interpretation counters: keyed_store "[] :: peerLeaseCounter list"
    "\<lambda>t r. writeLeaseCounterRow t (lc_peer_fingerprint r) (lc_last_cert_fp r) (lc_updated_at r) (lc_seq r) (lc_last_chain_hash r)"
    readLeaseCounter lc_peer_fingerprint "pk_unique lc_peer_fingerprint"
  by unfold_locales
     (auto simp: readLeaseCounter_lookup writeLeaseCounterRow_def table_simps intro: inv_intros)

text \<open>The defensive check never fires on the values \<open>computeNextLeaseStep\<close> computes.\<close>

lemma computeNextLeaseStep_ok:
  "computeNextLeaseStep sha t peerFp certFp nonce ts =
     (let prevHash = nullish (map_option lc_last_chain_hash (readLeaseCounter t peerFp)) ZERO_HASH;
          prevSeq = nullish (map_option lc_seq (readLeaseCounter t peerFp)) 0
      in Inr \<lparr>ls_prevSeq = prevSeq, ls_prevHash = prevHash, ls_seq = prevSeq + 1,
              ls_last_chain_hash = nextChainHash sha prevHash certFp nonce ts\<rparr>)"
  by (simp add: computeNextLeaseStep_def assertChainStep_def Let_def)

text \<open>The abstract chain: the requests observed of a peer, in order.\<close>

type_synonym observation = "jsstr \<times> jsstr \<times> int"

fun chain_head :: "(bytes \<Rightarrow> bytes) \<Rightarrow> jsstr \<Rightarrow> observation list \<Rightarrow> jsstr" where
  "chain_head sha h [] = h"
| "chain_head sha h ((certFp, nonce, ts) # os) = chain_head sha (nextChainHash sha h certFp nonce ts) os"

lemma chain_head_append [simp]:
  "chain_head sha h (os @ [(c, n, ts)]) = nextChainHash sha (chain_head sha h os) c n ts"
  by (induction sha h os rule: chain_head.induct) simp_all

lemma length_dec_digits: "10 ^ k \<le> n \<Longrightarrow> n < 10 ^ Suc k \<Longrightarrow> length (dec_digits n) = Suc k"
proof (induction k arbitrary: n)
  case (Suc k)
  then have "10 ^ k \<le> n div 10" "n div 10 < 10 ^ Suc k" by auto
  moreover have "\<not> n < 10" using Suc.prems(1) one_le_power [of "10 :: nat" k] by (simp only: power_Suc) linarith
  ultimately show ?case using Suc.IH by (subst dec_digits.simps) simp
next
  case 0
  then show ?case by (subst dec_digits.simps) simp
qed

text \<open>Millisecond times between 2001 and 2286 have thirteen digits.\<close>

definition wf_observation :: "observation \<Rightarrow> bool" where
  "wf_observation = (\<lambda>(certFp, nonce, ts).
     ascii certFp \<and> length certFp = 64 \<and> ascii nonce \<and> 10 ^ 12 \<le> ts \<and> ts < 10 ^ 13)"

lemma length_dec_of_int: "10 ^ 12 \<le> ts \<Longrightarrow> ts < 10 ^ 13 \<Longrightarrow> length (dec_of_int ts) = 13"
proof -
  assume "10 ^ 12 \<le> ts" "ts < 10 ^ 13"
  then have "(10 :: nat) ^ 12 \<le> nat ts" "nat ts < 10 ^ Suc 12" by simp_all
  then show ?thesis using length_dec_digits [of 12 "nat ts"] \<open>10 ^ 12 \<le> ts\<close> by (simp add: dec_of_int_def del: dec_digits.simps)
qed

lemma chain_message_inject:
  assumes "wf_observation (c, n, ts)" "wf_observation (c', n', ts')" "ascii h" "ascii h'" "length h = length h'"
  shows "chain_message h c n ts = chain_message h' c' n' ts' \<longleftrightarrow> h = h' \<and> (c, n, ts) = (c', n', ts')"
proof -
  have wf: "well_formed (h @ c @ n @ dec_of_int ts)" "well_formed (h' @ c' @ n' @ dec_of_int ts')"
    using assms by (auto simp: wf_observation_def dec_of_int_ascii intro!: ascii_well_formed)
  have len: "length (dec_of_int ts) = length (dec_of_int ts')" "length c = length c'"
    using assms(1,2) by (simp_all add: wf_observation_def length_dec_of_int)
  show ?thesis unfolding chain_message_def utf8_encode_inject [OF wf]
    using assms(5) len by (auto simp: append_eq_by_length append_eq_by_length_right)
qed

lemma chain_head_ascii: "ascii h \<Longrightarrow> ascii (chain_head sha h os)"
  by (induction sha h os rule: chain_head.induct) (simp_all add: nextChainHash_def to_hex_ascii)

lemma ascii_ZERO_HASH: "ascii ZERO_HASH" "length ZERO_HASH = 64"
  by (simp_all add: ZERO_HASH_def ascii_def)

text \<open>The bytes hashed at each step of a history.\<close>

fun transcript :: "(bytes \<Rightarrow> bytes) \<Rightarrow> jsstr \<Rightarrow> observation list \<Rightarrow> bytes list" where
  "transcript sha h [] = []"
| "transcript sha h ((certFp, nonce, ts) # os) =
     chain_message h certFp nonce ts # transcript sha (nextChainHash sha h certFp nonce ts) os"

lemma length_transcript [simp]: "length (transcript sha h os) = length os"
  by (induction sha h os rule: transcript.induct) simp_all

lemma transcript_append:
  "transcript sha h (os @ [(c, n, ts)]) = transcript sha h os @ [chain_message (chain_head sha h os) c n ts]"
  by (induction sha h os rule: transcript.induct) simp_all

lemma length_chain_head:
  "(\<And>x. length (sha x) = 32) \<Longrightarrow> length h = 64 \<Longrightarrow> length (chain_head sha h os) = 64"
  by (induction sha h os rule: chain_head.induct) (simp_all add: nextChainHash_def)

lemma same_head_same_history:
  assumes sha: "\<And>x. length (sha x) = 32"
    and "list_all wf_observation xs" "list_all wf_observation ys" "length xs = length ys"
    and "chain_head sha ZERO_HASH xs = chain_head sha ZERO_HASH ys"
  shows "xs = ys \<or> (\<exists>i < length xs. transcript sha ZERO_HASH xs ! i \<noteq> transcript sha ZERO_HASH ys ! i \<and>
       sha (transcript sha ZERO_HASH xs ! i) = sha (transcript sha ZERO_HASH ys ! i))"
  using assms(4,2,3,5)
proof (induction xs ys rule: rev_induct2)
  case (4 x xs y ys)
  obtain c n ts c' n' ts' where xy: "x = (c, n, ts)" "y = (c', n', ts')" by (metis prod_cases3)
  let ?h = "chain_head sha ZERO_HASH xs" and ?h' = "chain_head sha ZERO_HASH ys"
  have len: "length xs = length ys" using 4 by simp
  have eq: "sha (chain_message ?h c n ts) = sha (chain_message ?h' c' n' ts')"
    using 4 by (simp add: xy nextChainHash_def)
  show ?case
  proof (cases "chain_message ?h c n ts = chain_message ?h' c' n' ts'")
    case True
    have "?h = ?h' \<and> (c, n, ts) = (c', n', ts')"
    proof (rule chain_message_inject [THEN iffD1, OF _ _ _ _ _ True])
      show "length ?h = length ?h'" using length_chain_head [OF sha] ascii_ZERO_HASH(2) by simp
    qed (use 4 xy ascii_ZERO_HASH in \<open>auto intro: chain_head_ascii\<close>)
    then show ?thesis using 4 len xy
      by (auto simp: transcript_append nth_append less_Suc_eq)
  next
    case False
    then have "length xs < length (xs @ [x]) \<and>
        transcript sha ZERO_HASH (xs @ [x]) ! length xs \<noteq> transcript sha ZERO_HASH (ys @ [y]) ! length xs \<and>
        sha (transcript sha ZERO_HASH (xs @ [x]) ! length xs) = sha (transcript sha ZERO_HASH (ys @ [y]) ! length xs)"
      using eq len by (simp add: xy transcript_append nth_append)
    then show ?thesis by blast
  qed
qed simp_all

section \<open>Properties\<close>

text \<open>C36: The chain head binds the whole history of a peer: two histories of the same length whose
  certificate fingerprints are 64 characters and whose times have thirteen digits, with the same
  head, are the same observation by observation, unless at one position the two transcripts hash
  different bytes to the same digest, an explicit SHA-256 collision.\<close>

theorem chain_head_binds_history:
  assumes "\<And>x. length (sha x) = 32"
    and "list_all wf_observation xs" "list_all wf_observation ys" "length xs = length ys"
    and "chain_head sha ZERO_HASH xs = chain_head sha ZERO_HASH ys"
  shows "xs = ys \<or> (\<exists>i < length xs. transcript sha ZERO_HASH xs ! i \<noteq> transcript sha ZERO_HASH ys ! i \<and>
       sha (transcript sha ZERO_HASH xs ! i) = sha (transcript sha ZERO_HASH ys ! i))"
  using assms by (rule same_head_same_history)

definition toy_sha :: "bytes \<Rightarrow> bytes" where
  "toy_sha bs = take 32 (drop 128 bs @ replicate 32 0)"

text \<open>The digest of the witness keeps the first bytes after the two hashes, so the heads of the two
  histories agree while their nonces differ past that point.\<close>

theorem chain_head_binds_history_witness:
  "let c = replicate 64 (of_char CHR ''a'');
       xs = [(c, replicate 40 (of_char CHR ''x''), 1700000000000)];
       ys = [(c, replicate 39 (of_char CHR ''x'') @ [of_char CHR ''y''], 1700000000000)]
   in list_all wf_observation xs \<and> chain_head toy_sha ZERO_HASH xs = chain_head toy_sha ZERO_HASH ys \<and>
      (\<exists>i < length xs. transcript toy_sha ZERO_HASH xs ! i \<noteq> transcript toy_sha ZERO_HASH ys ! i \<and>
         toy_sha (transcript toy_sha ZERO_HASH xs ! i) = toy_sha (transcript toy_sha ZERO_HASH ys ! i))"
proof -
  let ?c = "replicate 64 (of_char CHR ''a'') :: jsstr"
  let ?n = "replicate 40 (of_char CHR ''x'') :: jsstr"
  let ?m = "replicate 39 (of_char CHR ''x'') @ [of_char CHR ''y''] :: jsstr"
  let ?ts = "1700000000000 :: int"
  have wf: "wf_observation (?c, ?n, ?ts)" "wf_observation (?c, ?m, ?ts)" by (auto simp: wf_observation_def ascii_def)
  have msg: "chain_message ZERO_HASH ?c n ?ts = map (\<lambda>c. of_nat (unat c)) (ZERO_HASH @ ?c @ n @ dec_of_int ?ts)"
    if "ascii n" for n
    unfolding chain_message_def
    by (rule utf8_encode_ascii) (use that wf in \<open>auto simp: wf_observation_def ascii_ZERO_HASH dec_of_int_ascii\<close>)
  have n: "ascii ?n" "ascii ?m" using wf by (simp_all add: wf_observation_def)
  have head: "chain_head toy_sha ZERO_HASH [(?c, ?n, ?ts)] = chain_head toy_sha ZERO_HASH [(?c, ?m, ?ts)]"
    using msg [OF n(1)] msg [OF n(2)] by (simp add: nextChainHash_def toy_sha_def ascii_ZERO_HASH)
  have "length (toy_sha x) = 32" for x by (simp add: toy_sha_def)
  note chain_head_binds_history [of toy_sha "[(?c, ?n, ?ts)]" "[(?c, ?m, ?ts)]", OF this]
  moreover have "?n \<noteq> ?m" by (simp add: numeral_eq_Suc)
  ultimately show ?thesis using wf head by (simp add: Let_def)
qed

end
