(* ===== verification/Attestations.thy ===== *)
theory Attestations
  imports Sql_Table
begin

text \<open>
  The per-peer attestation chain (\<open>src/storage/peer-attestations.ts\<close>) and the queue of attestations
  that still have to be written (\<open>src/storage/pending-attestations.ts\<close>). The chain of a peer is the
  list of its rows in insertion order; \<open>append_log\<close> is the contract of such an append-only store.
  JavaScript numbers that count or measure time are integers here; they stay far below \<open>2^53\<close>.
\<close>

section \<open>The attestation chain\<close>

record peerAttestation =
  pa_peer_fingerprint :: jsstr
  pa_seq :: int
  pa_prev_self_ref :: "jsstr option"
  pa_prev_peer_ref :: "jsstr option"
  pa_content_hash :: jsstr
  pa_content_type :: jsstr
  pa_scope :: jsstr
  pa_cert :: bytes
  pa_sig :: bytes
  pa_created_at :: int
  pa_bead_id :: "jsstr option"
  pa_origins :: "jsstr option"

definition pa_key :: "peerAttestation \<Rightarrow> jsstr \<times> int" where
  "pa_key r = (pa_peer_fingerprint r, pa_seq r)"

definition lastAttestationForPeer :: "peerAttestation list \<Rightarrow> jsstr \<Rightarrow> peerAttestation option" where
  "lastAttestationForPeer t peerFp =
     first_row (limit 1 (order_by_int_desc pa_seq (select_where (\<lambda>r. pa_peer_fingerprint r = peerFp) t)))"

definition attestationsForBead :: "peerAttestation list \<Rightarrow> jsstr \<Rightarrow> peerAttestation list" where
  "attestationsForBead t beadId = order_by_int pa_created_at (select_where (\<lambda>r. pa_bead_id r = Some beadId) t)"

record attestation_args =
  aa_peerFingerprint :: jsstr
  aa_contentHash :: jsstr
  aa_contentType :: jsstr
  aa_scope :: jsstr
  aa_cert :: bytes
  aa_sig :: bytes
  aa_prevSelfRef :: "jsstr option"
  aa_prevPeerRef :: "jsstr option"
  aa_nowMs :: int
  aa_beadId :: "jsstr option"
  aa_origins :: "jsstr option"

datatype applyAttestationResult =
  AttOk int peerAttestation
| PrevSelfRefMismatch jsstr "jsstr option" "jsstr option"

definition mismatch_message :: "jsstr \<Rightarrow> jsstr option \<Rightarrow> jsstr option \<Rightarrow> jsstr" where
  "mismatch_message peerFp expected got =
     js ''prev_self_ref mismatch for peer '' @ peerFp @ js '': expected '' @
     nullish expected (js ''(genesis)'') @ js '', got '' @ nullish got (js ''(genesis)'')"

text \<open>\<open>None\<close> is the exception the \<open>INSERT\<close> raises when \<open>(peer_fingerprint, seq)\<close> is taken.\<close>

definition applyAttestation ::
    "peerAttestation list \<Rightarrow> attestation_args \<Rightarrow> (peerAttestation list \<times> applyAttestationResult) option" where
  "applyAttestation t args =
     (let prev = lastAttestationForPeer t (aa_peerFingerprint args);
          expectedPrevSelfRef = map_option pa_content_hash prev
      in if aa_prevSelfRef args \<noteq> expectedPrevSelfRef
         then Some (t, PrevSelfRefMismatch
                (mismatch_message (aa_peerFingerprint args) expectedPrevSelfRef (aa_prevSelfRef args))
                expectedPrevSelfRef (aa_prevSelfRef args))
         else let seq = nullish (map_option pa_seq prev) 0 + 1;
                  row = \<lparr>pa_peer_fingerprint = aa_peerFingerprint args, pa_seq = seq,
                         pa_prev_self_ref = aa_prevSelfRef args, pa_prev_peer_ref = aa_prevPeerRef args,
                         pa_content_hash = aa_contentHash args, pa_content_type = aa_contentType args,
                         pa_scope = aa_scope args, pa_cert = aa_cert args, pa_sig = aa_sig args,
                         pa_created_at = aa_nowMs args, pa_bead_id = aa_beadId args, pa_origins = aa_origins args\<rparr>
              in case insert_row pa_key row t of None \<Rightarrow> None | Some t' \<Rightarrow> Some (t', AttOk seq row))"

definition listAttestationsForPeer ::
    "peerAttestation list \<Rightarrow> jsstr \<Rightarrow> int option \<Rightarrow> int option \<Rightarrow> peerAttestation list" where
  "listAttestationsForPeer t peerFp fromSeq lim =
     limit (nullish lim 1000)
       (order_by_int pa_seq
         (select_where (\<lambda>r. pa_peer_fingerprint r = peerFp \<and> nullish fromSeq 0 \<le> pa_seq r) t))"

definition findAttestationByContent :: "peerAttestation list \<Rightarrow> jsstr \<Rightarrow> jsstr \<Rightarrow> peerAttestation option" where
  "findAttestationByContent t peerFp contentHash =
     first_row (limit 1 (order_by_int_desc pa_seq
       (select_where (\<lambda>r. pa_peer_fingerprint r = peerFp \<and> pa_content_hash r = contentHash) t)))"

section \<open>The retry queue\<close>

record pendingAttestation =
  pd_peer_fp :: jsstr
  pd_content_hash :: jsstr
  pd_scope :: jsstr
  pd_cert :: bytes
  pd_sig :: bytes
  pd_attempts :: int
  pd_next_retry_at :: int
  pd_created_at :: int
  pd_last_attempt_at :: "int option"

definition pd_key :: "pendingAttestation \<Rightarrow> jsstr \<times> jsstr" where
  "pd_key r = (pd_peer_fp r, pd_content_hash r)"

definition RETRY_BACKOFF_MS :: "int list" where
  "RETRY_BACKOFF_MS = [30000, 60000, 120000, 300000, 600000]"

definition MAX_RETRY_ATTEMPTS :: int where
  "MAX_RETRY_ATTEMPTS = int (length RETRY_BACKOFF_MS)"

definition MAX_SAFE_INTEGER :: int where
  "MAX_SAFE_INTEGER = 2 ^ 53 - 1"

definition backoffNextRetry :: "int \<Rightarrow> int \<Rightarrow> int option" where
  "backoffNextRetry attempts nowMs =
     (if MAX_RETRY_ATTEMPTS \<le> attempts then None else Some (nowMs + RETRY_BACKOFF_MS ! nat attempts))"

record pending_args =
  pq_peerFp :: jsstr
  pq_contentHash :: jsstr
  pq_scope :: jsstr
  pq_cert :: bytes
  pq_sig :: bytes
  pq_nowMs :: int

definition enqueuePending :: "pendingAttestation list \<Rightarrow> pending_args \<Rightarrow> pendingAttestation list \<times> bool" where
  "enqueuePending t args =
     (let nextRetry = the (backoffNextRetry 0 (pq_nowMs args));
          (t', rows) = insert_ignore pd_key
            \<lparr>pd_peer_fp = pq_peerFp args, pd_content_hash = pq_contentHash args, pd_scope = pq_scope args,
             pd_cert = pq_cert args, pd_sig = pq_sig args, pd_attempts = 0, pd_next_retry_at = nextRetry,
             pd_created_at = pq_nowMs args, pd_last_attempt_at = None\<rparr> t
      in (t', length rows = 1))"

definition claimRetryBatch :: "pendingAttestation list \<Rightarrow> int \<Rightarrow> int \<Rightarrow> pendingAttestation list" where
  "claimRetryBatch t nowMs lim =
     limit lim (order_by_int pd_next_retry_at
       (select_where (\<lambda>r. pd_next_retry_at r \<le> nowMs \<and> pd_attempts r < MAX_RETRY_ATTEMPTS) t))"

definition commitPending :: "pendingAttestation list \<Rightarrow> jsstr \<Rightarrow> jsstr \<Rightarrow> pendingAttestation list \<times> bool" where
  "commitPending t peerFp contentHash =
     (let (t', rows) = delete_where (\<lambda>r. pd_peer_fp r = peerFp \<and> pd_content_hash r = contentHash) t
      in (t', length rows = 1))"

definition recordFailedAttempt ::
    "pendingAttestation list \<Rightarrow> jsstr \<Rightarrow> jsstr \<Rightarrow> int \<Rightarrow> pendingAttestation list \<times> int \<times> int option" where
  "recordFailedAttempt t peerFp contentHash nowMs =
     (case select_where (\<lambda>r. pd_peer_fp r = peerFp \<and> pd_content_hash r = contentHash) t of
        [] \<Rightarrow> (t, 0, None)
      | current # _ \<Rightarrow>
          let newAttempts = pd_attempts current + 1;
              nextRetry = backoffNextRetry newAttempts nowMs;
              stored = nullish nextRetry MAX_SAFE_INTEGER
          in (update_where (\<lambda>r. pd_peer_fp r = peerFp \<and> pd_content_hash r = contentHash)
                (\<lambda>r. r\<lparr>pd_attempts := newAttempts, pd_next_retry_at := stored, pd_last_attempt_at := Some nowMs\<rparr>) t,
              newAttempts, nextRetry))"

definition listPendingForPeer :: "pendingAttestation list \<Rightarrow> jsstr \<Rightarrow> pendingAttestation list" where
  "listPendingForPeer t peerFp = order_by_int pd_created_at (select_where (\<lambda>r. pd_peer_fp r = peerFp) t)"

section \<open>The append-only log interface\<close>

locale append_log =
  fixes push :: "'t \<Rightarrow> 'a \<Rightarrow> 't"
    and log :: "'t \<Rightarrow> 'p \<Rightarrow> 'e list"
    and inv :: "'t \<Rightarrow> bool"
  assumes inv_push: "inv t \<Longrightarrow> inv (push t a)"
    and log_push: "inv t \<Longrightarrow> log (push t a) p = log t p \<or> (\<exists>e. log (push t a) p = log t p @ [e])"
begin

lemma inv_pushes: "inv t \<Longrightarrow> inv (foldl push t as)"
  by (induction as arbitrary: t) (simp_all add: inv_push)

lemma log_extends: "inv t \<Longrightarrow> prefix (log t p) (log (foldl push t as) p)"
proof (induction as arbitrary: t)
  case (Cons a as)
  then have "prefix (log (push t a) p) (log (foldl push t (a # as)) p)" by (simp add: inv_push)
  moreover have "prefix (log t p) (log (push t a) p)" using log_push [OF Cons.prems, of a p] by auto
  ultimately show ?case using prefix_order.trans by blast
qed simp

end

section \<open>Lemmas on the chain\<close>

definition peer_chain :: "peerAttestation list \<Rightarrow> jsstr \<Rightarrow> peerAttestation list" where
  "peer_chain t p = filter (\<lambda>r. pa_peer_fingerprint r = p) t"

text \<open>A chain is linked when its rows are numbered from 1 and each names the content before it.\<close>

definition linked :: "peerAttestation list \<Rightarrow> bool" where
  "linked rows = (\<forall>i < length rows. pa_seq (rows ! i) = int i + 1 \<and>
     pa_prev_self_ref (rows ! i) = (if i = 0 then None else Some (pa_content_hash (rows ! (i - 1)))))"

definition att_inv :: "peerAttestation list \<Rightarrow> bool" where
  "att_inv t = (\<forall>p. linked (peer_chain t p))"

definition chain_end :: "peerAttestation list \<Rightarrow> peerAttestation option" where
  "chain_end rows = (if rows = [] then None else Some (last rows))"

lemma att_inv_Nil [simp]: "att_inv []"
  by (simp add: att_inv_def linked_def peer_chain_def)

lemma linked_strict: "linked rows \<Longrightarrow> sorted_wrt (<) (map pa_seq rows)"
  by (auto simp: linked_def sorted_wrt_iff_nth_less)

lemma linked_append:
  "linked rows \<Longrightarrow> pa_seq r = int (length rows) + 1 \<Longrightarrow>
   pa_prev_self_ref r = map_option pa_content_hash (chain_end rows) \<Longrightarrow> linked (rows @ [r])"
  by (auto simp: linked_def nth_append chain_end_def last_conv_nth less_Suc_eq)

lemma lastAttestation_chain_end: "att_inv t \<Longrightarrow> lastAttestationForPeer t p = chain_end (peer_chain t p)"
proof -
  assume "att_inv t"
  then have l: "linked (peer_chain t p)" by (simp add: att_inv_def)
  show ?thesis
    using order_by_int_desc_strict [OF linked_strict [OF l]]
    by (cases "peer_chain t p" rule: rev_cases)
       (simp_all add: lastAttestationForPeer_def select_where_def peer_chain_def limit_def chain_end_def)
qed

lemma last_seq: "linked rows \<Longrightarrow> nullish (map_option pa_seq (chain_end rows)) 0 = int (length rows)"
  by (cases rows rule: rev_cases) (auto simp: linked_def chain_end_def)

definition next_row :: "peerAttestation list \<Rightarrow> attestation_args \<Rightarrow> peerAttestation" where
  "next_row t args =
     \<lparr>pa_peer_fingerprint = aa_peerFingerprint args,
      pa_seq = int (length (peer_chain t (aa_peerFingerprint args))) + 1,
      pa_prev_self_ref = aa_prevSelfRef args, pa_prev_peer_ref = aa_prevPeerRef args,
      pa_content_hash = aa_contentHash args, pa_content_type = aa_contentType args,
      pa_scope = aa_scope args, pa_cert = aa_cert args, pa_sig = aa_sig args,
      pa_created_at = aa_nowMs args, pa_bead_id = aa_beadId args, pa_origins = aa_origins args\<rparr>"

lemma next_key_fresh: "att_inv t \<Longrightarrow> pa_key (next_row t args) \<notin> pa_key ` set t"
proof
  assume inv: "att_inv t" and "pa_key (next_row t args) \<in> pa_key ` set t"
  then obtain r where r: "r \<in> set t" "pa_peer_fingerprint r = aa_peerFingerprint args"
      "pa_seq r = int (length (peer_chain t (aa_peerFingerprint args))) + 1"
    by (auto simp: pa_key_def next_row_def)
  then have "r \<in> set (peer_chain t (aa_peerFingerprint args))" by (simp add: peer_chain_def)
  moreover have "linked (peer_chain t (aa_peerFingerprint args))" using inv by (simp add: att_inv_def)
  ultimately show False using r(3) by (auto simp: linked_def in_set_conv_nth)
qed

text \<open>One append, on every branch: the \<open>INSERT\<close> never conflicts.\<close>

lemma applyAttestation_cases:
  assumes "att_inv t"
  shows "applyAttestation t args =
     (let expected = map_option pa_content_hash (chain_end (peer_chain t (aa_peerFingerprint args))) in
      if aa_prevSelfRef args = expected
      then Some (t @ [next_row t args], AttOk (pa_seq (next_row t args)) (next_row t args))
      else Some (t, PrevSelfRefMismatch
             (mismatch_message (aa_peerFingerprint args) expected (aa_prevSelfRef args)) expected (aa_prevSelfRef args)))"
proof -
  have "linked (peer_chain t (aa_peerFingerprint args))" using assms by (simp add: att_inv_def)
  from last_seq [OF this] show ?thesis using next_key_fresh [OF assms, of args]
    unfolding applyAttestation_def Let_def lastAttestation_chain_end [OF assms] next_row_def
    by (simp add: insert_row_def pa_key_def)
qed

definition push_attestation :: "peerAttestation list \<Rightarrow> attestation_args \<Rightarrow> peerAttestation list" where
  "push_attestation t args = (case applyAttestation t args of None \<Rightarrow> t | Some (t', _) \<Rightarrow> t')"

lemma peer_chain_append: "peer_chain (t @ [r]) p = (if pa_peer_fingerprint r = p then peer_chain t p @ [r] else peer_chain t p)"
  by (simp add: peer_chain_def)

lemma push_attestation_eq:
  "att_inv t \<Longrightarrow> push_attestation t args =
     (if aa_prevSelfRef args = map_option pa_content_hash (chain_end (peer_chain t (aa_peerFingerprint args)))
      then t @ [next_row t args] else t)"
  by (simp add: push_attestation_def applyAttestation_cases Let_def)

lemma att_inv_push [inv_intros]: "att_inv t \<Longrightarrow> att_inv (push_attestation t args)"
  by (auto simp: push_attestation_eq att_inv_def peer_chain_append next_row_def intro!: linked_append)

interpretation attlog: append_log push_attestation peer_chain att_inv
proof unfold_locales
  show "peer_chain (push_attestation t a) p = peer_chain t p \<or> (\<exists>e. peer_chain (push_attestation t a) p = peer_chain t p @ [e])"
    if "att_inv t" for t a p using that by (auto simp: push_attestation_eq peer_chain_append)
qed (rule att_inv_push)


lemma linked_suffix:
  assumes "linked rows"
  shows "filter (\<lambda>r. int n + 1 \<le> pa_seq r) rows = drop n rows"
proof -
  have "filter (\<lambda>r. int n + 1 \<le> pa_seq r) (take n rows) = []"
    using assms by (auto simp: filter_empty_conv in_set_conv_nth linked_def)
  moreover have "filter (\<lambda>r. int n + 1 \<le> pa_seq r) (drop n rows) = drop n rows"
    using assms by (auto simp: filter_id_conv in_set_conv_nth linked_def)
  ultimately show ?thesis by (metis append_Nil append_take_drop_id filter_append)
qed

lemma list_segment:
  assumes "att_inv t"
  shows "listAttestationsForPeer t p (Some (int n + 1)) (Some (int k)) = take k (drop n (peer_chain t p))"
proof -
  have l: "linked (peer_chain t p)" using assms by (simp add: att_inv_def)
  have "filter (\<lambda>r. pa_peer_fingerprint r = p \<and> int n + 1 \<le> pa_seq r) t = drop n (peer_chain t p)"
    using linked_suffix [OF l, of n] by (simp add: peer_chain_def conj_commute)
  moreover have "sorted (map pa_seq (drop n (peer_chain t p)))"
    using linked_strict [OF l] strict_sorted_iff [of "map pa_seq (peer_chain t p)"]
    by (simp add: sorted_wrt_drop flip: drop_map)
  ultimately show ?thesis
    by (simp add: listAttestationsForPeer_def select_where_def sorted_order_by_int limit_def)
qed

section \<open>Lemmas on the retry queue\<close>

datatype pending_op = Enqueue pending_args | Commit jsstr jsstr | FailedAttempt jsstr jsstr int

fun pending_step :: "pendingAttestation list \<Rightarrow> pending_op \<Rightarrow> pendingAttestation list" where
  "pending_step t (Enqueue a) = fst (enqueuePending t a)"
| "pending_step t (Commit p h) = fst (commitPending t p h)"
| "pending_step t (FailedAttempt p h now) = fst (recordFailedAttempt t p h now)"

definition last_touched :: "pendingAttestation \<Rightarrow> int" where
  "last_touched r = nullish (pd_last_attempt_at r) (pd_created_at r)"

definition pd_row_ok :: "pendingAttestation \<Rightarrow> bool" where
  "pd_row_ok r = (0 \<le> pd_attempts r \<and>
     pd_next_retry_at r = nullish (backoffNextRetry (pd_attempts r) (last_touched r)) MAX_SAFE_INTEGER)"

definition pending_inv :: "pendingAttestation list \<Rightarrow> bool" where
  "pending_inv t = (pk_unique pd_key t \<and> (\<forall>r \<in> set t. pd_row_ok r))"

lemma backoff_simps [simp]:
  "backoffNextRetry 0 now = Some (now + 30000)" "MAX_RETRY_ATTEMPTS = 5"
  by (simp_all add: backoffNextRetry_def MAX_RETRY_ATTEMPTS_def RETRY_BACKOFF_MS_def)

lemma pd_key_iff: "(pd_peer_fp r = p \<and> pd_content_hash r = h) \<longleftrightarrow> pd_key r = (p, h)"
  by (simp add: pd_key_def)

definition fail_row :: "int \<Rightarrow> pendingAttestation \<Rightarrow> pendingAttestation" where
  "fail_row now r = r\<lparr>pd_attempts := pd_attempts r + 1,
     pd_next_retry_at := nullish (backoffNextRetry (pd_attempts r + 1) now) MAX_SAFE_INTEGER,
     pd_last_attempt_at := Some now\<rparr>"

lemma fail_row_key [simp]: "pd_key (fail_row now r) = pd_key r"
  by (simp add: fail_row_def pd_key_def)

lemma lookup_fail:
  "lookup_pk pd_key k (update_where q (fail_row now) t) =
     map_option (\<lambda>r. if q r then fail_row now r else r) (lookup_pk pd_key k t)"
  by (rule lookup_update_where) simp

text \<open>With the primary key unique, the read-then-update of a failed attempt is one row's update.\<close>

lemma recordFailedAttempt_table:
  assumes "pk_unique pd_key t"
  shows "fst (recordFailedAttempt t p h now) = update_where (\<lambda>r. pd_key r = (p, h)) (fail_row now) t"
proof (cases "select_where (\<lambda>r. pd_key r = (p, h)) t")
  case Nil
  then have "update_where (\<lambda>r. pd_key r = (p, h)) (fail_row now) t = t"
    by (auto simp: update_where_def select_where_def filter_empty_conv intro: map_idI)
  then show ?thesis using Nil by (simp add: recordFailedAttempt_def pd_key_iff)
next
  case (Cons c cs)
  then have "c \<in> set (select_where (\<lambda>r. pd_key r = (p, h)) t)" by simp
  then have c: "c \<in> set t" "pd_key c = (p, h)" by (simp_all add: select_where_def)
  have "r = c" if "r \<in> set t" "pd_key r = (p, h)" for r
    using lookup_pk_unique [OF assms that(1)] lookup_pk_unique [OF assms c(1)] that(2) c(2) by simp
  then have "update_where (\<lambda>r. pd_key r = (p, h)) (fail_row now) t =
      update_where (\<lambda>r. pd_key r = (p, h))
        (\<lambda>r. r\<lparr>pd_attempts := pd_attempts c + 1,
             pd_next_retry_at := nullish (backoffNextRetry (pd_attempts c + 1) now) MAX_SAFE_INTEGER,
             pd_last_attempt_at := Some now\<rparr>) t"
    unfolding update_where_def by (intro map_cong) (auto simp: fail_row_def)
  then show ?thesis using Cons by (simp add: recordFailedAttempt_def pd_key_iff Let_def)
qed

lemma enqueue_table:
  "fst (enqueuePending t a) = fst (insert_ignore pd_key
     \<lparr>pd_peer_fp = pq_peerFp a, pd_content_hash = pq_contentHash a, pd_scope = pq_scope a, pd_cert = pq_cert a,
      pd_sig = pq_sig a, pd_attempts = 0, pd_next_retry_at = pq_nowMs a + 30000, pd_created_at = pq_nowMs a,
      pd_last_attempt_at = None\<rparr> t)"
  by (simp add: enqueuePending_def split: prod.split)

lemma commit_table: "fst (commitPending t p h) = fst (delete_where (\<lambda>r. pd_key r = (p, h)) t)"
  by (simp add: commitPending_def pd_key_iff split: prod.split)

lemma pd_row_ok_fail: "pd_row_ok r \<Longrightarrow> pd_row_ok (fail_row now r)"
  by (simp add: pd_row_ok_def fail_row_def last_touched_def)

lemma pending_inv_step: "pending_inv t \<Longrightarrow> pending_inv (pending_step t op)"
proof (cases op)
  case (Enqueue a)
  assume "pending_inv t"
  then show ?thesis
    by (auto simp: Enqueue pending_inv_def enqueue_table intro!: inv_intros)
       (auto simp: insert_ignore_def pd_row_ok_def last_touched_def split: if_splits)
next
  case (Commit p h)
  assume "pending_inv t"
  then show ?thesis by (auto simp: Commit pending_inv_def commit_table delete_where_def intro!: inv_intros)
next
  case (FailedAttempt p h now)
  assume "pending_inv t"
  then show ?thesis
    by (auto simp: FailedAttempt pending_inv_def recordFailedAttempt_table intro!: inv_intros)
       (auto simp: update_where_def pd_row_ok_fail)
qed

lemma pending_inv_run: "pending_inv t \<Longrightarrow> pending_inv (foldl pending_step t ops)"
  by (induction ops arbitrary: t) (simp_all add: pending_inv_step)

lemma pending_inv_Nil [simp]: "pending_inv []"
  by (simp add: pending_inv_def)

definition fails_of :: "jsstr \<Rightarrow> jsstr \<Rightarrow> pending_op list \<Rightarrow> nat" where
  "fails_of p h ops = length (filter (\<lambda>op. \<exists>now. op = FailedAttempt p h now) ops)"

lemma pending_lookup_step:
  assumes "pending_inv t" "lookup_pk pd_key (p, h) t = Some r" "op \<noteq> Commit p h"
  shows "\<exists>r'. lookup_pk pd_key (p, h) (pending_step t op) = Some r' \<and> pd_created_at r' = pd_created_at r \<and>
     pd_attempts r' = pd_attempts r + int (fails_of p h [op])"
proof (cases op)
  case (Enqueue a)
  then show ?thesis using assms(2) by (auto simp: enqueue_table lookup_insert_ignore fails_of_def)
next
  case (Commit p' h')
  have "pd_key r = (p, h)" using assms(2) by (auto dest: lookup_pk_SomeD)
  then show ?thesis using assms Commit
    by (auto simp: pending_inv_def commit_table lookup_delete_where fails_of_def)
next
  case (FailedAttempt p' h' now)
  have "pd_key r = (p, h)" using assms(2) by (auto dest: lookup_pk_SomeD)
  then show ?thesis using assms FailedAttempt
    by (auto simp: pending_inv_def recordFailedAttempt_table lookup_fail fails_of_def) (auto simp: fail_row_def)
qed

lemma pending_lookup_run:
  assumes "pending_inv t" "lookup_pk pd_key (p, h) t = Some r" "Commit p h \<notin> set ops"
  shows "\<exists>r'. lookup_pk pd_key (p, h) (foldl pending_step t ops) = Some r' \<and> pd_created_at r' = pd_created_at r \<and>
     pd_attempts r' = pd_attempts r + int (fails_of p h ops)"
  using assms
proof (induction ops arbitrary: t r)
  case (Cons op ops)
  then obtain r1 where r1: "lookup_pk pd_key (p, h) (pending_step t op) = Some r1" "pd_created_at r1 = pd_created_at r"
      "pd_attempts r1 = pd_attempts r + int (fails_of p h [op])"
    using pending_lookup_step [of t p h r op] by auto
  then show ?case using Cons.IH [OF pending_inv_step [OF Cons.prems(1)] r1(1)] Cons.prems(3)
    by (auto simp: fails_of_def)
qed (simp add: fails_of_def)


section \<open>Properties\<close>

text \<open>No sequence of appends forks or rewrites a chain. Whatever the callers claim as the previous
  reference, each peer's rows are numbered 1, 2, 3, ... and each names the content hash of the row
  before it; the chain after any number of the calls is a prefix of the chain at the end; and the
  \<open>INSERT\<close> never violates the primary key.\<close>

theorem attestation_chain_never_forks:
  "linked (peer_chain (foldl push_attestation [] as) p) \<and>
   prefix (peer_chain (foldl push_attestation [] (take k as)) p) (peer_chain (foldl push_attestation [] as) p) \<and>
   applyAttestation (foldl push_attestation [] as) args \<noteq> None"
proof (intro conjI)
  have inv: "att_inv (foldl push_attestation [] bs)" for bs by (rule attlog.inv_pushes) simp
  then show "linked (peer_chain (foldl push_attestation [] as) p)" by (simp add: att_inv_def)
  have "foldl push_attestation [] as = foldl push_attestation (foldl push_attestation [] (take k as)) (drop k as)"
    by (metis append_take_drop_id foldl_append)
  then show "prefix (peer_chain (foldl push_attestation [] (take k as)) p) (peer_chain (foldl push_attestation [] as) p)"
    using attlog.log_extends [OF inv] by simp
  show "applyAttestation (foldl push_attestation [] as) args \<noteq> None"
    by (simp add: applyAttestation_cases [OF inv] Let_def)
qed

text \<open>One append on both branches. When the caller's previous reference is the content hash of the
  peer's last row (null at genesis), exactly one row is added, at the end of that peer's chain, with
  the next number; otherwise the result names the expected and the given reference and nothing is
  written.\<close>

theorem attestation_append_effect:
  assumes "att_inv t" "chain_end (peer_chain t (aa_peerFingerprint args)) = e"
  shows "applyAttestation t args =
     (if aa_prevSelfRef args = map_option pa_content_hash e
      then Some (t @ [next_row t args], AttOk (int (length (peer_chain t (aa_peerFingerprint args))) + 1) (next_row t args))
      else Some (t, PrevSelfRefMismatch
             (mismatch_message (aa_peerFingerprint args) (map_option pa_content_hash e) (aa_prevSelfRef args))
             (map_option pa_content_hash e) (aa_prevSelfRef args)))"
  using assms by (simp add: applyAttestation_cases Let_def next_row_def)

definition sample_args :: attestation_args where
  "sample_args = \<lparr>aa_peerFingerprint = js ''peer'', aa_contentHash = js ''h1'', aa_contentType = js ''bead'',
     aa_scope = js ''bead_create:r'', aa_cert = [1], aa_sig = [2], aa_prevSelfRef = None, aa_prevPeerRef = None,
     aa_nowMs = 1700000000000, aa_beadId = Some (js ''b-1''), aa_origins = None\<rparr>"

theorem attestation_append_effect_witness:
  "(case applyAttestation (push_attestation [] sample_args) sample_args of
      Some (t, PrevSelfRefMismatch _ e g) \<Rightarrow> length t = 1 \<and> e = Some (js ''h1'') \<and> g = None | _ \<Rightarrow> False) \<and>
   (case applyAttestation (push_attestation [] sample_args)
           (sample_args\<lparr>aa_prevSelfRef := Some (js ''h1''), aa_contentHash := js ''h2''\<rparr>) of
      Some (t, AttOk n r) \<Rightarrow> length t = 2 \<and> n = 2 \<and> pa_prev_self_ref r = Some (js ''h1'') | _ \<Rightarrow> False)"
proof -
  have inv: "att_inv (push_attestation [] sample_args)" by (rule att_inv_push) simp
  have t: "push_attestation [] sample_args = [next_row [] sample_args]"
    by (simp add: push_attestation_eq peer_chain_def chain_end_def sample_args_def)
  show ?thesis
    unfolding attestation_append_effect [OF inv refl] unfolding t
    by (simp add: peer_chain_def chain_end_def next_row_def sample_args_def)
qed

text \<open>Disclosure pages are complete: reading a peer's chain from position \<open>n\<close> with a limit gives
  exactly that segment of the chain, in order, with nothing skipped or repeated.\<close>

theorem attestation_pages_are_segments:
  "listAttestationsForPeer (foldl push_attestation [] as) p (Some (int n + 1)) (Some (int k)) =
     take k (drop n (peer_chain (foldl push_attestation [] as) p))"
  by (rule list_segment) (rule attlog.inv_pushes, simp)

text \<open>The retry queue keeps a write until it is committed, and counts every failure: from the
  moment a write is queued, any operations other than its own commit leave it queued with its
  original creation time and exactly as many attempts as failures recorded for it. Queueing it again
  does not reset the count.\<close>

theorem pending_kept_until_committed:
  assumes "lookup_pk pd_key (pq_peerFp a, pq_contentHash a) (foldl pending_step [] before) = None"
    and "Commit (pq_peerFp a) (pq_contentHash a) \<notin> set ops"
  shows "\<exists>r. lookup_pk pd_key (pq_peerFp a, pq_contentHash a)
         (foldl pending_step (fst (enqueuePending (foldl pending_step [] before) a)) ops) = Some r \<and>
       pd_created_at r = pq_nowMs a \<and> pd_attempts r = int (fails_of (pq_peerFp a) (pq_contentHash a) ops)"
proof -
  let ?t = "foldl pending_step [] before"
  have inv: "pending_inv (fst (enqueuePending ?t a))"
    using pending_inv_step [OF pending_inv_run [OF pending_inv_Nil], of before "Enqueue a"] by simp
  obtain r where "lookup_pk pd_key (pq_peerFp a, pq_contentHash a) (fst (enqueuePending ?t a)) = Some r"
      "pd_created_at r = pq_nowMs a" "pd_attempts r = 0"
    using assms(1) by (simp add: enqueue_table lookup_insert_ignore pd_key_def)
  then show ?thesis using pending_lookup_run [OF inv _ assms(2)] by fastforce
qed

theorem pending_kept_until_committed_witness:
  "let a = \<lparr>pq_peerFp = js ''p'', pq_contentHash = js ''h'', pq_scope = [], pq_cert = [], pq_sig = [], pq_nowMs = 7\<rparr> in
   \<exists>r. lookup_pk pd_key (js ''p'', js ''h'')
         (foldl pending_step (fst (enqueuePending [] a))
            [FailedAttempt (js ''p'') (js ''h'') 40000, Enqueue a, Commit (js ''p'') (js ''other'')]) = Some r \<and>
       pd_created_at r = 7 \<and> pd_attempts r = 1"
  using pending_kept_until_committed [of
      "\<lparr>pq_peerFp = js ''p'', pq_contentHash = js ''h'', pq_scope = [], pq_cert = [], pq_sig = [], pq_nowMs = 7\<rparr>" "[]"
      "[FailedAttempt (js ''p'') (js ''h'') 40000,
        Enqueue \<lparr>pq_peerFp = js ''p'', pq_contentHash = js ''h'', pq_scope = [], pq_cert = [], pq_sig = [], pq_nowMs = 7\<rparr>,
        Commit (js ''p'') (js ''other'')]"]
  by (simp add: fails_of_def)

text \<open>A write is retried no earlier than the backoff schedule allows and at most five times: every
  claimed row has fewer than five failures and has waited 30s, 1m, 2m, 5m or 10m (by its number of
  failures) since it was queued or last failed.\<close>

theorem claim_respects_backoff:
  assumes "r \<in> set (claimRetryBatch (foldl pending_step [] ops) now lim)"
  shows "0 \<le> pd_attempts r \<and> pd_attempts r < 5 \<and>
    nullish (pd_last_attempt_at r) (pd_created_at r) + [30000, 60000, 120000, 300000, 600000] ! nat (pd_attempts r) \<le> now"
proof -
  have r: "r \<in> set (foldl pending_step [] ops)" "pd_next_retry_at r \<le> now" "pd_attempts r < 5"
    using assms unfolding claimRetryBatch_def order_by_int_def select_where_def by (auto dest!: in_set_limitD)
  moreover have "pd_row_ok r" using r(1) pending_inv_run [OF pending_inv_Nil, of ops] by (simp add: pending_inv_def)
  ultimately show ?thesis
    by (simp add: pd_row_ok_def backoffNextRetry_def last_touched_def RETRY_BACKOFF_MS_def)
qed

theorem claim_respects_backoff_witness:
  "let a = \<lparr>pq_peerFp = js ''p'', pq_contentHash = js ''h'', pq_scope = [], pq_cert = [], pq_sig = [], pq_nowMs = 0\<rparr>;
       ops = [Enqueue a, FailedAttempt (js ''p'') (js ''h'') 30000]
   in claimRetryBatch (foldl pending_step [] ops) 89999 32 = [] \<and>
      (\<forall>r \<in> set (claimRetryBatch (foldl pending_step [] ops) 90000 32). pd_attempts r < 5) \<and>
      length (claimRetryBatch (foldl pending_step [] ops) 90000 32) = 1"
proof -
  let ?a = "\<lparr>pq_peerFp = js ''p'', pq_contentHash = js ''h'', pq_scope = [], pq_cert = [], pq_sig = [], pq_nowMs = 0\<rparr>"
  let ?ops = "[Enqueue ?a, FailedAttempt (js ''p'') (js ''h'') 30000]"
  have "\<forall>r \<in> set (claimRetryBatch (foldl pending_step [] ?ops) 90000 32). pd_attempts r < 5"
    using claim_respects_backoff [of _ ?ops 90000 32] by blast
  moreover have "claimRetryBatch (foldl pending_step [] ?ops) 89999 32 = []"
      "length (claimRetryBatch (foldl pending_step [] ?ops) 90000 32) = 1"
    by (simp_all add: enqueuePending_def insert_ignore_def recordFailedAttempt_def select_where_def update_where_def
        backoffNextRetry_def RETRY_BACKOFF_MS_def claimRetryBatch_def limit_def order_by_int_def)
  ultimately show ?thesis by (simp add: Let_def)
qed

end
