(* ===== verification/Trust_Store.thy ===== *)
theory Trust_Store
  imports Registry_Index Receipt_Archive Lease_Ledger Attestations
begin

text \<open>
  The \<open>TrustStore\<close> durable object of \<open>src/trust-store.ts\<close>: one record with its eight tables, its
  alarm and the fault-injection map of the tests, and one definition per RPC method. A method that
  runs under \<open>blockConcurrencyWhile\<close> or makes a single synchronous pass is one atomic operation;
  the retry drain yields between rows, so a row of the drain is an operation of its own and other
  calls may come between. \<open>ts_trace\<close> is the step relation over all of them. SQLite errors other than
  constraint violations are not modelled.
\<close>

section \<open>State\<close>

datatype faultKey = FaultApplyAttestation | FaultBlobStorePut | FaultBeadStoreWrite

type_synonym faults = "(faultKey \<rightharpoonup> bool) option"

record trust_store =
  ts_counters :: "peerLeaseCounter list"
  ts_nonces :: "seen_nonce list"
  ts_pending :: "pendingAttestation list"
  ts_attestations :: "peerAttestation list"
  ts_tags :: "registry_tag list"
  ts_members :: "membership list"
  ts_receipts :: "peerReceiptRow list"
  ts_epochs :: "actorCaBundleEntry list"
  ts_alarm :: "int option"
  ts_faults :: faults

definition ALARM_INTERVAL_MS :: int where
  "ALARM_INTERVAL_MS = 60 * 60 * 1000"

definition SEEN_NONCES_RETENTION_MS :: int where
  "SEEN_NONCES_RETENTION_MS = 60 * 60 * 1000"

definition checkAndConsumeFault :: "faults \<Rightarrow> faultKey \<Rightarrow> faults \<times> bool" where
  "checkAndConsumeFault faults key =
     (case faults of
        None \<Rightarrow> (faults, False)
      | Some m \<Rightarrow>
          (case m key of
             None \<Rightarrow> (faults, False)
           | Some failOnce \<Rightarrow> if failOnce then (Some (m(key := None)), True) else (faults, False)))"

definition ensureAlarmScheduled :: "trust_store \<Rightarrow> int \<Rightarrow> trust_store" where
  "ensureAlarmScheduled st now =
     (case ts_alarm st of Some _ \<Rightarrow> st | None \<Rightarrow> st\<lparr>ts_alarm := Some (now + ALARM_INTERVAL_MS)\<rparr>)"

text \<open>The constructor on an empty database.\<close>

definition new_trust_store :: "faults \<Rightarrow> int \<Rightarrow> trust_store" where
  "new_trust_store faults now = ensureAlarmScheduled
     \<lparr>ts_counters = [], ts_nonces = [], ts_pending = [], ts_attestations = [], ts_tags = [], ts_members = [],
      ts_receipts = [], ts_epochs = [], ts_alarm = None, ts_faults = faults\<rparr> now"

section \<open>Lease counters and the replay ledger\<close>

definition upsertLeaseCounter ::
    "(bytes \<Rightarrow> bytes) \<Rightarrow> trust_store \<Rightarrow> jsstr \<Rightarrow> jsstr \<Rightarrow> jsstr \<Rightarrow> int \<Rightarrow>
     chain_integrity_error + trust_store \<times> int \<times> jsstr" where
  "upsertLeaseCounter sha st peerFp certFp nonce ts =
     (case applyLeaseCounter sha (ts_counters st) peerFp certFp nonce ts of
        Inl e \<Rightarrow> Inl e
      | Inr (t, seq, h) \<Rightarrow> Inr (st\<lparr>ts_counters := t\<rparr>, seq, h))"

definition getLeaseCounter :: "trust_store \<Rightarrow> jsstr \<Rightarrow> peerLeaseCounter option" where
  "getLeaseCounter st peerFp = readLeaseCounter (ts_counters st) peerFp"

text \<open>\<open>transactionSync\<close>: a callback that throws leaves the database as it was.\<close>

definition transactionSync :: "trust_store \<Rightarrow> (trust_store \<Rightarrow> 'e + trust_store) \<Rightarrow> trust_store \<times> 'e option" where
  "transactionSync st body = (case body st of Inl e \<Rightarrow> (st, Some e) | Inr st' \<Rightarrow> (st', None))"

datatype replay_sentinel = REPLAY_SENTINEL

datatype verify_result = Replayed | Advanced int jsstr

definition verifyLeaseAndAdvanceChain ::
    "(bytes \<Rightarrow> bytes) \<Rightarrow> trust_store \<Rightarrow> jsstr \<Rightarrow> jsstr \<Rightarrow> jsstr \<Rightarrow> int \<Rightarrow>
     chain_integrity_error + trust_store \<times> verify_result" where
  "verifyLeaseAndAdvanceChain sha st peerFp certFp nonce ts =
     (case computeNextLeaseStep sha (ts_counters st) peerFp certFp nonce ts of
        Inl e \<Rightarrow> Inl e
      | Inr step \<Rightarrow>
          let (st', err) = transactionSync st (\<lambda>s.
                let (nonces, fresh) = recordSeenNonce (ts_nonces s) certFp nonce ts;
                    s1 = s\<lparr>ts_nonces := nonces\<rparr>
                in if \<not> fresh then Inl REPLAY_SENTINEL
                   else Inr (s1\<lparr>ts_counters := writeLeaseCounterRow (ts_counters s1) peerFp certFp ts
                                                  (ls_seq step) (ls_last_chain_hash step)\<rparr>))
          in case err of
               Some REPLAY_SENTINEL \<Rightarrow> Inr (st', Replayed)
             | None \<Rightarrow> Inr (st', Advanced (ls_seq step) (ls_last_chain_hash step)))"

definition ts_recordSeenNonce :: "trust_store \<Rightarrow> jsstr \<Rightarrow> jsstr \<Rightarrow> int \<Rightarrow> trust_store \<times> bool" where
  "ts_recordSeenNonce st certFp nonce tsMs =
     (let (t, fresh) = recordSeenNonce (ts_nonces st) certFp nonce tsMs in (st\<lparr>ts_nonces := t\<rparr>, fresh))"

definition pruneSeenNonces :: "trust_store \<Rightarrow> int \<Rightarrow> trust_store \<times> int" where
  "pruneSeenNonces st beforeTsMs =
     (let (t, n) = pruneSeenNoncesBefore (ts_nonces st) beforeTsMs in (st\<lparr>ts_nonces := t\<rparr>, n))"

section \<open>Attestations and the retry queue\<close>

text \<open>\<open>None\<close> is an exception of the \<open>INSERT\<close>.\<close>

definition ts_applyAttestation ::
    "trust_store \<Rightarrow> attestation_args \<Rightarrow> (trust_store \<times> applyAttestationResult) option" where
  "ts_applyAttestation st args =
     (let (fs, injected) = checkAndConsumeFault (ts_faults st) FaultApplyAttestation;
          st1 = st\<lparr>ts_faults := fs\<rparr>
      in if injected
         then Some (st1, PrevSelfRefMismatch
                (js ''test-injected applyAttestation failure (cloister-fff647)'') None None)
         else case applyAttestation (ts_attestations st1) args of
                None \<Rightarrow> None
              | Some (t, res) \<Rightarrow> Some (st1\<lparr>ts_attestations := t\<rparr>, res))"

definition peerHasChain :: "trust_store \<Rightarrow> jsstr \<Rightarrow> bool" where
  "peerHasChain st peerFp =
     (let attRow = limit 1 (select_where (\<lambda>r. pa_peer_fingerprint r = peerFp) (ts_attestations st)) in
      if 0 < length attRow then True
      else let pendingRow = limit 1 (select_where (\<lambda>r. pd_peer_fp r = peerFp) (ts_pending st))
           in 0 < length pendingRow)"

definition enqueuePendingAttestation :: "trust_store \<Rightarrow> pending_args \<Rightarrow> trust_store \<times> bool" where
  "enqueuePendingAttestation st args =
     (let (t, b) = enqueuePending (ts_pending st) args in (st\<lparr>ts_pending := t\<rparr>, b))"

definition commitPendingAttestation :: "trust_store \<Rightarrow> jsstr \<Rightarrow> jsstr \<Rightarrow> trust_store \<times> bool" where
  "commitPendingAttestation st peerFp contentHash =
     (let (t, b) = commitPending (ts_pending st) peerFp contentHash in (st\<lparr>ts_pending := t\<rparr>, b))"

definition recordPendingFailedAttempt ::
    "trust_store \<Rightarrow> jsstr \<Rightarrow> jsstr \<Rightarrow> int \<Rightarrow> trust_store \<times> int \<times> int option" where
  "recordPendingFailedAttempt st peerFp contentHash nowMs =
     (let (t, n, r) = recordFailedAttempt (ts_pending st) peerFp contentHash nowMs in (st\<lparr>ts_pending := t\<rparr>, n, r))"

text \<open>One turn of the loop of \<open>drainPendingRetries\<close>; the result is whether it was committed.\<close>

definition drain_row :: "jsstr \<Rightarrow> int \<Rightarrow> trust_store \<Rightarrow> pendingAttestation \<Rightarrow> trust_store \<times> bool" where
  "drain_row contentType nowMs st row =
     (let head = lastAttestationForPeer (ts_attestations st) (pd_peer_fp row);
          prevSelfRef = map_option pa_content_hash head;
          fail = fst (recordPendingFailedAttempt st (pd_peer_fp row) (pd_content_hash row) nowMs)
      in case applyAttestation (ts_attestations st)
             \<lparr>aa_peerFingerprint = pd_peer_fp row, aa_contentHash = pd_content_hash row,
              aa_contentType = contentType, aa_scope = pd_scope row, aa_cert = pd_cert row, aa_sig = pd_sig row,
              aa_prevSelfRef = prevSelfRef, aa_prevPeerRef = None, aa_nowMs = nowMs,
              aa_beadId = None, aa_origins = None\<rparr> of
           None \<Rightarrow> (fail, False)
         | Some (t, AttOk _ _) \<Rightarrow>
             (fst (commitPendingAttestation (st\<lparr>ts_attestations := t\<rparr>) (pd_peer_fp row) (pd_content_hash row)), True)
         | Some (_, PrevSelfRefMismatch _ _ _) \<Rightarrow> (fail, False))"

fun drain_rows :: "jsstr \<Rightarrow> int \<Rightarrow> trust_store \<Rightarrow> pendingAttestation list \<Rightarrow> trust_store \<times> int \<times> int" where
  "drain_rows contentType nowMs st [] = (st, 0, 0)"
| "drain_rows contentType nowMs st (row # rows) =
     (let (st1, ok) = drain_row contentType nowMs st row;
          (st2, committed, failed) = drain_rows contentType nowMs st1 rows
      in if ok then (st2, committed + 1, failed) else (st2, committed, failed + 1))"

definition drainPendingRetries ::
    "trust_store \<Rightarrow> int \<Rightarrow> jsstr \<Rightarrow> int option \<Rightarrow> trust_store \<times> int \<times> int \<times> int" where
  "drainPendingRetries st nowMs contentType lim =
     (let batch = claimRetryBatch (ts_pending st) nowMs (nullish lim 32);
          (st', committed, failed) = drain_rows contentType nowMs st batch
      in (st', int (length batch), committed, failed))"

section \<open>Registry, receipts and epochs\<close>

definition upsertRegistryTag :: "trust_store \<Rightarrow> jsstr \<Rightarrow> jsstr \<Rightarrow> jsstr \<Rightarrow> int \<Rightarrow> trust_store" where
  "upsertRegistryTag st repo tag manifestDigest nowMs =
     st\<lparr>ts_tags := upsertTag (ts_tags st) repo tag manifestDigest nowMs\<rparr>"

definition recordRegistryMembership ::
    "trust_store \<Rightarrow> jsstr \<Rightarrow> jsstr \<Rightarrow> membershipKind \<Rightarrow> int \<Rightarrow> jsstr option \<Rightarrow> trust_store" where
  "recordRegistryMembership st repo digest kind nowMs peerFp =
     st\<lparr>ts_members := recordMembership (ts_members st) repo digest kind nowMs peerFp\<rparr>"

definition upsertReceipt :: "trust_store \<Rightarrow> peerReceiptRow \<Rightarrow> trust_store" where
  "upsertReceipt st row = st\<lparr>ts_receipts := upsertPeerReceipt (ts_receipts st) row\<rparr>"

definition ts_pruneExpiredReceipts :: "trust_store \<Rightarrow> int \<Rightarrow> int \<Rightarrow> trust_store \<times> int \<times> int option" where
  "ts_pruneExpiredReceipts st nowMs retentionMs =
     (let (t, deleted, oldest) = pruneExpiredReceipts (ts_receipts st) (ts_epochs st) nowMs retentionMs
      in (st\<lparr>ts_receipts := t\<rparr>, deleted, oldest))"

definition upsertCaBundle :: "trust_store \<Rightarrow> actorCaBundleEntry \<Rightarrow> trust_store" where
  "upsertCaBundle st row = st\<lparr>ts_epochs := upsertActorCaBundle (ts_epochs st) row\<rparr>"

definition attachCompromiseNoticeToEpoch :: "trust_store \<Rightarrow> int \<Rightarrow> jsstr \<Rightarrow> trust_store \<times> bool" where
  "attachCompromiseNoticeToEpoch st compromisedEpoch noticeB64u =
     (let (t, b) = attachCompromiseNotice (ts_epochs st) compromisedEpoch noticeB64u in (st\<lparr>ts_epochs := t\<rparr>, b))"

text \<open>The hourly sweep. \<open>now\<close> is the clock at its start and \<open>rearm\<close> the clock when it reschedules.\<close>

definition alarm :: "trust_store \<Rightarrow> int \<Rightarrow> int \<Rightarrow> trust_store" where
  "alarm st now rearm =
     (let (st1, _) = pruneSeenNonces st (now - SEEN_NONCES_RETENTION_MS);
          (st2, _) = ts_pruneExpiredReceipts st1 now DEFAULT_RECEIPT_RETENTION_MS
      in st2\<lparr>ts_alarm := Some (rearm + ALARM_INTERVAL_MS)\<rparr>)"


section \<open>Schema migration\<close>

text \<open>The part of the database \<open>initSchema\<close> migrates: the columns of \<open>peer_attestations\<close> (\<open>None\<close> when
  the table does not exist) and whether the partial index on \<open>bead_id\<close> exists. \<open>CREATE INDEX IF NOT
  EXISTS\<close> on a column the table lacks raises an error in SQLite, unless the index already exists.\<close>

record att_schema =
  as_columns :: "jsstr list option"
  as_bead_index :: bool

datatype sql_error = NoSuchColumn jsstr

definition SCHEMA_PEER_ATTESTATIONS_columns :: "jsstr list" where
  "SCHEMA_PEER_ATTESTATIONS_columns =
     [js ''peer_fingerprint'', js ''seq'', js ''prev_self_ref'', js ''prev_peer_ref'', js ''content_hash'',
      js ''content_type'', js ''scope'', js ''cert'', js ''sig'', js ''created_at'', js ''bead_id'', js ''origins'']"

definition create_bead_index :: "att_schema \<Rightarrow> sql_error + att_schema" where
  "create_bead_index s =
     (if as_bead_index s then Inr s
      else if js ''bead_id'' \<in> set (nullish (as_columns s) []) then Inr (s\<lparr>as_bead_index := True\<rparr>)
      else Inl (NoSuchColumn (js ''bead_id'')))"

definition exec_schema :: "att_schema \<Rightarrow> sql_error + att_schema" where
  "exec_schema s =
     create_bead_index (case as_columns s of
        None \<Rightarrow> s\<lparr>as_columns := Some SCHEMA_PEER_ATTESTATIONS_columns\<rparr>
      | Some _ \<Rightarrow> s)"

definition add_column :: "jsstr \<Rightarrow> att_schema \<Rightarrow> att_schema" where
  "add_column c s = s\<lparr>as_columns := Some (nullish (as_columns s) [] @ [c])\<rparr>"

definition initSchema :: "att_schema \<Rightarrow> sql_error + att_schema" where
  "initSchema s0 =
     (case exec_schema s0 of
        Inl e \<Rightarrow> Inl e
      | Inr s1 \<Rightarrow>
          let cols = nullish (as_columns s1) [];
              hasBeadId = js ''bead_id'' \<in> set cols
          in case (if \<not> hasBeadId \<and> 0 < length cols then create_bead_index (add_column (js ''bead_id'') s1) else Inr s1) of
               Inl e \<Rightarrow> Inl e
             | Inr s2 \<Rightarrow>
                 let colsNow = nullish (as_columns s2) [] in
                 if 0 < length colsNow \<and> js ''origins'' \<notin> set colsNow then Inr (add_column (js ''origins'') s2) else Inr s2)"

section \<open>The object as a step relation\<close>

datatype ts_op =
  OpUpsertCounter jsstr jsstr jsstr int
| OpVerify jsstr jsstr jsstr int
| OpRecordNonce jsstr jsstr int
| OpPruneNonces int
| OpApply attestation_args
| OpEnqueue pending_args
| OpCommit jsstr jsstr
| OpFail jsstr jsstr int
| OpDrainRow jsstr int pendingAttestation
| OpTag jsstr jsstr jsstr int
| OpMember jsstr jsstr membershipKind int "jsstr option"
| OpReceipt peerReceiptRow
| OpPruneReceipts int int
| OpEpoch actorCaBundleEntry
| OpNotice int jsstr
| OpAlarm int int

datatype ts_result =
  RDone
| RFlag bool
| RCount int
| RVerify verify_result
| RCounter int jsstr
| RAtt applyAttestationResult
| RThrow

fun ts_exec :: "(bytes \<Rightarrow> bytes) \<Rightarrow> trust_store \<Rightarrow> ts_op \<Rightarrow> trust_store \<times> ts_result" where
  "ts_exec sha st (OpUpsertCounter p c n ts) =
     (case upsertLeaseCounter sha st p c n ts of Inl _ \<Rightarrow> (st, RThrow) | Inr (st', seq, h) \<Rightarrow> (st', RCounter seq h))"
| "ts_exec sha st (OpVerify p c n ts) =
     (case verifyLeaseAndAdvanceChain sha st p c n ts of Inl _ \<Rightarrow> (st, RThrow) | Inr (st', r) \<Rightarrow> (st', RVerify r))"
| "ts_exec sha st (OpRecordNonce c n ts) = (let (st', b) = ts_recordSeenNonce st c n ts in (st', RFlag b))"
| "ts_exec sha st (OpPruneNonces b) = (let (st', n) = pruneSeenNonces st b in (st', RCount n))"
| "ts_exec sha st (OpApply args) =
     (case ts_applyAttestation st args of None \<Rightarrow> (st, RThrow) | Some (st', r) \<Rightarrow> (st', RAtt r))"
| "ts_exec sha st (OpEnqueue args) = (let (st', b) = enqueuePendingAttestation st args in (st', RFlag b))"
| "ts_exec sha st (OpCommit p h) = (let (st', b) = commitPendingAttestation st p h in (st', RFlag b))"
| "ts_exec sha st (OpFail p h now) = (let (st', n, _) = recordPendingFailedAttempt st p h now in (st', RCount n))"
| "ts_exec sha st (OpDrainRow ct now row) = (let (st', b) = drain_row ct now st row in (st', RFlag b))"
| "ts_exec sha st (OpTag r t d now) = (upsertRegistryTag st r t d now, RDone)"
| "ts_exec sha st (OpMember r d k now fp) = (recordRegistryMembership st r d k now fp, RDone)"
| "ts_exec sha st (OpReceipt row) = (upsertReceipt st row, RDone)"
| "ts_exec sha st (OpPruneReceipts now ret) = (let (st', n, _) = ts_pruneExpiredReceipts st now ret in (st', RCount n))"
| "ts_exec sha st (OpEpoch row) = (upsertCaBundle st row, RDone)"
| "ts_exec sha st (OpNotice e n) = (let (st', b) = attachCompromiseNoticeToEpoch st e n in (st', RFlag b))"
| "ts_exec sha st (OpAlarm now rearm) = (alarm st now rearm, RDone)"

text \<open>The traces of the object: every operation with its result, in the order the input gate lets
  them in.\<close>

inductive ts_trace :: "(bytes \<Rightarrow> bytes) \<Rightarrow> trust_store \<Rightarrow> (ts_op \<times> ts_result) list \<Rightarrow> trust_store \<Rightarrow> bool"
  for sha where
  start: "ts_trace sha st [] st"
| step: "ts_trace sha st tr mid \<Longrightarrow> ts_exec sha mid op = (st', res) \<Longrightarrow> ts_trace sha st (tr @ [(op, res)]) st'"

inductive_cases ts_trace_NilE: "ts_trace sha st [] st'"
inductive_cases ts_trace_snocE: "ts_trace sha st (tr @ [e]) st'"

lemma ts_trace_Nil [simp]: "ts_trace sha st [] st' \<longleftrightarrow> st' = st"
  by (auto intro: ts_trace.start elim: ts_trace_NilE)

lemma ts_trace_snoc [simp]:
  "ts_trace sha st (tr @ [(op, res)]) st' \<longleftrightarrow> (\<exists>mid. ts_trace sha st tr mid \<and> ts_exec sha mid op = (st', res))"
  by (auto intro: ts_trace.step elim: ts_trace_snocE)

lemma ts_trace_append:
  "ts_trace sha st (xs @ ys) st' \<longleftrightarrow> (\<exists>mid. ts_trace sha st xs mid \<and> ts_trace sha mid ys st')"
proof (induction ys arbitrary: st' rule: rev_induct)
  case (snoc y ys)
  obtain op res where "y = (op, res)" by (cases y)
  then show ?case using snoc.IH by (auto simp flip: append_assoc)
qed simp

section \<open>Lemmas\<close>

text \<open>\<open>verifyLeaseAndAdvanceChain\<close> never throws: it rolls back on a replay and advances otherwise.\<close>

definition next_hash :: "(bytes \<Rightarrow> bytes) \<Rightarrow> peerLeaseCounter list \<Rightarrow> jsstr \<Rightarrow> jsstr \<Rightarrow> jsstr \<Rightarrow> int \<Rightarrow> jsstr" where
  "next_hash sha t p c n ts =
     nextChainHash sha (nullish (map_option lc_last_chain_hash (readLeaseCounter t p)) ZERO_HASH) c n ts"

definition next_seq :: "peerLeaseCounter list \<Rightarrow> jsstr \<Rightarrow> int" where
  "next_seq t p = nullish (map_option lc_seq (readLeaseCounter t p)) 0 + 1"

definition advance :: "(bytes \<Rightarrow> bytes) \<Rightarrow> peerLeaseCounter list \<Rightarrow> jsstr \<Rightarrow> jsstr \<Rightarrow> jsstr \<Rightarrow> int \<Rightarrow> peerLeaseCounter list" where
  "advance sha t p c n ts = writeLeaseCounterRow t p c ts (next_seq t p) (next_hash sha t p c n ts)"

lemma compute_step: "computeNextLeaseStep sha t p c n ts = Inr s \<Longrightarrow>
    ls_seq s = next_seq t p \<and> ls_last_chain_hash s = next_hash sha t p c n ts"
  by (auto simp: computeNextLeaseStep_ok Let_def next_seq_def next_hash_def)

lemma compute_not_Inl [simp]: "computeNextLeaseStep sha t p c n ts \<noteq> Inl e"
  by (simp add: computeNextLeaseStep_ok Let_def)

lemma recordSeenNonce_dup: "seen_at t (c, n) \<noteq> None \<Longrightarrow> recordSeenNonce t c n ts = (t, False)"
  by (auto simp: recordSeenNonce_def insert_ignore_def seen_at_def lookup_pk_None_iff sn_key_def image_iff Let_def)

lemma recordSeenNonce_new:
  "seen_at t (c, n) = None \<Longrightarrow> recordSeenNonce t c n ts = (t @ [\<lparr>sn_cert_fp = c, sn_nonce = n, sn_ts_ms = ts\<rparr>], True)"
  by (auto simp: recordSeenNonce_def insert_ignore_def seen_at_def lookup_pk_None_iff sn_key_def)

lemma verify_cases:
  "verifyLeaseAndAdvanceChain sha st p c n ts =
     (if seen_at (ts_nonces st) (c, n) \<noteq> None then Inr (st, Replayed)
      else Inr (st\<lparr>ts_nonces := ts_nonces st @ [\<lparr>sn_cert_fp = c, sn_nonce = n, sn_ts_ms = ts\<rparr>],
                   ts_counters := advance sha (ts_counters st) p c n ts\<rparr>,
                Advanced (next_seq (ts_counters st) p) (next_hash sha (ts_counters st) p c n ts)))"
proof (cases "computeNextLeaseStep sha (ts_counters st) p c n ts")
  case (Inr s)
  show ?thesis
  proof (cases "seen_at (ts_nonces st) (c, n) = None")
    case True
    then show ?thesis using Inr compute_step [OF Inr]
      by (simp add: verifyLeaseAndAdvanceChain_def transactionSync_def recordSeenNonce_new advance_def)
  next
    case False
    then show ?thesis using Inr
      by (simp add: verifyLeaseAndAdvanceChain_def transactionSync_def recordSeenNonce_dup)
  qed
qed simp

lemma upsert_counter_cases:
  "upsertLeaseCounter sha st p c n ts =
     Inr (st\<lparr>ts_counters := advance sha (ts_counters st) p c n ts\<rparr>,
          next_seq (ts_counters st) p, next_hash sha (ts_counters st) p c n ts)"
proof (cases "computeNextLeaseStep sha (ts_counters st) p c n ts")
  case (Inr s)
  then show ?thesis using compute_step [OF Inr]
    by (simp add: upsertLeaseCounter_def applyLeaseCounter_def advance_def)
qed simp

lemmas lease_cases = verify_cases upsert_counter_cases

text \<open>A row of the drain recomputes the previous reference, so it always commits.\<close>

definition drain_args :: "jsstr \<Rightarrow> int \<Rightarrow> peerAttestation list \<Rightarrow> pendingAttestation \<Rightarrow> attestation_args" where
  "drain_args ct now t row =
     \<lparr>aa_peerFingerprint = pd_peer_fp row, aa_contentHash = pd_content_hash row, aa_contentType = ct,
      aa_scope = pd_scope row, aa_cert = pd_cert row, aa_sig = pd_sig row,
      aa_prevSelfRef = map_option pa_content_hash (lastAttestationForPeer t (pd_peer_fp row)), aa_prevPeerRef = None,
      aa_nowMs = now, aa_beadId = None, aa_origins = None\<rparr>"

lemma drain_row_commits:
  assumes "att_inv (ts_attestations st)"
  shows "drain_row ct now st row =
     (st\<lparr>ts_attestations := push_attestation (ts_attestations st) (drain_args ct now (ts_attestations st) row),
         ts_pending := fst (commitPending (ts_pending st) (pd_peer_fp row) (pd_content_hash row))\<rparr>, True)"
proof -
  let ?a = "drain_args ct now (ts_attestations st) row"
  have "aa_prevSelfRef ?a = map_option pa_content_hash (chain_end (peer_chain (ts_attestations st) (aa_peerFingerprint ?a)))"
    by (simp add: drain_args_def lastAttestation_chain_end [OF assms])
  then have "applyAttestation (ts_attestations st) ?a =
      Some (push_attestation (ts_attestations st) ?a, AttOk (pa_seq (next_row (ts_attestations st) ?a)) (next_row (ts_attestations st) ?a))"
    by (simp add: applyAttestation_cases [OF assms] push_attestation_eq [OF assms] Let_def)
  then show ?thesis unfolding drain_args_def
    by (simp add: drain_row_def commitPendingAttestation_def split: prod.split)
qed


section \<open>The invariant of the object\<close>

definition ts_inv :: "trust_store \<Rightarrow> bool" where
  "ts_inv st = (pk_unique sn_key (ts_nonces st) \<and> pk_unique lc_peer_fingerprint (ts_counters st) \<and>
     att_inv (ts_attestations st) \<and> pending_inv (ts_pending st) \<and> pk_unique rt_key (ts_tags st) \<and>
     pk_unique mb_key (ts_members st) \<and> pk_unique pr_key (ts_receipts st) \<and> pk_unique cb_epoch (ts_epochs st))"

lemma ts_inv_new: "ts_inv (new_trust_store faults now)"
  by (simp add: ts_inv_def new_trust_store_def ensureAlarmScheduled_def)

lemma advance_unique: "pk_unique lc_peer_fingerprint t \<Longrightarrow> pk_unique lc_peer_fingerprint (advance sha t p c n ts)"
  by (simp add: advance_def writeLeaseCounterRow_def inv_intros)

lemma nonce_row_unique:
  "pk_unique sn_key t \<Longrightarrow> seen_at t (c, n) = None \<Longrightarrow> pk_unique sn_key (t @ [\<lparr>sn_cert_fp = c, sn_nonce = n, sn_ts_ms = ts\<rparr>])"
  using nonces.inv_spend [of t "(c, n)" ts] by (simp add: recordSeenNonce_new)

lemma ts_applyAttestation_table:
  "ts_applyAttestation st args = Some (st', r) \<Longrightarrow>
     \<exists>fs t. st' = st\<lparr>ts_faults := fs, ts_attestations := t\<rparr> \<and>
          (t = ts_attestations st \<or> t = push_attestation (ts_attestations st) args)"
proof (cases "checkAndConsumeFault (ts_faults st) FaultApplyAttestation")
  case (Pair fs injected)
  assume a: "ts_applyAttestation st args = Some (st', r)"
  show ?thesis
  proof (cases injected)
    case True
    then have "st' = st\<lparr>ts_faults := fs, ts_attestations := ts_attestations st\<rparr>"
      using a Pair by (auto simp: ts_applyAttestation_def)
    then show ?thesis by blast
  next
    case False
    then obtain t where "applyAttestation (ts_attestations st) args = Some (t, r)"
        "st' = st\<lparr>ts_faults := fs, ts_attestations := t\<rparr>"
      using a Pair by (auto simp: ts_applyAttestation_def split: option.splits prod.splits)
    moreover from this(1) have "t = push_attestation (ts_attestations st) args" by (simp add: push_attestation_def)
    ultimately show ?thesis by blast
  qed
qed

lemma pending_steps:
  "fst (enqueuePendingAttestation st a) = st\<lparr>ts_pending := pending_step (ts_pending st) (Enqueue a)\<rparr>"
  "fst (commitPendingAttestation st p h) = st\<lparr>ts_pending := pending_step (ts_pending st) (Commit p h)\<rparr>"
  "fst (recordPendingFailedAttempt st p h now) = st\<lparr>ts_pending := pending_step (ts_pending st) (FailedAttempt p h now)\<rparr>"
  by (simp_all add: enqueuePendingAttestation_def commitPendingAttestation_def recordPendingFailedAttempt_def
      split: prod.split)

lemma drain_row_state:
  "att_inv (ts_attestations st) \<Longrightarrow> fst (drain_row ct now st row) =
     st\<lparr>ts_attestations := push_attestation (ts_attestations st) (drain_args ct now (ts_attestations st) row),
        ts_pending := pending_step (ts_pending st) (Commit (pd_peer_fp row) (pd_content_hash row))\<rparr>"
  by (simp add: drain_row_commits)

lemma nonce_tables:
  "fst (ts_recordSeenNonce st c n ts) = st\<lparr>ts_nonces := fst (recordSeenNonce (ts_nonces st) c n ts)\<rparr>"
  "fst (pruneSeenNonces st b) = st\<lparr>ts_nonces := fst (pruneSeenNoncesBefore (ts_nonces st) b)\<rparr>"
  by (simp_all add: ts_recordSeenNonce_def pruneSeenNonces_def split: prod.split)

lemma receipt_tables:
  "fst (ts_pruneExpiredReceipts st now ret) =
     st\<lparr>ts_receipts := fst (pruneExpiredReceipts (ts_receipts st) (ts_epochs st) now ret)\<rparr>"
  "fst (attachCompromiseNoticeToEpoch st e n) = st\<lparr>ts_epochs := fst (attachCompromiseNotice (ts_epochs st) e n)\<rparr>"
  by (simp_all add: ts_pruneExpiredReceipts_def attachCompromiseNoticeToEpoch_def split: prod.split)

lemma alarm_state:
  "alarm st now rearm = st\<lparr>ts_nonces := fst (pruneSeenNoncesBefore (ts_nonces st) (now - SEEN_NONCES_RETENTION_MS)),
     ts_receipts := fst (pruneExpiredReceipts (ts_receipts st) (ts_epochs st) now DEFAULT_RECEIPT_RETENTION_MS),
     ts_alarm := Some (rearm + ALARM_INTERVAL_MS)\<rparr>"
  by (simp add: alarm_def pruneSeenNonces_def ts_pruneExpiredReceipts_def split: prod.split)

text \<open>The state after an operation, operation by operation.\<close>

lemma exec_fst:
  "fst (ts_exec sha st (OpRecordNonce c n ts)) = fst (ts_recordSeenNonce st c n ts)"
  "fst (ts_exec sha st (OpPruneNonces b)) = fst (pruneSeenNonces st b)"
  "fst (ts_exec sha st (OpEnqueue a)) = fst (enqueuePendingAttestation st a)"
  "fst (ts_exec sha st (OpCommit p h)) = fst (commitPendingAttestation st p h)"
  "fst (ts_exec sha st (OpFail p h now)) = fst (recordPendingFailedAttempt st p h now)"
  "fst (ts_exec sha st (OpDrainRow ct now row)) = fst (drain_row ct now st row)"
  "fst (ts_exec sha st (OpPruneReceipts now ret)) = fst (ts_pruneExpiredReceipts st now ret)"
  "fst (ts_exec sha st (OpNotice e x)) = fst (attachCompromiseNoticeToEpoch st e x)"
  by (simp_all split: prod.split)

lemmas exec_states = exec_fst nonce_tables pending_steps receipt_tables alarm_state lease_cases
  upsertRegistryTag_def recordRegistryMembership_def upsertReceipt_def upsertCaBundle_def
  upsertTag_def recordMembership_def upsertPeerReceipt_def upsertActorCaBundle_def

lemma exec_apply:
  "\<exists>fs t. fst (ts_exec sha st (OpApply args)) = st\<lparr>ts_faults := fs, ts_attestations := t\<rparr> \<and>
     (t = ts_attestations st \<or> t = push_attestation (ts_attestations st) args)"
proof (cases "ts_applyAttestation st args")
  case None
  then show ?thesis by (intro exI [of _ "ts_faults st"] exI [of _ "ts_attestations st"]) simp
next
  case (Some sr)
  then show ?thesis using ts_applyAttestation_table [of st args "fst sr" "snd sr"] by (cases sr) simp
qed

lemma ts_inv_exec: "ts_inv st \<Longrightarrow> ts_inv (fst (ts_exec sha st op))"
proof -
  assume inv: "ts_inv st"
  note parts = inv [unfolded ts_inv_def]
  show ?thesis
  proof (cases op)
    case (OpApply args)
    obtain fs t where "fst (ts_exec sha st (OpApply args)) = st\<lparr>ts_faults := fs, ts_attestations := t\<rparr>"
        "t = ts_attestations st \<or> t = push_attestation (ts_attestations st) args" using exec_apply by blast
    then show ?thesis using parts att_inv_push OpApply by (auto simp: ts_inv_def)
  next
    case (OpRecordNonce c n ts)
    then show ?thesis using parts nonces.inv_spend [of "ts_nonces st" "(c, n)" ts]
      by (simp add: exec_states ts_inv_def del: ts_exec.simps)
  next
    case (OpDrainRow ct now row)
    then show ?thesis using parts
      by (simp add: exec_fst drain_row_state ts_inv_def att_inv_push pending_inv_step del: ts_exec.simps pending_step.simps)
  next
    case (OpVerify p c n ts)
    then show ?thesis using parts by (simp add: verify_cases ts_inv_def advance_unique nonce_row_unique)
  next
    case (OpUpsertCounter p c n ts)
    then show ?thesis using parts by (simp add: upsert_counter_cases ts_inv_def advance_unique)
  next
    case (OpTag r t d now)
    then show ?thesis using parts by (simp add: exec_states ts_inv_def inv_intros)
  next
    case (OpMember r d k now fp)
    then show ?thesis using parts by (simp add: exec_states ts_inv_def inv_intros)
  next
    case (OpReceipt row)
    then show ?thesis using parts by (simp add: exec_states ts_inv_def inv_intros)
  next
    case (OpEpoch row)
    then show ?thesis using parts by (simp add: exec_states ts_inv_def inv_intros)
  next
    case (OpAlarm now rearm)
    then show ?thesis using parts by (simp add: exec_states ts_inv_def inv_intros nonces.inv_forget)
  qed (use parts in \<open>simp_all add: exec_states ts_inv_def inv_intros nonces.inv_forget pending_inv_step
         del: ts_exec.simps pending_step.simps\<close>)
qed

lemma ts_inv_trace: "ts_trace sha st tr st' \<Longrightarrow> ts_inv st \<Longrightarrow> ts_inv st'"
proof (induction rule: ts_trace.induct)
  case (step st tr mid op st' res)
  then show ?case using ts_inv_exec [of mid sha op] by simp
qed simp

section \<open>The counter refines the chain of the trace\<close>

text \<open>The observation an operation with its result adds to a peer's chain.\<close>

fun observed :: "jsstr \<Rightarrow> ts_op \<times> ts_result \<Rightarrow> observation list" where
  "observed p (OpVerify q c n ts, RVerify (Advanced _ _)) = (if q = p then [(c, n, ts)] else [])"
| "observed p (OpUpsertCounter q c n ts, RCounter _ _) = (if q = p then [(c, n, ts)] else [])"
| "observed p _ = []"

definition observations :: "jsstr \<Rightarrow> (ts_op \<times> ts_result) list \<Rightarrow> observation list" where
  "observations p tr = concat (map (observed p) tr)"

definition counter_of :: "(bytes \<Rightarrow> bytes) \<Rightarrow> jsstr \<Rightarrow> observation list \<Rightarrow> peerLeaseCounter option" where
  "counter_of sha p os =
     (if os = [] then None
      else Some \<lparr>lc_peer_fingerprint = p, lc_seq = int (length os), lc_last_chain_hash = chain_head sha ZERO_HASH os,
                 lc_last_cert_fp = fst (last os), lc_updated_at = snd (snd (last os))\<rparr>)"

lemma read_advance:
  "readLeaseCounter (advance sha t p c n ts) q =
     (if q = p then Some \<lparr>lc_peer_fingerprint = p, lc_seq = next_seq t p, lc_last_chain_hash = next_hash sha t p c n ts,
                          lc_last_cert_fp = c, lc_updated_at = ts\<rparr>
      else readLeaseCounter t q)"
  by (simp add: advance_def readLeaseCounter_lookup writeLeaseCounterRow_def lookup_upsert)

lemma counter_of_advance:
  assumes "readLeaseCounter t p = counter_of sha p os"
  shows "readLeaseCounter (advance sha t p c n ts) p = counter_of sha p (os @ [(c, n, ts)])"
proof -
  have "next_seq t p = int (length os) + 1" "next_hash sha t p c n ts = nextChainHash sha (chain_head sha ZERO_HASH os) c n ts"
    by (simp_all add: next_seq_def next_hash_def assms counter_of_def)
  then show ?thesis by (simp add: read_advance counter_of_def)
qed

lemma counters_unchanged:
  "ts_inv st \<Longrightarrow> ts_exec sha st op = (st', res) \<Longrightarrow> (\<And>p c n ts. op \<noteq> OpVerify p c n ts \<and> op \<noteq> OpUpsertCounter p c n ts) \<Longrightarrow>
   ts_counters st' = ts_counters st \<and> observed p (op, res) = []"
proof (cases op)
  case (OpApply args)
  assume "ts_exec sha st op = (st', res)"
  then show ?thesis using exec_apply [of sha st args] OpApply by auto
next
  case (OpDrainRow ct now row)
  assume "ts_inv st" "ts_exec sha st op = (st', res)"
  then show ?thesis using OpDrainRow drain_row_state [of st ct now row] exec_fst(6) [of sha st ct now row]
    by (auto simp: ts_inv_def)
qed (auto simp: ts_recordSeenNonce_def pruneSeenNonces_def enqueuePendingAttestation_def commitPendingAttestation_def
      recordPendingFailedAttempt_def upsertRegistryTag_def recordRegistryMembership_def upsertReceipt_def
      ts_pruneExpiredReceipts_def upsertCaBundle_def attachCompromiseNoticeToEpoch_def alarm_state split: prod.splits)

lemma counter_refines_step:
  assumes "ts_inv st" "ts_exec sha st op = (st', res)" "\<And>p. readLeaseCounter (ts_counters st) p = counter_of sha p (os p)"
  shows "readLeaseCounter (ts_counters st') p = counter_of sha p (os p @ observed p (op, res))"
proof (cases "\<exists>q c n ts. op = OpVerify q c n ts \<or> op = OpUpsertCounter q c n ts")
  case True
  then obtain q c n ts where "op = OpVerify q c n ts \<or> op = OpUpsertCounter q c n ts" by blast
  then show ?thesis
  proof
    assume "op = OpVerify q c n ts"
    then show ?thesis using assms counter_of_advance [of "ts_counters st" q sha "os q" c n ts]
      by (auto simp: verify_cases read_advance split: if_splits)
  next
    assume "op = OpUpsertCounter q c n ts"
    then show ?thesis using assms counter_of_advance [of "ts_counters st" q sha "os q" c n ts]
      by (auto simp: upsert_counter_cases read_advance)
  qed
next
  case False
  then show ?thesis using counters_unchanged [OF assms(1,2)] assms(3) by auto
qed


section \<open>The replay ledger along a trace\<close>

fun ledger_events :: "ts_op \<Rightarrow> (jsstr \<times> jsstr) ledger_event list" where
  "ledger_events (OpVerify p c n ts) = [Record (c, n) ts]"
| "ledger_events (OpRecordNonce c n ts) = [Record (c, n) ts]"
| "ledger_events (OpPruneNonces b) = [Prune b]"
| "ledger_events (OpAlarm now rearm) = [Prune (now - SEEN_NONCES_RETENTION_MS)]"
| "ledger_events _ = []"

lemma nonces_exec:
  "ts_inv st \<Longrightarrow> ts_exec sha st op = (st', res) \<Longrightarrow> ts_nonces st' = nonces.play (ts_nonces st) (ledger_events op)"
proof (cases op)
  case (OpApply args)
  assume "ts_exec sha st op = (st', res)"
  then show ?thesis using exec_apply [of sha st args] OpApply by auto
next
  case (OpDrainRow ct now row)
  assume "ts_inv st" "ts_exec sha st op = (st', res)"
  then show ?thesis using OpDrainRow drain_row_state [of st ct now row] exec_fst(6) [of sha st ct now row]
    by (auto simp: ts_inv_def)
next
  case (OpVerify p c n ts)
  assume "ts_exec sha st op = (st', res)"
  then show ?thesis using OpVerify
    by (cases "seen_at (ts_nonces st) (c, n)") (auto simp: verify_cases recordSeenNonce_dup recordSeenNonce_new)
qed (auto simp: ts_recordSeenNonce_def pruneSeenNonces_def enqueuePendingAttestation_def commitPendingAttestation_def
      recordPendingFailedAttempt_def upsertRegistryTag_def recordRegistryMembership_def upsertReceipt_def upsert_counter_cases
      ts_pruneExpiredReceipts_def upsertCaBundle_def attachCompromiseNoticeToEpoch_def alarm_state split: prod.splits)

lemma play_append: "nonces.play t (xs @ ys) = nonces.play (nonces.play t xs) ys"
proof (induction xs arbitrary: t)
  case (Cons e xs)
  then show ?case by (cases e) simp_all
qed simp

lemma nonces_trace:
  "ts_trace sha st tr st' \<Longrightarrow> ts_inv st \<Longrightarrow> ts_nonces st' = nonces.play (ts_nonces st) (concat (map (ledger_events \<circ> fst) tr))"
proof (induction rule: ts_trace.induct)
  case (step st tr mid op st' res)
  then show ?case using nonces_exec [OF ts_inv_trace [OF step(1)] step(2)] by (simp add: play_append)
qed simp

fun prune_cutoff :: "ts_op \<Rightarrow> int option" where
  "prune_cutoff (OpPruneNonces b) = Some b"
| "prune_cutoff (OpAlarm now rearm) = Some (now - SEEN_NONCES_RETENTION_MS)"
| "prune_cutoff _ = None"

lemma prune_event: "Prune b \<in> set (ledger_events op) \<Longrightarrow> prune_cutoff op = Some b"
  by (cases op) auto

lemma second_verify_replayed:
  assumes "ts_inv st"
    and "ts_trace sha st ((OpVerify p c n ts, RVerify (Advanced s h)) # tr @ [(OpVerify q c n ts', res)]) st'"
    and "\<And>op r b. (op, r) \<in> set tr \<Longrightarrow> prune_cutoff op = Some b \<Longrightarrow> b \<le> ts"
  shows "res = RVerify Replayed"
proof -
  obtain st1 st2 where tr: "ts_exec sha st (OpVerify p c n ts) = (st1, RVerify (Advanced s h))"
      "ts_trace sha st1 tr st2" "ts_exec sha st2 (OpVerify q c n ts') = (st', res)"
    using assms(2) ts_trace_append [of sha st "[(OpVerify p c n ts, RVerify (Advanced s h))]" "tr @ [(OpVerify q c n ts', res)]" st']
      ts_trace_snoc [of sha st "[]" "OpVerify p c n ts"] by (auto simp del: ts_exec.simps)
  let ?es = "concat (map (ledger_events \<circ> fst) tr)"
  have fresh: "seen_at (ts_nonces st) (c, n) = None" using tr(1) by (auto simp: verify_cases split: if_splits)
  have st1: "ts_nonces st1 = fst (recordSeenNonce (ts_nonces st) c n ts)" using nonces_exec [OF assms(1) tr(1)] by simp
  have inv1: "ts_inv st1" using ts_inv_exec [OF assms(1), of sha "OpVerify p c n ts"] tr(1) by simp
  have "b \<le> ts" if "Prune b \<in> set ?es" for b using that assms(3) prune_event by fastforce
  then have "\<not> snd (recordSeenNonce (nonces.play (ts_nonces st1) ?es) c n ts')"
    using nonces.second_use_refused [of "ts_nonces st" "(c, n)" ts ?es ts'] assms(1) fresh st1
    by (simp add: ts_inv_def recordSeenNonce_new)
  then have "seen_at (ts_nonces st2) (c, n) \<noteq> None"
    using nonces.spend_fresh [of "ts_nonces st2" "(c, n)" ts'] nonces_trace [OF tr(2) inv1] by simp
  then show ?thesis using tr(3) by (simp add: verify_cases)
qed

section \<open>The retry drain\<close>

lemma drain_rows_all:
  assumes "ts_inv st"
  shows "drain_rows ct now st rows =
     (fst (drain_rows ct now st rows), int (length rows), 0) \<and> ts_inv (fst (drain_rows ct now st rows))"
  using assms
proof (induction rows arbitrary: st)
  case (Cons row rows)
  have 1: "snd (drain_row ct now st row)" using Cons.prems by (simp add: drain_row_commits ts_inv_def)
  have inv: "ts_inv (fst (drain_row ct now st row))" using ts_inv_exec [OF Cons.prems, of _ "OpDrainRow ct now row"] exec_fst(6) by metis
  obtain a c f where r: "drain_rows ct now (fst (drain_row ct now st row)) rows = (a, c, f)" by (metis prod_cases3)
  then show ?case using Cons.IH [OF inv] 1 by (auto simp: split_beta Let_def)
qed simp

lemma drain_row_effect:
  assumes "ts_inv st"
  shows "\<exists>r. peer_chain (ts_attestations (fst (drain_row ct now st row))) (pd_peer_fp row) =
              peer_chain (ts_attestations st) (pd_peer_fp row) @ [r] \<and> pa_content_hash r = pd_content_hash row"
    and "pd_key ` set (ts_pending (fst (drain_row ct now st row))) = pd_key ` set (ts_pending st) - {pd_key row}"
proof -
  have inv: "att_inv (ts_attestations st)" using assms by (simp add: ts_inv_def)
  let ?a = "drain_args ct now (ts_attestations st) row"
  have "push_attestation (ts_attestations st) ?a = ts_attestations st @ [next_row (ts_attestations st) ?a]"
    using push_attestation_eq [OF inv, of ?a] by (simp add: drain_args_def lastAttestation_chain_end [OF inv])
  then show "\<exists>r. peer_chain (ts_attestations (fst (drain_row ct now st row))) (pd_peer_fp row) =
              peer_chain (ts_attestations st) (pd_peer_fp row) @ [r] \<and> pa_content_hash r = pd_content_hash row"
    by (simp add: drain_row_state [OF inv] peer_chain_append next_row_def drain_args_def)
  show "pd_key ` set (ts_pending (fst (drain_row ct now st row))) = pd_key ` set (ts_pending st) - {pd_key row}"
    by (auto simp: drain_row_state [OF inv] commit_table delete_where_def pd_key_def)
qed

lemma drain_rows_effect:
  "ts_inv st \<Longrightarrow>
     pd_key ` set (ts_pending (fst (drain_rows ct now st rows))) = pd_key ` set (ts_pending st) - pd_key ` set rows \<and>
     (\<forall>p. map pa_content_hash (peer_chain (ts_attestations (fst (drain_rows ct now st rows))) p) =
          map pa_content_hash (peer_chain (ts_attestations st) p) @ map pd_content_hash (filter (\<lambda>r. pd_peer_fp r = p) rows))"
proof (induction rows arbitrary: st)
  case (Cons row rows)
  let ?s = "fst (drain_row ct now st row)"
  have inv: "ts_inv ?s" using ts_inv_exec [OF Cons.prems, of _ "OpDrainRow ct now row"] exec_fst(6) by metis
  have f: "fst (drain_rows ct now st (row # rows)) = fst (drain_rows ct now ?s rows)" by (simp add: split_beta Let_def)
  have other: "peer_chain (ts_attestations ?s) p = peer_chain (ts_attestations st) p" if "p \<noteq> pd_peer_fp row" for p
    using Cons.prems that
    by (auto simp: ts_inv_def drain_row_state push_attestation_eq peer_chain_append next_row_def drain_args_def)
  obtain r where r: "peer_chain (ts_attestations ?s) (pd_peer_fp row) = peer_chain (ts_attestations st) (pd_peer_fp row) @ [r]"
      "pa_content_hash r = pd_content_hash row" using drain_row_effect(1) [OF Cons.prems] by blast
  have "map pa_content_hash (peer_chain (ts_attestations ?s) p) =
      map pa_content_hash (peer_chain (ts_attestations st) p) @ (if p = pd_peer_fp row then [pd_content_hash row] else [])" for p
    using r other [of p] by (cases "p = pd_peer_fp row") simp_all
  moreover have "pd_key ` set (ts_pending ?s) - pd_key ` set rows = pd_key ` set (ts_pending st) - pd_key ` set (row # rows)"
    unfolding drain_row_effect(2) [OF Cons.prems] by auto
  ultimately show ?case unfolding f using Cons.IH [OF inv] by simp
qed simp


section \<open>Properties\<close>

text \<open>C4: The stored lease counter refines the abstract chain: in every reachable state, for every
  peer, the row is the fold of exactly the requests the object accepted for that peer, in order. Its
  number is how many there were, its hash the head of their chain, and replays, attestations, sweeps
  and the traffic of other peers leave it alone.\<close>

theorem lease_counter_is_chain_of_trace:
  assumes "ts_trace sha (new_trust_store faults now) tr st"
  shows "getLeaseCounter st p = counter_of sha p (observations p tr)"
proof -
  have "ts_trace sha st0 tr st \<Longrightarrow> st0 = new_trust_store faults now \<Longrightarrow>
      ts_inv st \<and> (\<forall>p. readLeaseCounter (ts_counters st) p = counter_of sha p (observations p tr))" for st0
  proof (induction rule: ts_trace.induct)
    case (step st0 tr mid op st' res)
    then show ?case
      using counter_refines_step [OF _ step(2), of "\<lambda>p. observations p tr"] ts_inv_exec [of mid sha op]
      by (simp add: observations_def)
  qed (simp add: ts_inv_def observations_def counter_of_def readLeaseCounter_lookup new_trust_store_def ensureAlarmScheduled_def)
  then show ?thesis using assms by (simp add: getLeaseCounter_def)
qed

theorem lease_counter_is_chain_of_trace_witness:
  "let st = fst (ts_exec (\<lambda>_. []) (fst (ts_exec (\<lambda>_. []) (new_trust_store None 0)
                   (OpVerify (js ''p'') (js ''c'') (js ''n'') 5))) (OpVerify (js ''p'') (js ''c'') (js ''n'') 6))
   in getLeaseCounter st (js ''p'') = counter_of (\<lambda>_. []) (js ''p'') [(js ''c'', js ''n'', 5)]"
proof -
  let ?sha = "\<lambda>_ :: bytes. [] :: bytes"
  let ?o1 = "OpVerify (js ''p'') (js ''c'') (js ''n'') 5" and ?o2 = "OpVerify (js ''p'') (js ''c'') (js ''n'') 6"
  let ?s0 = "new_trust_store None 0"
  let ?s1 = "fst (ts_exec ?sha ?s0 ?o1)"
  have 1: "ts_exec ?sha ?s0 ?o1 = (?s1, RVerify (Advanced 1 []))"
    by (simp add: verify_cases seen_at_def new_trust_store_def ensureAlarmScheduled_def next_seq_def next_hash_def
        readLeaseCounter_lookup nextChainHash_def)
  have "seen_at (ts_nonces ?s1) (js ''c'', js ''n'') \<noteq> None"
    by (simp add: verify_cases seen_at_def new_trust_store_def ensureAlarmScheduled_def sn_key_def)
  then have 2: "ts_exec ?sha ?s1 ?o2 = (fst (ts_exec ?sha ?s1 ?o2), RVerify Replayed)" by (simp add: verify_cases)
  have "ts_trace ?sha ?s0 [(?o1, RVerify (Advanced 1 [])), (?o2, RVerify Replayed)] (fst (ts_exec ?sha ?s1 ?o2))"
    using ts_trace.step [OF ts_trace.step [OF ts_trace.start 1] 2] by simp
  from lease_counter_is_chain_of_trace [OF this, of "js ''p''"] show ?thesis
    by (simp add: observations_def Let_def del: ts_exec.simps)
qed

text \<open>The replay check and the counter advance are one atomic step that always returns. A pair of
  certificate and nonce that was seen leaves the whole state as it was; a new pair is recorded with
  the server's time, advances that peer's counter by one along its chain, and touches nothing else.\<close>

theorem verify_lease_atomic:
  "\<exists>st' r. verifyLeaseAndAdvanceChain sha st p c n ts = Inr (st', r) \<and>
     (if seen_at (ts_nonces st) (c, n) \<noteq> None then r = Replayed \<and> st' = st
      else r = Advanced (nullish (map_option lc_seq (getLeaseCounter st p)) 0 + 1)
                 (nextChainHash sha (nullish (map_option lc_last_chain_hash (getLeaseCounter st p)) ZERO_HASH) c n ts) \<and>
           st' = st\<lparr>ts_nonces := ts_nonces st', ts_counters := ts_counters st'\<rparr> \<and>
           (\<forall>k. seen_at (ts_nonces st') k = (if k = (c, n) then Some ts else seen_at (ts_nonces st) k)) \<and>
           (\<forall>q. getLeaseCounter st' q =
              (if q = p
               then Some \<lparr>lc_peer_fingerprint = p, lc_seq = nullish (map_option lc_seq (getLeaseCounter st p)) 0 + 1,
                     lc_last_chain_hash =
                       nextChainHash sha (nullish (map_option lc_last_chain_hash (getLeaseCounter st p)) ZERO_HASH) c n ts,
                     lc_last_cert_fp = c, lc_updated_at = ts\<rparr>
               else getLeaseCounter st q)))"
proof (cases "seen_at (ts_nonces st) (c, n)")
  case None
  then have "lookup_pk sn_key (c, n) (ts_nonces st) = None" by (simp add: seen_at_def)
  then have "seen_at (ts_nonces st @ [\<lparr>sn_cert_fp = c, sn_nonce = n, sn_ts_ms = ts\<rparr>]) k =
      (if k = (c, n) then Some ts else seen_at (ts_nonces st) k)" for k
    by (auto simp: seen_at_def lookup_pk_append sn_key_def split: option.split)
  then show ?thesis using None
    by (simp add: verify_cases getLeaseCounter_def read_advance next_seq_def next_hash_def)
qed (simp add: verify_cases)

text \<open>A certificate and nonce pair is accepted again only after the ledger was swept past the time
  of its first acceptance: in every trace of the object, between two acceptances of the same pair
  there is a sweep whose cutoff is later than the first.\<close>

theorem nonce_reuse_needs_sweep:
  assumes "ts_trace sha (new_trust_store faults now)
      (pre @ (OpVerify p c n ts, RVerify (Advanced s h)) # mid @ [(OpVerify q c n ts', RVerify (Advanced s' h'))]) st"
  shows "\<exists>op r b. (op, r) \<in> set mid \<and> prune_cutoff op = Some b \<and> ts < b"
proof (rule ccontr)
  assume no: "\<not> ?thesis"
  obtain st1 where "ts_trace sha (new_trust_store faults now) pre st1"
      "ts_trace sha st1 ((OpVerify p c n ts, RVerify (Advanced s h)) # mid @ [(OpVerify q c n ts', RVerify (Advanced s' h'))]) st"
    using assms ts_trace_append by blast
  moreover from this(1) have "ts_inv st1" using ts_inv_trace ts_inv_new by blast
  ultimately have "RVerify (Advanced s' h') = RVerify Replayed" using second_verify_replayed no not_less by blast
  then show False by simp
qed

theorem nonce_reuse_needs_sweep_witness:
  "\<exists>st s h. ts_trace (\<lambda>_. []) (new_trust_store None 0)
      ([] @ (OpVerify (js ''p'') (js ''c'') (js ''n'') 5, RVerify (Advanced 1 [])) # [(OpPruneNonces 6, RCount 1)] @
       [(OpVerify (js ''p'') (js ''c'') (js ''n'') 9, RVerify (Advanced s h))]) st \<and>
      (\<exists>op r b. (op, r) \<in> set [(OpPruneNonces 6, RCount 1)] \<and> prune_cutoff op = Some b \<and> 5 < b)"
proof -
  let ?sha = "\<lambda>_ :: bytes. [] :: bytes"
  let ?o = "\<lambda>t. OpVerify (js ''p'') (js ''c'') (js ''n'') t"
  let ?s0 = "new_trust_store None 0"
  let ?s1 = "fst (ts_exec ?sha ?s0 (?o 5))"
  let ?s2 = "fst (ts_exec ?sha ?s1 (OpPruneNonces 6))"
  let ?s3 = "fst (ts_exec ?sha ?s2 (?o 9))"
  have 1: "ts_exec ?sha ?s0 (?o 5) = (?s1, RVerify (Advanced 1 []))"
    by (simp add: verify_cases seen_at_def new_trust_store_def ensureAlarmScheduled_def next_seq_def next_hash_def
        readLeaseCounter_lookup nextChainHash_def)
  have n1: "ts_nonces ?s1 = [\<lparr>sn_cert_fp = js ''c'', sn_nonce = js ''n'', sn_ts_ms = 5\<rparr>]"
    by (simp add: verify_cases seen_at_def new_trust_store_def ensureAlarmScheduled_def)
  then have 2: "ts_exec ?sha ?s1 (OpPruneNonces 6) = (?s2, RCount 1)" and n2: "ts_nonces ?s2 = []"
    by (simp_all add: pruneSeenNonces_def pruneSeenNoncesBefore_def delete_where_def del: ts_exec.simps(2))
  then have "\<exists>s h. ts_exec ?sha ?s2 (?o 9) = (?s3, RVerify (Advanced s h))" by (simp add: verify_cases seen_at_def)
  then obtain s h where 3: "ts_exec ?sha ?s2 (?o 9) = (?s3, RVerify (Advanced s h))" by blast
  have tr: "ts_trace ?sha ?s0 ([] @ (?o 5, RVerify (Advanced 1 [])) # [(OpPruneNonces 6, RCount 1)] @ [(?o 9, RVerify (Advanced s h))]) ?s3"
    using ts_trace.step [OF ts_trace.step [OF ts_trace.step [OF ts_trace.start 1] 2] 3] by simp
  with nonce_reuse_needs_sweep [OF this] show ?thesis by blast
qed


lemma exec_attestations:
  "ts_inv st \<Longrightarrow> ts_exec sha st op = (st', res) \<Longrightarrow>
     ts_attestations st' = ts_attestations st \<or> (\<exists>a. ts_attestations st' = push_attestation (ts_attestations st) a)"
proof (cases op)
  case (OpApply args)
  assume "ts_exec sha st op = (st', res)"
  then show ?thesis using exec_apply [of sha st args] OpApply by auto
next
  case (OpDrainRow ct now row)
  assume "ts_inv st" "ts_exec sha st op = (st', res)"
  then show ?thesis using OpDrainRow drain_row_state [of st ct now row] exec_fst(6) [of sha st ct now row]
    by (auto simp: ts_inv_def)
qed (auto simp: ts_recordSeenNonce_def pruneSeenNonces_def enqueuePendingAttestation_def commitPendingAttestation_def
      recordPendingFailedAttempt_def upsertRegistryTag_def recordRegistryMembership_def upsertReceipt_def lease_cases
      ts_pruneExpiredReceipts_def upsertCaBundle_def attachCompromiseNoticeToEpoch_def alarm_state split: prod.splits if_splits)

lemma trace_chain_prefix:
  "ts_trace sha st tr st' \<Longrightarrow> ts_inv st \<Longrightarrow> prefix (peer_chain (ts_attestations st) p) (peer_chain (ts_attestations st') p)"
proof (induction rule: ts_trace.induct)
  case (step st tr mid op st' res)
  have inv: "ts_inv mid" using ts_inv_trace step by blast
  then have att: "att_inv (ts_attestations mid)" by (simp add: ts_inv_def)
  have "prefix (peer_chain (ts_attestations mid) p) (peer_chain (ts_attestations st') p)"
    using exec_attestations [OF inv step(2)] attlog.log_extends [OF att, of p "[_]"] by auto
  then show ?case using step prefix_order.trans by blast
qed simp

text \<open>C37: In every trace of the object, with the rows of the retry drain interleaved with any other
  calls, every peer's attestation chain stays linked from genesis and only ever grows at its end.\<close>

theorem trust_store_chains_append_only:
  assumes "ts_trace sha (new_trust_store faults now) (tr1 @ tr2) st"
  shows "linked (peer_chain (ts_attestations st) p) \<and>
    (\<exists>st1. ts_trace sha (new_trust_store faults now) tr1 st1 \<and>
           prefix (peer_chain (ts_attestations st1) p) (peer_chain (ts_attestations st) p))"
proof -
  obtain st1 where 1: "ts_trace sha (new_trust_store faults now) tr1 st1" "ts_trace sha st1 tr2 st"
    using assms ts_trace_append by blast
  have inv: "ts_inv st1" "ts_inv st" using ts_inv_trace ts_inv_new 1 by blast+
  then have "linked (peer_chain (ts_attestations st) p)" by (simp add: ts_inv_def att_inv_def)
  then show ?thesis using 1 trace_chain_prefix [OF 1(2) inv(1)] by blast
qed

theorem trust_store_chains_append_only_witness:
  "\<exists>st. ts_trace (\<lambda>_. []) (new_trust_store None 0) ([] @ [(OpPruneNonces 6, RCount 0)]) st \<and>
     linked (peer_chain (ts_attestations st) (js ''p''))"
proof -
  have "ts_exec (\<lambda>_. []) (new_trust_store None 0) (OpPruneNonces 6) = (new_trust_store None 0, RCount 0)"
    by (simp add: pruneSeenNonces_def pruneSeenNoncesBefore_def delete_where_def new_trust_store_def ensureAlarmScheduled_def)
  then have "ts_trace (\<lambda>_. []) (new_trust_store None 0) ([] @ [(OpPruneNonces 6, RCount 0)]) (new_trust_store None 0)"
    by (rule ts_trace.step [OF ts_trace.start])
  with trust_store_chains_append_only [OF this] show ?thesis by blast
qed

text \<open>A drain that runs without interference commits everything it claims: no row fails, the
  contents are appended to their peers' chains in the order of the claim, and exactly the claimed
  rows leave the queue.\<close>

theorem drain_commits_every_claim:
  assumes "ts_trace sha (new_trust_store faults now0) tr st"
  shows "case drainPendingRetries st now ct lim of (st', claimed, committed, failed) \<Rightarrow>
     let batch = claimRetryBatch (ts_pending st) now (nullish lim 32) in
     claimed = int (length batch) \<and> committed = claimed \<and> failed = 0 \<and>
     pd_key ` set (ts_pending st') = pd_key ` set (ts_pending st) - pd_key ` set batch \<and>
     (\<forall>p. map pa_content_hash (peer_chain (ts_attestations st') p) =
          map pa_content_hash (peer_chain (ts_attestations st) p) @
          map pd_content_hash (filter (\<lambda>r. pd_peer_fp r = p) batch))"
proof -
  let ?b = "claimRetryBatch (ts_pending st) now (nullish lim 32)"
  have inv: "ts_inv st" using ts_inv_trace [OF assms ts_inv_new] .
  obtain st' c f where d: "drain_rows ct now st ?b = (st', c, f)" by (metis prod_cases3)
  then have "c = int (length ?b)" "f = 0" using drain_rows_all [OF inv, of ct now ?b] by simp_all
  then show ?thesis using drain_rows_effect [OF inv, of ct now ?b] d by (simp add: drainPendingRetries_def Let_def)
qed

definition queued_store :: trust_store where
  "queued_store = (new_trust_store None 0)\<lparr>ts_pending :=
     [\<lparr>pd_peer_fp = js ''p'', pd_content_hash = js ''h'', pd_scope = [], pd_cert = [], pd_sig = [], pd_attempts = 0,
       pd_next_retry_at = 30000, pd_created_at = 0, pd_last_attempt_at = None\<rparr>]\<rparr>"

definition queued_args :: pending_args where
  "queued_args = \<lparr>pq_peerFp = js ''p'', pq_contentHash = js ''h'', pq_scope = [], pq_cert = [], pq_sig = [], pq_nowMs = 0\<rparr>"

lemma queued_trace: "ts_trace (\<lambda>_. []) (new_trust_store None 0) ([] @ [(OpEnqueue queued_args, RFlag True)]) queued_store"
  by (rule ts_trace.step [OF ts_trace.start])
     (simp add: queued_args_def queued_store_def enqueuePendingAttestation_def enqueuePending_def insert_ignore_def
       new_trust_store_def ensureAlarmScheduled_def)

theorem drain_commits_every_claim_witness:
  "case drainPendingRetries queued_store 30000 (js ''bead'') None of
     (st', claimed, committed, failed) \<Rightarrow> claimed = 1 \<and> committed = claimed \<and> failed = 0 \<and> ts_pending st' = [] \<and>
       map pa_content_hash (peer_chain (ts_attestations st') (js ''p'')) = [js ''h'']"
proof -
  have b: "claimRetryBatch (ts_pending queued_store) 30000 (nullish None 32) = ts_pending queued_store"
      "length (ts_pending queued_store) = 1"
    by (simp_all add: claimRetryBatch_def select_where_def order_by_int_def limit_def queued_store_def)
  have a: "ts_attestations queued_store = []" "map pd_content_hash (filter (\<lambda>r. pd_peer_fp r = js ''p'') (ts_pending queued_store)) = [js ''h'']"
    by (simp_all add: queued_store_def new_trust_store_def ensureAlarmScheduled_def)
  show ?thesis
    using drain_commits_every_claim [OF queued_trace, where now = 30000 and ct = "js ''bead''" and lim = None] b a
    by (auto simp: Let_def peer_chain_def split: prod.splits)
qed

text \<open>The drain writes no link to the bead: a drained row answers no audit query, so whatever the
  drain commits, the attestations listed for any bead are the same before and after.\<close>

theorem drain_invisible_to_bead_audit:
  assumes "ts_trace sha (new_trust_store faults now0) tr st"
  shows "attestationsForBead (ts_attestations (fst (drain_row ct now st row))) bead =
         attestationsForBead (ts_attestations st) bead"
proof -
  have inv: "att_inv (ts_attestations st)" using ts_inv_trace [OF assms ts_inv_new] by (simp add: ts_inv_def)
  show ?thesis
    by (auto simp: drain_row_state [OF inv] push_attestation_eq [OF inv] attestationsForBead_def select_where_def
        next_row_def drain_args_def)
qed

theorem drain_invisible_to_bead_audit_witness:
  "attestationsForBead (ts_attestations (fst (drain_row (js ''bead'') 30000 queued_store (hd (ts_pending queued_store))))) (js ''b-1'') =
   attestationsForBead (ts_attestations queued_store) (js ''b-1'')"
  by (rule drain_invisible_to_bead_audit [OF queued_trace])

text \<open>The migration of an old database fails: a \<open>peer_attestations\<close> table that predates \<open>bead_id\<close>
  makes the schema script raise on its index before the \<open>ALTER TABLE\<close> is reached. A database without
  the table, and one that has \<open>bead_id\<close>, are brought up to date, keeping the columns they had.\<close>

theorem initSchema_outcome:
  "initSchema s =
     (case as_columns s of
        None \<Rightarrow> Inr (s\<lparr>as_columns := Some SCHEMA_PEER_ATTESTATIONS_columns, as_bead_index := True\<rparr>)
      | Some cols \<Rightarrow>
          if js ''bead_id'' \<in> set cols
          then Inr (s\<lparr>as_columns := Some (if js ''origins'' \<in> set cols then cols else cols @ [js ''origins'']),
                     as_bead_index := True\<rparr>)
          else if as_bead_index s
          then Inr (s\<lparr>as_columns := Some (if cols = [] then cols
                        else if js ''origins'' \<in> set cols then cols @ [js ''bead_id'']
                        else cols @ [js ''bead_id'', js ''origins''])\<rparr>)
          else Inl (NoSuchColumn (js ''bead_id'')))"
proof (cases "as_columns s")
  case None
  then show ?thesis
    by (simp add: initSchema_def exec_schema_def create_bead_index_def SCHEMA_PEER_ATTESTATIONS_columns_def)
next
  case (Some cols)
  then show ?thesis
    by (cases s) (auto simp: initSchema_def exec_schema_def create_bead_index_def add_column_def Let_def)
qed

end
