(* ===== verification/Lease_Middleware.thy ===== *)
theory Lease_Middleware
  imports CA_Bundle Trust_Store Js_Web
begin

text \<open>
  The lease verifier of \<open>src/routes/lease-middleware.ts\<close> and the certificate wrapper of
  \<open>src/wire/signet-verify.ts\<close> it calls. The order of the checks, every early return and every
  exception are those of the code; \<open>LeaseThrew\<close> is an exception that leaves \<open>verifyAndUpsertLease\<close>.

  The \<open>host\<close> record holds what is not TypeScript of the repository: SHA-256 and Ed25519 of Web Crypto,
  \<open>JSON.parse\<close>, the \<open>cbor-x\<close> encoder, and the WebAssembly verifier (the pointers its allocator returns
  during a call, and \<open>leyline_verify_cert_path\<close>, which gives the claims it wrote or fails); and the fate of the
  one remote call of the pipeline, to the Durable Object of the trust store, which can be delivered, lost on its
  way, or executed with its reply lost.
\<close>

section \<open>Certificate chain\<close>

record host =
  h_sha256 :: "bytes \<Rightarrow> bytes"
  h_ed25519 :: ed25519
  h_json_parse :: "jsstr \<Rightarrow> json option"
  h_cbor :: "bundle_message \<Rightarrow> bytes"
  h_ptrs :: "bytes \<Rightarrow> bytes \<Rightarrow> nat \<times> nat \<times> nat"
  h_cert_path :: "bytes \<Rightarrow> bytes \<Rightarrow> int \<Rightarrow> nat \<Rightarrow> bytes option"
  h_lease_call :: rpc_fate

record certClaims =
  cc_ephemeralPubkey :: bytes
  cc_notBefore :: int
  cc_notAfter :: int
  cc_epoch :: "int option"
  cc_peerFp :: "jsstr option"
  cc_scope :: "jsstr option"
  cc_confinementDigest :: "bytes option"

datatype certChainResult = ChainOk certClaims | ChainBad jsstr

definition EXPECTED_PROFILE_INTERLACE :: int where
  "EXPECTED_PROFILE_INTERLACE = 1"

definition DEFAULT_CLAIMS_OUT_LEN :: nat where
  "DEFAULT_CLAIMS_OUT_LEN = 1024"

definition claim_number :: "json option \<Rightarrow> int option" where
  "claim_number v = (case v of Some (JNum n) \<Rightarrow> Some n | _ \<Rightarrow> None)"

definition claim_string :: "json option \<Rightarrow> jsstr option" where
  "claim_string v = (case v of Some (JStr s) \<Rightarrow> Some s | _ \<Rightarrow> None)"

text \<open>\<open>None\<close> is the \<open>TypeError\<close> of reading a property of a parsed \<open>null\<close>.\<close>

definition parseClaimsJson :: "(jsstr \<Rightarrow> json option) \<Rightarrow> jsstr \<Rightarrow> certChainResult option" where
  "parseClaimsJson json_parse json =
     (case json_parse json of
        None \<Rightarrow> Some (ChainBad (js ''claims JSON parse failed''))
      | Some JNull \<Rightarrow> None
      | Some parsed \<Rightarrow> Some
          (let field = get_prop (Some parsed) in
           case claim_string (field (js ''epk'')) of
             None \<Rightarrow> ChainBad (js ''claims missing epk'')
           | Some epkRaw \<Rightarrow>
           (case claim_number (field (js ''nb'')) of
             None \<Rightarrow> ChainBad (js ''claims missing nb'')
           | Some nbRaw \<Rightarrow>
           (case claim_number (field (js ''na'')) of
             None \<Rightarrow> ChainBad (js ''claims missing na'')
           | Some naRaw \<Rightarrow>
           (case b64decode epkRaw of
             None \<Rightarrow> ChainBad (js ''claims epk not valid base64url'')
           | Some ephemeralPubkey \<Rightarrow>
             if length ephemeralPubkey \<noteq> 32 then ChainBad (js ''claims epk wrong length (expected 32 bytes Ed25519)'')
             else let claims = \<lparr>cc_ephemeralPubkey = ephemeralPubkey, cc_notBefore = nbRaw, cc_notAfter = naRaw,
                        cc_epoch = claim_number (field (js ''ep'')), cc_peerFp = claim_string (field (js ''pf'')),
                        cc_scope = claim_string (field (js ''sc'')), cc_confinementDigest = None\<rparr>
             in case field (js ''cd'') of
                  None \<Rightarrow> ChainOk claims
                | Some (JStr cd) \<Rightarrow>
                    (case b64decode cd of
                       None \<Rightarrow> ChainBad (js ''claims cd not valid base64url'')
                     | Some confinementDigest \<Rightarrow>
                         if length confinementDigest \<noteq> 32
                         then ChainBad (js ''claims cd wrong length (expected 32 bytes BLAKE3-256)'')
                         else ChainOk (claims\<lparr>cc_confinementDigest := Some confinementDigest\<rparr>))
                | Some _ \<Rightarrow> ChainBad (js ''claims cd present but not a string''))))))"

text \<open>The buffers a call frees, in order, with the result; \<open>None\<close> is a \<open>SignetWasmError\<close> of \<open>copyIn\<close>
  or the exception of \<open>parseClaimsJson\<close>, which passes through the \<open>finally\<close>.\<close>

definition verifyCertChain_frees ::
    "host \<Rightarrow> bytes \<Rightarrow> bytes \<Rightarrow> (nat \<times> nat) list \<times> certChainResult option" where
  "verifyCertChain_frees host certDer masterPubkey =
     (if length masterPubkey \<noteq> 32 then ([], Some (ChainBad (js ''master pubkey must be 32 bytes (Ed25519)'')))
      else let (certPtr, masterPtr, claimsOutPtr) = h_ptrs host certDer masterPubkey;
               claimsOutLen = DEFAULT_CLAIMS_OUT_LEN
      in if certPtr = 0 then ([], None)
      else if masterPtr = 0 then ([], None)
      else ([(certPtr, length certDer), (masterPtr, length masterPubkey), (claimsOutPtr, claimsOutLen)],
            case h_cert_path host certDer masterPubkey EXPECTED_PROFILE_INTERLACE claimsOutLen of
              None \<Rightarrow> Some (ChainBad (js ''cert chain verify failed (parse, sig, profile, or buffer)''))
            | Some jsonBytes \<Rightarrow> parseClaimsJson (h_json_parse host) (utf8_decode jsonBytes)))"

definition verifyCertChain :: "host \<Rightarrow> bytes \<Rightarrow> bytes \<Rightarrow> certChainResult option" where
  "verifyCertChain host certDer masterPubkey = snd (verifyCertChain_frees host certDer masterPubkey)"

section \<open>Headers and canonical bytes\<close>

record request =
  rq_method :: jsstr
  rq_url :: jsstr
  rq_headers :: "(jsstr \<times> jsstr) list"

record parsedAuthHeaders =
  ah_certDer :: bytes
  ah_sig :: bytes
  ah_ts :: int
  ah_nonce :: bytes

datatype authHeaderError =
  MissingAuthorization
| WrongScheme jsstr
| MissingSignature
| MissingTimestamp
| MissingNonce
| BadBase64 jsstr

fun error_kind :: "authHeaderError \<Rightarrow> jsstr" where
  "error_kind MissingAuthorization = js ''missing_authorization''"
| "error_kind (WrongScheme _) = js ''wrong_scheme''"
| "error_kind MissingSignature = js ''missing_signature''"
| "error_kind MissingTimestamp = js ''missing_timestamp''"
| "error_kind MissingNonce = js ''missing_nonce''"
| "error_kind (BadBase64 _) = js ''bad_base64''"

definition header :: "request \<Rightarrow> jsstr \<Rightarrow> jsstr option" where
  "header req name = map_of (rq_headers req) name"

definition parseAuthHeaders :: "request \<Rightarrow> authHeaderError + parsedAuthHeaders" where
  "parseAuthHeaders req =
     (let authz = header req (js ''authorization'') in
      if \<not> truthy_str authz then Inl MissingAuthorization
      else case index_of (of_char CHR '' '') (nullish authz []) of
        None \<Rightarrow> Inl (WrongScheme (nullish authz []))
      | Some space \<Rightarrow>
      let scheme = take space (nullish authz []) in
      if scheme \<noteq> js ''Signet'' then Inl (WrongScheme scheme)
      else case b64decode (js_trim (drop (space + 1) (nullish authz []))) of
        None \<Rightarrow> Inl (BadBase64 (js ''Authorization''))
      | Some certDer \<Rightarrow>
      let sigB64 = header req (js ''x-signet-sig'') in
      if \<not> truthy_str sigB64 then Inl MissingSignature
      else case b64decode (nullish sigB64 []) of
        None \<Rightarrow> Inl (BadBase64 (js ''X-Signet-Sig''))
      | Some sig \<Rightarrow>
      let tsRaw = header req (js ''x-signet-ts'') in
      if \<not> truthy_str tsRaw then Inl MissingTimestamp
      else case parse_int10 (nullish tsRaw []) of
        None \<Rightarrow> Inl MissingTimestamp
      | Some ts \<Rightarrow>
      if ts \<le> 0 then Inl MissingTimestamp
      else let nonceB64 = header req (js ''x-signet-nonce'') in
      if \<not> truthy_str nonceB64 then Inl MissingNonce
      else case b64decode (nullish nonceB64 []) of
        None \<Rightarrow> Inl (BadBase64 (js ''X-Signet-Nonce''))
      | Some nonce \<Rightarrow> Inr \<lparr>ah_certDer = certDer, ah_sig = sig, ah_ts = ts, ah_nonce = nonce\<rparr>)"

abbreviation LF :: jschar where
  "LF \<equiv> 10"

definition canonicalRequestBytes :: "jsstr \<Rightarrow> jsstr \<Rightarrow> int \<Rightarrow> bytes \<Rightarrow> jsstr \<Rightarrow> bytes" where
  "canonicalRequestBytes method url ts nonce body =
     (let nonceB64 = b64encode nonce;
          text = method @ [LF] @ url @ [LF] @ dec_of_int ts @ [LF] @ nonceB64 @ [LF] @ body
      in utf8_encode text)"

section \<open>Scopes\<close>

definition deriveRequestScope :: "jsstr \<Rightarrow> json option \<Rightarrow> jsstr" where
  "deriveRequestScope method params =
     (if method = js ''tools/list'' then js ''tools:list''
      else if method = js ''server/discover'' then js ''server:discover''
      else if method = js ''subscriptions/listen'' then js ''subscriptions:listen''
      else if method \<noteq> js ''tools/call'' then js ''unknown:'' @ method
      else let name = get_prop params (js ''name'') in
        if \<not> truthy_opt name then js ''tools:call:no_name''
        else let repo = get_prop (get_prop params (js ''arguments'')) (js ''repo'');
                 shown = js_string (the name)
             in if truthy_opt repo then shown @ js '':'' @ js_string (the repo) else shown @ js '':*'')"

definition scopeAllows :: "jsstr \<Rightarrow> jsstr \<Rightarrow> bool" where
  "scopeAllows certScope requested =
     (if certScope = js ''*'' then True
      else if certScope = requested then True
      else if ends_with certScope (js '':*'') then starts_with requested (butlast certScope)
      else False)"

section \<open>Errors\<close>

definition ERR_UNAUTHENTICATED :: int where "ERR_UNAUTHENTICATED = -32001"
definition ERR_SCOPE_DENIED :: int where "ERR_SCOPE_DENIED = -32002"
definition ERR_BAD_REQUEST_SIG :: int where "ERR_BAD_REQUEST_SIG = -32003"
definition ERR_REPLAY :: int where "ERR_REPLAY = -32004"
definition ERR_CA_UNAVAILABLE :: int where "ERR_CA_UNAVAILABLE = -32005"
definition ERR_EPOCH_MISMATCH :: int where "ERR_EPOCH_MISMATCH = -32006"
definition ERR_CLOCK_SKEW :: int where "ERR_CLOCK_SKEW = -32008"

lemmas lease_error_codes = ERR_UNAUTHENTICATED_def ERR_SCOPE_DENIED_def ERR_BAD_REQUEST_SIG_def ERR_REPLAY_def
  ERR_CA_UNAVAILABLE_def ERR_EPOCH_MISMATCH_def ERR_CLOCK_SKEW_def

definition leaseErrorStatus :: "int \<Rightarrow> int" where
  "leaseErrorStatus code =
     (if code = ERR_SCOPE_DENIED then 403
      else if code = ERR_CA_UNAVAILABLE \<or> code = ERR_EPOCH_MISMATCH then 503
      else if code = ERR_CLOCK_SKEW then 401
      else 401)"

definition MAX_CLOCK_SKEW_MS :: int where
  "MAX_CLOCK_SKEW_MS = 60000"

section \<open>The verify pipeline\<close>

definition certFingerprint :: "host \<Rightarrow> bytes \<Rightarrow> jsstr" where
  "certFingerprint host certDer = to_hex (h_sha256 host certDer)"

record verifiedLease =
  vl_peerFp :: jsstr
  vl_scope :: jsstr
  vl_epoch :: int
  vl_certFp :: jsstr
  vl_nonce :: bytes
  vl_serverTs :: int
  vl_certDer :: bytes
  vl_sig :: bytes
  vl_confinementDigest :: "bytes option"

datatype lease_outcome = LeaseThrew | LeaseDenied int jsstr | LeaseOk verifiedLease

definition b64StdDecode :: "jsstr \<Rightarrow> bytes option" where
  "b64StdDecode s = (if s = [] then Some [] else atob s)"

definition bundleMasterPubkeys :: "caBundle \<Rightarrow> (bytes \<times> bytes option) option" where
  "bundleMasterPubkeys bundle =
     (case b64StdDecode (nullish (map_of (ca_keys bundle) (ca_keyId bundle)) []) of
        None \<Rightarrow> None
      | Some active \<Rightarrow>
          (case ca_prevKeyId bundle of
             None \<Rightarrow> Some (active, None)
           | Some prevKeyId \<Rightarrow>
               (case map_of (ca_keys bundle) prevKeyId of
                  None \<Rightarrow> Some (active, None)
                | Some prev \<Rightarrow> map_option (\<lambda>p. (active, Some p)) (b64StdDecode prev))))"

definition verifyRequestSignature :: "host \<Rightarrow> bytes \<Rightarrow> bytes \<Rightarrow> bytes \<Rightarrow> bool \<times> jsstr option" where
  "verifyRequestSignature host ephemeralPubkey sig canonical =
     (case h_ed25519 host ephemeralPubkey sig canonical of Inl reason \<Rightarrow> (False, Some reason) | Inr ok \<Rightarrow> (ok, None))"

record verify_args =
  va_req :: request
  va_body :: jsstr
  va_method :: jsstr
  va_params :: "json option"
  va_requestedScope :: "jsstr option"

text \<open>The chain check with its fallback to the previous key.\<close>

definition verify_chain :: "host \<Rightarrow> bytes \<Rightarrow> bytes \<Rightarrow> bytes option \<Rightarrow> certChainResult option" where
  "verify_chain host certDer active prev =
     (case verifyCertChain host certDer active of
        None \<Rightarrow> None
      | Some (ChainOk claims) \<Rightarrow> Some (ChainOk claims)
      | Some (ChainBad reason) \<Rightarrow>
          (case prev of None \<Rightarrow> Some (ChainBad reason) | Some p \<Rightarrow> verifyCertChain host certDer p))"

text \<open>Steps 8 and 9, the replay check and the counter, are one remote call: a lost request never reaches the trust store, a lost
  reply reaches it and takes effect there, and the caller sees an exception in both.\<close>

definition advance_call ::
    "host \<Rightarrow> trust_store \<Rightarrow> jsstr \<Rightarrow> jsstr \<Rightarrow> jsstr \<Rightarrow> int \<Rightarrow> trust_store \<times> (chain_integrity_error + verify_result) option" where
  "advance_call host st peerFp certFp nonce ts =
     rpc (h_lease_call host) st (\<lambda>st. case verifyLeaseAndAdvanceChain (h_sha256 host) st peerFp certFp nonce ts of
         Inl e \<Rightarrow> (st, Inl e) | Inr (st', r) \<Rightarrow> (st', Inr r))"

text \<open>Steps 3 to 9 of the pipeline, on the claims of the verified certificate.\<close>

definition verify_claims ::
    "host \<Rightarrow> trust_store \<Rightarrow> verify_args \<Rightarrow> caBundle \<Rightarrow> int \<Rightarrow> parsedAuthHeaders \<Rightarrow> certClaims \<Rightarrow> trust_store \<times> lease_outcome" where
  "verify_claims host st args bundle nowMs headers claims =
     (case (cc_epoch claims, cc_peerFp claims, cc_scope claims) of
        (Some epoch, Some peerFp, Some scope) \<Rightarrow>
          if \<not> isCertEpochCurrent epoch bundle
          then (st, LeaseDenied ERR_EPOCH_MISMATCH
                 (js ''cert.epoch='' @ dec_of_int epoch @ js '' not current (bundle.epoch='' @ dec_of_int (ca_epoch bundle) @ js '')''))
          else let nowSec = nowMs div 1000 in
          if nowSec < cc_notBefore claims \<or> nowSec > cc_notAfter claims
          then (st, LeaseDenied ERR_UNAUTHENTICATED
                 (js ''cert outside validity window (now='' @ dec_of_int nowSec @ js '', ['' @ dec_of_int (cc_notBefore claims) @
                  js '','' @ dec_of_int (cc_notAfter claims) @ js ''])''))
          else let canonical = canonicalRequestBytes (rq_method (va_req args)) (rq_url (va_req args)) (ah_ts headers)
                                 (ah_nonce headers) (va_body args);
                   (ok, reason) = verifyRequestSignature host (cc_ephemeralPubkey claims) (ah_sig headers) canonical in
          if \<not> ok
          then (st, LeaseDenied ERR_BAD_REQUEST_SIG
                 (if truthy_str reason then js ''request signature invalid: '' @ nullish reason [] else js ''request signature invalid''))
          else let requestedScope = nullish (va_requestedScope args) (deriveRequestScope (va_method args) (va_params args)) in
          if \<not> scopeAllows scope requestedScope
          then (st, LeaseDenied ERR_SCOPE_DENIED
                 (js ''cert scope '' @ [39] @ scope @ [39] @ js '' does not allow '' @ [39] @ requestedScope @ [39]))
          else let certFp = certFingerprint host (ah_certDer headers); nonceB64 = b64encode (ah_nonce headers) in
          (case advance_call host st peerFp certFp nonceB64 nowMs of
             (st', None) \<Rightarrow> (st', LeaseThrew)
           | (st', Some (Inl _)) \<Rightarrow> (st', LeaseThrew)
           | (st', Some (Inr Replayed)) \<Rightarrow>
               (st', LeaseDenied ERR_REPLAY (js ''request envelope replayed (cert_fp, nonce) tuple already seen''))
           | (st', Some (Inr (Advanced _ _))) \<Rightarrow>
               (st', LeaseOk \<lparr>vl_peerFp = peerFp, vl_scope = scope, vl_epoch = epoch, vl_certFp = certFp,
                  vl_nonce = ah_nonce headers, vl_serverTs = nowMs, vl_certDer = ah_certDer headers,
                  vl_sig = ah_sig headers, vl_confinementDigest = cc_confinementDigest claims\<rparr>))
      | _ \<Rightarrow> (st, LeaseDenied ERR_UNAUTHENTICATED (js ''cert missing required Interlace claims (epoch, peer_fp, scope)'')))"

definition verifyAndUpsertLease ::
    "host \<Rightarrow> trust_store \<Rightarrow> verify_args \<Rightarrow> caBundle \<Rightarrow> int \<Rightarrow> trust_store \<times> lease_outcome" where
  "verifyAndUpsertLease host st args bundle nowMs =
     (case parseAuthHeaders (va_req args) of
        Inl kind \<Rightarrow> (st, LeaseDenied ERR_UNAUTHENTICATED (js ''lease auth header malformed: '' @ error_kind kind))
      | Inr headers \<Rightarrow>
          let skewMs = \<bar>nowMs - ah_ts headers\<bar> in
          if MAX_CLOCK_SKEW_MS < skewMs
          then (st, LeaseDenied ERR_CLOCK_SKEW
                 (js ''client timestamp skew '' @ dec_of_int skewMs @ js ''ms exceeds tolerance ('' @ [177] @
                  dec_of_int MAX_CLOCK_SKEW_MS @ js ''ms)''))
          else case bundleMasterPubkeys bundle of
            None \<Rightarrow> (st, LeaseThrew)
          | Some (active, prev) \<Rightarrow>
              if length active = 0
              then (st, LeaseDenied ERR_CA_UNAVAILABLE (js ''CA bundle missing active master pubkey''))
              else case verify_chain host (ah_certDer headers) active prev of
                None \<Rightarrow> (st, LeaseThrew)
              | Some (ChainBad reason) \<Rightarrow>
                  (st, LeaseDenied ERR_UNAUTHENTICATED (js ''cert chain verify failed: '' @ reason))
              | Some (ChainOk claims) \<Rightarrow> verify_claims host st args bundle nowMs headers claims)"

section \<open>The gate\<close>

datatype gateVerdict = VerdictOff | VerdictPass verifiedLease | VerdictReject int jsstr | VerdictThrew

record worker =
  wk_cache :: "cacheEntry option"
  wk_store :: trust_store

definition gateAndVerify ::
    "host \<Rightarrow> env \<Rightarrow> (unit \<Rightarrow> notme_response) \<Rightarrow> int \<Rightarrow> worker \<Rightarrow> int \<Rightarrow> verify_args \<Rightarrow> bool option \<Rightarrow> worker \<times> gateVerdict" where
  "gateAndVerify host env notme dateNow w nowMs verify denyWhenOff =
     (if \<not> leaseEnforced env
      then (w, if nullish denyWhenOff False then VerdictReject ERR_UNAUTHENTICATED (js ''authentication required'') else VerdictOff)
      else let (cache, resolved) = resolveCABundle (h_ed25519 host) (h_cbor host) env (wk_cache w) notme dateNow nowMs;
               w1 = w\<lparr>wk_cache := cache\<rparr>
      in case resolved of
           Inl _ \<Rightarrow> (w1, VerdictReject ERR_CA_UNAVAILABLE (js ''CA bundle unavailable''))
         | Inr bundle \<Rightarrow>
             let (st, outcome) = verifyAndUpsertLease host (wk_store w1) verify bundle nowMs;
                 w2 = w1\<lparr>wk_store := st\<rparr>
             in case outcome of
                  LeaseThrew \<Rightarrow> (w2, VerdictThrew)
                | LeaseDenied code message \<Rightarrow> (w2, VerdictReject code message)
                | LeaseOk lease \<Rightarrow> (w2, VerdictPass lease))"


section \<open>Lemmas\<close>

text \<open>What the remote call leaves behind, by its outcome.\<close>

lemma advance_call_ok:
  "advance_call host st p c n ts = (st', Some (Inr r)) \<Longrightarrow> verifyLeaseAndAdvanceChain (h_sha256 host) st p c n ts = Inr (st', r)"
  by (auto simp: advance_call_def verify_cases dest!: rpc_Some split: if_splits)

lemma advance_call_store:
  assumes "advance_call host st p c n ts = (st', r)"
  shows "(\<exists>s h. r = Some (Inr (Advanced s h))) \<or> st' = st \<or>
    r = None \<and> h_lease_call host = Reply_lost \<and> (\<exists>s h. advance_call (host\<lparr>h_lease_call := Delivered\<rparr>) st p c n ts = (st', Some (Inr (Advanced s h))))"
  using assms by (cases "h_lease_call host") (auto simp: advance_call_def rpc_def verify_cases split: if_splits)

lemma verify_claims_ok:
  assumes "verify_claims host st args bundle nowMs headers claims = (st', LeaseOk l)"
  shows "\<exists>epoch peerFp scope s h. cc_epoch claims = Some epoch \<and> cc_peerFp claims = Some peerFp \<and> cc_scope claims = Some scope \<and>
     isCertEpochCurrent epoch bundle \<and> cc_notBefore claims \<le> nowMs div 1000 \<and> nowMs div 1000 \<le> cc_notAfter claims \<and>
     h_ed25519 host (cc_ephemeralPubkey claims) (ah_sig headers)
       (canonicalRequestBytes (rq_method (va_req args)) (rq_url (va_req args)) (ah_ts headers) (ah_nonce headers) (va_body args)) = Inr True \<and>
     scopeAllows scope (nullish (va_requestedScope args) (deriveRequestScope (va_method args) (va_params args))) \<and>
     verifyLeaseAndAdvanceChain (h_sha256 host) st peerFp (certFingerprint host (ah_certDer headers)) (b64encode (ah_nonce headers)) nowMs =
       Inr (st', Advanced s h) \<and>
     l = \<lparr>vl_peerFp = peerFp, vl_scope = scope, vl_epoch = epoch, vl_certFp = certFingerprint host (ah_certDer headers),
          vl_nonce = ah_nonce headers, vl_serverTs = nowMs, vl_certDer = ah_certDer headers, vl_sig = ah_sig headers,
          vl_confinementDigest = cc_confinementDigest claims\<rparr>"
  using assms
  by (auto simp: verify_claims_def verifyRequestSignature_def Let_def dest: advance_call_ok
      split: option.splits if_splits sum.splits prod.splits verify_result.splits)

abbreviation delivered :: "host \<Rightarrow> host" where
  "delivered host \<equiv> host\<lparr>h_lease_call := Delivered\<rparr>"

text \<open>The other checks do not depend on the fate of the call.\<close>

lemma fate_irrelevant [simp]:
  "certFingerprint (host\<lparr>h_lease_call := f\<rparr>) = certFingerprint host" "verifyRequestSignature (host\<lparr>h_lease_call := f\<rparr>) = verifyRequestSignature host"
  "verify_chain (host\<lparr>h_lease_call := f\<rparr>) = verify_chain host"
proof -
  have "verifyCertChain (host\<lparr>h_lease_call := f\<rparr>) = verifyCertChain host"
    by (intro ext) (simp add: verifyCertChain_def verifyCertChain_frees_def Let_def split: prod.split option.split)
  then show "verify_chain (host\<lparr>h_lease_call := f\<rparr>) = verify_chain host"
    by (intro ext) (simp add: verify_chain_def split: option.split certChainResult.split)
qed (intro ext, simp add: certFingerprint_def verifyRequestSignature_def)+

text \<open>A refusal leaves the store alone. An exception does too, unless the reply of the call was lost: then the store is the one
  the accepted request would have left.\<close>

lemma verify_claims_store:
  assumes "verify_claims host st args bundle nowMs headers claims = (st', r)" "\<forall>l. r \<noteq> LeaseOk l"
  shows "st' = st \<or> r = LeaseThrew \<and> h_lease_call host = Reply_lost \<and> (\<exists>l. verify_claims (delivered host) st args bundle nowMs headers claims = (st', LeaseOk l))"
proof -
  obtain a out where c: "advance_call host st (the (cc_peerFp claims)) (certFingerprint host (ah_certDer headers)) (b64encode (ah_nonce headers)) nowMs = (a, out)"
    by force
  from advance_call_store [OF c] show ?thesis using assms c
    by (auto simp: verify_claims_def Let_def split: option.splits if_splits prod.splits sum.splits verify_result.splits)
qed

lemma verify_not_ok_store:
  assumes "verifyAndUpsertLease host st args bundle nowMs = (st', r)" "\<forall>l. r \<noteq> LeaseOk l"
  shows "st' = st \<or> r = LeaseThrew \<and> h_lease_call host = Reply_lost \<and> (\<exists>l. verifyAndUpsertLease (delivered host) st args bundle nowMs = (st', LeaseOk l))"
  using assms by (auto simp: verifyAndUpsertLease_def Let_def dest: verify_claims_store
      split: sum.splits if_splits option.splits prod.splits certChainResult.splits)

lemma verify_denied_store: "verifyAndUpsertLease host st args bundle nowMs = (st', LeaseDenied c m) \<Longrightarrow> st' = st"
  using verify_not_ok_store [of host st args _ nowMs st' "LeaseDenied c m"] by simp

lemma verify_ok:
  assumes "verifyAndUpsertLease host st args bundle nowMs = (st', LeaseOk l)"
  shows "\<exists>headers active prev claims. parseAuthHeaders (va_req args) = Inr headers \<and>
     \<bar>nowMs - ah_ts headers\<bar> \<le> 60000 \<and> bundleMasterPubkeys bundle = Some (active, prev) \<and> active \<noteq> [] \<and>
     verify_chain host (ah_certDer headers) active prev = Some (ChainOk claims) \<and>
     verify_claims host st args bundle nowMs headers claims = (st', LeaseOk l)"
  using assms
  by (auto simp: verifyAndUpsertLease_def Let_def MAX_CLOCK_SKEW_MS_def not_less
      split: sum.splits if_splits option.splits prod.splits certChainResult.splits)


lemma verify_chain_key:
  "verify_chain host cert active prev = Some (ChainOk claims) \<Longrightarrow>
     \<exists>key. (key = active \<or> prev = Some key) \<and> verifyCertChain host cert key = Some (ChainOk claims)"
  by (auto simp: verify_chain_def split: option.splits certChainResult.splits)

text \<open>The replay step of an accepted request, as an operation of the trust store's trace.\<close>

lemma verify_ok_step:
  assumes "verifyAndUpsertLease host st args bundle nowMs = (st', LeaseOk l)" "parseAuthHeaders (va_req args) = Inr headers"
  shows "\<exists>s h. ts_exec (h_sha256 host) st (OpVerify (vl_peerFp l) (certFingerprint host (ah_certDer headers))
             (b64encode (ah_nonce headers)) nowMs) = (st', RVerify (Advanced s h)) \<and> \<bar>nowMs - ah_ts headers\<bar> \<le> 60000"
proof -
  obtain active prev claims where a: "\<bar>nowMs - ah_ts headers\<bar> \<le> 60000"
      "verify_claims host st args bundle nowMs headers claims = (st', LeaseOk l)"
    using verify_ok [OF assms(1)] assms(2) by auto
  from verify_claims_ok [OF a(2)] obtain peerFp s h where
    "verifyLeaseAndAdvanceChain (h_sha256 host) st peerFp (certFingerprint host (ah_certDer headers)) (b64encode (ah_nonce headers)) nowMs =
       Inr (st', Advanced s h)" "vl_peerFp l = peerFp" by auto
  then show ?thesis using a(1) by auto
qed

lemma ts_trace_single: "ts_trace sha st [(op, res)] st' \<longleftrightarrow> ts_exec sha st op = (st', res)"
  using ts_trace_snoc [of sha st "[]" op res st'] by (simp del: ts_exec.simps)

lemma cons_snoc_trace:
  assumes "ts_exec sha st a = (st1, r1)" "ts_trace sha st1 mid st2" "ts_exec sha st2 b = (st3, r2)"
  shows "ts_trace sha st ((a, r1) # mid @ [(b, r2)]) st3"
proof -
  have "ts_trace sha st ([(a, r1)] @ mid @ [(b, r2)]) st3"
    unfolding ts_trace_append ts_trace_single using assms by blast
  then show ?thesis by simp
qed

lemma alarm_cutoff:
  "prune_cutoff op = Some b \<Longrightarrow> (\<forall>c. op \<noteq> OpPruneNonces c) \<Longrightarrow> \<exists>now rearm. op = OpAlarm now rearm \<and> b = now - 3600000"
  by (cases op) (auto simp: SEEN_NONCES_RETENTION_MS_def)

section \<open>Properties\<close>

text \<open>C1: A signed envelope is accepted at most once. After a request was accepted, whatever the trust
  store does meanwhile, hourly sweeps included, a second request with the same certificate, nonce and
  timestamp is not accepted at any later time: the clock-skew bound ends its life two minutes after
  the first acceptance at the latest, and the sweep keeps every entry for an hour. The two requests
  may differ in method, body, URL, signature, in how their headers spell the base64 and in what becomes of their calls to the
  trust store. The clock is
  assumed not to run backwards between the sweeps and the second request, and the manual prune is not
  used, as in the code.\<close>

theorem envelope_accepted_once:
  assumes "ts_trace (h_sha256 host) (new_trust_store faults now0) pre st1"
    and "verifyAndUpsertLease host st1 args1 bundle1 now1 = (st2, LeaseOk l1)"
    and "ts_trace (h_sha256 host) st2 mid st3"
    and "verifyAndUpsertLease (host\<lparr>h_lease_call := fate\<rparr>) st3 args2 bundle2 now2 = (st4, r)"
    and "parseAuthHeaders (va_req args1) = Inr h1" "parseAuthHeaders (va_req args2) = Inr h2"
    and "ah_certDer h2 = ah_certDer h1" "ah_nonce h2 = ah_nonce h1" "ah_ts h2 = ah_ts h1"
    and "\<And>now rearm res. (OpAlarm now rearm, res) \<in> set mid \<Longrightarrow> now \<le> now2"
    and "\<And>b res. (OpPruneNonces b, res) \<notin> set mid"
  shows "\<forall>l. r \<noteq> LeaseOk l"
proof (intro allI notI)
  fix l assume "r = LeaseOk l"
  with assms(4) have ok2: "verifyAndUpsertLease (host\<lparr>h_lease_call := fate\<rparr>) st3 args2 bundle2 now2 = (st4, LeaseOk l)" by simp
  let ?c = "certFingerprint host (ah_certDer h1)" and ?n = "b64encode (ah_nonce h1)"
  obtain s h where 1: "ts_exec (h_sha256 host) st1 (OpVerify (vl_peerFp l1) ?c ?n now1) = (st2, RVerify (Advanced s h))"
      "\<bar>now1 - ah_ts h1\<bar> \<le> 60000" using verify_ok_step [OF assms(2,5)] by blast
  obtain s' h' where 2: "ts_exec (h_sha256 host) st3 (OpVerify (vl_peerFp l) ?c ?n now2) = (st4, RVerify (Advanced s' h'))"
      "\<bar>now2 - ah_ts h1\<bar> \<le> 60000" using verify_ok_step [OF ok2 assms(6)] assms(7-9) by (auto simp del: ts_exec.simps)
  have "ts_inv st1" using ts_inv_trace [OF assms(1) ts_inv_new] .
  note replay = second_verify_replayed [OF this cons_snoc_trace [OF 1(1) assms(3) 2(1)]]
  have "b \<le> now1" if op: "(op, res) \<in> set mid" "prune_cutoff op = Some b" for op res b
  proof -
    obtain now rearm where "op = OpAlarm now rearm" "b = now - 3600000"
      using alarm_cutoff [OF op(2)] op(1) assms(11) by blast
    then show ?thesis using op(1) assms(10) 1(2) 2(2) by fastforce
  qed
  then show False using replay by blast
qed


text \<open>A host and a request for the examples: a digest of zeros, a signature check that accepts, and a
  certificate whose claims grant \<open>bead_create:*\<close> in epoch 5.\<close>

definition sample_host :: host where
  "sample_host = \<lparr>h_sha256 = (\<lambda>_. replicate 32 0), h_ed25519 = yes_ed,
     h_json_parse = (\<lambda>_. Some (JObj [(js ''epk'', JStr (b64encode (replicate 32 7))), (js ''nb'', JNum 1699999000),
        (js ''na'', JNum 1700001000), (js ''ep'', JNum 5), (js ''pf'', JStr (js ''peer'')), (js ''sc'', JStr (js ''bead_create:*''))])),
     h_cbor = (\<lambda>_. []), h_ptrs = (\<lambda>_ _. (1, 2, 3)), h_cert_path = (\<lambda>_ _ _ _. Some []), h_lease_call = Delivered\<rparr>"

definition sample_key :: jsstr where
  "sample_key = (let s = b64encode (replicate 32 0) in map std_char s @ drop ((length s + 3) mod 4) (js ''==='' ))"

definition lease_bundle :: caBundle where
  "lease_bundle = sample_bundle\<lparr>ca_keys := [(js ''k2'', sample_key)]\<rparr>"

definition sample_request :: "jsstr \<Rightarrow> request" where
  "sample_request method = \<lparr>rq_method = method, rq_url = js ''https://c/mcp'',
     rq_headers = [(js ''authorization'', js ''Signet '' @ b64encode [1]), (js ''x-signet-sig'', b64encode [2]),
       (js ''x-signet-ts'', dec_of_int 1700000000000), (js ''x-signet-nonce'', b64encode [3])]\<rparr>"

definition sample_verify :: verify_args where
  "sample_verify = \<lparr>va_req = sample_request (js ''POST''), va_body = js ''{}'', va_method = js ''tools/call'',
     va_params = Some (JObj [(js ''name'', JStr (js ''bead_create'')), (js ''arguments'', JObj [(js ''repo'', JStr (js ''r''))])]),
     va_requestedScope = None\<rparr>"

lemma sample_host_delivered: "sample_host\<lparr>h_lease_call := Delivered\<rparr> = sample_host"
  by (simp add: sample_host_def)

lemma sample_key_decodes: "b64StdDecode sample_key = Some (replicate 32 0)"
proof -
  have "atob sample_key = Some (replicate 32 0)"
    using b64_roundtrip [of "replicate 32 0"] by (simp only: sample_key_def b64decode_def Let_def)
  moreover have "atob [] = Some []" by (simp add: atob_def drop_pad_def ends_with_def)
  ultimately have "atob sample_key = Some (replicate 32 0)" "sample_key \<noteq> []" by auto
  then show ?thesis by (simp add: b64StdDecode_def)
qed

lemma trim_b64: "js_trim (b64encode [1]) = b64encode [1]"
  by (simp add: b64encode_simps js_trim_def js_space_def b64_digit_def b64_alphabet_def url_char_def)

lemma sample_headers:
  "parseAuthHeaders (sample_request m) = Inr \<lparr>ah_certDer = [1], ah_sig = [2], ah_ts = 1700000000000, ah_nonce = [3]\<rparr>"
proof -
  have "b64encode [b] \<noteq> []" for b by (simp add: b64encode_simps)
  then have ne: "truthy_str (Some (b64encode [b]))" for b by (simp add: truthy_str_def)
  have ts: "truthy_str (Some (dec_of_int 1700000000000))"
    using dec_digits_nonempty [of "nat 1700000000000"] by (simp add: truthy_str_def dec_of_int_def del: dec_digits.simps)
  show ?thesis
    by (simp add: parseAuthHeaders_def header_def sample_request_def trim_b64 [simplified] b64_roundtrip ne ts parse_int10_pos
        del: dec_digits.simps)
qed


lemma sample_chain: "verify_chain sample_host [1] (replicate 32 0) None =
    Some (ChainOk \<lparr>cc_ephemeralPubkey = replicate 32 7, cc_notBefore = 1699999000, cc_notAfter = 1700001000, cc_epoch = Some 5,
       cc_peerFp = Some (js ''peer''), cc_scope = Some (js ''bead_create:*''), cc_confinementDigest = None\<rparr>)"
  by (simp add: verify_chain_def verifyCertChain_def verifyCertChain_frees_def parseClaimsJson_def sample_host_def
      get_prop_def claim_string_def claim_number_def b64_roundtrip)

lemma sample_masters: "bundleMasterPubkeys lease_bundle = Some (replicate 32 0, None)"
  by (simp add: bundleMasterPubkeys_def lease_bundle_def sample_bundle_def sample_key_decodes)

lemma sample_scope: "scopeAllows (js ''bead_create:*'') (deriveRequestScope (va_method sample_verify) (va_params sample_verify))"
  by (simp add: scopeAllows_def deriveRequestScope_def sample_verify_def get_prop_def truthy_opt_def ends_with_def starts_with_def)

lemma sample_verdict:
  assumes "1699999940000 \<le> now" "now \<le> 1700000060000"
  shows "verifyAndUpsertLease sample_host st sample_verify lease_bundle now =
     (case verifyLeaseAndAdvanceChain (h_sha256 sample_host) st (js ''peer'') (certFingerprint sample_host [1]) (b64encode [3]) now of
        Inl _ \<Rightarrow> (st, LeaseThrew)
      | Inr (st', Replayed) \<Rightarrow> (st', LeaseDenied ERR_REPLAY (js ''request envelope replayed (cert_fp, nonce) tuple already seen''))
      | Inr (st', Advanced _ _) \<Rightarrow> (st', LeaseOk \<lparr>vl_peerFp = js ''peer'', vl_scope = js ''bead_create:*'', vl_epoch = 5,
           vl_certFp = certFingerprint sample_host [1], vl_nonce = [3], vl_serverTs = now, vl_certDer = [1], vl_sig = [2],
           vl_confinementDigest = None\<rparr>))"
proof -
  have h: "parseAuthHeaders (va_req sample_verify) = Inr \<lparr>ah_certDer = [1], ah_sig = [2], ah_ts = 1700000000000, ah_nonce = [3]\<rparr>"
    by (simp add: sample_verify_def sample_headers)
  have ed: "h_ed25519 sample_host k s m = Inr True" for k s m by (simp add: sample_host_def yes_ed_def)
  have call: "h_lease_call sample_host = Delivered" by (simp add: sample_host_def)
  have w: "\<not> 60000 < \<bar>now - 1700000000000\<bar>" "\<not> now div 1000 < 1699999000" "\<not> 1700001000 < now div 1000"
    using assms by auto
  have ep: "isCertEpochCurrent 5 lease_bundle" by (simp add: isCertEpochCurrent_def lease_bundle_def sample_bundle_def)
  show ?thesis
    using w ep sample_scope
    by (simp add: verifyAndUpsertLease_def h sample_masters sample_chain verify_claims_def verifyRequestSignature_def ed
        MAX_CLOCK_SKEW_MS_def sample_verify_def [THEN arg_cong [of _ _ va_requestedScope]] Let_def advance_call_def call rpc_def
        split: sum.split prod.split verify_result.split)
qed


theorem envelope_accepted_once_witness:
  "let first = verifyAndUpsertLease sample_host (new_trust_store None 0) sample_verify lease_bundle 1700000000000;
       second = verifyAndUpsertLease sample_host (fst first) sample_verify lease_bundle 1700000060000
   in (\<exists>l. snd first = LeaseOk l) \<and> (\<forall>l. snd second \<noteq> LeaseOk l)"
proof -
  let ?f = "verifyAndUpsertLease sample_host (new_trust_store None 0) sample_verify lease_bundle 1700000000000"
  have "seen_at (ts_nonces (new_trust_store None 0)) k = None" for k
    by (simp add: seen_at_def new_trust_store_def ensureAlarmScheduled_def)
  then obtain l where l: "snd ?f = LeaseOk l" by (simp add: sample_verdict verify_cases)
  then have f: "?f = (fst ?f, LeaseOk l)" by (metis prod.collapse)
  have h: "parseAuthHeaders (va_req sample_verify) = Inr \<lparr>ah_certDer = [1], ah_sig = [2], ah_ts = 1700000000000, ah_nonce = [3]\<rparr>"
    by (simp add: sample_verify_def sample_headers)
  obtain st4 r where v: "verifyAndUpsertLease (sample_host\<lparr>h_lease_call := Delivered\<rparr>) (fst ?f) sample_verify lease_bundle 1700000060000 = (st4, r)"
    by force
  from envelope_accepted_once [OF ts_trace.start f ts_trace.start v h h] have "\<forall>l. r \<noteq> LeaseOk l" by simp
  then have "\<forall>l. snd (verifyAndUpsertLease sample_host (fst ?f) sample_verify lease_bundle 1700000060000) \<noteq> LeaseOk l"
    using v by (simp add: sample_host_delivered)
  then show ?thesis using l by (simp add: Let_def)
qed

text \<open>C2: Acceptance is sound: a request is accepted only when its headers parse, its timestamp is within
  a minute of the server's clock, the certificate verifies under the bundle's active key or, when the
  bundle names one, its previous key, its epoch is current, the clock is inside its validity window,
  the certificate's key signed exactly this method, URL, timestamp, nonce and body, and its scope
  grants the request; the lease handed on is the one the certificate describes.\<close>

theorem accepted_lease_sound:
  assumes "verifyAndUpsertLease host st args bundle nowMs = (st', LeaseOk l)"
  shows "\<exists>headers active prev key claims.
     parseAuthHeaders (va_req args) = Inr headers \<and> \<bar>nowMs - ah_ts headers\<bar> \<le> 60000 \<and>
     bundleMasterPubkeys bundle = Some (active, prev) \<and> (key = active \<or> prev = Some key) \<and>
     verifyCertChain host (ah_certDer headers) key = Some (ChainOk claims) \<and>
     cc_epoch claims = Some (vl_epoch l) \<and> cc_peerFp claims = Some (vl_peerFp l) \<and> cc_scope claims = Some (vl_scope l) \<and>
     isCertEpochCurrent (vl_epoch l) bundle \<and>
     cc_notBefore claims \<le> nowMs div 1000 \<and> nowMs div 1000 \<le> cc_notAfter claims \<and>
     h_ed25519 host (cc_ephemeralPubkey claims) (vl_sig l)
       (canonicalRequestBytes (rq_method (va_req args)) (rq_url (va_req args)) (ah_ts headers) (vl_nonce l) (va_body args)) = Inr True \<and>
     scopeAllows (vl_scope l) (nullish (va_requestedScope args) (deriveRequestScope (va_method args) (va_params args))) \<and>
     vl_nonce l = ah_nonce headers \<and> vl_sig l = ah_sig headers \<and> vl_certDer l = ah_certDer headers \<and> vl_serverTs l = nowMs"
proof -
  obtain headers active prev claims where 1: "parseAuthHeaders (va_req args) = Inr headers" "\<bar>nowMs - ah_ts headers\<bar> \<le> 60000"
      "bundleMasterPubkeys bundle = Some (active, prev)" "verify_chain host (ah_certDer headers) active prev = Some (ChainOk claims)"
      "verify_claims host st args bundle nowMs headers claims = (st', LeaseOk l)"
    using verify_ok [OF assms] by blast
  from verify_chain_key [OF 1(4)] obtain key where
    2: "key = active \<or> prev = Some key" "verifyCertChain host (ah_certDer headers) key = Some (ChainOk claims)" by blast
  show ?thesis
    using verify_claims_ok [OF 1(5)] 1(1-3) 2
    by (intro exI [of _ headers] exI [of _ active] exI [of _ prev] exI [of _ key] exI [of _ claims]) auto
qed

theorem accepted_lease_sound_witness:
  "\<exists>l (claims :: certClaims). snd (verifyAndUpsertLease sample_host (new_trust_store None 0) sample_verify lease_bundle 1700000000000) = LeaseOk l \<and>
     cc_scope claims = Some (vl_scope l) \<and> vl_serverTs l = 1700000000000"
proof -
  let ?f = "verifyAndUpsertLease sample_host (new_trust_store None 0) sample_verify lease_bundle 1700000000000"
  have "seen_at (ts_nonces (new_trust_store None 0)) k = None" for k
    by (simp add: seen_at_def new_trust_store_def ensureAlarmScheduled_def)
  then obtain l where l: "snd ?f = LeaseOk l" by (simp add: sample_verdict verify_cases)
  then have "?f = (fst ?f, LeaseOk l)" by (metis prod.collapse)
  from accepted_lease_sound [OF this] l show ?thesis by blast
qed




lemma no_LF:
  "LF \<notin> set (dec_of_int ts)" "LF \<notin> set (b64encode bs)"
proof -
  have "LF \<notin> set (dec_digits n)" for n using dec_digits_range [of n] by force
  then show "LF \<notin> set (dec_of_int ts)" by (simp add: dec_of_int_def del: dec_digits.simps)
  show "LF \<notin> set (b64encode bs)"
  proof
    assume "LF \<in> set (b64encode bs)"
    then obtain n where "n < 64" "url_char (b64_digit n) = LF" using b64_digits_bound [of bs] by (auto simp: b64encode_digits)
    then show False using b64_digit_props(3) [of n] by (auto simp: is_ws_def url_char_def split: if_splits)
  qed
qed

text \<open>The signed bytes determine the request: when method and URL have no line feed, equal canonical
  bytes mean equal method, URL, timestamp, nonce and body, so a signature over one request is a
  signature over no other, whatever line feeds the body has.\<close>

theorem canonical_bytes_bind_request:
  assumes "LF \<notin> set m" "LF \<notin> set u" "LF \<notin> set m'" "LF \<notin> set u'"
    and "well_formed (m @ [LF] @ u @ [LF] @ dec_of_int ts @ [LF] @ b64encode n @ [LF] @ b)"
    and "well_formed (m' @ [LF] @ u' @ [LF] @ dec_of_int ts' @ [LF] @ b64encode n' @ [LF] @ b')"
  shows "canonicalRequestBytes m u ts n b = canonicalRequestBytes m' u' ts' n' b' \<longleftrightarrow>
     m = m' \<and> u = u' \<and> ts = ts' \<and> n = n' \<and> b = b'"
proof -
  have "b64encode n = b64encode n' \<longleftrightarrow> n = n'" by (metis b64_roundtrip option.inject)
  then show ?thesis
    using assms(1-4) no_LF
    unfolding canonicalRequestBytes_def Let_def utf8_encode_inject [OF assms(5,6)]
    by (simp add: split_at_first_sep)
qed

text \<open>What a scope grants: a certificate scope allows a request exactly when it is \<open>*\<close>, equal to the
  requested scope, or of the form \<open>p:*\<close> where the requested scope starts with \<open>p:\<close>.\<close>

theorem scope_grants:
  "scopeAllows c r \<longleftrightarrow> c = js ''*'' \<or> c = r \<or> (\<exists>p t. c = p @ js '':*'' \<and> r = p @ js '':'' @ t)"
proof -
  have "ends_with c (js '':*'') \<and> starts_with r (butlast c) \<longleftrightarrow> (\<exists>p t. c = p @ js '':*'' \<and> r = p @ js '':'' @ t)"
    by (auto simp: ends_with_iff starts_with_iff butlast_append)
  then show ?thesis by (auto simp: scopeAllows_def)
qed

text \<open>The gate fails closed: in a deployment that is not explicitly in dev mode and has no root key
  configured, an empty one included, every request is refused with \<open>CA bundle unavailable\<close> and nothing
  changes, whatever the cache holds, whatever notme answers and whatever dev key is set.\<close>

theorem no_anchor_refuses_everything:
  assumes "env_CLOISTER_MODE env \<noteq> Some (js ''dev'')" "\<not> truthy_str (env_INTERLACE_ROOT_PUBKEY env)"
  shows "gateAndVerify host env notme dateNow w nowMs args deny =
     (w, VerdictReject ERR_CA_UNAVAILABLE (js ''CA bundle unavailable''))"
  using assms
  by (simp add: gateAndVerify_def leaseEnforced_def resolveLeaseGate_def resolveCABundle_def devCaBundle_def)

theorem no_anchor_refuses_everything_witness:
  "snd (gateAndVerify sample_host (prod_env\<lparr>env_INTERLACE_ROOT_PUBKEY := Some [], env_DEV_CA_MASTER := Some sample_key\<rparr>)
     (\<lambda>_. NotmeStatus 200 (Some sample_body)) 0 \<lparr>wk_cache = None, wk_store = new_trust_store None 0\<rparr> 1700000000000 sample_verify None) =
   VerdictReject ERR_CA_UNAVAILABLE (js ''CA bundle unavailable'')"
  by (subst no_anchor_refuses_everything) (simp_all add: prod_env_def)

text \<open>The only way past the gate without a lease is the explicit dev opt-out: a request goes through
  unverified exactly when the mode is \<open>dev\<close>, neither key is configured and the route did not ask to
  deny; and a request passes with a lease only if that lease was verified against the resolved bundle.\<close>

theorem gate_admits_only_verified_or_dev:
  "(snd (gateAndVerify host env notme dateNow w nowMs args deny) = VerdictOff \<longleftrightarrow>
      env_CLOISTER_MODE env = Some (js ''dev'') \<and> \<not> truthy_str (env_DEV_CA_MASTER env) \<and>
      \<not> truthy_str (env_INTERLACE_ROOT_PUBKEY env) \<and> \<not> nullish deny False) \<and>
   (snd (gateAndVerify host env notme dateNow w nowMs args deny) = VerdictPass l \<longleftrightarrow>
      leaseEnforced env \<and>
      (\<exists>bundle. snd (resolveCABundle (h_ed25519 host) (h_cbor host) env (wk_cache w) notme dateNow nowMs) = Inr bundle \<and>
         snd (verifyAndUpsertLease host (wk_store w) args bundle nowMs) = LeaseOk l))"
proof -
  obtain c res where r: "resolveCABundle (h_ed25519 host) (h_cbor host) env (wk_cache w) notme dateNow nowMs = (c, res)"
    by (cases "resolveCABundle (h_ed25519 host) (h_cbor host) env (wk_cache w) notme dateNow nowMs")
  show ?thesis
    by (auto simp: gateAndVerify_def leaseEnforced_def resolveLeaseGate_def r Let_def
        split: sum.splits prod.splits lease_outcome.splits if_splits)
qed

text \<open>Every buffer the certificate wrapper allocates is freed once, except when the second input
  does not fit: then it throws before its \<open>try\<close> and the copy of the certificate is never freed.\<close>

theorem cert_chain_buffers:
  assumes "length key = 32" "h_ptrs host cert key = (p, q, r)"
  shows "fst (verifyCertChain_frees host cert key) =
       (if p = 0 \<or> q = 0 then [] else [(p, length cert), (q, 32), (r, 1024)]) \<and>
     (q = 0 \<longrightarrow> verifyCertChain host cert key = None)"
  using assms by (simp add: verifyCertChain_def verifyCertChain_frees_def DEFAULT_CLAIMS_OUT_LEN_def)

theorem cert_chain_buffers_witness:
  "fst (verifyCertChain_frees (sample_host\<lparr>h_ptrs := (\<lambda>_ _. (8, 0, 0))\<rparr>) [1] (replicate 32 0)) = [] \<and>
   verifyCertChain (sample_host\<lparr>h_ptrs := (\<lambda>_ _. (8, 0, 0))\<rparr>) [1] (replicate 32 0) = None"
  using cert_chain_buffers [of "replicate 32 0" "sample_host\<lparr>h_ptrs := (\<lambda>_ _. (8, 0, 0))\<rparr>" "[1]" 8 0 0] by simp

theorem canonical_bytes_bind_request_witness:
  "canonicalRequestBytes (js ''POST'') (js ''/a'') 1 [1] [] \<noteq> canonicalRequestBytes (js ''POST'') (js ''/a'') 1 [] (b64encode [1] @ [LF])"
proof -
  have a: "ascii (js ''POST'' @ [LF] @ js ''/a'' @ [LF] @ dec_of_int 1 @ [LF] @ b64encode n @ [LF] @ (if w then b64encode [1] @ [LF] else []))" for n w
    by (simp add: dec_of_int_ascii b64encode_ascii)
  show ?thesis
    using canonical_bytes_bind_request [OF _ _ _ _ ascii_well_formed [OF a [of "[1]" False]] ascii_well_formed [OF a [of "[]" True]]]
    by simp
qed

text \<open>A host whose certificates grant everything, and a production worker with a cached bundle, for the examples of the routes.\<close>

definition route_sample_host :: host where
  "route_sample_host = sample_host\<lparr>h_json_parse :=
     (\<lambda>_. Some (JObj [(js ''epk'', JStr (b64encode (replicate 32 7))), (js ''nb'', JNum 1699999000), (js ''na'', JNum 1700001000),
        (js ''ep'', JNum 5), (js ''pf'', JStr (js ''s1'')), (js ''sc'', JStr (js ''*''))]))\<rparr>"

definition route_sample_worker :: worker where
  "route_sample_worker = \<lparr>wk_cache = Some \<lparr>ce_bundle = lease_bundle, ce_fetchedAtMs = 1700000000000\<rparr>, wk_store = new_trust_store None 0\<rparr>"

lemma route_sample_chain: "verify_chain route_sample_host [1] (replicate 32 0) None =
    Some (ChainOk \<lparr>cc_ephemeralPubkey = replicate 32 7, cc_notBefore = 1699999000, cc_notAfter = 1700001000, cc_epoch = Some 5,
       cc_peerFp = Some (js ''s1''), cc_scope = Some (js ''*''), cc_confinementDigest = None\<rparr>)"
  by (simp add: verify_chain_def verifyCertChain_def verifyCertChain_frees_def parseClaimsJson_def route_sample_host_def sample_host_def
      get_prop_def claim_string_def claim_number_def b64_roundtrip)

lemma route_sample_trust:
  "resolveCABundle (h_ed25519 route_sample_host) (h_cbor route_sample_host) prod_env (wk_cache route_sample_worker) notme 1700000000000 1700000000000
     = (wk_cache route_sample_worker, Inr lease_bundle)" "leaseEnforced prod_env"
  by (simp_all add: resolveCABundle_def devCaBundle_def prod_env_def sample_root_simps getCABundle_def route_sample_worker_def BUNDLE_REFRESH_MS_def
      leaseEnforced_def resolveLeaseGate_def)

lemma route_sample_gate:
  assumes "rq_headers (va_req args) = rq_headers (sample_request m)" "va_requestedScope args = None"
  shows "\<exists>w lease. gateAndVerify route_sample_host prod_env notme 1700000000000 route_sample_worker 1700000000000 args deny = (w, VerdictPass lease) \<and>
    vl_peerFp lease = js ''s1'' \<and> ts_nonces (wk_store w) \<noteq> []"
proof -
  have h: "parseAuthHeaders (va_req args) = Inr \<lparr>ah_certDer = [1], ah_sig = [2], ah_ts = 1700000000000, ah_nonce = [3]\<rparr>"
  proof -
    have "header (va_req args) = header (sample_request m)" using assms(1) by (intro ext) (simp add: header_def)
    then show ?thesis using sample_headers [of m] by (simp only: parseAuthHeaders_def)
  qed
  have ed: "h_ed25519 route_sample_host k s m = Inr True" for k s m by (simp add: route_sample_host_def sample_host_def yes_ed_def)
  have call: "h_lease_call route_sample_host = Delivered" by (simp add: route_sample_host_def sample_host_def)
  have ep: "isCertEpochCurrent 5 lease_bundle" by (simp add: isCertEpochCurrent_def lease_bundle_def sample_bundle_def)
  have new: "seen_at (ts_nonces (new_trust_store None 0)) k = None" for k
    by (simp add: seen_at_def new_trust_store_def ensureAlarmScheduled_def)
  have "\<exists>st lease. verifyAndUpsertLease route_sample_host (new_trust_store None 0) args lease_bundle 1700000000000 = (st, LeaseOk lease) \<and> vl_peerFp lease = js ''s1'' \<and>
      ts_nonces st \<noteq> []"
    using ep new by (simp add: verifyAndUpsertLease_def h sample_masters route_sample_chain verify_claims_def verifyRequestSignature_def ed
        MAX_CLOCK_SKEW_MS_def assms(2) Let_def scopeAllows_def advance_call_def call rpc_def verify_cases split: sum.split prod.split verify_result.split)
  then show ?thesis using route_sample_trust by (auto simp: gateAndVerify_def route_sample_worker_def Let_def)
qed

end
