(* ===== verification/Receipt_Emit.thy ===== *)
theory Receipt_Emit
  imports Receipts_Verify Origins Lease_Middleware
begin

text \<open>
  Receipt emission: the delegated signer \<open>src/wire/receipt-delegated-signer.ts\<close>, the emitter
  \<open>src/routes/receipt-emitter.ts\<close> and the context builder of \<open>src/routes/mcp.ts\<close> that calls it. The \<open>ReceiptSigner\<close>
  entrypoint of notme is a parameter: two operations on a state of its own, each of which may fail. The epoch setting is
  exact where JavaScript rounds above \<open>2^53\<close>.
\<close>

section \<open>The delegated signer\<close>

text \<open>\<open>Not_facts\<close> is an answer without the declared fields, as a binding to another entrypoint gives.\<close>

datatype facts_reply = Facts bytes js_number | Not_facts

datatype sign_reply = Signed bytes | Sign_refused jsstr

record 'r notme_stub =
  nt_receiptFacts :: "'r \<Rightarrow> 'r \<times> facts_reply option"
  nt_signReceipt :: "'r \<Rightarrow> bytes \<Rightarrow> 'r \<times> sign_reply option"

definition RETRYABLE_COMMITMENT_CODE :: jsstr where
  "RETRYABLE_COMMITMENT_CODE = js ''EPOCH_MISMATCH''"

record 'r delegated =
  dg_remote :: "'r notme_stub"
  dg_facts :: "facts_reply option"

definition facts :: "'r \<Rightarrow> 'r delegated \<Rightarrow> 'r \<times> 'r delegated \<times> facts_reply option" where
  "facts r d =
     (case dg_facts d of
        Some f \<Rightarrow> (r, d, Some f)
      | None \<Rightarrow> (case nt_receiptFacts (dg_remote d) r of
            (r', None) \<Rightarrow> (r', d, None)
          | (r', Some f) \<Rightarrow> (r', d\<lparr>dg_facts := Some f\<rparr>, Some f)))"

definition invalidateFacts :: "'r delegated \<Rightarrow> 'r delegated" where
  "invalidateFacts d = d\<lparr>dg_facts := None\<rparr>"

definition probe :: "'r \<Rightarrow> 'r delegated \<Rightarrow> 'r \<times> 'r delegated \<times> (bytes \<times> int) option" where
  "probe r d =
     (case facts r d of
        (r', d', None) \<Rightarrow> (r', invalidateFacts d', None)
      | (r', d', Some f) \<Rightarrow> (r', d', case f of
            Facts actorFp (Integer epoch) \<Rightarrow> if length actorFp \<noteq> 32 then None else Some (actorFp, epoch)
          | _ \<Rightarrow> None))"

datatype delegated_error = Delegated_encode cbor_error | Rpc_failed | Rejected jsstr

definition ask_to_sign :: "'r \<Rightarrow> 'r delegated \<Rightarrow> ReceiptCommitment \<Rightarrow> 'r \<times> (delegated_error + sign_reply)" where
  "ask_to_sign r d c =
     (case encodeCommitment c of Inl e \<Rightarrow> (r, Inl (Delegated_encode e))
      | Inr canon \<Rightarrow> (case nt_signReceipt (dg_remote d) r canon of
            (r', None) \<Rightarrow> (r', Inl Rpc_failed)
          | (r', Some reply) \<Rightarrow> (r', Inr reply)))"

text \<open>The answer of a second reading of the facts has the declared type; one that has not, or an epoch that is not an
  integer, fails like the call itself.\<close>

definition signCommitment :: "'r \<Rightarrow> 'r delegated \<Rightarrow> ReceiptCommitment \<Rightarrow> 'r \<times> (delegated_error + bytes \<times> ReceiptCommitment)" where
  "signCommitment r d c =
     (case ask_to_sign r d c of
        (r1, Inl e) \<Rightarrow> (r1, Inl e)
      | (r1, Inr (Signed sig)) \<Rightarrow> (r1, Inr (sig, c))
      | (r1, Inr (Sign_refused code)) \<Rightarrow>
          if code \<noteq> RETRYABLE_COMMITMENT_CODE then (r1, Inl (Rejected code))
          else (case facts r1 (invalidateFacts d) of
              (r2, d2, Some (Facts actorFp (Integer epoch))) \<Rightarrow>
                (let retried = c\<lparr>rc_actorFp := actorFp, rc_epoch := epoch\<rparr> in
                 case ask_to_sign r2 d2 retried of
                   (r3, Inl e) \<Rightarrow> (r3, Inl e)
                 | (r3, Inr (Signed sig)) \<Rightarrow> (r3, Inr (sig, retried))
                 | (r3, Inr (Sign_refused code')) \<Rightarrow> (r3, Inl (Rejected code')))
            | (r2, _, _) \<Rightarrow> (r2, Inl Rpc_failed)))"

definition delegatedReceiptSignerFrom :: "'r notme_stub option \<Rightarrow> 'r delegated option" where
  "delegatedReceiptSignerFrom binding = map_option (\<lambda>s. \<lparr>dg_remote = s, dg_facts = None\<rparr>) binding"

definition signDelegatedCommitmentToHeader ::
    "'r \<Rightarrow> ReceiptCommitment \<Rightarrow> 'r delegated \<Rightarrow> 'r \<times> (delegated_error + jsstr \<times> bytes \<times> bytes \<times> ReceiptCommitment)" where
  "signDelegatedCommitmentToHeader r c d =
     (case signCommitment r d c of
        (r', Inl e) \<Rightarrow> (r', Inl e)
      | (r', Inr (sig, c')) \<Rightarrow>
          (case encodeReceiptEnvelope \<lparr>re_commitment = c', re_signature = sig\<rparr> of
             Inl e \<Rightarrow> (r', Inl (Delegated_encode e))
           | Inr envb \<Rightarrow> (r', Inr (b64urlEncode envb, envb, sig, c'))))"

section \<open>The emission context\<close>

record receipt_env =
  env_RECEIPT_SIGNING_KEY :: "jsstr option"
  env_RECEIPT_ACTOR_FP :: "jsstr option"
  env_RECEIPT_EPOCH :: "jsstr option"

record receipt_host =
  rh_sha256 :: "bytes \<Rightarrow> bytes"
  rh_import_key :: "bytes \<Rightarrow> (bytes \<Rightarrow> bytes option) option"

record 'r emission_context =
  cx_nowMs :: int
  cx_requestCanon :: bytes
  cx_nonce :: bytes
  cx_signer :: "ReceiptSigner option"
  cx_delegated :: "'r delegated option"
  cx_actorFp :: bytes
  cx_epoch :: int
  cx_origins :: "OriginSet option"

text \<open>The module variable \<open>receiptEmissionDisabledLogged\<close> and the outcomes logged.\<close>

record emit_state =
  em_disabledLogged :: bool
  em_log :: "jsstr list"

definition loadReceiptSigner :: "receipt_host \<Rightarrow> receipt_env \<Rightarrow> emit_state \<Rightarrow> emit_state \<times> ReceiptSigner option" where
  "loadReceiptSigner host env st =
     (if \<not> truthy_str (env_RECEIPT_SIGNING_KEY env) then
        (if \<not> em_disabledLogged st then st\<lparr>em_disabledLogged := True, em_log := em_log st @ [js ''disabled_no_signing_key'']\<rparr> else st, None)
      else (st, case b64stdDecode (nullish (env_RECEIPT_SIGNING_KEY env) []) of
            None \<Rightarrow> None
          | Some kp \<Rightarrow>
              if length kp \<noteq> 64 then None
              else (case makeReceiptSignerFromKeypair (rh_import_key host) kp of Inl e \<Rightarrow> None | Inr signer \<Rightarrow> Some signer)))"

fun hex_pairs :: "jsstr \<Rightarrow> bytes" where
  "hex_pairs (a # b # s) = of_nat (nullish (hex_value a) 0 * 16 + nullish (hex_value b) 0) # hex_pairs s"
| "hex_pairs _ = []"

definition fingerprint_pin :: "jsstr \<Rightarrow> bool" where
  "fingerprint_pin s = (length s = 64 \<and> (\<forall>c \<in> set s. hex_value c \<noteq> None))"

definition resolveActorFingerprint :: "receipt_host \<Rightarrow> receipt_env \<Rightarrow> bytes \<Rightarrow> bytes" where
  "resolveActorFingerprint host env pubkey =
     (case env_RECEIPT_ACTOR_FP env of
        Some s \<Rightarrow> if fingerprint_pin s then hex_pairs s else rh_sha256 host pubkey
      | None \<Rightarrow> rh_sha256 host pubkey)"

definition resolveEpoch :: "receipt_env \<Rightarrow> int" where
  "resolveEpoch env =
     (if \<not> truthy_str (env_RECEIPT_EPOCH env) then 1
      else (case parse_int10 (nullish (env_RECEIPT_EPOCH env) []) of None \<Rightarrow> 1 | Some n \<Rightarrow> if n < 0 then 1 else n))"

definition local_context :: "receipt_host \<Rightarrow> receipt_env \<Rightarrow> 'r \<Rightarrow> emit_state \<Rightarrow> int \<Rightarrow> bytes \<Rightarrow> bytes \<Rightarrow> 'r \<times> emit_state \<times> 'r emission_context option" where
  "local_context host env r st nowMs requestCanon nonce =
     (case loadReceiptSigner host env st of
        (st', None) \<Rightarrow> (r, st', None)
      | (st', Some signer) \<Rightarrow> (r, st', Some \<lparr>cx_nowMs = nowMs, cx_requestCanon = requestCanon, cx_nonce = nonce, cx_signer = Some signer,
            cx_delegated = None, cx_actorFp = resolveActorFingerprint host env (sg_pubkey signer), cx_epoch = resolveEpoch env, cx_origins = None\<rparr>))"

definition buildEmissionContext ::
    "receipt_host \<Rightarrow> receipt_env \<Rightarrow> 'r notme_stub option \<Rightarrow> 'r \<Rightarrow> emit_state \<Rightarrow> int \<Rightarrow> bytes \<Rightarrow> bytes \<Rightarrow> 'r \<times> emit_state \<times> 'r emission_context option" where
  "buildEmissionContext host env binding r st nowMs requestCanon nonce =
     (case delegatedReceiptSignerFrom binding of
        None \<Rightarrow> local_context host env r st nowMs requestCanon nonce
      | Some d \<Rightarrow> (case probe r d of
            (r', d', Some (actorFp, epoch)) \<Rightarrow>
              (r', st, Some \<lparr>cx_nowMs = nowMs, cx_requestCanon = requestCanon, cx_nonce = nonce, cx_signer = None,
                 cx_delegated = Some d', cx_actorFp = actorFp, cx_epoch = epoch, cx_origins = None\<rparr>)
          | (r', d', None) \<Rightarrow>
              local_context host env r' (st\<lparr>em_log := em_log st @ [js ''delegation_unavailable_falling_back'']\<rparr>) nowMs requestCanon nonce))"

text \<open>The builder of \<open>mcp.ts\<close>: the canonical bytes are made again from the verified lease.\<close>

definition buildReceiptContext ::
    "receipt_host \<Rightarrow> receipt_env \<Rightarrow> 'r notme_stub option \<Rightarrow> 'r \<Rightarrow> emit_state \<Rightarrow> int \<Rightarrow> request \<Rightarrow> jsstr \<Rightarrow> verifiedLease \<Rightarrow> 'r \<times> emit_state \<times> 'r emission_context option" where
  "buildReceiptContext host env binding r st nowMs request bodyText lease =
     buildEmissionContext host env binding r st nowMs
       (canonicalRequestBytes (rq_method request) (rq_url request) (vl_serverTs lease) (vl_nonce lease) bodyText) (vl_nonce lease)"

section \<open>Attaching a receipt\<close>

datatype emit_error = Emit_sign sign_error | Emit_delegated delegated_error | Emit_headers cbor_error | Bad_header | Null_body_status

text \<open>\<open>cur.split(/,\s*/)\<close>: white space after a comma belongs to the separator.\<close>

definition split_list :: "jsstr \<Rightarrow> jsstr list" where
  "split_list s = (case split_on (of_char CHR '','') s of [] \<Rightarrow> [] | w # ws \<Rightarrow> w # map (dropWhile js_space) ws)"

definition appendAccessControlExposeHeader :: "headers \<Rightarrow> jsstr \<Rightarrow> headers option" where
  "appendAccessControlExposeHeader hs name =
     (case map_of hs (js ''access-control-expose-headers'') of
        None \<Rightarrow> headers_set hs (js ''access-control-expose-headers'') name
      | Some cur \<Rightarrow>
          if cur = [] then headers_set hs (js ''access-control-expose-headers'') name
          else if ascii_lower name \<in> set (map ascii_lower (split_list cur)) then Some hs
          else headers_set hs (js ''access-control-expose-headers'') (cur @ js '', '' @ name))"

definition receipt_commitment :: "receipt_host \<Rightarrow> response \<Rightarrow> 'r emission_context \<Rightarrow> bytes \<Rightarrow> ReceiptCommitment" where
  "receipt_commitment host rsp ctx headersBytes =
     \<lparr>rc_nonce = cx_nonce ctx, rc_requestHash = rh_sha256 host (cx_requestCanon ctx), rc_status = rs_status rsp,
      rc_bodyHash = rh_sha256 host (rs_body rsp), rc_headersHash = rh_sha256 host headersBytes, rc_timestampMs = cx_nowMs ctx,
      rc_actorFp = cx_actorFp ctx,
      rc_originsHash = (case cx_origins ctx of None \<Rightarrow> None | Some origins \<Rightarrow> originsDigest (rh_sha256 host) origins),
      rc_epoch = cx_epoch ctx\<rparr>"

definition sign_header :: "'r \<Rightarrow> 'r emission_context \<Rightarrow> ReceiptCommitment \<Rightarrow> 'r \<times> (emit_error + jsstr)" where
  "sign_header r ctx c =
     (case cx_delegated ctx of
        Some d \<Rightarrow> (case signDelegatedCommitmentToHeader r c d of
            (r', Inl e) \<Rightarrow> (r', Inl (Emit_delegated e)) | (r', Inr (h, _)) \<Rightarrow> (r', Inr h))
      | None \<Rightarrow> (case cx_signer ctx of
            None \<Rightarrow> (r, Inl (Emit_sign Sign_failed))
          | Some s \<Rightarrow> (case signCommitmentToHeader c s of Inl e \<Rightarrow> (r, Inl (Emit_sign e)) | Inr (h, _) \<Rightarrow> (r, Inr h))))"

definition attachReceipt :: "receipt_host \<Rightarrow> 'r \<Rightarrow> response \<Rightarrow> 'r emission_context \<Rightarrow> 'r \<times> (emit_error + response)" where
  "attachReceipt host r rsp ctx =
     (if cx_signer ctx = None \<and> cx_delegated ctx = None then (r, Inr rsp)
      else if rs_status rsp < 200 \<or> rs_status rsp \<ge> 300 then (r, Inr rsp)
      else if starts_with (ascii_lower (nullish (map_of (rs_headers rsp) (js ''content-type'')) [])) (js ''text/event-stream'') then (r, Inr rsp)
      else (case appendAccessControlExposeHeader (rs_headers rsp) INTERLACE_RECEIPT_HEADER of
          None \<Rightarrow> (r, Inl Bad_header)
        | Some outgoingHeaders \<Rightarrow> (case buildHeadersCommittedBytes outgoingHeaders of
            Inl e \<Rightarrow> (r, Inl (Emit_headers e))
          | Inr headersBytes \<Rightarrow> (case sign_header r ctx (receipt_commitment host rsp ctx headersBytes) of
              (r', Inl e) \<Rightarrow> (r', Inl e)
            | (r', Inr headerValue) \<Rightarrow> (case headers_set outgoingHeaders INTERLACE_RECEIPT_HEADER headerValue of
                None \<Rightarrow> (r', Inl Bad_header)
              | Some newHeaders \<Rightarrow>
                  if rs_status rsp \<in> {204, 205} then (r', Inl Null_body_status)
                  else (r', Inr (rsp\<lparr>rs_headers := newHeaders\<rparr>)))))))"

section \<open>Headers of the outgoing response\<close>

lemma set_http_trim: "set (http_trim s) \<subseteq> set s"
  unfolding http_trim_def by (auto dest!: set_dropWhileD)

definition legal_value :: "jsstr \<Rightarrow> bool" where
  "legal_value v \<longleftrightarrow> (\<forall>c \<in> set v. c \<noteq> 0 \<and> c \<noteq> 10 \<and> c \<noteq> 13 \<and> unat c \<le> 255)"

definition legal_headers :: "headers \<Rightarrow> bool" where
  "legal_headers hs \<longleftrightarrow> (\<forall>e \<in> set hs. legal_value (snd e))"

lemma headers_set_legal:
  assumes "legal_value v" "name \<noteq> []" "\<forall>c \<in> set name. token_char c"
  shows "headers_set hs name v = Some (AList.update (ascii_lower name) (http_trim v) hs)"
  using assms set_http_trim [of v] by (fastforce simp: headers_set_def Let_def legal_value_def)

lemma receipt_names:
  "\<forall>c \<in> set INTERLACE_RECEIPT_HEADER. token_char c" "INTERLACE_RECEIPT_HEADER \<noteq> []" "legal_value INTERLACE_RECEIPT_HEADER"
  "ascii_lower INTERLACE_RECEIPT_HEADER = js ''interlace-receipt''"
  "\<forall>c \<in> set (js ''access-control-expose-headers''). token_char c" "ascii_lower (js ''access-control-expose-headers'') = js ''access-control-expose-headers''"
  "js ''interlace-receipt'' \<notin> set HEADER_ALLOWLIST"
  by (simp_all add: INTERLACE_RECEIPT_HEADER_def token_char_def alnum_def is_lower_def is_upper_def dec_digit_def legal_value_def ascii_lower_def HEADER_ALLOWLIST_def)

lemma expose_legal:
  assumes "legal_headers hs"
  shows "\<exists>out. appendAccessControlExposeHeader hs INTERLACE_RECEIPT_HEADER = Some out"
proof -
  have "legal_value (cur @ js '', '' @ INTERLACE_RECEIPT_HEADER)" if "map_of hs (js ''access-control-expose-headers'') = Some cur" for cur
    using assms map_of_SomeD [OF that] receipt_names(3) by (fastforce simp: legal_headers_def legal_value_def)
  then show ?thesis
    using receipt_names(3) headers_set_legal [OF _ _ receipt_names(5)]
    by (auto simp: appendAccessControlExposeHeader_def simp del: list.map split: option.split)
qed

lemma b64_header_value: "legal_value (b64urlEncode bs)" "http_trim (b64urlEncode bs) = b64urlEncode bs"
proof -
  have "list_all (\<lambda>n. let c = url_char (b64_digit n) in \<not> http_ws c \<and> c \<noteq> 0 \<and> unat c \<le> 255) [0..<64]"
    by code_simp
  then have chars: "\<not> http_ws c \<and> c \<noteq> 0 \<and> unat c \<le> 255" if "c \<in> set (b64encode bs)" for c
    using that b64_digits_bound [of bs] by (auto simp: b64encode_digits list_all_iff Let_def)
  then show "legal_value (b64urlEncode bs)" by (force simp: legal_value_def base64_names http_ws_def)
  have clean: "dropWhile http_ws xs = xs" if "\<forall>c \<in> set xs. \<not> http_ws c" for xs using that by (cases xs) auto
  show "http_trim (b64urlEncode bs) = b64urlEncode bs"
    using chars clean [of "b64encode bs"] clean [of "rev (b64encode bs)"] by (simp add: http_trim_def base64_names)
qed

lemma committed_headers_cong:
  assumes "\<forall>n \<in> set HEADER_ALLOWLIST. map_of hs n = map_of hs' n"
  shows "buildHeadersCommittedBytes hs = buildHeadersCommittedBytes hs'"
proof -
  have "committed_headers hs = committed_headers hs'"
    unfolding committed_headers_def List.map_filter_def using assms by (auto intro!: map_cong filter_cong)
  then show ?thesis by (simp add: buildHeadersCommittedBytes_def)
qed

lemma receipt_header_uncommitted:
  assumes "headers_set out INTERLACE_RECEIPT_HEADER v = Some new"
  shows "buildHeadersCommittedBytes new = buildHeadersCommittedBytes out" "map_of new (js ''interlace-receipt'') = Some (http_trim v)"
proof -
  have lookup: "map_of new = (map_of out)(js ''interlace-receipt'' \<mapsto> http_trim v)"
    using headers_set_lookup [OF assms] by (simp add: receipt_names(4) del: list.map)
  then show "buildHeadersCommittedBytes new = buildHeadersCommittedBytes out"
    using receipt_names(7) by (intro committed_headers_cong) (auto simp del: list.map)
  show "map_of new (js ''interlace-receipt'') = Some (http_trim v)" using lookup by simp
qed

section \<open>Emission and verification\<close>

text \<open>The responses a receipt is attached to, and the contexts a receipt can be built from.\<close>

definition receiptable :: "response \<Rightarrow> bool" where
  "receiptable rsp \<longleftrightarrow> 200 \<le> rs_status rsp \<and> rs_status rsp < 300 \<and> rs_status rsp \<notin> {204, 205} \<and> legal_headers (rs_headers rsp) \<and>
     \<not> starts_with (ascii_lower (nullish (map_of (rs_headers rsp) (js ''content-type'')) [])) (js ''text/event-stream'')"

definition context_ok :: "'r emission_context \<Rightarrow> bool" where
  "context_ok ctx \<longleftrightarrow> 16 \<le> length (cx_nonce ctx) \<and> length (cx_nonce ctx) < 2 ^ 31 \<and> length (cx_actorFp ctx) = 32 \<and>
     safe_uint (cx_epoch ctx) \<and> safe_uint (cx_nowMs ctx)"

lemma receipt_commitment_ok:
  assumes "sha32 (rh_sha256 host)" "receiptable rsp" "context_ok ctx"
  shows "commitment_ok (receipt_commitment host rsp ctx hb)"
  using assms by (auto simp: commitment_ok_def receipt_commitment_def sha32_def receiptable_def context_ok_def safe_uint_def head_ok_def originsDigest_def
      to_number_small simp del: list.map split: option.splits if_splits)

text \<open>What the client passes to the verifier: the response it received, its own request, and the actor it expects.\<close>

definition client_args :: "response \<Rightarrow> bytes \<Rightarrow> bytes \<Rightarrow> bytes \<Rightarrow> int \<Rightarrow> (int \<Rightarrow> bytes option) \<Rightarrow> int \<Rightarrow> PLiveVerifyArgs" where
  "client_args rsp requestCanon nonce actorFp epoch keys now =
     \<lparr>pl_headerValue = nullish (map_of (rs_headers rsp) (js ''interlace-receipt'')) [], pl_expectedActorFp = actorFp,
      pl_currentEpoch = epoch, pl_prevEpoch = None, pl_resolvePubkey = keys, pl_expectedNonce = nonce,
      pl_requestCanon = requestCanon, pl_responseBody = rs_body rsp, pl_responseHeaders = rs_headers rsp, pl_nowMs = now\<rparr>"

text \<open>A receipt whose signature covers the commitment, whichever signer made it, verifies on the response it is attached to. The
  delegated signer may have replaced the actor's fingerprint and the epoch.\<close>

lemma attached_receipt_verifies:
  assumes rsp: "receiptable rsp" "cx_signer ctx \<noteq> None \<or> cx_delegated ctx \<noteq> None"
    and out: "appendAccessControlExposeHeader (rs_headers rsp) INTERLACE_RECEIPT_HEADER = Some out" "buildHeadersCommittedBytes out = Inr hb"
    and sign: "sign_header r ctx (receipt_commitment host rsp ctx hb) = (r', Inr hdr)" "hdr = b64urlEncode envb"
    and dec: "decodeReceiptBytes envb = Inr \<lparr>re_commitment = (receipt_commitment host rsp ctx hb)\<lparr>rc_actorFp := fp, rc_epoch := n\<rparr>, re_signature = sig\<rparr>"
    and canon: "encodeCommitment ((receipt_commitment host rsp ctx hb)\<lparr>rc_actorFp := fp, rc_epoch := n\<rparr>) = Inr canon"
      "keys n = Some pub" "verifyEd25519 ed pub sig canon" "\<bar>now - cx_nowMs ctx\<bar> \<le> 300000"
  shows "\<exists>rsp'. attachReceipt host r rsp ctx = (r', Inr rsp') \<and> rs_body rsp' = rs_body rsp \<and> rs_status rsp' = rs_status rsp \<and>
    verifyReceiptPLive (rh_sha256 host) ed (client_args rsp' (cx_requestCanon ctx) (cx_nonce ctx) fp n keys now) =
      Accepted \<lparr>re_commitment = (receipt_commitment host rsp ctx hb)\<lparr>rc_actorFp := fp, rc_epoch := n\<rparr>, re_signature = sig\<rparr>"
proof -
  let ?c = "(receipt_commitment host rsp ctx hb)\<lparr>rc_actorFp := fp, rc_epoch := n\<rparr>"
  obtain new where new: "headers_set out INTERLACE_RECEIPT_HEADER hdr = Some new"
    using headers_set_legal [OF b64_header_value(1) receipt_names(2,1)] sign(2) by blast
  let ?rsp = "rsp\<lparr>rs_headers := new\<rparr>" let ?args = "client_args ?rsp (cx_requestCanon ctx) (cx_nonce ctx) fp n keys now"
  have attach: "attachReceipt host r rsp ctx = (r', Inr ?rsp)"
    using rsp out sign(1) new by (auto simp: attachReceipt_def receiptable_def simp del: list.map)
  have hdr: "map_of new (js ''interlace-receipt'') = Some hdr"
    using receipt_header_uncommitted(2) [OF new] b64_header_value(2) [of envb] sign(2) by simp
  have "live_checks (rh_sha256 host) ed ?args \<lparr>re_commitment = ?c, re_signature = sig\<rparr>"
    unfolding live_checks_def Let_def client_args_def
    using canon rsp(1) out(2) receipt_header_uncommitted(1) [OF new] by (simp add: receipt_commitment_def receiptable_def del: list.map)
  moreover have "decodeReceiptHeader (pl_headerValue ?args) = Inr \<lparr>re_commitment = ?c, re_signature = sig\<rparr>"
    using hdr dec sign(2) by (simp add: client_args_def header_of_bytes del: list.map)
  ultimately have "verifyReceiptPLive (rh_sha256 host) ed ?args = Accepted \<lparr>re_commitment = ?c, re_signature = sig\<rparr>"
    unfolding live_accepts_iff by simp
  then show ?thesis using attach by (intro exI [of _ ?rsp]) auto
qed

text \<open>C7: What the emitter attaches, the client accepts: for a receiptable response and a well-formed context, the response goes out
  with its body and status unchanged, and the live verifier accepts its receipt on the response as received, with the
  request, nonce, actor and epoch of the context and a clock within five minutes. The signer's signatures are taken to verify
  under its public key.\<close>

theorem emitted_receipt_verifies:
  assumes "sha32 (rh_sha256 host)" "signer_ok ed signer" "cx_signer ctx = Some signer" "cx_delegated ctx = None" "receiptable rsp" "context_ok ctx"
    and "appendAccessControlExposeHeader (rs_headers rsp) INTERLACE_RECEIPT_HEADER = Some out" "headers_short out"
    and "keys (cx_epoch ctx) = Some (sg_pubkey signer)" "\<bar>now - cx_nowMs ctx\<bar> \<le> 300000"
  shows "\<exists>rsp' env. attachReceipt host r rsp ctx = (r, Inr rsp') \<and> rs_body rsp' = rs_body rsp \<and> rs_status rsp' = rs_status rsp \<and>
    verifyReceiptPLive (rh_sha256 host) ed (client_args rsp' (cx_requestCanon ctx) (cx_nonce ctx) (cx_actorFp ctx) (cx_epoch ctx) keys now) = Accepted env"
proof -
  obtain hb where hb: "buildHeadersCommittedBytes out = Inr hb" using headers_bytes [OF assms(8)] by blast
  let ?c = "receipt_commitment host rsp ctx hb"
  have c: "?c\<lparr>rc_actorFp := cx_actorFp ctx, rc_epoch := cx_epoch ctx\<rparr> = ?c" by (simp add: receipt_commitment_def)
  obtain hdr envb sig canon where sign: "signCommitmentToHeader ?c signer = Inr (hdr, envb, sig)" "hdr = b64urlEncode envb"
    and canon: "encodeCommitment ?c = Inr canon" "verifyEd25519 ed (sg_pubkey signer) sig canon"
    and dec: "decodeReceiptBytes envb = Inr \<lparr>re_commitment = ?c, re_signature = sig\<rparr>"
    using signed_receipt [OF receipt_commitment_ok [OF assms(1,5,6)] assms(2)] by blast
  have "sign_header r ctx ?c = (r, Inr hdr)" using assms(3,4) sign(1) by (simp add: sign_header_def)
  from attached_receipt_verifies [OF assms(5) _ assms(7) hb this sign(2), where fp = "cx_actorFp ctx" and n = "cx_epoch ctx" and keys = keys, unfolded c, OF _ dec canon(1) assms(9) canon(2) assms(10)]
  show ?thesis using assms(3) by blast
qed

section \<open>The delegated path\<close>

lemma ask_to_sign_Signed:
  assumes "ask_to_sign r d c = (r', Inr (Signed sig))"
  shows "\<exists>canon. encodeCommitment c = Inr canon \<and> nt_signReceipt (dg_remote d) r canon = (r', Some (Signed sig))"
  using assms by (auto simp: ask_to_sign_def split: sum.splits prod.splits option.splits)

lemma facts_remote: "facts r d = (r', d', f) \<Longrightarrow> dg_remote d' = dg_remote d"
  by (auto simp: facts_def split: option.splits prod.splits)

lemma facts_fresh: "facts r (invalidateFacts d) = (r', d', Some f) \<Longrightarrow> nt_receiptFacts (dg_remote d) r = (r', Some f)"
  by (auto simp: facts_def invalidateFacts_def split: option.splits prod.splits)

text \<open>The commitment handed back is the one whose bytes the authority signed: the given one, or the given one under facts read
  again.\<close>

lemma signCommitment_signed:
  assumes "signCommitment r d c = (r', Inr (sig, c'))"
  obtains (first) r1 canon where "c' = c" "encodeCommitment c = Inr canon" "nt_signReceipt (dg_remote d) r canon = (r1, Some (Signed sig))"
  | (retried) r1 r2 r3 fp n canon where "nt_receiptFacts (dg_remote d) r1 = (r2, Some (Facts fp (Integer n)))" "c' = c\<lparr>rc_actorFp := fp, rc_epoch := n\<rparr>"
      "encodeCommitment c' = Inr canon" "nt_signReceipt (dg_remote d) r2 canon = (r3, Some (Signed sig))"
proof -
  obtain r1 reply where ask: "ask_to_sign r d c = (r1, Inr reply)"
    using assms by (auto simp: signCommitment_def split: prod.splits sum.splits)
  show thesis
  proof (cases reply)
    case (Signed s)
    then show thesis using assms ask ask_to_sign_Signed [of r d c r1 s] first by (auto simp: signCommitment_def)
  next
    case (Sign_refused code)
    obtain r2 d2 f where f: "facts r1 (invalidateFacts d) = (r2, d2, f)" by (metis prod_cases3)
    then obtain fp n where F: "f = Some (Facts fp (Integer n))"
      using assms ask Sign_refused
      by (auto simp: signCommitment_def split: if_splits option.splits facts_reply.splits js_number.splits)
    let ?c = "c\<lparr>rc_actorFp := fp, rc_epoch := n\<rparr>"
    have "ask_to_sign r2 d2 ?c = (r', Inr (Signed sig)) \<and> c' = ?c"
      using assms ask Sign_refused f F by (auto simp: signCommitment_def Let_def split: if_splits prod.splits sum.splits sign_reply.splits)
    moreover have "dg_remote d2 = dg_remote d" using facts_remote [OF f] by (simp add: invalidateFacts_def)
    ultimately show thesis using ask_to_sign_Signed [of r2 d2 ?c r' sig] facts_fresh [OF f [unfolded F]] retried by metis
  qed
qed

text \<open>What notme documents: the facts it hands out are well formed, and it signs the canonical bytes of a commitment under the key
  of the epoch the commitment names.\<close>

definition authority_ok :: "(bytes \<Rightarrow> bytes \<Rightarrow> bytes \<Rightarrow> bool option) \<Rightarrow> (int \<Rightarrow> bytes option) \<Rightarrow> 'r notme_stub \<Rightarrow> bool" where
  "authority_ok ed keys stub \<longleftrightarrow>
     (\<forall>r r' fp n. nt_receiptFacts stub r = (r', Some (Facts fp (Integer n))) \<longrightarrow> length fp = 32 \<and> safe_uint n) \<and>
     (\<forall>r r' c canon sig. encodeCommitment c = Inr canon \<longrightarrow> nt_signReceipt stub r canon = (r', Some (Signed sig)) \<longrightarrow>
        (\<exists>pub. keys (rc_epoch c) = Some pub \<and> verifyEd25519 ed pub sig canon))"

text \<open>C8: The same for the delegated signer, a rotation of the epoch under the request included: whatever response goes out carries a
  receipt the client accepts, for the actor and epoch of the context or for those the authority gave on the second reading.\<close>

theorem delegated_receipt_verifies:
  assumes "sha32 (rh_sha256 host)" "authority_ok ed keys (dg_remote d)" "cx_delegated ctx = Some d" "receiptable rsp" "context_ok ctx"
    and "appendAccessControlExposeHeader (rs_headers rsp) INTERLACE_RECEIPT_HEADER = Some out" "headers_short out"
    and "attachReceipt host r rsp ctx = (r', Inr rsp')" "\<bar>now - cx_nowMs ctx\<bar> \<le> 300000"
  shows "\<exists>fp n env. verifyReceiptPLive (rh_sha256 host) ed (client_args rsp' (cx_requestCanon ctx) (cx_nonce ctx) fp n keys now) = Accepted env \<and>
    (fp = cx_actorFp ctx \<and> n = cx_epoch ctx \<or> (\<exists>r1 r2. nt_receiptFacts (dg_remote d) r1 = (r2, Some (Facts fp (Integer n)))))"
proof -
  obtain hb where hb: "buildHeadersCommittedBytes out = Inr hb" using headers_bytes [OF assms(7)] by blast
  let ?c = "receipt_commitment host rsp ctx hb"
  obtain hdr where sign: "sign_header r ctx ?c = (r', Inr hdr)"
    using assms(4,6,8) hb assms(3) by (auto simp: attachReceipt_def receiptable_def simp del: list.map split: if_splits prod.splits sum.splits option.splits)
  obtain envb sig c' where hdr: "signDelegatedCommitmentToHeader r ?c d = (r', Inr (hdr, envb, sig, c'))"
    using sign assms(3) by (auto simp: sign_header_def split: prod.splits sum.splits)
  then have env: "encodeReceiptEnvelope \<lparr>re_commitment = c', re_signature = sig\<rparr> = Inr envb" "hdr = b64urlEncode envb" "signCommitment r d ?c = (r', Inr (sig, c'))"
    by (auto simp: signDelegatedCommitmentToHeader_def split: prod.splits sum.splits)
  have ok: "commitment_ok ?c" by (rule receipt_commitment_ok [OF assms(1,4,5)])
  from env(3) obtain fp n canon ra rb where c': "c' = ?c\<lparr>rc_actorFp := fp, rc_epoch := n\<rparr>" "encodeCommitment c' = Inr canon"
      "nt_signReceipt (dg_remote d) ra canon = (rb, Some (Signed sig))" "length fp = 32" "safe_uint n"
    and src: "fp = cx_actorFp ctx \<and> n = cx_epoch ctx \<or> (\<exists>r1 r2. nt_receiptFacts (dg_remote d) r1 = (r2, Some (Facts fp (Integer n))))"
  proof (cases rule: signCommitment_signed)
    case (first r1 canon)
    have "?c = ?c\<lparr>rc_actorFp := cx_actorFp ctx, rc_epoch := cx_epoch ctx\<rparr>" by (simp add: receipt_commitment_def)
    then show thesis using that [where fp = "cx_actorFp ctx" and n = "cx_epoch ctx" and canon = canon and ra = r and rb = r1] first assms(5) by (simp add: context_ok_def)
  next
    case (retried r1 r2 r3 fp n canon)
    then show thesis using that [where fp = fp and n = n and canon = canon and ra = r2 and rb = r3] assms(2) unfolding authority_ok_def by blast
  qed
  have ok': "commitment_ok c'" using ok c' by (simp add: commitment_ok_def)
  obtain pub where pub: "keys n = Some pub" "verifyEd25519 ed pub sig canon"
    using assms(2) c' unfolding authority_ok_def by fastforce
  have "length sig = 64" using pub(2) by (simp add: verifyEd25519_True)
  then have dec: "decodeReceiptBytes envb = Inr \<lparr>re_commitment = c', re_signature = sig\<rparr>"
    using receipt_roundtrip [OF ok'] env(1) by fastforce
  have "\<exists>rsp''. attachReceipt host r rsp ctx = (r', Inr rsp'') \<and> rs_body rsp'' = rs_body rsp \<and> rs_status rsp'' = rs_status rsp \<and>
    verifyReceiptPLive (rh_sha256 host) ed (client_args rsp'' (cx_requestCanon ctx) (cx_nonce ctx) fp n keys now) =
      Accepted \<lparr>re_commitment = c', re_signature = sig\<rparr>"
    unfolding c'(1)
    by (rule attached_receipt_verifies [OF assms(4) _ assms(6) hb sign env(2)])
      (use assms(3,9) dec c'(1,2) pub in \<open>simp_all add: c'(1)\<close>)
  then show ?thesis using assms(8) src by auto
qed

section \<open>The request hash of the gateway\<close>

lemma emission_canon: "buildEmissionContext host env binding r st nowMs canon nonce = (r', st', Some ctx) \<Longrightarrow> cx_requestCanon ctx = canon \<and> cx_nonce ctx = nonce"
  by (auto simp: buildEmissionContext_def local_context_def split: option.splits prod.splits)

lemma canonical_ts_inject:
  assumes "well_formed m" "well_formed u" "well_formed b" "t \<noteq> t'"
  shows "canonicalRequestBytes m u t n b \<noteq> canonicalRequestBytes m u t' n b"
proof -
  have "well_formed [LF]" by (simp add: is_hi_def is_lo_def)
  then have "well_formed (m @ [LF] @ u @ [LF] @ dec_of_int t @ [LF] @ b64encode n @ [LF] @ b)" for t
    using assms(1-3) by (intro well_formed_append) (auto intro: ascii_well_formed dec_of_int_ascii b64encode_ascii)
  then show ?thesis
    using assms(4) no_LF(1) [of t] no_LF(1) [of t']
    by (auto simp: canonicalRequestBytes_def Let_def utf8_encode_inject split_at_first_sep)
qed

text \<open>C9: The receipt of an accepted request is about other request bytes than the client signed: the gateway rebuilds them with
  its own clock in place of the signed timestamp, so unless both clocks showed the same millisecond the client refuses every
  receipt for it, however it was signed.\<close>

theorem receipt_hash_uses_server_clock:
  assumes "verifyAndUpsertLease lhost st args bundle nowMs = (st', LeaseOk lease)" "parseAuthHeaders (va_req args) = Inr headers" "ah_ts headers \<noteq> nowMs"
    and "well_formed (rq_method (va_req args))" "well_formed (rq_url (va_req args))" "well_formed (va_body args)"
    and "buildReceiptContext host env binding r em nowMs (va_req args) (va_body args) lease = (r', em', Some ctx)"
    and "pl_requestCanon client = canonicalRequestBytes (rq_method (va_req args)) (rq_url (va_req args)) (ah_ts headers) (ah_nonce headers) (va_body args)"
    and "inj_on (rh_sha256 host) {pl_requestCanon client, cx_requestCanon ctx}"
    and "re_commitment envelope = (receipt_commitment host rsp ctx hb)\<lparr>rc_actorFp := fp, rc_epoch := n\<rparr>"
  shows "verifyReceiptPLive (rh_sha256 host) ed client \<noteq> Accepted envelope"
proof
  assume "verifyReceiptPLive (rh_sha256 host) ed client = Accepted envelope"
  then have "rh_sha256 host (pl_requestCanon client) = rh_sha256 host (cx_requestCanon ctx)"
    using assms(10) unfolding live_accepts_iff live_checks_def Let_def by (simp add: receipt_commitment_def)
  then have eq: "pl_requestCanon client = cx_requestCanon ctx" using assms(9) by (auto dest: inj_onD)
  obtain claims where "verify_claims lhost st args bundle nowMs headers claims = (st', LeaseOk lease)"
    using verify_ok [OF assms(1)] assms(2) by auto
  then have "vl_serverTs lease = nowMs" "vl_nonce lease = ah_nonce headers" using verify_claims_ok by fastforce+
  then have "cx_requestCanon ctx = canonicalRequestBytes (rq_method (va_req args)) (rq_url (va_req args)) nowMs (ah_nonce headers) (va_body args)"
    using emission_canon assms(7) unfolding buildReceiptContext_def by fastforce
  then show False using eq assms(8) canonical_ts_inject [OF assms(4-6) assms(3)] by simp
qed

section \<open>Concrete emissions\<close>

definition emit_host :: receipt_host where
  "emit_host = \<lparr>rh_sha256 = pad_sha, rh_import_key = (\<lambda>k. Some (\<lambda>m. Some (replicate 64 0)))\<rparr>"

definition emit_context :: "unit emission_context" where
  "emit_context = \<lparr>cx_nowMs = 1700000000000, cx_requestCanon = [1], cx_nonce = replicate 16 3, cx_signer = Some zero_signer, cx_delegated = None,
     cx_actorFp = replicate 32 9, cx_epoch = 7, cx_origins = None\<rparr>"

definition emit_response :: response where
  "emit_response = \<lparr>rs_status = 200, rs_statusText = [], rs_headers = [], rs_body = [2]\<rparr>"

text \<open>An authority that rotated: the first signature is refused, the second given.\<close>

definition rotated_stub :: "bool notme_stub" where
  "rotated_stub = \<lparr>nt_receiptFacts = (\<lambda>r. (True, Some (Facts (replicate 32 8) (Integer 8)))),
     nt_signReceipt = (\<lambda>r m. if r then (r, Some (Signed (replicate 64 0))) else (r, Some (Sign_refused RETRYABLE_COMMITMENT_CODE)))\<rparr>"

definition rotated_context :: "bool emission_context" where
  "rotated_context = \<lparr>cx_nowMs = 1700000000000, cx_requestCanon = [1], cx_nonce = replicate 16 3, cx_signer = None,
     cx_delegated = Some \<lparr>dg_remote = rotated_stub, dg_facts = Some (Facts (replicate 32 9) (Integer 7))\<rparr>,
     cx_actorFp = replicate 32 9, cx_epoch = 7, cx_origins = None\<rparr>"

lemma sample_receiptable: "receiptable emit_response"
  by (simp add: receiptable_def emit_response_def legal_headers_def starts_with_def ascii_lower_def)

lemma sample_context_ok: "context_ok emit_context" "context_ok rotated_context"
  by (simp_all add: context_ok_def emit_context_def rotated_context_def safe_uint_def head_ok_def)

lemma sample_expose:
  obtains out where "appendAccessControlExposeHeader (rs_headers emit_response) INTERLACE_RECEIPT_HEADER = Some out" "headers_short out"
proof -
  have "appendAccessControlExposeHeader (rs_headers emit_response) INTERLACE_RECEIPT_HEADER =
      Some [(js ''access-control-expose-headers'', http_trim INTERLACE_RECEIPT_HEADER)]"
    using headers_set_legal [OF receipt_names(3) _ receipt_names(5), of "[]"] receipt_names(6)
    by (simp add: appendAccessControlExposeHeader_def emit_response_def)
  moreover have "headers_short [(js ''access-control-expose-headers'', http_trim INTERLACE_RECEIPT_HEADER)]"
    by (simp add: headers_short_def INTERLACE_RECEIPT_HEADER_def http_trim_def http_ws_def js_simps utf8_encode_ascii)
  ultimately show thesis by (rule that)
qed

theorem emitted_receipt_verifies_witness:
  "\<exists>rsp' env. attachReceipt emit_host () emit_response emit_context = ((), Inr rsp') \<and> rs_body rsp' = [2] \<and>
     verifyReceiptPLive pad_sha any_ed (client_args rsp' [1] (replicate 16 3) (replicate 32 9) 7 (\<lambda>n. Some (replicate 32 0)) 1700000000002) = Accepted env"
proof -
  obtain out where out: "appendAccessControlExposeHeader (rs_headers emit_response) INTERLACE_RECEIPT_HEADER = Some out" "headers_short out"
    by (rule sample_expose)
  have "sha32 (rh_sha256 emit_host)" "cx_signer emit_context = Some zero_signer" "cx_delegated emit_context = None"
    "(\<lambda>n. Some (replicate 32 0)) (cx_epoch emit_context) = Some (sg_pubkey zero_signer)" "\<bar>1700000000002 - cx_nowMs emit_context\<bar> \<le> 300000"
    using sample_crypto(1) by (simp_all add: emit_host_def emit_context_def zero_signer_def)
  from emitted_receipt_verifies [OF this(1) sample_crypto(2) this(2,3) sample_receiptable sample_context_ok(1) out this(4,5)]
  obtain rsp' env where "attachReceipt emit_host () emit_response emit_context = ((), Inr rsp')" "rs_body rsp' = rs_body emit_response"
      "verifyReceiptPLive (rh_sha256 emit_host) any_ed (client_args rsp' (cx_requestCanon emit_context) (cx_nonce emit_context) (cx_actorFp emit_context)
         (cx_epoch emit_context) (\<lambda>n. Some (replicate 32 0)) 1700000000002) = Accepted env"
    by metis
  then show ?thesis by (auto simp: emit_host_def emit_context_def emit_response_def)
qed

lemma sample_authority: "authority_ok any_ed (\<lambda>n. Some (replicate 32 0)) rotated_stub"
  by (auto simp: authority_ok_def rotated_stub_def safe_uint_def head_ok_def verifyEd25519_True any_ed_def split: if_splits)

lemma rotated_signature:
  assumes "commitment_ok c" "dg_remote d = rotated_stub"
  shows "signCommitment False d c = (True, Inr (replicate 64 0, c\<lparr>rc_actorFp := replicate 32 8, rc_epoch := 8\<rparr>))"
proof -
  have "commitment_ok (c\<lparr>rc_actorFp := replicate 32 8, rc_epoch := 8\<rparr>)" using assms(1) by (simp add: commitment_ok_def safe_uint_def head_ok_def)
  then obtain b b' where "encodeCommitment c = Inr b" "encodeCommitment (c\<lparr>rc_actorFp := replicate 32 8, rc_epoch := 8\<rparr>) = Inr b'"
    using commitment_bytes assms(1) by blast
  then show ?thesis
    using assms(2) by (simp add: signCommitment_def ask_to_sign_def rotated_stub_def facts_def invalidateFacts_def Let_def)
qed

theorem delegated_receipt_verifies_witness:
  "\<exists>rsp' fp n env. attachReceipt emit_host False emit_response rotated_context = (True, Inr rsp') \<and>
     verifyReceiptPLive pad_sha any_ed (client_args rsp' [1] (replicate 16 3) fp n (\<lambda>n. Some (replicate 32 0)) 1700000000002) = Accepted env"
proof -
  obtain out where out: "appendAccessControlExposeHeader (rs_headers emit_response) INTERLACE_RECEIPT_HEADER = Some out" "headers_short out"
    by (rule sample_expose)
  obtain hb where hb: "buildHeadersCommittedBytes out = Inr hb" using headers_bytes [OF out(2)] by blast
  obtain d where d: "cx_delegated rotated_context = Some d" "dg_remote d = rotated_stub" by (simp add: rotated_context_def)
  have sha: "sha32 (rh_sha256 emit_host)" using sample_crypto(1) by (simp add: emit_host_def)
  let ?c = "receipt_commitment emit_host emit_response rotated_context hb"
  have ok: "commitment_ok ?c" by (rule receipt_commitment_ok [OF sha sample_receiptable sample_context_ok(2)])
  then have "commitment_ok (?c\<lparr>rc_actorFp := replicate 32 8, rc_epoch := 8\<rparr>)" by (simp add: commitment_ok_def safe_uint_def head_ok_def)
  then obtain envb where "encodeReceiptEnvelope \<lparr>re_commitment = ?c\<lparr>rc_actorFp := replicate 32 8, rc_epoch := 8\<rparr>, re_signature = replicate 64 0\<rparr> = Inr envb"
    using receipt_roundtrip [of _ "replicate 64 0"] by (metis length_replicate)
  then have sign: "sign_header False rotated_context ?c = (True, Inr (b64urlEncode envb))"
    using rotated_signature [OF ok d(2)] d(1) by (simp add: sign_header_def signDelegatedCommitmentToHeader_def)
  obtain new where "headers_set out INTERLACE_RECEIPT_HEADER (b64urlEncode envb) = Some new"
    using headers_set_legal [OF b64_header_value(1) receipt_names(2,1)] by blast
  then have att: "attachReceipt emit_host False emit_response rotated_context = (True, Inr (emit_response\<lparr>rs_headers := new\<rparr>))"
    using sample_receiptable d(1) out(1) hb sign by (auto simp: attachReceipt_def receiptable_def simp del: list.map)
  have "\<bar>1700000000002 - cx_nowMs rotated_context\<bar> \<le> 300000" by (simp add: rotated_context_def)
  from delegated_receipt_verifies [OF sha sample_authority [folded d(2)] d(1) sample_receiptable sample_context_ok(2) out att this] att
  show ?thesis by (auto simp: emit_host_def rotated_context_def)
qed

theorem receipt_hash_uses_server_clock_witness:
  "let host = \<lparr>rh_sha256 = (\<lambda>b. b), rh_import_key = (\<lambda>k. None)\<rparr>;
       (st, verdict) = verifyAndUpsertLease sample_host (new_trust_store None 0) sample_verify lease_bundle 1700000000001;
       req = va_req sample_verify;
       client = (client_args emit_response (canonicalRequestBytes (rq_method req) (rq_url req) 1700000000000 [3] (va_body sample_verify)) [3]
         (replicate 32 8) 8 (\<lambda>n. Some (replicate 32 0)) 1700000000001)
   in (\<exists>lease em ctx. verdict = LeaseOk lease \<and>
        buildReceiptContext host \<lparr>env_RECEIPT_SIGNING_KEY = None, env_RECEIPT_ACTOR_FP = None, env_RECEIPT_EPOCH = None\<rparr> (Some rotated_stub) False
          \<lparr>em_disabledLogged = False, em_log = []\<rparr> 1700000000001 req (va_body sample_verify) lease = (True, em, Some ctx) \<and>
        verifyReceiptPLive (rh_sha256 host) any_ed client \<noteq> Accepted \<lparr>re_commitment = receipt_commitment host emit_response ctx [160], re_signature = replicate 64 0\<rparr>)"
proof -
  let ?f = "verifyAndUpsertLease sample_host (new_trust_store None 0) sample_verify lease_bundle 1700000000001"
  let ?host = "\<lparr>rh_sha256 = (\<lambda>b. b), rh_import_key = (\<lambda>k. None)\<rparr>" let ?req = "va_req sample_verify"
  let ?env = "\<lparr>env_RECEIPT_SIGNING_KEY = None, env_RECEIPT_ACTOR_FP = None, env_RECEIPT_EPOCH = None\<rparr>"
  let ?em = "\<lparr>em_disabledLogged = False, em_log = []\<rparr>"
  let ?client = "client_args emit_response (canonicalRequestBytes (rq_method ?req) (rq_url ?req) 1700000000000 [3] (va_body sample_verify)) [3]
         (replicate 32 8) 8 (\<lambda>n. Some (replicate 32 0)) 1700000000001"
  have "seen_at (ts_nonces (new_trust_store None 0)) k = None" for k
    by (simp add: seen_at_def new_trust_store_def ensureAlarmScheduled_def)
  then obtain st lease where l: "?f = (st, LeaseOk lease)" by (simp add: sample_verdict verify_cases)
  have h: "parseAuthHeaders ?req = Inr \<lparr>ah_certDer = [1], ah_sig = [2], ah_ts = 1700000000000, ah_nonce = [3]\<rparr>"
    by (simp add: sample_verify_def sample_headers)
  obtain em ctx where ctx: "buildReceiptContext ?host ?env (Some rotated_stub) False ?em 1700000000001 ?req (va_body sample_verify) lease = (True, em, Some ctx)"
    by (simp add: buildReceiptContext_def buildEmissionContext_def delegatedReceiptSignerFrom_def probe_def facts_def rotated_stub_def)
  have wf: "well_formed (rq_method ?req)" "well_formed (rq_url ?req)" "well_formed (va_body sample_verify)"
    by (simp_all add: sample_verify_def sample_request_def is_hi_def is_lo_def js_simps)
  have "verifyReceiptPLive (rh_sha256 ?host) any_ed ?client \<noteq> Accepted \<lparr>re_commitment = receipt_commitment ?host emit_response ctx [160], re_signature = replicate 64 0\<rparr>"
    by (rule receipt_hash_uses_server_clock [OF l h _ wf ctx, where hb = "[160]" and rsp = emit_response and fp = "cx_actorFp ctx" and n = "cx_epoch ctx"])
      (simp_all add: client_args_def receipt_commitment_def)
  then show ?thesis using l ctx by (auto simp: Let_def)
qed

end
