(* ===== verification/Receipt_Stream.thy ===== *)
theory Receipt_Stream
  imports Receipt_Emit
begin

text \<open>
  Receipts for event streams, \<open>src/routes/receipt-stream.ts\<close>: the open commitment in the response header, the chain over
  the events of the body and the signed close event. Each \<open>pull\<close> of the transformed stream is one step; what the upstream
  reader answers and the clock at that moment are its inputs, the chunks enqueued its output. A chunk still queued when the
  stream errors may be lost to the consumer, which the model does not decide.
\<close>

section \<open>Decoding one chunk\<close>

text \<open>The bytes the decoder of the Encoding standard still waits for at the end of its input.\<close>

function utf8_needed :: "nat \<Rightarrow> nat \<Rightarrow> nat \<Rightarrow> nat list \<Rightarrow> nat" where
  "utf8_needed needed lower upper [] = needed"
| "utf8_needed needed lower upper (b # bs) =
     (if needed = 0 then
        (if 0xC2 \<le> b \<and> b \<le> 0xDF then utf8_needed 1 0x80 0xBF bs
         else if 0xE0 \<le> b \<and> b \<le> 0xEF then utf8_needed 2 (if b = 0xE0 then 0xA0 else 0x80) (if b = 0xED then 0x9F else 0xBF) bs
         else if 0xF0 \<le> b \<and> b \<le> 0xF4 then utf8_needed 3 (if b = 0xF0 then 0x90 else 0x80) (if b = 0xF4 then 0x8F else 0xBF) bs
         else utf8_needed 0 0x80 0xBF bs)
      else if \<not> (lower \<le> b \<and> b \<le> upper) then utf8_needed 0 0x80 0xBF (b # bs)
      else utf8_needed (needed - 1) 0x80 0xBF bs)"
  by pat_completeness auto
termination
  by (relation "measure (\<lambda>(n, l, u, bs). 2 * length bs + (if n = 0 then 0 else 1))") auto

declare utf8_needed.simps(2) [simp del]

text \<open>\<open>new TextDecoder().decode(value, { stream: true })\<close>: a sequence cut off at the end of the chunk is withheld, and lost with
  the decoder.\<close>

definition decode_chunk :: "bytes \<Rightarrow> jsstr" where
  "decode_chunk b =
     (let bs = strip_bom (map unat b); cps = utf8_loop 0 0x80 0xBF 0 bs in
      concat (map utf16_of (if utf8_needed 0 0x80 0xBF bs = 0 then cps else butlast cps)))"

section \<open>The wrapped stream\<close>

record stream_context =
  sx_requestCanon :: bytes
  sx_nonce :: bytes
  sx_signer :: ReceiptSigner
  sx_actorFp :: bytes
  sx_epoch :: int
  sx_nowMs :: int

text \<open>What the closures of the wrapper hold: the constants of the stream, and the variables.\<close>

record stream_facts =
  sf_sha :: "bytes \<Rightarrow> bytes"
  sf_signer :: ReceiptSigner
  sf_streamId :: bytes
  sf_openCommitmentHash :: bytes

record stream_state =
  ss_rollingHash :: bytes
  ss_eventCount :: int
  ss_pending :: jsstr
  ss_closeEmitted :: bool

definition close_commitment :: "stream_facts \<Rightarrow> int \<Rightarrow> stream_state \<Rightarrow> StreamCloseCommitment" where
  "close_commitment sf now st =
     \<lparr>sc_streamId = sf_streamId sf, sc_openCommitmentHash = sf_openCommitmentHash sf, sc_tipHash = ss_rollingHash st,
      sc_eventCount = ss_eventCount st, sc_closeStatus = Close_ok, sc_timestampMs = now\<rparr>"

definition close_event :: "jsstr \<Rightarrow> jsstr" where
  "close_event payload = js ''event: interlace-stream-close'' @ [LF] @ js ''data: '' @ payload @ [LF, LF]"

text \<open>The close event as a client reads it, without the delimiter.\<close>

definition close_block :: "jsstr \<Rightarrow> jsstr" where
  "close_block payload = js ''event: interlace-stream-close'' @ [LF] @ js ''data: '' @ payload"

definition emitCloseEvent :: "stream_facts \<Rightarrow> int \<Rightarrow> stream_state \<Rightarrow> stream_state \<times> (sign_error + bytes list)" where
  "emitCloseEvent sf now st =
     (if ss_closeEmitted st then (st, Inr [])
      else (st\<lparr>ss_closeEmitted := True\<rparr>,
        case signStreamCloseToEventPayload (close_commitment sf now st) (sf_signer sf) of
          Inl e \<Rightarrow> Inl e
        | Inr (payload, _) \<Rightarrow> Inr [utf8_encode (close_event payload)]))"

text \<open>The text before the first empty line, and the rest.\<close>

fun break_block :: "jsstr \<Rightarrow> (jsstr \<times> jsstr) option" where
  "break_block (a # b # s) = (if a = LF \<and> b = LF then Some ([], s) else map_option (apfst (Cons a)) (break_block (b # s)))"
| "break_block s = None"

definition has_event :: "jsstr \<Rightarrow> bool" where
  "has_event block = list_ex (\<lambda>l. \<not> starts_with l (js '':'') \<and> l \<noteq> []) (split_on LF block)"

lemma break_block_eq: "break_block s = Some (b, r) \<Longrightarrow> s = b @ [LF, LF] @ r"
  by (induction s arbitrary: b rule: break_block.induct) (auto split: if_splits)

function flushPendingEvents :: "(bytes \<Rightarrow> bytes) \<Rightarrow> stream_state \<Rightarrow> stream_state \<times> bytes list \<times> cbor_error option" where
  "flushPendingEvents sha st =
     (case break_block (ss_pending st) of
        None \<Rightarrow> (st, [], None)
      | Some (block, rest) \<Rightarrow>
          (let st1 = st\<lparr>ss_pending := rest\<rparr>;
               chained = (if has_event block
                 then map_sum id (\<lambda>h. st1\<lparr>ss_rollingHash := h, ss_eventCount := ss_eventCount st + 1\<rparr>)
                   (eventChainStep sha (ss_rollingHash st) (utf8_encode block) (ss_eventCount st))
                 else Inr st1)
           in case chained of
                Inl e \<Rightarrow> (st1, [], Some e)
              | Inr st2 \<Rightarrow> (case flushPendingEvents sha st2 of (st', out, err) \<Rightarrow> (st', utf8_encode (block @ [LF, LF]) # out, err))))"
  by pat_completeness auto
termination
  by (relation "measure (\<lambda>(_, st). length (ss_pending st))")
    (auto dest!: break_block_eq split: if_splits simp: map_sum_def split: sum.splits)

declare flushPendingEvents.simps [simp del]

datatype upstream_read = Chunk bytes | Done | Read_failed

datatype stream_end = Streaming | Closed | Errored

text \<open>The \<open>catch\<close> of \<open>pull\<close>: the close event is tried, then the stream errors.\<close>

definition pull_failed :: "stream_facts \<Rightarrow> int \<Rightarrow> stream_state \<Rightarrow> bytes list \<Rightarrow> stream_state \<times> bytes list \<times> stream_end" where
  "pull_failed sf now st out =
     (case emitCloseEvent sf now st of (st', r) \<Rightarrow> (st', out @ (case r of Inl e \<Rightarrow> [] | Inr ev \<Rightarrow> ev), Errored))"

definition pull :: "stream_facts \<Rightarrow> int \<Rightarrow> stream_state \<Rightarrow> upstream_read \<Rightarrow> stream_state \<times> bytes list \<times> stream_end" where
  "pull sf now st r =
     (case r of
        Read_failed \<Rightarrow> pull_failed sf now st []
      | Done \<Rightarrow>
          (let out = (if ss_pending st \<noteq> [] then [utf8_encode (ss_pending st)] else []);
               st1 = st\<lparr>ss_pending := []\<rparr>
           in case emitCloseEvent sf now st1 of
                (st2, Inl e) \<Rightarrow> pull_failed sf now st2 out
              | (st2, Inr ev) \<Rightarrow> (st2, out @ ev, Closed))
      | Chunk value \<Rightarrow>
          (case flushPendingEvents (sf_sha sf) (st\<lparr>ss_pending := ss_pending st @ decode_chunk value\<rparr>) of
             (st1, out, None) \<Rightarrow> (st1, out, Streaming)
           | (st1, out, Some e) \<Rightarrow> pull_failed sf now st1 out))"

text \<open>The consumer pulls until the stream is closed or errors.\<close>

fun drive :: "stream_facts \<Rightarrow> stream_state \<Rightarrow> (int \<times> upstream_read) list \<Rightarrow> stream_state \<times> bytes list \<times> stream_end" where
  "drive sf st [] = (st, [], Streaming)"
| "drive sf st ((now, r) # rs) =
     (case pull sf now st r of
        (st1, out, Streaming) \<Rightarrow> (case drive sf st1 rs of (st2, out', e) \<Rightarrow> (st2, out @ out', e))
      | done \<Rightarrow> done)"

definition open_commitment :: "(bytes \<Rightarrow> bytes) \<Rightarrow> stream_context \<Rightarrow> bytes \<Rightarrow> StreamOpenCommitment" where
  "open_commitment sha ctx streamId =
     \<lparr>so_nonce = sx_nonce ctx, so_requestHash = sha (sx_requestCanon ctx), so_status = 200, so_streamMode = Sse, so_streamId = streamId,
      so_timestampMs = sx_nowMs ctx, so_actorFp = sx_actorFp ctx, so_epoch = sx_epoch ctx\<rparr>"

datatype wrapped = Unchanged | Wrapped headers stream_facts stream_state

datatype wrap_error = Wrap_sign sign_error | Wrap_header

text \<open>The body of the upstream response is read by \<open>pull\<close>; \<open>hasBody\<close> tells whether there is one, \<open>streamId\<close> are the random bytes.\<close>

definition wrapSseWithReceiptStream ::
    "(bytes \<Rightarrow> bytes) \<Rightarrow> response \<Rightarrow> bool \<Rightarrow> stream_context \<Rightarrow> bytes \<Rightarrow> wrap_error + wrapped" where
  "wrapSseWithReceiptStream sha upstream hasBody ctx streamId =
     (if rs_status upstream \<noteq> 200 then Inr Unchanged
      else if \<not> hasBody then Inr Unchanged
      else (case signStreamOpenToHeader sha (open_commitment sha ctx streamId) (sx_signer ctx) of
          Inl e \<Rightarrow> Inl (Wrap_sign e)
        | Inr (headerValue, _, _, openCommitmentHash) \<Rightarrow>
            (case Option.bind (headers_set (rs_headers upstream) INTERLACE_RECEIPT_HEADER headerValue)
                (\<lambda>hs. headers_set hs (js ''access-control-expose-headers'') INTERLACE_RECEIPT_HEADER) of
               None \<Rightarrow> Inl Wrap_header
             | Some newHeaders \<Rightarrow> Inr (Wrapped newHeaders
                 \<lparr>sf_sha = sha, sf_signer = sx_signer ctx, sf_streamId = streamId, sf_openCommitmentHash = openCommitmentHash\<rparr>
                 \<lparr>ss_rollingHash = openCommitmentHash, ss_eventCount = 0, ss_pending = [], ss_closeEmitted = False\<rparr>))))"

section \<open>Text of well-formed chunks\<close>




lemma utf8_first_byte:
  obtains pre n' l' u' cp' where "utf8_loop 0 l u cp (b # bs) = pre @ utf8_loop n' l' u' cp' bs" "utf8_needed 0 l u (b # bs) = utf8_needed n' l' u' bs"
proof -
  note unf = utf8_needed.simps(2) [of 0 l u b bs] utf8_loop.simps(2) [of 0 l u cp b bs]
  let ?l2 = "if b = 0xE0 then 0xA0 else 0x80 :: nat" let ?u2 = "if b = 0xED then 0x9F else 0xBF :: nat"
  let ?l3 = "if b = 0xF0 then 0x90 else 0x80 :: nat" let ?u3 = "if b = 0xF4 then 0x8F else 0xBF :: nat"
  consider "b < 0x80" | "0xC2 \<le> b \<and> b \<le> 0xDF" | "0xE0 \<le> b \<and> b \<le> 0xEF" | "0xF0 \<le> b \<and> b \<le> 0xF4"
    | "\<not> b < 0x80" "\<not> (0xC2 \<le> b \<and> b \<le> 0xDF)" "\<not> (0xE0 \<le> b \<and> b \<le> 0xEF)" "\<not> (0xF0 \<le> b \<and> b \<le> 0xF4)" by blast
  then show thesis
  proof cases
    case 1 then show thesis by (intro that [of "[b]" 0 "0x80" "0xBF" 0]) (simp_all add: unf split del: if_split)
  next
    case 2 then show thesis by (intro that [of "[]" 1 "0x80" "0xBF" "b mod 32"]) (simp_all add: unf split del: if_split)
  next
    case 3 then show thesis by (intro that [of "[]" 2 ?l2 ?u2 "b mod 16"]) (simp_all add: unf split del: if_split)
  next
    case 4 then show thesis by (intro that [of "[]" 3 ?l3 ?u3 "b mod 8"]) (simp_all add: unf split del: if_split)
  next
    case 5
    have "utf8_loop 0 l u cp (b # bs) = [0xFFFD] @ utf8_loop 0 0x80 0xBF 0 bs" "utf8_needed 0 l u (b # bs) = utf8_needed 0 0x80 0xBF bs"
      using 5 unfolding unf by (simp_all only: if_True if_False simp_thms append.simps)
    then show thesis by (rule that)
  qed
qed

lemma utf8_needed_FFFD: "utf8_needed n l u bs \<noteq> 0 \<Longrightarrow> utf8_loop n l u cp bs \<noteq> [] \<and> last (utf8_loop n l u cp bs) = 0xFFFD"
proof (induction bs arbitrary: n l u cp)
  case (Cons b bs)
  have first: "utf8_loop 0 l u cp (b # bs) \<noteq> [] \<and> last (utf8_loop 0 l u cp (b # bs)) = 0xFFFD" if "utf8_needed 0 l u (b # bs) \<noteq> 0" for l u cp
    using utf8_first_byte [of l u cp b bs] that Cons.IH by (metis append_is_Nil_conv last_append)
  show ?case
  proof (cases "n = 0")
    case False
    then show ?thesis using Cons.prems Cons.IH first [of "0x80" "0xBF" 0]
      by (auto simp: utf8_needed.simps(2) [of n l u b bs] utf8_loop.simps(2) [of n l u cp b bs] split: if_splits)
  qed (use first Cons.prems in simp)
qed simp

lemma utf8_needed_append: "utf8_needed n l u a = 0 \<Longrightarrow> utf8_needed n l u (a @ b) = utf8_needed 0 0x80 0xBF b"
proof (induction n l u a rule: utf8_needed.induct)
  case (1 n l u)
  then show ?case by (cases b) (simp_all add: utf8_needed.simps(2))
next
  case (2 n l u c bs)
  then show ?case by (auto simp: utf8_needed.simps(2) [of n] split: if_splits)
qed

lemma utf8_needed_scalar: "is_scalar n \<Longrightarrow> utf8_needed 0 0x80 0xBF (utf8_scalar n) = 0"
proof (cases "n = 0xFFFD")
  case True
  then show ?thesis by (simp add: utf8_scalar_def utf8_needed.simps(2))
next
  case False
  assume "is_scalar n"
  then have "utf8_loop 0 0x80 0xBF 0 (utf8_scalar n) = [n]" using utf8_loop_scalar [of n "[]"] by simp
  then show ?thesis using utf8_needed_FFFD [of 0 "0x80" "0xBF" "utf8_scalar n" 0] False by fastforce
qed

lemma utf8_needed_scalars: "\<forall>n \<in> set ns. is_scalar n \<Longrightarrow> utf8_needed 0 0x80 0xBF (concat (map utf8_scalar ns)) = 0"
  by (induction ns) (simp_all add: utf8_needed_append utf8_needed_scalar)

lemma decode_chunk_encode: "plain_text s \<Longrightarrow> decode_chunk (utf8_encode s) = s"
  using utf8_roundtrip [of s]
  by (simp add: decode_chunk_def utf8_decode_def unat_utf8_encode strip_bom_encode utf8_needed_scalars code_points_scalar)

section \<open>The blocks of a text\<close>

function blocks :: "jsstr \<Rightarrow> jsstr list \<times> jsstr" where
  "blocks s = (case break_block s of None \<Rightarrow> ([], s) | Some (b, r) \<Rightarrow> apfst (Cons b) (blocks r))"
  by pat_completeness auto
termination
  by (relation "measure length") (auto dest!: break_block_eq)

declare blocks.simps [simp del]

lemma break_block_append: "break_block s = Some (b, r) \<Longrightarrow> break_block (s @ t) = Some (b, r @ t)"
  by (induction s arbitrary: b rule: break_block.induct) (auto split: if_splits)

lemma blocks_residue: "break_block (snd (blocks s)) = None"
  by (induction s rule: blocks.induct) (subst blocks.simps, auto split: option.split)

lemma blocks_append: "blocks (s @ t) = apfst ((@) (fst (blocks s))) (blocks (snd (blocks s) @ t))"
proof (induction s rule: blocks.induct)
  case (1 s)
  show ?case
  proof (cases "break_block s")
    case (Some p)
    obtain b r where p: "p = (b, r)" by force
    note Some = Some [unfolded p]
    have "blocks (s @ t) = apfst (Cons b) (blocks (r @ t))" by (subst blocks.simps) (simp add: break_block_append [OF Some])
    then show ?thesis using 1 [OF Some refl] by (subst (2 3) blocks.simps) (simp add: Some apfst_def map_prod_def split: prod.split)
  qed (subst (2 3) blocks.simps, simp add: apfst_def map_prod_def)
qed


section \<open>The chain of a run\<close>

text \<open>The events of a text: its complete blocks with a line that is neither empty nor a comment.\<close>

definition block_events :: "jsstr list \<Rightarrow> bytes list" where
  "block_events bs = map utf8_encode (filter has_event bs)"

definition text_events :: "jsstr \<Rightarrow> bytes list" where
  "text_events s = block_events (fst (blocks s))"

text \<open>The chain of the specification (\<open>RECEIPTS.md\<close> section 2.4): comment lines are never part of it. A block without its
  comment lines is an event when a line that is not empty is left, and its data are the lines left.\<close>

definition event_lines :: "jsstr \<Rightarrow> jsstr list" where
  "event_lines block = filter (\<lambda>l. \<not> starts_with l (js '':'')) (split_on LF block)"

definition spec_events :: "jsstr \<Rightarrow> bytes list" where
  "spec_events s = map (\<lambda>b. utf8_encode (join_with [LF] (event_lines b))) (filter (\<lambda>b. list_ex (\<lambda>l. l \<noteq> []) (event_lines b)) (fst (blocks s)))"





lemma break_block_line: "LF \<notin> set u \<Longrightarrow> w \<noteq> [] \<Longrightarrow> hd w \<noteq> LF \<Longrightarrow> break_block (u @ LF # w) = map_option (apfst (\<lambda>x. u @ LF # x)) (break_block w)"
proof (induction u)
  case Nil
  then show ?case by (cases w) simp_all
next
  case (Cons a u)
  then show ?case by (cases u) (simp_all add: option.map_comp comp_def apfst_def map_prod_def split_beta)
qed

lemma break_block_last: "LF \<notin> set v \<Longrightarrow> break_block (v @ [LF, LF]) = Some (v, [])"
proof (induction v)
  case (Cons a v)
  then show ?case by (cases v) simp_all
qed simp


definition chained :: "stream_facts \<Rightarrow> stream_state \<Rightarrow> bytes list \<Rightarrow> bool" where
  "chained sf st es \<longleftrightarrow> event_tip (sf_sha sf) (sf_openCommitmentHash sf) (rev es) = Inr (ss_rollingHash st) \<and> ss_eventCount st = int (length es)"

definition facts_ok :: "stream_facts \<Rightarrow> bool" where
  "facts_ok sf \<longleftrightarrow> sha32 (sf_sha sf) \<and> length (sf_openCommitmentHash sf) = 32"

lemma chained_step:
  assumes "facts_ok sf" "chained sf st es" "events_short (es @ [e])"
  obtains h where "eventChainStep (sf_sha sf) (ss_rollingHash st) e (ss_eventCount st) = Inr h"
    and "chained sf (st\<lparr>ss_pending := p, ss_rollingHash := h, ss_eventCount := ss_eventCount st + 1\<rparr>) (es @ [e])"
proof -
  have "events_short (e # rev es)" using assms(3) by (auto simp: events_short_def)
  then obtain h where "event_tip (sf_sha sf) (sf_openCommitmentHash sf) (e # rev es) = Inr h"
    using event_tip_total assms(1) unfolding facts_ok_def by blast
  then show thesis using that [of h] assms(2) by (simp add: chained_def)
qed

lemma flush_chained:
  assumes "facts_ok sf"
  shows "chained sf st es \<Longrightarrow> events_short (es @ block_events (fst (blocks (ss_pending st)))) \<Longrightarrow>
    \<exists>st'. flushPendingEvents (sf_sha sf) st = (st', map (\<lambda>b. utf8_encode (b @ [LF, LF])) (fst (blocks (ss_pending st))), None) \<and>
      chained sf st' (es @ block_events (fst (blocks (ss_pending st)))) \<and> ss_pending st' = snd (blocks (ss_pending st)) \<and>
      ss_closeEmitted st' = ss_closeEmitted st"
proof (induction "ss_pending st" arbitrary: st es rule: blocks.induct)
  case 1
  show ?case
  proof (cases "break_block (ss_pending st)")
    case None
    then show ?thesis using 1(2) by (simp add: blocks.simps [of "ss_pending st"] flushPendingEvents.simps [of "sf_sha sf" st] block_events_def)
  next
    case (Some p)
    obtain b r where p: "p = (b, r)" by force
    note Some = Some [unfolded p]
    have bl: "blocks (ss_pending st) = (b # fst (blocks r), snd (blocks r))" by (simp add: blocks.simps [of "ss_pending st"] Some apfst_def map_prod_def split: prod.split)
    show ?thesis
    proof (cases "has_event b")
      case True
      have short: "events_short (es @ [utf8_encode b])" using 1(3) True by (auto simp: bl block_events_def events_short_def)
      obtain h where h: "eventChainStep (sf_sha sf) (ss_rollingHash st) (utf8_encode b) (ss_eventCount st) = Inr h"
        "chained sf (st\<lparr>ss_pending := r, ss_rollingHash := h, ss_eventCount := ss_eventCount st + 1\<rparr>) (es @ [utf8_encode b])"
        by (rule chained_step [OF assms 1(2) short])
      let ?st = "st\<lparr>ss_pending := r, ss_rollingHash := h, ss_eventCount := ss_eventCount st + 1\<rparr>"
      have "(b, ss_pending ?st) = (b, r)" "events_short ((es @ [utf8_encode b]) @ block_events (fst (blocks (ss_pending ?st))))"
        using 1(3) True by (simp_all add: bl block_events_def)
      from 1(1) [OF Some this(1) h(2) this(2)] show ?thesis
        by (auto simp: flushPendingEvents.simps [of "sf_sha sf" st] Some Let_def True h(1) bl block_events_def)
    next
      case False
      let ?st = "st\<lparr>ss_pending := r\<rparr>"
      have "(b, ss_pending ?st) = (b, r)" "chained sf ?st es" "events_short (es @ block_events (fst (blocks (ss_pending ?st))))"
        using 1(2,3) False by (simp_all add: bl block_events_def chained_def)
      from 1(1) [OF Some this] show ?thesis
        by (auto simp: flushPendingEvents.simps [of "sf_sha sf" st] Some Let_def False bl block_events_def)
    qed
  qed
qed

definition chunks :: "(int \<times> jsstr) list \<Rightarrow> (int \<times> upstream_read) list" where
  "chunks ts = map (\<lambda>(now, t). (now, Chunk (utf8_encode t))) ts"

lemma drive_chunks:
  assumes "facts_ok sf"
  shows "\<forall>(now, t) \<in> set ts. plain_text t \<Longrightarrow> chained sf st es \<Longrightarrow> break_block (ss_pending st) = None \<Longrightarrow>
    blocks (ss_pending st @ concat (map snd ts)) = (bs, r) \<Longrightarrow> events_short (es @ block_events bs) \<Longrightarrow>
    \<exists>st'. chained sf st' (es @ block_events bs) \<and> ss_pending st' = r \<and> ss_closeEmitted st' = ss_closeEmitted st \<and>
      drive sf st (chunks ts @ rest) = apsnd (apfst ((@) (map (\<lambda>b. utf8_encode (b @ [LF, LF])) bs))) (drive sf st' rest)"
proof (induction ts arbitrary: st es bs)
  case Nil
  then have "bs = []" "r = ss_pending st" by (simp_all add: blocks.simps [of "ss_pending st"])
  then show ?case using Nil by (intro exI [of _ st]) (simp add: chunks_def block_events_def apfst_def apsnd_def map_prod_def split: prod.split)
next
  case (Cons x ts)
  obtain now t where x: "x = (now, t)" by force
  let ?p = "ss_pending st @ t"
  obtain b1 r1 where b1: "blocks ?p = (b1, r1)" by force
  obtain b2 where b2: "blocks (r1 @ concat (map snd ts)) = (b2, r)" "bs = b1 @ b2"
    using Cons.prems(4) blocks_append [of ?p "concat (map snd ts)"] b1 x by (cases "blocks (r1 @ concat (map snd ts))") auto
  have t: "plain_text t" using Cons.prems(1) x by simp
  let ?st = "st\<lparr>ss_pending := ?p\<rparr>"
  have "chained sf ?st es" "events_short (es @ block_events (fst (blocks (ss_pending ?st))))"
    using Cons.prems(2,5) b1 b2(2) by (auto simp: chained_def block_events_def events_short_def)
  from flush_chained [OF assms this] obtain st1 where st1: "flushPendingEvents (sf_sha sf) ?st = (st1, map (\<lambda>b. utf8_encode (b @ [LF, LF])) b1, None)"
      "chained sf st1 (es @ block_events b1)" "ss_pending st1 = r1" "ss_closeEmitted st1 = ss_closeEmitted st"
    using b1 by auto
  have "break_block (ss_pending st1) = None" using blocks_residue [of ?p] b1 st1(3) by simp
  moreover have "blocks (ss_pending st1 @ concat (map snd ts)) = (b2, r)" using b2(1) st1(3) by simp
  moreover have "events_short ((es @ block_events b1) @ block_events b2)" using Cons.prems(5) b2(2) by (simp add: block_events_def)
  ultimately obtain st' where st': "chained sf st' ((es @ block_events b1) @ block_events b2)" "ss_pending st' = r" "ss_closeEmitted st' = ss_closeEmitted st1"
      "drive sf st1 (chunks ts @ rest) = apsnd (apfst ((@) (map (\<lambda>b. utf8_encode (b @ [LF, LF])) b2))) (drive sf st' rest)"
    using Cons.IH [of st1 "es @ block_events b1" b2] Cons.prems(1) st1(2) by auto
  have "drive sf st (chunks (x # ts) @ rest) = apsnd (apfst ((@) (map (\<lambda>b. utf8_encode (b @ [LF, LF])) b1))) (drive sf st1 (chunks ts @ rest))"
    using st1(1) decode_chunk_encode [OF t] by (simp add: chunks_def x pull_def apfst_def apsnd_def map_prod_def split: prod.split)
  then show ?case using st' st1(4) b2(2)
    by (intro exI [of _ st']) (simp add: block_events_def apfst_def apsnd_def map_prod_def split: prod.split)
qed

section \<open>Closing\<close>

lemma close_signed:
  assumes "facts_ok sf" "signer_ok ed (sf_signer sf)" "length (sf_streamId sf) = 16" "chained sf st es" "events_short es"
    and "safe_uint now" "\<not> ss_closeEmitted st"
  obtains payload env where "emitCloseEvent sf now st = (st\<lparr>ss_closeEmitted := True\<rparr>, Inr [utf8_encode (close_event payload)])"
    "sce_commitment env = close_commitment sf now st" "LF \<notin> set payload"
    "verifyStreamClose ed \<lparr>cv_payload = payload, cv_expectedOpenCommitmentHash = sf_openCommitmentHash sf, cv_expectedTipHash = ss_rollingHash st,
       cv_pubkey = sg_pubkey (sf_signer sf)\<rparr> = Accepted env"
proof -
  let ?c = "close_commitment sf now st"
  have "length (ss_rollingHash st) = 32"
    using event_tip_total [of "sf_sha sf" "sf_openCommitmentHash sf" "rev es"] assms(1,4,5) by (auto simp: facts_ok_def chained_def events_short_def)
  then have ok: "stream_close_ok ?c"
    using assms(1,3-6) by (auto simp: stream_close_ok_def close_commitment_def facts_ok_def chained_def events_short_def safe_uint_def head_ok_def to_number_small)
  then obtain payload envb sig where s: "signStreamCloseToEventPayload ?c (sf_signer sf) = Inr (payload, envb, sig)" "payload = b64urlEncode envb"
    using signed_stream_close assms(2) by blast
  show thesis
  proof (rule that)
    show "emitCloseEvent sf now st = (st\<lparr>ss_closeEmitted := True\<rparr>, Inr [utf8_encode (close_event payload)])" using s(1) assms(7) by (simp add: emitCloseEvent_def)
    show "verifyStreamClose ed \<lparr>cv_payload = payload, cv_expectedOpenCommitmentHash = sf_openCommitmentHash sf, cv_expectedTipHash = ss_rollingHash st,
       cv_pubkey = sg_pubkey (sf_signer sf)\<rparr> = Accepted \<lparr>sce_commitment = ?c, sce_signature = sig\<rparr>"
      by (rule stream_close_verifies [OF ok assms(2) s(1)]) (simp_all add: close_commitment_def)
    show "LF \<notin> set payload" using no_LF(2) s(2) by (simp add: base64_names)
  qed simp
qed

definition stream_context_ok :: "stream_context \<Rightarrow> bool" where
  "stream_context_ok ctx \<longleftrightarrow> 16 \<le> length (sx_nonce ctx) \<and> length (sx_nonce ctx) < 2 ^ 31 \<and> length (sx_actorFp ctx) = 32 \<and>
     safe_uint (sx_epoch ctx) \<and> safe_uint (sx_nowMs ctx)"

text \<open>What the client passes to the verifier of the open commitment.\<close>

definition open_args :: "headers \<Rightarrow> stream_context \<Rightarrow> (int \<Rightarrow> bytes option) \<Rightarrow> int \<Rightarrow> StreamOpenVerifyArgs" where
  "open_args hs ctx keys now =
     \<lparr>sv_headerValue = nullish (map_of hs (js ''interlace-receipt'')) [], sv_expectedActorFp = sx_actorFp ctx, sv_currentEpoch = sx_epoch ctx,
      sv_prevEpoch = None, sv_resolvePubkey = keys, sv_expectedNonce = sx_nonce ctx, sv_requestCanon = sx_requestCanon ctx, sv_nowMs = now\<rparr>"

lemma wrapped_stream:
  assumes "sha32 sha" "signer_ok ed (sx_signer ctx)" "stream_context_ok ctx" "length streamId = 16" "rs_status upstream = 200"
  obtains hs sf st where "wrapSseWithReceiptStream sha upstream True ctx streamId = Inr (Wrapped hs sf st)"
    "facts_ok sf" "chained sf st []" "ss_pending st = []" "\<not> ss_closeEmitted st" "sf_signer sf = sx_signer ctx" "sf_streamId sf = streamId" "sf_sha sf = sha"
    "\<And>keys now. keys (sx_epoch ctx) = Some (sg_pubkey (sx_signer ctx)) \<Longrightarrow> \<bar>now - sx_nowMs ctx\<bar> \<le> 300000 \<Longrightarrow>
       \<exists>env. verifyStreamOpen sha ed (open_args hs ctx keys now) = Accepted (env, sf_openCommitmentHash sf)"
proof -
  let ?c = "open_commitment sha ctx streamId"
  have ok: "stream_open_ok ?c"
    using assms(1,3,4) by (simp add: stream_open_ok_def open_commitment_def stream_context_ok_def sha32_def head_ok_def safe_uint_def to_number_small)
  obtain hdr envb sig canon where s: "signStreamOpenToHeader sha ?c (sx_signer ctx) = Inr (hdr, envb, sig, sha canon)" "hdr = b64urlEncode envb"
    using signed_stream_open [OF ok assms(2), of sha] by blast
  obtain h1 where h1: "headers_set (rs_headers upstream) INTERLACE_RECEIPT_HEADER hdr = Some h1"
    using headers_set_legal [OF b64_header_value(1) receipt_names(2,1)] s(2) by blast
  obtain hs where hs: "headers_set h1 (js ''access-control-expose-headers'') INTERLACE_RECEIPT_HEADER = Some hs"
    using headers_set_legal [OF receipt_names(3) _ receipt_names(5)] by (simp del: list.map)
  have hdr: "map_of hs (js ''interlace-receipt'') = Some hdr"
    using headers_set_lookup [OF h1] headers_set_lookup [OF hs] b64_header_value(2) [of envb] s(2) receipt_names(4,6) by simp
  let ?sf = "\<lparr>sf_sha = sha, sf_signer = sx_signer ctx, sf_streamId = streamId, sf_openCommitmentHash = sha canon\<rparr>"
  let ?st = "\<lparr>ss_rollingHash = sha canon, ss_eventCount = 0, ss_pending = [], ss_closeEmitted = False\<rparr>"
  have "verifyStreamOpen sha ed (open_args hs ctx keys now) = Accepted (\<lparr>soe_commitment = ?c, soe_signature = sig\<rparr>, sha canon)"
    if "keys (sx_epoch ctx) = Some (sg_pubkey (sx_signer ctx))" "\<bar>now - sx_nowMs ctx\<bar> \<le> 300000" for keys now
    by (rule stream_open_verifies [OF ok assms(2) s(1)]) (use that hdr in \<open>simp_all add: open_args_def open_commitment_def del: list.map\<close>)
  then show thesis
    using that [of hs ?sf ?st] s(1) h1 hs assms(1,5) by (simp add: wrapSseWithReceiptStream_def facts_ok_def chained_def sha32_def)
qed


text \<open>C13: A stream that breaks off is closed as if it had ended: when the upstream read fails, the error handler signs a close commitment
  with the status of a normal end over the events so far, and its event verifies, before the stream errors.\<close>

theorem broken_stream_closed_ok:
  assumes "sha32 sha" "signer_ok ed (sx_signer ctx)" "stream_context_ok ctx" "length streamId = 16" "rs_status upstream = 200"
    and "\<forall>(t, s) \<in> set ts. plain_text s" "body = concat (map snd ts)" "events_short (text_events body)" "safe_uint now"
  shows "\<exists>hs sf st st' out payload tip cenv. wrapSseWithReceiptStream sha upstream True ctx streamId = Inr (Wrapped hs sf st) \<and>
    drive sf st (chunks ts @ [(now, Read_failed)]) = (st', out @ [utf8_encode (close_event payload)], Errored) \<and>
    event_tip sha (sf_openCommitmentHash sf) (rev (text_events body)) = Inr tip \<and>
    verifyStreamClose ed \<lparr>cv_payload = payload, cv_expectedOpenCommitmentHash = sf_openCommitmentHash sf, cv_expectedTipHash = tip,
      cv_pubkey = sg_pubkey (sx_signer ctx)\<rparr> = Accepted cenv \<and> sc_closeStatus (sce_commitment cenv) = Close_ok"
proof -
  obtain hs sf st where w: "wrapSseWithReceiptStream sha upstream True ctx streamId = Inr (Wrapped hs sf st)"
      "facts_ok sf" "chained sf st []" "ss_pending st = []" "\<not> ss_closeEmitted st" "sf_signer sf = sx_signer ctx" "sf_streamId sf = streamId" "sf_sha sf = sha"
    using wrapped_stream [OF assms(1-5)] by metis
  obtain st' where st': "chained sf st' (text_events body)" "\<not> ss_closeEmitted st'"
      "drive sf st (chunks ts @ [(now, Read_failed)]) = apsnd (apfst ((@) (map (\<lambda>b. utf8_encode (b @ [LF, LF])) (fst (blocks body))))) (drive sf st' [(now, Read_failed)])"
    using drive_chunks [OF w(2) assms(6) w(3), of "fst (blocks body)" "snd (blocks body)" "[(now, Read_failed)]"] w(4,5) assms(7,8)
    by (auto simp: text_events_def)
  obtain payload cenv where c: "emitCloseEvent sf now st' = (st'\<lparr>ss_closeEmitted := True\<rparr>, Inr [utf8_encode (close_event payload)])"
      "sce_commitment cenv = close_commitment sf now st'"
      "verifyStreamClose ed \<lparr>cv_payload = payload, cv_expectedOpenCommitmentHash = sf_openCommitmentHash sf, cv_expectedTipHash = ss_rollingHash st',
         cv_pubkey = sg_pubkey (sf_signer sf)\<rparr> = Accepted cenv"
    using close_signed [OF w(2)] assms(2,4,8,9) w(6,7) st'(1,2) by metis
  show ?thesis
    using w(1,6,8) c st'(1)
    by (intro exI [of _ hs] exI [of _ sf] exI [of _ st] exI [of _ "st'\<lparr>ss_closeEmitted := True\<rparr>"]
        exI [of _ "map (\<lambda>b. utf8_encode (b @ [LF, LF])) (fst (blocks body))"] exI [of _ payload] exI [of _ "ss_rollingHash st'"] exI [of _ cenv]) (auto simp: st'(3) pull_def pull_failed_def chained_def close_commitment_def)
qed

section \<open>Concrete streams\<close>

definition sample_stream :: stream_context where
  "sample_stream = \<lparr>sx_requestCanon = [1], sx_nonce = replicate 16 3, sx_signer = zero_signer, sx_actorFp = replicate 32 9, sx_epoch = 7, sx_nowMs = 1700000000000\<rparr>"


text \<open>One event cut inside its block, a comment, an unfinished rest.\<close>

definition sample_texts :: "(int \<times> jsstr) list" where
  "sample_texts = [(0, js ''data: a''), (1, [LF, LF, of_char CHR '':'', LF]), (2, [LF] @ js ''data'')]"

lemma sample_stream_ok: "stream_context_ok sample_stream" "signer_ok any_ed (sx_signer sample_stream)" "\<forall>(t, s) \<in> set sample_texts. plain_text s"
  using sample_crypto(2) by (simp_all add: stream_context_ok_def sample_stream_def safe_uint_def head_ok_def sample_texts_def plain_text_def is_hi_def is_lo_def js_simps)

lemma sample_text_events: "text_events (concat (map snd sample_texts)) = [utf8_encode (js ''data: a'')]"
  by (simp add: sample_texts_def text_events_def block_events_def blocks.simps has_event_def starts_with_def js_simps)

lemma sample_text_short: "events_short (text_events (concat (map snd sample_texts)))"
  by (simp add: sample_text_events events_short_def js_simps utf8_encode_ascii)



theorem broken_stream_closed_ok_witness:
  "\<exists>hs sf st st' out payload. wrapSseWithReceiptStream pad_sha emit_response True sample_stream (replicate 16 5) = Inr (Wrapped hs sf st) \<and>
    drive sf st (chunks sample_texts @ [(3, Read_failed)]) = (st', out @ [utf8_encode (close_event payload)], Errored)"
proof -
  have "rs_status emit_response = 200" "safe_uint 3" by (simp_all add: emit_response_def safe_uint_def head_ok_def)
  from broken_stream_closed_ok [OF sample_crypto(1) sample_stream_ok(2,1) length_replicate [of 16 5] this(1) sample_stream_ok(3) refl sample_text_short this(2)]
  show ?thesis by (elim exE conjE) (intro exI conjI, assumption, assumption)
qed

text \<open>A character cut by a chunk border is lost: the two bytes of U+00E9 arrive as one replacement character.\<close>

lemma cut_character_lost: "decode_chunk [0xC3] @ decode_chunk [0xA9] = [0xFFFD]" "utf8_decode [0xC3, 0xA9] = [0xE9]"
  by (simp_all add: decode_chunk_def utf8_decode_def strip_bom_def utf8_loop.simps(2) utf8_needed.simps(2) utf16_of_def)

text \<open>Where comments are not apart, or the last block is unfinished, the code departs from the specification. A comment line inside a block with
  event lines is part of the bytes chained, so the close event does not verify for a client that leaves it out, unless the hash
  collides.\<close>

lemma comment_chained:
  "text_events (js '':c'' @ [LF] @ js ''data: x'' @ [LF, LF]) = [utf8_encode (js '':c'' @ [LF] @ js ''data: x'')]"
  "spec_events (js '':c'' @ [LF] @ js ''data: x'' @ [LF, LF]) = [utf8_encode (js ''data: x'')]"
  by (simp_all add: text_events_def block_events_def blocks.simps has_event_def spec_events_def event_lines_def starts_with_def js_simps)

lemma comment_breaks_chain:
  assumes "sha32 sha" "stream_open_ok c" "encodeStreamOpenCommitment c = Inr b" "text_events s \<noteq> spec_events s"
    and "events_short (text_events s)" "events_short (spec_events s)" "event_tip sha (sha b) (rev (text_events s)) = Inr tip"
    and "inj_on sha ({b} \<union> event_inputs sha (sha b) (rev (text_events s)) \<union> event_inputs sha (sha b) (rev (spec_events s)))"
  shows "event_tip sha (sha b) (rev (spec_events s)) \<noteq> Inr tip"
  using tip_binds [OF assms(1-3,2,3), of "rev (text_events s)" "rev (spec_events s)" tip] assms(4-8)
  by (auto simp: events_short_def)

text \<open>After an unfinished block the close event is not a block of its own: a client reads it as the end of that block.\<close>

lemma residue_hides_close:
  "fst (blocks (js ''data: x'' @ close_event p)) = [js ''data: x'' @ close_block p]" if "LF \<notin> set p"
proof -
  let ?u = "js ''data: xevent: interlace-stream-close''" and ?d = "js ''data: '' @ p"
  have "LF \<notin> set ?d" using that by (simp add: js_simps)
  note last = break_block_last [OF this]
  have e: "js ''data: x'' @ close_event p = ?u @ LF # (?d @ [LF, LF])" "js ''data: x'' @ close_block p = ?u @ LF # ?d"
    by (simp_all add: close_event_def close_block_def)
  have "LF \<notin> set ?u" "?d @ [LF, LF] \<noteq> []" "hd (?d @ [LF, LF]) \<noteq> LF" by (simp_all add: js_simps)
  from break_block_line [OF this] last have "break_block (js ''data: x'' @ close_event p) = Some (js ''data: x'' @ close_block p, [])"
    unfolding e by (simp del: list.map append.simps)
  then show ?thesis by (simp add: blocks.simps [of "js ''data: x'' @ close_event p"] blocks.simps [of "[]"] del: list.map append.simps)
qed

text \<open>With carriage returns no block ends.\<close>

lemma crlf_unchained: "text_events (js ''data: x'' @ [13, LF, 13, LF]) = []"
  by (simp add: text_events_def block_events_def blocks.simps js_simps)

end
