(* ===== verification/Disclosure.thy ===== *)
theory Disclosure
  imports Lease_Middleware Canonical_Json Js_Web Js_Strings
begin

text \<open>
  Disclosure of a peer's chain: the signed cursors and the constant error response of
  \<open>src/storage/disclosure-cursor.ts\<close>, and the route \<open>GET /interlace/peers/:fp\<close> of \<open>src/routes/disclosure.ts\<close> over the
  lease gate and the trust store. HMAC, the URL parser and the import of the key are parameters. A request is one step; the
  reads of the trust store may each be lost, which makes the handler throw. JSON numbers of a cursor are integers.
\<close>

section \<open>Cursors\<close>

definition CURSOR_VERSION :: int where
  "CURSOR_VERSION = 1"

record CursorPayload =
  cu_peerFp :: jsstr
  cu_fromSeq :: int
  cu_ts :: int

text \<open>A \<open>CryptoKey\<close>: what \<open>subtle.sign\<close> and \<open>subtle.verify\<close> do with it; \<open>None\<close> is a rejected promise.\<close>

record hmac_key =
  hk_sign :: "bytes \<Rightarrow> bytes option"
  hk_verify :: "bytes \<Rightarrow> bytes \<Rightarrow> bool option"

definition b64uEncode :: "bytes \<Rightarrow> jsstr" where
  "b64uEncode bs = strip_eq (map url_char (btoa bs))"

definition b64uDecode :: "jsstr \<Rightarrow> bytes option" where
  "b64uDecode s = atob (map std_char s @ replicate ((4 - length s mod 4) mod 4) (of_char CHR ''=''))"

definition canonicalJSON :: "(jsstr \<times> json) list \<Rightarrow> jsstr" where
  "canonicalJSON obj = [123] @ join_with (js '','') (map (\<lambda>(k, v). json_quote k @ js '':'' @ json_text v) (sort_key fst obj)) @ [125]"

definition cursor_fields :: "CursorPayload \<Rightarrow> (jsstr \<times> json) list" where
  "cursor_fields p = [(js ''peerFp'', JStr (cu_peerFp p)), (js ''fromSeq'', JNum (cu_fromSeq p)), (js ''ts'', JNum (cu_ts p))]"

definition cursor_version :: jsstr where
  "cursor_version = js ''v'' @ dec_of_int CURSOR_VERSION"

definition cursor_text :: "CursorPayload \<Rightarrow> jsstr" where
  "cursor_text p = cursor_version @ js ''.'' @ b64uEncode (utf8_encode (canonicalJSON (cursor_fields p)))"

definition signCursor :: "CursorPayload \<Rightarrow> hmac_key \<Rightarrow> jsstr option" where
  "signCursor payload key =
     (let headerAndBody = cursor_text payload in
      map_option (\<lambda>sig. headerAndBody @ js ''.'' @ b64uEncode sig) (hk_sign key (utf8_encode headerAndBody)))"

definition cursor_payload :: "json \<Rightarrow> CursorPayload option" where
  "cursor_payload body =
     (case (get_prop (Some body) (js ''peerFp''), get_prop (Some body) (js ''fromSeq''), get_prop (Some body) (js ''ts'')) of
        (Some (JStr peerFp), Some (JNum fromSeq), Some (JNum ts)) \<Rightarrow> Some \<lparr>cu_peerFp = peerFp, cu_fromSeq = fromSeq, cu_ts = ts\<rparr>
      | _ \<Rightarrow> None)"

definition verifyCursor :: "jsstr \<Rightarrow> hmac_key \<Rightarrow> CursorPayload option" where
  "verifyCursor cursor key =
     (case split_on (of_char CHR ''.'') cursor of
        [version, bodyB64, sigB64] \<Rightarrow>
          if version \<noteq> cursor_version then None
          else (case b64uDecode sigB64 of
              None \<Rightarrow> None
            | Some sig \<Rightarrow>
                if hk_verify key sig (utf8_encode (version @ js ''.'' @ bodyB64)) \<noteq> Some True then None
                else (case b64uDecode bodyB64 of
                    None \<Rightarrow> None
                  | Some bs \<Rightarrow> Option.bind (json_parse (utf8_decode bs)) cursor_payload))
      | _ \<Rightarrow> None)"

definition importHmacKey :: "(bytes \<Rightarrow> hmac_key option) \<Rightarrow> jsstr \<Rightarrow> hmac_key option" where
  "importHmacKey import_key rawKeyB64 = Option.bind (b64uDecode rawKeyB64) import_key"

definition CONSTANT_TIME_ERROR_BODY_LEN :: nat where
  "CONSTANT_TIME_ERROR_BODY_LEN = 256"

datatype reject_reason = Not_found | Denied | Bad_cursor

definition constantTimeErrorResponse :: "reject_reason \<Rightarrow> response" where
  "constantTimeErrorResponse kind =
     \<lparr>rs_status = 404, rs_statusText = [],
      rs_headers = [(js ''content-type'', js ''application/octet-stream''), (js ''cache-control'', js ''no-store''),
        (js ''content-length'', dec_of_int (int CONSTANT_TIME_ERROR_BODY_LEN))],
      rs_body = utf8_encode (replicate CONSTANT_TIME_ERROR_BODY_LEN (of_char CHR ''0''))\<rparr>"

section \<open>The page\<close>

definition DEFAULT_PAGE_SIZE :: nat where
  "DEFAULT_PAGE_SIZE = 100"

definition opt_text :: "jsstr option \<Rightarrow> json" where
  "opt_text s = (case s of None \<Rightarrow> JNull | Some t \<Rightarrow> JStr t)"

definition header_record :: "jsstr \<Rightarrow> jsstr \<Rightarrow> jsstr option \<Rightarrow> json" where
  "header_record peerFp masterKeyB64 next_cursor =
     JObj ([(js ''type'', JStr (js ''header'')), (js ''version'', JStr (js ''v1'')), (js ''peer_fingerprint'', JStr peerFp),
        (js ''master_public_key'', JStr masterKeyB64)] @ (case next_cursor of None \<Rightarrow> [] | Some c \<Rightarrow> [(js ''next_cursor'', JStr c)]))"

definition attestation_record :: "peerAttestation \<Rightarrow> json" where
  "attestation_record a =
     JObj [(js ''type'', JStr (js ''attestation'')), (js ''seq'', JNum (pa_seq a)), (js ''prev_self_ref'', opt_text (pa_prev_self_ref a)),
       (js ''prev_peer_ref'', opt_text (pa_prev_peer_ref a)), (js ''content_hash'', JStr (pa_content_hash a)),
       (js ''content_type'', JStr (pa_content_type a)), (js ''scope'', JStr (pa_scope a)), (js ''cert_b64'', JStr (btoa (pa_cert a))),
       (js ''sig_b64'', JStr (btoa (pa_sig a))), (js ''created_at'', JNum (pa_created_at a))]"

definition pending_record :: "pendingAttestation \<Rightarrow> json" where
  "pending_record p =
     JObj [(js ''type'', JStr (js ''pending'')), (js ''content_hash'', JStr (pd_content_hash p)), (js ''scope'', JStr (pd_scope p)),
       (js ''attempts'', JNum (pd_attempts p)), (js ''next_retry_at'', JNum (pd_next_retry_at p)),
       (js ''exhausted'', JBool (pd_next_retry_at p = MAX_SAFE_INTEGER)), (js ''created_at'', JNum (pd_created_at p)),
       (js ''last_attempt_at'', (case pd_last_attempt_at p of None \<Rightarrow> JNull | Some t \<Rightarrow> JNum t))]"

definition jsonl :: "json list \<Rightarrow> jsstr" where
  "jsonl records = join_with [LF] (map json_text records) @ [LF]"

datatype page = Page_missing | Page_failed | Page "jsstr option" "peerAttestation list" "pendingAttestation list"

text \<open>One page from \<open>fromSeq\<close>: one row more than fits is read, to know whether another page follows.\<close>

definition disclosure_page :: "trust_store \<Rightarrow> jsstr \<Rightarrow> int \<Rightarrow> hmac_key option \<Rightarrow> int \<Rightarrow> page" where
  "disclosure_page ts peerFp fromSeq hmacKey dateNow =
     (let attestations = listAttestationsForPeer (ts_attestations ts) peerFp (Some fromSeq) (Some (int DEFAULT_PAGE_SIZE + 1));
          pending = listPendingForPeer (ts_pending ts) peerFp
      in if attestations = [] \<and> pending = [] then Page_missing
         else if length attestations > DEFAULT_PAGE_SIZE then
           (let rows = take DEFAULT_PAGE_SIZE attestations in
            case Option.bind hmacKey (signCursor \<lparr>cu_peerFp = peerFp, cu_fromSeq = pa_seq (last rows) + 1, cu_ts = dateNow\<rparr>) of
              None \<Rightarrow> Page_failed
            | Some cursor \<Rightarrow> Page (Some cursor) rows pending)
         else Page None attestations pending)"

section \<open>The route\<close>

record disclosure_host =
  dh_lease :: host
  dh_env :: env
  dh_hmacKey :: "jsstr option"
  dh_notme :: "unit \<Rightarrow> notme_response"
  dh_import_key :: "bytes \<Rightarrow> hmac_key option"
  dh_url :: "jsstr \<Rightarrow> url"
  dh_now :: int
  dh_signNow :: int
  dh_probe :: rpc_fate
  dh_list :: rpc_fate
  dh_pending :: rpc_fate

definition PEER_DISCLOSURE_PATTERN :: "jsstr \<Rightarrow> jsstr option" where
  "PEER_DISCLOSURE_PATTERN p =
     (case split_on (of_char CHR ''/'') p of
        [a, b, c, fp] \<Rightarrow> if a = [] \<and> b = js ''interlace'' \<and> c = js ''peers'' \<and> fp \<noteq> [] then Some fp else None
      | _ \<Rightarrow> None)"

definition disclosure_match :: "disclosure_host \<Rightarrow> request \<Rightarrow> bool" where
  "disclosure_match host req =
     (if rq_method req \<noteq> js ''GET'' then False else PEER_DISCLOSURE_PATTERN (u_pathname (dh_url host (rq_url req))) \<noteq> None)"

definition readEnvString :: "jsstr option \<Rightarrow> jsstr option" where
  "readEnvString v = (if truthy_str v then v else None)"

definition disclosure_gate :: "disclosure_host \<Rightarrow> worker \<Rightarrow> request \<Rightarrow> jsstr \<Rightarrow> worker \<times> gateVerdict" where
  "disclosure_gate host w req peerFp =
     gateAndVerify (dh_lease host) (dh_env host) (dh_notme host) (dh_now host) w (dh_now host)
       \<lparr>va_req = req, va_body = [], va_method = js ''disclosure'', va_params = None, va_requestedScope = Some (js ''disclosure:'' @ peerFp)\<rparr> None"

text \<open>The cursor of the request: the reason it is refused, or the position it names.\<close>

definition read_cursor :: "jsstr option \<Rightarrow> hmac_key option \<Rightarrow> jsstr \<Rightarrow> reject_reason option \<times> int" where
  "read_cursor since hmacKey peerFp =
     (case hmacKey of
        None \<Rightarrow> (None, 0)
      | Some key \<Rightarrow>
          if \<not> truthy_str since then (None, 0)
          else (case verifyCursor (nullish since []) key of
              None \<Rightarrow> (Some Bad_cursor, 0)
            | Some decoded \<Rightarrow> if cu_peerFp decoded \<noteq> peerFp then (Some Bad_cursor, 0) else (None, cu_fromSeq decoded)))"

definition or_else :: "'a option \<Rightarrow> 'a option \<Rightarrow> 'a option" where
  "or_else a b = (case a of None \<Rightarrow> b | Some x \<Rightarrow> Some x)"

definition disclosure_response :: "disclosure_host \<Rightarrow> jsstr \<Rightarrow> jsstr option \<Rightarrow> peerAttestation list \<Rightarrow> pendingAttestation list \<Rightarrow> response" where
  "disclosure_response host peerFp cursor rows pending =
     \<lparr>rs_status = 200, rs_statusText = [],
      rs_headers = [(js ''content-type'', js ''application/jsonl; charset=utf-8''), (js ''cache-control'', js ''no-store'')],
      rs_body = utf8_encode (jsonl (header_record peerFp (nullish (readEnvString (env_INTERLACE_ROOT_PUBKEY (dh_env host))) []) cursor #
        map attestation_record rows @ map pending_record pending))\<rparr>"

text \<open>\<open>None\<close> is a handler that throws.\<close>

definition disclosure_serve :: "disclosure_host \<Rightarrow> trust_store \<Rightarrow> jsstr \<Rightarrow> reject_reason option \<Rightarrow> int \<Rightarrow> hmac_key option \<Rightarrow> response option" where
  "disclosure_serve host ts peerFp rejectReason fromSeq hmacKey =
     (if dh_probe host \<noteq> Delivered then None
      else let hasChain = peerHasChain ts peerFp in
        case rejectReason of
          Some reason \<Rightarrow> Some (constantTimeErrorResponse reason)
        | None \<Rightarrow>
            if \<not> hasChain then Some (constantTimeErrorResponse Not_found)
            else if dh_list host \<noteq> Delivered \<or> dh_pending host \<noteq> Delivered then None
            else (case disclosure_page ts peerFp fromSeq hmacKey (dh_signNow host) of
                Page_missing \<Rightarrow> Some (constantTimeErrorResponse Not_found)
              | Page_failed \<Rightarrow> None
              | Page cursor rows pending \<Rightarrow> Some (disclosure_response host peerFp cursor rows pending)))"

definition disclosure_handle :: "disclosure_host \<Rightarrow> worker \<Rightarrow> request \<Rightarrow> worker \<times> response option" where
  "disclosure_handle host w req =
     (let u = dh_url host (rq_url req);
          peerFp = nullish (PEER_DISCLOSURE_PATTERN (u_pathname u)) [];
          r0 = (if peerFp = [] then Some Not_found else None);
          (w1, verdict) = disclosure_gate host w req peerFp
      in if verdict = VerdictThrew then (w1, None)
         else let r1 = or_else r0 (case verdict of VerdictReject _ _ \<Rightarrow> Some Denied | _ \<Rightarrow> None);
                  hmacKeyB64 = readEnvString (dh_hmacKey host);
                  r2 = or_else r1 (if hmacKeyB64 = None then Some Denied else None)
         in case map_option (importHmacKey (dh_import_key host)) hmacKeyB64 of
              Some None \<Rightarrow> (w1, None)
            | imported \<Rightarrow>
                let hmacKey = Option.bind imported id;
                    (bad, fromSeq) = read_cursor (map_of (u_params u) (js ''since'')) hmacKey peerFp
                in (w1, disclosure_serve host (wk_store w1) peerFp (or_else r2 bad) fromSeq hmacKey))"

section \<open>Cursors are read back, and only those issued\<close>

lemma b64u_names: "b64uEncode = b64encode" "b64uDecode = b64decode"
proof -
  have table: "drop a (js ''==='') = replicate ((4 - b) mod 4) (of_char CHR ''='')" if "(a, b) \<in> {(3, 0), (0, 1), (1, 2), (2, 3)}" for a b :: nat
  proof -
    have "replicate 3 x = [x, x, x]" "replicate 2 x = [x, x]" for x :: jschar by (simp_all add: eval_nat_numeral)
    with that show ?thesis by (elim insertE emptyE) simp_all
  qed
  have "((n + 3) mod 4, n mod 4) \<in> {(3, 0), (0, 1), (1, 2), (2, 3)}" for n :: nat
    unfolding insert_iff prod.inject empty_iff by presburger
  from table [OF this]
  show "b64uEncode = b64encode" "b64uDecode = b64decode"
    by (simp_all add: fun_eq_iff b64uEncode_def b64encode_def b64uDecode_def b64decode_def)
qed

lemma split_on_append: "c \<notin> set s \<Longrightarrow> split_on c (s @ c # t) = s # split_on c t"
  by (induction s) auto

definition cursor_body :: "CursorPayload \<Rightarrow> json" where
  "cursor_body p = JObj [(js ''fromSeq'', JNum (cu_fromSeq p)), (js ''peerFp'', JStr (cu_peerFp p)), (js ''ts'', JNum (cu_ts p))]"

lemma canonical_cursor: "canonicalJSON (cursor_fields p) = stringify (cursor_body p)"
  by (simp add: canonicalJSON_def cursor_fields_def cursor_body_def js_simps)

lemma cursor_body_parses: "json_parse (utf8_decode (utf8_encode (canonicalJSON (cursor_fields p)))) = Some (cursor_body p)" "cursor_payload (cursor_body p) = Some p"
proof -
  have "plain_text (stringify (cursor_body p))" using well_formed_stringify [of "cursor_body p"] by (simp add: plain_text_def cursor_body_def)
  moreover have "sorted_keys (cursor_body p)" by (simp add: cursor_body_def js_simps)
  ultimately show "json_parse (utf8_decode (utf8_encode (canonicalJSON (cursor_fields p)))) = Some (cursor_body p)"
    by (simp add: canonical_cursor utf8_roundtrip json_parse_sorted)
  show "cursor_payload (cursor_body p) = Some p" by (simp add: cursor_payload_def cursor_body_def get_prop_def js_simps)
qed

lemma cursor_version_eq: "cursor_version = js ''v1''"
  by (simp add: cursor_version_def CURSOR_VERSION_def dec_of_int_def) (subst dec_digits.simps, simp)

lemma cursor_text_eq: "cursor_text p = js ''v1'' @ of_char CHR ''.'' # b64encode (utf8_encode (canonicalJSON (cursor_fields p)))"
  by (simp add: cursor_text_def cursor_version_eq b64u_names)

text \<open>A key whose signatures verify.\<close>

definition hmac_ok :: "hmac_key \<Rightarrow> bool" where
  "hmac_ok key \<longleftrightarrow> (\<forall>m. \<exists>sig. hk_sign key m = Some sig \<and> hk_verify key sig m = Some True)"

lemma signed_cursor:
  assumes "hmac_ok key"
  obtains c where "signCursor p key = Some c" "verifyCursor c key = Some p" "c \<noteq> []"
proof -
  obtain sig where sig: "hk_sign key (utf8_encode (cursor_text p)) = Some sig" "hk_verify key sig (utf8_encode (cursor_text p)) = Some True"
    using assms unfolding hmac_ok_def by blast
  let ?b = "b64encode (utf8_encode (canonicalJSON (cursor_fields p)))"
  have dot: "of_char CHR ''.'' \<notin> set (js ''v1'')" by (simp add: js_simps)
  have "split_on (of_char CHR ''.'') (js ''v1'' @ of_char CHR ''.'' # ?b @ of_char CHR ''.'' # b64encode sig) = [js ''v1'', ?b, b64encode sig]"
    unfolding split_on_append [OF dot] split_on_append [OF b64encode_no_dot] split_on_single [OF b64encode_no_dot] ..
  then have "verifyCursor (cursor_text p @ js ''.'' @ b64encode sig) key = Some p"
    using sig(2) cursor_body_parses unfolding verifyCursor_def cursor_text_eq b64u_names cursor_version_eq by (simp add: b64_roundtrip)
  then show thesis using that sig(1) by (simp add: signCursor_def Let_def b64u_names cursor_text_eq)
qed

lemma small_scalar: "\<forall>b \<in> set (utf8_scalar n). b < 128 \<Longrightarrow> n < 128"
  by (rule ccontr) (simp add: utf8_scalar_def split: if_splits)

lemma small_code_points: "\<forall>n \<in> set (code_points s). n < 128 \<Longrightarrow> ascii s"
  by (induction s rule: code_points.induct) (auto simp: surrogate_pair_def split: if_splits)

lemma ascii_bytes_iff: "(\<forall>n \<in> set (map unat (utf8_encode s)). n < 128) \<longleftrightarrow> ascii s"
proof
  assume "\<forall>n \<in> set (map unat (utf8_encode s)). n < 128"
  then have "\<forall>n \<in> set (code_points s). n < 128" unfolding unat_utf8_encode using small_scalar by fastforce
  then show "ascii s" by (rule small_code_points)
next
  assume "ascii s"
  moreover from this have "code_points s = map unat s" by (intro no_surrogates) (auto simp: ascii_def)
  ultimately show "\<forall>n \<in> set (map unat (utf8_encode s)). n < 128" unfolding unat_utf8_encode by (auto simp: ascii_def utf8_scalar_def)
qed

text \<open>A cursor the route accepts was issued by it: when the key verifies only texts that were signed for the payloads in \<open>P\<close>, an
  accepted cursor carries one of these payloads, whatever bytes the client sent.\<close>

theorem cursor_only_issued:
  assumes "\<forall>sig m. hk_verify key sig m = Some True \<longrightarrow> (\<exists>p \<in> P. m = utf8_encode (cursor_text p))" "verifyCursor c key = Some p"
  shows "p \<in> P"
proof -
  obtain body s sig bs where parts: "split_on (of_char CHR ''.'') c = [cursor_version, body, s]"
    and v: "hk_verify key sig (utf8_encode (cursor_version @ js ''.'' @ body)) = Some True"
    and bs: "b64decode body = Some bs" "Option.bind (json_parse (utf8_decode bs)) cursor_payload = Some p"
    using assms(2) by (auto simp: verifyCursor_def b64u_names split: list.splits option.splits if_splits)
  obtain q where q: "q \<in> P" "utf8_encode (cursor_version @ js ''.'' @ body) = utf8_encode (cursor_text q)" using assms(1) v by blast
  have asc: "ascii (cursor_text q)" by (simp add: cursor_text_eq b64encode_ascii)
  then have "ascii (cursor_version @ js ''.'' @ body)" using ascii_bytes_iff q(2) by metis
  then have "cursor_version @ js ''.'' @ body = cursor_text q" using q(2) asc utf8_encode_inject ascii_well_formed by blast
  then have "body = b64encode (utf8_encode (canonicalJSON (cursor_fields q)))" by (simp add: cursor_text_eq cursor_version_eq)
  then have "p = q" using bs cursor_body_parses [of q] by (simp add: b64_roundtrip)
  then show ?thesis using q(1) by simp
qed

definition sample_hmac :: hmac_key where
  "sample_hmac = \<lparr>hk_sign = (\<lambda>m. Some m), hk_verify = (\<lambda>sig m. Some (sig = m \<and> m = utf8_encode (cursor_text \<lparr>cu_peerFp = js ''p'', cu_fromSeq = 101, cu_ts = 5\<rparr>)))\<rparr>"

theorem cursor_only_issued_witness:
  "\<exists>c. verifyCursor c sample_hmac = Some \<lparr>cu_peerFp = js ''p'', cu_fromSeq = 101, cu_ts = 5\<rparr> \<and>
     \<lparr>cu_peerFp = js ''p'', cu_fromSeq = 101, cu_ts = 5\<rparr> \<in> {\<lparr>cu_peerFp = js ''p'', cu_fromSeq = 101, cu_ts = 5\<rparr>}"
proof -
  let ?p = "\<lparr>cu_peerFp = js ''p'', cu_fromSeq = 101, cu_ts = 5\<rparr>"
  let ?b = "b64encode (utf8_encode (canonicalJSON (cursor_fields ?p)))"
  have dot: "of_char CHR ''.'' \<notin> set (js ''v1'')" by (simp add: js_simps)
  let ?c = "js ''v1'' @ of_char CHR ''.'' # ?b @ of_char CHR ''.'' # b64encode (utf8_encode (cursor_text ?p))"
  have "split_on (of_char CHR ''.'') ?c = [js ''v1'', ?b, b64encode (utf8_encode (cursor_text ?p))]"
    unfolding split_on_append [OF dot] split_on_append [OF b64encode_no_dot] split_on_single [OF b64encode_no_dot] ..
  then have v: "verifyCursor ?c sample_hmac = Some ?p"
    using cursor_body_parses [of ?p] unfolding verifyCursor_def b64u_names cursor_version_eq by (simp add: b64_roundtrip sample_hmac_def cursor_text_eq)
  have "?p \<in> {?p}" by (rule cursor_only_issued [OF _ v]) (simp add: sample_hmac_def)
  then show ?thesis using v by blast
qed

section \<open>Following the cursors\<close>

text \<open>A client that follows the cursors, one store per page: other requests may have run in between.\<close>

fun crawl :: "(trust_store \<times> int) list \<Rightarrow> jsstr \<Rightarrow> hmac_key \<Rightarrow> jsstr option \<Rightarrow> peerAttestation list option" where
  "crawl [] peerFp key since = None"
| "crawl ((ts, now) # rest) peerFp key since =
     (case read_cursor since (Some key) peerFp of
        (Some reason, _) \<Rightarrow> None
      | (None, fromSeq) \<Rightarrow> (case disclosure_page ts peerFp fromSeq (Some key) now of
            Page None rows pending \<Rightarrow> Some rows
          | Page (Some cursor) rows pending \<Rightarrow> map_option ((@) rows) (crawl rest peerFp key (Some cursor))
          | _ \<Rightarrow> None))"

abbreviation chain_of :: "trust_store \<Rightarrow> jsstr \<Rightarrow> peerAttestation list" where
  "chain_of ts p \<equiv> peer_chain (ts_attestations ts) p"

lemma list_from:
  assumes "att_inv (ts_attestations ts)" "fromSeq = int n + 1 \<or> n = 0 \<and> fromSeq = 0"
  shows "listAttestationsForPeer (ts_attestations ts) p (Some fromSeq) (Some (int k)) = take k (drop n (chain_of ts p))"
proof -
  have "listAttestationsForPeer (ts_attestations ts) p (Some 0) (Some (int k)) = listAttestationsForPeer (ts_attestations ts) p (Some (int 0 + 1)) (Some (int k))"
  proof -
    have "linked (chain_of ts p)" using assms(1) by (simp add: att_inv_def)
    have "1 \<le> pa_seq r" if "r \<in> set (ts_attestations ts)" "pa_peer_fingerprint r = p" for r
    proof -
      have "r \<in> set (chain_of ts p)" using that by (simp add: peer_chain_def)
      then obtain i where "i < length (chain_of ts p)" "r = chain_of ts p ! i" unfolding in_set_conv_nth by blast
      then show ?thesis using \<open>linked (chain_of ts p)\<close> by (simp add: linked_def)
    qed
    then have "filter (\<lambda>r. pa_peer_fingerprint r = p \<and> 0 \<le> pa_seq r) (ts_attestations ts) = filter (\<lambda>r. pa_peer_fingerprint r = p \<and> 1 \<le> pa_seq r) (ts_attestations ts)"
      by (intro filter_cong) force+
    then show ?thesis by (simp add: listAttestationsForPeer_def select_where_def)
  qed
  then show ?thesis using assms list_segment [OF assms(1)] by (metis of_nat_0)
qed

lemma page_from:
  assumes "att_inv (ts_attestations ts)" "fromSeq = int n + 1 \<or> n = 0 \<and> fromSeq = 0" "n < length (chain_of ts p)" "hmac_ok key"
  shows "length (chain_of ts p) \<le> n + 100 \<Longrightarrow> \<exists>pend. disclosure_page ts p fromSeq (Some key) now = Page None (drop n (chain_of ts p)) pend"
    and "n + 100 < length (chain_of ts p) \<Longrightarrow> \<exists>c pend. disclosure_page ts p fromSeq (Some key) now = Page (Some c) (take 100 (drop n (chain_of ts p))) pend \<and>
      read_cursor (Some c) (Some key) p = (None, int (n + 100) + 1)"
proof -
  let ?l = "take 101 (drop n (chain_of ts p))"
  have l: "listAttestationsForPeer (ts_attestations ts) p (Some fromSeq) (Some 101) = ?l"
    using list_from [OF assms(1,2), of p 101] by simp
  have ne: "?l \<noteq> []" using assms(3) by simp
  show "\<exists>pend. disclosure_page ts p fromSeq (Some key) now = Page None (drop n (chain_of ts p)) pend" if "length (chain_of ts p) \<le> n + 100"
  proof -
    have "\<not> 100 < length ?l" "?l = drop n (chain_of ts p)" using that by auto
    then show ?thesis using l ne unfolding disclosure_page_def Let_def DEFAULT_PAGE_SIZE_def by simp
  qed
  show "\<exists>c pend. disclosure_page ts p fromSeq (Some key) now = Page (Some c) (take 100 (drop n (chain_of ts p))) pend \<and>
      read_cursor (Some c) (Some key) p = (None, int (n + 100) + 1)" if more: "n + 100 < length (chain_of ts p)"
  proof -
    let ?rows = "take 100 (drop n (chain_of ts p))"
    have "linked (chain_of ts p)" using assms(1) by (simp add: att_inv_def)
    moreover have "last ?rows = chain_of ts p ! (n + 99)" using more by (simp add: last_conv_nth)
    ultimately have seq: "pa_seq (last ?rows) + 1 = int (n + 100) + 1" using more by (simp add: linked_def)
    obtain c where c: "signCursor \<lparr>cu_peerFp = p, cu_fromSeq = int (n + 100) + 1, cu_ts = now\<rparr> key = Some c"
        "verifyCursor c key = Some \<lparr>cu_peerFp = p, cu_fromSeq = int (n + 100) + 1, cu_ts = now\<rparr>" "c \<noteq> []"
      by (rule signed_cursor [OF assms(4)])
    have "read_cursor (Some c) (Some key) p = (None, int (n + 100) + 1)" using c(2,3) by (simp add: read_cursor_def truthy_str_def)
    moreover have "take 100 ?l = ?rows" "length ?l = 101" using more by simp_all
    ultimately show ?thesis using l c(1) seq more by (simp add: disclosure_page_def Let_def DEFAULT_PAGE_SIZE_def)
  qed
qed

lemma crawl_from:
  assumes "hmac_ok key"
  shows "\<forall>(ts, now) \<in> set stores. att_inv (ts_attestations ts) \<Longrightarrow> stores \<noteq> [] \<Longrightarrow>
    sorted_wrt (\<lambda>a b. prefix (chain_of (fst a) p) (chain_of (fst b) p)) stores \<Longrightarrow>
    n < length (chain_of (fst (hd stores)) p) \<Longrightarrow> length (chain_of (fst (last stores)) p) \<le> n + 100 * length stores \<Longrightarrow>
    read_cursor since (Some key) p = (None, fromSeq) \<Longrightarrow> fromSeq = int n + 1 \<or> n = 0 \<and> fromSeq = 0 \<Longrightarrow>
    \<exists>k < length stores. crawl stores p key since = Some (drop n (chain_of (fst (stores ! k)) p))"
proof (induction stores arbitrary: n since fromSeq)
  case (Cons s stores)
  obtain ts now where s: "s = (ts, now)" by force
  have inv: "att_inv (ts_attestations ts)" and n: "n < length (chain_of ts p)" using Cons.prems(1,4) s by auto
  show ?case
  proof (cases "length (chain_of ts p) \<le> n + 100")
    case True
    then show ?thesis using page_from(1) [OF inv Cons.prems(7) n assms, of now] Cons.prems(6) s by force
  next
    case False
    then obtain c pend where page: "disclosure_page ts p fromSeq (Some key) now = Page (Some c) (take 100 (drop n (chain_of ts p))) pend"
        "read_cursor (Some c) (Some key) p = (None, int (n + 100) + 1)"
      using page_from(2) [OF inv Cons.prems(7) n assms, of now] by auto
    have ne: "stores \<noteq> []" using Cons.prems(5) False s by (cases stores) auto
    have grow: "prefix (chain_of ts p) (chain_of (fst t) p)" if "t \<in> set stores" for t using Cons.prems(3) that s by auto
    have "n + 100 < length (chain_of (fst (hd stores)) p)" using grow [OF hd_in_set [OF ne]] False prefix_length_le by fastforce
    moreover have "length (chain_of (fst (last stores)) p) \<le> (n + 100) + 100 * length stores" using Cons.prems(5) ne by simp
    ultimately obtain k where k: "k < length stores" "crawl stores p key (Some c) = Some (drop (n + 100) (chain_of (fst (stores ! k)) p))"
      using Cons.IH [of "n + 100" "Some c" "int (n + 100) + 1"] Cons.prems(1,3) ne page(2) by auto
    obtain zs where "chain_of (fst (stores ! k)) p = chain_of ts p @ zs" using grow [of "stores ! k"] k(1) by (auto simp: prefix_def)
    then have "take 100 (drop n (chain_of ts p)) = take 100 (drop n (chain_of (fst (stores ! k)) p))" using False by simp
    then have "take 100 (drop n (chain_of ts p)) @ drop (n + 100) (chain_of (fst (stores ! k)) p) = drop n (chain_of (fst (stores ! k)) p)"
      by (metis add.commute append_take_drop_id drop_drop)
    then have "crawl (s # stores) p key since = Some (drop n (chain_of (fst ((s # stores) ! Suc k)) p))"
      using page(1) Cons.prems(6) k(2) s by simp
    then show ?thesis using k(1) by (metis Suc_less_eq length_Cons)
  qed
qed simp

text \<open>C32: A client that follows the cursors gets the whole chain: while the chain of the peer only grows, the pages read one after
  another, joined, are the chain as it stood at one of the reads, each row once and in order. The crawl ends after at most
  one page per hundred rows.\<close>

theorem disclosure_crawl_complete:
  assumes "hmac_ok key" "\<forall>(ts, now) \<in> set stores. att_inv (ts_attestations ts)" "stores \<noteq> []"
    and "sorted_wrt (\<lambda>a b. prefix (peer_chain (ts_attestations (fst a)) p) (peer_chain (ts_attestations (fst b)) p)) stores"
    and "peer_chain (ts_attestations (fst (hd stores))) p \<noteq> []" "length (peer_chain (ts_attestations (fst (last stores))) p) \<le> 100 * length stores"
  shows "\<exists>k < length stores. crawl stores p key None = Some (peer_chain (ts_attestations (fst (stores ! k))) p)"
  using crawl_from [OF assms(1-4), of 0 None 0] assms(5,6) by (simp add: read_cursor_def truthy_str_def)

definition true_hmac :: hmac_key where
  "true_hmac = \<lparr>hk_sign = (\<lambda>m. Some m), hk_verify = (\<lambda>sig m. Some (sig = m))\<rparr>"

text \<open>A chain of 150 rows: two pages.\<close>

definition long_row :: "nat \<Rightarrow> peerAttestation" where
  "long_row i = \<lparr>pa_peer_fingerprint = js ''p'', pa_seq = int i + 1, pa_prev_self_ref = (if i = 0 then None else Some (dec_of_int (int (i - 1)))), pa_prev_peer_ref = None,
     pa_content_hash = dec_of_int (int i), pa_content_type = [], pa_scope = [], pa_cert = [], pa_sig = [], pa_created_at = 0, pa_bead_id = None, pa_origins = None\<rparr>"

definition long_store :: trust_store where
  "long_store = (new_trust_store None 0)\<lparr>ts_attestations := map long_row [0..<150]\<rparr>"

lemma long_chain: "peer_chain (ts_attestations long_store) p = (if p = js ''p'' then map long_row [0..<150] else [])"
proof -
  have "\<forall>r \<in> set (map long_row [0..<150]). pa_peer_fingerprint r = js ''p''" by (simp add: long_row_def)
  then show ?thesis unfolding peer_chain_def long_store_def by (auto simp: filter_id_conv filter_empty_conv simp del: upt.simps)
qed

lemma long_store_inv: "att_inv (ts_attestations long_store)"
  by (simp add: att_inv_def long_chain linked_def long_row_def del: upt.simps)

theorem disclosure_crawl_complete_witness:
  "crawl [(long_store, 7), (long_store, 8)] (js ''p'') true_hmac None = Some (map long_row [0..<150])"
proof -
  have "hmac_ok true_hmac" by (simp add: hmac_ok_def true_hmac_def)
  then have "\<exists>k < length [(long_store, 7 :: int), (long_store, 8)]. crawl [(long_store, 7), (long_store, 8)] (js ''p'') true_hmac None =
      Some (peer_chain (ts_attestations (fst ([(long_store, 7 :: int), (long_store, 8)] ! k))) (js ''p''))"
    by (rule disclosure_crawl_complete) (simp_all add: long_store_inv long_chain del: upt.simps)
  then obtain k where "k = 0 \<or> k = Suc 0" "crawl [(long_store, 7), (long_store, 8)] (js ''p'') true_hmac None =
      Some (peer_chain (ts_attestations (fst ([(long_store, 7 :: int), (long_store, 8)] ! k))) (js ''p''))" by (auto simp: less_Suc_eq)
  then show ?thesis by (auto simp: long_chain simp del: upt.simps)
qed

section \<open>Who gets a page\<close>

lemma serve_cases:
  assumes "disclosure_serve host ts peerFp rejectReason fromSeq hmacKey = Some r"
  shows "r = constantTimeErrorResponse Not_found \<or> rejectReason = None \<and> (\<exists>cursor rows pending. r = disclosure_response host peerFp cursor rows pending \<and>
    disclosure_page ts peerFp fromSeq hmacKey (dh_signNow host) = Page cursor rows pending)"
  using assms by (auto simp: disclosure_serve_def Let_def constantTimeErrorResponse_def split: if_splits option.splits page.splits)

lemma handle_serves:
  assumes "disclosure_handle host w req = (w', Some r)"
  obtains (error) "r = constantTimeErrorResponse Not_found"
  | (page) peerFp verdict fromSeq hmacKey cursor rows pending where "PEER_DISCLOSURE_PATTERN (u_pathname (dh_url host (rq_url req))) = Some peerFp"
      "disclosure_gate host w req peerFp = (w', verdict)" "verdict = VerdictOff \<or> (\<exists>l. verdict = VerdictPass l)"
      "r = disclosure_response host peerFp cursor rows pending"
      "disclosure_page (wk_store w') peerFp fromSeq hmacKey (dh_signNow host) = Page cursor rows pending"
proof -
  let ?u = "dh_url host (rq_url req)" let ?p = "nullish (PEER_DISCLOSURE_PATTERN (u_pathname ?u)) []"
  obtain w1 verdict where g: "disclosure_gate host w req ?p = (w1, verdict)" by force
  let ?r1 = "or_else (if ?p = [] then Some Not_found else None) (case verdict of VerdictReject _ _ \<Rightarrow> Some Denied | _ \<Rightarrow> None)"
  let ?r2 = "or_else ?r1 (if readEnvString (dh_hmacKey host) = None then Some Denied else None)"
  obtain hmacKey bad fromSeq where s: "disclosure_serve host (wk_store w1) ?p (or_else ?r2 bad) fromSeq hmacKey = Some r" and w: "w1 = w'" and v: "verdict \<noteq> VerdictThrew"
    using assms g unfolding disclosure_handle_def Let_def by (auto split: if_splits option.splits prod.splits)
  show thesis
  proof (cases "r = constantTimeErrorResponse Not_found")
    case False
    then obtain cursor rows pending where none: "or_else ?r2 bad = None" and r: "r = disclosure_response host ?p cursor rows pending"
        "disclosure_page (wk_store w1) ?p fromSeq hmacKey (dh_signNow host) = Page cursor rows pending"
      using serve_cases [OF s] by blast
    have r1: "?r1 = None" using none by (auto simp: or_else_def split: option.splits if_splits)
    then have "?p \<noteq> []" by (auto simp: or_else_def)
    then have "PEER_DISCLOSURE_PATTERN (u_pathname ?u) = Some ?p" by (cases "PEER_DISCLOSURE_PATTERN (u_pathname ?u)") simp_all
    moreover have "verdict = VerdictOff \<or> (\<exists>l. verdict = VerdictPass l)" using r1 v by (cases verdict) (auto simp: or_else_def split: if_splits)
    ultimately show thesis using page g r w by metis
  qed (rule error)
qed

lemma gate_pass_scope:
  assumes "gateAndVerify h env notme dateNow w nowMs args deny = (w', VerdictPass lease)"
  shows "scopeAllows (vl_scope lease) (nullish (va_requestedScope args) (deriveRequestScope (va_method args) (va_params args)))"
proof -
  obtain st ca where "verifyAndUpsertLease h (wk_store w) args ca nowMs = (st, LeaseOk lease)"
    using assms by (auto simp: gateAndVerify_def Let_def split: if_splits sum.splits prod.splits lease_outcome.splits)
  then obtain headers claims where "verify_claims h (wk_store w) args ca nowMs headers claims = (st, LeaseOk lease)" using verify_ok by blast
  from verify_claims_ok [OF this] show ?thesis by auto
qed

lemma page_rows:
  assumes "disclosure_page ts p fromSeq key now = Page cursor rows pending"
  shows "\<forall>a \<in> set rows. a \<in> set (ts_attestations ts) \<and> pa_peer_fingerprint a = p" "\<forall>d \<in> set pending. d \<in> set (ts_pending ts) \<and> pd_peer_fp d = p"
proof -
  have "set (listAttestationsForPeer (ts_attestations ts) p f l) \<subseteq> {a \<in> set (ts_attestations ts). pa_peer_fingerprint a = p}" for f l
    by (auto simp: listAttestationsForPeer_def limit_def order_by_int_def select_where_def dest!: in_set_takeD split: if_splits)
  moreover have "set (listPendingForPeer (ts_pending ts) p) \<subseteq> {d \<in> set (ts_pending ts). pd_peer_fp d = p}"
    by (auto simp: listPendingForPeer_def order_by_int_def select_where_def)
  moreover have "set rows \<subseteq> set (listAttestationsForPeer (ts_attestations ts) p (Some fromSeq) (Some (int DEFAULT_PAGE_SIZE + 1)))"
    "pending = listPendingForPeer (ts_pending ts) p"
    using assms by (auto simp: disclosure_page_def Let_def dest: in_set_takeD split: if_splits option.splits)
  ultimately show "\<forall>a \<in> set rows. a \<in> set (ts_attestations ts) \<and> pa_peer_fingerprint a = p" "\<forall>d \<in> set pending. d \<in> set (ts_pending ts) \<and> pd_peer_fp d = p" by blast+
qed

text \<open>C31: The route tells a chain only to who may see it, and every refusal looks alike: what it answers is either the one constant
  response, whether the peer, the lease or the cursor was at fault, or a page with rows of the peer in the URL alone, and
  where leases are enforced that needs a verified lease whose scope covers the disclosure of this peer.\<close>

theorem disclosure_gated_and_uniform:
  assumes "disclosure_handle host w req = (w', Some r)" "r \<noteq> constantTimeErrorResponse Not_found"
  shows "\<exists>peerFp cursor rows pending. PEER_DISCLOSURE_PATTERN (u_pathname (dh_url host (rq_url req))) = Some peerFp \<and>
    r = disclosure_response host peerFp cursor rows pending \<and>
    (\<forall>a \<in> set rows. a \<in> set (ts_attestations (wk_store w')) \<and> pa_peer_fingerprint a = peerFp) \<and>
    (\<forall>d \<in> set pending. d \<in> set (ts_pending (wk_store w')) \<and> pd_peer_fp d = peerFp) \<and>
    (leaseEnforced (dh_env host) \<longrightarrow> (\<exists>lease. disclosure_gate host w req peerFp = (w', VerdictPass lease) \<and>
       scopeAllows (vl_scope lease) (js ''disclosure:'' @ peerFp)))"
  using assms(1)
proof (cases rule: handle_serves)
  case (page peerFp verdict fromSeq hmacKey cursor rows pending)
  have "\<exists>lease. disclosure_gate host w req peerFp = (w', VerdictPass lease) \<and> scopeAllows (vl_scope lease) (js ''disclosure:'' @ peerFp)"
    if "leaseEnforced (dh_env host)"
  proof -
    have "verdict \<noteq> VerdictOff" using page(2) that
      by (auto simp: disclosure_gate_def gateAndVerify_def Let_def split: sum.splits prod.splits lease_outcome.splits)
    then obtain lease where "verdict = VerdictPass lease" using page(3) by blast
    then show ?thesis using page(2) gate_pass_scope unfolding disclosure_gate_def by fastforce
  qed
  then show ?thesis using page page_rows [OF page(5)] by blast
qed (use assms(2) in blast)

definition dev_disclosure :: disclosure_host where
  "dev_disclosure = \<lparr>dh_lease = sample_host, dh_env = prod_env\<lparr>env_CLOISTER_MODE := Some (js ''dev''), env_INTERLACE_ROOT_PUBKEY := None\<rparr>,
     dh_hmacKey = Some (b64encode [1]), dh_notme = (\<lambda>_. NotmeStatus 500 None), dh_import_key = (\<lambda>_. Some true_hmac),
     dh_url = (\<lambda>_. \<lparr>u_protocol = js ''https:'', u_username = [], u_password = [], u_hostname = js ''c'', u_pathname = js ''/interlace/peers/p'', u_params = []\<rparr>),
     dh_now = 1700000000000, dh_signNow = 1700000000000, dh_probe = Delivered, dh_list = Delivered, dh_pending = Delivered\<rparr>"

theorem disclosure_gated_and_uniform_witness:
  "\<exists>r cursor rows pending. snd (disclosure_handle dev_disclosure \<lparr>wk_cache = None, wk_store = long_store\<rparr> (sample_request (js ''GET''))) = Some r \<and>
     r = disclosure_response dev_disclosure (js ''p'') cursor rows pending \<and> (\<forall>a \<in> set rows. pa_peer_fingerprint a = js ''p'')"
proof -
  let ?w = "\<lparr>wk_cache = None, wk_store = long_store\<rparr>" let ?req = "sample_request (js ''GET'')"
  have pat: "PEER_DISCLOSURE_PATTERN (u_pathname (dh_url dev_disclosure (rq_url ?req))) = Some (js ''p'')"
    by (simp add: PEER_DISCLOSURE_PATTERN_def dev_disclosure_def js_simps)
  have gate: "disclosure_gate dev_disclosure ?w ?req (js ''p'') = (?w, VerdictOff)"
    by (simp add: disclosure_gate_def gateAndVerify_def dev_disclosure_def prod_env_def leaseEnforced_def resolveLeaseGate_def truthy_str_def nullish_def)
  have "b64encode [1] \<noteq> []" by (simp add: b64encode_digits)
  then have key: "readEnvString (dh_hmacKey dev_disclosure) = Some (b64encode [1])" "importHmacKey (dh_import_key dev_disclosure) (b64encode [1]) = Some true_hmac"
    by (simp_all add: dev_disclosure_def readEnvString_def truthy_str_def importHmacKey_def b64u_names b64_roundtrip)
  have ok: "hmac_ok true_hmac" by (simp add: hmac_ok_def true_hmac_def)
  have "length (chain_of long_store (js ''p'')) = 150" by (simp add: long_chain del: upt.simps)
  then obtain c pend where page: "disclosure_page long_store (js ''p'') 0 (Some true_hmac) (dh_signNow dev_disclosure) =
      Page (Some c) (take 100 (drop 0 (chain_of long_store (js ''p'')))) pend"
    using page_from(2) [OF long_store_inv, of 0 0 "js ''p''" true_hmac] ok by force
  let ?r = "disclosure_response dev_disclosure (js ''p'') (Some c) (take 100 (drop 0 (chain_of long_store (js ''p'')))) pend"
  have "peerHasChain long_store (js ''p'')"
    using long_chain [of "js ''p''"] by (simp add: peerHasChain_def select_where_def limit_def peer_chain_def del: upt.simps)
  then have "disclosure_serve dev_disclosure long_store (js ''p'') None 0 (Some true_hmac) = Some ?r"
    using page by (simp add: disclosure_serve_def dev_disclosure_def)
  then have h: "disclosure_handle dev_disclosure ?w ?req = (?w, Some ?r)"
    unfolding disclosure_handle_def Let_def pat
    by (simp add: gate key read_cursor_def truthy_str_def or_else_def dev_disclosure_def [THEN arg_cong [of _ _ dh_url]] del: list.map)
  have "?r \<noteq> constantTimeErrorResponse Not_found" by (simp add: disclosure_response_def constantTimeErrorResponse_def)
  from disclosure_gated_and_uniform [OF h this] pat h show ?thesis by auto
qed

text \<open>A key binding that is not base64 makes the handler throw on every request that reaches it: the answer then is not the constant
  one.\<close>

lemma malformed_key_throws:
  assumes "readEnvString (dh_hmacKey host) = Some k" "b64uDecode k = None"
  shows "snd (disclosure_handle host w req) = None"
  using assms by (simp add: disclosure_handle_def Let_def importHmacKey_def split: prod.split)

end
