(* ===== verification/Blob_Store.thy ===== *)
theory Blob_Store
  imports Canonical_Json Trust_Store
begin

text \<open>
  The content-addressed blob store: \<open>WorkerdBlobStore\<close> and \<open>WorkerdRefStore\<close> of
  \<open>src/storage/workerd.ts\<close> and the Durable Object \<open>BlobStore\<close> of \<open>src/blob-store.ts\<close> around the
  first. The two tables are lists of rows in insertion order. SHA-256 (\<open>crypto.subtle\<close>) and BLAKE3 (the
  wasm module behind \<open>src/wire/cas-hash.ts\<close>) are the parameters \<open>sha\<close> and \<open>blake\<close>; what is stored is
  proved readable for any set of blobs on which the two digests do not collide. The test fault map is
  the store's own field: its three keys are each read by one Durable Object only.

  \<open>content_store\<close> is the contract of a content-addressed store.
\<close>

section \<open>Blobs\<close>

record blob_row =
  bl_digest :: jsstr
  bl_bytes :: bytes

record chunk_row =
  ck_digest :: jsstr
  ck_seq :: int
  ck_bytes :: bytes

record blob_store =
  bs_blobs :: "blob_row list"
  bs_chunks :: "chunk_row list"
  bs_faults :: faults

definition new_blob_store :: "faults \<Rightarrow> blob_store" where
  "new_blob_store faults = \<lparr>bs_blobs = [], bs_chunks = [], bs_faults = faults\<rparr>"

definition ck_key :: "chunk_row \<Rightarrow> jsstr \<times> int" where
  "ck_key r = (ck_digest r, ck_seq r)"

definition BLOB_CHUNK_SIZE :: nat where
  "BLOB_CHUNK_SIZE = push_bit 20 1"

text \<open>The loop of \<open>put\<close> over the chunks of a large blob.\<close>

function put_chunks :: "jsstr \<Rightarrow> bytes \<Rightarrow> int \<Rightarrow> nat \<Rightarrow> chunk_row list \<Rightarrow> chunk_row list" where
  "put_chunks d bytes seq off t =
     (if off < length bytes
      then put_chunks d bytes (seq + 1) (off + BLOB_CHUNK_SIZE)
             (fst (insert_ignore ck_key
               \<lparr>ck_digest = d, ck_seq = seq,
                ck_bytes = drop off (take (min (off + BLOB_CHUNK_SIZE) (length bytes)) bytes)\<rparr> t))
      else t)"
  by pat_completeness auto
termination by (relation "measure (\<lambda>(d, bytes, seq, off, t). length bytes - off)") (auto simp: BLOB_CHUNK_SIZE_def)

declare put_chunks.simps [simp del]

definition put_mismatch :: "jsstr \<Rightarrow> jsstr \<Rightarrow> jsstr \<Rightarrow> jsstr" where
  "put_mismatch key sha blake =
     js ''BlobStore.put: digest mismatch '' @ [0x2014] @ js '' key='' @ key @ js '' sha256(body)='' @ sha @ js '' blake3(body)='' @ blake"

definition put_digest :: "(bytes \<Rightarrow> bytes) \<Rightarrow> (bytes \<Rightarrow> jsstr) \<Rightarrow> bytes \<Rightarrow> jsstr option \<Rightarrow> jsstr + jsstr" where
  "put_digest sha blake bytes key =
     (case key of
        None \<Rightarrow> Inr (digestBytes sha bytes)
      | Some k \<Rightarrow>
          if digestBytes sha bytes = k then Inr k
          else if blake bytes \<noteq> k then Inl (put_mismatch k (digestBytes sha bytes) (blake bytes))
          else Inr k)"

definition store_bytes :: "blob_store \<Rightarrow> jsstr \<Rightarrow> bytes \<Rightarrow> blob_store" where
  "store_bytes st d bytes =
     (if length bytes \<le> BLOB_CHUNK_SIZE
      then st\<lparr>bs_blobs := fst (insert_ignore bl_digest \<lparr>bl_digest = d, bl_bytes = bytes\<rparr> (bs_blobs st))\<rparr>
      else st\<lparr>bs_chunks := put_chunks d bytes 0 0 (bs_chunks st)\<rparr>)"

definition workerd_put ::
    "(bytes \<Rightarrow> bytes) \<Rightarrow> (bytes \<Rightarrow> jsstr) \<Rightarrow> blob_store \<Rightarrow> bytes \<Rightarrow> jsstr option \<Rightarrow> blob_store \<times> (jsstr + jsstr)" where
  "workerd_put sha blake st bytes key =
     (case put_digest sha blake bytes key of
        Inl e \<Rightarrow> (st, Inl e)
      | Inr d \<Rightarrow> (store_bytes st d bytes, Inr d))"

definition getChunked :: "blob_store \<Rightarrow> jsstr \<Rightarrow> bytes option" where
  "getChunked st digest =
     (let parts = map ck_bytes (order_by_int ck_seq (select_where (\<lambda>r. ck_digest r = digest) (bs_chunks st)))
      in if length parts = 0 then None else Some (concat parts))"

definition workerd_get :: "blob_store \<Rightarrow> jsstr \<Rightarrow> bytes option" where
  "workerd_get st digest =
     (case first_row (select_where (\<lambda>r. bl_digest r = digest) (bs_blobs st)) of
        Some row \<Rightarrow> Some (bl_bytes row)
      | None \<Rightarrow> getChunked st digest)"

definition workerd_has :: "blob_store \<Rightarrow> jsstr \<Rightarrow> bool" where
  "workerd_has st digest =
     (limit 1 (select_where (\<lambda>r. bl_digest r = digest) (bs_blobs st)) \<noteq> [] \<or>
      limit 1 (select_where (\<lambda>r. ck_digest r = digest) (bs_chunks st)) \<noteq> [])"

definition BLOB_PUT_FAULT_DIGEST :: jsstr where
  "BLOB_PUT_FAULT_DIGEST = js ''__fault:blobStorePut''"

definition blob_put ::
    "(bytes \<Rightarrow> bytes) \<Rightarrow> (bytes \<Rightarrow> jsstr) \<Rightarrow> blob_store \<Rightarrow> bytes \<Rightarrow> jsstr option \<Rightarrow> blob_store \<times> (jsstr + jsstr)" where
  "blob_put sha blake st bytes key =
     (let (faults, fired) = checkAndConsumeFault (bs_faults st) FaultBlobStorePut;
          st = st\<lparr>bs_faults := faults\<rparr>
      in if fired then (st, Inr BLOB_PUT_FAULT_DIGEST) else workerd_put sha blake st bytes key)"

section \<open>References\<close>

record ref_row =
  rf_name :: jsstr
  rf_digest :: jsstr

definition isDigest :: "jsstr \<Rightarrow> bool" where
  "isDigest v = (length v = 64 \<and> list_all (\<lambda>c. 48 \<le> unat c \<and> unat c \<le> 57 \<or> 97 \<le> unat c \<and> unat c \<le> 102) v)"

definition cas :: "ref_row list \<Rightarrow> jsstr \<Rightarrow> jsstr option \<Rightarrow> jsstr \<Rightarrow> ref_row list \<times> (jsstr + bool)" where
  "cas refs name expected next_digest =
     (if \<not> isDigest next_digest then (refs, Inl (js ''refStore.cas: 'next' is not a valid digest: '' @ next_digest))
      else case expected of
        None \<Rightarrow>
          (let (t, inserted) = insert_ignore rf_name \<lparr>rf_name = name, rf_digest = next_digest\<rparr> refs
           in (t, Inr (length inserted = 1)))
      | Some e \<Rightarrow>
          (let p = (\<lambda>r. rf_name r = name \<and> rf_digest r = e)
           in (update_where p (\<lambda>r. r\<lparr>rf_digest := next_digest\<rparr>) refs, Inr (length (filter p refs) = 1))))"

text \<open>SQLite's \<open>LIKE\<close> with an escape character, over code points: \<open>%\<close> is any text, \<open>_\<close> one character,
  and letters of ASCII match in either case.\<close>

definition ascii_fold :: "nat \<Rightarrow> nat" where
  "ascii_fold c = (if 65 \<le> c \<and> c \<le> 90 then c + 32 else c)"

fun sql_like :: "nat option \<Rightarrow> nat list \<Rightarrow> nat list \<Rightarrow> bool" where
  "sql_like esc [] t = (t = [])"
| "sql_like esc (p # ps) t =
     (if esc = Some p then
        (case ps of
           [] \<Rightarrow> False
         | q # qs \<Rightarrow> (case t of [] \<Rightarrow> False | c # cs \<Rightarrow> ascii_fold c = ascii_fold q \<and> sql_like esc qs cs))
      else if p = 37 then sql_like esc ps t \<or> (case t of [] \<Rightarrow> False | c # cs \<Rightarrow> sql_like esc (p # ps) cs)
      else if p = 95 then (case t of [] \<Rightarrow> False | c # cs \<Rightarrow> sql_like esc ps cs)
      else (case t of [] \<Rightarrow> False | c # cs \<Rightarrow> ascii_fold c = ascii_fold p \<and> sql_like esc ps cs))"

definition escape_like :: "jsstr \<Rightarrow> jsstr" where
  "escape_like s = concat (map (\<lambda>c. if c = 92 \<or> c = 37 \<or> c = 95 then [92, c] else [c]) s)"

definition ref_list :: "ref_row list \<Rightarrow> jsstr \<Rightarrow> (jsstr \<times> jsstr) list" where
  "ref_list refs name_prefix =
     map (\<lambda>r. (rf_name r, rf_digest r)) (order_by_text rf_name
       (select_where (\<lambda>r. sql_like (Some 92) (code_points (escape_like name_prefix @ js ''%'')) (code_points (rf_name r))) refs))"

definition assertSafePrefix :: "jsstr \<Rightarrow> bool" where
  "assertSafePrefix name_prefix =
     (case name_prefix of
        [] \<Rightarrow> False
      | c # s \<Rightarrow> 97 \<le> unat c \<and> unat c \<le> 122 \<and>
          list_all (\<lambda>d. 97 \<le> unat d \<and> unat d \<le> 122 \<or> 48 \<le> unat d \<and> unat d \<le> 57 \<or> d = 95) s)"

section \<open>Contract of a content-addressed store\<close>

locale content_store =
  fixes put :: "'t \<Rightarrow> 'd \<times> 'b \<Rightarrow> 't"
    and get :: "'t \<Rightarrow> 'd \<Rightarrow> 'b option"
    and inv :: "'t \<Rightarrow> bool"
    and ok :: "'d \<times> 'b \<Rightarrow> bool"
  assumes inv_put: "inv t \<Longrightarrow> ok p \<Longrightarrow> inv (put t p)"
    and get_put: "inv t \<Longrightarrow> ok (d, b) \<Longrightarrow> get (put t (d, b)) k = (if k = d then Some b else get t k)"
    and get_ok: "inv t \<Longrightarrow> get t d = Some b \<Longrightarrow> ok (d, b)"
    and put_known: "inv t \<Longrightarrow> ok (d, b) \<Longrightarrow> get t d = Some b \<Longrightarrow> put t (d, b) = t"
    and ok_unique: "inv t \<Longrightarrow> ok (d, b) \<Longrightarrow> ok (d, b') \<Longrightarrow> b = b'"
begin

lemma inv_puts: "inv t \<Longrightarrow> \<forall>p \<in> set ps. ok p \<Longrightarrow> inv (foldl put t ps)"
  by (induction ps arbitrary: t) (simp_all add: inv_put)

lemma put_readable: "inv t \<Longrightarrow> \<forall>p \<in> set ps. ok p \<Longrightarrow> (d, b) \<in> set ps \<Longrightarrow> get (foldl put t ps) d = Some b"
proof (induction ps rule: rev_induct)
  case (snoc p ps)
  obtain d' b' where p: "p = (d', b')" by force
  have i: "inv (foldl put t ps)" using snoc.prems by (intro inv_puts) auto
  have o: "ok (d', b')" using snoc.prems p by auto
  show ?case
  proof (cases "d = d'")
    case True
    then have "b = b'" using ok_unique [OF i o, of b] snoc.prems p by auto
    then show ?thesis using True get_put [OF i o] p by simp
  next
    case False
    then show ?thesis using snoc get_put [OF i o] p by auto
  qed
qed simp

lemma put_again: "inv t \<Longrightarrow> \<forall>p \<in> set ps. ok p \<Longrightarrow> p \<in> set ps \<Longrightarrow> put (foldl put t ps) p = foldl put t ps"
  using put_known [OF inv_puts] put_readable by (cases p) auto

end


section \<open>The blob store meets the contract\<close>

function chunk_rows :: "jsstr \<Rightarrow> bytes \<Rightarrow> int \<Rightarrow> nat \<Rightarrow> chunk_row list" where
  "chunk_rows d bytes seq off =
     (if off < length bytes
      then \<lparr>ck_digest = d, ck_seq = seq, ck_bytes = drop off (take (min (off + BLOB_CHUNK_SIZE) (length bytes)) bytes)\<rparr>
             # chunk_rows d bytes (seq + 1) (off + BLOB_CHUNK_SIZE)
      else [])"
  by pat_completeness auto
termination by (relation "measure (\<lambda>(d, bytes, seq, off). length bytes - off)") (auto simp: BLOB_CHUNK_SIZE_def)

declare chunk_rows.simps [simp del]

definition add_row :: "chunk_row \<Rightarrow> chunk_row list \<Rightarrow> chunk_row list" where
  "add_row r t = fst (insert_ignore ck_key r t)"

lemma put_chunks_fold: "put_chunks d b s o' t = fold add_row (chunk_rows d b s o') t"
proof (induction d b s o' t rule: put_chunks.induct)
  case (1 d b s o' t)
  then show ?case by (subst put_chunks.simps, subst chunk_rows.simps) (simp add: add_row_def [abs_def])
qed

lemma chunk_rows_shape:
  "(\<forall>r \<in> set (chunk_rows d b s o'). ck_digest r = d \<and> s \<le> ck_seq r) \<and> sorted_wrt (<) (map ck_seq (chunk_rows d b s o'))"
proof (induction d b s o' rule: chunk_rows.induct)
  case (1 d b s o')
  then show ?case by (subst (1 2) chunk_rows.simps) force
qed

lemma chunk_rows_concat: "concat (map ck_bytes (chunk_rows d b s o')) = drop o' b"
proof (induction d b s o' rule: chunk_rows.induct)
  case (1 d b s o')
  show ?case
  proof (cases "o' < length b")
    case True
    have "drop o' (take (min (o' + BLOB_CHUNK_SIZE) (length b)) b) @ drop (o' + BLOB_CHUNK_SIZE) b = drop o' b"
      by (simp add: drop_take min_def flip: drop_drop) (metis add.commute append_take_drop_id drop_drop drop_eq_Nil2 append_Nil2 nat_le_linear take_all_iff length_drop le_diff_conv)
    then show ?thesis using 1 True by (subst chunk_rows.simps) simp
  qed (simp add: chunk_rows.simps)
qed

lemma chunk_rows_nonempty: "o' < length b \<Longrightarrow> chunk_rows d b s o' \<noteq> []"
  by (subst chunk_rows.simps) simp

lemma add_rows_new:
  "distinct (map ck_key rs) \<Longrightarrow> ck_key ` set rs \<inter> ck_key ` set t = {} \<Longrightarrow> fold add_row rs t = t @ rs"
  by (induction rs arbitrary: t) (auto simp: add_row_def insert_ignore_def)

lemma add_rows_known: "ck_key ` set rs \<subseteq> ck_key ` set t \<Longrightarrow> fold add_row rs t = t"
  by (induction rs arbitrary: t) (auto simp: add_row_def insert_ignore_def)

definition rows_of :: "jsstr \<Rightarrow> chunk_row list \<Rightarrow> chunk_row list" where
  "rows_of d t = filter (\<lambda>r. ck_digest r = d) t"

definition blob_names :: "(bytes \<Rightarrow> bytes) \<Rightarrow> (bytes \<Rightarrow> jsstr) \<Rightarrow> bytes \<Rightarrow> jsstr set" where
  "blob_names sha blake b = {digestBytes sha b, blake b}"

definition collision_free :: "(bytes \<Rightarrow> bytes) \<Rightarrow> (bytes \<Rightarrow> jsstr) \<Rightarrow> bytes set \<Rightarrow> bool" where
  "collision_free sha blake B = (\<forall>b \<in> B. \<forall>b' \<in> B. blob_names sha blake b \<inter> blob_names sha blake b' \<noteq> {} \<longrightarrow> b = b')"

definition blob_ok :: "(bytes \<Rightarrow> bytes) \<Rightarrow> (bytes \<Rightarrow> jsstr) \<Rightarrow> bytes set \<Rightarrow> jsstr \<times> bytes \<Rightarrow> bool" where
  "blob_ok sha blake B p = (snd p \<in> B \<and> fst p \<in> blob_names sha blake (snd p))"

definition blob_inv :: "(bytes \<Rightarrow> bytes) \<Rightarrow> (bytes \<Rightarrow> jsstr) \<Rightarrow> bytes set \<Rightarrow> blob_store \<Rightarrow> bool" where
  "blob_inv sha blake B st = (collision_free sha blake B \<and>
     (\<forall>r \<in> set (bs_blobs st). blob_ok sha blake B (bl_digest r, bl_bytes r) \<and> length (bl_bytes r) \<le> BLOB_CHUNK_SIZE) \<and>
     (\<forall>d. rows_of d (bs_chunks st) = [] \<or>
        (\<exists>b. blob_ok sha blake B (d, b) \<and> length b > BLOB_CHUNK_SIZE \<and> rows_of d (bs_chunks st) = chunk_rows d b 0 0)))"

lemma blob_ok_unique: "collision_free sha blake B \<Longrightarrow> blob_ok sha blake B (d, b) \<Longrightarrow> blob_ok sha blake B (d, b') \<Longrightarrow> b = b'"
  by (auto simp: collision_free_def blob_ok_def)

lemma getChunked_rows:
  "rows_of d (bs_chunks st) = chunk_rows d b 0 0 \<Longrightarrow> b \<noteq> [] \<Longrightarrow> getChunked st d = Some b"
proof -
  assume r: "rows_of d (bs_chunks st) = chunk_rows d b 0 0" and b: "b \<noteq> []"
  have "sorted (map ck_seq (chunk_rows d b 0 0))" using chunk_rows_shape [of d b 0 0] by (simp add: strict_sorted_imp_sorted)
  then have "order_by_int ck_seq (rows_of d (bs_chunks st)) = chunk_rows d b 0 0"
    unfolding r by (simp add: order_by_int_def sort_key_id_if_sorted)
  then show ?thesis using chunk_rows_nonempty [of 0 b d 0] b chunk_rows_concat [of d b 0 0]
    by (simp add: getChunked_def rows_of_def select_where_def)
qed

lemma getChunked_none: "rows_of d (bs_chunks st) = [] \<Longrightarrow> getChunked st d = None"
  by (simp add: getChunked_def rows_of_def select_where_def order_by_int_def)

lemma put_chunks_rows:
  assumes "blob_inv sha blake B st" "blob_ok sha blake B (d, b)" "length b > BLOB_CHUNK_SIZE"
  shows "put_chunks d b 0 0 (bs_chunks st) =
    (if rows_of d (bs_chunks st) = [] then bs_chunks st @ chunk_rows d b 0 0 else bs_chunks st)"
proof (cases "rows_of d (bs_chunks st) = []")
  case True
  have "distinct (map ck_seq (chunk_rows d b 0 0))" using chunk_rows_shape [of d b 0 0] by (simp add: strict_sorted_iff)
  then have "distinct (map ck_key (chunk_rows d b 0 0))"
    using chunk_rows_shape [of d b 0 0] by (auto simp: distinct_map inj_on_def ck_key_def)
  moreover have "ck_key ` set (chunk_rows d b 0 0) \<inter> ck_key ` set (bs_chunks st) = {}"
    using True chunk_rows_shape [of d b 0 0] by (fastforce simp: rows_of_def filter_empty_conv ck_key_def)
  ultimately show ?thesis using True by (simp add: put_chunks_fold add_rows_new)
next
  case False
  then obtain b' where "blob_ok sha blake B (d, b')" "rows_of d (bs_chunks st) = chunk_rows d b' 0 0"
    using assms(1) unfolding blob_inv_def by blast
  moreover from this have "b' = b" using assms blob_ok_unique unfolding blob_inv_def by blast
  ultimately have "set (chunk_rows d b 0 0) \<subseteq> set (bs_chunks st)" by (metis filter_is_subset rows_of_def)
  then show ?thesis using False by (simp add: put_chunks_fold add_rows_known image_mono)
qed


definition put_pair :: "blob_store \<Rightarrow> jsstr \<times> bytes \<Rightarrow> blob_store" where
  "put_pair st p = store_bytes st (fst p) (snd p)"

lemma rows_of_append: "rows_of k (t @ chunk_rows d b 0 0) = rows_of k t @ (if k = d then chunk_rows d b 0 0 else [])"
  using chunk_rows_shape [of d b 0 0] by (auto simp: rows_of_def filter_id_conv filter_empty_conv)

lemma small_row_bytes:
  "blob_inv sha blake B st \<Longrightarrow> blob_ok sha blake B (d, b) \<Longrightarrow> lookup_pk bl_digest d (bs_blobs st) = Some r \<Longrightarrow> bl_bytes r = b"
  using lookup_pk_SomeD [of bl_digest d "bs_blobs st" r] blob_ok_unique [of sha blake B d "bl_bytes r" b]
  by (auto simp: blob_inv_def)

lemma chunk_bytes:
  assumes "blob_inv sha blake B st" "blob_ok sha blake B (d, b)" "rows_of d (bs_chunks st) \<noteq> []"
  shows "length b > BLOB_CHUNK_SIZE \<and> rows_of d (bs_chunks st) = chunk_rows d b 0 0"
proof -
  obtain b' where b': "blob_ok sha blake B (d, b')" "length b' > BLOB_CHUNK_SIZE" "rows_of d (bs_chunks st) = chunk_rows d b' 0 0"
    using assms(1,3) unfolding blob_inv_def by blast
  moreover have "b' = b" using assms(1) b'(1) assms(2) blob_ok_unique unfolding blob_inv_def by blast
  ultimately show ?thesis by simp
qed

lemma workerd_get_lookup:
  "workerd_get st k = (case lookup_pk bl_digest k (bs_blobs st) of Some r \<Rightarrow> Some (bl_bytes r) | None \<Rightarrow> getChunked st k)"
  by (simp add: workerd_get_def lookup_pk_def)

lemma blob_inv_put:
  assumes "blob_inv sha blake B st" "blob_ok sha blake B p"
  shows "blob_inv sha blake B (put_pair st p)"
proof -
  obtain d b where p: "p = (d, b)" by force
  show ?thesis
  proof (cases "length b \<le> BLOB_CHUNK_SIZE")
    case True
    then show ?thesis using assms p by (auto simp: blob_inv_def put_pair_def store_bytes_def insert_ignore_def)
  next
    case False
    then have "put_chunks d b 0 0 (bs_chunks st) = (if rows_of d (bs_chunks st) = [] then bs_chunks st @ chunk_rows d b 0 0 else bs_chunks st)"
      using assms p by (intro put_chunks_rows) auto
    then show ?thesis using assms p False
      by (auto simp: blob_inv_def put_pair_def store_bytes_def rows_of_append)
  qed
qed

lemma get_after_store:
  assumes i: "blob_inv sha blake B st" and o: "blob_ok sha blake B (d, b)"
  shows "workerd_get (put_pair st (d, b)) k = (if k = d then Some b else workerd_get st k)"
proof (cases "length b \<le> BLOB_CHUNK_SIZE")
  case True
  then have s: "bs_blobs (put_pair st (d, b)) = fst (insert_ignore bl_digest \<lparr>bl_digest = d, bl_bytes = b\<rparr> (bs_blobs st))"
    "bs_chunks (put_pair st (d, b)) = bs_chunks st"
    by (simp_all add: put_pair_def store_bytes_def)
  have g: "getChunked (put_pair st (d, b)) k = getChunked st k" by (simp add: getChunked_def s)
  show ?thesis
  proof (cases "lookup_pk bl_digest d (bs_blobs st)")
    case None
    then have "bs_blobs (put_pair st (d, b)) = bs_blobs st @ [\<lparr>bl_digest = d, bl_bytes = b\<rparr>]"
      by (simp add: s insert_ignore_def lookup_pk_None_iff)
    then show ?thesis using None g by (simp add: workerd_get_lookup lookup_pk_append split: option.split)
  next
    case (Some r)
    then have "d \<in> bl_digest ` set (bs_blobs st)" by (metis lookup_pk_None_iff option.distinct(1))
    then have "bs_blobs (put_pair st (d, b)) = bs_blobs st" by (simp add: s insert_ignore_def)
    then show ?thesis using Some small_row_bytes [OF i o Some] g by (simp add: workerd_get_lookup split: option.split)
  qed
next
  case False
  then have s: "bs_blobs (put_pair st (d, b)) = bs_blobs st"
    "bs_chunks (put_pair st (d, b)) = (if rows_of d (bs_chunks st) = [] then bs_chunks st @ chunk_rows d b 0 0 else bs_chunks st)"
    using put_chunks_rows [OF i o] by (simp_all add: put_pair_def store_bytes_def)
  have n: "lookup_pk bl_digest d (bs_blobs st) = None"
  proof (rule ccontr)
    assume "lookup_pk bl_digest d (bs_blobs st) \<noteq> None"
    then obtain r where r: "lookup_pk bl_digest d (bs_blobs st) = Some r" by blast
    then show False using small_row_bytes [OF i o r] lookup_pk_SomeD [OF r] i False by (auto simp: blob_inv_def)
  qed
  have d: "rows_of d (bs_chunks (put_pair st (d, b))) = chunk_rows d b 0 0"
    using s chunk_bytes [OF i o] by (auto simp: rows_of_append)
  have b: "b \<noteq> []" using False by auto
  have k: "k \<noteq> d \<Longrightarrow> rows_of k (bs_chunks (put_pair st (d, b))) = rows_of k (bs_chunks st)"
    using s by (auto simp: rows_of_append)
  then have "k \<noteq> d \<Longrightarrow> getChunked (put_pair st (d, b)) k = getChunked st k"
    by (simp add: getChunked_def select_where_def flip: rows_of_def)
  then show ?thesis using getChunked_rows [OF d b] n s by (auto simp: workerd_get_lookup split: option.split)
qed

lemma get_is_ok:
  assumes "blob_inv sha blake B st" "workerd_get st d = Some b"
  shows "blob_ok sha blake B (d, b)"
proof (cases "lookup_pk bl_digest d (bs_blobs st)")
  case (Some r)
  then show ?thesis using assms lookup_pk_SomeD [OF Some] by (auto simp: workerd_get_lookup blob_inv_def)
next
  case None
  then have g: "getChunked st d = Some b" using assms(2) by (simp add: workerd_get_lookup)
  then have "rows_of d (bs_chunks st) \<noteq> []" using getChunked_none [of d st] by auto
  then obtain b' where b': "blob_ok sha blake B (d, b')" "length b' > BLOB_CHUNK_SIZE" "rows_of d (bs_chunks st) = chunk_rows d b' 0 0"
    using assms(1) unfolding blob_inv_def by blast
  moreover have "b' \<noteq> []" using b'(2) by auto
  ultimately show ?thesis using getChunked_rows [OF b'(3)] g by auto
qed

lemma store_known:
  assumes i: "blob_inv sha blake B st" and o: "blob_ok sha blake B (d, b)" and g: "workerd_get st d = Some b"
  shows "put_pair st (d, b) = st"
proof (cases "lookup_pk bl_digest d (bs_blobs st)")
  case (Some r)
  then have "d \<in> bl_digest ` set (bs_blobs st)" by (metis lookup_pk_None_iff option.distinct(1))
  moreover have "length b \<le> BLOB_CHUNK_SIZE"
    using small_row_bytes [OF i o Some] lookup_pk_SomeD [OF Some] i by (auto simp: blob_inv_def)
  ultimately show ?thesis by (simp add: put_pair_def store_bytes_def insert_ignore_def)
next
  case None
  then have "rows_of d (bs_chunks st) \<noteq> []" using g getChunked_none [of d st] by (auto simp: workerd_get_lookup)
  then show ?thesis using chunk_bytes [OF i o] put_chunks_rows [OF i o] by (simp add: put_pair_def store_bytes_def)
qed

interpretation blobs: content_store put_pair workerd_get "blob_inv sha blake B" "blob_ok sha blake B" for sha blake B
proof unfold_locales
  show "b = b'" if "blob_inv sha blake B t" "blob_ok sha blake B (d, b)" "blob_ok sha blake B (d, b')" for t d b b'
    using that blob_ok_unique by (auto simp: blob_inv_def)
qed (simp_all add: blob_inv_put get_after_store get_is_ok store_known)


lemma put_digest_name: "put_digest sha blake b key = Inr d \<Longrightarrow> d \<in> blob_names sha blake b"
  by (auto simp: put_digest_def blob_names_def split: option.splits if_splits)

lemma workerd_has_get: "workerd_has st d \<longleftrightarrow> workerd_get st d \<noteq> None"
  by (cases "filter (\<lambda>r. bl_digest r = d) (bs_blobs st)"; cases "filter (\<lambda>r. ck_digest r = d) (bs_chunks st)")
    (auto simp: workerd_has_def workerd_get_def getChunked_def select_where_def limit_def order_by_int_def Let_def)

definition blob_step :: "(bytes \<Rightarrow> bytes) \<Rightarrow> (bytes \<Rightarrow> jsstr) \<Rightarrow> blob_store \<Rightarrow> bytes \<times> jsstr option \<Rightarrow> blob_store" where
  "blob_step sha blake st op = fst (blob_put sha blake st (fst op) (snd op))"

definition accepted :: "(bytes \<Rightarrow> bytes) \<Rightarrow> (bytes \<Rightarrow> jsstr) \<Rightarrow> bytes \<times> jsstr option \<Rightarrow> (jsstr \<times> bytes) option" where
  "accepted sha blake op = (case put_digest sha blake (fst op) (snd op) of Inl _ \<Rightarrow> None | Inr d \<Rightarrow> Some (d, fst op))"

lemma store_faults [simp]: "bs_faults (put_pair st p) = bs_faults st"
  by (simp add: put_pair_def store_bytes_def)

lemma blob_put_live: "bs_faults st = None \<Longrightarrow> blob_put sha blake st b key = workerd_put sha blake st b key"
  by (cases st) (simp add: blob_put_def checkAndConsumeFault_def)

lemma blob_step_accepted:
  "bs_faults st = None \<Longrightarrow> blob_step sha blake st op = (case accepted sha blake op of None \<Rightarrow> st | Some p \<Rightarrow> put_pair st p)"
  by (cases op) (auto simp: blob_step_def blob_put_live workerd_put_def accepted_def put_pair_def split: sum.splits)

lemma blob_run_puts:
  "bs_faults st = None \<Longrightarrow> foldl (blob_step sha blake) st ops = foldl put_pair st (List.map_filter (accepted sha blake) ops)"
  by (induction ops arbitrary: st) (auto simp: blob_step_accepted List.map_filter_def split: option.splits)

lemma accepted_ok: "accepted sha blake op = Some p \<Longrightarrow> fst op \<in> B \<Longrightarrow> blob_ok sha blake B p"
  by (auto simp: accepted_def blob_ok_def dest: put_digest_name split: sum.splits)

lemma blob_inv_new: "collision_free sha blake B \<Longrightarrow> blob_inv sha blake B (new_blob_store faults)"
  by (simp add: blob_inv_def new_blob_store_def rows_of_def)

text \<open>C33: What \<open>BlobStore.put\<close> accepts stays readable: after any sequence of puts, small or chunked,
  with or without a caller's key, every digest that was returned gives back exactly the bytes it was
  returned for, and putting them again changes nothing. Hypothesis: SHA-256 and BLAKE3 do not collide
  on the blobs of the sequence.\<close>

theorem blob_store_content_addressed:
  assumes "collision_free sha blake (fst ` set ops)" "(bytes, key) \<in> set ops" "put_digest sha blake bytes key = Inr d"
  defines "st \<equiv> foldl (blob_step sha blake) (new_blob_store None) ops"
  shows "workerd_get st d = Some bytes \<and> workerd_has st d \<and> blob_put sha blake st bytes key = (st, Inr d)"
proof -
  let ?B = "fst ` set ops" and ?ps = "List.map_filter (accepted sha blake) ops"
  have st: "st = foldl put_pair (new_blob_store None) ?ps"
    by (simp add: st_def blob_run_puts new_blob_store_def)
  have i: "blob_inv sha blake ?B (new_blob_store None)" using assms(1) by (rule blob_inv_new)
  have ok: "\<forall>p \<in> set ?ps. blob_ok sha blake ?B p"
    by (auto simp: List.map_filter_def intro!: accepted_ok) 
  have p: "(d, bytes) \<in> set ?ps" using assms(2,3)
    by (force simp: List.map_filter_def accepted_def image_iff)
  have g: "workerd_get st d = Some bytes" unfolding st by (rule blobs.put_readable [OF i ok p])
  have f: "bs_faults (foldl put_pair t ps) = bs_faults t" for t ps by (induction ps arbitrary: t) simp_all
  have n: "bs_faults st = None" unfolding st f by (simp add: new_blob_store_def)
  have "store_bytes st d bytes = st"
    using blobs.put_again [OF i ok p] unfolding st [symmetric] by (simp add: put_pair_def)
  then show ?thesis using g n assms(3)
    by (simp add: workerd_has_get blob_put_live workerd_put_def)
qed

theorem blob_store_content_addressed_witness:
  "workerd_get (foldl (blob_step (\<lambda>b. b) to_hex) (new_blob_store None) [([1], None), ([2, 3], Some (js ''0203''))]) (js ''01'') = Some [1]"
proof -
  have h: "to_hex [1] = js ''01''" "to_hex [2, 3] = js ''0203''"
    by (simp_all add: hex_digit_def hex_alphabet_def)
  have c: "collision_free (\<lambda>b. b) to_hex (fst ` set [([1 :: byte], None), ([2, 3], Some (js ''0203''))])"
    by (simp add: collision_free_def blob_names_def digestBytes_def h del: to_hex_simps)
  from blob_store_content_addressed [OF c, of "[1]" None "js ''01''"] show ?thesis
    by (simp add: put_digest_def digestBytes_def h del: to_hex_simps)
qed

text \<open>A caller's key is honoured only if it is the SHA-256 or the BLAKE3 digest of the bytes; any
  other key is refused and nothing is written.\<close>

theorem blob_put_key_checked:
  "blob_put sha blake st bytes (Some k) =
     (let (faults, fired) = checkAndConsumeFault (bs_faults st) FaultBlobStorePut; st' = st\<lparr>bs_faults := faults\<rparr> in
      if fired then (st', Inr BLOB_PUT_FAULT_DIGEST)
      else if k = digestBytes sha bytes \<or> k = blake bytes then (store_bytes st' k bytes, Inr k)
      else (st', Inl (put_mismatch k (digestBytes sha bytes) (blake bytes))))"
  by (auto simp: blob_put_def workerd_put_def put_digest_def Let_def split: prod.split)

section \<open>References\<close>

definition ref_get :: "ref_row list \<Rightarrow> jsstr \<Rightarrow> jsstr option" where
  "ref_get refs name = map_option rf_digest (lookup_pk rf_name name refs)"

lemma cas_update_get:
  "pk_unique rf_name refs \<Longrightarrow> lookup_pk rf_name n (update_where (\<lambda>r. rf_name r = name \<and> rf_digest r = e) (\<lambda>r. r\<lparr>rf_digest := d\<rparr>) refs) =
     map_option (\<lambda>r. if rf_name r = name \<and> rf_digest r = e then r\<lparr>rf_digest := d\<rparr> else r) (lookup_pk rf_name n refs)"
  unfolding update_where_def by (rule lookup_pk_map) simp

lemma cas_matches:
  "pk_unique rf_name refs \<Longrightarrow> (length (filter (\<lambda>r. rf_name r = name \<and> rf_digest r = e) refs) = 1) = (ref_get refs name = Some e)"
proof (induction refs)
  case (Cons r refs)
  have "rf_name r = name \<Longrightarrow> filter (\<lambda>r. rf_name r = name \<and> rf_digest r = e) refs = []"
    using Cons.prems unfolding pk_unique_def filter_empty_conv by (metis distinct.simps(2) imageI list.set_map list.simps(9))
  then show ?case using Cons by (auto simp: ref_get_def pk_unique_def)
qed (simp add: ref_get_def)

text \<open>Every reference is a linearizable register: \<open>cas\<close> succeeds exactly when the reference holds the
  expected digest (or is absent, for \<open>null\<close>), then it holds the new one, and nothing else changes; on
  failure nothing changes at all. A new value that is not a digest is refused.\<close>

theorem cas_is_register:
  assumes "pk_unique rf_name refs"
  shows "case cas refs name expected d of
      (refs', Inl _) \<Rightarrow> \<not> isDigest d \<and> refs' = refs
    | (refs', Inr swapped) \<Rightarrow> isDigest d \<and> (swapped \<longleftrightarrow> ref_get refs name = expected) \<and> pk_unique rf_name refs' \<and>
        (\<forall>n. ref_get refs' n = (if swapped \<and> n = name then Some d else ref_get refs n))"
proof (cases "isDigest d")
  case True
  show ?thesis
  proof (cases expected)
    case None
    have "ref_get refs name = None \<longleftrightarrow> name \<notin> rf_name ` set refs" by (simp add: ref_get_def lookup_pk_None_iff)
    then show ?thesis using True None assms
      by (auto simp: cas_def insert_ignore_def ref_get_def lookup_pk_append pk_unique_def split: option.splits)
  next
    case (Some e)
    let ?p = "\<lambda>r. rf_name r = name \<and> rf_digest r = e"
    have u: "pk_unique rf_name (update_where ?p (\<lambda>r. r\<lparr>rf_digest := d\<rparr>) refs)"
      using assms by (simp add: update_where_def pk_unique_map)
    have g: "ref_get (update_where ?p (\<lambda>r. r\<lparr>rf_digest := d\<rparr>) refs) n =
        (if ref_get refs name = Some e \<and> n = name then Some d else ref_get refs n)" for n
      using cas_update_get [OF assms, of n name e d]
      by (cases "lookup_pk rf_name n refs") (auto simp: ref_get_def dest: lookup_pk_SomeD split: if_splits)
    show ?thesis using True Some u g cas_matches [OF assms, of name e] by (simp add: cas_def)
  qed
qed (simp add: cas_def)


definition sample_digest :: jsstr where
  "sample_digest = replicate 64 48"

theorem cas_is_register_witness:
  "fst (cas [] (js ''main'') None sample_digest) = [\<lparr>rf_name = js ''main'', rf_digest = sample_digest\<rparr>] \<and>
   ref_get (fst (cas [] (js ''main'') None sample_digest)) (js ''main'') = Some sample_digest"
proof -
  have d: "isDigest sample_digest" by (simp add: isDigest_def sample_digest_def list_all_iff)
  have "pk_unique rf_name []" by simp
  from cas_is_register [OF this, where name = "js ''main''" and expected = None and d = sample_digest] show ?thesis
    using d by (simp add: cas_def insert_ignore_def ref_get_def)
qed

lemma ascii_fold_special [simp]: "ascii_fold 37 = 37" "ascii_fold 92 = 92" "ascii_fold 95 = 95"
  by (simp_all add: ascii_fold_def)

definition escape_points :: "nat list \<Rightarrow> nat list" where
  "escape_points ns = concat (map (\<lambda>c. if c = 92 \<or> c = 37 \<or> c = 95 then [92, c] else [c]) ns)"

lemma special_units:
  "unat (c :: jschar) = 92 \<longleftrightarrow> c = 92" "unat (c :: jschar) = 37 \<longleftrightarrow> c = 37" "unat (c :: jschar) = 95 \<longleftrightarrow> c = 95"
  by (simp_all add: word_unat_eq_iff)

lemma code_points_plain: "\<not> is_hi c \<Longrightarrow> \<not> is_lo c \<Longrightarrow> code_points (c # s) = unat c # code_points s"
  by (cases s) auto

lemma code_points_lone:
  "is_hi c \<or> is_lo c \<Longrightarrow> \<not> is_hi c \<or> s = [] \<or> \<not> is_lo (hd s) \<Longrightarrow> code_points (c # s) = 0xFFFD # code_points s"
  by (cases s) (auto simp: is_hi_def is_lo_def)

lemma escape_like_Cons: "escape_like (c # s) = (if c = 92 \<or> c = 37 \<or> c = 95 then [92, c] else [c]) @ escape_like s"
  by (simp add: escape_like_def)

lemma escape_like_hd: "escape_like (d # s) @ r \<noteq> [] \<and> (\<not> is_lo d \<longrightarrow> \<not> is_lo (hd (escape_like (d # s) @ r)))"
  by (simp add: escape_like_Cons is_lo_def)

lemma code_points_escape_like:
  "r \<noteq> [] \<Longrightarrow> \<not> is_lo (hd r) \<Longrightarrow> code_points (escape_like s @ r) = escape_points (code_points s) @ code_points r"
proof (induction s rule: code_points.induct)
  case 1
  then show ?case by (simp add: escape_like_def escape_points_def)
next
  case (2 c)
  show ?case
  proof (cases "is_hi c \<or> is_lo c")
    case True
    then have "escape_like [c] = [c]" by (auto simp: escape_like_def is_hi_def is_lo_def)
    then show ?thesis using 2 True code_points_lone [of c r] by (simp add: escape_points_def)
  next
    case False
    then show ?thesis
      by (auto simp: escape_like_def escape_points_def code_points_plain special_units is_hi_def is_lo_def)
  qed
next
  case (3 c d s)
  consider "is_hi c \<and> is_lo d" | "\<not> (is_hi c \<and> is_lo d)" "is_hi c \<or> is_lo c" | "\<not> is_hi c" "\<not> is_lo c" by blast
  then show ?case
  proof cases
    case 1
    then have "escape_like (c # d # s) = c # d # escape_like s" by (auto simp: escape_like_def is_hi_def is_lo_def)
    moreover have "surrogate_pair c d \<ge> 0x10000" by (simp add: surrogate_pair_def)
    ultimately show ?thesis using 1 3 by (simp add: escape_points_def)
  next
    case 2
    then have "escape_like (c # d # s) = c # escape_like (d # s)" by (auto simp: escape_like_def is_hi_def is_lo_def)
    moreover have "code_points (c # escape_like (d # s) @ r) = 0xFFFD # code_points (escape_like (d # s) @ r)"
      using 2 escape_like_hd [of d s r] by (intro code_points_lone) auto
    ultimately show ?thesis using 2 3 by (auto simp: escape_points_def)
  next
    case n: 3
    then have "code_points (escape_like (c # d # s) @ r) = escape_points [unat c] @ code_points (escape_like (d # s) @ r)"
      by (auto simp: escape_like_Cons [of c] escape_points_def code_points_plain special_units is_hi_def is_lo_def)
    then show ?thesis using n 3 by (auto simp: escape_points_def)
  qed
qed

lemma like_any: "sql_like esc [37] t \<longleftrightarrow> esc \<noteq> Some 37"
  by (induction t) auto

lemma like_escaped:
  "sql_like (Some 92) (escape_points ns @ [37]) t \<longleftrightarrow>
     length ns \<le> length t \<and> map ascii_fold (take (length ns) t) = map ascii_fold ns"
proof (induction ns arbitrary: t)
  case Nil
  then show ?case by (simp add: escape_points_def like_any del: sql_like.simps)
next
  case (Cons n ns)
  have e: "escape_points (n # ns) = (if n = 92 \<or> n = 37 \<or> n = 95 then [92, n] else [n]) @ escape_points ns"
    by (simp add: escape_points_def)
  show ?case using Cons by (cases t) (auto simp: e)
qed

text \<open>\<open>RefStore.list\<close> is documented to return the references whose name starts with the prefix. The
  escape makes \<open>%\<close>, \<open>_\<close> and the backslash literal, but \<open>LIKE\<close> ignores the case of ASCII letters: the
  result is every reference whose name starts with the prefix up to case.\<close>

theorem ref_list_prefix_ignores_case:
  "set (ref_list refs pre) = {(rf_name r, rf_digest r) | r. r \<in> set refs \<and>
     length (code_points pre) \<le> length (code_points (rf_name r)) \<and>
     map ascii_fold (take (length (code_points pre)) (code_points (rf_name r))) = map ascii_fold (code_points pre)}"
proof -
  have "code_points (escape_like pre @ [37]) = escape_points (code_points pre) @ [37]"
    using code_points_escape_like [of "[37]" pre] by (simp add: is_hi_def is_lo_def)
  then show ?thesis
    by (auto simp: ref_list_def order_by_text_def select_where_def like_escaped)
qed

end
