(* ===== verification/Bead_Store.thy ===== *)
theory Bead_Store
  imports Blob_Store
begin

text \<open>
  The per-repository bead database, \<open>BeadStore\<close> of \<open>src/beads.ts\<close>: the tables \<open>beads\<close> and \<open>comments\<close>
  and the JSON-RPC methods over them. Parameters are \<open>datetime('now')\<close> (\<open>now\<close>), the random bytes of a
  generated id, whether the SQLite build enforces foreign keys (\<open>fk\<close>), the text \<open>String(e)\<close> of a caught
  exception (\<open>show\<close>) and \<open>String.prototype.toLowerCase\<close> (\<open>lower\<close>). \<open>Number(v)\<close> is modelled on
  integers: \<open>None\<close> is \<open>NaN\<close>, which SQLite stores as \<open>NULL\<close>.
\<close>

section \<open>Conversions\<close>

text \<open>\<open>Number(v)\<close>: decimal integers with an optional sign around which spaces may stand.\<close>

definition number_of_string :: "jsstr \<Rightarrow> int option" where
  "number_of_string s =
     (let t = js_trim s;
          u = (case t of c # r \<Rightarrow> if c = of_char CHR ''-'' \<or> c = of_char CHR ''+'' then r else t | [] \<Rightarrow> [])
      in if t = [] then Some 0
         else if u \<noteq> [] \<and> list_all dec_digit u then parse_int10 t else None)"

fun js_number :: "json \<Rightarrow> int option" where
  "js_number JNull = Some 0"
| "js_number (JBool b) = Some (if b then 1 else 0)"
| "js_number (JNum n) = Some n"
| "js_number v = number_of_string (js_string v)"

text \<open>\<open>p.name ?? undefined\<close> with \<open>null\<close> and a missing property as \<open>None\<close>.\<close>

definition param :: "json \<Rightarrow> string \<Rightarrow> json option" where
  "param p name = (case get_prop (Some p) (js name) of None \<Rightarrow> None | Some v \<Rightarrow> if v = JNull then None else Some v)"

definition param_string :: "json \<Rightarrow> string \<Rightarrow> jsstr \<Rightarrow> jsstr" where
  "param_string p name dflt = (case param p name of None \<Rightarrow> dflt | Some v \<Rightarrow> js_string v)"

definition nonempty_string_param :: "json \<Rightarrow> string \<Rightarrow> jsstr option" where
  "nonempty_string_param p name = (case param p name of Some (JStr s) \<Rightarrow> if s \<noteq> [] then Some s else None | _ \<Rightarrow> None)"

section \<open>Rows\<close>

record bead_row =
  br_id :: jsstr
  br_title :: jsstr
  br_description :: jsstr
  br_state :: jsstr
  br_priority :: int
  br_labels :: jsstr
  br_created_at :: jsstr
  br_updated_at :: jsstr
  br_created_by :: "jsstr option"
  br_repo :: jsstr
  br_notes :: "jsstr option"
  br_content_hash :: "jsstr option"

record comment_row =
  cm_id :: int
  cm_bead_id :: jsstr
  cm_body :: jsstr
  cm_author :: jsstr
  cm_created_at :: jsstr

record bead_store =
  bd_beads :: "bead_row list"
  bd_comments :: "comment_row list"
  bd_next_comment :: int
  bd_faults :: faults

definition new_bead_store :: "faults \<Rightarrow> bead_store" where
  "new_bead_store faults = \<lparr>bd_beads = [], bd_comments = [], bd_next_comment = 1, bd_faults = faults\<rparr>"

text \<open>The exceptions that reach the \<open>catch\<close> of \<open>dispatch\<close>.\<close>

datatype bead_throw =
  Injected_fault
| Params_missing
| Unique_violation
| Not_null_violation
| Foreign_key_violation
| Labels_not_json

definition rpc_response :: "json option \<Rightarrow> (jsstr \<times> json) list \<Rightarrow> json" where
  "rpc_response rid body = JObj ([(js ''jsonrpc'', JStr (js ''2.0''))] @
     (case rid of None \<Rightarrow> [] | Some v \<Rightarrow> [(js ''id'', v)]) @ body)"

definition okResponse :: "json option \<Rightarrow> json \<Rightarrow> json" where
  "okResponse rid result = rpc_response rid [(js ''result'', result)]"

definition errResponse :: "json option \<Rightarrow> int \<Rightarrow> jsstr \<Rightarrow> json" where
  "errResponse rid code message =
     rpc_response rid [(js ''error'', JObj [(js ''code'', JNum code), (js ''message'', JStr message)])]"

section \<open>Operations\<close>

definition generateId :: "bytes \<Rightarrow> jsstr" where
  "generateId random = to_hex random"

definition opt_string :: "jsstr option \<Rightarrow> json" where
  "opt_string v = (case v of None \<Rightarrow> JNull | Some s \<Rightarrow> JStr s)"

text \<open>\<open>req.params as Record\<close>: reading a property of \<open>undefined\<close> or \<open>null\<close> throws.\<close>

definition with_params ::
    "json option \<Rightarrow> bead_store \<Rightarrow> (json \<Rightarrow> bead_store \<times> (bead_throw + json)) \<Rightarrow> bead_store \<times> (bead_throw + json)" where
  "with_params params st f =
     (case params of None \<Rightarrow> (st, Inl Params_missing) | Some p \<Rightarrow> if p = JNull then (st, Inl Params_missing) else f p)"

definition bead_create :: "jsstr \<Rightarrow> bytes \<Rightarrow> bead_store \<Rightarrow> json option \<Rightarrow> bead_store \<times> (bead_throw + json)" where
  "bead_create now random st params =
     (let (faults, fired) = checkAndConsumeFault (bd_faults st) FaultBeadStoreWrite;
          st = st\<lparr>bd_faults := faults\<rparr>
      in if fired then (st, Inl Injected_fault)
         else with_params params st (\<lambda>p.
           let bid = nullish (nonempty_string_param p ''id'') (generateId random);
               title = param_string p ''title'' [];
               content_hash = nonempty_string_param p ''content_hash''
           in case js_number (nullish (param p ''priority'') (JNum 0)) of
                None \<Rightarrow> (st, Inl Not_null_violation)
              | Some priority \<Rightarrow>
                  (case insert_row br_id
                     \<lparr>br_id = bid, br_title = title, br_description = param_string p ''description'' [],
                      br_state = js ''open'', br_priority = priority,
                      br_labels = json_text (nullish (param p ''labels'') (JArr [])),
                      br_created_at = now, br_updated_at = now,
                      br_created_by = map_option js_string (param p ''created_by''),
                      br_repo = param_string p ''repo'' [], br_notes = None, br_content_hash = content_hash\<rparr> (bd_beads st) of
                     None \<Rightarrow> (st, Inl Unique_violation)
                   | Some t \<Rightarrow> (st\<lparr>bd_beads := t\<rparr>,
                       Inr (JObj [(js ''id'', JStr bid), (js ''title'', JStr title), (js ''state'', JStr (js ''open'')),
                                  (js ''content_hash'', opt_string content_hash)])))))"

definition set_if :: "'v option \<Rightarrow> ('v \<Rightarrow> bead_row \<Rightarrow> bead_row) \<Rightarrow> bead_row \<Rightarrow> bead_row" where
  "set_if v f r = (case v of None \<Rightarrow> r | Some x \<Rightarrow> f x r)"

definition bead_update :: "jsstr \<Rightarrow> bead_store \<Rightarrow> json \<Rightarrow> bead_store \<times> (bead_throw + json)" where
  "bead_update now st p =
     (let bid = param_string p ''id'' [];
          hit = (\<lambda>r. br_id r = bid);
          assign = (\<lambda>r. set_if (param p ''notes'') (\<lambda>v r. r\<lparr>br_notes := Some (js_string v)\<rparr>)
                  (set_if (param p ''labels'') (\<lambda>v r. r\<lparr>br_labels := json_text v\<rparr>)
                  (set_if (param p ''priority'') (\<lambda>v r. r\<lparr>br_priority := nullish (js_number v) 0\<rparr>)
                  (set_if (param p ''state'') (\<lambda>v r. r\<lparr>br_state := js_string v\<rparr>)
                  (set_if (param p ''description'') (\<lambda>v r. r\<lparr>br_description := js_string v\<rparr>)
                  (set_if (param p ''title'') (\<lambda>v r. r\<lparr>br_title := js_string v\<rparr>)
                  (r\<lparr>br_updated_at := now\<rparr>)))))));
          nan = (case param p ''priority'' of None \<Rightarrow> False | Some v \<Rightarrow> js_number v = None)
      in if nan \<and> list_ex hit (bd_beads st) then (st, Inl Not_null_violation)
         else (st\<lparr>bd_beads := update_where hit assign (bd_beads st)\<rparr>, Inr (JObj [(js ''updated'', JBool True)])))"


definition order_by_text_desc :: "('r \<Rightarrow> jsstr) \<Rightarrow> 'r list \<Rightarrow> 'r list" where
  "order_by_text_desc c rows = rev (sort_key (\<lambda>r. utf8_encode (c r)) (rev rows))"

definition opt_field :: "string \<Rightarrow> jsstr option \<Rightarrow> (jsstr \<times> json) list" where
  "opt_field name v = (case v of None \<Rightarrow> [] | Some s \<Rightarrow> [(js name, JStr s)])"

definition row_bead :: "bead_row \<Rightarrow> json option" where
  "row_bead r =
     (case json_parse (br_labels r) of
        None \<Rightarrow> None
      | Some labels \<Rightarrow> Some (JObj (
          [(js ''id'', JStr (br_id r)), (js ''title'', JStr (br_title r)), (js ''description'', JStr (br_description r)),
           (js ''state'', JStr (br_state r)), (js ''priority'', JNum (br_priority r)), (js ''labels'', labels),
           (js ''created_at'', JStr (br_created_at r)), (js ''updated_at'', JStr (br_updated_at r))] @
          opt_field ''created_by'' (br_created_by r) @ [(js ''repo'', JStr (br_repo r))] @
          opt_field ''notes'' (br_notes r) @ opt_field ''content_hash'' (br_content_hash r))))"

fun cursorToBeads :: "bead_row list \<Rightarrow> json list option" where
  "cursorToBeads [] = Some []"
| "cursorToBeads (r # rs) =
     (case row_bead r of None \<Rightarrow> None | Some b \<Rightarrow> map_option ((#) b) (cursorToBeads rs))"

definition beads_result :: "bead_row list \<Rightarrow> bead_throw + json" where
  "beads_result rows =
     (case cursorToBeads rows of None \<Rightarrow> Inl Labels_not_json | Some bs \<Rightarrow> Inr (JObj [(js ''beads'', JArr bs)]))"

definition bead_search :: "(jsstr \<Rightarrow> jsstr) \<Rightarrow> bead_store \<Rightarrow> json \<Rightarrow> bead_store \<times> (bead_throw + json)" where
  "bead_search lower st p =
     (let q = code_points (js ''%'' @ lower (param_string p ''query'' []) @ js ''%'');
          hit = (\<lambda>text. sql_like None q (map ascii_fold (code_points text)))
      in (st, beads_result (limit 50 (order_by_text_desc br_updated_at
                (select_where (\<lambda>r. hit (br_title r) \<or> hit (br_description r)) (bd_beads st))))))"

definition bead_list :: "bead_store \<Rightarrow> json \<Rightarrow> bead_store \<times> (bead_throw + json)" where
  "bead_list st p =
     (let rows = (case map_option js_string (param p ''state'') of
                    Some s \<Rightarrow> select_where (\<lambda>r. br_state r = s) (bd_beads st)
                  | None \<Rightarrow> bd_beads st)
      in (st, beads_result (limit 100 (order_by_text_desc br_updated_at rows))))"

text \<open>\<open>get\<close> answers with an error response of its own when there is no row: \<open>Inr None\<close>.\<close>

definition bead_get :: "bead_store \<Rightarrow> json \<Rightarrow> bead_store \<times> (bead_throw + json option)" where
  "bead_get st p =
     (st, case cursorToBeads (select_where (\<lambda>r. br_id r = param_string p ''id'' []) (bd_beads st)) of
            None \<Rightarrow> Inl Labels_not_json
          | Some [] \<Rightarrow> Inr None
          | Some (b # _) \<Rightarrow> Inr (Some (JObj [(js ''bead'', b)])))"

definition bead_close :: "jsstr \<Rightarrow> bead_store \<Rightarrow> json \<Rightarrow> bead_store \<times> (bead_throw + json)" where
  "bead_close now st p =
     (st\<lparr>bd_beads := update_where (\<lambda>r. br_id r = param_string p ''id'' [])
            (\<lambda>r. r\<lparr>br_state := js ''done'', br_updated_at := now\<rparr>) (bd_beads st)\<rparr>,
      Inr (JObj [(js ''closed'', JBool True)]))"

definition addComment :: "bool \<Rightarrow> jsstr \<Rightarrow> bead_store \<Rightarrow> json \<Rightarrow> bead_store \<times> (bead_throw + json)" where
  "addComment fk now st p =
     (let bid = param_string p ''id'' [] in
      if fk \<and> bid \<notin> br_id ` set (bd_beads st) then (st, Inl Foreign_key_violation)
      else (st\<lparr>bd_comments := bd_comments st @ [\<lparr>cm_id = bd_next_comment st, cm_bead_id = bid,
                 cm_body = param_string p ''body'' [], cm_author = param_string p ''author'' (js ''unknown''), cm_created_at = now\<rparr>],
               bd_next_comment := bd_next_comment st + 1,
               bd_beads := update_where (\<lambda>r. br_id r = bid) (\<lambda>r. r\<lparr>br_updated_at := now\<rparr>) (bd_beads st)\<rparr>,
            Inr (JObj [(js ''commented'', JBool True)])))"

definition answer :: "(bead_throw \<Rightarrow> jsstr) \<Rightarrow> json option \<Rightarrow> bead_store \<times> (bead_throw + json) \<Rightarrow> bead_store \<times> json" where
  "answer show_error rid r = (case r of
     (st, Inl e) \<Rightarrow> (st, errResponse rid (- 32603) (show_error e))
   | (st, Inr v) \<Rightarrow> (st, okResponse rid v))"

definition answer_get :: "(bead_throw \<Rightarrow> jsstr) \<Rightarrow> json option \<Rightarrow> bead_store \<Rightarrow> json option \<Rightarrow> bead_store \<times> json" where
  "answer_get show_error rid st params =
     (case params of
        None \<Rightarrow> answer show_error rid (st, Inl Params_missing)
      | Some p \<Rightarrow>
          if p = JNull then answer show_error rid (st, Inl Params_missing)
          else (case bead_get st p of
            (st', Inl e) \<Rightarrow> answer show_error rid (st', Inl e)
          | (st', Inr None) \<Rightarrow> (st', errResponse rid 404 (js ''bead not found: '' @ param_string p ''id'' []))
          | (st', Inr (Some v)) \<Rightarrow> answer show_error rid (st', Inr v)))"

definition bead_dispatch ::
    "(bead_throw \<Rightarrow> jsstr) \<Rightarrow> (jsstr \<Rightarrow> jsstr) \<Rightarrow> bool \<Rightarrow> jsstr \<Rightarrow> bytes \<Rightarrow> bead_store \<Rightarrow> json \<Rightarrow> bead_store \<times> json" where
  "bead_dispatch show_error lower fk now random st req =
     (let rid = get_prop (Some req) (js ''id'');
          params = get_prop (Some req) (js ''params'');
          run = (\<lambda>f. answer show_error rid (with_params params st f));
          meth = get_prop (Some req) (js ''method'')
      in if meth = Some (JStr (js ''bead_create'')) then answer show_error rid (bead_create now random st params)
         else if meth = Some (JStr (js ''bead_update'')) then run (bead_update now st)
         else if meth = Some (JStr (js ''bead_search'')) then run (bead_search lower st)
         else if meth = Some (JStr (js ''bead_list'')) then run (bead_list st)
         else if meth = Some (JStr (js ''bead_get'')) then
           answer_get show_error rid st params
         else if meth = Some (JStr (js ''bead_close'')) then run (bead_close now st)
         else if meth = Some (JStr (js ''bead_comment'')) then run (addComment fk now st)
         else (st, errResponse rid (- 32601) (js ''unknown method: '' @ (case meth of None \<Rightarrow> js ''undefined'' | Some v \<Rightarrow> js_string v))))"

datatype http_reply =
  Http_405
| Http_json jsstr
| Http_throws

definition bead_fetch ::
    "(bead_throw \<Rightarrow> jsstr) \<Rightarrow> (jsstr \<Rightarrow> jsstr) \<Rightarrow> bool \<Rightarrow> jsstr \<Rightarrow> bytes \<Rightarrow> bead_store \<Rightarrow> jsstr \<Rightarrow> jsstr \<Rightarrow> bead_store \<times> http_reply" where
  "bead_fetch show_error lower fk now random st method_name body =
     (if method_name \<noteq> js ''POST'' then (st, Http_405)
      else case json_parse body of
        None \<Rightarrow> (st, Http_throws)
      | Some req \<Rightarrow>
          if req = JNull then (st, Http_throws)
          else (case bead_dispatch show_error lower fk now random st req of (st', res) \<Rightarrow> (st', Http_json (json_text res))))"

section \<open>Parameters\<close>

lemma param_distinct: "distinct_keys p \<Longrightarrow> param p name = Some w \<Longrightarrow> distinct_keys w"
  by (auto simp: param_def dest: get_prop_distinct split: option.splits if_splits)

section \<open>Invariant\<close>

definition row_ok :: "bead_row \<Rightarrow> bool" where
  "row_ok r = (json_parse (br_labels r) \<noteq> None)"

definition bead_inv :: "bool \<Rightarrow> bead_store \<Rightarrow> bool" where
  "bead_inv fk st = (pk_unique br_id (bd_beads st) \<and> list_all row_ok (bd_beads st) \<and>
     distinct (map cm_id (bd_comments st)) \<and> (\<forall>c \<in> set (bd_comments st). cm_id c < bd_next_comment st) \<and>
     (fk \<longrightarrow> (\<forall>c \<in> set (bd_comments st). cm_bead_id c \<in> br_id ` set (bd_beads st))))"

text \<open>What a row carries for good once it is written.\<close>

definition identity :: "bead_row \<Rightarrow> jsstr \<times> jsstr \<times> jsstr option \<times> jsstr \<times> jsstr option" where
  "identity r = (br_id r, br_created_at r, br_created_by r, br_repo r, br_content_hash r)"

definition keeps :: "bead_store \<Rightarrow> bead_store \<Rightarrow> bool" where
  "keeps st st' = prefix (map identity (bd_beads st)) (map identity (bd_beads st'))"

definition valid_update :: "(bead_row \<Rightarrow> bead_row) \<Rightarrow> bool" where
  "valid_update f = ((\<forall>r. identity (f r) = identity r) \<and> (\<forall>r. row_ok r \<longrightarrow> row_ok (f r)))"

lemma identity_id: "identity a = identity b \<Longrightarrow> br_id a = br_id b"
  by (simp add: identity_def)

lemma valid_update_id: "valid_update f \<Longrightarrow> br_id (f r) = br_id r"
  by (rule identity_id) (simp add: valid_update_def)

lemma update_ids: "(\<And>r. br_id (f r) = br_id r) \<Longrightarrow> map br_id (update_where p f t) = map br_id t"
  by (simp add: update_where_def)

lemma update_inv:
  assumes "valid_update f" "bead_inv fk st"
  shows "bead_inv fk (st\<lparr>bd_beads := update_where p f (bd_beads st)\<rparr>)" "keeps st (st\<lparr>bd_beads := update_where p f (bd_beads st)\<rparr>)"
proof -
  have m: "map br_id (update_where p f (bd_beads st)) = map br_id (bd_beads st)"
    using valid_update_id [OF assms(1)] by (rule update_ids)
  have s: "br_id ` set (update_where p f (bd_beads st)) = br_id ` set (bd_beads st)" using arg_cong [OF m, of set] by simp
  have "list_all row_ok (update_where p f (bd_beads st))"
    using assms by (auto simp: bead_inv_def valid_update_def list_all_iff update_where_def)
  then show "bead_inv fk (st\<lparr>bd_beads := update_where p f (bd_beads st)\<rparr>)"
    using assms(2) m s by (simp add: bead_inv_def pk_unique_def)
  have "map identity (update_where p f t) = map identity t" for t using assms(1) by (simp add: update_where_def valid_update_def)
  then show "keeps st (st\<lparr>bd_beads := update_where p f (bd_beads st)\<rparr>)" by (simp add: keeps_def)
qed

lemma keeps_refl [simp]: "keeps st st"
  by (simp add: keeps_def)

lemma keeps_trans: "keeps a b \<Longrightarrow> keeps b c \<Longrightarrow> keeps a c"
  unfolding keeps_def by (rule prefix_order.trans)


definition good_step :: "bool \<Rightarrow> bead_store \<Rightarrow> bead_store \<Rightarrow> bool" where
  "good_step fk st st' = (bead_inv fk st' \<and> keeps st st')"

lemma fault_inv: "bead_inv fk (st\<lparr>bd_faults := x\<rparr>) = bead_inv fk st" "keeps a (st\<lparr>bd_faults := x\<rparr>) = keeps a st"
  by (simp_all add: bead_inv_def keeps_def)

lemma json_text_ok: "distinct_keys v \<Longrightarrow> json_parse (json_text v) \<noteq> None"
  by (simp add: json_parse_text)

lemma create_good:
  assumes "bead_inv fk st" "\<forall>p. params = Some p \<longrightarrow> distinct_keys p"
  shows "good_step fk st (fst (bead_create now random st params))"
proof -
  obtain x fired where f: "checkAndConsumeFault (bd_faults st) FaultBeadStoreWrite = (x, fired)" by force
  let ?st = "st\<lparr>bd_faults := x\<rparr>"
  have same: "good_step fk st ?st" using assms(1) by (simp add: good_step_def fault_inv)
  have labels: "json_parse (json_text (nullish (param p ''labels'') (JArr []))) \<noteq> None" if "params = Some p" for p
    using assms(2) that json_text_ok [of "JArr []"] json_text_ok param_distinct
    by (cases "param p ''labels''") (auto simp del: json_text.simps)
  have new: "good_step fk st (?st\<lparr>bd_beads := t\<rparr>)"
    if t: "insert_row br_id r (bd_beads st) = Some t" and r: "json_parse (br_labels r) \<noteq> None" for r t
  proof -
    have "t = bd_beads st @ [r]" "br_id r \<notin> br_id ` set (bd_beads st)" using t by (auto simp: insert_row_def split: if_splits)
    then show ?thesis using assms(1) r
      by (auto simp: good_step_def bead_inv_def keeps_def pk_unique_def row_ok_def)
  qed
  show ?thesis
  proof (cases "fired \<or> params = None \<or> params = Some JNull")
    case True
    then show ?thesis using f same unfolding bead_create_def with_params_def Let_def by auto
  next
    case False
    then obtain p where p: "params = Some p" "p \<noteq> JNull" by (cases params) auto
    have "fst (bead_create now random st params) = ?st \<or>
      (\<exists>r t. insert_row br_id r (bd_beads st) = Some t \<and> br_labels r = json_text (nullish (param p ''labels'') (JArr [])) \<and>
        fst (bead_create now random st params) = ?st\<lparr>bd_beads := t\<rparr>)"
      using f False p unfolding bead_create_def with_params_def Let_def
      by (auto split: option.splits intro!: exI simp del: json_text.simps)
    then show ?thesis using same new labels [OF p(1)] by metis
  qed
qed

lemma set_if_keeps:
  "(\<And>x r. identity (f x r) = identity r) \<Longrightarrow> identity (set_if v f r) = identity r"
  "row_ok r \<Longrightarrow> (\<And>x r. v = Some x \<Longrightarrow> row_ok r \<Longrightarrow> row_ok (f x r)) \<Longrightarrow> row_ok (set_if v f r)"
  by (auto simp: set_if_def split: option.split)

lemma identity_simps [simp]:
  "identity (r\<lparr>br_notes := n\<rparr>) = identity r" "identity (r\<lparr>br_priority := i\<rparr>) = identity r" "identity (r\<lparr>br_state := s\<rparr>) = identity r"
  "identity (r\<lparr>br_description := s\<rparr>) = identity r" "identity (r\<lparr>br_title := s\<rparr>) = identity r"
  "identity (r\<lparr>br_updated_at := s\<rparr>) = identity r" "identity (r\<lparr>br_labels := s\<rparr>) = identity r"
  by (simp_all add: identity_def)

lemma valid_fields:
  "valid_update (\<lambda>r. r\<lparr>br_updated_at := u\<rparr>)" "valid_update (\<lambda>r. r\<lparr>br_state := s, br_updated_at := u\<rparr>)"
  by (simp_all add: valid_update_def row_ok_def)

lemma update_good:
  assumes "bead_inv fk st" "distinct_keys p"
  shows "good_step fk st (fst (bead_update now st p))"
proof -
  have l: "param p ''labels'' = Some v \<Longrightarrow> json_parse (json_text v) \<noteq> None" for v
    using assms(2) by (intro json_text_ok) (rule param_distinct)
  have "valid_update (\<lambda>r. set_if (param p ''notes'') (\<lambda>v r. r\<lparr>br_notes := Some (js_string v)\<rparr>)
                  (set_if (param p ''labels'') (\<lambda>v r. r\<lparr>br_labels := json_text v\<rparr>)
                  (set_if (param p ''priority'') (\<lambda>v r. r\<lparr>br_priority := nullish (js_number v) 0\<rparr>)
                  (set_if (param p ''state'') (\<lambda>v r. r\<lparr>br_state := js_string v\<rparr>)
                  (set_if (param p ''description'') (\<lambda>v r. r\<lparr>br_description := js_string v\<rparr>)
                  (set_if (param p ''title'') (\<lambda>v r. r\<lparr>br_title := js_string v\<rparr>)
                  (r\<lparr>br_updated_at := now\<rparr>)))))))"
    unfolding valid_update_def by (intro conjI allI impI set_if_keeps(2)) (simp_all add: set_if_keeps(1) row_ok_def l [simplified])
  then show ?thesis using update_inv [OF _ assms(1)] assms(1) by (simp add: bead_update_def Let_def good_step_def)
qed

lemma close_good: "bead_inv fk st \<Longrightarrow> good_step fk st (fst (bead_close now st p))"
  using update_inv [OF valid_fields(2)] by (simp add: bead_close_def good_step_def)

lemma comment_good: "bead_inv fk st \<Longrightarrow> good_step fk st (fst (addComment fk now st p))"
proof -
  assume i: "bead_inv fk st"
  let ?bid = "param_string p ''id'' []"
  let ?t = "update_where (\<lambda>r. br_id r = ?bid) (\<lambda>r. r\<lparr>br_updated_at := now\<rparr>) (bd_beads st)"
  have u: "bead_inv fk (st\<lparr>bd_beads := ?t\<rparr>)" "keeps st (st\<lparr>bd_beads := ?t\<rparr>)" using update_inv [OF valid_fields(1) i] by blast+
  have m: "map br_id ?t = map br_id (bd_beads st)" by (rule update_ids) simp
  have "br_id ` set ?t = br_id ` set (bd_beads st)" using arg_cong [OF m, of set] by simp
  then show ?thesis using i u
    by (auto simp: addComment_def Let_def good_step_def bead_inv_def keeps_def)
qed


lemma read_state [simp]:
  "fst (bead_search lower st p) = st" "fst (bead_list st p) = st" "fst (bead_get st p) = st"
  by (simp_all add: bead_search_def bead_list_def bead_get_def Let_def)

lemma answer_state [simp]: "fst (answer sh rid x) = fst x"
  by (simp add: answer_def split: prod.split sum.split)

lemma good_refl: "bead_inv fk st \<Longrightarrow> good_step fk st st"
  by (simp add: good_step_def)

lemma with_params_good:
  assumes "bead_inv fk st" "\<And>p. params = Some p \<Longrightarrow> good_step fk st (fst (f p))"
  shows "good_step fk st (fst (with_params params st f))"
  using assms good_refl by (cases params) (auto simp: with_params_def)

lemma bead_get_cases:
  "bead_get st p = (st, Inl Labels_not_json) \<or> bead_get st p = (st, Inr None) \<or> (\<exists>v. bead_get st p = (st, Inr (Some v)))"
  by (simp add: bead_get_def split: option.split list.split)

lemma answer_get_state: "fst (answer_get sh rid st params) = st"
proof -
  have "fst (case bead_get st p of (st', Inl e) \<Rightarrow> answer sh rid (st', Inl e)
      | (st', Inr None) \<Rightarrow> (st', errResponse rid 404 m) | (st', Inr (Some v)) \<Rightarrow> answer sh rid (st', Inr v)) = st" for p m
    using bead_get_cases [of st p] by auto
  then show ?thesis by (simp add: answer_get_def split: option.split)
qed

lemma dispatch_good:
  assumes i: "bead_inv fk st" and d: "distinct_keys req"
  shows "good_step fk st (fst (bead_dispatch sh lower fk now random st req))"
proof -
  let ?ps = "get_prop (Some req) (js ''params'')"
  have p: "?ps = Some p \<Longrightarrow> distinct_keys p" for p using get_prop_distinct [OF d] .
  have c: "good_step fk st (fst (bead_create now random st ?ps))" using p by (intro create_good [OF i]) simp
  have u: "good_step fk st (fst (with_params ?ps st (bead_update now st)))" using p by (intro with_params_good [OF i] update_good [OF i])
  have r: "good_step fk st (fst (with_params ?ps st (bead_search lower st)))" "good_step fk st (fst (with_params ?ps st (bead_list st)))"
    "good_step fk st (fst (with_params ?ps st (bead_close now st)))" "good_step fk st (fst (with_params ?ps st (addComment fk now st)))"
    by (intro with_params_good [OF i]; simp add: good_refl [OF i] close_good [OF i] comment_good [OF i])+
  show ?thesis unfolding bead_dispatch_def Let_def
    using c u r good_refl [OF i] by (simp add: answer_get_state)
qed


section \<open>Requests\<close>

record bead_request =
  rq_now :: jsstr
  rq_random :: bytes
  rq_method :: jsstr
  rq_body :: jsstr

definition bead_serve ::
    "(bead_throw \<Rightarrow> jsstr) \<Rightarrow> (jsstr \<Rightarrow> jsstr) \<Rightarrow> bool \<Rightarrow> bead_store \<Rightarrow> bead_request \<Rightarrow> bead_store" where
  "bead_serve sh lower fk st q = fst (bead_fetch sh lower fk (rq_now q) (rq_random q) st (rq_method q) (rq_body q))"

lemma serve_good: "bead_inv fk st \<Longrightarrow> good_step fk st (bead_serve sh lower fk st q)"
proof -
  assume i: "bead_inv fk st"
  show ?thesis
  proof (cases "json_parse (rq_body q)")
    case (Some req)
    have "fst (case bead_dispatch sh lower fk (rq_now q) (rq_random q) st req of (st', res) \<Rightarrow> (st', Http_json (json_text res))) =
        fst (bead_dispatch sh lower fk (rq_now q) (rq_random q) st req)" by (simp add: case_prod_beta)
    then show ?thesis using dispatch_good [OF i json_parse_distinct [OF Some]] good_refl [OF i] Some
      by (simp add: bead_serve_def bead_fetch_def)
  qed (simp add: bead_serve_def bead_fetch_def good_refl [OF i])
qed

lemma bead_inv_new: "bead_inv fk (new_bead_store faults)"
  by (simp add: bead_inv_def new_bead_store_def)

lemma serves_good: "bead_inv fk st \<Longrightarrow> good_step fk st (foldl (bead_serve sh lower fk) st qs)"
proof (induction qs arbitrary: st)
  case (Cons q qs)
  have s: "good_step fk st (bead_serve sh lower fk st q)" by (rule serve_good [OF Cons.prems])
  then have "good_step fk (bead_serve sh lower fk st q) (foldl (bead_serve sh lower fk) st (q # qs))"
    using Cons.IH by (simp add: good_step_def)
  then show ?case using s keeps_trans unfolding good_step_def by blast
qed (simp add: good_refl)

lemma rows_readable: "list_all row_ok rows \<Longrightarrow> cursorToBeads rows \<noteq> None"
  by (induction rows) (auto simp: row_bead_def row_ok_def)

text \<open>C34: However many requests a bead database serves, with whatever bodies, bead ids and comment ids
  stay unique, comments belong to existing beads where the database enforces it, and every stored row
  can be read back: listing any rows never fails on a malformed label column.\<close>

theorem bead_store_invariant:
  fixes sh lower fk faults qs
  defines "st \<equiv> foldl (bead_serve sh lower fk) (new_bead_store faults) qs"
  shows "bead_inv fk st \<and> (\<forall>rows. set rows \<subseteq> set (bd_beads st) \<longrightarrow> cursorToBeads rows \<noteq> None)"
proof -
  have "bead_inv fk st" using serves_good [OF bead_inv_new] unfolding st_def good_step_def by blast
  moreover from this have "\<forall>r \<in> set (bd_beads st). row_ok r" by (simp add: bead_inv_def list_all_iff)
  ultimately show ?thesis using rows_readable by (metis list_all_iff subset_iff)
qed

definition sample_show :: "bead_throw \<Rightarrow> jsstr" where
  "sample_show e = (case e of Unique_violation \<Rightarrow> js ''Error: UNIQUE constraint failed: beads.id'' | _ \<Rightarrow> js ''Error'')"

theorem bead_store_invariant_witness:
  "bead_inv True (foldl (bead_serve sample_show (\<lambda>s. s) True) (new_bead_store None) []) \<and> cursorToBeads [] \<noteq> None"
  using bead_store_invariant [where sh = sample_show and lower = "\<lambda>s. s" and fk = True and faults = None and qs = "[]"] by simp

text \<open>C35: A bead row is never deleted and never changes its id, creation time, creator, repository or
  content hash: the attested digest a row was created with stays on it whatever requests follow.\<close>

theorem bead_identity_permanent:
  assumes "bead_inv fk st" "r \<in> set (bd_beads st)"
  shows "\<exists>r' \<in> set (bd_beads (foldl (bead_serve sh lower fk) st qs)). identity r' = identity r"
proof -
  have "prefix (map identity (bd_beads st)) (map identity (bd_beads (foldl (bead_serve sh lower fk) st qs)))"
    using serves_good [OF assms(1)] by (simp add: good_step_def keeps_def)
  then have "identity ` set (bd_beads st) \<subseteq> identity ` set (bd_beads (foldl (bead_serve sh lower fk) st qs))"
    by (metis list.set_map set_mono_prefix)
  then have "identity r \<in> identity ` set (bd_beads (foldl (bead_serve sh lower fk) st qs))" using assms(2) by blast
  then show ?thesis by (elim imageE) (intro bexI, rule sym)
qed

definition sample_row :: bead_row where
  "sample_row = \<lparr>br_id = js ''b1'', br_title = js ''t'', br_description = [], br_state = js ''open'', br_priority = 0,
     br_labels = json_text (JArr []), br_created_at = js ''2026-01-01 00:00:00'', br_updated_at = js ''2026-01-01 00:00:00'',
     br_created_by = None, br_repo = js ''r'', br_notes = None, br_content_hash = Some (js ''ab'')\<rparr>"

definition sample_store :: bead_store where
  "sample_store = \<lparr>bd_beads = [sample_row], bd_comments = [], bd_next_comment = 1, bd_faults = None\<rparr>"

lemma sample_store_inv: "bead_inv True sample_store"
  using json_text_ok [of "JArr []"]
  by (simp add: bead_inv_def sample_store_def sample_row_def row_ok_def pk_unique_def del: json_text.simps)

definition rename_request :: bead_request where
  "rename_request = \<lparr>rq_now = js ''2026-01-02 00:00:00'', rq_random = [], rq_method = js ''POST'',
     rq_body = json_text (JObj [(js ''method'', JStr (js ''bead_update'')),
       (js ''params'', JObj [(js ''id'', JStr (js ''b1'')), (js ''title'', JStr (js ''u''))])])\<rparr>"

theorem bead_identity_permanent_witness:
  "\<exists>r' \<in> set (bd_beads (foldl (bead_serve sample_show (\<lambda>s. s) True) sample_store [rename_request])). br_content_hash r' = Some (js ''ab'')"
  using bead_identity_permanent [OF sample_store_inv, of sample_row sample_show "\<lambda>s. s" "[rename_request]"]
  by (auto simp: sample_store_def identity_def sample_row_def)

text \<open>A bead created with a fresh id is read back as it was given: \<open>bead_get\<close> of that id returns the
  title, description, priority and labels of the request, state \<open>open\<close>, the digest, and the time of the
  insert; reading it through the JSON text of its labels loses nothing.\<close>

theorem bead_create_get:
  fixes now random
  assumes "bead_inv fk st" "bd_faults st = None" "distinct_keys p" "p \<noteq> JNull"
    and "param p ''id'' = Some (JStr i)" "i \<noteq> []" "i \<notin> br_id ` set (bd_beads st)"
    and "js_number (nullish (param p ''priority'') (JNum 0)) = Some n"
    and "param_string q ''id'' [] = i"
  defines "res \<equiv> bead_create now random st (Some p)"
  shows "snd res = Inr (JObj [(js ''id'', JStr i), (js ''title'', JStr (param_string p ''title'' [])), (js ''state'', JStr (js ''open'')),
      (js ''content_hash'', opt_string (nonempty_string_param p ''content_hash''))]) \<and>
    snd (bead_get (fst res) q) = Inr (Some (JObj [(js ''bead'', JObj (
      [(js ''id'', JStr i), (js ''title'', JStr (param_string p ''title'' [])), (js ''description'', JStr (param_string p ''description'' [])),
       (js ''state'', JStr (js ''open'')), (js ''priority'', JNum n), (js ''labels'', nullish (param p ''labels'') (JArr [])),
       (js ''created_at'', JStr now), (js ''updated_at'', JStr now)] @
      opt_field ''created_by'' (map_option js_string (param p ''created_by'')) @ [(js ''repo'', JStr (param_string p ''repo'' []))] @
      opt_field ''content_hash'' (nonempty_string_param p ''content_hash'')))]))"
proof -
  have l: "json_parse (json_text (nullish (param p ''labels'') (JArr []))) = Some (nullish (param p ''labels'') (JArr []))"
    using param_distinct [OF assms(3)] by (cases "param p ''labels''") (simp_all add: json_parse_text del: json_text.simps)
  have d: "nonempty_string_param p ''id'' = Some i" using assms(5,6) by (simp add: nonempty_string_param_def)
  have f: "filter (\<lambda>r. br_id r = i) (bd_beads st) = []" using assms(7) by (auto simp: filter_empty_conv)
  show ?thesis unfolding res_def bead_create_def with_params_def Let_def
    using assms(2,4,7,8,9) d f l
    by (simp add: checkAndConsumeFault_def insert_row_def bead_get_def select_where_def row_bead_def opt_field_def [of "''notes''"]
        del: json_text.simps list.map)
qed


theorem bead_create_get_witness:
  "snd (bead_create [] [] sample_store (Some (JObj [(js ''id'', JStr (js ''b2'')), (js ''labels'', JArr [JStr (js ''x'')])]))) =
     Inr (JObj [(js ''id'', JStr (js ''b2'')), (js ''title'', JStr []), (js ''state'', JStr (js ''open'')), (js ''content_hash'', JNull)])"
proof -
  let ?p = "JObj [(js ''id'', JStr (js ''b2'')), (js ''labels'', JArr [JStr (js ''x'')])]"
  have p: "param ?p ''id'' = Some (JStr (js ''b2''))" "param ?p ''title'' = None" "param ?p ''priority'' = None" "param ?p ''content_hash'' = None"
    by (simp_all add: param_def get_prop_def)
  show ?thesis
    using bead_create_get [OF sample_store_inv, of ?p "js ''b2''" 0 "JObj [(js ''id'', JStr (js ''b2''))]" "[]" "[]"]
    by (simp add: p param_string_def nonempty_string_param_def opt_string_def sample_store_def sample_row_def del: list.map)
      (simp add: param_def get_prop_def)
qed

end
