(* ===== verification/Bead_Create.thy ===== *)
theory Bead_Create
  imports Origins Bead_Store Js_Web
begin

text \<open>
  The \<open>bead_create\<close> orchestrator (\<open>src/routes/bead-create-orchestrator.ts\<close>) and the canonical bytes of a
  bead (\<open>src/storage/bead-canonical.ts\<close>): a cluster is the blob store, one bead database per repository
  and the trust store, and a call runs the four hops over them in order. Each hop is a remote call with
  a fate: delivered, lost before the callee ran, or executed with the reply lost; the two losses are
  rejected promises for the caller. The rosary service (\<open>rsry\<close>), the messages of rejected promises and of \<open>SyntaxError\<close> and
  the random bytes are parameters. \<open>beadStoreDoWarned\<close> only guards a log line and is left out.
\<close>

section \<open>The clock\<close>

text \<open>The UTC calendar of \<open>Date\<close>: proleptic Gregorian, day 0 is 1970-01-01; years start on 1 March inside.\<close>

definition utc_date :: "int \<Rightarrow> int \<times> int \<times> int" where
  "utc_date days =
     (let z = days + 719468;
          era = z div 146097;
          doe = z mod 146097;
          yoe = (doe - doe div 1460 + doe div 36524 - doe div 146096) div 365;
          doy = doe - (365 * yoe + yoe div 4 - yoe div 100);
          mp = (5 * doy + 2) div 153;
          d = doy - (153 * mp + 2) div 5 + 1;
          m = (if mp < 10 then mp + 3 else mp - 9)
      in (yoe + era * 400 + (if m \<le> 2 then 1 else 0), m, d))"

definition pad2 :: "int \<Rightarrow> jsstr" where
  "pad2 n = (let s = dec_of_int n in replicate (2 - length s) 48 @ s)"

definition formatSqliteUtcNow :: "int \<Rightarrow> jsstr" where
  "formatSqliteUtcNow nowMs =
     (let secs = nowMs div 1000;
          (y, m, d) = utc_date (secs div 86400)
      in dec_of_int y @ js ''-'' @ pad2 m @ js ''-'' @ pad2 d @ js '' '' @
         pad2 (secs mod 86400 div 3600) @ js '':'' @ pad2 (secs mod 3600 div 60) @ js '':'' @ pad2 (secs mod 60))"

section \<open>Canonical bytes of a bead\<close>

text \<open>\<open>priority\<close> is \<open>None\<close> for \<open>NaN\<close>; labels are whatever JSON values the caller sent.\<close>

record Bead =
  bead_id :: jsstr
  bead_title :: jsstr
  bead_description :: jsstr
  bead_state :: jsstr
  bead_priority :: "int option"
  bead_labels :: "json list"
  bead_created_at :: jsstr
  bead_updated_at :: jsstr
  bead_created_by :: "jsstr option"
  bead_repo :: jsstr
  bead_notes :: "jsstr option"

definition BEAD_CANONICAL_VERSION :: int where
  "BEAD_CANONICAL_VERSION = 1"

definition bead_body :: "Bead \<Rightarrow> int \<Rightarrow> json" where
  "bead_body bead priority = JObj
     [(js ''v'', JNum BEAD_CANONICAL_VERSION), (js ''type'', JStr (js ''bead'')), (js ''id'', JStr (bead_id bead)),
      (js ''title'', JStr (bead_title bead)), (js ''description'', JStr (bead_description bead)),
      (js ''state'', JStr (bead_state bead)), (js ''priority'', JNum priority),
      (js ''labels'', JArr (sort_key js_string (bead_labels bead))), (js ''created_at'', JStr (bead_created_at bead)),
      (js ''updated_at'', JStr (bead_updated_at bead)), (js ''created_by'', opt_string (bead_created_by bead)),
      (js ''repo'', JStr (bead_repo bead)), (js ''notes'', opt_string (bead_notes bead))]"

text \<open>\<open>Inl\<close> is the \<open>TypeError\<close> of \<open>canonical\<close> for a number that is not finite.\<close>

definition beadCanonicalBytesV1 :: "Bead \<Rightarrow> jsstr + bytes" where
  "beadCanonicalBytesV1 bead =
     (case bead_priority bead of
        None \<Rightarrow> Inl (js ''canonical: non-finite number (NaN)'')
      | Some p \<Rightarrow> Inr (canonical (bead_body bead p)))"

definition beadCanonicalDigestV1 :: "(bytes \<Rightarrow> bytes) \<Rightarrow> Bead \<Rightarrow> jsstr + jsstr" where
  "beadCanonicalDigestV1 sha bead = map_sum id (digestBytes sha) (beadCanonicalBytesV1 bead)"

definition generateBeadId :: "bytes \<Rightarrow> jsstr" where
  "generateBeadId random = to_hex random"

definition buildBead :: "json \<Rightarrow> jsstr \<Rightarrow> jsstr \<Rightarrow> int \<Rightarrow> Bead" where
  "buildBead a bid repo nowMs =
     (let ts = formatSqliteUtcNow nowMs in
      \<lparr>bead_id = bid, bead_title = param_string a ''title'' [], bead_description = param_string a ''description'' [],
       bead_state = js ''open'', bead_priority = js_number (nullish (param a ''priority'') (JNum 0)),
       bead_labels = (case param a ''labels'' of Some (JArr vs) \<Rightarrow> vs | _ \<Rightarrow> []),
       bead_created_at = ts, bead_updated_at = ts, bead_created_by = map_option js_string (param a ''created_by''),
       bead_repo = repo, bead_notes = None\<rparr>)"

section \<open>Remote calls\<close>

record rpc_fates =
  fate_blob :: rpc_fate
  fate_bead :: rpc_fate
  fate_head :: rpc_fate
  fate_apply :: rpc_fate
  fate_enqueue :: rpc_fate

datatype fetch_result =
  Fetch_throws jsstr
| Fetch_response bool int jsstr

datatype orch_error =
  Rpc_error "json option" jsstr
| Origins_refused origin_error
| Thrown jsstr

record created_bead =
  cb_id :: jsstr
  cb_title :: jsstr
  cb_state :: json

section \<open>Writing the row\<close>

record bead_env =
  env_backend :: "jsstr option"
  env_bundle :: "(jsstr \<Rightarrow> fetch_result) option"
  env_url :: jsstr
  env_url_fetch :: "jsstr \<Rightarrow> jsstr \<Rightarrow> fetch_result"
  env_syntax :: jsstr

datatype bead_backend = Backend_do | Backend_rsry

definition bedStorageBackend :: "bead_env \<Rightarrow> bead_backend" where
  "bedStorageBackend env =
     (let raw = ascii_lower (js_trim (nullish (env_backend env) [])) in
      if raw = js ''rsry'' then Backend_rsry else Backend_do)"

text \<open>\<open>{ ...a, id, repo, content_hash }\<close>.\<close>

definition row_params :: "(jsstr \<times> json) list \<Rightarrow> jsstr \<Rightarrow> jsstr \<Rightarrow> jsstr \<Rightarrow> (jsstr \<times> json) list" where
  "row_params a bid repo digest =
     set_prop (set_prop (set_prop a (js ''id'') (JStr bid)) (js ''repo'') (JStr repo)) (js ''content_hash'') (JStr digest)"

definition template :: "json option \<Rightarrow> jsstr" where
  "template v = (case v of None \<Rightarrow> js ''undefined'' | Some w \<Rightarrow> js_string w)"

text \<open>\<open>body.error !== undefined\<close>, then its code and message; a \<open>null\<close> error has neither.\<close>

definition rpc_failure :: "jsstr \<Rightarrow> json \<Rightarrow> orch_error option" where
  "rpc_failure what body =
     (case get_prop (Some body) (js ''error'') of
        None \<Rightarrow> None
      | Some e \<Rightarrow>
          if e = JNull then Some (Thrown (js ''TypeError''))
          else Some (Rpc_error (get_prop (Some e) (js ''code'')) (what @ template (get_prop (Some e) (js ''message'')))))"

definition read_created :: "json option \<Rightarrow> created_bead option" where
  "read_created v =
     (case (get_prop v (js ''id''), get_prop v (js ''title''), get_prop v (js ''state'')) of
        (Some (JStr i), Some (JStr t), Some s) \<Rightarrow> Some \<lparr>cb_id = i, cb_title = t, cb_state = s\<rparr>
      | _ \<Rightarrow> None)"

definition inner_request :: "json \<Rightarrow> json" where
  "inner_request params = JObj [(js ''jsonrpc'', JStr (js ''2.0'')), (js ''method'', JStr (js ''bead_create'')),
     (js ''params'', params), (js ''id'', JNum 0)]"

definition createBeadViaBeadStoreDO ::
    "(bead_throw \<Rightarrow> jsstr) \<Rightarrow> (jsstr \<Rightarrow> jsstr) \<Rightarrow> bool \<Rightarrow> jsstr \<Rightarrow> bytes \<Rightarrow> rpc_fate \<Rightarrow> jsstr \<Rightarrow> bead_store \<Rightarrow> json \<Rightarrow>
     bead_store \<times> (orch_error + created_bead)" where
  "createBeadViaBeadStoreDO sh lower fk now random fate lost st params =
     (case rpc fate st (\<lambda>st. bead_fetch sh lower fk now random st (js ''POST'') (json_text (inner_request params))) of
        (st', None) \<Rightarrow> (st', Inl (Thrown lost))
      | (st', Some Http_405) \<Rightarrow> (st', Inl (Thrown (js ''SyntaxError'')))
      | (st', Some Http_throws) \<Rightarrow> (st', Inl (Thrown lost))
      | (st', Some (Http_json text)) \<Rightarrow>
          (st', case json_parse text of
             None \<Rightarrow> Inl (Thrown (js ''SyntaxError''))
           | Some body \<Rightarrow>
               (case rpc_failure (js ''bead_create: BeadStore.bead_create failed: '') body of
                  Some e \<Rightarrow> Inl e
                | None \<Rightarrow>
                    (case read_created (get_prop (Some body) (js ''result'')) of
                       None \<Rightarrow> Inl (Thrown (js ''TypeError''))
                     | Some b \<Rightarrow> Inr b))))"

definition rsry_request :: "json \<Rightarrow> jsstr" where
  "rsry_request params = json_text (JObj [(js ''jsonrpc'', JStr (js ''2.0'')), (js ''id'', JNum 0), (js ''method'', JStr (js ''tools/call'')),
     (js ''params'', JObj [(js ''name'', JStr (js ''rsry_bead_create'')), (js ''arguments'', params)])])"

definition rsry_fetch :: "bead_env \<Rightarrow> jsstr \<Rightarrow> orch_error + (bool \<times> int \<times> jsstr)" where
  "rsry_fetch env body =
     (case (case env_bundle env of
              Some f \<Rightarrow> Some (f body)
            | None \<Rightarrow> if length (env_url env) > 0 then Some (env_url_fetch env (env_url env) body) else None) of
        None \<Rightarrow> Inl (Rpc_error (Some (JNum (- 32603)))
                  (js ''bead_create rsry-mode: neither ROSARY_BUNDLE service binding nor ROSARY_MCP_URL is wired''))
      | Some (Fetch_throws e) \<Rightarrow> Inl (Rpc_error (Some (JNum (- 32603))) (js ''bead_create rsry-mode: rsry unreachable: '' @ e))
      | Some (Fetch_response ok status text) \<Rightarrow> Inr (ok, status, text))"

text \<open>\<open>result?.content?.[0]?.text\<close>.\<close>

definition content_text :: "json option \<Rightarrow> jsstr option" where
  "content_text result =
     (case get_prop result (js ''content'') of
        Some (JArr (block # _)) \<Rightarrow> (case get_prop (Some block) (js ''text'') of Some (JStr t) \<Rightarrow> Some t | _ \<Rightarrow> None)
      | _ \<Rightarrow> None)"

definition createBeadViaRsry :: "bead_env \<Rightarrow> json \<Rightarrow> orch_error + created_bead" where
  "createBeadViaRsry env params =
     (case rsry_fetch env (rsry_request params) of
        Inl e \<Rightarrow> Inl e
      | Inr (ok, status, text) \<Rightarrow>
          if \<not> ok then Inl (Rpc_error (Some (JNum (- 32603)))
                 (js ''bead_create rsry-mode: rsry returned '' @ dec_of_int status @ js '': '' @ take 200 text))
          else (case json_parse text of
             None \<Rightarrow> Inl (Thrown (js ''SyntaxError''))
           | Some body2 \<Rightarrow>
               (case rpc_failure (js ''bead_create: rsry_bead_create failed: '') body2 of
                  Some e \<Rightarrow> Inl e
                | None \<Rightarrow>
                    (case content_text (get_prop (Some body2) (js ''result'')) of
                       None \<Rightarrow> Inl (Rpc_error (Some (JNum (- 32603))) (js ''bead_create rsry-mode: rsry response missing result.content[0].text''))
                     | Some t \<Rightarrow>
                         (case json_parse t of
                            None \<Rightarrow> Inl (Rpc_error (Some (JNum (- 32603))) (js ''bead_create rsry-mode: rsry returned non-JSON tool result: '' @ env_syntax env))
                          | Some parsed \<Rightarrow>
                              (case get_prop (Some parsed) (js ''id'') of
                                 Some (JStr i) \<Rightarrow> Inr
                                   \<lparr>cb_id = i,
                                    cb_title = (case get_prop (Some parsed) (js ''title'') of Some (JStr s) \<Rightarrow> s | _ \<Rightarrow> param_string params ''title'' []),
                                    cb_state = nullish (param parsed ''state'') (JStr (js ''open''))\<rparr>
                               | _ \<Rightarrow> Inl (Rpc_error (Some (JNum (- 32603))) (js ''bead_create rsry-mode: rsry response missing `id` field''))))))))"

section \<open>The orchestrator\<close>

record cluster =
  cl_blob :: blob_store
  cl_beads :: "jsstr \<Rightarrow> bead_store"
  cl_trust :: trust_store

record bead_context =
  cx_peerFp :: jsstr
  cx_scope :: jsstr
  cx_certDer :: bytes
  cx_sig :: bytes

text \<open>What the host supplies to one call: hashes, faults of the remote calls, randomness and clocks.\<close>

record bead_host =
  bh_sha :: "bytes \<Rightarrow> bytes"
  bh_blake :: "bytes \<Rightarrow> jsstr"
  bh_show :: "bead_throw \<Rightarrow> jsstr"
  bh_lower :: "jsstr \<Rightarrow> jsstr"
  bh_fk :: bool
  bh_random :: bytes
  bh_do_random :: bytes
  bh_do_now :: jsstr
  bh_lost :: jsstr
  bh_fates :: rpc_fates
  bh_env :: bead_env

definition att_args :: "bead_context \<Rightarrow> jsstr \<Rightarrow> OriginSet \<Rightarrow> jsstr \<Rightarrow> jsstr option \<Rightarrow> int \<Rightarrow> attestation_args" where
  "att_args cx digest origins bid prevSelfRef nowMs =
     \<lparr>aa_peerFingerprint = cx_peerFp cx, aa_contentHash = digest, aa_contentType = js ''bead/v1'', aa_scope = cx_scope cx,
      aa_cert = cx_certDer cx, aa_sig = cx_sig cx, aa_prevSelfRef = prevSelfRef, aa_prevPeerRef = None, aa_nowMs = nowMs,
      aa_beadId = Some bid, aa_origins = Some (serializeOrigins origins)\<rparr>"

definition apply_rpc :: "attestation_args \<Rightarrow> trust_store \<Rightarrow> trust_store \<times> bool" where
  "apply_rpc args ts =
     (case ts_applyAttestation ts args of
        None \<Rightarrow> (ts, False)
      | Some (ts', AttOk _ _) \<Rightarrow> (ts', True)
      | Some (ts', PrevSelfRefMismatch _ _ _) \<Rightarrow> (ts', False))"

text \<open>Steps 3 and 4: attest, or queue the attestation.\<close>

definition attest_step ::
    "bead_host \<Rightarrow> bead_context \<Rightarrow> int \<Rightarrow> OriginSet \<Rightarrow> jsstr \<Rightarrow> created_bead \<Rightarrow> trust_store \<Rightarrow> trust_store \<times> (orch_error + created_bead \<times> jsstr)" where
  "attest_step h cx nowMs origins digest b ts =
     (case rpc (fate_head (bh_fates h)) ts (\<lambda>ts. (ts, lastAttestationForPeer (ts_attestations ts) (cx_peerFp cx))) of
        (ts, None) \<Rightarrow> (ts, Inl (Thrown (bh_lost h)))
      | (ts, Some head) \<Rightarrow>
          (case rpc (fate_apply (bh_fates h)) ts
                  (apply_rpc (att_args cx digest origins (cb_id b) (map_option pa_content_hash head) nowMs)) of
             (ts, r) \<Rightarrow>
               if nullish r False then (ts, Inr (b, digest))
               else (case rpc (fate_enqueue (bh_fates h)) ts (\<lambda>ts. enqueuePendingAttestation ts
                        \<lparr>pq_peerFp = cx_peerFp cx, pq_contentHash = digest, pq_scope = cx_scope cx, pq_cert = cx_certDer cx,
                         pq_sig = cx_sig cx, pq_nowMs = nowMs\<rparr>) of
                  (ts, Some _) \<Rightarrow> (ts, Inr (b, digest))
                | (ts, None) \<Rightarrow> (ts, Inl (Rpc_error (Some (JNum (- 32603)))
                     (js ''bead_create: TrustStore.applyAttestation failed AND pending enqueue failed for bead '' @ cb_id b @
                      js '' (content_hash='' @ digest @ js ''): '' @ bh_lost h))))))"

definition write_row ::
    "bead_host \<Rightarrow> (jsstr \<Rightarrow> bead_store) \<Rightarrow> jsstr \<Rightarrow> json \<Rightarrow> (jsstr \<Rightarrow> bead_store) \<times> (orch_error + created_bead)" where
  "write_row h beads repo params =
     (case bedStorageBackend (bh_env h) of
        Backend_rsry \<Rightarrow> (beads, createBeadViaRsry (bh_env h) params)
      | Backend_do \<Rightarrow>
          (case createBeadViaBeadStoreDO (bh_show h) (bh_lower h) (bh_fk h) (bh_do_now h) (bh_do_random h)
                  (fate_bead (bh_fates h)) (bh_lost h) (beads repo) params of
             (st, r) \<Rightarrow> (beads(repo := st), r)))"

definition runBeadCreateOrchestrator ::
    "bead_host \<Rightarrow> bead_context \<Rightarrow> int \<Rightarrow> (jsstr \<times> json) list \<Rightarrow> cluster \<Rightarrow> cluster \<times> (orch_error + created_bead \<times> jsstr)" where
  "runBeadCreateOrchestrator h cx nowMs a cl =
     (let repo = param_string (JObj a) ''repo'' [] in
      case buildContentOrigins a (cx_peerFp cx) of
        Inl e \<Rightarrow> (cl, Inl (Origins_refused e))
      | Inr origins \<Rightarrow>
          if repo = [] then (cl, Inl (Rpc_error (Some (JNum (- 32602))) (js ''bead_create: repo is required (key for BeadStore DO instance)'')))
          else
            let bid = generateBeadId (bh_random h) in
            (case beadCanonicalBytesV1 (buildBead (JObj a) bid repo nowMs) of
               Inl e \<Rightarrow> (cl, Inl (Thrown e))
             | Inr canonicalBytes \<Rightarrow>
                 (case rpc (fate_blob (bh_fates h)) (cl_blob cl) (\<lambda>st. blob_put (bh_sha h) (bh_blake h) st canonicalBytes None) of
                    (blob, r) \<Rightarrow>
                      let cl = cl\<lparr>cl_blob := blob\<rparr> in
                      (case r of
                         None \<Rightarrow> (cl, Inl (Rpc_error (Some (JNum (- 32603))) (js ''bead_create: BlobStore.put failed: '' @ bh_lost h)))
                       | Some (Inl e) \<Rightarrow> (cl, Inl (Rpc_error (Some (JNum (- 32603))) (js ''bead_create: BlobStore.put failed: '' @ e)))
                       | Some (Inr digest) \<Rightarrow>
                           if digest = BLOB_PUT_FAULT_DIGEST
                           then (cl, Inl (Rpc_error (Some (JNum (- 32603))) (js ''bead_create: BlobStore.put faulted (test-only sentinel)'')))
                           else
                             (case write_row h (cl_beads cl) repo (JObj (row_params a bid repo digest)) of
                                (beads, Inl e) \<Rightarrow> (cl\<lparr>cl_beads := beads\<rparr>, Inl e)
                              | (beads, Inr b) \<Rightarrow>
                                  (case attest_step h cx nowMs origins digest b (cl_trust cl) of
                                     (ts, r) \<Rightarrow> (cl\<lparr>cl_beads := beads, cl_trust := ts\<rparr>, r)))))))"


section \<open>The row write\<close>

definition created_json :: "jsstr \<Rightarrow> jsstr \<Rightarrow> jsstr option \<Rightarrow> json" where
  "created_json i t h = JObj [(js ''id'', JStr i), (js ''title'', JStr t), (js ''state'', JStr (js ''open'')), (js ''content_hash'', opt_string h)]"

lemma bead_create_ok:
  assumes "bead_create now random st (Some p) = (st', Inr v)"
  shows "\<exists>r. r \<in> set (bd_beads st') \<and> br_content_hash r = nonempty_string_param p ''content_hash'' \<and>
     v = created_json (br_id r) (br_title r) (br_content_hash r) \<and>
     br_id r = nullish (nonempty_string_param p ''id'') (generateId random)"
proof -
  obtain x fired where f: "checkAndConsumeFault (bd_faults st) FaultBeadStoreWrite = (x, fired)" by force
  have n: "\<not> fired" "p \<noteq> JNull" using assms f unfolding bead_create_def with_params_def Let_def by (auto split: if_splits simp del: list.map json_text.simps)
  obtain n where pr: "js_number (nullish (param p ''priority'') (JNum 0)) = Some n"
    using assms f n unfolding bead_create_def with_params_def Let_def by (auto split: option.splits)
  let ?r = "\<lparr>br_id = nullish (nonempty_string_param p ''id'') (generateId random), br_title = param_string p ''title'' [],
      br_description = param_string p ''description'' [], br_state = js ''open'', br_priority = n,
      br_labels = json_text (nullish (param p ''labels'') (JArr [])), br_created_at = now, br_updated_at = now,
      br_created_by = map_option js_string (param p ''created_by''),
      br_repo = param_string p ''repo'' [], br_notes = None, br_content_hash = nonempty_string_param p ''content_hash''\<rparr>"
  obtain t where t: "insert_row br_id ?r (bd_beads st) = Some t" "st' = st\<lparr>bd_faults := x, bd_beads := t\<rparr>"
    "v = created_json (br_id ?r) (br_title ?r) (br_content_hash ?r)"
    using assms f n pr unfolding bead_create_def with_params_def Let_def created_json_def
    by (auto split: option.splits simp del: list.map json_text.simps)
  then have "?r \<in> set (bd_beads st')" by (auto simp: insert_row_def split: if_splits simp del: list.map json_text.simps)
  then show ?thesis using t(3) by (intro exI [of _ ?r]) (simp del: list.map json_text.simps)
qed

lemma inner_request_props:
  "get_prop (Some (inner_request p)) (js ''id'') = Some (JNum 0)" "get_prop (Some (inner_request p)) (js ''params'') = Some p"
  "get_prop (Some (inner_request p)) (js ''method'') = Some (JStr (js ''bead_create''))" "inner_request p \<noteq> JNull"
  by (simp_all add: inner_request_def get_prop_def)

lemma do_delivered:
  assumes "distinct_keys p"
  shows "createBeadViaBeadStoreDO sh lower fk now random Delivered lost st p =
    (case bead_create now random st (Some p) of
       (st', Inl e) \<Rightarrow> (st', Inl (Rpc_error (Some (JNum (- 32603))) (js ''bead_create: BeadStore.bead_create failed: '' @ sh e)))
     | (st', Inr v) \<Rightarrow> (st', case read_created (Some v) of None \<Rightarrow> Inl (Thrown (js ''TypeError'')) | Some b \<Rightarrow> Inr b))"
proof -
  have d: "distinct_keys (inner_request p)" using assms by (simp add: inner_request_def)
  obtain st' res where c: "bead_create now random st (Some p) = (st', res)" by force
  have f: "bead_fetch sh lower fk now random st (js ''POST'') (json_text (inner_request p)) =
      (st', Http_json (json_text (snd (answer sh (Some (JNum 0)) (st', res)))))"
    unfolding bead_fetch_def json_parse_text [OF d]
    by (simp add: bead_dispatch_def Let_def inner_request_props c answer_def split: sum.split del: json_text.simps list.map)
  show ?thesis
  proof (cases res)
    case (Inl e)
    have "distinct_keys (errResponse (Some (JNum 0)) (- 32603) (sh e))" by (simp add: errResponse_def rpc_response_def)
    then show ?thesis using f c Inl
      by (simp add: createBeadViaBeadStoreDO_def rpc_def answer_def json_parse_text del: json_text.simps)
        (simp add: rpc_failure_def errResponse_def rpc_response_def get_prop_def template_def)
  next
    case (Inr v)
    then obtain i t h where v: "v = created_json i t h" using bead_create_ok c by blast
    have "distinct_keys (okResponse (Some (JNum 0)) v)"
      by (simp add: okResponse_def rpc_response_def v created_json_def opt_string_def split: option.split)
    then show ?thesis using f c Inr
      by (simp add: createBeadViaBeadStoreDO_def rpc_def answer_def json_parse_text del: json_text.simps)
        (simp add: rpc_failure_def okResponse_def rpc_response_def get_prop_def)
  qed
qed


lemma map_of_set_prop: "map_of (set_prop ps k v) n = (if n = k then Some v else map_of ps n)"
proof -
  have "map_of (map (\<lambda>(a, b). if a = k then (a, v) else (a, b)) ps) n =
      (if n = k then if k \<in> fst ` set ps then Some v else None else map_of ps n)"
    by (induction ps) (auto split: if_splits)
  then show ?thesis
  proof (cases "k \<in> fst ` set ps")
    case False
    then have "map_of ps k = None" by (simp add: map_of_eq_None_iff)
    then show ?thesis using False by (auto simp: set_prop_def map_add_def split: option.split)
  qed (simp add: set_prop_def)
qed

lemma row_params_fields:
  "param (JObj (row_params a i r d)) ''content_hash'' = Some (JStr d)" "param (JObj (row_params a i r d)) ''id'' = Some (JStr i)"
  by (simp_all add: row_params_def param_def get_prop_def map_of_set_prop)

lemma row_params_distinct: "distinct_keys (JObj a) \<Longrightarrow> distinct_keys (JObj (row_params a i r d))"
  unfolding row_params_def by (intro set_prop_distinct) auto

lemma read_created_json: "read_created (Some (created_json i t h)) = Some \<lparr>cb_id = i, cb_title = t, cb_state = JStr (js ''open'')\<rparr>"
  by (simp add: read_created_def created_json_def get_prop_def)

lemma do_success:
  assumes "createBeadViaBeadStoreDO sh lower fk now random fate lost st (JObj (row_params a i repo d)) = (st', Inr b)"
    and "distinct_keys (JObj a)" "d \<noteq> []"
  shows "fate = Delivered \<and> (\<exists>r \<in> set (bd_beads st'). br_id r = cb_id b \<and> br_content_hash r = Some d)"
proof -
  let ?p = "JObj (row_params a i repo d)"
  have f: "fate = Delivered" using assms(1) by (cases fate) (auto simp: createBeadViaBeadStoreDO_def rpc_def)
  obtain v where v: "bead_create now random st (Some ?p) = (st', Inr v)" "read_created (Some v) = Some b"
    using assms(1) row_params_distinct [OF assms(2)] unfolding f by (auto simp: do_delivered split: prod.splits sum.splits option.splits)
  obtain r where r: "r \<in> set (bd_beads st')" "br_content_hash r = nonempty_string_param ?p ''content_hash''"
    "v = created_json (br_id r) (br_title r) (br_content_hash r)" using bead_create_ok [OF v(1)] by blast
  moreover have "b = \<lparr>cb_id = br_id r, cb_title = br_title r, cb_state = JStr (js ''open'')\<rparr>" using v(2) r(3) by (simp add: read_created_json)
  ultimately show ?thesis using f assms(3) by (auto simp: nonempty_string_param_def row_params_fields)
qed

section \<open>The attestation\<close>

definition attested :: "bead_context \<Rightarrow> OriginSet \<Rightarrow> jsstr \<Rightarrow> jsstr \<Rightarrow> trust_store \<Rightarrow> bool" where
  "attested cx origins digest bid ts = (\<exists>r \<in> set (ts_attestations ts). pa_peer_fingerprint r = cx_peerFp cx \<and> pa_content_hash r = digest \<and>
     pa_bead_id r = Some bid \<and> pa_origins r = Some (serializeOrigins origins) \<and> pa_cert r = cx_certDer cx \<and> pa_sig r = cx_sig cx)"

definition queued :: "bead_context \<Rightarrow> jsstr \<Rightarrow> trust_store \<Rightarrow> bool" where
  "queued cx digest ts = (\<exists>r \<in> set (ts_pending ts). pd_peer_fp r = cx_peerFp cx \<and> pd_content_hash r = digest)"

lemma apply_rpc_attests:
  "apply_rpc (att_args cx digest origins bid prev now) ts = (ts', True) \<Longrightarrow> attested cx origins digest bid ts'"
  unfolding apply_rpc_def ts_applyAttestation_def applyAttestation_def Let_def attested_def
  by (auto simp: att_args_def insert_row_def split: prod.splits if_splits option.splits applyAttestationResult.splits)

lemma insert_ignore_key: "key r \<in> key ` set (fst (insert_ignore key r t))"
  by (simp add: insert_ignore_def)

lemma enqueue_queues:
  "queued cx digest (fst (enqueuePendingAttestation ts \<lparr>pq_peerFp = cx_peerFp cx, pq_contentHash = digest, pq_scope = s, pq_cert = c, pq_sig = g, pq_nowMs = n\<rparr>))"
proof -
  let ?a = "\<lparr>pq_peerFp = cx_peerFp cx, pq_contentHash = digest, pq_scope = s, pq_cert = c, pq_sig = g, pq_nowMs = n\<rparr>"
  have "(cx_peerFp cx, digest) \<in> pd_key ` set (fst (enqueuePending (ts_pending ts) ?a))"
    unfolding enqueue_table using insert_ignore_key [of pd_key] by (metis pd_key_def pendingAttestation.select_convs(1,2) pending_args.select_convs(1,2))
  then obtain r where "r \<in> set (fst (enqueuePending (ts_pending ts) ?a))" "pd_key r = (cx_peerFp cx, digest)" by (elim imageE) simp
  moreover have "ts_pending (fst (enqueuePendingAttestation ts ?a)) = fst (enqueuePending (ts_pending ts) ?a)"
    by (simp add: enqueuePendingAttestation_def case_prod_beta)
  ultimately show ?thesis unfolding queued_def by (metis pd_key_iff)
qed

lemma attest_step_ok:
  assumes "attest_step h cx now origins digest b ts = (ts', Inr x)"
  shows "x = (b, digest) \<and> fate_head (bh_fates h) = Delivered \<and> (attested cx origins digest (cb_id b) ts' \<or> queued cx digest ts')"
proof -
  have fd: "fate_head (bh_fates h) = Delivered" using assms by (cases "fate_head (bh_fates h)") (auto simp: attest_step_def rpc_def)
  let ?args = "att_args cx digest origins (cb_id b) (map_option pa_content_hash (lastAttestationForPeer (ts_attestations ts) (cx_peerFp cx))) now"
  obtain ts1 r where a: "rpc (fate_apply (bh_fates h)) ts (apply_rpc ?args) = (ts1, r)" by force
  show ?thesis
  proof (cases "r = Some True")
    case True
    then have "apply_rpc ?args ts = (ts1, True)" using a by (intro rpc_Some) simp
    then have "attested cx origins digest (cb_id b) ts1" by (rule apply_rpc_attests)
    then show ?thesis using assms fd a True by (auto simp: attest_step_def rpc_def [of Delivered])
  next
    case False
    then have "nullish r False = False" by (cases r) auto
    then obtain y where "rpc (fate_enqueue (bh_fates h)) ts1 (\<lambda>ts. enqueuePendingAttestation ts
        \<lparr>pq_peerFp = cx_peerFp cx, pq_contentHash = digest, pq_scope = cx_scope cx, pq_cert = cx_certDer cx, pq_sig = cx_sig cx, pq_nowMs = now\<rparr>) = (ts', Some y)"
      "x = (b, digest)" using assms fd a by (auto simp: attest_step_def rpc_def [of Delivered] split: prod.splits option.splits)
    then show ?thesis using fd enqueue_queues [of cx digest ts1] by (auto dest!: rpc_Some) (metis fst_conv)
  qed
qed

lemma attest_step_state:
  assumes "attest_step h cx now origins digest b ts = (ts', Inl e)"
  shows "fate_head (bh_fates h) \<noteq> Delivered \<and> ts' = ts \<or> fate_enqueue (bh_fates h) \<noteq> Delivered"
proof (cases "fate_head (bh_fates h) = Delivered")
  case True
  then have "fate_enqueue (bh_fates h) \<noteq> Delivered"
    using assms by (auto simp: attest_step_def rpc_def [of Delivered] split: prod.splits option.splits if_splits)
  then show ?thesis by blast
next
  case False
  then show ?thesis using assms by (cases "fate_head (bh_fates h)") (auto simp: attest_step_def rpc_def split: prod.splits option.splits)
qed


section \<open>The whole call\<close>

lemma orch_cases:
  assumes "runBeadCreateOrchestrator h cx now a cl = (cl', res)"
  obtains (early) e where "res = Inl e" "cl_trust cl' = cl_trust cl" "cl_beads cl' = cl_beads cl"
  | (row) origins bytes digest blob beads e where
      "rpc (fate_blob (bh_fates h)) (cl_blob cl) (\<lambda>st. blob_put (bh_sha h) (bh_blake h) st bytes None) = (blob, Some (Inr digest))"
      "write_row h (cl_beads cl) (param_string (JObj a) ''repo'' [])
         (JObj (row_params a (generateBeadId (bh_random h)) (param_string (JObj a) ''repo'' []) digest)) = (beads, Inl e)"
      "res = Inl e" "cl' = cl\<lparr>cl_blob := blob, cl_beads := beads\<rparr>"
  | (attest) origins bytes digest blob beads b ts where
      "buildContentOrigins a (cx_peerFp cx) = Inr origins"
      "beadCanonicalBytesV1 (buildBead (JObj a) (generateBeadId (bh_random h)) (param_string (JObj a) ''repo'' []) now) = Inr bytes"
      "rpc (fate_blob (bh_fates h)) (cl_blob cl) (\<lambda>st. blob_put (bh_sha h) (bh_blake h) st bytes None) = (blob, Some (Inr digest))"
      "digest \<noteq> BLOB_PUT_FAULT_DIGEST"
      "write_row h (cl_beads cl) (param_string (JObj a) ''repo'' [])
         (JObj (row_params a (generateBeadId (bh_random h)) (param_string (JObj a) ''repo'' []) digest)) = (beads, Inr b)"
      "attest_step h cx now origins digest b (cl_trust cl) = (ts, res)"
      "cl' = cl\<lparr>cl_blob := blob, cl_beads := beads, cl_trust := ts\<rparr>"
proof -
  let ?repo = "param_string (JObj a) ''repo'' []" and ?bid = "generateBeadId (bh_random h)"
  note d = runBeadCreateOrchestrator_def Let_def
  show ?thesis
  proof (cases "buildContentOrigins a (cx_peerFp cx)")
    case (Inl e)
    then show ?thesis using assms early by (auto simp: d)
  next
    case o: (Inr origins)
    show ?thesis
    proof (cases "?repo = []")
      case True
      then show ?thesis using assms early o by (auto simp: d)
    next
      case False
      note d = d o False
      show ?thesis
      proof (cases "beadCanonicalBytesV1 (buildBead (JObj a) ?bid ?repo now)")
        case (Inl e)
        then show ?thesis using assms early False by (auto simp: d)
      next
        case by1: (Inr bytes)
        obtain blob r where b: "rpc (fate_blob (bh_fates h)) (cl_blob cl) (\<lambda>st. blob_put (bh_sha h) (bh_blake h) st bytes None) = (blob, r)" by force
        show ?thesis
        proof (cases "\<exists>digest. r = Some (Inr digest) \<and> digest \<noteq> BLOB_PUT_FAULT_DIGEST")
          case False
          then show ?thesis using assms early \<open>?repo \<noteq> []\<close>
            by (auto simp: d by1 b split: option.splits sum.splits if_splits)
        next
          case True
          then obtain digest where r: "r = Some (Inr digest)" "digest \<noteq> BLOB_PUT_FAULT_DIGEST" by blast
          obtain beads w where w: "write_row h (cl_beads cl) ?repo (JObj (row_params a ?bid ?repo digest)) = (beads, w)" by force
          show ?thesis
          proof (cases w)
            case (Inl e)
            then show ?thesis using assms \<open>?repo \<noteq> []\<close> r w b
              by (intro row [of bytes blob digest beads e]) (simp_all add: d by1)
          next
            case (Inr b')
            obtain ts res' where "attest_step h cx now origins digest b' (cl_trust cl) = (ts, res')" by force
            then show ?thesis using assms \<open>?repo \<noteq> []\<close> r w b Inr o by1
              by (intro attest [of origins bytes blob digest beads b' ts]) (simp_all add: d)
          qed
        qed
      qed
    qed
  qed
qed


lemma fold_add_keys: "ck_key ` set rs \<union> ck_key ` set t \<subseteq> ck_key ` set (fold add_row rs t)"
proof (induction rs arbitrary: t)
  case (Cons r rs)
  have "insert (ck_key r) (ck_key ` set t) \<subseteq> ck_key ` set (add_row r t)"
    by (auto simp: add_row_def insert_ignore_def)
  moreover have "ck_key ` set rs \<union> ck_key ` set (add_row r t) \<subseteq> ck_key ` set (fold add_row rs (add_row r t))" by (rule Cons)
  ultimately show ?case by simp (meson subset_trans subsetD)
qed simp

lemma store_has: "workerd_has (store_bytes st d b) d"
proof (cases "length b \<le> BLOB_CHUNK_SIZE")
  case True
  then have "d \<in> bl_digest ` set (bs_blobs (store_bytes st d b))"
    using insert_ignore_key [of bl_digest "\<lparr>bl_digest = d, bl_bytes = b\<rparr>"] by (simp add: store_bytes_def)
  then have "filter (\<lambda>r. bl_digest r = d) (bs_blobs (store_bytes st d b)) \<noteq> []" by (auto simp: filter_empty_conv)
  then show ?thesis by (simp add: workerd_has_def select_where_def limit_def)
next
  case False
  then have "chunk_rows d b 0 0 \<noteq> []" by (intro chunk_rows_nonempty) auto
  then obtain r where r: "r \<in> set (chunk_rows d b 0 0)" by (cases "chunk_rows d b 0 0") auto
  then have "ck_key r \<in> ck_key ` set (bs_chunks (store_bytes st d b))"
    using False fold_add_keys [of "chunk_rows d b 0 0" "bs_chunks st"] by (auto simp: store_bytes_def put_chunks_fold)
  moreover have "ck_digest r = d" using r chunk_rows_shape [of d b 0 0] by blast
  ultimately have "filter (\<lambda>r. ck_digest r = d) (bs_chunks (store_bytes st d b)) \<noteq> []" by (auto simp: filter_empty_conv ck_key_def)
  then show ?thesis by (simp add: workerd_has_def select_where_def limit_def)
qed

lemma blob_put_has:
  "blob_put sha blake st b None = (st', Inr d) \<Longrightarrow> d \<noteq> BLOB_PUT_FAULT_DIGEST \<Longrightarrow> d = digestBytes sha b \<and> workerd_has st' d"
  using store_has by (auto simp: blob_put_def workerd_put_def put_digest_def Let_def split: prod.splits if_splits)

lemma digest_length: "length (sha b) = 32 \<Longrightarrow> length (digestBytes sha b) = 64"
  by (simp add: digestBytes_def)

text \<open>C25: When \<open>bead_create\<close> reports success the write is audited, whatever remote calls were lost on the
  way: the canonical bytes of the bead are in the blob store under the reported digest, the bead row with
  that digest is committed in the repository's database (on the default backend), and the trust store
  holds the peer's attestation of it, with the declared origins, or a queued one.\<close>

theorem bead_create_audited:
  assumes "runBeadCreateOrchestrator h cx now a cl = (cl', Inr (b, digest))"
    and "distinct_keys (JObj a)" and "\<And>x. length (bh_sha h x) = 32"
  shows "\<exists>origins bytes. buildContentOrigins a (cx_peerFp cx) = Inr origins \<and>
     beadCanonicalBytesV1 (buildBead (JObj a) (generateBeadId (bh_random h)) (param_string (JObj a) ''repo'' []) now) = Inr bytes \<and>
     digest = digestBytes (bh_sha h) bytes \<and> workerd_has (cl_blob cl') digest \<and>
     (attested cx origins digest (cb_id b) (cl_trust cl') \<or> queued cx digest (cl_trust cl')) \<and>
     (bedStorageBackend (bh_env h) = Backend_do \<longrightarrow>
        (\<exists>r \<in> set (bd_beads (cl_beads cl' (param_string (JObj a) ''repo'' []))). br_id r = cb_id b \<and> br_content_hash r = Some digest))"
  using assms(1)
proof (cases rule: orch_cases)
  case (attest origins bytes digest' blob beads b' ts)
  have x: "b' = b" "digest' = digest" "attested cx origins digest (cb_id b) ts \<or> queued cx digest ts"
    using attest_step_ok [OF attest(6)] by auto
  have p: "digest = digestBytes (bh_sha h) bytes" "workerd_has blob digest"
    using blob_put_has [OF rpc_Some [OF attest(3)]] attest(4) x(2) by auto
  then have "digest \<noteq> []" using digest_length [of "bh_sha h" bytes] assms(3) by auto
  then have "bedStorageBackend (bh_env h) = Backend_do \<Longrightarrow>
      \<exists>r \<in> set (bd_beads (beads (param_string (JObj a) ''repo'' []))). br_id r = cb_id b \<and> br_content_hash r = Some digest"
    using attest(5) do_success [OF _ assms(2)] x(1,2) by (auto simp: write_row_def split: prod.splits)
  then show ?thesis using attest x p by auto
qed auto

text \<open>A failing call leaves the trust store as it was: an error can only follow a change there if the
  queueing call itself was lost, and with that call delivered any error means that nothing was attested
  or queued for it. In particular a refused origin list, a missing repository, a failed blob put and a
  refused row never reach the trust store.\<close>

theorem bead_create_error_short_circuits:
  assumes "runBeadCreateOrchestrator h cx now a cl = (cl', Inl e)" "fate_enqueue (bh_fates h) = Delivered"
  shows "cl_trust cl' = cl_trust cl"
  using assms(1)
proof (cases rule: orch_cases)
  case (attest origins bytes digest blob beads b ts)
  then show ?thesis using attest_step_state [OF attest(6)] assms(2) by simp
qed auto


section \<open>Calls that go through\<close>

text \<open>The caller's request is acceptable and the first two hops are delivered to healthy stores.\<close>

definition ready :: "bead_host \<Rightarrow> bead_context \<Rightarrow> (jsstr \<times> json) list \<Rightarrow> cluster \<Rightarrow> bool" where
  "ready h cx a cl =
     ((\<exists>origins. buildContentOrigins a (cx_peerFp cx) = Inr origins) \<and> distinct_keys (JObj a) \<and> param_string (JObj a) ''repo'' [] \<noteq> [] \<and>
      js_number (nullish (param (JObj a) ''priority'') (JNum 0)) \<noteq> None \<and> bh_random h \<noteq> [] \<and>
      generateBeadId (bh_random h) \<notin> br_id ` set (bd_beads (cl_beads cl (param_string (JObj a) ''repo'' []))) \<and>
      bs_faults (cl_blob cl) = None \<and> bd_faults (cl_beads cl (param_string (JObj a) ''repo'' [])) = None \<and>
      bedStorageBackend (bh_env h) = Backend_do \<and> fate_blob (bh_fates h) = Delivered \<and> fate_bead (bh_fates h) = Delivered)"

lemma row_params_other:
  "js name \<notin> {js ''id'', js ''repo'', js ''content_hash''} \<Longrightarrow> param (JObj (row_params a i r d)) name = param (JObj a) name"
  by (simp add: row_params_def param_def get_prop_def map_of_set_prop)

lemma to_hex_Nil_iff: "to_hex bs = [] \<longleftrightarrow> bs = []"
  by (cases bs) simp_all

lemma create_fresh:
  assumes "bd_faults st = None" "p \<noteq> JNull" "nonempty_string_param p ''id'' = Some i" "i \<notin> br_id ` set (bd_beads st)"
    "js_number (nullish (param p ''priority'') (JNum 0)) \<noteq> None"
  shows "\<exists>st' v. bead_create now random st (Some p) = (st', Inr v)"
  using assms unfolding bead_create_def with_params_def Let_def
  by (auto simp: checkAndConsumeFault_def insert_row_def simp del: list.map json_text.simps)

lemma row_written:
  assumes "ready h cx a cl" "d \<noteq> []"
  shows "\<exists>beads b. write_row h (cl_beads cl) (param_string (JObj a) ''repo'' [])
    (JObj (row_params a (generateBeadId (bh_random h)) (param_string (JObj a) ''repo'' []) d)) = (beads, Inr b)"
proof -
  let ?repo = "param_string (JObj a) ''repo'' []" and ?i = "generateBeadId (bh_random h)"
  let ?p = "JObj (row_params a ?i ?repo d)"
  have i: "nonempty_string_param ?p ''id'' = Some ?i"
    using assms(1) by (simp add: nonempty_string_param_def row_params_fields ready_def generateBeadId_def to_hex_Nil_iff)
  have q: "param ?p ''priority'' = param (JObj a) ''priority''" by (rule row_params_other) simp
  have "\<exists>st' v. bead_create (bh_do_now h) (bh_do_random h) (cl_beads cl ?repo) (Some ?p) = (st', Inr v)"
    using assms(1) by (intro create_fresh [OF _ _ i]) (simp_all add: ready_def q)
  then obtain st' v where c: "bead_create (bh_do_now h) (bh_do_random h) (cl_beads cl ?repo) (Some ?p) = (st', Inr v)" by blast
  obtain r :: bead_row where "v = created_json (br_id r) (br_title r) (br_content_hash r)" using bead_create_ok [OF c] by blast
  then show ?thesis using c assms(1) row_params_distinct [of a ?i ?repo d]
    by (simp add: write_row_def ready_def do_delivered read_created_json)
qed

lemma ready_runs:
  assumes "ready h cx a cl" "\<And>x. length (bh_sha h x) = 32"
  obtains origins digest blob beads b where "buildContentOrigins a (cx_peerFp cx) = Inr origins"
    "write_row h (cl_beads cl) (param_string (JObj a) ''repo'' [])
      (JObj (row_params a (generateBeadId (bh_random h)) (param_string (JObj a) ''repo'' []) digest)) = (beads, Inr b)"
    "runBeadCreateOrchestrator h cx now a cl =
      (case attest_step h cx now origins digest b (cl_trust cl) of (ts, r) \<Rightarrow> (cl\<lparr>cl_blob := blob, cl_beads := beads, cl_trust := ts\<rparr>, r))"
    "length digest = 64"
proof -
  let ?repo = "param_string (JObj a) ''repo'' []" and ?i = "generateBeadId (bh_random h)"
  obtain origins where o: "buildContentOrigins a (cx_peerFp cx) = Inr origins" using assms(1) by (auto simp: ready_def)
  obtain bytes where y: "beadCanonicalBytesV1 (buildBead (JObj a) ?i ?repo now) = Inr bytes"
    using assms(1) by (auto simp: ready_def beadCanonicalBytesV1_def buildBead_def Let_def)
  define d where "d = digestBytes (bh_sha h) bytes"
  have l: "length d = 64" unfolding d_def by (rule digest_length) (rule assms(2))
  have p: "rpc (fate_blob (bh_fates h)) (cl_blob cl) (\<lambda>st. blob_put (bh_sha h) (bh_blake h) st bytes None) = (store_bytes (cl_blob cl) d bytes, Some (Inr d))"
    using assms(1) by (simp add: ready_def rpc_def blob_put_live workerd_put_def put_digest_def d_def)
  have f: "d \<noteq> BLOB_PUT_FAULT_DIGEST" using l by (auto simp: BLOB_PUT_FAULT_DIGEST_def)
  have n: "d \<noteq> []" using l by auto
  obtain beads b where w: "write_row h (cl_beads cl) ?repo (JObj (row_params a ?i ?repo d)) = (beads, Inr b)"
    using row_written [OF assms(1) n] by blast
  have "?repo \<noteq> []" using assms(1) by (simp add: ready_def)
  then have "runBeadCreateOrchestrator h cx now a cl =
      (case attest_step h cx now origins d b (cl_trust cl) of (ts, r) \<Rightarrow> (cl\<lparr>cl_blob := store_bytes (cl_blob cl) d bytes, cl_beads := beads, cl_trust := ts\<rparr>, r))"
    using o y p f w by (simp add: runBeadCreateOrchestrator_def Let_def)
  then show ?thesis using that o w l by blast
qed

lemma ready_succeeds:
  assumes "ready h cx a cl" "\<And>x. length (bh_sha h x) = 32"
    and "fate_head (bh_fates h) = Delivered" "fate_enqueue (bh_fates h) = Delivered"
  shows "\<exists>b digest. snd (runBeadCreateOrchestrator h cx now a cl) = Inr (b, digest)"
proof (rule ready_runs [OF assms(1,2), of now])
  fix origins digest blob beads b
  assume r: "runBeadCreateOrchestrator h cx now a cl =
      (case attest_step h cx now origins digest b (cl_trust cl) of (ts, r) \<Rightarrow> (cl\<lparr>cl_blob := blob, cl_beads := beads, cl_trust := ts\<rparr>, r))"
  obtain ts x where x: "attest_step h cx now origins digest b (cl_trust cl) = (ts, x)" by force
  show ?thesis
  proof (cases x)
    case (Inl e)
    then show ?thesis using attest_step_state [of h cx now origins digest b "cl_trust cl" ts e] assms(3,4) x by simp
  next
    case (Inr y)
    then show ?thesis using attest_step_ok [of h cx now origins digest b "cl_trust cl" ts y] x r by simp
  qed
qed

text \<open>An acceptable request on healthy stores succeeds even if the attestation call fails in any way,
  as long as the chain head can be read and the retry can be queued: the caller is never refused because
  of the trust store alone.\<close>

theorem bead_create_survives_attestation_failure:
  assumes "ready h cx a cl" "\<And>x. length (bh_sha h x) = 32"
    and "fate_head (bh_fates h) = Delivered" "fate_enqueue (bh_fates h) = Delivered"
  shows "\<exists>b digest. snd (runBeadCreateOrchestrator h cx now a cl) = Inr (b, digest)"
  using ready_succeeds [OF assms] .

text \<open>The read of the chain head is not covered by the retry: if it fails, the call fails although the
  bead row is already committed, and the trust store has neither an attestation nor a queued one. The
  comments say that a trust store failure never fails the call.\<close>

theorem bead_create_head_read_unaudited:
  assumes "ready h cx a cl" "\<And>x. length (bh_sha h x) = 32" "fate_head (bh_fates h) \<noteq> Delivered"
  shows "\<exists>cl' r. runBeadCreateOrchestrator h cx now a cl = (cl', Inl (Thrown (bh_lost h))) \<and>
     cl_trust cl' = cl_trust cl \<and> r \<in> set (bd_beads (cl_beads cl' (param_string (JObj a) ''repo'' []))) \<and> br_content_hash r \<noteq> None"
proof (rule ready_runs [OF assms(1,2), of now])
  fix origins digest blob beads b
  assume r: "runBeadCreateOrchestrator h cx now a cl =
      (case attest_step h cx now origins digest b (cl_trust cl) of (ts, r) \<Rightarrow> (cl\<lparr>cl_blob := blob, cl_beads := beads, cl_trust := ts\<rparr>, r))"
    and w: "write_row h (cl_beads cl) (param_string (JObj a) ''repo'' [])
      (JObj (row_params a (generateBeadId (bh_random h)) (param_string (JObj a) ''repo'' []) digest)) = (beads, Inr b)"
    and l: "length digest = 64"
  have s: "attest_step h cx now origins digest b (cl_trust cl) = (cl_trust cl, Inl (Thrown (bh_lost h)))"
    using assms(3) by (cases "fate_head (bh_fates h)") (auto simp: attest_step_def rpc_def)
  have d: "distinct_keys (JObj a)" "bedStorageBackend (bh_env h) = Backend_do" using assms(1) by (simp_all add: ready_def)
  have "\<exists>r \<in> set (bd_beads (beads (param_string (JObj a) ''repo'' []))). br_content_hash r = Some digest"
    using w d(2) do_success [OF _ d(1)] l by (fastforce simp: write_row_def split: prod.splits)
  then show ?thesis using r s by auto
qed


section \<open>A sample call\<close>

definition all_delivered :: rpc_fates where
  "all_delivered = \<lparr>fate_blob = Delivered, fate_bead = Delivered, fate_head = Delivered, fate_apply = Delivered, fate_enqueue = Delivered\<rparr>"

definition sample_bead_host :: "rpc_fates \<Rightarrow> bead_host" where
  "sample_bead_host fates = \<lparr>bh_sha = (\<lambda>_. replicate 32 7), bh_blake = (\<lambda>_. []), bh_show = sample_show, bh_lower = (\<lambda>s. s), bh_fk = True,
     bh_random = [1, 2, 3, 4], bh_do_random = [], bh_do_now = js ''2026-01-01 00:00:00'', bh_lost = js ''Network connection lost.'',
     bh_fates = fates,
     bh_env = \<lparr>env_backend = None, env_bundle = None, env_url = [], env_url_fetch = (\<lambda>_ _. Fetch_throws []), env_syntax = []\<rparr>\<rparr>"

definition sample_cx :: bead_context where
  "sample_cx = \<lparr>cx_peerFp = js ''p1'', cx_scope = js ''bead:*'', cx_certDer = [1], cx_sig = [2]\<rparr>"

definition sample_cluster :: cluster where
  "sample_cluster = \<lparr>cl_blob = new_blob_store None, cl_beads = (\<lambda>_. new_bead_store None), cl_trust = new_trust_store None 0\<rparr>"

definition sample_args :: "(jsstr \<times> json) list" where
  "sample_args = [(js ''repo'', JStr (js ''r'')), (js ''title'', JStr (js ''t''))]"

lemma sample_host_simps [simp]:
  "bh_fates (sample_bead_host f) = f" "bh_sha (sample_bead_host f) = (\<lambda>_. replicate 32 7)" "bh_lost (sample_bead_host f) = js ''Network connection lost.''"
  "bh_random (sample_bead_host f) = [1, 2, 3, 4]"
  "bedStorageBackend (bh_env (sample_bead_host f)) = Backend_do"
  by (simp_all add: sample_bead_host_def bedStorageBackend_def js_trim_def ascii_lower_def)

lemma sample_ready: "fate_blob f = Delivered \<Longrightarrow> fate_bead f = Delivered \<Longrightarrow> ready (sample_bead_host f) sample_cx sample_args sample_cluster"
  by (simp add: ready_def buildContentOrigins_def sample_args_def param_string_def param_def get_prop_def sample_cluster_def
      new_blob_store_def new_bead_store_def MAX_DECLARED_ORIGINS_def)

theorem bead_create_survives_attestation_failure_witness:
  "\<exists>b digest. snd (runBeadCreateOrchestrator (sample_bead_host (all_delivered\<lparr>fate_apply := Reply_lost\<rparr>)) sample_cx 0 sample_args sample_cluster) = Inr (b, digest)"
  by (rule bead_create_survives_attestation_failure [OF sample_ready]) (simp_all add: all_delivered_def)

theorem bead_create_head_read_unaudited_witness:
  "\<exists>cl' r. runBeadCreateOrchestrator (sample_bead_host (all_delivered\<lparr>fate_head := Request_lost\<rparr>)) sample_cx 0 sample_args sample_cluster =
       (cl', Inl (Thrown (js ''Network connection lost.''))) \<and>
     cl_trust cl' = cl_trust sample_cluster \<and> r \<in> set (bd_beads (cl_beads cl' (js ''r''))) \<and> br_content_hash r \<noteq> None"
proof -
  have r: "param_string (JObj sample_args) ''repo'' [] = js ''r''" by (simp add: sample_args_def param_string_def param_def get_prop_def)
  have q: "ready (sample_bead_host (all_delivered\<lparr>fate_head := Request_lost\<rparr>)) sample_cx sample_args sample_cluster"
    by (rule sample_ready) (simp_all add: all_delivered_def)
  show ?thesis using bead_create_head_read_unaudited [OF q, of 0] unfolding r by (simp add: all_delivered_def)
qed

theorem bead_create_audited_witness:
  "\<exists>cl' b digest. runBeadCreateOrchestrator (sample_bead_host all_delivered) sample_cx 0 sample_args sample_cluster = (cl', Inr (b, digest)) \<and>
     workerd_has (cl_blob cl') digest"
proof -
  have q: "ready (sample_bead_host all_delivered) sample_cx sample_args sample_cluster"
    by (rule sample_ready) (simp_all add: all_delivered_def)
  obtain cl' b digest where c: "runBeadCreateOrchestrator (sample_bead_host all_delivered) sample_cx 0 sample_args sample_cluster = (cl', Inr (b, digest))"
    using ready_succeeds [OF q, of 0] by (auto simp: all_delivered_def) (metis prod.collapse)
  have d: "distinct_keys (JObj sample_args)" by (simp add: sample_args_def)
  show ?thesis using c bead_create_audited [OF c d] by auto
qed

theorem bead_create_error_short_circuits_witness:
  "\<exists>cl' e. runBeadCreateOrchestrator (sample_bead_host all_delivered) sample_cx 0 [] sample_cluster = (cl', Inl e) \<and>
     cl_trust cl' = cl_trust sample_cluster"
proof -
  have o: "buildContentOrigins [] (cx_peerFp sample_cx) = Inr (unionOrigins [[]])" by (simp add: buildContentOrigins_def MAX_DECLARED_ORIGINS_def)
  have r: "param_string (JObj []) ''repo'' [] = []" by (simp add: param_string_def param_def get_prop_def)
  have "\<exists>cl' e. runBeadCreateOrchestrator (sample_bead_host all_delivered) sample_cx 0 [] sample_cluster = (cl', Inl e)"
    by (simp add: runBeadCreateOrchestrator_def o r del: list.map)
  then show ?thesis using bead_create_error_short_circuits by (force simp: all_delivered_def)
qed


section \<open>What the bead digest commits to\<close>

lemma map_of_sort_key: "distinct (map fst ps) \<Longrightarrow> map_of (sort_key fst ps) = map_of ps"
proof -
  assume d: "distinct (map fst ps)"
  have "mset (map fst (sort_key fst ps)) = mset (map fst ps)" by (simp only: mset_map mset_sort)
  then have "distinct (map fst (sort_key fst ps))" using d mset_eq_imp_distinct_iff by blast
  then show ?thesis using d by (intro map_of_inject_set [THEN iffD2]) simp_all
qed

lemma norm_lookup:
  assumes "norm (JObj ps) = norm (JObj qs)" "distinct (map fst ps)" "distinct (map fst qs)"
  shows "map_option norm (map_of ps k) = map_option norm (map_of qs k)"
proof -
  have m: "map_of (sort_key fst (map (\<lambda>(k, v). (k, norm v)) xs)) k = map_option norm (map_of xs k)" if "distinct (map fst xs)" for xs
  proof -
    have "map fst (map (\<lambda>(k, v). (k, norm v)) xs) = map fst xs" by auto
    then have "map_of (sort_key fst (map (\<lambda>(k, v). (k, norm v)) xs)) = map_of (map (\<lambda>(k, v). (k, norm v)) xs)"
      using that by (intro map_of_sort_key) (simp only:)
    then show ?thesis by (simp add: map_of_map)
  qed
  have "sort_key fst (map (\<lambda>(k, v). (k, norm v)) ps) = sort_key fst (map (\<lambda>(k, v). (k, norm v)) qs)" using assms(1) by simp
  then show ?thesis using m [OF assms(2)] m [OF assms(3)] by simp
qed

definition string_labels :: "Bead \<Rightarrow> bool" where
  "string_labels b = (\<forall>l \<in> set (bead_labels b). \<exists>s. l = JStr s)"

lemma norm_strings: "\<forall>l \<in> set ls. \<exists>s. l = JStr s \<Longrightarrow> map norm ls = ls"
  by (rule map_idI) auto

lemma bead_body_distinct: "string_labels b \<Longrightarrow> distinct_keys (bead_body b p)"
  by (auto simp: bead_body_def opt_string_def string_labels_def list_all_iff split: option.split)

definition bead_fields :: "Bead \<Rightarrow> int \<Rightarrow> (jsstr \<times> json) list" where
  "bead_fields b p = (case bead_body b p of JObj ps \<Rightarrow> ps | _ \<Rightarrow> [])"

lemma sorted_strings_perm:
  assumes "mset xs = mset ys" "\<forall>l \<in> set xs. \<exists>s. l = JStr s"
  shows "sort_key js_string xs = sort_key js_string ys"
proof -
  have "inj_on js_string (set xs)" 
  proof (rule inj_onI)
    fix x y assume "x \<in> set xs" "y \<in> set xs" "js_string x = js_string y"
    moreover from this obtain s t where "x = JStr s" "y = JStr t" using assms(2) by blast
    ultimately show "x = y" by simp
  qed
  moreover have "map js_string (sort_key js_string xs) = map js_string (sort_key js_string ys)"
  proof -
    have "sort (map js_string zs) = map js_string (sort_key js_string zs)" for zs :: "json list"
      by (rule properties_for_sort) simp_all
    moreover have "mset (map js_string xs) = mset (map js_string ys)" using assms(1) by simp
    then have "sort (map js_string xs) = sort (map js_string ys)" by (intro properties_for_sort) simp_all
    ultimately show ?thesis by simp
  qed
  moreover have "set xs = set ys" using assms(1) by (rule mset_eq_setD)
  ultimately show ?thesis by (intro map_inj_on [of js_string]) simp_all
qed


lemma bead_body_cong:
  "norm (bead_body b p) = norm (bead_body c q) \<Longrightarrow> string_labels b \<Longrightarrow> string_labels c \<Longrightarrow>
     bead_id b = bead_id c \<and> bead_title b = bead_title c \<and> bead_description b = bead_description c \<and> bead_state b = bead_state c \<and>
     p = q \<and> sort_key js_string (bead_labels b) = sort_key js_string (bead_labels c) \<and>
     bead_created_at b = bead_created_at c \<and> bead_updated_at b = bead_updated_at c \<and> bead_created_by b = bead_created_by c \<and>
     bead_repo b = bead_repo c \<and> bead_notes b = bead_notes c"
proof -
  assume n: "norm (bead_body b p) = norm (bead_body c q)" and l: "string_labels b" "string_labels c"
  have o: "norm (opt_string x) = norm (opt_string y) \<longleftrightarrow> x = y" for x y by (simp add: opt_string_def split: option.split)
  have s: "map norm (sort_key js_string (bead_labels b)) = sort_key js_string (bead_labels b)"
    "map norm (sort_key js_string (bead_labels c)) = sort_key js_string (bead_labels c)"
    using l by (auto simp: string_labels_def intro!: norm_strings)
  have k: "map_option norm (map_of (bead_fields b p) k) = map_option norm (map_of (bead_fields c q) k)" for k
    using n bead_body_distinct [OF l(1), of p] bead_body_distinct [OF l(2), of q]
    by (intro norm_lookup) (simp_all add: bead_body_def bead_fields_def del: norm.simps)
  show ?thesis
    using k [of "js ''id''"] k [of "js ''title''"] k [of "js ''description''"] k [of "js ''state''"] k [of "js ''priority''"] k [of "js ''labels''"]
      k [of "js ''created_at''"] k [of "js ''updated_at''"] k [of "js ''created_by''"] k [of "js ''repo''"] k [of "js ''notes''"]
    by (simp add: bead_fields_def bead_body_def o s)
qed

text \<open>The canonical bytes of two beads are equal exactly when the beads agree on every field, the state
  and both timestamps included, with their labels equal as a multiset: the order of labels is the only
  thing the digest does not commit to.\<close>

theorem bead_digest_commits:
  assumes "string_labels b" "string_labels c" "bead_priority b = Some p" "bead_priority c = Some q"
  shows "beadCanonicalBytesV1 b = beadCanonicalBytesV1 c \<longleftrightarrow>
    bead_id b = bead_id c \<and> bead_title b = bead_title c \<and> bead_description b = bead_description c \<and> bead_state b = bead_state c \<and>
    p = q \<and> mset (bead_labels b) = mset (bead_labels c) \<and> bead_created_at b = bead_created_at c \<and> bead_updated_at b = bead_updated_at c \<and>
    bead_created_by b = bead_created_by c \<and> bead_repo b = bead_repo c \<and> bead_notes b = bead_notes c"
    (is "_ \<longleftrightarrow> ?same")
proof
  assume "beadCanonicalBytesV1 b = beadCanonicalBytesV1 c"
  then have "norm (bead_body b p) = norm (bead_body c q)"
    using assms bead_body_distinct
    by (simp add: beadCanonicalBytesV1_def canonical_def utf8_encode_inject well_formed_stringify stringify_inject)
  from bead_body_cong [OF this assms(1,2)] show ?same by (metis mset_sort)
next
  assume s: ?same
  have "sort_key js_string (bead_labels b) = sort_key js_string (bead_labels c)"
    using s assms(1) by (intro sorted_strings_perm) (auto simp: string_labels_def)
  then show "beadCanonicalBytesV1 b = beadCanonicalBytesV1 c" using s assms(3,4) by (simp add: beadCanonicalBytesV1_def bead_body_def)
qed

definition sample_bead :: "json list \<Rightarrow> Bead" where
  "sample_bead labels = \<lparr>bead_id = js ''01'', bead_title = js ''t'', bead_description = [], bead_state = js ''open'', bead_priority = Some 0,
     bead_labels = labels, bead_created_at = js ''2026-01-01 00:00:00'', bead_updated_at = js ''2026-01-01 00:00:00'',
     bead_created_by = None, bead_repo = js ''r'', bead_notes = None\<rparr>"

theorem bead_digest_commits_witness:
  "beadCanonicalBytesV1 (sample_bead [JStr (js ''x''), JStr (js ''y'')]) = beadCanonicalBytesV1 (sample_bead [JStr (js ''y''), JStr (js ''x'')]) \<and>
   beadCanonicalBytesV1 (sample_bead [JStr (js ''x'')]) \<noteq> beadCanonicalBytesV1 (sample_bead [])"
  using bead_digest_commits [of "sample_bead [JStr (js ''x''), JStr (js ''y'')]" "sample_bead [JStr (js ''y''), JStr (js ''x'')]" 0 0]
    bead_digest_commits [of "sample_bead [JStr (js ''x'')]" "sample_bead []" 0 0]
  by (simp add: string_labels_def sample_bead_def)

end
