(* ===== verification/Mcp_Route.thy ===== *)
theory Mcp_Route
  imports Receipt_Emit Disclosure Bead_Create Js_Strings
begin

text \<open>
  The MCP edge \<open>src/routes/mcp.ts\<close> with the roots cache \<open>src/routes/roots-state.ts\<close> and the origin policy \<open>src/cors.ts\<close>:
  header and protocol-version checks, lease gate, JSON-RPC dispatch, \<open>bead_create\<close> through the orchestrator, receipts. The
  backends of \<open>src/backends.ts\<close> are an interface: a backend is a record of its operations on a state of their own. A request
  is one step. A body whose value is no object with a string \<open>method\<close>, a tool name that is no string and arguments of
  \<open>bead_create\<close> that are no object are outside the declared types and end in \<open>Untyped\<close>, which says nothing about the code.
\<close>

section \<open>Origins of browsers\<close>

definition matchOrigin :: "jsstr \<Rightarrow> jsstr \<Rightarrow> bool" where
  "matchOrigin origin pattern =
     (if pattern = origin then True
      else if ends_with pattern (js '':*'') then
        (let prefix = butlast pattern in
         if starts_with origin prefix then
           (let tail = drop (length prefix) origin in tail \<noteq> [] \<and> (\<forall>c \<in> set tail. dec_digit c))
         else False)
      else False)"

definition pickAllowedOrigin :: "jsstr option \<Rightarrow> jsstr option \<Rightarrow> jsstr" where
  "pickAllowedOrigin origin allowedOrigins =
     (let list = js_trim (nullish allowedOrigins []); entries = map js_trim (split_on (of_char CHR '','') list) in
      if list = [] \<or> list = js ''*'' then nullish origin (js ''*'')
      else if \<not> truthy_str origin then
        (case find (\<lambda>e. e \<noteq> [] \<and> of_char CHR ''*'' \<notin> set e) entries of Some e \<Rightarrow> e | None \<Rightarrow> js ''*'')
      else if list_ex (\<lambda>e. e \<noteq> [] \<and> matchOrigin (nullish origin []) e) entries then nullish origin []
      else js ''null'')"

section \<open>The roots cache\<close>

record Root =
  ro_uri :: jsstr
  ro_name :: "jsstr option"

record RootsState =
  rs_roots :: "Root list"
  rs_capabilityDeclared :: bool
  rs_listChangedSupported :: bool

type_synonym roots_store = "jsstr \<Rightarrow> RootsState option"

definition ANONYMOUS_PEER :: jsstr where
  "ANONYMOUS_PEER = js ''__anonymous__''"

definition getRoots :: "roots_store \<Rightarrow> jsstr \<Rightarrow> RootsState option" where
  "getRoots store peerFp = store peerFp"

definition setCapability :: "roots_store \<Rightarrow> jsstr \<Rightarrow> bool \<Rightarrow> roots_store" where
  "setCapability store peerFp listChanged =
     store(peerFp \<mapsto> \<lparr>rs_roots = nullish (map_option rs_roots (store peerFp)) [], rs_capabilityDeclared = True,
       rs_listChangedSupported = listChanged\<rparr>)"

definition setRoots :: "roots_store \<Rightarrow> jsstr \<Rightarrow> Root list \<Rightarrow> roots_store" where
  "setRoots store peerFp roots =
     store(peerFp \<mapsto> \<lparr>rs_roots = roots, rs_capabilityDeclared = nullish (map_option rs_capabilityDeclared (store peerFp)) False,
       rs_listChangedSupported = nullish (map_option rs_listChangedSupported (store peerFp)) False\<rparr>)"

definition clearRoots :: "roots_store \<Rightarrow> jsstr \<Rightarrow> roots_store" where
  "clearRoots store peerFp = store(peerFp := None)"

fun root_of :: "json \<Rightarrow> Root option" where
  "root_of (JObj ps) =
     (case get_prop (Some (JObj ps)) (js ''uri'') of
        Some (JStr u) \<Rightarrow>
          if starts_with u (js ''file://'')
          then Some \<lparr>ro_uri = u, ro_name = (case get_prop (Some (JObj ps)) (js ''name'') of Some (JStr n) \<Rightarrow> Some n | _ \<Rightarrow> None)\<rparr>
          else None
      | _ \<Rightarrow> None)"
| "root_of v = None"

definition parseRootsArray :: "json option \<Rightarrow> Root list option" where
  "parseRootsArray v = (case v of Some (JArr vs) \<Rightarrow> Some (List.map_filter root_of vs) | _ \<Rightarrow> None)"

definition is_object :: "json \<Rightarrow> bool" where
  "is_object v = (case v of JObj _ \<Rightarrow> True | JArr _ \<Rightarrow> True | _ \<Rightarrow> False)"

definition captureRootsFromInitialize :: "roots_store \<Rightarrow> jsstr \<Rightarrow> json option \<Rightarrow> json option \<Rightarrow> roots_store" where
  "captureRootsFromInitialize store peerFp rootsCapability inlineRoots =
     (let s1 = (case rootsCapability of
                  Some c \<Rightarrow> if is_object c then setCapability store peerFp (get_prop (Some c) (js ''listChanged'') = Some (JBool True)) else store
                | None \<Rightarrow> store)
      in case parseRootsArray inlineRoots of None \<Rightarrow> s1 | Some roots \<Rightarrow> setRoots s1 peerFp roots)"

section \<open>Backends\<close>

text \<open>The code of an invocation error is what a backend passed on from its upstream, which may be anything or absent.\<close>

datatype invoke_error = Invocation_error "json option" jsstr | Other_error jsstr

type_synonym tool = "jsstr \<times> json"

record 'b backend =
  be_tools :: "'b \<Rightarrow> tool list"
  be_handles :: "jsstr \<Rightarrow> bool"
  be_invoke :: "'b \<Rightarrow> jsstr \<Rightarrow> json \<Rightarrow> jsstr \<Rightarrow> 'b \<times> (invoke_error + json option)"
  be_refreshTools :: "'b \<Rightarrow> 'b \<times> bool"
  be_ttlMs :: "'b \<Rightarrow> int option"
  be_contentOrigin :: "'b \<Rightarrow> OriginSet option"
  be_notifyRootsChanged :: "'b \<Rightarrow> 'b"

text \<open>Tools by name over the backends, the first registered kept.\<close>

fun keep_first :: "jsstr set \<Rightarrow> tool list \<Rightarrow> tool list" where
  "keep_first seen [] = []"
| "keep_first seen (t # ts) = (if fst t \<in> seen then keep_first seen ts else t # keep_first (insert (fst t) seen) ts)"

definition allTools :: "'b backend list \<Rightarrow> 'b \<Rightarrow> tool list" where
  "allTools backends b = sort_key fst (keep_first {} (concat (map (\<lambda>k. be_tools k b) backends)))"

definition assertNoDuplicateToolNames :: "'b backend list \<Rightarrow> 'b \<Rightarrow> bool" where
  "assertNoDuplicateToolNames backends b = distinct (map fst (concat (map (\<lambda>k. be_tools k b) backends)))"

fun refresh_all :: "'b backend list \<Rightarrow> 'b \<Rightarrow> 'b \<times> bool" where
  "refresh_all [] b = (b, True)"
| "refresh_all (k # ks) b = (case be_refreshTools k b of (b1, ok) \<Rightarrow> (case refresh_all ks b1 of (b2, ok') \<Rightarrow> (b2, ok \<and> ok')))"

definition fanOutRootsListChanged :: "'b backend list \<Rightarrow> 'b \<Rightarrow> 'b" where
  "fanOutRootsListChanged backends b = foldl (\<lambda>b k. be_notifyRootsChanged k b) b backends"

section \<open>Requests\<close>

definition SESSIONLESS_PROTOCOL_VERSION :: jsstr where
  "SESSIONLESS_PROTOCOL_VERSION = js ''2026-07-28''"

definition SERVER_INFO :: json where
  "SERVER_INFO = JObj [(js ''name'', JStr (js ''cloister'')), (js ''version'', JStr (js ''0.1.0''))]"

definition SERVER_CAPABILITIES :: json where
  "SERVER_CAPABILITIES = JObj [(js ''tools'', JObj [])]"

definition ERR_HEADER_MISMATCH :: int where
  "ERR_HEADER_MISMATCH = - 32020"

definition META_PROTOCOL_VERSION_KEY :: jsstr where
  "META_PROTOCOL_VERSION_KEY = js ''io.modelcontextprotocol/protocolVersion''"

definition META_SERVER_INFO_KEY :: jsstr where
  "META_SERVER_INFO_KEY = js ''io.modelcontextprotocol/serverInfo''"

record rpc_request =
  jr_method :: jsstr
  jr_params :: "json option"
  jr_id :: "json option"

definition typed_request :: "json \<Rightarrow> rpc_request option" where
  "typed_request v =
     (case (v, get_prop (Some v) (js ''method'')) of
        (JObj ps, Some (JStr m)) \<Rightarrow> Some \<lparr>jr_method = m, jr_params = get_prop (Some v) (js ''params''), jr_id = get_prop (Some v) (js ''id'')\<rparr>
      | _ \<Rightarrow> None)"

text \<open>\<open>req.id ?? null\<close>.\<close>

definition id_or_null :: "rpc_request \<Rightarrow> json option" where
  "id_or_null req = Some (nullish (jr_id req) JNull)"

definition header_mismatch_body :: "rpc_request \<Rightarrow> jsstr \<Rightarrow> jsstr \<Rightarrow> jsstr \<Rightarrow> json" where
  "header_mismatch_body req hdr got bodyValue =
     errResponse (id_or_null req) ERR_HEADER_MISMATCH
       (js ''HeaderMismatchError: '' @ hdr @ js '' header '' @ json_quote got @ js '' disagrees with body '' @ json_quote bodyValue)"

definition validateMcpHeaders :: "request \<Rightarrow> rpc_request \<Rightarrow> json option" where
  "validateMcpHeaders request req =
     (let name_check = (case header request (js ''mcp-name'') of
            None \<Rightarrow> None
          | Some headerName \<Rightarrow>
              (case get_prop (jr_params req) (js ''name'') of
                 Some (JStr bodyName) \<Rightarrow> if headerName \<noteq> bodyName then Some (header_mismatch_body req (js ''Mcp-Name'') headerName bodyName) else None
               | _ \<Rightarrow> None))
      in case header request (js ''mcp-method'') of
           None \<Rightarrow> name_check
         | Some headerMethod \<Rightarrow>
             if headerMethod \<noteq> jr_method req then Some (header_mismatch_body req (js ''Mcp-Method'') headerMethod (jr_method req)) else name_check)"

definition extractMeta :: "json option \<Rightarrow> json option" where
  "extractMeta params = (case get_prop params (js ''_meta'') of Some m \<Rightarrow> if is_object m then Some m else None | None \<Rightarrow> None)"

definition validateSessionlessRequest :: "jsstr list \<Rightarrow> rpc_request \<Rightarrow> jsstr \<Rightarrow> json option" where
  "validateSessionlessRequest supportedVersions req headerVersion =
     (if headerVersion \<notin> set supportedVersions
      then Some (rpc_response (id_or_null req) [(js ''error'', JObj [(js ''code'', JNum (- 32600)), (js ''message'', JStr (js ''UnsupportedProtocolVersionError'')),
             (js ''data'', JObj [(js ''supported'', JArr (map JStr supportedVersions)), (js ''requested'', JStr headerVersion)])])])
      else (case get_prop (extractMeta (jr_params req)) META_PROTOCOL_VERSION_KEY of
          Some (JStr metaVersion) \<Rightarrow>
            if metaVersion \<noteq> headerVersion
            then Some (errResponse (id_or_null req) (- 32600) (js ''protocol version mismatch: header='' @ headerVersion @ js '' _meta.'' @
                   META_PROTOCOL_VERSION_KEY @ js ''='' @ metaVersion))
            else None
        | _ \<Rightarrow> None))"

definition supported_versions :: "jsstr list option \<Rightarrow> jsstr list" where
  "supported_versions v = (case v of Some vs \<Rightarrow> if vs \<noteq> [] then vs else [SESSIONLESS_PROTOCOL_VERSION] | None \<Rightarrow> [SESSIONLESS_PROTOCOL_VERSION])"

section \<open>Results\<close>

text \<open>\<open>JSON.stringify(v, null, 2)\<close>; the number is the indentation of the line the value starts in.\<close>

fun json_pretty :: "nat \<Rightarrow> json \<Rightarrow> jsstr" where
  "json_pretty n (JArr vs) =
     (if vs = [] then js ''[]''
      else js ''['' @ [LF] @ join_with (js '','' @ [LF]) (map (\<lambda>v. replicate (n + 2) (of_char CHR '' '') @ json_pretty (n + 2) v) vs) @
        [LF] @ replicate n (of_char CHR '' '') @ js '']'')"
| "json_pretty n (JObj ps) =
     (if ps = [] then [123, 125]
      else [123, LF] @ join_with (js '','' @ [LF]) (map (\<lambda>(k, v). replicate (n + 2) (of_char CHR '' '') @ json_quote k @ js '': '' @ json_pretty (n + 2) v) ps) @
        [LF] @ replicate n (of_char CHR '' '') @ [125])"
| "json_pretty n v = json_text v"

definition text_result :: "json option \<Rightarrow> json" where
  "text_result v = JObj [(js ''content'', JArr [JObj ([(js ''type'', JStr (js ''text''))] @
     (case v of None \<Rightarrow> [] | Some w \<Rightarrow> [(js ''text'', JStr (json_pretty 0 w))]))])]"

definition created_result :: "created_bead \<times> jsstr \<Rightarrow> json" where
  "created_result r = JObj [(js ''id'', JStr (cb_id (fst r))), (js ''title'', JStr (cb_title (fst r))), (js ''state'', cb_state (fst r)),
     (js ''content_hash'', JStr (snd r))]"

definition error_body :: "json option \<Rightarrow> json option \<Rightarrow> jsstr \<Rightarrow> json" where
  "error_body rid code message = rpc_response rid [(js ''error'', JObj ((case code of None \<Rightarrow> [] | Some c \<Rightarrow> [(js ''code'', c)]) @ [(js ''message'', JStr message)]))]"

section \<open>The route\<close>

record ('b, 'r) mcp_route =
  mr_backends :: "'b backend list"
  mr_supportedVersions :: "jsstr list"
  mr_lease :: host
  mr_env :: env
  mr_notme :: "unit \<Rightarrow> notme_response"
  mr_bead :: bead_host
  mr_show_origin :: "origin_error \<Rightarrow> jsstr"
  mr_receipts :: receipt_host
  mr_receipt_env :: receipt_env
  mr_signer :: "'r notme_stub option"
  mr_allowedOrigins :: "jsstr option"
  mr_url :: "jsstr \<Rightarrow> url"
  mr_now :: int

record ('b, 'r) mcp_state =
  mc_cache :: "cacheEntry option"
  mc_cluster :: cluster
  mc_roots :: roots_store
  mc_backends :: 'b
  mc_signer :: 'r
  mc_emit :: emit_state

datatype 'a mcp_outcome = Untyped | Throws_error | Done_with 'a

definition bind_outcome :: "'s \<times> 'a mcp_outcome \<Rightarrow> ('s \<Rightarrow> 'a \<Rightarrow> 's \<times> 'b mcp_outcome) \<Rightarrow> 's \<times> 'b mcp_outcome" where
  "bind_outcome p f = (case p of (s, Untyped) \<Rightarrow> (s, Untyped) | (s, Throws_error) \<Rightarrow> (s, Throws_error) | (s, Done_with a) \<Rightarrow> f s a)"

definition call_bead_create ::
    "('b, 'r) mcp_route \<Rightarrow> ('b, 'r) mcp_state \<Rightarrow> verifiedLease \<Rightarrow> (jsstr \<times> json) list \<Rightarrow> json option \<Rightarrow> ('b, 'r) mcp_state \<times> json" where
  "call_bead_create rt st lease args rid =
     (case runBeadCreateOrchestrator (mr_bead rt) \<lparr>cx_peerFp = vl_peerFp lease, cx_scope = vl_scope lease, cx_certDer = vl_certDer lease, cx_sig = vl_sig lease\<rparr>
         (mr_now rt) args (mc_cluster st) of
        (cl, r) \<Rightarrow> (st\<lparr>mc_cluster := cl\<rparr>,
           case r of
             Inr res \<Rightarrow> okResponse rid (text_result (Some (created_result res)))
           | Inl (Rpc_error code message) \<Rightarrow> error_body rid code message
           | Inl (Origins_refused e) \<Rightarrow> errResponse rid (- 32603) (mr_show_origin rt e)
           | Inl (Thrown message) \<Rightarrow> errResponse rid (- 32603) message))"

definition call_backend ::
    "('b, 'r) mcp_route \<Rightarrow> ('b, 'r) mcp_state \<Rightarrow> jsstr \<Rightarrow> jsstr \<Rightarrow> json \<Rightarrow> json option \<Rightarrow> ('b, 'r) mcp_state \<times> json" where
  "call_backend rt st peerFp name args rid =
     (case find (\<lambda>k. be_handles k name) (mr_backends rt) of
        None \<Rightarrow> (st, errResponse rid (- 32601) (js ''unknown tool: '' @ name))
      | Some k \<Rightarrow> (case be_invoke k (mc_backends st) name args peerFp of
            (b, r) \<Rightarrow> (st\<lparr>mc_backends := b\<rparr>,
              case r of
                Inr res \<Rightarrow> okResponse rid (text_result res)
              | Inl (Invocation_error code message) \<Rightarrow> error_body rid code message
              | Inl (Other_error message) \<Rightarrow> errResponse rid (- 32603) message)))"

definition peer_of :: "verifiedLease option \<Rightarrow> jsstr" where
  "peer_of lease = nullish (map_option vl_peerFp lease) ANONYMOUS_PEER"

definition callTool :: "('b, 'r) mcp_route \<Rightarrow> ('b, 'r) mcp_state \<Rightarrow> rpc_request \<Rightarrow> verifiedLease option \<Rightarrow> ('b, 'r) mcp_state \<times> json mcp_outcome" where
  "callTool rt st req lease =
     (if jr_params req = None \<or> jr_params req = Some JNull then (st, Throws_error)
      else (case get_prop (jr_params req) (js ''name'') of
          Some (JStr name) \<Rightarrow>
            (let args = (case get_prop (jr_params req) (js ''arguments'') of None \<Rightarrow> JObj [] | Some JNull \<Rightarrow> JObj [] | Some a \<Rightarrow> a) in
             case (if name = js ''bead_create'' then lease else None) of
               Some l \<Rightarrow> (case args of
                   JObj a \<Rightarrow> (case call_bead_create rt st l a (jr_id req) of (st', out) \<Rightarrow> (st', Done_with out))
                 | _ \<Rightarrow> (st, Untyped))
             | None \<Rightarrow> (case call_backend rt st (peer_of lease) name args (jr_id req) of (st', out) \<Rightarrow> (st', Done_with out)))
        | _ \<Rightarrow> (st, Untyped)))"

definition mcp_initialize :: "('b, 'r) mcp_route \<Rightarrow> ('b, 'r) mcp_state \<Rightarrow> rpc_request \<Rightarrow> jsstr \<Rightarrow> ('b, 'r) mcp_state \<times> json" where
  "mcp_initialize rt st req peerFp =
     (let requested = get_prop (jr_params req) (js ''protocolVersion'') in
      if (case requested of Some (JStr v) \<Rightarrow> v \<noteq> [] \<and> v \<notin> set (mr_supportedVersions rt) | _ \<Rightarrow> False)
      then (st, errResponse (jr_id req) (- 32600) (js ''UnsupportedProtocolVersionError: requested='' @
             (case requested of Some (JStr v) \<Rightarrow> v | _ \<Rightarrow> []) @ js '' supported='' @ join_with (js '','') (mr_supportedVersions rt)))
      else (st\<lparr>mc_roots := captureRootsFromInitialize (mc_roots st) peerFp
              (get_prop (get_prop (jr_params req) (js ''capabilities'')) (js ''roots'')) (get_prop (jr_params req) (js ''roots''))\<rparr>,
            okResponse (jr_id req) (JObj [(js ''protocolVersion'', case requested of None \<Rightarrow> JStr SESSIONLESS_PROTOCOL_VERSION
                | Some JNull \<Rightarrow> JStr SESSIONLESS_PROTOCOL_VERSION | Some v \<Rightarrow> v),
              (js ''capabilities'', SERVER_CAPABILITIES), (js ''serverInfo'', SERVER_INFO)])))"

definition tools_list :: "('b, 'r) mcp_route \<Rightarrow> 'b \<Rightarrow> json option \<Rightarrow> bool \<Rightarrow> json" where
  "tools_list rt b rid sessionless =
     (let tools = (js ''tools'', JArr (map snd (allTools (mr_backends rt) b)));
          ttls = List.map_filter (\<lambda>k. be_ttlMs k b) (mr_backends rt)
      in if \<not> sessionless then okResponse rid (JObj [tools])
         else okResponse rid (JObj [tools, (js ''ttlMs'', JNum (if ttls \<noteq> [] then Min (set ttls) else 0)), (js ''cacheScope'', JStr (js ''private''))]))"

definition extractSubscriptions :: "json option \<Rightarrow> json" where
  "extractSubscriptions params = (case get_prop params (js ''subscriptions'') of None \<Rightarrow> JArr [] | Some JNull \<Rightarrow> JArr [] | Some v \<Rightarrow> v)"

definition not_found :: "rpc_request \<Rightarrow> jsstr \<Rightarrow> json" where
  "not_found req what = errResponse (jr_id req) (- 32601) (js ''method not found: '' @ what)"

text \<open>The \<open>instructions\<close> of \<open>server/discover\<close>; 8212 is the em dash.\<close>

definition discover_instructions :: jsstr where
  "discover_instructions = js ''cloister MCP gateway '' @ [8212] @ js '' see /.well-known/mcp-registry for the upstream catalog.''"

definition mcp_dispatch ::
    "('b, 'r) mcp_route \<Rightarrow> ('b, 'r) mcp_state \<Rightarrow> rpc_request \<Rightarrow> verifiedLease option \<Rightarrow> bool \<Rightarrow> ('b, 'r) mcp_state \<times> json mcp_outcome" where
  "mcp_dispatch rt st req lease sessionless =
     (let m = jr_method req; peerFp = peer_of lease; rid = jr_id req in
      if m = js ''initialize'' then
        (if sessionless then (st, Done_with (not_found req (js ''initialize (sessionless protocol)'')))
         else (case mcp_initialize rt st req peerFp of (st', out) \<Rightarrow> (st', Done_with out)))
      else if m = js ''notifications/initialized'' then (st, Done_with (okResponse (id_or_null req) (JObj [])))
      else if m = js ''notifications/roots/list_changed'' then
        (st\<lparr>mc_roots := clearRoots (mc_roots st) peerFp, mc_backends := fanOutRootsListChanged (mr_backends rt) (mc_backends st)\<rparr>,
         Done_with (okResponse (id_or_null req) (JObj [])))
      else if m = js ''server/discover'' then
        (st, Done_with (if \<not> sessionless then not_found req (js ''server/discover (requires MCP-Protocol-Version header)'')
           else okResponse rid (JObj [(js ''protocolVersion'', JStr SESSIONLESS_PROTOCOL_VERSION),
             (js ''supportedVersions'', JArr (map JStr (mr_supportedVersions rt))), (js ''capabilities'', SERVER_CAPABILITIES),
             (js ''serverInfo'', SERVER_INFO), (js ''instructions'', JStr discover_instructions)])))
      else if m = js ''subscriptions/listen'' then
        (st, Done_with (if \<not> sessionless then not_found req (js ''subscriptions/listen (requires MCP-Protocol-Version header)'')
           else okResponse rid (JObj [(js ''acknowledged'', JBool True), (js ''subscriptions'', extractSubscriptions (jr_params req)),
             (js ''implementationStatus'', JStr (js ''stub''))])))
      else if m = js ''tools/list'' then
        (case refresh_all (mr_backends rt) (mc_backends st) of
           (b, ok) \<Rightarrow> (st\<lparr>mc_backends := b\<rparr>, if \<not> ok then Throws_error else Done_with (tools_list rt b rid sessionless)))
      else if m = js ''tools/call'' then callTool rt st req lease
      else if m = js ''ping'' then (st, Done_with (if sessionless then not_found req (js ''ping'') else okResponse rid (JObj [])))
      else (st, Done_with (not_found req m)))"

text \<open>The result shape of the sessionless surface.\<close>

definition shape_result :: "json \<Rightarrow> json" where
  "shape_result out =
     (case (out, get_prop (Some out) (js ''result'')) of
        (JObj ps, Some (JObj r)) \<Rightarrow>
          (let r1 = (if get_prop (Some (JObj r)) (js ''resultType'') = None then set_prop r (js ''resultType'') (JStr (js ''complete'')) else r);
               meta = (case get_prop (Some (JObj r)) (js ''_meta'') of Some (JObj m) \<Rightarrow> m | _ \<Rightarrow> []);
               meta1 = (if map_of meta META_SERVER_INFO_KEY = None then set_prop meta META_SERVER_INFO_KEY SERVER_INFO else meta)
           in JObj (set_prop ps (js ''result'') (JObj (set_prop r1 (js ''_meta'') (JObj meta1)))))
      | _ \<Rightarrow> out)"

definition json_response :: "json \<Rightarrow> int \<Rightarrow> jsstr \<Rightarrow> response option" where
  "json_response v status allowOrigin =
     map_option (\<lambda>hs. \<lparr>rs_status = status, rs_statusText = [], rs_headers = hs, rs_body = utf8_encode (json_text v)\<rparr>)
       (headers_set [(js ''content-type'', js ''application/json'')] (js ''Access-Control-Allow-Origin'') allowOrigin)"

definition lease_error_status :: "int \<Rightarrow> int" where
  "lease_error_status code =
     (if code = ERR_SCOPE_DENIED then 403 else if code = ERR_CA_UNAVAILABLE \<or> code = ERR_EPOCH_MISMATCH then 503 else 401)"

definition originsForRequest :: "('b, 'r) mcp_route \<Rightarrow> 'b \<Rightarrow> jsstr \<Rightarrow> OriginSet" where
  "originsForRequest rt b bodyText =
     (case json_parse bodyText of
        None \<Rightarrow> []
      | Some v \<Rightarrow>
          if get_prop (Some v) (js ''method'') \<noteq> Some (JStr (js ''tools/call'')) then []
          else (case get_prop (get_prop (Some v) (js ''params'')) (js ''name'') of
              Some (JStr name) \<Rightarrow>
                if name = [] then []
                else (case find (\<lambda>k. be_handles k name) (mr_backends rt) of None \<Rightarrow> [] | Some k \<Rightarrow> nullish (be_contentOrigin k b) [])
            | _ \<Rightarrow> []))"

text \<open>What the client gets: \<open>Body_used\<close> is a response whose body was read before, which the platform refuses to send.\<close>

datatype mcp_reply = Reply response | Body_used

definition or_throw :: "response option \<Rightarrow> mcp_reply mcp_outcome" where
  "or_throw r = (case r of None \<Rightarrow> Throws_error | Some x \<Rightarrow> Done_with (Reply x))"

text \<open>The \<open>catch\<close> around the emission falls back to the response built before; \<open>attachReceipt\<close> has read its body by the time it
  fails.\<close>

definition emit_receipt :: "('b, 'r) mcp_route \<Rightarrow> ('b, 'r) mcp_state \<Rightarrow> request \<Rightarrow> jsstr \<Rightarrow> verifiedLease option \<Rightarrow> response \<Rightarrow> ('b, 'r) mcp_state \<times> mcp_reply" where
  "emit_receipt rt st request bodyText lease base =
     (case lease of
        None \<Rightarrow> (st, Reply base)
      | Some l \<Rightarrow> (case buildReceiptContext (mr_receipts rt) (mr_receipt_env rt) (mr_signer rt) (mc_signer st) (mc_emit st) (mr_now rt) request bodyText l of
            (r, em, None) \<Rightarrow> (st\<lparr>mc_signer := r, mc_emit := em\<rparr>, Reply base)
          | (r, em, Some ctx) \<Rightarrow>
              (case attachReceipt (mr_receipts rt) r base (ctx\<lparr>cx_origins := Some (originsForRequest rt (mc_backends st) bodyText)\<rparr>) of
                 (r', Inr rsp) \<Rightarrow> (st\<lparr>mc_signer := r', mc_emit := em\<rparr>, Reply rsp)
               | (r', Inl e) \<Rightarrow> (st\<lparr>mc_signer := r', mc_emit := em\<rparr>, Body_used))))"

definition mcp_gate :: "('b, 'r) mcp_route \<Rightarrow> ('b, 'r) mcp_state \<Rightarrow> request \<Rightarrow> jsstr \<Rightarrow> rpc_request \<Rightarrow> ('b, 'r) mcp_state \<times> gateVerdict" where
  "mcp_gate rt st request bodyText req =
     (case gateAndVerify (mr_lease rt) (mr_env rt) (mr_notme rt) (mr_now rt) \<lparr>wk_cache = mc_cache st, wk_store = cl_trust (mc_cluster st)\<rparr> (mr_now rt)
         \<lparr>va_req = request, va_body = bodyText, va_method = jr_method req, va_params = jr_params req, va_requestedScope = None\<rparr> None of
        (w, verdict) \<Rightarrow> (st\<lparr>mc_cache := wk_cache w, mc_cluster := (mc_cluster st)\<lparr>cl_trust := wk_store w\<rparr>\<rparr>, verdict))"

definition mcp_admitted ::
    "('b, 'r) mcp_route \<Rightarrow> ('b, 'r) mcp_state \<Rightarrow> request \<Rightarrow> jsstr \<Rightarrow> rpc_request \<Rightarrow> verifiedLease option \<Rightarrow> jsstr \<Rightarrow> ('b, 'r) mcp_state \<times> mcp_reply mcp_outcome" where
  "mcp_admitted rt st request bodyText req lease allowOrigin =
     (let sessionless = (header request (js ''mcp-protocol-version'') \<noteq> None) in
      bind_outcome (mcp_dispatch rt st req lease sessionless) (\<lambda>st1 out.
        case json_response (if sessionless then shape_result out else out) 200 allowOrigin of
          None \<Rightarrow> (st1, Throws_error)
        | Some base \<Rightarrow> (case emit_receipt rt st1 request bodyText lease base of (st2, reply) \<Rightarrow> (st2, Done_with reply))))"

definition handlePost :: "('b, 'r) mcp_route \<Rightarrow> ('b, 'r) mcp_state \<Rightarrow> request \<Rightarrow> jsstr \<Rightarrow> ('b, 'r) mcp_state \<times> mcp_reply mcp_outcome" where
  "handlePost rt st request bodyText =
     (let allowOrigin = pickAllowedOrigin (header request (js ''origin'')) (mr_allowedOrigins rt) in
      case json_parse bodyText of
        None \<Rightarrow> (st, or_throw (json_response (errResponse (Some JNull) (- 32700) (js ''parse error'')) 400 allowOrigin))
      | Some v \<Rightarrow> (case typed_request v of
            None \<Rightarrow> (st, Untyped)
          | Some req \<Rightarrow> (case validateMcpHeaders request req of
                Some body \<Rightarrow> (st, or_throw (json_response body 400 allowOrigin))
              | None \<Rightarrow> (case Option.bind (header request (js ''mcp-protocol-version'')) (validateSessionlessRequest (mr_supportedVersions rt) req) of
                    Some body \<Rightarrow> (st, or_throw (json_response body 400 allowOrigin))
                  | None \<Rightarrow> (case mcp_gate rt st request bodyText req of
                        (st1, VerdictThrew) \<Rightarrow> (st1, Throws_error)
                      | (st1, VerdictReject code message) \<Rightarrow>
                          (st1, or_throw (json_response (errResponse (jr_id req) code message) (lease_error_status code) allowOrigin))
                      | (st1, VerdictOff) \<Rightarrow> mcp_admitted rt st1 request bodyText req None allowOrigin
                      | (st1, VerdictPass lease) \<Rightarrow> mcp_admitted rt st1 request bodyText req (Some lease) allowOrigin)))))"

text \<open>The first event of the notification stream stands for its body; the keep-alive comments are left out.\<close>

definition handleSse :: "('b, 'r) mcp_route \<Rightarrow> request \<Rightarrow> response option" where
  "handleSse rt request =
     map_option (\<lambda>hs. \<lparr>rs_status = 200, rs_statusText = [], rs_headers = hs,
        rs_body = utf8_encode (js ''data: '' @ json_text (okResponse (Some (JNum 0)) (JObj [(js ''protocolVersion'', JStr SESSIONLESS_PROTOCOL_VERSION),
          (js ''capabilities'', SERVER_CAPABILITIES)])) @ [LF, LF])\<rparr>)
       (headers_set [(js ''content-type'', js ''text/event-stream''), (js ''cache-control'', js ''no-cache''), (js ''connection'', js ''keep-alive'')]
          (js ''Access-Control-Allow-Origin'') (pickAllowedOrigin (header request (js ''origin'')) (mr_allowedOrigins rt)))"

definition mcp_match :: "('b, 'r) mcp_route \<Rightarrow> request \<Rightarrow> bool" where
  "mcp_match rt request = (u_pathname (mr_url rt (rq_url request)) = js ''/mcp'')"

definition mcp_handle :: "('b, 'r) mcp_route \<Rightarrow> ('b, 'r) mcp_state \<Rightarrow> request \<Rightarrow> jsstr \<Rightarrow> ('b, 'r) mcp_state \<times> mcp_reply mcp_outcome" where
  "mcp_handle rt st request bodyText =
     (if request.rq_method request = js ''GET'' then (st, or_throw (handleSse rt request))
      else if request.rq_method request = js ''POST'' then handlePost rt st request bodyText
      else (st, Done_with (Reply \<lparr>rs_status = 405, rs_statusText = [], rs_headers = [(js ''content-type'', js ''text/plain;charset=UTF-8'')],
             rs_body = utf8_encode (js ''method not allowed'')\<rparr>)))"

section \<open>The tool listing\<close>

lemma keep_first_names: "distinct (map fst (keep_first seen ts)) \<and> fst ` set (keep_first seen ts) = fst ` set ts - seen"
  by (induction ts arbitrary: seen) auto

lemma keep_first_lookup: "map_of (keep_first seen ts) n = (if n \<in> seen then None else map_of ts n)"
proof (induction ts arbitrary: seen)
  case (Cons t ts)
  then show ?case by (cases t) auto
qed simp

lemma keep_first_id: "distinct (map fst ts) \<Longrightarrow> fst ` set ts \<inter> seen = {} \<Longrightarrow> keep_first seen ts = ts"
  by (induction ts arbitrary: seen) auto

text \<open>The listing of tools is canonical: names are listed once and in strictly ascending order, each tool is the one registered
  first under its name, and while no two backends claim a name the listing does not depend on the order of the backends.\<close>

theorem tools_listing_canonical:
  "sorted_wrt (<) (map fst (allTools backends b)) \<and> map_of (allTools backends b) = map_of (concat (map (\<lambda>k. be_tools k b) backends)) \<and>
   (assertNoDuplicateToolNames backends b \<longrightarrow> mset backends' = mset backends \<longrightarrow> allTools backends' b = allTools backends b)"
proof (intro conjI impI)
  let ?ts = "concat (map (\<lambda>k. be_tools k b) backends)"
  let ?k = "keep_first {} ?ts"
  have d: "distinct (map fst ?k)" using keep_first_names by blast
  have ds: "distinct (map fst (sort_key fst ?k))" by (metis d mset_eq_imp_distinct_iff mset_map mset_sort)
  then show "sorted_wrt (<) (map fst (allTools backends b))"
    unfolding allTools_def strict_sorted_iff using sorted_sort_key [of fst ?k] by simp
  have "map_of (sort_key fst ?k) = map_of ?k" using d ds by (intro map_of_inject_set [THEN iffD2]) simp_all
  then show "map_of (allTools backends b) = map_of ?ts" unfolding allTools_def using keep_first_lookup [of "{}" ?ts] by (simp add: fun_eq_iff)
next
  assume nd: "assertNoDuplicateToolNames backends b" and m: "mset backends' = mset backends"
  let ?ts = "concat (map (\<lambda>k. be_tools k b) backends)" let ?us = "concat (map (\<lambda>k. be_tools k b) backends')"
  have mu: "mset ?us = mset ?ts" by (metis (no_types) m mset_concat mset_map sum_mset_sum_list)
  have dt: "distinct (map fst ?ts)" using nd by (simp add: assertNoDuplicateToolNames_def)
  then have du: "distinct (map fst ?us)" using mu by (metis mset_eq_imp_distinct_iff mset_map)
  have "sort_key fst ?us = sort_key fst ?ts"
  proof (rule map_sorted_distinct_set_unique [of fst])
    show "inj_on fst (set (sort_key fst ?us) \<union> set (sort_key fst ?ts))" using dt mset_eq_setD [OF mu] by (simp add: distinct_map)
    show "distinct (map fst (sort_key fst ?us))" "distinct (map fst (sort_key fst ?ts))" using du dt by (metis mset_eq_imp_distinct_iff mset_map mset_sort)+
  qed (use mset_eq_setD [OF mu] in simp_all)
  then show "allTools backends' b = allTools backends b" using dt du by (simp add: allTools_def keep_first_id)
qed

section \<open>What a request can change\<close>

lemma capture_isolated: "p \<noteq> peerFp \<Longrightarrow> captureRootsFromInitialize store peerFp c i p = store p"
  by (auto simp: captureRootsFromInitialize_def Let_def setCapability_def setRoots_def split: option.splits)

text \<open>New attestations carry a given context.\<close>

definition only_for :: "bead_context \<Rightarrow> trust_store \<Rightarrow> trust_store \<Rightarrow> bool" where
  "only_for cx ts ts' \<longleftrightarrow> (\<forall>a \<in> set (ts_attestations ts') - set (ts_attestations ts). pa_peer_fingerprint a = cx_peerFp cx \<and> pa_cert a = cx_certDer cx \<and> pa_sig a = cx_sig cx)"

lemma apply_only_for: "only_for cx ts (fst (apply_rpc (att_args cx digest origins bid prev now) ts))"
  unfolding apply_rpc_def ts_applyAttestation_def applyAttestation_def Let_def only_for_def
  by (auto simp: att_args_def insert_row_def split: prod.splits if_splits option.splits applyAttestationResult.splits)

lemma rpc_state: "fst (rpc f s g) = s \<or> fst (rpc f s g) = fst (g s)"
  by (cases f) (auto simp: rpc_def split: prod.splits)

lemma attest_only_for:
  assumes "attest_step h cx now origins digest b ts = (ts', r)"
  shows "only_for cx ts ts'"
proof -
  let ?args = "att_args cx digest origins (cb_id b) (map_option pa_content_hash (lastAttestationForPeer (ts_attestations ts) (cx_peerFp cx))) now"
  let ?enq = "\<lambda>ts. enqueuePendingAttestation ts \<lparr>pq_peerFp = cx_peerFp cx, pq_contentHash = digest, pq_scope = cx_scope cx, pq_cert = cx_certDer cx,
                         pq_sig = cx_sig cx, pq_nowMs = now\<rparr>"
  obtain h0 where h: "rpc (fate_head (bh_fates h)) ts (\<lambda>ts. (ts, lastAttestationForPeer (ts_attestations ts) (cx_peerFp cx))) = (ts, h0)"
    by (cases "fate_head (bh_fates h)") (auto simp: rpc_def)
  show ?thesis
  proof (cases h0)
    case None
    then show ?thesis using assms h by (auto simp: attest_step_def only_for_def)
  next
    case (Some head)
    then have hd: "head = lastAttestationForPeer (ts_attestations ts) (cx_peerFp cx)" using h by (cases "fate_head (bh_fates h)") (auto simp: rpc_def)
    obtain ts1 r1 where a: "rpc (fate_apply (bh_fates h)) ts (apply_rpc ?args) = (ts1, r1)" by force
    have 1: "only_for cx ts ts1"
      using rpc_state [of "fate_apply (bh_fates h)" ts "apply_rpc ?args"] apply_only_for [of cx ts] a by (auto simp: only_for_def)
    have "ts' = ts1 \<or> (\<exists>r2. rpc (fate_enqueue (bh_fates h)) ts1 ?enq = (ts', r2))"
      using assms h a Some hd by (auto simp: attest_step_def split: if_splits prod.splits option.splits)
    moreover have "ts_attestations (fst (?enq ts1)) = ts_attestations ts1" by (simp add: enqueuePendingAttestation_def case_prod_beta)
    ultimately have "ts_attestations ts' = ts_attestations ts1" using rpc_state [of "fate_enqueue (bh_fates h)" ts1 ?enq] by auto
    then show ?thesis using 1 by (simp add: only_for_def)
  qed
qed

lemma orchestrator_only_for:
  assumes "runBeadCreateOrchestrator h cx now a cl = (cl', res)"
  shows "only_for cx (cl_trust cl) (cl_trust cl')"
  using assms
proof (cases rule: orch_cases)
  case (attest origins bytes digest blob beads b ts)
  then show ?thesis using attest_only_for by simp
qed (simp_all add: only_for_def)

definition lease_context :: "verifiedLease \<Rightarrow> bead_context" where
  "lease_context l = \<lparr>cx_peerFp = vl_peerFp l, cx_scope = vl_scope l, cx_certDer = vl_certDer l, cx_sig = vl_sig l\<rparr>"

lemma dispatch_effects:
  assumes "mcp_dispatch rt st req (Some lease) sessionless = (st', out)"
  shows "\<forall>p. p \<noteq> vl_peerFp lease \<longrightarrow> mc_roots st' p = mc_roots st p" "only_for (lease_context lease) (cl_trust (mc_cluster st)) (cl_trust (mc_cluster st'))"
proof -
  have call: "(\<forall>p. p \<noteq> vl_peerFp lease \<longrightarrow> mc_roots st' p = mc_roots st p) \<and> only_for (lease_context lease) (cl_trust (mc_cluster st)) (cl_trust (mc_cluster st'))"
    if "callTool rt st req (Some lease) = (st', out)"
    using that orchestrator_only_for [of "mr_bead rt" "lease_context lease" "mr_now rt" _ "mc_cluster st"]
    by (fastforce simp: callTool_def call_bead_create_def call_backend_def Let_def only_for_def lease_context_def
        split: if_splits option.splits json.splits prod.splits)
  show "\<forall>p. p \<noteq> vl_peerFp lease \<longrightarrow> mc_roots st' p = mc_roots st p" "only_for (lease_context lease) (cl_trust (mc_cluster st)) (cl_trust (mc_cluster st'))"
    using assms call
    by (auto simp: mcp_dispatch_def mcp_initialize_def Let_def capture_isolated clearRoots_def peer_of_def only_for_def split: if_splits prod.splits)
qed

lemma verify_attestations:
  assumes "verifyAndUpsertLease h st args ca n = (st', LeaseOk l)"
  shows "ts_attestations st' = ts_attestations st"
proof -
  obtain headers claims where "verify_claims h st args ca n headers claims = (st', LeaseOk l)" using verify_ok [OF assms] by blast
  from verify_claims_ok [OF this] obtain p c nonce s hash where
    "verifyLeaseAndAdvanceChain (h_sha256 h) st p c nonce n = Inr (st', Advanced s hash)" by blast
  then show ?thesis unfolding verify_cases by (auto split: if_splits dest!: arg_cong [where f = ts_attestations])
qed

text \<open>The route with a call to the trust store that is delivered.\<close>

abbreviation delivered_route :: "('b, 'r) mcp_route \<Rightarrow> ('b, 'r) mcp_route" where
  "delivered_route rt \<equiv> rt\<lparr>mr_lease := (mr_lease rt)\<lparr>h_lease_call := Delivered\<rparr>\<rparr>"

lemma gate_outcome:
  assumes "mcp_gate rt st request bodyText req = (st1, verdict)" "leaseEnforced (mr_env rt)"
  shows "verdict \<noteq> VerdictOff" "mc_roots st1 = mc_roots st" "ts_attestations (cl_trust (mc_cluster st1)) = ts_attestations (cl_trust (mc_cluster st))"
    "\<forall>l. verdict \<noteq> VerdictPass l \<Longrightarrow> st1 = st\<lparr>mc_cache := mc_cache st1\<rparr> \<or>
       verdict = VerdictThrew \<and> h_lease_call (mr_lease rt) = Reply_lost \<and> (\<exists>l. mcp_gate (delivered_route rt) st request bodyText req = (st1, VerdictPass l))"
    "verdict = VerdictPass l \<Longrightarrow> scopeAllows (vl_scope l) (deriveRequestScope (jr_method req) (jr_params req))"
proof -
  let ?w = "\<lparr>wk_cache = mc_cache st, wk_store = cl_trust (mc_cluster st)\<rparr>" and ?ts = "cl_trust (mc_cluster st)"
  let ?args = "\<lparr>va_req = request, va_body = bodyText, va_method = jr_method req, va_params = jr_params req, va_requestedScope = None\<rparr>"
  obtain w where g: "gateAndVerify (mr_lease rt) (mr_env rt) (mr_notme rt) (mr_now rt) ?w (mr_now rt) ?args None = (w, verdict)"
    and st1: "st1 = st\<lparr>mc_cache := wk_cache w, mc_cluster := (mc_cluster st)\<lparr>cl_trust := wk_store w\<rparr>\<rparr>"
    using assms(1) by (auto simp: mcp_gate_def split: prod.splits)
  show "verdict \<noteq> VerdictOff" using g assms(2) by (auto simp: gateAndVerify_def Let_def split: sum.splits prod.splits lease_outcome.splits)
  show "mc_roots st1 = mc_roots st" by (simp add: st1)
  have store: "(\<forall>l. verdict \<noteq> VerdictPass l) \<and> wk_store w = ?ts \<or>
      (\<exists>l ca. verdict = VerdictPass l \<and> verifyAndUpsertLease (mr_lease rt) ?ts ?args ca (mr_now rt) = (wk_store w, LeaseOk l)) \<or>
      verdict = VerdictThrew \<and> h_lease_call (mr_lease rt) = Reply_lost \<and>
      (\<exists>l ca. snd (resolveCABundle (h_ed25519 (mr_lease rt)) (h_cbor (mr_lease rt)) (mr_env rt) (mc_cache st) (mr_notme rt) (mr_now rt) (mr_now rt)) = Inr ca \<and>
         wk_cache w = fst (resolveCABundle (h_ed25519 (mr_lease rt)) (h_cbor (mr_lease rt)) (mr_env rt) (mc_cache st) (mr_notme rt) (mr_now rt) (mr_now rt)) \<and>
         verifyAndUpsertLease (delivered (mr_lease rt)) ?ts ?args ca (mr_now rt) = (wk_store w, LeaseOk l))"
  proof -
    obtain c res where r: "resolveCABundle (h_ed25519 (mr_lease rt)) (h_cbor (mr_lease rt)) (mr_env rt) (mc_cache st) (mr_notme rt) (mr_now rt) (mr_now rt) = (c, res)" by force
    show ?thesis
    proof (cases res)
      case (Inr ca)
      obtain ts out where v: "verifyAndUpsertLease (mr_lease rt) ?ts ?args ca (mr_now rt) = (ts, out)" by force
      show ?thesis using g assms(2) r Inr v verify_not_ok_store [OF v] by (auto simp: gateAndVerify_def Let_def split: lease_outcome.splits)
    qed (use g assms(2) r in \<open>auto simp: gateAndVerify_def Let_def\<close>)
  qed
  then show "ts_attestations (cl_trust (mc_cluster st1)) = ts_attestations ?ts" by (auto simp: st1 dest: verify_attestations)
  show "st1 = st\<lparr>mc_cache := mc_cache st1\<rparr> \<or>
      verdict = VerdictThrew \<and> h_lease_call (mr_lease rt) = Reply_lost \<and> (\<exists>l. mcp_gate (delivered_route rt) st request bodyText req = (st1, VerdictPass l))"
    if "\<forall>l. verdict \<noteq> VerdictPass l"
    using store
  proof (elim disjE exE conjE)
    fix l ca assume "verdict = VerdictThrew" "h_lease_call (mr_lease rt) = Reply_lost"
      and r: "snd (resolveCABundle (h_ed25519 (mr_lease rt)) (h_cbor (mr_lease rt)) (mr_env rt) (mc_cache st) (mr_notme rt) (mr_now rt) (mr_now rt)) = Inr ca"
        "wk_cache w = fst (resolveCABundle (h_ed25519 (mr_lease rt)) (h_cbor (mr_lease rt)) (mr_env rt) (mc_cache st) (mr_notme rt) (mr_now rt) (mr_now rt))"
      and v: "verifyAndUpsertLease (delivered (mr_lease rt)) ?ts ?args ca (mr_now rt) = (wk_store w, LeaseOk l)"
    have "gateAndVerify (delivered (mr_lease rt)) (mr_env rt) (mr_notme rt) (mr_now rt) ?w (mr_now rt) ?args None = (w, VerdictPass l)"
      using r v assms(2) by (auto simp: gateAndVerify_def Let_def split: prod.splits)
    then have "mcp_gate (delivered_route rt) st request bodyText req = (st1, VerdictPass l)" by (simp add: mcp_gate_def st1)
    then show ?thesis using \<open>verdict = VerdictThrew\<close> \<open>h_lease_call (mr_lease rt) = Reply_lost\<close> by blast
  qed (use that in \<open>simp_all add: st1\<close>)
  show "scopeAllows (vl_scope l) (deriveRequestScope (jr_method req) (jr_params req))" if "verdict = VerdictPass l"
    using gate_pass_scope [of "mr_lease rt"] g that by fastforce
qed

lemma emit_keeps: "emit_receipt rt st request bodyText lease base = (st', reply) \<Longrightarrow> mc_roots st' = mc_roots st \<and> mc_cluster st' = mc_cluster st"
  by (auto simp: emit_receipt_def split: option.splits prod.splits sum.splits)

lemma admitted_effects:
  assumes "mcp_admitted rt st request bodyText req (Some lease) allowOrigin = (st', out)"
  shows "\<forall>p. p \<noteq> vl_peerFp lease \<longrightarrow> mc_roots st' p = mc_roots st p" "only_for (lease_context lease) (cl_trust (mc_cluster st)) (cl_trust (mc_cluster st'))"
proof -
  obtain st1 o1 where d: "mcp_dispatch rt st req (Some lease) (header request (js ''mcp-protocol-version'') \<noteq> None) = (st1, o1)" by force
  have "mc_roots st' = mc_roots st1 \<and> mc_cluster st' = mc_cluster st1"
    using assms d unfolding mcp_admitted_def Let_def bind_outcome_def
    by (auto dest!: emit_keeps split: mcp_outcome.splits option.splits prod.splits)
  then show "\<forall>p. p \<noteq> vl_peerFp lease \<longrightarrow> mc_roots st' p = mc_roots st p" "only_for (lease_context lease) (cl_trust (mc_cluster st)) (cl_trust (mc_cluster st'))"
    using dispatch_effects [OF d] by auto
qed

lemma typed_request_fields:
  "typed_request v = Some req \<Longrightarrow> get_prop (Some v) (js ''method'') = Some (JStr (jr_method req)) \<and> jr_params req = get_prop (Some v) (js ''params'')"
  by (auto simp: typed_request_def split: option.splits json.splits)

lemma handlePost_cases:
  assumes "handlePost rt st request bodyText = (st', out)"
  obtains (early) body ao where "st' = st" "out = Untyped \<or> out = or_throw (json_response body 400 ao)"
  | (gated) v req st1 verdict ao where "json_parse bodyText = Some v" "typed_request v = Some req" "mcp_gate rt st request bodyText req = (st1, verdict)"
      "(st', out) = (case verdict of VerdictThrew \<Rightarrow> (st1, Throws_error)
         | VerdictReject code message \<Rightarrow> (st1, or_throw (json_response (errResponse (jr_id req) code message) (lease_error_status code) ao))
         | VerdictOff \<Rightarrow> mcp_admitted rt st1 request bodyText req None ao
         | VerdictPass lease \<Rightarrow> mcp_admitted rt st1 request bodyText req (Some lease) ao)"
proof (cases "\<exists>v req. json_parse bodyText = Some v \<and> typed_request v = Some req \<and> validateMcpHeaders request req = None \<and>
    Option.bind (header request (js ''mcp-protocol-version'')) (validateSessionlessRequest (mr_supportedVersions rt) req) = None")
  case True
  then obtain v req where ok: "json_parse bodyText = Some v" "typed_request v = Some req" "validateMcpHeaders request req = None"
    "Option.bind (header request (js ''mcp-protocol-version'')) (validateSessionlessRequest (mr_supportedVersions rt) req) = None" by blast
  obtain st1 verdict where g: "mcp_gate rt st request bodyText req = (st1, verdict)" by force
  show thesis
    by (rule gated [OF ok(1,2) g, of "pickAllowedOrigin (header request (js ''origin'')) (mr_allowedOrigins rt)"])
      (use assms in \<open>cases verdict; simp add: handlePost_def Let_def ok g del: list.map\<close>)
next
  case False
  then show thesis using assms early by (auto simp: handlePost_def Let_def simp del: list.map split: option.splits)
qed

text \<open>C26: The edge changes something only for the holder of a verified lease, only for the call that was verified, and only in the
  holder's name. Where leases are enforced, a request that changes anything but the cached CA bundle is a POST whose body parses
  to a call; the gate verified a lease for this very call, its method and parameters, with a scope that covers it; and the call
  executed is this one. Then no other peer's roots change, and every attestation written names the lease's peer and carries its
  certificate and signature. The one other case is a lost reply of the trust store: the request throws, and what it leaves is what
  the passing gate for this call leaves, a spent nonce and an advanced counter, with no call executed.\<close>

theorem mcp_effects_need_lease:
  assumes "leaseEnforced (mr_env rt)" "mcp_handle rt st request bodyText = (st', out)" "st' \<noteq> st\<lparr>mc_cache := mc_cache st'\<rparr>"
  shows "request.rq_method request = js ''POST'' \<and>
    (\<exists>v req. json_parse bodyText = Some v \<and> typed_request v = Some req \<and> get_prop (Some v) (js ''method'') = Some (JStr (jr_method req)) \<and>
      jr_params req = get_prop (Some v) (js ''params'') \<and>
      ((\<exists>lease st1 ao. mcp_gate rt st request bodyText req = (st1, VerdictPass lease) \<and>
          scopeAllows (vl_scope lease) (deriveRequestScope (jr_method req) (jr_params req)) \<and>
          mcp_admitted rt st1 request bodyText req (Some lease) ao = (st', out) \<and>
          (\<forall>p. p \<noteq> vl_peerFp lease \<longrightarrow> mc_roots st' p = mc_roots st p) \<and>
          (\<forall>a \<in> set (ts_attestations (cl_trust (mc_cluster st'))) - set (ts_attestations (cl_trust (mc_cluster st))).
             pa_peer_fingerprint a = vl_peerFp lease \<and> pa_cert a = vl_certDer lease \<and> pa_sig a = vl_sig lease)) \<or>
       (out = Throws_error \<and> h_lease_call (mr_lease rt) = Reply_lost \<and>
          (\<exists>lease. mcp_gate (rt\<lparr>mr_lease := (mr_lease rt)\<lparr>h_lease_call := Delivered\<rparr>\<rparr>) st request bodyText req = (st', VerdictPass lease)) \<and>
          mc_roots st' = mc_roots st \<and> ts_attestations (cl_trust (mc_cluster st')) = ts_attestations (cl_trust (mc_cluster st)))))"
proof -
  have ne: "st' \<noteq> st" using assms(3) by auto
  then have post: "request.rq_method request = js ''POST''" "handlePost rt st request bodyText = (st', out)"
    using assms(2) by (auto simp: mcp_handle_def split: if_splits)
  obtain v req st1 verdict ao where body: "json_parse bodyText = Some v" "typed_request v = Some req"
    and g: "mcp_gate rt st request bodyText req = (st1, verdict)"
    and k: "(st', out) = (case verdict of VerdictThrew \<Rightarrow> (st1, Throws_error)
         | VerdictReject code message \<Rightarrow> (st1, or_throw (json_response (errResponse (jr_id req) code message) (lease_error_status code) ao))
         | VerdictOff \<Rightarrow> mcp_admitted rt st1 request bodyText req None ao
         | VerdictPass lease \<Rightarrow> mcp_admitted rt st1 request bodyText req (Some lease) ao)"
    by (rule handlePost_cases [OF post(2)]) (use ne in blast)
  note gate = gate_outcome [OF g assms(1)]
  note call = body typed_request_fields [OF body(2)]
  show ?thesis
  proof (cases verdict)
    case (VerdictPass lease)
    then have adm: "mcp_admitted rt st1 request bodyText req (Some lease) ao = (st', out)" using k by simp
    from admitted_effects [OF this] have "\<forall>p. p \<noteq> vl_peerFp lease \<longrightarrow> mc_roots st' p = mc_roots st p"
      "\<forall>a \<in> set (ts_attestations (cl_trust (mc_cluster st'))) - set (ts_attestations (cl_trust (mc_cluster st))).
         pa_peer_fingerprint a = vl_peerFp lease \<and> pa_cert a = vl_certDer lease \<and> pa_sig a = vl_sig lease"
      using gate(2,3) by (simp_all add: only_for_def lease_context_def)
    then show ?thesis using post(1) call g VerdictPass gate(5) [OF VerdictPass] adm by blast
  next
    case VerdictThrew
    then have "st' = st1" "out = Throws_error" using k by simp_all
    then show ?thesis using post(1) call gate(2,3) gate(4) VerdictThrew assms(3) by blast
  qed (use gate(1,4) k assms(3) in auto)
qed

section \<open>A failing receipt\<close>

lemma refused_sign:
  assumes "\<forall>r m. \<exists>r'. nt_signReceipt (dg_remote d) r m = (r', Some (Sign_refused code))" "code \<noteq> RETRYABLE_COMMITMENT_CODE"
  shows "\<exists>r' e. signCommitment r d c = (r', Inl e)"
proof (cases "encodeCommitment c")
  case (Inr canon)
  obtain r' where "nt_signReceipt (dg_remote d) r canon = (r', Some (Sign_refused code))" using assms(1) by blast
  then show ?thesis using Inr assms(2) by (simp add: signCommitment_def ask_to_sign_def)
qed (simp add: signCommitment_def ask_to_sign_def)

lemma refused_attach:
  assumes "\<forall>r m. \<exists>r'. nt_signReceipt (dg_remote d) r m = (r', Some (Sign_refused code))" "code \<noteq> RETRYABLE_COMMITMENT_CODE"
    and "cx_delegated ctx = Some d" "rs_status base = 200" "map_of (rs_headers base) (js ''content-type'') = Some (js ''application/json'')"
  shows "\<exists>r' e. attachReceipt host r base ctx = (r', Inl e)"
proof -
  have "\<not> starts_with (ascii_lower (nullish (map_of (rs_headers base) (js ''content-type'')) [])) (js ''text/event-stream'')"
    unfolding assms(5) by (simp add: starts_with_def ascii_lower_def is_upper_def js_simps)
  moreover have "\<exists>r' e. sign_header r ctx c = (r', Inl e)" for c
    using refused_sign [OF assms(1,2), of r c] assms(3) by (auto simp: sign_header_def signDelegatedCommitmentToHeader_def)
  ultimately show ?thesis using assms(3,4)
    by (auto simp: attachReceipt_def simp del: list.map split: option.splits sum.splits prod.splits) (metis prod.inject sum.distinct(1))+
qed

text \<open>C27: While the delegated signer answers but refuses to sign, no admitted call is answered: the call is executed, the emission
  fails after it has read the body of the response, and the response the handler falls back to can not be sent. What clients
  get are refusals only.\<close>

theorem refused_signature_loses_responses:
  assumes "leaseEnforced (mr_env rt)" "mr_signer rt = Some stub" "\<forall>r. \<exists>r'. nt_receiptFacts stub r = (r', Some (Facts fp (Integer n)))" "length fp = 32"
    and "\<forall>r m. \<exists>r'. nt_signReceipt stub r m = (r', Some (Sign_refused code))" "code \<noteq> RETRYABLE_COMMITMENT_CODE"
    and "handlePost rt st request bodyText = (st', Done_with (Reply rsp))"
  shows "rs_status rsp \<in> {400, 401, 403, 503}"
proof -
  have json: "rs_status r = s" if "json_response v s ao = Some r" for v s ao r using that by (auto simp: json_response_def)
  have no_reply: "emit_receipt rt st1 request bodyText (Some lease) base \<noteq> (st2, Reply r)" if b: "json_response v 200 ao = Some base" for st1 lease base st2 r v ao
  proof -
    obtain hs where hs: "headers_set [(js ''content-type'', js ''application/json'')] (js ''Access-Control-Allow-Origin'') ao = Some hs" "rs_headers base = hs" "rs_status base = 200"
      using b by (auto simp: json_response_def)
    have "map_of hs (js ''content-type'') = Some (js ''application/json'')"
      using headers_set_lookup [OF hs(1)] by (simp add: ascii_lower_def is_upper_def js_simps)
    note att = refused_attach [OF _ assms(6) _ hs(3), unfolded hs(2), OF _ _ this]
    obtain r1 where f: "nt_receiptFacts stub (mc_signer st1) = (r1, Some (Facts fp (Integer n)))" using assms(3) by blast
    let ?d = "\<lparr>dg_remote = stub, dg_facts = Some (Facts fp (Integer n))\<rparr>"
    obtain em ctx where ctx: "buildReceiptContext (mr_receipts rt) (mr_receipt_env rt) (mr_signer rt) (mc_signer st1) (mc_emit st1) (mr_now rt) request bodyText lease = (r1, em, Some ctx)"
      "cx_delegated ctx = Some ?d"
      using f assms(2,4) by (simp add: buildReceiptContext_def buildEmissionContext_def delegatedReceiptSignerFrom_def probe_def facts_def)
    obtain r' e where "attachReceipt (mr_receipts rt) r1 base (ctx\<lparr>cx_origins := Some (originsForRequest rt (mc_backends st1) bodyText)\<rparr>) = (r', Inl e)"
      using att [of ?d "ctx\<lparr>cx_origins := Some (originsForRequest rt (mc_backends st1) bodyText)\<rparr>"] assms(5) ctx(2) by fastforce
    then show ?thesis using ctx(1) by (simp add: emit_receipt_def)
  qed
  have adm: "mcp_admitted rt st1 request bodyText req (Some lease) ao \<noteq> (st', Done_with (Reply rsp))" for st1 req lease ao
    using no_reply unfolding mcp_admitted_def Let_def bind_outcome_def by (auto split: mcp_outcome.splits option.splits prod.splits)
  from assms(7) show ?thesis
  proof (cases rule: handlePost_cases)
    case (early body ao)
    then show ?thesis by (auto simp: or_throw_def dest: json split: option.splits)
  next
    case (gated v req st1 verdict ao)
    have "rs_status rsp \<in> {401, 403, 503}" if "or_throw (json_response v (lease_error_status c) ao) = Done_with (Reply rsp)" for v c
    proof -
      have "rs_status rsp = lease_error_status c" using that json by (auto simp: or_throw_def split: option.splits)
      then show ?thesis by (simp add: lease_error_status_def)
    qed
    then show ?thesis using gate_outcome(1) [OF gated(3) assms(1)] adm gated by (cases verdict) fastforce+
  qed
qed

section \<open>Concrete routes\<close>

definition one_tool :: "jsstr \<Rightarrow> unit backend" where
  "one_tool n = \<lparr>be_tools = (\<lambda>_. [(n, JNull)]), be_handles = (\<lambda>m. m = n), be_invoke = (\<lambda>b _ a _. (b, Inr (Some a))), be_refreshTools = (\<lambda>b. (b, True)),
     be_ttlMs = (\<lambda>_. None), be_contentOrigin = (\<lambda>_. None), be_notifyRootsChanged = (\<lambda>b. b)\<rparr>"

theorem tools_listing_canonical_witness:
  "allTools [one_tool (js ''b''), one_tool (js ''a'')] () = [(js ''a'', JNull), (js ''b'', JNull)] \<and>
   allTools [one_tool (js ''a''), one_tool (js ''b'')] () = [(js ''a'', JNull), (js ''b'', JNull)]"
proof -
  have "assertNoDuplicateToolNames [one_tool (js ''b''), one_tool (js ''a'')] ()" "mset [one_tool (js ''a''), one_tool (js ''b'')] = mset [one_tool (js ''b''), one_tool (js ''a'')]"
    by (simp_all add: assertNoDuplicateToolNames_def one_tool_def)
  then have "allTools [one_tool (js ''a''), one_tool (js ''b'')] () = allTools [one_tool (js ''b''), one_tool (js ''a'')] ()"
    using tools_listing_canonical [of "[one_tool (js ''b''), one_tool (js ''a'')]" "()" "[one_tool (js ''a''), one_tool (js ''b'')]"] by simp
  moreover have "allTools [one_tool (js ''b''), one_tool (js ''a'')] () = [(js ''a'', JNull), (js ''b'', JNull)]"
    by (simp add: allTools_def one_tool_def js_simps)
  ultimately show ?thesis by simp
qed

definition refusing_stub :: "unit notme_stub" where
  "refusing_stub = \<lparr>nt_receiptFacts = (\<lambda>r. (r, Some (Facts (replicate 32 8) (Integer 8)))), nt_signReceipt = (\<lambda>r m. (r, Some (Sign_refused (js ''DENIED''))))\<rparr>"

definition closed_route :: "(unit, unit) mcp_route" where
  "closed_route = \<lparr>mr_backends = [one_tool (js ''a'')], mr_supportedVersions = supported_versions None, mr_lease = sample_host,
     mr_env = prod_env\<lparr>env_INTERLACE_ROOT_PUBKEY := None\<rparr>, mr_notme = (\<lambda>_. NotmeStatus 500 None), mr_bead = sample_bead_host all_delivered,
     mr_show_origin = (\<lambda>_. []), mr_receipts = emit_host, mr_receipt_env = \<lparr>env_RECEIPT_SIGNING_KEY = None, env_RECEIPT_ACTOR_FP = None, env_RECEIPT_EPOCH = None\<rparr>,
     mr_signer = Some refusing_stub, mr_allowedOrigins = None, mr_url = (\<lambda>_. \<lparr>u_protocol = js ''https:'', u_username = [], u_password = [],
     u_hostname = js ''c'', u_pathname = js ''/mcp'', u_params = []\<rparr>), mr_now = 1700000000000\<rparr>"

definition idle_mcp :: "(unit, unit) mcp_state" where
  "idle_mcp = \<lparr>mc_cache = None, mc_cluster = sample_cluster, mc_roots = (\<lambda>_. None), mc_backends = (), mc_signer = (),
     mc_emit = \<lparr>em_disabledLogged = False, em_log = []\<rparr>\<rparr>"

definition ping_body :: jsstr where
  "ping_body = json_text (JObj [(js ''jsonrpc'', JStr (js ''2.0'')), (js ''id'', JNum 1), (js ''method'', JStr (js ''ping''))])"

lemma closed_gate: "\<exists>code message. snd (mcp_gate closed_route idle_mcp request bodyText req) = VerdictReject code message"
  by (simp add: mcp_gate_def gateAndVerify_def closed_route_def prod_env_def leaseEnforced_def resolveLeaseGate_def resolveCABundle_def devCaBundle_def truthy_str_def
      split: prod.splits sum.splits)

lemma closed_enforced: "leaseEnforced (mr_env closed_route)"
  by (simp add: closed_route_def prod_env_def leaseEnforced_def resolveLeaseGate_def)

text \<open>A deployment that admits: a cached bundle, a certificate that grants everything, no receipts.\<close>

definition open_route :: "(unit, unit) mcp_route" where
  "open_route = closed_route\<lparr>mr_lease := route_sample_host, mr_env := prod_env, mr_signer := None\<rparr>"

definition open_mcp :: "(unit, unit) mcp_state" where
  "open_mcp = idle_mcp\<lparr>mc_cache := wk_cache route_sample_worker, mc_cluster := sample_cluster\<lparr>cl_trust := new_trust_store None 0\<rparr>\<rparr>"

lemma ping_call:
  "json_parse ping_body = Some (JObj [(js ''jsonrpc'', JStr (js ''2.0'')), (js ''id'', JNum 1), (js ''method'', JStr (js ''ping''))])"
  "typed_request (JObj [(js ''jsonrpc'', JStr (js ''2.0'')), (js ''id'', JNum 1), (js ''method'', JStr (js ''ping''))]) =
     Some \<lparr>jr_method = js ''ping'', jr_params = None, jr_id = Some (JNum 1)\<rparr>"
  "validateMcpHeaders (sample_request (js ''POST'')) \<lparr>jr_method = js ''ping'', jr_params = None, jr_id = Some (JNum 1)\<rparr> = None"
  "header (sample_request (js ''POST'')) (js ''mcp-protocol-version'') = None"
proof -
  show "json_parse ping_body = Some (JObj [(js ''jsonrpc'', JStr (js ''2.0'')), (js ''id'', JNum 1), (js ''method'', JStr (js ''ping''))])"
    unfolding ping_body_def by (rule json_parse_text) (simp add: js_simps)
qed (simp_all add: typed_request_def get_prop_def js_simps validateMcpHeaders_def Lease_Middleware.header_def sample_request_def)

lemma open_gate:
  "\<exists>st1 lease. mcp_gate open_route open_mcp (sample_request (js ''POST'')) ping_body req = (st1, VerdictPass lease) \<and>
     ts_nonces (cl_trust (mc_cluster st1)) \<noteq> ts_nonces (cl_trust (mc_cluster open_mcp))"
proof -
  let ?args = "\<lparr>va_req = sample_request (js ''POST''), va_body = ping_body, va_method = jr_method req, va_params = jr_params req, va_requestedScope = None\<rparr>"
  obtain w lease where g: "gateAndVerify route_sample_host prod_env (\<lambda>_. NotmeStatus 500 None) 1700000000000 route_sample_worker 1700000000000 ?args None = (w, VerdictPass lease)"
      "ts_nonces (wk_store w) \<noteq> []"
    using route_sample_gate [of ?args "js ''POST''" "\<lambda>_. NotmeStatus 500 None" None] by auto
  have "\<lparr>wk_cache = mc_cache open_mcp, wk_store = cl_trust (mc_cluster open_mcp)\<rparr> = route_sample_worker"
    by (simp add: open_mcp_def idle_mcp_def route_sample_worker_def)
  then show ?thesis using g by (simp add: mcp_gate_def open_route_def closed_route_def open_mcp_def new_trust_store_def ensureAlarmScheduled_def)
qed

theorem mcp_effects_need_lease_witness:
  "\<exists>st' out lease st1. mcp_handle open_route open_mcp (sample_request (js ''POST'')) ping_body = (st', out) \<and> st' \<noteq> open_mcp \<and>
     mcp_gate open_route open_mcp (sample_request (js ''POST'')) ping_body \<lparr>jr_method = js ''ping'', jr_params = None, jr_id = Some (JNum 1)\<rparr> = (st1, VerdictPass lease)"
proof -
  let ?r = "sample_request (js ''POST'')" and ?req = "\<lparr>jr_method = js ''ping'', jr_params = None, jr_id = Some (JNum 1)\<rparr>"
  let ?ao = "pickAllowedOrigin (header ?r (js ''origin'')) (mr_allowedOrigins open_route)"
  obtain st' out where h: "mcp_handle open_route open_mcp ?r ping_body = (st', out)" by force
  obtain st1 lease where g: "mcp_gate open_route open_mcp ?r ping_body ?req = (st1, VerdictPass lease)"
      "ts_nonces (cl_trust (mc_cluster st1)) \<noteq> ts_nonces (cl_trust (mc_cluster open_mcp))" using open_gate by blast
  have "handlePost open_route open_mcp ?r ping_body = mcp_admitted open_route st1 ?r ping_body ?req (Some lease) ?ao"
    using ping_call g(1) by (simp add: handlePost_def Let_def del: list.map)
  moreover have "request.rq_method ?r = js ''POST''" by (simp add: sample_request_def)
  ultimately have adm: "mcp_admitted open_route st1 ?r ping_body ?req (Some lease) ?ao = (st', out)" using h by (simp add: mcp_handle_def)
  have "mcp_dispatch open_route st1 ?req (Some lease) (header ?r (js ''mcp-protocol-version'') \<noteq> None) = (st1, Done_with (okResponse (Some (JNum 1)) (JObj [])))"
    using ping_call(4) by (simp add: mcp_dispatch_def Let_def id_or_null_def nullish_def)
  then have "mc_cluster st' = mc_cluster st1"
    using adm unfolding mcp_admitted_def Let_def bind_outcome_def by (auto dest!: emit_keeps split: option.splits prod.splits)
  then have ne: "st' \<noteq> open_mcp\<lparr>mc_cache := mc_cache st'\<rparr>" using g(2) by (metis mcp_state.select_convs(2) mcp_state.surjective mcp_state.update_convs(1))
  have enf: "leaseEnforced (mr_env open_route)" by (simp add: open_route_def route_sample_trust(2))
  have "\<exists>lease st1. mcp_gate open_route open_mcp ?r ping_body ?req = (st1, VerdictPass lease)"
    using mcp_effects_need_lease [OF enf h ne] ping_call(1,2) g(1) by auto
  moreover have "st' \<noteq> open_mcp" using ne by auto
  ultimately show ?thesis using h by blast
qed

theorem refused_signature_loses_responses_witness:
  "\<exists>st' rsp. handlePost closed_route idle_mcp (sample_request (js ''POST'')) [] = (st', Done_with (Reply rsp)) \<and> rs_status rsp \<in> {400, 401, 403, 503}"
proof -
  have "pickAllowedOrigin (header (sample_request (js ''POST'')) (js ''origin'')) (mr_allowedOrigins closed_route) = js ''*''"
    by (simp add: pickAllowedOrigin_def Lease_Middleware.header_def sample_request_def closed_route_def js_trim_def Let_def)
  moreover have "json_parse [] = None" by (simp add: json_parse_def skip_ws_def starts_with_def)
  moreover obtain hs where "headers_set [(js ''content-type'', js ''application/json'')] (js ''Access-Control-Allow-Origin'') (js ''*'') = Some hs"
    by (simp add: headers_set_def http_trim_def http_ws_def token_char_def alnum_def is_lower_def is_upper_def dec_digit_def Let_def js_simps)
  ultimately obtain st' rsp where h: "handlePost closed_route idle_mcp (sample_request (js ''POST'')) [] = (st', Done_with (Reply rsp))"
    by (simp add: handlePost_def Let_def or_throw_def json_response_def del: list.map)
  have "mr_signer closed_route = Some refusing_stub" by (simp add: closed_route_def)
  moreover have "\<forall>r. \<exists>r'. nt_receiptFacts refusing_stub r = (r', Some (Facts (replicate 32 8) (Integer 8)))" "length (replicate 32 (8 :: byte)) = 32"
    "\<forall>r m. \<exists>r'. nt_signReceipt refusing_stub r m = (r', Some (Sign_refused (js ''DENIED'')))" "js ''DENIED'' \<noteq> RETRYABLE_COMMITMENT_CODE"
    by (simp_all add: refusing_stub_def RETRYABLE_COMMITMENT_CODE_def js_simps)
  ultimately have "rs_status rsp \<in> {400, 401, 403, 503}" by (rule refused_signature_loses_responses [OF closed_enforced _ _ _ _ _ h])
  then show ?thesis using h by blast
qed

end
