(* ===== verification/Wire_Codec.thy ===== *)
theory Wire_Codec
  imports Js_Text
begin

unbundle bit_operations_syntax

text \<open>
  The Cap'n Proto codec of the companion wire: the builder and reader of \<open>src/wire/codec.ts\<close>. The builder is its growing buffer
  and its length; every write is a step on it that may raise the range error of a \<open>DataView\<close>. The reader is the bytes of the
  message. Offsets are integers: a pointer of a hostile message may lead before the start of the message, where a \<open>DataView\<close>
  raises and \<open>slice\<close> counts from the end. \<open>run\<close> describes a step by the bytes written so far.
\<close>

section \<open>Errors and little-endian numbers\<close>

datatype wire_error =
    Out_of_range | Unaligned | Payload_unaligned
  | Too_short | Many_segments | Segment_truncated
  | Not_struct | Not_list | Tag_kind | Past_end
  | Struct_too_small | Element_size | Count_mismatch | Element_too_small
  | Text_empty | Text_unterminated | Invalid_utf8 | Unknown_discriminant | Field_shape

definition rbind :: "'e + 'a \<Rightarrow> ('a \<Rightarrow> 'e + 'b) \<Rightarrow> 'e + 'b" where
  "rbind m f = (case m of Inl e \<Rightarrow> Inl e | Inr a \<Rightarrow> f a)"

definition guard :: "'e \<Rightarrow> bool \<Rightarrow> 'e + unit" where
  "guard e c = (if c then Inr () else Inl e)"

definition wbind :: "('s \<Rightarrow> 'e + 'a \<times> 's) \<Rightarrow> ('a \<Rightarrow> 's \<Rightarrow> 'e + 'b \<times> 's) \<Rightarrow> 's \<Rightarrow> 'e + 'b \<times> 's" where
  "wbind m f s = (case m s of Inl e \<Rightarrow> Inl e | Inr (a, t) \<Rightarrow> f a t)"

fun le_bytes :: "nat \<Rightarrow> int \<Rightarrow> bytes" where
  "le_bytes 0 v = []"
| "le_bytes (Suc n) v = to_u8 v # le_bytes n (v div 256)"

fun le_value :: "bytes \<Rightarrow> int" where
  "le_value [] = 0"
| "le_value (b # bs) = uint b + 256 * le_value bs"

definition WORD :: int where
  "WORD = 8"

definition ELEM_BYTE :: int where
  "ELEM_BYTE = 2"

definition KIND_STRUCT :: int where
  "KIND_STRUCT = 0"

definition KIND_LIST :: int where
  "KIND_LIST = 1"

section \<open>The builder\<close>

record wire_builder =
  wb_buf :: bytes
  wb_len :: int

definition new_builder :: wire_builder where
  "new_builder = \<lparr>wb_buf = replicate 64 0, wb_len = 0\<rparr>"

definition grow :: "int \<Rightarrow> wire_builder \<Rightarrow> wire_builder" where
  "grow needed b =
     (if wb_len b + needed \<le> int (length (wb_buf b)) then b
      else let newSize = nat (max (int (length (wb_buf b)) * 2) (wb_len b + needed)); kept = take (nat (wb_len b)) (wb_buf b)
           in b\<lparr>wb_buf := kept @ replicate (newSize - length kept) 0\<rparr>)"

text \<open>A typed write of the \<open>DataView\<close> and \<open>Uint8Array.set\<close>: both raise when the target leaves the buffer.\<close>

definition put_bytes :: "int \<Rightarrow> bytes \<Rightarrow> wire_builder \<Rightarrow> wire_error + unit \<times> wire_builder" where
  "put_bytes off bs b =
     (if 0 \<le> off \<and> off + int (length bs) \<le> int (length (wb_buf b))
      then Inr ((), b\<lparr>wb_buf := take (nat off) (wb_buf b) @ bs @ drop (nat off + length bs) (wb_buf b)\<rparr>)
      else Inl Out_of_range)"

definition reserveWords :: "int \<Rightarrow> wire_builder \<Rightarrow> wire_error + int \<times> wire_builder" where
  "reserveWords n b = (let b1 = grow (n * WORD) b in Inr (wb_len b1, b1\<lparr>wb_len := wb_len b1 + n * WORD\<rparr>))"

definition appendBytesPadded :: "bytes \<Rightarrow> wire_builder \<Rightarrow> wire_error + int \<times> wire_builder" where
  "appendBytesPadded bs b =
     (let padded = js_bitand (int (length bs) + WORD - 1) (- (WORD - 1) - 1); b1 = grow padded b; off = wb_len b1 in
      wbind (put_bytes off bs) (\<lambda>_ b2. Inr (off, b2\<lparr>wb_len := wb_len b2 + padded\<rparr>)) b1)"

definition writeU8 :: "int \<Rightarrow> int \<Rightarrow> wire_builder \<Rightarrow> wire_error + unit \<times> wire_builder" where
  "writeU8 off v = put_bytes off (le_bytes 1 (js_bitand v 0xFF))"

definition writeU16 :: "int \<Rightarrow> int \<Rightarrow> wire_builder \<Rightarrow> wire_error + unit \<times> wire_builder" where
  "writeU16 off v = put_bytes off (le_bytes 2 (js_bitand v 0xFFFF))"

definition writeU32 :: "int \<Rightarrow> int \<Rightarrow> wire_builder \<Rightarrow> wire_error + unit \<times> wire_builder" where
  "writeU32 off v = put_bytes off (le_bytes 4 (js_ushr v 0))"

definition writeU64 :: "int \<Rightarrow> int \<Rightarrow> wire_builder \<Rightarrow> wire_error + unit \<times> wire_builder" where
  "writeU64 off v = put_bytes off (le_bytes 8 v)"

definition getUint :: "nat \<Rightarrow> bytes \<Rightarrow> int \<Rightarrow> wire_error + int" where
  "getUint n bs off =
     (if 0 \<le> off \<and> off + int n \<le> int (length bs) then Inr (le_value (take n (drop (nat off) bs))) else Inl Out_of_range)"

definition writeBit :: "int \<Rightarrow> int \<Rightarrow> bool \<Rightarrow> wire_builder \<Rightarrow> wire_error + unit \<times> wire_builder" where
  "writeBit off bitIdx v b =
     (case getUint 1 (wb_buf b) off of
        Inl e \<Rightarrow> Inl e
      | Inr cur \<Rightarrow> (let m = js_shl 1 (nat (js_bitand bitIdx 7)) in
          put_bytes off (le_bytes 1 (if v then js_bitor cur m else js_bitand cur (- m - 1))) b))"

definition pointer_words :: "int \<Rightarrow> int \<Rightarrow> int" where
  "pointer_words at target = (target - (at + WORD)) div WORD"

definition write_pointer :: "int \<Rightarrow> int \<Rightarrow> int \<Rightarrow> int \<Rightarrow> wire_builder \<Rightarrow> wire_error + unit \<times> wire_builder" where
  "write_pointer at target kind hi b =
     (if \<not> WORD dvd target - (at + WORD) then Inl Unaligned
      else wbind (writeU32 at (js_bitor (js_shl (js_bitand (pointer_words at target) 0x3FFFFFFF) 2) kind)) (\<lambda>_. writeU32 (at + 4) hi) b)"

definition writeStructPointer :: "int \<Rightarrow> int \<Rightarrow> int \<Rightarrow> int \<Rightarrow> wire_builder \<Rightarrow> wire_error + unit \<times> wire_builder" where
  "writeStructPointer at target dataWords ptrWords =
     write_pointer at target KIND_STRUCT (js_bitor (js_bitand dataWords 0xFFFF) (js_shl (js_bitand ptrWords 0xFFFF) 16))"

definition writeListPointer :: "int \<Rightarrow> int \<Rightarrow> int \<Rightarrow> int \<Rightarrow> wire_builder \<Rightarrow> wire_error + unit \<times> wire_builder" where
  "writeListPointer at target elementSize cnt =
     write_pointer at target KIND_LIST (js_bitor (js_bitand elementSize 7) (js_shl (js_bitand cnt 0x1FFFFFFF) 3))"

definition reserveCompositeList :: "int \<Rightarrow> int \<Rightarrow> int \<Rightarrow> wire_builder \<Rightarrow> wire_error + int \<times> wire_builder" where
  "reserveCompositeList cnt dataWords ptrWords b =
     (let totalBytes = (1 + cnt * (dataWords + ptrWords)) * WORD; b1 = grow totalBytes b; tagOff = wb_len b1 in
      wbind (writeU32 tagOff (js_bitor (js_shl (js_bitand cnt 0x3FFFFFFF) 2) KIND_STRUCT)) (\<lambda>_.
        wbind (writeU32 (tagOff + 4) (js_bitor (js_bitand dataWords 0xFFFF) (js_shl (js_bitand ptrWords 0xFFFF) 16))) (\<lambda>_ b2. Inr (tagOff, b2)))
        (b1\<lparr>wb_len := wb_len b1 + totalBytes\<rparr>))"

definition finalize :: "wire_builder \<Rightarrow> wire_error + bytes" where
  "finalize b =
     (if wb_len b mod WORD \<noteq> 0 then Inl Payload_unaligned
      else Inr (replicate 4 0 @ le_bytes 4 (wb_len b div WORD) @ take (nat (wb_len b)) (wb_buf b)))"

section \<open>The reader\<close>

record StructPtr =
  sp_target :: int
  sp_dataWords :: int
  sp_ptrWords :: int

record ListPtr =
  lp_target :: int
  lp_elementSize :: int
  lp_count :: int

definition readSegmentStart :: "bytes \<Rightarrow> wire_error + int" where
  "readSegmentStart bs =
     rbind (guard Too_short (8 \<le> length bs)) (\<lambda>_.
     rbind (getUint 4 bs 0) (\<lambda>numMinus1.
     rbind (guard Many_segments (numMinus1 = 0)) (\<lambda>_.
     rbind (getUint 4 bs 4) (\<lambda>seg0Words.
     rbind (guard Segment_truncated (8 + seg0Words * WORD \<le> int (length bs))) (\<lambda>_. Inr 8)))))"

definition readU8 :: "bytes \<Rightarrow> int \<Rightarrow> wire_error + int" where "readU8 = getUint 1"
definition readU16 :: "bytes \<Rightarrow> int \<Rightarrow> wire_error + int" where "readU16 = getUint 2"
definition readU32 :: "bytes \<Rightarrow> int \<Rightarrow> wire_error + int" where "readU32 = getUint 4"
definition readU64 :: "bytes \<Rightarrow> int \<Rightarrow> wire_error + int" where "readU64 = getUint 8"

definition readBit :: "bytes \<Rightarrow> int \<Rightarrow> int \<Rightarrow> wire_error + int" where
  "readBit bs off bitIdx = rbind (getUint 1 bs off) (\<lambda>v. Inr (js_bitand (js_shr v (nat (js_bitand bitIdx 7))) 1))"

definition signExtend30 :: "int \<Rightarrow> int" where
  "signExtend30 raw = (if js_bitand raw 0x20000000 \<noteq> 0 then js_bitor raw (- 0x3FFFFFFF - 1) else raw)"

definition isNullPointer :: "bytes \<Rightarrow> int \<Rightarrow> wire_error + bool" where
  "isNullPointer bs at = rbind (getUint 8 bs at) (\<lambda>v. Inr (v = 0))"

definition readStructPointer :: "bytes \<Rightarrow> int \<Rightarrow> wire_error + StructPtr" where
  "readStructPointer bs at =
     rbind (readU32 bs at) (\<lambda>lo.
     rbind (guard Not_struct (js_bitand lo 3 = KIND_STRUCT)) (\<lambda>_.
     rbind (readU32 bs (at + 4)) (\<lambda>hi.
       Inr \<lparr>sp_target = at + WORD + signExtend30 (js_ushr lo 2) * WORD, sp_dataWords = js_bitand hi 0xFFFF,
         sp_ptrWords = js_bitand (js_ushr hi 16) 0xFFFF\<rparr>)))"

definition readListPointer :: "bytes \<Rightarrow> int \<Rightarrow> wire_error + ListPtr" where
  "readListPointer bs at =
     rbind (readU32 bs at) (\<lambda>lo.
     rbind (guard Not_list (js_bitand lo 3 = KIND_LIST)) (\<lambda>_.
     rbind (readU32 bs (at + 4)) (\<lambda>hi.
       Inr \<lparr>lp_target = at + WORD + signExtend30 (js_ushr lo 2) * WORD, lp_elementSize = js_bitand hi 7,
         lp_count = js_bitand (js_ushr hi 3) 0x1FFFFFFF\<rparr>)))"

text \<open>\<open>slice(start, stop)\<close>: a negative bound counts from the end.\<close>

definition slice_bound :: "'a list \<Rightarrow> int \<Rightarrow> nat" where
  "slice_bound bs i = (if i < 0 then nat (int (length bs) + i) else min (nat i) (length bs))"

definition js_slice :: "'a list \<Rightarrow> int \<Rightarrow> int \<Rightarrow> 'a list" where
  "js_slice bs start stop = take (slice_bound bs stop - slice_bound bs start) (drop (slice_bound bs start) bs)"

definition read_bytes :: "bytes \<Rightarrow> int \<Rightarrow> int \<Rightarrow> wire_error + bytes" where
  "read_bytes bs start len = (if start + len > int (length bs) then Inl Past_end else Inr (js_slice bs start (start + len)))"

record list_tag =
  lt_count :: int
  lt_dataWords :: int
  lt_ptrWords :: int

text \<open>The tag of a composite list. The sign test looks at the pointer word before it is shifted.\<close>

definition readCompositeListTag :: "bytes \<Rightarrow> int \<Rightarrow> wire_error + list_tag" where
  "readCompositeListTag bs at =
     rbind (readU32 bs at) (\<lambda>lo.
     rbind (guard Tag_kind (js_bitand lo 3 = KIND_STRUCT)) (\<lambda>_.
     rbind (readU32 bs (at + 4)) (\<lambda>hi.
       Inr \<lparr>lt_count = (if js_bitand lo 0x20000000 \<noteq> 0 then js_bitor (js_ushr lo 2) (- 0x3FFFFFFF - 1) else js_ushr lo 2),
         lt_dataWords = js_bitand hi 0xFFFF, lt_ptrWords = js_bitand (js_ushr hi 16) 0xFFFF\<rparr>)))"

section \<open>Arithmetic of the fields\<close>

lemma length_le_bytes [simp]: "length (le_bytes n v) = n"
  by (induction n arbitrary: v) simp_all

lemma le_value_le_bytes: "le_value (le_bytes n v) = v mod 256 ^ n"
proof (induction n arbitrary: v)
  case (Suc n)
  have "v mod (256 * 256 ^ n) = 256 * (v div 256 mod 256 ^ n) + v mod 256" by (rule zmod_zmult2_eq) simp
  then show ?case using Suc by simp
qed simp

lemma js_bitand_low: "n < 32 \<Longrightarrow> js_bitand a (2 ^ n - 1) = a mod 2 ^ n"
proof -
  assume n: "n < 32"
  have "a AND (2 ^ n - 1) = a mod 2 ^ n" using take_bit_eq_mask [of n a] by (simp add: mask_eq_exp_minus_1 take_bit_eq_mod)
  moreover have "(2 :: int) ^ n \<le> 2 ^ 31" using n by (intro power_increasing) simp_all
  moreover have "0 \<le> a mod 2 ^ n" "a mod 2 ^ n < 2 ^ n" by simp_all
  ultimately have "to_int32 (a mod 2 ^ n) = a mod 2 ^ n" by (intro to_int32_nonneg) linarith+
  then show ?thesis using \<open>a AND (2 ^ n - 1) = a mod 2 ^ n\<close> by (simp add: js_bitand_int)
qed

lemma field_masks:
  "js_bitand a 0x3FFFFFFF = a mod 0x40000000" "js_bitand a 0x1FFFFFFF = a mod 0x20000000" "js_bitand a 0xFFFF = a mod 0x10000"
  "js_bitand a 7 = a mod 8" "js_bitand a 3 = a mod 4" "js_bitand a 1 = a mod 2"
  using js_bitand_low [of 30 a] js_bitand_low [of 29 a] js_bitand_low [of 16 a] js_bitand_low [of 3 a] js_bitand_low [of 2 a] js_bitand_low [of 1 a] by simp_all

lemma to_int32_mod: "to_int32 a mod 0x100000000 = a mod 0x100000000"
  by (simp add: to_int32_def sint_sbintrunc' signed_take_bit_eq_take_bit_shift take_bit_eq_mod) (metis add_diff_cancel_right' mod_diff_left_eq)

lemma u32_field:
  assumes "0 \<le> b" "b < 2 ^ n" "0 \<le> a" "a * 2 ^ n + b < 0x100000000"
  shows "js_ushr (js_bitor (js_shl a n) b) 0 = a * 2 ^ n + b" "js_ushr (js_bitor b (js_shl a n)) 0 = a * 2 ^ n + b"
proof -
  have "0 \<le> a * 2 ^ n + b" using assms by simp
  moreover have "js_bitor (js_shl a n) b = to_int32 (a * 2 ^ n + b)"
    by (simp only: js_shl_int js_bitor_absorb) (simp only: js_bitor_int int_or_low [OF assms(1,2)])
  ultimately show *: "js_ushr (js_bitor (js_shl a n) b) 0 = a * 2 ^ n + b" using assms(4) by (simp add: js_ushr_int to_int32_mod)
  have "js_bitor b (js_shl a n) = js_bitor (js_shl a n) b" by (simp add: js_bitor_def or.commute)
  then show "js_ushr (js_bitor b (js_shl a n)) 0 = a * 2 ^ n + b" using * by simp
qed

lemma pad_mask: "0 \<le> a \<Longrightarrow> a < 2 ^ 31 \<Longrightarrow> js_bitand a (- 8) = a div 8 * 8"
proof -
  assume a: "0 \<le> a" "a < 2 ^ 31"
  have "a AND NOT (mask 3) = push_bit 3 (drop_bit 3 a)" by (rule bit_eqI) (auto simp: bit_simps)
  then have "a AND (- 8) = a div 8 * 8" by (simp add: push_bit_eq_mult drop_bit_eq_div mask_eq_exp_minus_1 not_int_def)
  moreover have "0 \<le> a div 8 * 8" "a div 8 * 8 \<le> a" using a(1) by simp_all
  ultimately show ?thesis unfolding js_bitand_int using a(2) by (simp add: to_int32_nonneg)
qed

lemma sign_clear: "0 \<le> a \<Longrightarrow> a < 0x20000000 \<Longrightarrow> js_bitand a 0x20000000 = 0"
proof -
  assume "0 \<le> a" "a < 0x20000000"
  then have "\<not> bit a 29" by (simp add: bit_iff_odd)
  then show ?thesis using and_exp_eq_0_iff_not_bit [of a 29] by (simp add: js_bitand_int to_int32_nonneg)
qed

section \<open>What the steps of the builder write\<close>

definition builds :: "wire_builder \<Rightarrow> bytes \<Rightarrow> bool" where
  "builds b p \<longleftrightarrow> wb_len b = int (length p) \<and> (\<exists>k. wb_buf b = p @ replicate k 0)"

definition run :: "(wire_builder \<Rightarrow> wire_error + 'a \<times> wire_builder) \<Rightarrow> bytes \<Rightarrow> 'a \<Rightarrow> bytes \<Rightarrow> bool" where
  "run m p a p' \<longleftrightarrow> (\<forall>b. builds b p \<longrightarrow> (\<exists>b'. m b = Inr (a, b') \<and> builds b' p'))"

definition padded :: "bytes \<Rightarrow> bytes" where
  "padded bs = bs @ replicate (nat (- int (length bs) mod 8)) 0"

definition struct_ptr :: "int \<Rightarrow> int \<Rightarrow> int \<Rightarrow> bytes" where
  "struct_ptr off dataWords ptrWords = le_bytes 4 (off * 4) @ le_bytes 4 (ptrWords * 65536 + dataWords)"

definition list_ptr :: "int \<Rightarrow> int \<Rightarrow> int \<Rightarrow> bytes" where
  "list_ptr off elementSize cnt = le_bytes 4 (off * 4 + 1) @ le_bytes 4 (cnt * 8 + elementSize)"

lemma ptr_length [simp]: "length (struct_ptr off d p) = 8" "length (list_ptr off e n) = 8"
  by (simp_all add: struct_ptr_def list_ptr_def)

lemma length_padded: "int (length (padded bs)) = (int (length bs) + 7) div 8 * 8"
proof -
  have "(int (length bs) + 7) div 8 * 8 = int (length bs) + - int (length bs) mod 8" by presburger
  then show ?thesis by (simp add: padded_def)
qed

lemma length_padded_dvd: "8 dvd length (padded bs)"
proof -
  have "8 dvd int (length (padded bs))" unfolding length_padded by simp
  then show ?thesis by presburger
qed

lemma builds_new: "builds new_builder []"
  by (simp add: builds_def new_builder_def)

lemma grow_builds:
  assumes "builds b p" "0 \<le> n"
  shows "builds (grow n b) p" "wb_len (grow n b) = int (length p)" "\<exists>k. wb_buf (grow n b) = p @ replicate k 0 \<and> n \<le> int k"
proof -
  obtain k where k: "wb_len b = int (length p)" "wb_buf b = p @ replicate k 0" using assms(1) by (auto simp: builds_def)
  show ex: "\<exists>k. wb_buf (grow n b) = p @ replicate k 0 \<and> n \<le> int k"
  proof (cases "wb_len b + n \<le> int (length (wb_buf b))")
    case True
    then show ?thesis using k by (simp add: grow_def)
  next
    case False
    then show ?thesis using k by (simp add: grow_def Let_def nat_le_iff le_diff_conv2) linarith
  qed
  show "wb_len (grow n b) = int (length p)" using k by (simp add: grow_def Let_def)
  then show "builds (grow n b) p" using ex by (auto simp: builds_def)
qed

lemma run_bind: "run m p a p' \<Longrightarrow> run (f a) p' c p'' \<Longrightarrow> run (wbind m f) p c p''"
  by (fastforce simp: run_def wbind_def)

lemma run_return: "run (\<lambda>b. Inr (a, b)) p a p"
  by (simp add: run_def)

lemma put_builds:
  assumes "wb_buf b = x @ old @ y" "length old = length bs" "off = int (length x)"
  shows "put_bytes off bs b = Inr ((), b\<lparr>wb_buf := x @ bs @ y\<rparr>)"
  using assms by (simp add: put_bytes_def)

lemma run_put:
  assumes "off = int (length x)" "length old = length bs"
  shows "run (put_bytes off bs) (x @ old @ y) () (x @ bs @ y)"
  unfolding run_def
proof (intro allI impI)
  fix b assume "builds b (x @ old @ y)"
  then obtain k where "wb_len b = int (length (x @ old @ y))" "wb_buf b = x @ old @ y @ replicate k 0" by (auto simp: builds_def)
  then show "\<exists>b'. put_bytes off bs b = Inr ((), b') \<and> builds b' (x @ bs @ y)"
    using assms by (simp add: put_builds builds_def)
qed

lemma run_reserve:
  assumes "0 \<le> n"
  shows "run (reserveWords n) p (int (length p)) (p @ replicate (nat (n * 8)) 0)"
  unfolding run_def
proof (intro allI impI)
  fix b assume b: "builds b p"
  obtain k where k: "wb_buf (grow (n * 8) b) = p @ replicate k 0" "n * 8 \<le> int k" using grow_builds(3) [OF b, of "n * 8"] assms by auto
  have "replicate k (0 :: byte) = replicate (nat (n * 8)) 0 @ replicate (k - nat (n * 8)) 0" using k(2) by (simp add: nat_le_iff flip: replicate_add)
  then show "\<exists>b'. reserveWords n b = Inr (int (length p), b') \<and> builds b' (p @ replicate (nat (n * 8)) 0)"
    using k assms grow_builds(2) [OF b, of "n * 8"] by (auto simp: reserveWords_def builds_def Let_def WORD_def)
qed

lemma run_append:
  assumes "int (length bs) + 7 < 2 ^ 31"
  shows "run (appendBytesPadded bs) p (int (length p)) (p @ padded bs)"
  unfolding run_def
proof (intro allI impI)
  fix b assume b: "builds b p"
  let ?n = "int (length (padded bs))"
  have n: "js_bitand (int (length bs) + WORD - 1) (- (WORD - 1) - 1) = ?n" using assms by (simp add: length_padded WORD_def pad_mask)
  obtain k where k: "wb_buf (grow ?n b) = p @ replicate k 0" "?n \<le> int k" using grow_builds(3) [OF b, of ?n] by auto
  define r where "r = nat (- int (length bs) mod 8)"
  have l: "length (padded bs) = length bs + r" by (simp add: padded_def r_def)
  have split: "replicate k (0 :: byte) = replicate (length bs) 0 @ replicate r 0 @ replicate (k - (length bs + r)) 0"
    using k(2) l by (simp flip: replicate_add)
  have "put_bytes (int (length p)) bs (grow ?n b) = Inr ((), (grow ?n b)\<lparr>wb_buf := p @ bs @ replicate r 0 @ replicate (k - (length bs + r)) 0\<rparr>)"
    by (rule put_builds [of _ p "replicate (length bs) 0"]) (simp_all add: k(1) split)
  then show "\<exists>b'. appendBytesPadded bs b = Inr (int (length p), b') \<and> builds b' (p @ padded bs)"
    unfolding appendBytesPadded_def n using grow_builds(2) [OF b, of ?n] by (auto simp: Let_def wbind_def builds_def padded_def simp flip: r_def)
qed

lemma run_pointer:
  assumes "at = int (length x)" "length old = 8" "0 \<le> off" "off < 0x40000000" "target = at + 8 + off * 8"
    "0 \<le> kind" "kind < 4" "js_ushr hi 0 = h"
  shows "run (write_pointer at target kind hi) (x @ old @ y) () (x @ (le_bytes 4 (off * 4 + kind) @ le_bytes 4 h) @ y)"
proof -
  have w: "pointer_words at target = off" using assms(5) by (simp add: pointer_words_def WORD_def)
  have lo: "js_ushr (js_bitor (js_shl (js_bitand off 0x3FFFFFFF) 2) kind) 0 = off * 4 + kind"
    using u32_field(1) [of kind 2 off] assms by (simp add: field_masks)
  obtain o1 o2 where o: "old = o1 @ o2" "length o1 = 4" "length o2 = 4"
    by (rule that [of "take 4 old" "drop 4 old"]) (use assms(2) in simp_all)
  have r1: "run (writeU32 at (js_bitor (js_shl (js_bitand (pointer_words at target) 0x3FFFFFFF) 2) kind)) (x @ o1 @ (o2 @ y)) () (x @ le_bytes 4 (off * 4 + kind) @ (o2 @ y))"
    unfolding writeU32_def w lo by (rule run_put) (use assms o in simp_all)
  have r2: "run (writeU32 (at + 4) hi) ((x @ le_bytes 4 (off * 4 + kind)) @ o2 @ y) () ((x @ le_bytes 4 (off * 4 + kind)) @ le_bytes 4 h @ y)"
    unfolding writeU32_def assms(8) by (rule run_put) (use assms o in simp_all)
  have "run (wbind (writeU32 at (js_bitor (js_shl (js_bitand (pointer_words at target) 0x3FFFFFFF) 2) kind)) (\<lambda>_. writeU32 (at + 4) hi)) (x @ old @ y) ()
     (x @ (le_bytes 4 (off * 4 + kind) @ le_bytes 4 h) @ y)"
    using run_bind [OF r1 r2 [simplified append_assoc]] o(1) by simp
  moreover have "WORD dvd target - (at + WORD)" using assms(5) by (simp add: WORD_def)
  ultimately show ?thesis by (simp add: run_def write_pointer_def)
qed

lemma run_struct_ptr:
  assumes "at = int (length x)" "length old = 8" "0 \<le> off" "off < 0x40000000" "target = at + 8 + off * 8" "0 \<le> d" "d < 65536" "0 \<le> q" "q < 65536"
  shows "run (writeStructPointer at target d q) (x @ old @ y) () (x @ struct_ptr off d q @ y)"
proof -
  have "js_ushr (js_bitor (js_bitand d 0xFFFF) (js_shl (js_bitand q 0xFFFF) 16)) 0 = q * 65536 + d"
    using u32_field(2) [of d 16 q] assms by (simp add: field_masks)
  then show ?thesis using run_pointer [OF assms(1-5), of 0] by (simp add: writeStructPointer_def KIND_STRUCT_def struct_ptr_def)
qed

lemma run_list_ptr:
  assumes "at = int (length x)" "length old = 8" "0 \<le> off" "off < 0x40000000" "target = at + 8 + off * 8" "0 \<le> e" "e < 8" "0 \<le> n" "n < 0x20000000"
  shows "run (writeListPointer at target e n) (x @ old @ y) () (x @ list_ptr off e n @ y)"
proof -
  have "js_ushr (js_bitor (js_bitand e 7) (js_shl (js_bitand n 0x1FFFFFFF) 3)) 0 = n * 8 + e"
    using u32_field(2) [of e 3 n] assms by (simp add: field_masks)
  then show ?thesis using run_pointer [OF assms(1-5), of 1] by (simp add: writeListPointer_def KIND_LIST_def list_ptr_def)
qed

lemma run_composite:
  assumes "0 \<le> n" "n < 0x40000000" "0 \<le> d" "d < 65536" "0 \<le> q" "q < 65536"
  shows "run (reserveCompositeList n d q) p (int (length p)) (p @ struct_ptr n d q @ replicate (nat (n * (d + q) * 8)) 0)"
proof -
  let ?m = "nat (n * (d + q) * 8)"
  have pos: "0 \<le> n * (d + q) * 8" using assms by simp
  have lo: "js_ushr (js_bitor (js_shl (js_bitand n 0x3FFFFFFF) 2) 0) 0 = n * 4" using u32_field(1) [of 0 2 n] assms by (simp add: field_masks)
  have hi: "js_ushr (js_bitor (js_bitand d 0xFFFF) (js_shl (js_bitand q 0xFFFF) 16)) 0 = q * 65536 + d"
    using u32_field(2) [of d 16 q] assms by (simp add: field_masks)
  have res: "\<exists>b'. m b = Inr (a, b') \<and> builds b' p'" if "run m p a p'" "builds b p" for m and a :: int and p' b p using that by (simp add: run_def)
  have reserved: "builds (let b1 = grow ((1 + n * (d + q)) * 8) b in b1\<lparr>wb_len := wb_len b1 + (1 + n * (d + q)) * 8\<rparr>) (p @ replicate 4 0 @ replicate 4 0 @ replicate ?m 0)"
    if "builds b p" for b
  proof -
    have "nat ((1 + n * (d + q)) * 8) = 8 + ?m" using pos by (simp add: nat_add_distrib algebra_simps)
    moreover have "replicate 8 (0 :: byte) = replicate 4 0 @ replicate 4 0" by (simp flip: replicate_add)
    ultimately show ?thesis using res [OF run_reserve that, of "1 + n * (d + q)"] pos by (auto simp: reserveWords_def WORD_def Let_def replicate_add)
  qed
  let ?step = "wbind (writeU32 (int (length p)) (js_bitor (js_shl (js_bitand n 0x3FFFFFFF) 2) KIND_STRUCT)) (\<lambda>_.
      wbind (writeU32 (int (length p) + 4) (js_bitor (js_bitand d 0xFFFF) (js_shl (js_bitand q 0xFFFF) 16))) (\<lambda>_ b2. Inr (int (length p), b2)))"
  have r1: "run (writeU32 (int (length p)) (js_bitor (js_shl (js_bitand n 0x3FFFFFFF) 2) KIND_STRUCT)) (p @ replicate 4 0 @ (replicate 4 0 @ replicate ?m 0)) () (p @ le_bytes 4 (n * 4) @ (replicate 4 0 @ replicate ?m 0))"
    unfolding writeU32_def KIND_STRUCT_def lo by (rule run_put) simp_all
  have r2: "run (writeU32 (int (length p) + 4) (js_bitor (js_bitand d 0xFFFF) (js_shl (js_bitand q 0xFFFF) 16))) ((p @ le_bytes 4 (n * 4)) @ replicate 4 0 @ replicate ?m 0) ()
     ((p @ le_bytes 4 (n * 4)) @ le_bytes 4 (q * 65536 + d) @ replicate ?m 0)"
    unfolding writeU32_def hi by (rule run_put) simp_all
  have "run ?step (p @ replicate 4 0 @ replicate 4 0 @ replicate ?m 0) (int (length p)) (p @ struct_ptr n d q @ replicate ?m 0)"
    using run_bind [OF r1 run_bind [OF r2 [simplified append_assoc] run_return]] by (simp add: struct_ptr_def)
  then show ?thesis
    using reserved grow_builds(2) pos by (auto simp: run_def reserveCompositeList_def Let_def WORD_def)
qed

section \<open>What the reader reads\<close>

lemma rbind_simps [simp]: "rbind (Inr a) f = f a" "rbind (Inl e) f = Inl e"
  by (simp_all add: rbind_def)

lemma guard_simps [simp]: "guard e True = Inr ()" "guard e False = Inl e"
  by (simp_all add: guard_def)

definition framed :: "bytes \<Rightarrow> bytes" where
  "framed p = replicate 4 0 @ le_bytes 4 (int (length p) div 8) @ p"

lemma length_framed [simp]: "length (framed p) = 8 + length p"
  by (simp add: framed_def)

lemma finalize_builds: "builds b p \<Longrightarrow> 8 dvd length p \<Longrightarrow> finalize b = Inr (framed p)"
  by (auto simp: builds_def finalize_def framed_def WORD_def zmod_int dvd_eq_mod_eq_0 [symmetric])

lemma getUint_at: "bs = x @ v @ y \<Longrightarrow> off = int (length x) \<Longrightarrow> length v = n \<Longrightarrow> getUint n bs off = Inr (le_value v)"
  by (simp add: getUint_def)

lemma le_value_append: "le_value (a @ b) = le_value a + 256 ^ length a * le_value b"
  by (induction a) (simp_all add: algebra_simps)

lemma segment_start: "int (length p) < 0x100000000 \<Longrightarrow> readSegmentStart (framed p) = Inr 8"
proof -
  assume p: "int (length p) < 0x100000000"
  have "getUint 4 (framed p) 0 = Inr (le_value (replicate 4 0))" by (rule getUint_at [of _ "[]" _ "le_bytes 4 (int (length p) div 8) @ p"]) (simp_all add: framed_def)
  moreover have "getUint 4 (framed p) 4 = Inr (le_value (le_bytes 4 (int (length p) div 8)))" by (rule getUint_at [of _ "replicate 4 0" _ p]) (simp_all add: framed_def)
  moreover have "int (length p) div 8 mod 4294967296 = int (length p) div 8" using p by simp
  moreover have "int (length p) div 8 * 8 \<le> int (length p)" by simp
  ultimately show ?thesis by (simp add: readSegmentStart_def le_value_le_bytes numeral_eq_Suc WORD_def)
qed

lemma pointer_fields:
  assumes "0 \<le> off" "off < 0x20000000" "0 \<le> kind" "kind < 4"
  shows "js_bitand (off * 4 + kind) 3 = kind" "signExtend30 (js_ushr (off * 4 + kind) 2) = off"
  using assms sign_clear [of off] by (simp_all add: field_masks js_ushr_int signExtend30_def)

lemma read_struct:
  assumes "bs = x @ struct_ptr off d q @ y" "at = int (length x)" "0 \<le> off" "off < 0x20000000" "0 \<le> d" "d < 65536" "0 \<le> q" "q < 65536"
  shows "readStructPointer bs at = Inr \<lparr>sp_target = at + 8 + off * 8, sp_dataWords = d, sp_ptrWords = q\<rparr>"
proof -
  have "getUint 4 bs at = Inr (le_value (le_bytes 4 (off * 4)))" by (rule getUint_at [of _ x _ "le_bytes 4 (q * 65536 + d) @ y"]) (simp_all add: assms struct_ptr_def)
  moreover have "getUint 4 bs (at + 4) = Inr (le_value (le_bytes 4 (q * 65536 + d)))" by (rule getUint_at [of _ "x @ le_bytes 4 (off * 4)" _ y]) (simp_all add: assms struct_ptr_def)
  moreover have "(q * 65536 + d) mod 4294967296 = q * 65536 + d" "off * 4 mod 4294967296 = off * 4" using assms by simp_all
  ultimately show ?thesis
    using pointer_fields [of off 0] assms by (simp add: readStructPointer_def readU32_def KIND_STRUCT_def WORD_def le_value_le_bytes field_masks js_ushr_int)
qed

lemma read_list:
  assumes "bs = x @ list_ptr off e n @ y" "at = int (length x)" "0 \<le> off" "off < 0x20000000" "0 \<le> e" "e < 8" "0 \<le> n" "n < 0x20000000"
  shows "readListPointer bs at = Inr \<lparr>lp_target = at + 8 + off * 8, lp_elementSize = e, lp_count = n\<rparr>"
proof -
  have "getUint 4 bs at = Inr (le_value (le_bytes 4 (off * 4 + 1)))" by (rule getUint_at [of _ x _ "le_bytes 4 (n * 8 + e) @ y"]) (simp_all add: assms list_ptr_def)
  moreover have "getUint 4 bs (at + 4) = Inr (le_value (le_bytes 4 (n * 8 + e)))" by (rule getUint_at [of _ "x @ le_bytes 4 (off * 4 + 1)" _ y]) (simp_all add: assms list_ptr_def)
  moreover have "(n * 8 + e) mod 4294967296 = n * 8 + e" "(off * 4 + 1) mod 4294967296 = off * 4 + 1" using assms by simp_all
  ultimately show ?thesis
    using pointer_fields [of off 1] assms by (simp add: readListPointer_def readU32_def KIND_LIST_def WORD_def le_value_le_bytes field_masks js_ushr_int)
qed

lemma read_tag:
  assumes "bs = x @ struct_ptr n d q @ y" "at = int (length x)" "0 \<le> n" "n < 0x8000000" "0 \<le> d" "d < 65536" "0 \<le> q" "q < 65536"
  shows "readCompositeListTag bs at = Inr \<lparr>lt_count = n, lt_dataWords = d, lt_ptrWords = q\<rparr>"
proof -
  have "getUint 4 bs at = Inr (le_value (le_bytes 4 (n * 4)))" by (rule getUint_at [of _ x _ "le_bytes 4 (q * 65536 + d) @ y"]) (simp_all add: assms struct_ptr_def)
  moreover have "getUint 4 bs (at + 4) = Inr (le_value (le_bytes 4 (q * 65536 + d)))" by (rule getUint_at [of _ "x @ le_bytes 4 (n * 4)" _ y]) (simp_all add: assms struct_ptr_def)
  moreover have "(q * 65536 + d) mod 4294967296 = q * 65536 + d" "n * 4 mod 4294967296 = n * 4" using assms by simp_all
  ultimately show ?thesis
    using pointer_fields [of n 0] sign_clear [of "n * 4"] assms
    by (simp add: readCompositeListTag_def readU32_def KIND_STRUCT_def le_value_le_bytes field_masks js_ushr_int)
qed

lemma read_part: "bs = x @ v @ y \<Longrightarrow> start = int (length x) \<Longrightarrow> len = int (length v) \<Longrightarrow> read_bytes bs start len = Inr v"
  by (simp add: read_bytes_def js_slice_def slice_bound_def nat_add_distrib)

lemma not_null:
  assumes "bs = x @ list_ptr off e n @ y" "at = int (length x)" "0 \<le> off" "off < 0x20000000"
  shows "isNullPointer bs at = Inr False"
proof -
  have "getUint 8 bs at = Inr (le_value (list_ptr off e n))" by (rule getUint_at [OF assms(1,2)]) simp
  moreover have "0 \<le> le_value v" for v by (induction v) simp_all
  moreover have "(off * 4 + 1) mod 4294967296 = off * 4 + 1" using assms(3,4) by simp
  ultimately show ?thesis using assms(3) by (auto simp: isNullPointer_def list_ptr_def le_value_append le_value_le_bytes add_nonneg_eq_0_iff)
qed

end
