(* ===== verification/Wire_Messages.thy ===== *)
theory Wire_Messages
  imports Wire_Codec
begin

text \<open>
  The messages of the companion wire: \<open>src/wire/tool-call.ts\<close>, \<open>src/wire/tool-result.ts\<close> and \<open>src/wire/manifest.ts\<close> over the
  codec. An encoder is a run of the builder, a decoder reads the bytes of one message; both raise where the code does. The
  layouts a message is proved to have are the ones the header comments of the sources draw.
\<close>

section \<open>Text\<close>

text \<open>\<open>new TextDecoder("utf-8", { fatal: true })\<close>: the bytes after a byte order mark are valid exactly when they are the encoding of
  the text read from them.\<close>

definition utf8_decode_fatal :: "bytes \<Rightarrow> jsstr option" where
  "utf8_decode_fatal b = (let s = utf8_decode b in if map unat (utf8_encode s) = strip_bom (map unat b) then Some s else None)"

definition encodeTextWithNul :: "jsstr \<Rightarrow> bytes" where
  "encodeTextWithNul s = utf8_encode s @ [0]"

definition decodeTextWithNul :: "bytes \<Rightarrow> wire_error + jsstr" where
  "decodeTextWithNul bs =
     (if bs = [] then Inl Text_empty
      else if last bs \<noteq> 0 then Inl Text_unterminated
      else case utf8_decode_fatal (butlast bs) of None \<Rightarrow> Inl Invalid_utf8 | Some s \<Rightarrow> Inr s)"

definition build :: "(wire_builder \<Rightarrow> wire_error + unit \<times> wire_builder) \<Rightarrow> wire_error + bytes" where
  "build m = rbind (m new_builder) (\<lambda>(_, b). finalize b)"

section \<open>Tool calls\<close>

record ToolCall =
  tc_upstreamId :: jsstr
  tc_toolName :: jsstr
  tc_argumentsJson :: bytes

definition encodeToolCall :: "ToolCall \<Rightarrow> wire_error + bytes" where
  "encodeToolCall tc =
     build (wbind (reserveWords 1) (\<lambda>rootPtr. wbind (reserveWords 1) (\<lambda>p0Off. wbind (reserveWords 1) (\<lambda>p1Off. wbind (reserveWords 1) (\<lambda>p2Off.
       wbind (writeStructPointer rootPtr p0Off 0 3) (\<lambda>_.
       let idBytes = encodeTextWithNul (tc_upstreamId tc); nameBytes = encodeTextWithNul (tc_toolName tc) in
       wbind (appendBytesPadded idBytes) (\<lambda>idAt. wbind (writeListPointer p0Off idAt ELEM_BYTE (int (length idBytes))) (\<lambda>_.
       wbind (appendBytesPadded nameBytes) (\<lambda>nameAt. wbind (writeListPointer p1Off nameAt ELEM_BYTE (int (length nameBytes))) (\<lambda>_.
       wbind (appendBytesPadded (tc_argumentsJson tc)) (\<lambda>argsAt. writeListPointer p2Off argsAt ELEM_BYTE (int (length (tc_argumentsJson tc))))))))))))))"

definition readData :: "bytes \<Rightarrow> int \<Rightarrow> wire_error + bytes" where
  "readData bs at =
     rbind (readListPointer bs at) (\<lambda>ptr.
     rbind (guard Element_size (lp_elementSize ptr = ELEM_BYTE)) (\<lambda>_. read_bytes bs (lp_target ptr) (lp_count ptr)))"

definition readText :: "bytes \<Rightarrow> int \<Rightarrow> wire_error + jsstr" where
  "readText bs at = rbind (readData bs at) decodeTextWithNul"

definition nullable :: "bytes \<Rightarrow> int \<Rightarrow> 'a \<Rightarrow> wire_error + 'a \<Rightarrow> wire_error + 'a" where
  "nullable bs at a m = rbind (isNullPointer bs at) (\<lambda>n. if n then Inr a else m)"

definition decodeToolCall :: "bytes \<Rightarrow> wire_error + ToolCall" where
  "decodeToolCall bs =
     rbind (readSegmentStart bs) (\<lambda>segStart.
     rbind (readStructPointer bs segStart) (\<lambda>root.
     rbind (guard Struct_too_small (3 \<le> sp_ptrWords root)) (\<lambda>_.
       let ptrSection = sp_target root + sp_dataWords root * WORD; idAt = ptrSection; nameAt = ptrSection + WORD; argsAt = ptrSection + 2 * WORD in
       rbind (nullable bs idAt [] (readText bs idAt)) (\<lambda>upstreamId.
       rbind (nullable bs nameAt [] (readText bs nameAt)) (\<lambda>toolName.
       rbind (nullable bs argsAt [] (readData bs argsAt)) (\<lambda>argumentsJson.
         Inr \<lparr>tc_upstreamId = upstreamId, tc_toolName = toolName, tc_argumentsJson = argumentsJson\<rparr>))))))"

section \<open>Tool results\<close>

datatype Content = TextContent jsstr | BinaryContent bytes jsstr | ResourceContent bytes

record ToolResult =
  tr_content :: "Content list"
  tr_isError :: bool

definition ELEM_COMPOSITE :: int where
  "ELEM_COMPOSITE = 7"

fun encodeContentElement :: "Content \<Rightarrow> int \<Rightarrow> int \<Rightarrow> wire_builder \<Rightarrow> wire_error + unit \<times> wire_builder" where
  "encodeContentElement (TextContent s) dataOff ptrOff =
     wbind (writeU16 dataOff 0) (\<lambda>_. wbind (appendBytesPadded (encodeTextWithNul s)) (\<lambda>at.
       writeListPointer ptrOff at ELEM_BYTE (int (length (encodeTextWithNul s)))))"
| "encodeContentElement (BinaryContent d mimeType) dataOff ptrOff =
     wbind (writeU16 dataOff 1) (\<lambda>_. wbind (reserveWords 2) (\<lambda>bcSection. wbind (writeStructPointer ptrOff bcSection 0 2) (\<lambda>_.
       wbind (appendBytesPadded d) (\<lambda>dataAt. wbind (writeListPointer bcSection dataAt ELEM_BYTE (int (length d))) (\<lambda>_.
       wbind (appendBytesPadded (encodeTextWithNul mimeType)) (\<lambda>mtAt.
         writeListPointer (bcSection + WORD) mtAt ELEM_BYTE (int (length (encodeTextWithNul mimeType)))))))))"
| "encodeContentElement (ResourceContent r) dataOff ptrOff =
     wbind (writeU16 dataOff 2) (\<lambda>_. wbind (appendBytesPadded r) (\<lambda>at. writeListPointer ptrOff at ELEM_BYTE (int (length r))))"

fun encode_contents :: "int \<Rightarrow> int \<Rightarrow> Content list \<Rightarrow> wire_builder \<Rightarrow> wire_error + unit \<times> wire_builder" where
  "encode_contents tagOff i [] = (\<lambda>b. Inr ((), b))"
| "encode_contents tagOff i (c # cs) =
     (let elemOff = tagOff + WORD + i * 2 * WORD in
      wbind (encodeContentElement c elemOff (elemOff + WORD)) (\<lambda>_. encode_contents tagOff (i + 1) cs))"

definition encodeToolResult :: "ToolResult \<Rightarrow> wire_error + bytes" where
  "encodeToolResult tr =
     build (wbind (reserveWords 1) (\<lambda>rootPtr. wbind (reserveWords 1) (\<lambda>dataOff. wbind (reserveWords 1) (\<lambda>listPtrAt.
       wbind (writeStructPointer rootPtr dataOff 1 1) (\<lambda>_. wbind (writeBit dataOff 0 (tr_isError tr)) (\<lambda>_.
       let cnt = int (length (tr_content tr)) in
       wbind (reserveCompositeList cnt 1 1) (\<lambda>tagOff. wbind (writeListPointer listPtrAt tagOff ELEM_COMPOSITE (cnt * 2)) (\<lambda>_.
         encode_contents tagOff 0 (tr_content tr)))))))))"

definition decodeContentElement :: "bytes \<Rightarrow> int \<Rightarrow> int \<Rightarrow> int \<Rightarrow> wire_error + Content" where
  "decodeContentElement bs elemOff dataWords ptrWords =
     rbind (guard Element_too_small (1 \<le> dataWords \<and> 1 \<le> ptrWords)) (\<lambda>_.
     let elemPtrOff = elemOff + dataWords * WORD in
     rbind (readU16 bs elemOff) (\<lambda>discriminant.
       if discriminant = 0 then rbind (readText bs elemPtrOff) (\<lambda>s. Inr (TextContent s))
       else if discriminant = 2 then rbind (readData bs elemPtrOff) (\<lambda>r. Inr (ResourceContent r))
       else if discriminant = 1 then
         rbind (readStructPointer bs elemPtrOff) (\<lambda>bc.
         rbind (guard Struct_too_small (2 \<le> sp_ptrWords bc)) (\<lambda>_.
           let bcPtrSection = sp_target bc + sp_dataWords bc * WORD in
           rbind (readListPointer bs bcPtrSection) (\<lambda>dataPtr.
           rbind (readListPointer bs (bcPtrSection + WORD)) (\<lambda>mtPtr.
           rbind (guard Element_size (lp_elementSize dataPtr = ELEM_BYTE)) (\<lambda>_.
           rbind (guard Element_size (lp_elementSize mtPtr = ELEM_BYTE)) (\<lambda>_.
           rbind (read_bytes bs (lp_target dataPtr) (lp_count dataPtr)) (\<lambda>d.
           rbind (read_bytes bs (lp_target mtPtr) (lp_count mtPtr)) (\<lambda>mt.
           rbind (decodeTextWithNul mt) (\<lambda>mimeType. Inr (BinaryContent d mimeType))))))))))
       else Inl Unknown_discriminant))"

text \<open>The loop over the elements: the number left and the index of the next.\<close>

fun decode_contents :: "bytes \<Rightarrow> int \<Rightarrow> int \<Rightarrow> int \<Rightarrow> nat \<Rightarrow> int \<Rightarrow> wire_error + Content list" where
  "decode_contents bs target dataWords ptrWords 0 i = Inr []"
| "decode_contents bs target dataWords ptrWords (Suc n) i =
     rbind (decodeContentElement bs (target + WORD + i * (dataWords + ptrWords) * WORD) dataWords ptrWords) (\<lambda>c.
     rbind (decode_contents bs target dataWords ptrWords n (i + 1)) (\<lambda>cs. Inr (c # cs)))"

definition decodeToolResult :: "bytes \<Rightarrow> wire_error + ToolResult" where
  "decodeToolResult bs =
     rbind (readSegmentStart bs) (\<lambda>segStart.
     rbind (readStructPointer bs segStart) (\<lambda>root.
     rbind (guard Struct_too_small (1 \<le> sp_dataWords root \<and> 1 \<le> sp_ptrWords root)) (\<lambda>_.
     rbind (readBit bs (sp_target root) 0) (\<lambda>isError.
     rbind (readListPointer bs (sp_target root + sp_dataWords root * WORD)) (\<lambda>listPtr.
     rbind (guard Element_size (lp_elementSize listPtr = ELEM_COMPOSITE)) (\<lambda>_.
     rbind (readCompositeListTag bs (lp_target listPtr)) (\<lambda>tag.
     rbind (guard Count_mismatch (lp_count listPtr = lt_count tag * (lt_dataWords tag + lt_ptrWords tag))) (\<lambda>_.
     rbind (decode_contents bs (lp_target listPtr) (lt_dataWords tag) (lt_ptrWords tag) (nat (lt_count tag)) 0) (\<lambda>content.
       Inr \<lparr>tr_content = content, tr_isError = (isError = 1)\<rparr>)))))))))"

section \<open>Manifests\<close>

record Manifest =
  mf_sequence :: int
  mf_publicKey :: bytes
  mf_signature :: bytes
  mf_contentHash :: bytes

definition MANIFEST_PUBKEY_BYTES :: nat where "MANIFEST_PUBKEY_BYTES = 32"
definition MANIFEST_SIG_BYTES :: nat where "MANIFEST_SIG_BYTES = 64"
definition MANIFEST_HASH_BYTES :: nat where "MANIFEST_HASH_BYTES = 32"

definition encodeManifest :: "Manifest \<Rightarrow> wire_error + bytes" where
  "encodeManifest m =
     rbind (guard Field_shape (length (mf_publicKey m) = MANIFEST_PUBKEY_BYTES)) (\<lambda>_.
     rbind (guard Field_shape (length (mf_signature m) = MANIFEST_SIG_BYTES)) (\<lambda>_.
     rbind (guard Field_shape (length (mf_contentHash m) = MANIFEST_HASH_BYTES)) (\<lambda>_.
     build (wbind (reserveWords 1) (\<lambda>rootPtr. wbind (reserveWords 1) (\<lambda>dataOff. wbind (reserveWords 1) (\<lambda>p0Off. wbind (reserveWords 1) (\<lambda>p1Off.
       wbind (reserveWords 1) (\<lambda>p2Off. wbind (writeStructPointer rootPtr dataOff 1 3) (\<lambda>_. wbind (writeU64 dataOff (mf_sequence m)) (\<lambda>_.
       wbind (appendBytesPadded (mf_publicKey m)) (\<lambda>pkOff. wbind (writeListPointer p0Off pkOff ELEM_BYTE (int MANIFEST_PUBKEY_BYTES)) (\<lambda>_.
       wbind (appendBytesPadded (mf_signature m)) (\<lambda>sigOff. wbind (writeListPointer p1Off sigOff ELEM_BYTE (int MANIFEST_SIG_BYTES)) (\<lambda>_.
       wbind (appendBytesPadded (mf_contentHash m)) (\<lambda>chOff. writeListPointer p2Off chOff ELEM_BYTE (int MANIFEST_HASH_BYTES)))))))))))))))))"

definition shaped :: "ListPtr \<Rightarrow> nat \<Rightarrow> wire_error + unit" where
  "shaped ptr n = guard Field_shape (lp_elementSize ptr = ELEM_BYTE \<and> lp_count ptr = int n)"

definition decodeManifest :: "bytes \<Rightarrow> wire_error + Manifest" where
  "decodeManifest bs =
     rbind (readSegmentStart bs) (\<lambda>segStart.
     rbind (readStructPointer bs segStart) (\<lambda>root.
     rbind (guard Struct_too_small (1 \<le> sp_dataWords root \<and> 3 \<le> sp_ptrWords root)) (\<lambda>_.
     rbind (readU64 bs (sp_target root)) (\<lambda>sequence.
     rbind (readListPointer bs (sp_target root + WORD)) (\<lambda>ptr0.
     rbind (readListPointer bs (sp_target root + 2 * WORD)) (\<lambda>ptr1.
     rbind (readListPointer bs (sp_target root + 3 * WORD)) (\<lambda>ptr2.
     rbind (shaped ptr0 MANIFEST_PUBKEY_BYTES) (\<lambda>_. rbind (shaped ptr1 MANIFEST_SIG_BYTES) (\<lambda>_. rbind (shaped ptr2 MANIFEST_HASH_BYTES) (\<lambda>_.
     rbind (read_bytes bs (lp_target ptr0) (int MANIFEST_PUBKEY_BYTES)) (\<lambda>publicKey.
     rbind (read_bytes bs (lp_target ptr1) (int MANIFEST_SIG_BYTES)) (\<lambda>signature.
     rbind (read_bytes bs (lp_target ptr2) (int MANIFEST_HASH_BYTES)) (\<lambda>contentHash.
       Inr \<lparr>mf_sequence = sequence, mf_publicKey = publicKey, mf_signature = signature, mf_contentHash = contentHash\<rparr>)))))))))))))"

section \<open>Calls\<close>

lemma text_roundtrip: "plain_text s \<Longrightarrow> decodeTextWithNul (encodeTextWithNul s) = Inr s"
  by (simp add: decodeTextWithNul_def encodeTextWithNul_def utf8_decode_fatal_def Let_def utf8_roundtrip unat_utf8_encode strip_bom_encode)

lemma build_run: "run m [] () p \<Longrightarrow> 8 dvd length p \<Longrightarrow> build m = Inr (framed p)"
  using builds_new finalize_builds by (fastforce simp: run_def build_def)

definition words :: "bytes \<Rightarrow> int" where
  "words bs = int (length (padded bs)) div 8"

lemma words_len: "int (length (padded bs)) = words bs * 8" "0 \<le> words bs"
  using length_padded_dvd [of bs] by (auto simp: words_def)

lemma words_bound: "int (length bs) \<le> words bs * 8" "words bs * 8 \<le> int (length bs) + 7"
  using words_len(1) [of bs] by (simp_all add: length_padded)

lemma run_word: "run (reserveWords 1) p (int (length p)) (p @ replicate 8 0)"
  using run_reserve [of 1 p] by simp

lemma run_words3:
  "run (f 0 8 16) (replicate 8 0 @ replicate 8 0 @ replicate 8 0) a p \<Longrightarrow>
   run (wbind (reserveWords 1) (\<lambda>i. wbind (reserveWords 1) (\<lambda>j. wbind (reserveWords 1) (\<lambda>k. f i j k)))) [] a p"
  by (rule run_bind [OF run_word], rule run_bind [OF run_word], rule run_bind [OF run_word]) simp

lemma run_words4:
  "run (f 0 8 16 24) (replicate 8 0 @ replicate 8 0 @ replicate 8 0 @ replicate 8 0) a p \<Longrightarrow>
   run (wbind (reserveWords 1) (\<lambda>i. wbind (reserveWords 1) (\<lambda>j. wbind (reserveWords 1) (\<lambda>k. wbind (reserveWords 1) (\<lambda>l. f i j k l))))) [] a p"
  by (rule run_words3 [where f = "\<lambda>i j k. wbind (reserveWords 1) (f i j k)"], rule run_bind [OF run_word]) simp

text \<open>An encoder that has reserved \<open>x\<close>, an empty pointer and \<open>y\<close> appends a field and points to it.\<close>

lemma run_field:
  assumes "at = int (length x)" "e = 2" "n = int (length bs)" "int (length y) = k * 8" "0 \<le> k" "k < 0x20000000" "n < 0x20000000"
  shows "run (wbind (appendBytesPadded bs) (\<lambda>p. writeListPointer at p e n)) (x @ replicate 8 0 @ y) () (x @ list_ptr k 2 n @ y @ padded bs)"
proof (rule run_bind)
  show "run (appendBytesPadded bs) (x @ replicate 8 0 @ y) (int (length (x @ replicate 8 0 @ y))) (x @ replicate 8 0 @ (y @ padded bs))"
    using run_append [of bs "x @ replicate 8 0 @ y"] assms by simp
  show "run (writeListPointer at (int (length (x @ replicate 8 0 @ y))) e n) (x @ replicate 8 0 @ (y @ padded bs)) () (x @ list_ptr k 2 n @ y @ padded bs)"
    unfolding assms(2) by (rule run_list_ptr) (use assms in simp_all)
qed

lemma wbind_assoc: "wbind (wbind m f) g = wbind m (\<lambda>a. wbind (f a) g)"
  by (auto simp: wbind_def fun_eq_iff split: sum.splits)

lemma run_fieldC:
  assumes "at = int (length x)" "e = 2" "n = int (length bs)" "int (length y) = k * 8" "0 \<le> k" "k < 0x20000000" "n < 0x20000000"
    "run m (x @ list_ptr k 2 n @ y @ padded bs) a p'"
  shows "run (wbind (appendBytesPadded bs) (\<lambda>p. wbind (writeListPointer at p e n) (\<lambda>_. m))) (x @ replicate 8 0 @ y) a p'"
  using run_bind [OF run_field [OF assms(1-7)], of "\<lambda>_. m"] assms(8) by (simp add: wbind_assoc)

definition call_layout :: "bytes \<Rightarrow> bytes \<Rightarrow> bytes \<Rightarrow> bytes" where
  "call_layout u n a = struct_ptr 0 0 3 @ list_ptr 2 2 (int (length u)) @ list_ptr (1 + words u) 2 (int (length n)) @
     list_ptr (words u + words n) 2 (int (length a)) @ padded u @ padded n @ padded a"

lemma call_layout_dvd: "8 dvd length (call_layout u n a)"
  by (simp add: call_layout_def length_padded_dvd)

lemma encode_call:
  assumes "u = encodeTextWithNul (tc_upstreamId tc)" "n = encodeTextWithNul (tc_toolName tc)" "a = tc_argumentsJson tc"
    and small: "int (length u) + int (length n) + int (length a) < 0x10000000"
  shows "encodeToolCall tc = Inr (framed (call_layout u n a))"
proof -
  note b = words_len(2) words_bound(2) [of u] words_bound(2) [of n]
  let ?z = "replicate 8 (0 :: byte)"
  have s: "run (writeStructPointer 0 8 0 3) (?z @ ?z @ ?z @ ?z) () (struct_ptr 0 0 3 @ ?z @ ?z @ ?z)"
    using run_struct_ptr [of 0 "[]" ?z 0 8 0 3 "?z @ ?z @ ?z"] by simp
  have 3: "run (wbind (appendBytesPadded a) (\<lambda>p. writeListPointer 24 p 2 (int (length a))))
      (struct_ptr 0 0 3 @ list_ptr 2 2 (int (length u)) @ list_ptr (1 + words u) 2 (int (length n)) @ ?z @ padded u @ padded n) () (call_layout u n a)"
    using run_field [of 24 "struct_ptr 0 0 3 @ list_ptr 2 2 (int (length u)) @ list_ptr (1 + words u) 2 (int (length n))" 2 _ a "padded u @ padded n" "words u + words n"] small b
    by (simp add: call_layout_def words_len algebra_simps)
  note 2 = run_fieldC [of 16 "struct_ptr 0 0 3 @ list_ptr 2 2 (int (length u))" 2 _ n "?z @ padded u" "1 + words u", unfolded append_assoc]
  note 1 = run_fieldC [of 8 "struct_ptr 0 0 3" 2 _ u "?z @ ?z" 2, unfolded append_assoc]
  have "run (wbind (appendBytesPadded u) (\<lambda>p. wbind (writeListPointer 8 p 2 (int (length u))) (\<lambda>_.
      wbind (appendBytesPadded n) (\<lambda>p. wbind (writeListPointer 16 p 2 (int (length n))) (\<lambda>_.
      wbind (appendBytesPadded a) (\<lambda>p. writeListPointer 24 p 2 (int (length a)))))))) (struct_ptr 0 0 3 @ ?z @ ?z @ ?z) () (call_layout u n a)"
    using small b by (intro 1 2 3) (simp_all add: words_len)
  then show ?thesis
    unfolding encodeToolCall_def Let_def ELEM_BYTE_def assms(1-3) [symmetric] by (intro build_run call_layout_dvd run_words4 run_bind [OF s])
qed

lemma read_data:
  assumes "bs = x @ list_ptr k 2 (int (length v)) @ y @ v @ z" "at = int (length x)" "int (length y) = k * 8" "0 \<le> k" "k < 0x20000000" "int (length v) < 0x20000000"
  shows "readData bs at = Inr v" "isNullPointer bs at = Inr False"
proof -
  have "readListPointer bs at = Inr \<lparr>lp_target = at + 8 + k * 8, lp_elementSize = 2, lp_count = int (length v)\<rparr>"
    by (rule read_list [OF assms(1,2)]) (use assms in simp_all)
  moreover have "read_bytes bs (at + 8 + k * 8) (int (length v)) = Inr v"
    by (rule read_part [of _ "x @ list_ptr k 2 (int (length v)) @ y" _ z]) (use assms in simp_all)
  ultimately show "readData bs at = Inr v" by (simp add: readData_def ELEM_BYTE_def)
  show "isNullPointer bs at = Inr False" by (rule not_null [OF assms(1,2,4,5)])
qed

definition wire_call_ok :: "ToolCall \<Rightarrow> bool" where
  "wire_call_ok tc \<longleftrightarrow> plain_text (tc_upstreamId tc) \<and> plain_text (tc_toolName tc) \<and>
     int (length (utf8_encode (tc_upstreamId tc))) + int (length (utf8_encode (tc_toolName tc))) + int (length (tc_argumentsJson tc)) < 2 ^ 28 - 2"

lemma decode_call:
  assumes "u = encodeTextWithNul (tc_upstreamId tc)" "n = encodeTextWithNul (tc_toolName tc)" "a = tc_argumentsJson tc"
    and small: "int (length u) + int (length n) + int (length a) < 0x10000000" and plain: "plain_text (tc_upstreamId tc)" "plain_text (tc_toolName tc)"
  shows "decodeToolCall (framed (call_layout u n a)) = Inr tc"
proof -
  note b = words_len(2) words_bound(2) [of u] words_bound(2) [of n] words_bound(2) [of a]
  let ?h = "replicate 4 0 @ le_bytes 4 (int (length (call_layout u n a)) div 8)"
  let ?pu = "drop (length u) (padded u)" let ?pn = "drop (length n) (padded n)" let ?pa = "drop (length a) (padded a)"
  let ?lu = "list_ptr 2 2 (int (length u))" let ?ln = "list_ptr (1 + words u) 2 (int (length n))" let ?la = "list_ptr (words u + words n) 2 (int (length a))"
  have pad: "padded v = v @ drop (length v) (padded v)" for v by (simp add: padded_def)
  have L: "framed (call_layout u n a) = ?h @ struct_ptr 0 0 3 @ ?lu @ ?ln @ ?la @ u @ ?pu @ padded n @ padded a"
    "framed (call_layout u n a) = ?h @ struct_ptr 0 0 3 @ ?lu @ ?ln @ ?la @ padded u @ n @ ?pn @ padded a"
    "framed (call_layout u n a) = ?h @ struct_ptr 0 0 3 @ ?lu @ ?ln @ ?la @ padded u @ padded n @ a @ ?pa"
    unfolding framed_def call_layout_def by (simp_all add: pad [symmetric] flip: append_assoc)
  have "int (length (call_layout u n a)) < 0x100000000" using small b by (simp add: call_layout_def words_len)
  note seg = segment_start [OF this]
  have root: "readStructPointer (framed (call_layout u n a)) 8 = Inr \<lparr>sp_target = 16, sp_dataWords = 0, sp_ptrWords = 3\<rparr>"
    using read_struct [OF L(1)] by simp
  have u: "readData (framed (call_layout u n a)) 16 = Inr u" "isNullPointer (framed (call_layout u n a)) 16 = Inr False"
    using read_data [of _ "?h @ struct_ptr 0 0 3" 2 u "?ln @ ?la" "?pu @ padded n @ padded a" 16] L(1) small by simp_all
  have n: "readData (framed (call_layout u n a)) 24 = Inr n" "isNullPointer (framed (call_layout u n a)) 24 = Inr False"
    using read_data [of _ "?h @ struct_ptr 0 0 3 @ ?lu" "1 + words u" n "?la @ padded u" "?pn @ padded a" 24] L(2) small b by (simp_all add: words_len)
  have a: "readData (framed (call_layout u n a)) 32 = Inr a" "isNullPointer (framed (call_layout u n a)) 32 = Inr False"
    using read_data [of _ "?h @ struct_ptr 0 0 3 @ ?lu @ ?ln" "words u + words n" a "padded u @ padded n" "?pa" 32] L(3) small b by (simp_all add: words_len)
  show ?thesis
    using seg root u n a plain assms(1-3) by (simp add: decodeToolCall_def readText_def nullable_def WORD_def text_roundtrip Let_def)
qed

section \<open>Results\<close>

fun content_discr :: "Content \<Rightarrow> int" where
  "content_discr (TextContent s) = 0"
| "content_discr (BinaryContent d m) = 1"
| "content_discr (ResourceContent r) = 2"

fun content_ptr :: "int \<Rightarrow> Content \<Rightarrow> bytes" where
  "content_ptr k (TextContent s) = list_ptr k 2 (int (length (encodeTextWithNul s)))"
| "content_ptr k (BinaryContent d m) = struct_ptr k 0 2"
| "content_ptr k (ResourceContent r) = list_ptr k 2 (int (length r))"

fun content_payload :: "Content \<Rightarrow> bytes" where
  "content_payload (TextContent s) = padded (encodeTextWithNul s)"
| "content_payload (BinaryContent d m) = list_ptr 1 2 (int (length d)) @ list_ptr (words d) 2 (int (length (encodeTextWithNul m))) @ padded d @ padded (encodeTextWithNul m)"
| "content_payload (ResourceContent r) = padded r"

definition content_slot :: "int \<Rightarrow> Content \<Rightarrow> bytes" where
  "content_slot k c = le_bytes 2 (content_discr c) @ replicate 6 0 @ content_ptr k c"

fun slots :: "int \<Rightarrow> Content list \<Rightarrow> bytes" where
  "slots k [] = []"
| "slots k (c # cs) = content_slot k c @ slots (k + int (length (content_payload c)) div 8 - 2) cs"

fun content_plain :: "Content \<Rightarrow> bool" where
  "content_plain (TextContent s) = plain_text s"
| "content_plain (BinaryContent d m) = plain_text m"
| "content_plain (ResourceContent r) = True"

lemma content_slot_length [simp]: "length (content_slot k c) = 16"
  by (cases c) (simp_all add: content_slot_def)

lemma slots_length [simp]: "length (slots k cs) = 16 * length cs"
  by (induction cs arbitrary: k) simp_all

lemma content_payload_dvd: "8 dvd length (content_payload c)"
  by (cases c) (simp_all add: length_padded_dvd)

lemma padded_length_le: "length bs \<le> length (padded bs)"
  by (simp add: padded_def)

lemma run_discr:
  assumes "off = int (length x)" "0 \<le> v" "v < 65536" "run m ((x @ le_bytes 2 v @ replicate 6 0) @ replicate 8 0 @ y) a p"
  shows "run (wbind (writeU16 off v) (\<lambda>_. m)) (x @ replicate 16 0 @ y) a p"
proof (rule run_bind)
  have "replicate 16 (0 :: byte) = replicate 2 0 @ replicate 6 0 @ replicate 8 0" by (simp flip: replicate_add)
  moreover have "run (put_bytes off (le_bytes 2 v)) (x @ replicate 2 0 @ (replicate 6 0 @ replicate 8 0 @ y)) () (x @ le_bytes 2 v @ (replicate 6 0 @ replicate 8 0 @ y))"
    by (rule run_put) (simp_all add: assms)
  ultimately show "run (writeU16 off v) (x @ replicate 16 0 @ y) () ((x @ le_bytes 2 v @ replicate 6 0) @ replicate 8 0 @ y)"
    using assms by (simp add: writeU16_def field_masks)
qed (rule assms(4))

lemma run_element:
  assumes y: "int (length y) = k * 8" "0 \<le> k" and small: "k + int (length (content_payload c)) < 0x10000000" and x: "off = int (length x)"
  shows "run (encodeContentElement c off (off + 8)) (x @ replicate 16 0 @ y) () (x @ content_slot k c @ y @ content_payload c)"
proof (cases c)
  case (TextContent s)
  let ?x = "x @ le_bytes 2 0 @ replicate 6 0"
  have "run (wbind (appendBytesPadded (encodeTextWithNul s)) (\<lambda>p. writeListPointer (off + 8) p 2 (int (length (encodeTextWithNul s))))) (?x @ replicate 8 0 @ y) ()
      (?x @ list_ptr k 2 (int (length (encodeTextWithNul s))) @ y @ padded (encodeTextWithNul s))"
    by (rule run_field) (use assms TextContent padded_length_le [of "encodeTextWithNul s"] in simp_all)
  then show ?thesis using TextContent x by (auto simp: ELEM_BYTE_def content_slot_def intro!: run_discr)
next
  case (ResourceContent r)
  let ?x = "x @ le_bytes 2 2 @ replicate 6 0"
  have "run (wbind (appendBytesPadded r) (\<lambda>p. writeListPointer (off + 8) p 2 (int (length r)))) (?x @ replicate 8 0 @ y) () (?x @ list_ptr k 2 (int (length r)) @ y @ padded r)"
    by (rule run_field) (use assms ResourceContent padded_length_le [of r] in simp_all)
  then show ?thesis using ResourceContent x by (auto simp: ELEM_BYTE_def content_slot_def intro!: run_discr)
next
  case (BinaryContent d m)
  let ?x = "x @ le_bytes 2 1 @ replicate 6 0" let ?z = "replicate 8 (0 :: byte)" let ?m = "encodeTextWithNul m"
  let ?at = "int (length (?x @ ?z @ y))"
  have l: "int (length d) \<le> words d * 8" "words d * 8 + int (length ?m) < 0x10000000" "0 \<le> words d" "k < 0x10000000"
    using small y(2) BinaryContent words_len(1) [of d] words_len(2) [of d] words_bound(1) [of d] padded_length_le [of ?m] by simp_all
  have r: "run (reserveWords 2) (?x @ ?z @ y) ?at (?x @ ?z @ (y @ ?z @ ?z))"
    using run_reserve [of 2 "?x @ ?z @ y"] replicate_add [of 8 8 "0 :: byte"] by simp
  have s: "run (writeStructPointer (off + 8) ?at 0 2) (?x @ ?z @ (y @ ?z @ ?z)) () (?x @ struct_ptr k 0 2 @ (y @ ?z @ ?z))"
    by (rule run_struct_ptr) (use x y l in simp_all)
  have f2: "run (wbind (appendBytesPadded ?m) (\<lambda>p. writeListPointer (?at + 8) p 2 (int (length ?m))))
      ((?x @ struct_ptr k 0 2 @ y @ list_ptr 1 2 (int (length d))) @ ?z @ padded d) () ((?x @ struct_ptr k 0 2 @ y @ list_ptr 1 2 (int (length d))) @ list_ptr (words d) 2 (int (length ?m)) @ padded d @ padded ?m)"
    by (rule run_field) (use l words_len(1) [of d] in simp_all)
  have f1: "run (wbind (appendBytesPadded d) (\<lambda>p. wbind (writeListPointer ?at p 2 (int (length d))) (\<lambda>_. wbind (appendBytesPadded ?m) (\<lambda>p. writeListPointer (?at + 8) p 2 (int (length ?m))))))
      ((?x @ struct_ptr k 0 2 @ y) @ ?z @ ?z) () (?x @ struct_ptr k 0 2 @ y @ content_payload c)"
    by (rule run_fieldC [where k = 1]) (use l f2 BinaryContent in simp_all)
  have "run (wbind (reserveWords 2) (\<lambda>bc. wbind (writeStructPointer (off + 8) bc 0 2) (\<lambda>_. wbind (appendBytesPadded d) (\<lambda>p. wbind (writeListPointer bc p 2 (int (length d))) (\<lambda>_.
      wbind (appendBytesPadded ?m) (\<lambda>p. writeListPointer (bc + 8) p 2 (int (length ?m)))))))) (?x @ ?z @ y) () (?x @ struct_ptr k 0 2 @ y @ content_payload c)"
    by (rule run_bind [OF r], rule run_bind [OF s]) (use f1 in simp)
  then show ?thesis unfolding BinaryContent using x by (auto simp: ELEM_BYTE_def WORD_def content_slot_def BinaryContent intro!: run_discr)
qed

lemma run_contents:
  assumes "int (length y) = j * 8" "0 \<le> j" "k = 2 * int (length cs) - 2 + j" "int (length x) = tagOff + 8 + i * 16"
    "2 * int (length cs) + j + int (length (concat (map content_payload cs))) < 0x10000000"
  shows "run (encode_contents tagOff i cs) (x @ replicate (16 * length cs) 0 @ y) () (x @ slots k cs @ y @ concat (map content_payload cs))"
  using assms
proof (induction cs arbitrary: x y i j k)
  case Nil
  then show ?case by (simp add: run_return)
next
  case (Cons c cs)
  let ?p = "content_payload c" let ?off = "tagOff + 8 + i * 16" let ?y = "replicate (16 * length cs) 0 @ y"
  have dvd: "int (length ?p) = int (length ?p) div 8 * 8" using content_payload_dvd [of c] by auto
  have e: "run (encodeContentElement c ?off (?off + 8)) (x @ replicate 16 0 @ ?y) () (x @ content_slot k c @ ?y @ ?p)"
    by (rule run_element) (use Cons.prems in simp_all)
  have "run (encode_contents tagOff (i + 1) cs) ((x @ content_slot k c) @ replicate (16 * length cs) 0 @ (y @ ?p)) ()
      ((x @ content_slot k c) @ slots (k + int (length ?p) div 8 - 2) cs @ (y @ ?p) @ concat (map content_payload cs))"
    by (rule Cons.IH [of _ "j + int (length ?p) div 8"]) (use Cons.prems dvd in \<open>simp_all add: algebra_simps\<close>)
  then have "run (wbind (encodeContentElement c ?off (?off + 8)) (\<lambda>_. encode_contents tagOff (i + 1) cs)) (x @ replicate 16 0 @ ?y) ()
      (x @ slots k (c # cs) @ y @ concat (map content_payload (c # cs)))"
    by (intro run_bind [OF e]) simp
  moreover have "x @ replicate 16 0 @ ?y = x @ replicate (16 * length (c # cs)) 0 @ y" by (simp add: replicate_add)
  ultimately show ?case by (simp add: Let_def WORD_def algebra_simps replicate_add)
qed

lemma run_bit:
  assumes "off = int (length x)"
  shows "run (writeBit off 0 v) (x @ [0] @ y) () (x @ [of_bool v] @ y)"
  unfolding run_def
proof (intro allI impI)
  fix b assume b: "builds b (x @ [0] @ y)"
  then obtain k where "wb_buf b = x @ [0] @ y @ replicate k 0" by (auto simp: builds_def)
  then have "getUint 1 (wb_buf b) off = Inr (le_value [0])" using assms by (intro getUint_at [of _ x _ "y @ replicate k 0"]) simp_all
  moreover have "le_bytes 1 (if v then js_bitor 0 (js_shl 1 0) else js_bitand 0 (- js_shl 1 0 - 1)) = [of_bool v]"
    by (simp add: js_bitor_def js_bitand_def js_shl_def to_u8_def)
  moreover have "\<exists>b'. put_bytes off [of_bool v] b = Inr ((), b') \<and> builds b' (x @ [of_bool v] @ y)"
    using run_put [OF assms, of "[0]" "[of_bool v]" y] b by (simp add: run_def)
  ultimately show "\<exists>b'. writeBit off 0 v b = Inr ((), b') \<and> builds b' (x @ [of_bool v] @ y)"
    by (auto simp: writeBit_def Let_def field_masks)
qed

definition result_layout :: "ToolResult \<Rightarrow> bytes" where
  "result_layout tr = struct_ptr 0 1 1 @ ([of_bool (tr_isError tr)] @ replicate 7 0) @ list_ptr 0 7 (2 * int (length (tr_content tr))) @
     struct_ptr (int (length (tr_content tr))) 1 1 @ slots (2 * int (length (tr_content tr)) - 2) (tr_content tr) @ concat (map content_payload (tr_content tr))"

definition result_size :: "ToolResult \<Rightarrow> int" where
  "result_size tr = 2 * int (length (tr_content tr)) + int (length (concat (map content_payload (tr_content tr))))"

lemma result_layout_dvd: "8 dvd length (result_layout tr)"
proof -
  have "8 dvd length (concat (map content_payload cs))" for cs by (induction cs) (simp_all add: content_payload_dvd)
  then show ?thesis by (simp add: result_layout_def)
qed

lemma encode_result:
  assumes small: "result_size tr < 0x10000000"
  shows "encodeToolResult tr = Inr (framed (result_layout tr))"
proof -
  let ?z = "replicate 8 (0 :: byte)" let ?n = "int (length (tr_content tr))" let ?cs = "tr_content tr"
  let ?e = "[of_bool (tr_isError tr)] @ replicate 7 (0 :: byte)"
  have n: "2 * ?n < 0x10000000" using small by (simp add: result_size_def)
  have s: "run (writeStructPointer 0 8 1 1) (?z @ ?z @ ?z) () (struct_ptr 0 1 1 @ ?z @ ?z)"
    using run_struct_ptr [of 0 "[]" ?z 0 8 1 1 "?z @ ?z"] by simp
  have z: "?z = [0] @ replicate 7 0" by (simp add: numeral_eq_Suc)
  have b: "run (writeBit 8 0 (tr_isError tr)) (struct_ptr 0 1 1 @ ?z @ ?z) () (struct_ptr 0 1 1 @ ?e @ ?z)"
    using run_bit [of 8 "struct_ptr 0 1 1" "tr_isError tr" "replicate 7 0 @ ?z"] by (subst z) simp
  have c: "run (reserveCompositeList ?n 1 1) (struct_ptr 0 1 1 @ ?e @ ?z) 24 (struct_ptr 0 1 1 @ ?e @ ?z @ struct_ptr ?n 1 1 @ replicate (16 * length ?cs) 0)"
    using run_composite [of ?n 1 1 "struct_ptr 0 1 1 @ ?e @ ?z"] n by (simp add: nat_mult_distrib mult.commute)
  have "run (writeListPointer 16 24 7 (?n * 2)) ((struct_ptr 0 1 1 @ ?e) @ ?z @ (struct_ptr ?n 1 1 @ replicate (16 * length ?cs) 0)) ()
      ((struct_ptr 0 1 1 @ ?e) @ list_ptr 0 7 (?n * 2) @ (struct_ptr ?n 1 1 @ replicate (16 * length ?cs) 0))"
    by (rule run_list_ptr) (use n in simp_all)
  then have l: "run (writeListPointer 16 24 7 (?n * 2)) (struct_ptr 0 1 1 @ ?e @ ?z @ struct_ptr ?n 1 1 @ replicate (16 * length ?cs) 0) ()
      (struct_ptr 0 1 1 @ ?e @ list_ptr 0 7 (?n * 2) @ struct_ptr ?n 1 1 @ replicate (16 * length ?cs) 0)" by simp
  have e: "run (encode_contents 24 0 ?cs) ((struct_ptr 0 1 1 @ ?e @ list_ptr 0 7 (?n * 2) @ struct_ptr ?n 1 1) @ replicate (16 * length ?cs) 0 @ []) ()
      ((struct_ptr 0 1 1 @ ?e @ list_ptr 0 7 (?n * 2) @ struct_ptr ?n 1 1) @ slots (2 * ?n - 2) ?cs @ [] @ concat (map content_payload ?cs))"
    by (rule run_contents [where j = 0]) (use small in \<open>simp_all add: result_size_def\<close>)
  have "run (wbind (writeStructPointer 0 8 1 1) (\<lambda>_. wbind (writeBit 8 0 (tr_isError tr)) (\<lambda>_. wbind (reserveCompositeList ?n 1 1) (\<lambda>tagOff.
      wbind (writeListPointer 16 tagOff 7 (?n * 2)) (\<lambda>_. encode_contents tagOff 0 ?cs))))) (?z @ ?z @ ?z) () (result_layout tr)"
    by (rule run_bind [OF s], rule run_bind [OF b], rule run_bind [OF c], rule run_bind [OF l])
      (use e in \<open>simp add: result_layout_def mult.commute\<close>)
  then show ?thesis unfolding encodeToolResult_def Let_def ELEM_COMPOSITE_def by (intro build_run result_layout_dvd run_words3)
qed

lemma pad_tail: "padded v = v @ drop (length v) (padded v)"
  by (simp add: padded_def)

lemma decode_element:
  assumes bs: "bs = x @ content_slot k c @ y @ content_payload c @ w" and y: "int (length y) = k * 8" "0 \<le> k"
    and small: "k + int (length (content_payload c)) < 0x10000000" and x: "off = int (length x)" and plain: "content_plain c"
  shows "decodeContentElement bs off 1 1 = Inr c"
proof -
  let ?x = "x @ le_bytes 2 (content_discr c) @ replicate 6 0"
  have d: "readU16 bs off = Inr (content_discr c)"
  proof -
    have "getUint 2 bs off = Inr (le_value (le_bytes 2 (content_discr c)))"
      by (rule getUint_at [of _ x _ "replicate 6 0 @ content_ptr k c @ y @ content_payload c @ w"]) (simp_all add: bs content_slot_def x)
    moreover have "content_discr c mod 65536 = content_discr c" by (cases c) simp_all
    ultimately show ?thesis by (simp add: readU16_def le_value_le_bytes)
  qed
  show ?thesis
  proof (cases c)
    case (TextContent s)
    let ?v = "encodeTextWithNul s"
    have "readData bs (off + 8) = Inr ?v"
      by (rule read_data(1) [of _ ?x k ?v y "drop (length ?v) (padded ?v) @ w"])
        (use bs TextContent pad_tail [of ?v] x y small padded_length_le [of ?v] in \<open>simp_all add: content_slot_def\<close>)
    then show ?thesis using d TextContent plain by (simp add: decodeContentElement_def readText_def WORD_def text_roundtrip)
  next
    case (ResourceContent r)
    have "readData bs (off + 8) = Inr r"
      by (rule read_data(1) [of _ ?x k r y "drop (length r) (padded r) @ w"])
        (use bs ResourceContent pad_tail [of r] x y small padded_length_le [of r] in \<open>simp_all add: content_slot_def\<close>)
    then show ?thesis using d ResourceContent by (simp add: decodeContentElement_def WORD_def)
  next
    case (BinaryContent e m)
    let ?m = "encodeTextWithNul m" let ?le = "list_ptr 1 2 (int (length e))" let ?lm = "list_ptr (words e) 2 (int (length ?m))"
    have l: "int (length e) \<le> words e * 8" "words e * 8 + int (length ?m) < 0x10000000" "0 \<le> words e" "k < 0x10000000"
      using small y(2) BinaryContent words_len(1) [of e] words_len(2) [of e] words_bound(1) [of e] padded_length_le [of ?m] by simp_all
    have B: "bs = ?x @ struct_ptr k 0 2 @ y @ ?le @ ?lm @ e @ drop (length e) (padded e) @ padded ?m @ w"
      "bs = ?x @ struct_ptr k 0 2 @ y @ ?le @ ?lm @ padded e @ ?m @ drop (length ?m) (padded ?m) @ w"
      using bs BinaryContent pad_tail [of e] pad_tail [of ?m] by (simp_all add: content_slot_def flip: append_assoc)
    let ?t = "off + 16 + k * 8"
    have "readStructPointer bs (off + 8) = Inr \<lparr>sp_target = ?t, sp_dataWords = 0, sp_ptrWords = 2\<rparr>"
      using read_struct [OF B(1), of "off + 8"] x y l by simp
    moreover have "readListPointer bs ?t = Inr \<lparr>lp_target = ?t + 16, lp_elementSize = 2, lp_count = int (length e)\<rparr>"
      using read_list [of bs "?x @ struct_ptr k 0 2 @ y" 1 2 "int (length e)" "?lm @ e @ drop (length e) (padded e) @ padded ?m @ w" ?t] B(1) x y l by simp
    moreover have "readListPointer bs (?t + 8) = Inr \<lparr>lp_target = ?t + 16 + words e * 8, lp_elementSize = 2, lp_count = int (length ?m)\<rparr>"
      using read_list [of bs "?x @ struct_ptr k 0 2 @ y @ ?le" "words e" 2 "int (length ?m)" "e @ drop (length e) (padded e) @ padded ?m @ w" "?t + 8"] B(1) x y l by simp
    moreover have "read_bytes bs (?t + 16) (int (length e)) = Inr e"
      by (rule read_part [of _ "?x @ struct_ptr k 0 2 @ y @ ?le @ ?lm" _ "drop (length e) (padded e) @ padded ?m @ w"]) (use B(1) x y in simp_all)
    moreover have "read_bytes bs (?t + 16 + words e * 8) (int (length ?m)) = Inr ?m"
      by (rule read_part [of _ "?x @ struct_ptr k 0 2 @ y @ ?le @ ?lm @ padded e" _ "drop (length ?m) (padded ?m) @ w"]) (use B(2) x y words_len(1) [of e] in simp_all)
    ultimately show ?thesis using d BinaryContent plain by (simp add: decodeContentElement_def WORD_def ELEM_BYTE_def Let_def text_roundtrip)
  qed
qed

lemma decode_contents_layout:
  assumes "bs = x @ slots k cs @ y @ concat (map content_payload cs)" "int (length y) = j * 8" "0 \<le> j" "k = 2 * int (length cs) - 2 + j"
    "int (length x) = target + 8 + i * 16" "2 * int (length cs) + j + int (length (concat (map content_payload cs))) < 0x10000000" "list_all content_plain cs"
  shows "decode_contents bs target 1 1 (length cs) i = Inr cs"
  using assms
proof (induction cs arbitrary: x y i j k)
  case (Cons c cs)
  let ?p = "content_payload c" let ?k = "k + int (length ?p) div 8 - 2"
  have dvd: "int (length ?p) = int (length ?p) div 8 * 8" using content_payload_dvd [of c] by auto
  have "decodeContentElement bs (target + 8 + i * 16) 1 1 = Inr c"
    by (rule decode_element [of _ x k c "slots ?k cs @ y" "concat (map content_payload cs)"]) (use Cons.prems in simp_all)
  moreover have "decode_contents bs target 1 1 (length cs) (i + 1) = Inr cs"
    by (rule Cons.IH [of "x @ content_slot k c" ?k "y @ ?p" "j + int (length ?p) div 8"]) (use Cons.prems dvd in \<open>simp_all add: algebra_simps\<close>)
  ultimately show ?case by (simp add: WORD_def algebra_simps)
qed simp

lemma decode_result:
  assumes small: "result_size tr < 0x10000000" and plain: "list_all content_plain (tr_content tr)"
  shows "decodeToolResult (framed (result_layout tr)) = Inr tr"
proof -
  let ?n = "int (length (tr_content tr))" let ?cs = "tr_content tr" let ?bs = "framed (result_layout tr)"
  let ?h = "replicate 4 0 @ le_bytes 4 (int (length (result_layout tr)) div 8)" let ?e = "[of_bool (tr_isError tr)] @ replicate 7 (0 :: byte)"
  let ?rest = "slots (2 * ?n - 2) ?cs @ concat (map content_payload ?cs)"
  have L: "?bs = ?h @ struct_ptr 0 1 1 @ ?e @ list_ptr 0 7 (2 * ?n) @ struct_ptr ?n 1 1 @ ?rest" by (simp add: framed_def result_layout_def)
  have n: "2 * ?n < 0x10000000" using small by (simp add: result_size_def)
  have "int (length (result_layout tr)) < 0x100000000" using small by (simp add: result_layout_def result_size_def)
  note segment_start [OF this]
  moreover have "readStructPointer ?bs 8 = Inr \<lparr>sp_target = 16, sp_dataWords = 1, sp_ptrWords = 1\<rparr>" using read_struct [OF L] by simp
  moreover have "readBit ?bs 16 0 = Inr (of_bool (tr_isError tr))"
  proof -
    have "getUint 1 ?bs 16 = Inr (le_value [of_bool (tr_isError tr)])"
      by (rule getUint_at [of _ "?h @ struct_ptr 0 1 1" _ "replicate 7 0 @ list_ptr 0 7 (2 * ?n) @ struct_ptr ?n 1 1 @ ?rest"]) (simp_all add: L)
    then show ?thesis by (simp add: readBit_def field_masks js_shr_int)
  qed
  moreover have "readListPointer ?bs 24 = Inr \<lparr>lp_target = 32, lp_elementSize = 7, lp_count = 2 * ?n\<rparr>"
    using read_list [of ?bs "?h @ struct_ptr 0 1 1 @ ?e" 0 7 "2 * ?n" "struct_ptr ?n 1 1 @ ?rest" 24] L n by simp
  moreover have "readCompositeListTag ?bs 32 = Inr \<lparr>lt_count = ?n, lt_dataWords = 1, lt_ptrWords = 1\<rparr>"
    using read_tag [of ?bs "?h @ struct_ptr 0 1 1 @ ?e @ list_ptr 0 7 (2 * ?n)" ?n 1 1 ?rest 32] L n by simp
  moreover have "decode_contents ?bs 32 1 1 (length ?cs) 0 = Inr ?cs"
    by (rule decode_contents_layout [of _ "?h @ struct_ptr 0 1 1 @ ?e @ list_ptr 0 7 (2 * ?n) @ struct_ptr ?n 1 1" "2 * ?n - 2" _ "[]" 0])
      (use small plain in \<open>simp_all add: L result_size_def\<close>)
  ultimately show ?thesis by (simp add: decodeToolResult_def ELEM_COMPOSITE_def WORD_def)
qed

section \<open>Manifests\<close>

definition manifest_layout :: "Manifest \<Rightarrow> bytes" where
  "manifest_layout m = struct_ptr 0 1 3 @ le_bytes 8 (mf_sequence m) @ list_ptr 2 2 32 @ list_ptr 5 2 64 @ list_ptr 12 2 32 @
     mf_publicKey m @ mf_signature m @ mf_contentHash m"

lemma padded_words: "8 dvd length bs \<Longrightarrow> padded bs = bs"
proof -
  assume "8 dvd length bs"
  then have "- int (length bs) mod 8 = 0" by presburger
  then show ?thesis by (simp add: padded_def)
qed

lemma run_words5:
  "run (f 0 8 16 24 32) (replicate 8 0 @ replicate 8 0 @ replicate 8 0 @ replicate 8 0 @ replicate 8 0) a p \<Longrightarrow>
   run (wbind (reserveWords 1) (\<lambda>i. wbind (reserveWords 1) (\<lambda>j. wbind (reserveWords 1) (\<lambda>k. wbind (reserveWords 1) (\<lambda>l. wbind (reserveWords 1) (\<lambda>m. f i j k l m)))))) [] a p"
  by (rule run_words4 [where f = "\<lambda>i j k l. wbind (reserveWords 1) (f i j k l)"], rule run_bind [OF run_word]) simp

lemma encode_manifest:
  assumes len: "length (mf_publicKey m) = 32" "length (mf_signature m) = 64" "length (mf_contentHash m) = 32"
  shows "encodeManifest m = Inr (framed (manifest_layout m))"
proof -
  let ?z = "replicate 8 (0 :: byte)" let ?p = "mf_publicKey m" let ?s = "mf_signature m" let ?c = "mf_contentHash m"
  let ?r = "struct_ptr 0 1 3 @ le_bytes 8 (mf_sequence m)"
  have pad: "padded ?p = ?p" "padded ?s = ?s" "padded ?c = ?c" by (simp_all add: padded_words len)
  have s: "run (writeStructPointer 0 8 1 3) (?z @ ?z @ ?z @ ?z @ ?z) () (struct_ptr 0 1 3 @ ?z @ ?z @ ?z @ ?z)"
    using run_struct_ptr [of 0 "[]" ?z 0 8 1 3 "?z @ ?z @ ?z @ ?z"] by simp
  have q: "run (writeU64 8 (mf_sequence m)) (struct_ptr 0 1 3 @ ?z @ ?z @ ?z @ ?z) () (struct_ptr 0 1 3 @ le_bytes 8 (mf_sequence m) @ ?z @ ?z @ ?z)"
    unfolding writeU64_def by (rule run_put) simp_all
  have 3: "run (wbind (appendBytesPadded ?c) (\<lambda>p. writeListPointer 32 p 2 32)) (?r @ list_ptr 2 2 32 @ list_ptr 5 2 64 @ ?z @ ?p @ ?s) () (manifest_layout m)"
    unfolding manifest_layout_def append_assoc by (rule run_field [of 32 "?r @ list_ptr 2 2 32 @ list_ptr 5 2 64" 2 32 ?c "?p @ ?s" 12, unfolded append_assoc pad]) (simp_all add: len)
  have 2: "run (wbind (appendBytesPadded ?s) (\<lambda>p. wbind (writeListPointer 24 p 2 64) (\<lambda>_. wbind (appendBytesPadded ?c) (\<lambda>p. writeListPointer 32 p 2 32))))
      (?r @ list_ptr 2 2 32 @ ?z @ ?z @ ?p) () (manifest_layout m)"
    unfolding append_assoc by (rule run_fieldC [of 24 "?r @ list_ptr 2 2 32" 2 64 ?s "?z @ ?p" 5, unfolded append_assoc pad, OF _ _ _ _ _ _ _ 3 [unfolded append_assoc]]) (simp_all add: len)
  have 1: "run (wbind (appendBytesPadded ?p) (\<lambda>p. wbind (writeListPointer 16 p 2 32) (\<lambda>_. wbind (appendBytesPadded ?s) (\<lambda>p. wbind (writeListPointer 24 p 2 64) (\<lambda>_.
      wbind (appendBytesPadded ?c) (\<lambda>p. writeListPointer 32 p 2 32)))))) (struct_ptr 0 1 3 @ le_bytes 8 (mf_sequence m) @ ?z @ ?z @ ?z) () (manifest_layout m)"
    unfolding append_assoc by (rule run_fieldC [of 16 ?r 2 32 ?p "?z @ ?z" 2, unfolded append_assoc pad, OF _ _ _ _ _ _ _ 2 [unfolded append_assoc]]) (simp_all add: len)
  have body: "run (wbind (writeStructPointer 0 8 1 3) (\<lambda>_. wbind (writeU64 8 (mf_sequence m)) (\<lambda>_.
      wbind (appendBytesPadded ?p) (\<lambda>p. wbind (writeListPointer 16 p 2 32) (\<lambda>_. wbind (appendBytesPadded ?s) (\<lambda>p. wbind (writeListPointer 24 p 2 64) (\<lambda>_.
      wbind (appendBytesPadded ?c) (\<lambda>p. writeListPointer 32 p 2 32)))))))) (?z @ ?z @ ?z @ ?z @ ?z) () (manifest_layout m)"
    by (rule run_bind [OF s], rule run_bind [OF q], rule 1)
  have dvd: "8 dvd length (manifest_layout m)" using len by (simp add: manifest_layout_def)
  show ?thesis
    unfolding encodeManifest_def ELEM_BYTE_def MANIFEST_PUBKEY_BYTES_def MANIFEST_SIG_BYTES_def MANIFEST_HASH_BYTES_def len guard_simps rbind_simps simp_thms of_nat_numeral
    by (intro build_run run_words5 body dvd)
qed

lemma decode_manifest:
  assumes len: "length (mf_publicKey m) = 32" "length (mf_signature m) = 64" "length (mf_contentHash m) = 32"
  shows "decodeManifest (framed (manifest_layout m)) = Inr (m\<lparr>mf_sequence := mf_sequence m mod 2 ^ 64\<rparr>)"
proof -
  let ?bs = "framed (manifest_layout m)" let ?h = "replicate 4 0 @ le_bytes 4 (int (length (manifest_layout m)) div 8)"
  let ?p = "mf_publicKey m" let ?s = "mf_signature m" let ?c = "mf_contentHash m" let ?r = "?h @ struct_ptr 0 1 3 @ le_bytes 8 (mf_sequence m)"
  have L: "?bs = ?h @ struct_ptr 0 1 3 @ le_bytes 8 (mf_sequence m) @ list_ptr 2 2 32 @ list_ptr 5 2 64 @ list_ptr 12 2 32 @ ?p @ ?s @ ?c"
    by (simp add: framed_def manifest_layout_def)
  have "int (length (manifest_layout m)) < 0x100000000" using len by (simp add: manifest_layout_def)
  note segment_start [OF this]
  moreover have "readStructPointer ?bs 8 = Inr \<lparr>sp_target = 16, sp_dataWords = 1, sp_ptrWords = 3\<rparr>" using read_struct [OF L] by simp
  moreover have "readU64 ?bs 16 = Inr (mf_sequence m mod 2 ^ 64)"
    using getUint_at [of ?bs "?h @ struct_ptr 0 1 3" "le_bytes 8 (mf_sequence m)" "list_ptr 2 2 32 @ list_ptr 5 2 64 @ list_ptr 12 2 32 @ ?p @ ?s @ ?c" 16 8] L
    by (simp add: readU64_def le_value_le_bytes)
  moreover have "readListPointer ?bs 24 = Inr \<lparr>lp_target = 48, lp_elementSize = 2, lp_count = 32\<rparr>"
    using read_list [of ?bs ?r 2 2 32 "list_ptr 5 2 64 @ list_ptr 12 2 32 @ ?p @ ?s @ ?c" 24] L by simp
  moreover have "readListPointer ?bs 32 = Inr \<lparr>lp_target = 80, lp_elementSize = 2, lp_count = 64\<rparr>"
    using read_list [of ?bs "?r @ list_ptr 2 2 32" 5 2 64 "list_ptr 12 2 32 @ ?p @ ?s @ ?c" 32] L by simp
  moreover have "readListPointer ?bs 40 = Inr \<lparr>lp_target = 144, lp_elementSize = 2, lp_count = 32\<rparr>"
    using read_list [of ?bs "?r @ list_ptr 2 2 32 @ list_ptr 5 2 64" 12 2 32 "?p @ ?s @ ?c" 40] L by simp
  moreover have "read_bytes ?bs 48 32 = Inr ?p" by (rule read_part [of _ "?r @ list_ptr 2 2 32 @ list_ptr 5 2 64 @ list_ptr 12 2 32" _ "?s @ ?c"], simp only: L append_assoc append_Nil2, simp_all add: len)
  moreover have "read_bytes ?bs 80 64 = Inr ?s" by (rule read_part [of _ "?r @ list_ptr 2 2 32 @ list_ptr 5 2 64 @ list_ptr 12 2 32 @ ?p" _ ?c], simp only: L append_assoc append_Nil2, simp_all add: len)
  moreover have "read_bytes ?bs 144 32 = Inr ?c" by (rule read_part [of _ "?r @ list_ptr 2 2 32 @ list_ptr 5 2 64 @ list_ptr 12 2 32 @ ?p @ ?s" _ "[]"], simp only: L append_assoc append_Nil2, simp_all add: len)
  ultimately show ?thesis
    by (simp add: decodeManifest_def shaped_def WORD_def ELEM_BYTE_def MANIFEST_PUBKEY_BYTES_def MANIFEST_SIG_BYTES_def MANIFEST_HASH_BYTES_def)
qed

section \<open>Round trips\<close>

definition wire_result_ok :: "ToolResult \<Rightarrow> bool" where
  "wire_result_ok tr \<longleftrightarrow> list_all content_plain (tr_content tr) \<and> result_size tr < 2 ^ 28"

lemma call_wire_ok: "wire_call_ok tc \<Longrightarrow> \<exists>bytes. encodeToolCall tc = Inr bytes \<and> decodeToolCall bytes = Inr tc"
proof -
  let ?u = "encodeTextWithNul (tc_upstreamId tc)" let ?n = "encodeTextWithNul (tc_toolName tc)" let ?a = "tc_argumentsJson tc"
  assume "wire_call_ok tc"
  then have "int (length ?u) + int (length ?n) + int (length ?a) < 0x10000000" "plain_text (tc_upstreamId tc)" "plain_text (tc_toolName tc)"
    by (simp_all add: wire_call_ok_def encodeTextWithNul_def)
  then show ?thesis using encode_call [OF refl refl refl] decode_call [OF refl refl refl] by blast
qed

lemma result_wire_ok: "wire_result_ok tr \<Longrightarrow> \<exists>bytes. encodeToolResult tr = Inr bytes \<and> decodeToolResult bytes = Inr tr"
  using encode_result [of tr] decode_result [of tr] by (simp add: wire_result_ok_def)

text \<open>A tool call of plain texts whose fields stay below 256 MB is encoded without an error, and the decoder gives back exactly the
  call, empty fields included. A tool result of plain texts that stays below that size comes back with its error flag and
  its contents in order, whatever their kinds and number, none included.\<close>

theorem tool_messages_roundtrip:
  assumes "wire_call_ok tc" "wire_result_ok tr"
  shows "(\<exists>bytes. encodeToolCall tc = Inr bytes \<and> decodeToolCall bytes = Inr tc) \<and> (\<exists>bytes. encodeToolResult tr = Inr bytes \<and> decodeToolResult bytes = Inr tr)"
  using call_wire_ok [OF assms(1)] result_wire_ok [OF assms(2)] by blast

definition of_result :: "'a \<Rightarrow> 'e + 'a \<Rightarrow> 'a" where
  "of_result d r = (case r of Inl _ \<Rightarrow> d | Inr a \<Rightarrow> a)"

definition to_option :: "'e + 'a \<Rightarrow> 'a option" where
  "to_option r = (case r of Inl _ \<Rightarrow> None | Inr a \<Rightarrow> Some a)"

interpretation call_wire: codec "\<lambda>tc. of_result [] (encodeToolCall tc)" "\<lambda>b. to_option (decodeToolCall b)" wire_call_ok
  using call_wire_ok by unfold_locales (fastforce simp: of_result_def to_option_def)

interpretation result_wire: codec "\<lambda>tr. of_result [] (encodeToolResult tr)" "\<lambda>b. to_option (decodeToolResult b)" wire_result_ok
  using result_wire_ok by unfold_locales (fastforce simp: of_result_def to_option_def)

text \<open>A manifest with fields of the right sizes takes 176 bytes, and reading them gives the manifest back with its counter reduced
  modulo two to the 64: a larger counter is written without an error.\<close>

theorem manifest_roundtrip:
  assumes "length (mf_publicKey m) = 32" "length (mf_signature m) = 64" "length (mf_contentHash m) = 32"
  shows "\<exists>bytes. encodeManifest m = Inr bytes \<and> length bytes = 176 \<and> decodeManifest bytes = Inr (m\<lparr>mf_sequence := mf_sequence m mod 2 ^ 64\<rparr>)"
  using encode_manifest [OF assms] decode_manifest [OF assms] assms by (simp add: manifest_layout_def)

section \<open>What the reader lets through\<close>

text \<open>A text that starts with a byte order mark comes back without it.\<close>

lemma byte_order_mark_lost: "decodeTextWithNul (encodeTextWithNul [0xFEFF, 0x61]) = Inr [0x61]"
  by (simp add: decodeTextWithNul_def encodeTextWithNul_def utf8_decode_fatal_def utf8_encode_def is_hi_def is_lo_def utf8_scalar_def utf8_decode_def
      strip_bom_def utf8_loop.simps(2) utf16_of_def)

text \<open>\<open>readBytes\<close> checks the end only: a target before the message reads other bytes, counted from the end.\<close>

lemma negative_target_reads_tail:
  assumes "start < 0" "0 \<le> len" "start + len < 0" "- start \<le> int (length bs)"
  shows "read_bytes bs start len = Inr (take (nat len) (drop (nat (int (length bs) + start)) bs))"
proof -
  have "nat (int (length bs) + (start + len)) - nat (int (length bs) + start) = nat len" using assms by simp
  then show ?thesis using assms by (simp add: read_bytes_def js_slice_def slice_bound_def)
qed

text \<open>The tag of a list with two to the 27 elements reads as a negative number of elements.\<close>

lemma large_tag_negative: "readCompositeListTag (struct_ptr 0x8000000 1 1) 0 = Inr \<lparr>lt_count = 0x8000000 - 0x40000000, lt_dataWords = 1, lt_ptrWords = 1\<rparr>"
proof -
  let ?bs = "struct_ptr 0x8000000 1 1"
  have "getUint 4 ?bs 0 = Inr (le_value (le_bytes 4 0x20000000))" by (rule getUint_at [of _ "[]" _ "le_bytes 4 65537"]) (simp_all add: struct_ptr_def)
  moreover have "getUint 4 ?bs 4 = Inr (le_value (le_bytes 4 65537))" by (rule getUint_at [of _ "le_bytes 4 0x20000000" _ "[]"]) (simp_all add: struct_ptr_def)
  moreover have "js_bitand 0x20000000 0x20000000 = 0x20000000" "js_bitor 0x8000000 (- 0x40000000) = 0x8000000 - 0x40000000"
    by (simp_all add: js_bitand_int js_bitor_int to_int32_small)
  ultimately show ?thesis by (simp add: readCompositeListTag_def readU32_def le_value_le_bytes KIND_STRUCT_def field_masks js_ushr_int)
qed

text \<open>A result whose content list was never set, a null pointer, is refused.\<close>

lemma null_content_refused: "decodeToolResult (framed (struct_ptr 0 1 1 @ replicate 8 0 @ replicate 8 0)) = Inl Not_list"
proof -
  let ?bs = "framed (struct_ptr 0 1 1 @ replicate 8 0 @ replicate 8 0)" let ?h = "replicate 4 0 @ le_bytes 4 3"
  have L: "?bs = ?h @ struct_ptr 0 1 1 @ replicate 8 0 @ replicate 8 0" by (simp add: framed_def)
  have "readStructPointer ?bs 8 = Inr \<lparr>sp_target = 16, sp_dataWords = 1, sp_ptrWords = 1\<rparr>" using read_struct [OF L] by simp
  moreover have z: "replicate 8 (0 :: byte) = 0 # replicate 7 0" by (simp add: numeral_eq_Suc)
  have z4: "replicate 8 (0 :: byte) = replicate 4 0 @ replicate 4 0" by (simp flip: replicate_add)
  have "getUint 1 ?bs 16 = Inr (le_value [0])"
    by (rule getUint_at [of _ "?h @ struct_ptr 0 1 1" _ "replicate 7 0 @ replicate 8 0"], simp only: L, simp_all add: z)
  then have "readBit ?bs 16 0 = Inr 0" by (simp add: readBit_def field_masks js_shr_int)
  moreover have "getUint 4 ?bs 24 = Inr (le_value (replicate 4 0))"
    by (rule getUint_at [of _ "?h @ struct_ptr 0 1 1 @ replicate 8 0" _ "replicate 4 0"], simp only: L, simp_all add: z4)
  then have "readListPointer ?bs 24 = Inl Not_list" by (simp add: readListPointer_def readU32_def KIND_LIST_def numeral_eq_Suc field_masks)
  ultimately show ?thesis using segment_start [of "struct_ptr 0 1 1 @ replicate 8 0 @ replicate 8 0"] by (simp add: decodeToolResult_def WORD_def)
qed

section \<open>Concrete messages\<close>

definition sample_call :: ToolCall where
  "sample_call = \<lparr>tc_upstreamId = js ''rosary'', tc_toolName = js ''rsry_list'', tc_argumentsJson = [123, 125]\<rparr>"

definition sample_result :: ToolResult where
  "sample_result = \<lparr>tr_content = [TextContent (js ''ok''), BinaryContent [1, 2] (js ''a/b''), ResourceContent []], tr_isError = True\<rparr>"

lemma sample_messages_ok: "wire_call_ok sample_call" "wire_result_ok sample_result"
  by (simp_all add: sample_call_def sample_result_def wire_call_ok_def wire_result_ok_def result_size_def plain_text_def ascii_well_formed utf8_encode_ascii
      is_hi_def is_lo_def encodeTextWithNul_def padded_def)

theorem tool_messages_roundtrip_witness:
  "(\<exists>bytes. encodeToolCall sample_call = Inr bytes \<and> decodeToolCall bytes = Inr sample_call) \<and>
   (\<exists>bytes. encodeToolResult sample_result = Inr bytes \<and> decodeToolResult bytes = Inr sample_result)"
  by (rule tool_messages_roundtrip [OF sample_messages_ok])

theorem manifest_roundtrip_witness:
  "\<exists>bytes. encodeManifest \<lparr>mf_sequence = 2 ^ 64 + 1, mf_publicKey = replicate 32 7, mf_signature = replicate 64 7, mf_contentHash = replicate 32 7\<rparr> = Inr bytes \<and> length bytes = 176 \<and>
     decodeManifest bytes = Inr \<lparr>mf_sequence = 1, mf_publicKey = replicate 32 7, mf_signature = replicate 64 7, mf_contentHash = replicate 32 7\<rparr>"
  using manifest_roundtrip [of "\<lparr>mf_sequence = 2 ^ 64 + 1, mf_publicKey = replicate 32 7, mf_signature = replicate 64 7, mf_contentHash = replicate 32 7\<rparr>"] by simp

end
