(* ===== verification/Tool_Backends.thy ===== *)
theory Tool_Backends
  imports Mcp_Route Wire_Messages
begin

text \<open>
  The tool backends the MCP edge dispatches to, under \<open>src/manifest/backends\<close>: \<open>uds-forward.ts\<close> and \<open>leyline-net.ts\<close>, which send a
  Cap'n Proto call to the companion process and decode its result, \<open>service-binding.ts\<close>, which speaks JSON-RPC to another
  worker, and \<open>durable-object.ts\<close>, which forwards to the object named by an argument; with \<open>src/manifest/spec.ts\<close>. Each is an
  instance of the interface \<open>Mcp_Route.backend\<close>. The network, the environment and the texts of host errors are parameters.
\<close>

section \<open>Tools from the manifest\<close>

record McpToolSpec =
  ts_name :: jsstr
  ts_description :: jsstr
  ts_inputSchemaJson :: jsstr

definition toolFromSpec :: "McpToolSpec \<Rightarrow> tool option" where
  "toolFromSpec spec =
     map_option (\<lambda>inputSchema. (ts_name spec, JObj [(js ''name'', JStr (ts_name spec)), (js ''description'', JStr (ts_description spec)), (js ''inputSchema'', inputSchema)]))
       (json_parse (ts_inputSchemaJson spec))"

fun toolsFromSpecs :: "McpToolSpec list \<Rightarrow> tool list option" where
  "toolsFromSpecs [] = Some []"
| "toolsFromSpecs (s # ss) = Option.bind (toolFromSpec s) (\<lambda>t. map_option (Cons t) (toolsFromSpecs ss))"

definition prefix_handles :: "jsstr \<Rightarrow> tool list \<Rightarrow> jsstr \<Rightarrow> bool" where
  "prefix_handles handlesPrefix tools toolName = (if handlesPrefix = [] then toolName \<in> fst ` set tools else starts_with toolName handlesPrefix)"

text \<open>A backend without the optional operations.\<close>

definition plain_backend :: "tool list \<Rightarrow> jsstr \<Rightarrow> ('b \<Rightarrow> jsstr \<Rightarrow> json \<Rightarrow> 'b \<times> (invoke_error + json option)) \<Rightarrow> 'b backend" where
  "plain_backend tools handlesPrefix invoke =
     \<lparr>be_tools = (\<lambda>_. tools), be_handles = prefix_handles handlesPrefix tools, be_invoke = (\<lambda>b toolName args _. invoke b toolName args),
       be_refreshTools = (\<lambda>b. (b, True)), be_ttlMs = (\<lambda>_. None), be_contentOrigin = (\<lambda>_. None), be_notifyRootsChanged = (\<lambda>b. b)\<rparr>"

section \<open>Responses\<close>

text \<open>\<open>Unread\<close>: the response came, reading its body throws.\<close>

datatype backend_fetch = Unreachable jsstr | Fetched int bytes | Unread int jsstr

definition internal_error :: "jsstr \<Rightarrow> invoke_error" where
  "internal_error message = Invocation_error (Some (JNum (- 32603))) message"

definition res_ok :: "int \<Rightarrow> bool" where
  "res_ok status = (200 \<le> status \<and> status \<le> 299)"

text \<open>At most 200 units of the body, marked when cut; 8230 is the ellipsis.\<close>

definition snippet :: "jsstr \<Rightarrow> jsstr" where
  "snippet body = (if length body > 200 then take 200 body @ [8230] else body)"

definition http_error :: "jsstr \<Rightarrow> int \<Rightarrow> jsstr \<Rightarrow> invoke_error" where
  "http_error who status body =
     internal_error (who @ dec_of_int status @ (if snippet body \<noteq> [] then js '': '' @ snippet body else []))"

text \<open>\<open>text === "" ? null : JSON.parse(text)\<close>, and the text itself where it does not parse.\<close>

definition parse_or_text :: "json \<Rightarrow> json" where
  "parse_or_text t = (if t = JStr [] then JNull else nullish (json_parse (js_string t)) t)"

section \<open>The companion\<close>

record 'b companion =
  co_bindings :: "jsstr \<Rightarrow> jsstr option"
  co_fetch :: "'b \<Rightarrow> jsstr \<Rightarrow> (jsstr \<times> jsstr) list \<Rightarrow> bytes \<Rightarrow> 'b \<times> backend_fetch"
  co_message :: "wire_error \<Rightarrow> jsstr"

fun errorMessageFromContent :: "Content list \<Rightarrow> jsstr \<Rightarrow> jsstr" where
  "errorMessageFromContent [] toolName = js ''tool '' @ toolName @ js '' failed''"
| "errorMessageFromContent (TextContent s # cs) toolName =
     (case get_prop (json_parse s) (js ''error'') of Some e \<Rightarrow> js_string e | None \<Rightarrow> s)"
| "errorMessageFromContent (c # cs) toolName = errorMessageFromContent cs toolName"

fun contentToJsonShape :: "Content \<Rightarrow> json" where
  "contentToJsonShape (TextContent s) = JObj [(js ''type'', JStr (js ''text'')), (js ''text'', JStr s)]"
| "contentToJsonShape (BinaryContent d mimeType) = JObj [(js ''type'', JStr (js ''image'')), (js ''data'', JStr (btoa d)), (js ''mimeType'', JStr mimeType)]"
| "contentToJsonShape (ResourceContent r) = JObj [(js ''type'', JStr (js ''resource'')), (js ''text'', JStr (utf8_decode r)), (js ''bytes'', JStr (btoa r))]"

definition surface :: "jsstr \<Rightarrow> ToolResult \<Rightarrow> invoke_error + json option" where
  "surface toolName r =
     (if tr_isError r then Inl (Invocation_error (Some (JNum (- 32000))) (errorMessageFromContent (tr_content r) toolName))
      else Inr (Some (case tr_content r of [TextContent s] \<Rightarrow> parse_or_text (JStr s) | cs \<Rightarrow> JArr (map contentToJsonShape cs))))"

definition companion_reply :: "'b companion \<Rightarrow> jsstr \<Rightarrow> backend_fetch \<Rightarrow> invoke_error + json option" where
  "companion_reply host toolName r =
     (case r of
        Unreachable e \<Rightarrow> Inl (internal_error (js ''companion unreachable: '' @ e))
      | Fetched status body \<Rightarrow>
          if \<not> res_ok status then Inl (http_error (js ''companion HTTP '') status (utf8_decode body))
          else (case decodeToolResult body of
              Inl e \<Rightarrow> Inl (internal_error (js ''companion response not valid capnp ToolResult: '' @ co_message host e))
            | Inr result \<Rightarrow> surface toolName result)
      | Unread status e \<Rightarrow>
          if \<not> res_ok status then Inl (http_error (js ''companion HTTP '') status [])
          else Inl (internal_error (js ''companion returned non-binary body: '' @ e)))"

definition companion_call :: "'b companion \<Rightarrow> 'b \<Rightarrow> jsstr \<Rightarrow> (jsstr \<times> jsstr) list \<Rightarrow> ToolCall \<Rightarrow> 'b \<times> (invoke_error + json option)" where
  "companion_call host b url headers tc =
     (case encodeToolCall tc of
        Inl e \<Rightarrow> (b, Inl (Other_error (co_message host e)))
      | Inr requestBytes \<Rightarrow> (case co_fetch host b url headers requestBytes of (b', r) \<Rightarrow> (b', companion_reply host (tc_toolName tc) r)))"

definition CAPNP_CALL :: "jsstr \<times> jsstr" where
  "CAPNP_CALL = (js ''Content-Type'', js ''application/x-capnp; type=ToolCall'')"

definition or_name :: "jsstr \<Rightarrow> jsstr \<Rightarrow> jsstr" where
  "or_name handlesPrefix toolName = (if handlesPrefix \<noteq> [] then handlesPrefix else toolName)"

definition not_configured :: "jsstr \<Rightarrow> jsstr \<Rightarrow> jsstr" where
  "not_configured binding who = js ''manifest: '' @ binding @ js '' not configured '' @ [8212] @ js '' cannot route '' @ who @ js ''* calls''"

subsection \<open>Unix sockets behind the companion\<close>

definition COMPANION_URL_BINDING :: jsstr where
  "COMPANION_URL_BINDING = js ''COMPANION_URL''"

definition uds_upstreamId :: "jsstr \<Rightarrow> jsstr \<Rightarrow> jsstr" where
  "uds_upstreamId handlesPrefix toolName =
     (if handlesPrefix \<noteq> [] then (if last handlesPrefix = of_char CHR ''_'' then butlast handlesPrefix else handlesPrefix) else toolName)"

definition uds_invoke :: "'b companion \<Rightarrow> jsstr \<Rightarrow> jsstr \<Rightarrow> 'b \<Rightarrow> jsstr \<Rightarrow> json \<Rightarrow> 'b \<times> (invoke_error + json option)" where
  "uds_invoke host socketPath handlesPrefix b toolName args =
     (case co_bindings host COMPANION_URL_BINDING of
        Some (c # url) \<Rightarrow>
          companion_call host b (c # url)
            [CAPNP_CALL, (js ''X-Cloister-Transport'', js ''uds''), (js ''X-Cloister-Socket-Path'', socketPath)]
            \<lparr>tc_upstreamId = uds_upstreamId handlesPrefix toolName, tc_toolName = toolName, tc_argumentsJson = canonical args\<rparr>
      | _ \<Rightarrow> (b, Inl (internal_error (not_configured COMPANION_URL_BINDING (or_name handlesPrefix toolName) @
                 js '' to UDS socket '' @ [34] @ socketPath @ [34]))))"

definition UdsForwardToolBackend :: "'b companion \<Rightarrow> jsstr \<Rightarrow> tool list \<Rightarrow> jsstr \<Rightarrow> 'b backend" where
  "UdsForwardToolBackend host socketPath tools handlesPrefix = plain_backend tools handlesPrefix (uds_invoke host socketPath handlesPrefix)"

subsection \<open>The leyline network behind the companion\<close>

definition leyline_invoke :: "'b companion \<Rightarrow> jsstr \<Rightarrow> jsstr \<Rightarrow> jsstr \<Rightarrow> 'b \<Rightarrow> jsstr \<Rightarrow> json \<Rightarrow> 'b \<times> (invoke_error + json option)" where
  "leyline_invoke host companionUrlBinding upstreamId handlesPrefix b toolName args =
     (case co_bindings host companionUrlBinding of
        Some (c # url) \<Rightarrow>
          companion_call host b (c # url) [CAPNP_CALL] \<lparr>tc_upstreamId = upstreamId, tc_toolName = toolName, tc_argumentsJson = canonical args\<rparr>
      | _ \<Rightarrow> (b, Inl (internal_error (not_configured companionUrlBinding (or_name handlesPrefix toolName)))))"

definition LeylineNetToolBackend :: "'b companion \<Rightarrow> jsstr \<Rightarrow> jsstr \<Rightarrow> tool list \<Rightarrow> jsstr \<Rightarrow> 'b backend" where
  "LeylineNetToolBackend host companionUrlBinding upstreamId tools handlesPrefix =
     plain_backend tools handlesPrefix (leyline_invoke host companionUrlBinding upstreamId handlesPrefix)"

section \<open>Workers and objects over JSON-RPC\<close>

definition rpc_body :: "(jsstr \<times> json) list \<Rightarrow> bytes" where
  "rpc_body ps = utf8_encode (json_text (JObj ps))"

text \<open>\<open>throw new JsonRpcInvocationError(body.error.code, body.error.message)\<close>: an absent message is the empty one.\<close>

definition rethrown :: "json \<Rightarrow> invoke_error" where
  "rethrown e = Invocation_error (get_prop (Some e) (js ''code'')) (case get_prop (Some e) (js ''message'') of None \<Rightarrow> [] | Some m \<Rightarrow> js_string m)"

definition thrown_error :: "json \<Rightarrow> json option" where
  "thrown_error body = (case get_prop (Some body) (js ''error'') of Some e \<Rightarrow> if truthy e then Some e else None | None \<Rightarrow> None)"

text \<open>The texts of the exceptions for a property of \<open>null\<close> and for a body that is no JSON.\<close>

record json_texts =
  jt_null :: jsstr
  jt_syntax :: "jsstr \<Rightarrow> jsstr"

definition mcp_result :: "json_texts \<Rightarrow> json \<Rightarrow> invoke_error + json option" where
  "mcp_result texts body =
     (if body = JNull then Inl (Other_error (jt_null texts))
      else case thrown_error body of
        Some e \<Rightarrow> Inl (rethrown e)
      | None \<Rightarrow> (case get_prop (get_prop (Some body) (js ''result'')) (js ''content'') of
            Some (JArr (c # cs)) \<Rightarrow>
              if c = JNull then Inl (Other_error (jt_null texts))
              else Inr (Some (parse_or_text (case get_prop (Some c) (js ''text'') of None \<Rightarrow> JStr [] | Some JNull \<Rightarrow> JStr [] | Some t \<Rightarrow> t)))
          | _ \<Rightarrow> Inl (internal_error (js ''upstream returned no MCP content''))))"

definition service_reply :: "json_texts \<Rightarrow> backend_fetch \<Rightarrow> invoke_error + json option" where
  "service_reply texts r =
     (case r of
        Unreachable e \<Rightarrow> Inl (Other_error e)
      | Fetched status body \<Rightarrow>
          if \<not> res_ok status then Inl (http_error (js ''upstream returned HTTP '') status (utf8_decode body))
          else (case json_parse (utf8_decode body) of
              None \<Rightarrow> Inl (internal_error (js ''upstream response not JSON: '' @ jt_syntax texts (utf8_decode body)))
            | Some v \<Rightarrow> mcp_result texts v)
      | Unread status e \<Rightarrow>
          if \<not> res_ok status then Inl (http_error (js ''upstream returned HTTP '') status [])
          else Inl (internal_error (js ''upstream response not JSON: '' @ e)))"

definition service_invoke ::
    "(jsstr \<Rightarrow> ('b \<Rightarrow> bytes \<Rightarrow> 'b \<times> backend_fetch) option) \<Rightarrow> json_texts \<Rightarrow> jsstr \<Rightarrow> 'b \<Rightarrow> jsstr \<Rightarrow> json \<Rightarrow> 'b \<times> (invoke_error + json option)" where
  "service_invoke fetchers texts binding b toolName args =
     (case fetchers binding of
        None \<Rightarrow> (b, Inl (internal_error (js ''manifest: service binding '' @ [34] @ binding @ [34] @ js '' not present in env'')))
      | Some fetcher \<Rightarrow>
          (case fetcher b (rpc_body [(js ''jsonrpc'', JStr (js ''2.0'')), (js ''id'', JNum 0), (js ''method'', JStr (js ''tools/call'')),
               (js ''params'', JObj [(js ''name'', JStr toolName), (js ''arguments'', args)])]) of
             (b', r) \<Rightarrow> (b', service_reply texts r)))"

definition ServiceBindingToolBackend ::
    "(jsstr \<Rightarrow> ('b \<Rightarrow> bytes \<Rightarrow> 'b \<times> backend_fetch) option) \<Rightarrow> json_texts \<Rightarrow> jsstr \<Rightarrow> tool list \<Rightarrow> jsstr \<Rightarrow> 'b backend" where
  "ServiceBindingToolBackend fetchers texts binding tools handlesPrefix = plain_backend tools handlesPrefix (service_invoke fetchers texts binding)"

text \<open>A namespace is the objects by name with the request handler they share.\<close>

definition object_key :: "jsstr \<Rightarrow> json \<Rightarrow> jsstr" where
  "object_key keyArg args = (case get_prop (Some args) keyArg of None \<Rightarrow> [] | Some JNull \<Rightarrow> [] | Some v \<Rightarrow> js_string v)"

definition object_reply :: "json_texts \<Rightarrow> backend_fetch \<Rightarrow> invoke_error + json option" where
  "object_reply texts r =
     (case r of
        Unreachable e \<Rightarrow> Inl (Other_error e)
      | Unread status e \<Rightarrow> Inl (Other_error e)
      | Fetched status body \<Rightarrow>
          (case json_parse (utf8_decode body) of
             None \<Rightarrow> Inl (Other_error (jt_syntax texts (utf8_decode body)))
           | Some v \<Rightarrow> if v = JNull then Inl (Other_error (jt_null texts))
               else (case thrown_error v of Some e \<Rightarrow> Inl (rethrown e) | None \<Rightarrow> Inr (get_prop (Some v) (js ''result'')))))"

definition object_invoke ::
    "(jsstr \<Rightarrow> ('s \<Rightarrow> bytes \<Rightarrow> 's \<times> backend_fetch) option) \<Rightarrow> json_texts \<Rightarrow> jsstr \<Rightarrow> jsstr \<Rightarrow> jsstr \<Rightarrow> (jsstr \<Rightarrow> 's) \<Rightarrow> jsstr \<Rightarrow> json \<Rightarrow>
      (jsstr \<Rightarrow> 's) \<times> (invoke_error + json option)" where
  "object_invoke namespaces texts binding keyArg handlesPrefix objects toolName args =
     (case namespaces binding of
        None \<Rightarrow> (objects, Inl (internal_error (js ''manifest: DO binding '' @ [34] @ binding @ [34] @ js '' not present in env'')))
      | Some stub \<Rightarrow>
          (let key = object_key keyArg args in
           if key = [] then (objects, Inl (Invocation_error (Some (JNum (- 32602))) (keyArg @ js '' is required for '' @ handlesPrefix @ js ''* tools'')))
           else (case stub (objects key) (rpc_body [(js ''jsonrpc'', JStr (js ''2.0'')), (js ''method'', JStr toolName), (js ''params'', args), (js ''id'', JNum 0)]) of
               (s, r) \<Rightarrow> (objects(key := s), object_reply texts r))))"

definition DurableObjectToolBackend ::
    "(jsstr \<Rightarrow> ('s \<Rightarrow> bytes \<Rightarrow> 's \<times> backend_fetch) option) \<Rightarrow> json_texts \<Rightarrow> jsstr \<Rightarrow> jsstr \<Rightarrow> tool list \<Rightarrow> jsstr \<Rightarrow> (jsstr \<Rightarrow> 's) backend" where
  "DurableObjectToolBackend namespaces texts binding keyArg tools handlesPrefix =
     plain_backend tools handlesPrefix (object_invoke namespaces texts binding keyArg handlesPrefix)"

section \<open>The companion exchange\<close>

text \<open>A companion that decodes the call, answers it by \<open>g\<close> and sends the encoded answer.\<close>

definition companion_answers :: "'b companion \<Rightarrow> ('b \<Rightarrow> ToolCall \<Rightarrow> ToolResult) \<Rightarrow> ('b \<Rightarrow> ToolCall \<Rightarrow> 'b) \<Rightarrow> bool" where
  "companion_answers host g h \<longleftrightarrow> (\<forall>b url headers body tc bytes. decodeToolCall body = Inr tc \<longrightarrow> encodeToolResult (g b tc) = Inr bytes \<longrightarrow>
     co_fetch host b url headers body = (h b tc, Fetched 200 bytes))"

lemma call_answered:
  assumes "companion_answers host g h" "wire_call_ok tc" "wire_result_ok (g b tc)"
  shows "companion_call host b url headers tc = (h b tc, surface (tc_toolName tc) (g b tc))"
proof -
  obtain body where body: "encodeToolCall tc = Inr body" "decodeToolCall body = Inr tc" using call_wire_ok [OF assms(2)] by blast
  obtain bytes where bytes: "encodeToolResult (g b tc) = Inr bytes" "decodeToolResult bytes = Inr (g b tc)" using result_wire_ok [OF assms(3)] by blast
  have "co_fetch host b url headers body = (h b tc, Fetched 200 bytes)" using assms(1) body(2) bytes(1) by (auto simp: companion_answers_def)
  then show ?thesis using body(1) bytes(2) by (simp add: companion_call_def companion_reply_def res_ok_def)
qed

lemma stringify_plain: "plain_text (stringify v)"
proof -
  have "hd (stringify v) \<noteq> 0xFEFF" if "stringify v \<noteq> []"
  proof (cases v)
    case (JNum n)
    then have "unat (hd (stringify v)) < 128" using dec_of_int_ascii [of n] that by (cases "dec_of_int n") auto
    then show ?thesis by auto
  qed (auto simp: json_quote_def)
  then show ?thesis by (simp add: plain_text_def well_formed_stringify)
qed

lemma canonical_read: "distinct_keys v \<Longrightarrow> json_parse (utf8_decode (canonical v)) = Some (norm v)"
  using json_parse_sorted [OF norm_distinct] by (simp add: canonical_def utf8_roundtrip stringify_plain stringify_norm)

lemma json_text_surfaces:
  "distinct_keys v \<Longrightarrow> surface toolName \<lparr>tr_content = [TextContent (json_text v)], tr_isError = False\<rparr> = Inr (Some v)"
proof -
  assume v: "distinct_keys v"
  have "json_text v \<noteq> []" by (cases v) (auto simp: json_quote_def dec_of_int_def dec_digits_nonempty)
  then show ?thesis using json_parse_text [OF v] by (simp add: surface_def parse_or_text_def)
qed

text \<open>C28: A call through the companion reaches it as it was made and its answer comes back as it was given, over a Unix socket and over the
  leyline network alike: the companion reads the tool, the configured upstream and the arguments with sorted keys, and the
  backend returns what the answer says, errors included; where the answer is one text that is the JSON of a value, that value.\<close>

theorem companion_exchange:
  assumes "companion_answers host g h" "distinct_keys args" "tc = \<lparr>tc_upstreamId = upstream, tc_toolName = toolName, tc_argumentsJson = canonical args\<rparr>"
    and "wire_call_ok tc" "wire_result_ok (g b tc)" "co_bindings host binding = Some url" "url \<noteq> []"
  shows "be_invoke (LeylineNetToolBackend host binding upstream tools handlesPrefix) b toolName args peerFp = (h b tc, surface toolName (g b tc)) \<and>
    (binding = COMPANION_URL_BINDING \<longrightarrow> upstream = uds_upstreamId handlesPrefix toolName \<longrightarrow>
      be_invoke (UdsForwardToolBackend host socketPath tools handlesPrefix) b toolName args peerFp = (h b tc, surface toolName (g b tc))) \<and>
    json_parse (utf8_decode (tc_argumentsJson tc)) = Some (norm args) \<and>
    (\<forall>v. g b tc = \<lparr>tr_content = [TextContent (json_text v)], tr_isError = False\<rparr> \<longrightarrow> distinct_keys v \<longrightarrow> surface toolName (g b tc) = Inr (Some v))"
proof -
  obtain c u where url: "url = c # u" using assms(7) by (cases url) auto
  have call: "companion_call host b url headers tc = (h b tc, surface toolName (g b tc))" for headers
    using call_answered [OF assms(1,4,5)] assms(3) by simp
  show ?thesis
    using call assms(2,3,6) url
    by (auto simp: LeylineNetToolBackend_def UdsForwardToolBackend_def plain_backend_def leyline_invoke_def uds_invoke_def canonical_read json_text_surfaces)
qed

text \<open>A tool call reaches only the object its key argument names: no other object changes, what the call returns and does depends on
  that object alone, and without a key nothing is called.\<close>

theorem object_calls_isolated:
  assumes "be_invoke (DurableObjectToolBackend namespaces texts binding keyArg tools handlesPrefix) objects toolName args peerFp = (objects', r)"
  shows "(\<forall>k. k \<noteq> object_key keyArg args \<or> k = [] \<longrightarrow> objects' k = objects k) \<and>
    (\<forall>others. others (object_key keyArg args) = objects (object_key keyArg args) \<longrightarrow>
       (\<exists>others'. be_invoke (DurableObjectToolBackend namespaces texts binding keyArg tools handlesPrefix) others toolName args peerFp = (others', r) \<and>
          others' (object_key keyArg args) = objects' (object_key keyArg args)))"
  using assms by (auto simp: DurableObjectToolBackend_def plain_backend_def object_invoke_def Let_def split: option.splits if_splits prod.splits)

section \<open>Concrete backends\<close>

text \<open>A companion that answers every call with its tool name, and counts the calls.\<close>

definition name_answer :: "nat \<Rightarrow> ToolCall \<Rightarrow> ToolResult" where
  "name_answer b tc = \<lparr>tr_content = [TextContent (json_text (JStr (tc_toolName tc)))], tr_isError = False\<rparr>"

definition name_companion :: "nat companion" where
  "name_companion = \<lparr>co_bindings = (\<lambda>_. Some (js ''http://c'')),
     co_fetch = (\<lambda>b url headers body. case decodeToolCall body of
        Inl e \<Rightarrow> (b, Fetched 400 [])
      | Inr tc \<Rightarrow> (case encodeToolResult (name_answer b tc) of Inl e \<Rightarrow> (b, Fetched 500 []) | Inr bytes \<Rightarrow> (Suc b, Fetched 200 bytes))),
     co_message = (\<lambda>_. [])\<rparr>"

lemma name_companion_answers: "companion_answers name_companion name_answer (\<lambda>b tc. Suc b)"
  by (simp add: companion_answers_def name_companion_def)

theorem companion_exchange_witness:
  "be_invoke (UdsForwardToolBackend name_companion (js ''/run/x'') [] (js ''x_'')) 0 (js ''x_a'') (JObj []) [] = (1, Inr (Some (JStr (js ''x_a''))))"
proof -
  let ?tc = "\<lparr>tc_upstreamId = js ''x'', tc_toolName = js ''x_a'', tc_argumentsJson = canonical (JObj [])\<rparr>"
  have ok: "wire_call_ok ?tc" "wire_result_ok (name_answer 0 ?tc)"
    by (simp_all add: wire_call_ok_def wire_result_ok_def result_size_def name_answer_def plain_text_def ascii_well_formed utf8_encode_ascii canonical_def
        encodeTextWithNul_def padded_def json_quote_def escape_unit_def is_hi_def is_lo_def)
  have b: "co_bindings name_companion COMPANION_URL_BINDING = Some (js ''http://c'')" "js ''http://c'' \<noteq> []" by (simp_all add: name_companion_def)
  have up: "js ''x'' = uds_upstreamId (js ''x_'') (js ''x_a'')" by (simp add: uds_upstreamId_def)
  have "distinct_keys (JObj [])" by simp
  from companion_exchange [OF name_companion_answers this refl ok b, of "[]" "js ''x_''" "[]" "js ''/run/x''"] up
  have "be_invoke (UdsForwardToolBackend name_companion (js ''/run/x'') [] (js ''x_'')) 0 (js ''x_a'') (JObj []) [] = (Suc 0, surface (js ''x_a'') (name_answer 0 ?tc))"
    by blast
  moreover have "surface (js ''x_a'') (name_answer 0 ?tc) = Inr (Some (JStr (js ''x_a'')))"
    using json_text_surfaces [of "JStr (js ''x_a'')"] by (simp only: name_answer_def ToolCall.simps) simp
  ultimately show ?thesis by simp
qed

theorem object_calls_isolated_witness:
  "be_invoke (DurableObjectToolBackend (\<lambda>_. Some (\<lambda>n body. (Suc n, Unreachable []))) \<lparr>jt_null = [], jt_syntax = (\<lambda>_. [])\<rparr> (js ''BEADS'') (js ''repo'') [] (js ''bead_''))
     (\<lambda>_. 0 :: nat) (js ''bead_list'') (JObj [(js ''repo'', JStr (js ''r''))]) [] = ((\<lambda>_. 0)(js ''r'' := 1), Inl (Other_error [])) \<and>
   ((\<lambda>_. 0)(js ''r'' := 1 :: nat)) (js ''q'') = 0"
proof -
  let ?be = "DurableObjectToolBackend (\<lambda>_. Some (\<lambda>n body. (Suc n, Unreachable []))) \<lparr>jt_null = [], jt_syntax = (\<lambda>_. [])\<rparr> (js ''BEADS'') (js ''repo'') [] (js ''bead_'')"
  let ?args = "JObj [(js ''repo'', JStr (js ''r''))]"
  have key: "object_key (js ''repo'') ?args = js ''r''" by (simp add: object_key_def get_prop_def)
  have call: "be_invoke ?be (\<lambda>_. 0 :: nat) (js ''bead_list'') ?args [] = ((\<lambda>_. 0)(js ''r'' := 1), Inl (Other_error []))"
    by (simp add: DurableObjectToolBackend_def plain_backend_def object_invoke_def object_key_def get_prop_def object_reply_def Let_def)
  from object_calls_isolated [OF call] have "((\<lambda>_. 0)(js ''r'' := 1 :: nat)) (js ''q'') = 0" unfolding key by simp
  then show ?thesis using call by blast
qed

end
