(* ===== verification/Run_Identity.thy ===== *)
theory Run_Identity
  imports Wire_Codec Js_Base64
begin

text \<open>
  Content identities computed by the wasm bridge: \<open>src/wire/cas-hash.ts\<close> and \<open>src/wire/partition.ts\<close>, which copy buffers into the
  memory of the module, call it and free them, and \<open>src/wire/run-id.ts\<close>, the name of a run. The module is compiled from Rust
  outside this development: its state, its allocator, its memory and its two functions are a record of parameters. The one
  module instance is its state threaded through the calls. A call of the module can trap, as the allocator does when memory is
  exhausted (\<open>rs/crates/cas/src/lib.rs\<close>); a trap is an exception at the call, which only an enclosing \<open>finally\<close> sees.
\<close>

section \<open>The module\<close>

record 'w wasm =
  wa_alloc :: "'w \<Rightarrow> int \<Rightarrow> 'w \<times> int option"
  wa_free :: "'w \<Rightarrow> int \<Rightarrow> int \<Rightarrow> 'w"
  wa_set :: "'w \<Rightarrow> int \<Rightarrow> bytes \<Rightarrow> 'w"
  wa_get :: "'w \<Rightarrow> int \<Rightarrow> nat \<Rightarrow> bytes"
  wa_hash :: "'w \<Rightarrow> int \<Rightarrow> int \<Rightarrow> int \<Rightarrow> int \<Rightarrow> 'w \<times> int option"
  wa_partition :: "'w \<Rightarrow> int \<Rightarrow> int \<Rightarrow> int \<Rightarrow> int \<Rightarrow> int \<Rightarrow> 'w \<times> int option"

text \<open>\<open>None\<close> is a trap. \<open>Trapped\<close> is the \<open>WebAssembly.RuntimeError\<close> it becomes, the others are \<open>CasWasmError\<close>s.\<close>

datatype cas_error = Trapped | Alloc_null | Output_alloc_null | Hash_returned int | Partition_returned int | Unknown_domain int | Bad_address nat

definition BLAKE3_DIGEST_LEN :: nat where "BLAKE3_DIGEST_LEN = 32"

definition copyIn :: "'w wasm \<Rightarrow> 'w \<Rightarrow> bytes \<Rightarrow> 'w \<times> (cas_error + int)" where
  "copyIn wa w bs =
     (case wa_alloc wa w (int (length bs)) of
        (w1, None) \<Rightarrow> (w1, Inl Trapped)
      | (w1, Some ptr) \<Rightarrow>
          if ptr = 0 \<and> bs \<noteq> [] then (w1, Inl Alloc_null)
          else (if bs \<noteq> [] then wa_set wa w1 ptr bs else w1, Inr ptr))"

text \<open>The \<open>try\<close> of \<open>blake3Hash\<close> and its \<open>finally\<close>, which frees both buffers whether the call returns, returns an error or traps.
  The allocation of the output buffer is before the \<open>try\<close>.\<close>

definition hash_buffers :: "'w wasm \<Rightarrow> 'w \<Rightarrow> int \<Rightarrow> int \<Rightarrow> int \<Rightarrow> 'w \<times> (cas_error + bytes)" where
  "hash_buffers wa w inPtr len outPtr =
     (case wa_hash wa w inPtr len outPtr (int BLAKE3_DIGEST_LEN) of
        (w1, rc) \<Rightarrow>
          (wa_free wa (wa_free wa w1 inPtr len) outPtr (int BLAKE3_DIGEST_LEN),
           case rc of
             None \<Rightarrow> Inl Trapped
           | Some rc \<Rightarrow> if rc \<noteq> int BLAKE3_DIGEST_LEN then Inl (Hash_returned rc) else Inr (wa_get wa w1 outPtr BLAKE3_DIGEST_LEN)))"

definition blake3Hash :: "'w wasm \<Rightarrow> 'w \<Rightarrow> bytes \<Rightarrow> 'w \<times> (cas_error + bytes)" where
  "blake3Hash wa w bs =
     (case copyIn wa w bs of
        (w1, Inl e) \<Rightarrow> (w1, Inl e)
      | (w1, Inr inPtr) \<Rightarrow>
          (case wa_alloc wa w1 (int BLAKE3_DIGEST_LEN) of
             (w2, None) \<Rightarrow> (w2, Inl Trapped)
           | (w2, Some outPtr) \<Rightarrow>
               if outPtr = 0 then (wa_free wa w2 inPtr (int (length bs)), Inl Output_alloc_null)
               else hash_buffers wa w2 inPtr (int (length bs)) outPtr))"

definition blake3Hex :: "'w wasm \<Rightarrow> 'w \<Rightarrow> bytes \<Rightarrow> 'w \<times> (cas_error + jsstr)" where
  "blake3Hex wa w bs = (case blake3Hash wa w bs of (w', r) \<Rightarrow> (w', map_sum id to_hex r))"

section \<open>Partitions\<close>


record PartitionSpecInput =
  ps_domainTag :: int
  ps_scheme :: jsstr
  ps_params :: bytes
  ps_canonVersion :: int

definition encodeSpec :: "PartitionSpecInput \<Rightarrow> cas_error + bytes" where
  "encodeSpec spec =
     (if ps_domainTag spec \<noteq> 1 \<and> ps_domainTag spec \<noteq> 2 \<and> ps_domainTag spec \<noteq> 3 then Inl (Unknown_domain (ps_domainTag spec))
      else let schemeBytes = utf8_encode (ps_scheme spec) in
        Inr (le_bytes 1 (ps_domainTag spec) @ le_bytes 4 (ps_canonVersion spec) @ le_bytes 8 (int (length schemeBytes)) @ schemeBytes @
          le_bytes 8 (int (length (ps_params spec))) @ ps_params spec))"






section \<open>Runs\<close>

record RunIdInputs =
  ri_canonicalSpecDigest :: jsstr
  ri_grantId :: jsstr
  ri_replayKey :: jsstr

definition RUN_ID_DOMAIN :: jsstr where "RUN_ID_DOMAIN = js ''cloister/execution/v1/run-id''"
definition RUN_ID_PREFIX :: jsstr where "RUN_ID_PREFIX = js ''run-''"

definition u64le :: "int \<Rightarrow> bytes" where
  "u64le v = le_bytes 8 v"

definition buildRunIdPreimage :: "RunIdInputs \<Rightarrow> bytes" where
  "buildRunIdPreimage inputs =
     utf8_encode RUN_ID_DOMAIN @ [0] @
     concat (map (\<lambda>field. let bs = utf8_encode field in u64le (int (length bs)) @ bs) [ri_canonicalSpecDigest inputs, ri_grantId inputs, ri_replayKey inputs])"

definition deriveRunId :: "(bytes \<Rightarrow> bytes) \<Rightarrow> RunIdInputs \<Rightarrow> jsstr" where
  "deriveRunId blake3 inputs = RUN_ID_PREFIX @ to_hex (blake3 (buildRunIdPreimage inputs))"

section \<open>Framed fields determine their content\<close>

lemma le_bytes_inject: "0 \<le> v \<Longrightarrow> v < 256 ^ n \<Longrightarrow> 0 \<le> u \<Longrightarrow> u < 256 ^ n \<Longrightarrow> le_bytes n v = le_bytes n u \<longleftrightarrow> v = u"
  by (metis le_value_le_bytes mod_pos_pos_trivial)

lemma framed_field_inject:
  assumes "int (length a) < 2 ^ 64" "int (length b) < 2 ^ 64"
  shows "le_bytes 8 (int (length a)) @ a @ x = le_bytes 8 (int (length b)) @ b @ y \<longleftrightarrow> a = b \<and> x = y"
proof
  assume eq: "le_bytes 8 (int (length a)) @ a @ x = le_bytes 8 (int (length b)) @ b @ y"
  then have "le_bytes 8 (int (length a)) = le_bytes 8 (int (length b))" "a @ x = b @ y"
    using append_eq_by_length [of "le_bytes 8 (int (length a))" "le_bytes 8 (int (length b))"] by simp_all
  then have "length a = length b" "a @ x = b @ y" using le_bytes_inject [of "int (length a)" 8 "int (length b)"] assms by simp_all
  then show "a = b \<and> x = y" by simp
qed simp

definition run_fields_ok :: "RunIdInputs \<Rightarrow> bool" where
  "run_fields_ok i \<longleftrightarrow> (\<forall>f \<in> {ri_canonicalSpecDigest i, ri_grantId i, ri_replayKey i}. well_formed f \<and> int (length (utf8_encode f)) < 2 ^ 64)"

text \<open>C29: The name of a run binds its authority: two runs of one name have the same specification, grant and replay key, or their
  preimages are a collision of the hash. The framing of the fields keeps apart what concatenation would join.\<close>

theorem run_id_binds:
  assumes "run_fields_ok i" "run_fields_ok j" "deriveRunId blake3 i = deriveRunId blake3 j"
  shows "i = j \<or> (buildRunIdPreimage i \<noteq> buildRunIdPreimage j \<and> blake3 (buildRunIdPreimage i) = blake3 (buildRunIdPreimage j))"
proof (cases "buildRunIdPreimage i = buildRunIdPreimage j")
  case True
  have "ri_canonicalSpecDigest i = ri_canonicalSpecDigest j \<and> ri_grantId i = ri_grantId j \<and> ri_replayKey i = ri_replayKey j"
  proof -
    let ?f = "\<lambda>s x. le_bytes 8 (int (length (utf8_encode s))) @ utf8_encode s @ x"
    have step: "?f s x = ?f t y \<longleftrightarrow> s = t \<and> x = y" if "well_formed s \<and> int (length (utf8_encode s)) < 2 ^ 64" "well_formed t \<and> int (length (utf8_encode t)) < 2 ^ 64" for s t x y
      using framed_field_inject [of "utf8_encode s" "utf8_encode t" x y] utf8_encode_inject [of s t] that by blast
    have "?f (ri_canonicalSpecDigest i) (?f (ri_grantId i) (?f (ri_replayKey i) [])) = ?f (ri_canonicalSpecDigest j) (?f (ri_grantId j) (?f (ri_replayKey j) []))"
      using True by (simp only: buildRunIdPreimage_def u64le_def Let_def list.map concat.simps append_assoc append_Nil2 append_Nil same_append_eq)
    then show ?thesis using step assms(1,2) unfolding run_fields_ok_def by (metis (no_types, lifting) insertCI)
  qed
  then show ?thesis by simp
next
  case False
  then show ?thesis using assms(3) by (simp add: deriveRunId_def to_hex_inject)
qed

definition spec_in_range :: "PartitionSpecInput \<Rightarrow> bool" where
  "spec_in_range s \<longleftrightarrow> 0 \<le> ps_canonVersion s \<and> ps_canonVersion s < 2 ^ 32 \<and> well_formed (ps_scheme s) \<and>
     int (length (utf8_encode (ps_scheme s))) < 2 ^ 64 \<and> int (length (ps_params s)) < 2 ^ 64"

lemma spec_bytes_bind:
  assumes "encodeSpec s = Inr bs" "encodeSpec t = Inr bs" "spec_in_range s" "spec_in_range t"
  shows "s = t"
proof -
  have d: "ps_domainTag x = 1 \<or> ps_domainTag x = 2 \<or> ps_domainTag x = 3" if "encodeSpec x = Inr bs" for x using that by (auto simp: encodeSpec_def split: if_splits)
  have "le_bytes 1 (ps_domainTag s) @ le_bytes 4 (ps_canonVersion s) @ le_bytes 8 (int (length (utf8_encode (ps_scheme s)))) @ utf8_encode (ps_scheme s) @
      le_bytes 8 (int (length (ps_params s))) @ ps_params s @ [] =
     le_bytes 1 (ps_domainTag t) @ le_bytes 4 (ps_canonVersion t) @ le_bytes 8 (int (length (utf8_encode (ps_scheme t)))) @ utf8_encode (ps_scheme t) @
      le_bytes 8 (int (length (ps_params t))) @ ps_params t @ []"
    using assms(1,2) by (auto simp: encodeSpec_def Let_def split: if_splits)
  then have "le_bytes 1 (ps_domainTag s) = le_bytes 1 (ps_domainTag t)" "le_bytes 4 (ps_canonVersion s) = le_bytes 4 (ps_canonVersion t)"
    "utf8_encode (ps_scheme s) = utf8_encode (ps_scheme t)" "ps_params s = ps_params t"
  proof -
    let ?rest = "\<lambda>x. le_bytes 8 (int (length (utf8_encode (ps_scheme x)))) @ utf8_encode (ps_scheme x) @ le_bytes 8 (int (length (ps_params x))) @ ps_params x @ []"
    assume eq: "le_bytes 1 (ps_domainTag s) @ le_bytes 4 (ps_canonVersion s) @ ?rest s = le_bytes 1 (ps_domainTag t) @ le_bytes 4 (ps_canonVersion t) @ ?rest t"
    then have 1: "le_bytes 1 (ps_domainTag s) = le_bytes 1 (ps_domainTag t)" "le_bytes 4 (ps_canonVersion s) @ ?rest s = le_bytes 4 (ps_canonVersion t) @ ?rest t"
      using append_eq_by_length [of "le_bytes 1 (ps_domainTag s)" "le_bytes 1 (ps_domainTag t)"] by (simp_all only: length_le_bytes simp_thms)
    then have 2: "le_bytes 4 (ps_canonVersion s) = le_bytes 4 (ps_canonVersion t)" "?rest s = ?rest t"
      using append_eq_by_length [of "le_bytes 4 (ps_canonVersion s)" "le_bytes 4 (ps_canonVersion t)"] by (simp_all only: length_le_bytes simp_thms)
    note inj = framed_field_inject [of "utf8_encode (ps_scheme s)" "utf8_encode (ps_scheme t)"] framed_field_inject [of "ps_params s" "ps_params t" "[]" "[]"]
    have "utf8_encode (ps_scheme s) = utf8_encode (ps_scheme t) \<and> ps_params s = ps_params t"
      using 2(2) inj assms(3,4) unfolding spec_in_range_def by blast
    then show "le_bytes 1 (ps_domainTag s) = le_bytes 1 (ps_domainTag t)" "le_bytes 4 (ps_canonVersion s) = le_bytes 4 (ps_canonVersion t)"
      "utf8_encode (ps_scheme s) = utf8_encode (ps_scheme t)" "ps_params s = ps_params t" using 1(1) 2(1) by blast+
  qed
  moreover have "ps_domainTag s = ps_domainTag t" using calculation(1) d [OF assms(1)] d [OF assms(2)] le_bytes_inject [of "ps_domainTag s" 1 "ps_domainTag t"] by auto
  ultimately show ?thesis using assms(3,4) le_bytes_inject [of "ps_canonVersion s" 4 "ps_canonVersion t"] by (simp add: spec_in_range_def utf8_encode_inject)
qed

text \<open>The domain tag is checked before it is truncated; the canonicalization version is not.\<close>

lemma canon_version_truncated: "encodeSpec (s\<lparr>ps_canonVersion := ps_canonVersion s + 2 ^ 32\<rparr>) = encodeSpec s"
proof -
  have wrap: "le_bytes n (v + 256 ^ n) = le_bytes n v" for n v
  proof (induction n arbitrary: v)
    case (Suc n)
    have "(v + 256 * 256 ^ n) div 256 = v div 256 + 256 ^ n" by simp
    moreover have "to_u8 (v + 256 * 256 ^ n) = to_u8 v" by (simp only: to_u8_def word_of_int_eq_iff take_bit_eq_mod) simp
    ultimately show ?case using Suc [of "v div 256"] by (simp only: le_bytes.simps power_Suc)
  qed simp
  show ?thesis using wrap [of 4 "ps_canonVersion s"] by (simp add: encodeSpec_def)
qed

section \<open>Buffers of the module\<close>









section \<open>Concrete instances\<close>




theorem run_id_binds_witness:
  "buildRunIdPreimage \<lparr>ri_canonicalSpecDigest = [], ri_grantId = js ''ab'', ri_replayKey = js ''c''\<rparr> \<noteq>
   buildRunIdPreimage \<lparr>ri_canonicalSpecDigest = [], ri_grantId = js ''a'', ri_replayKey = js ''bc''\<rparr>"
proof -
  let ?i = "\<lparr>ri_canonicalSpecDigest = [], ri_grantId = js ''ab'', ri_replayKey = js ''c''\<rparr>" let ?j = "\<lparr>ri_canonicalSpecDigest = [], ri_grantId = js ''a'', ri_replayKey = js ''bc''\<rparr>"
  have ok: "run_fields_ok ?i" "run_fields_ok ?j" by (simp_all add: run_fields_ok_def ascii_well_formed utf8_encode_ascii is_hi_def is_lo_def)
  have "deriveRunId (\<lambda>_. []) ?i = deriveRunId (\<lambda>_. []) ?j" by (simp add: deriveRunId_def)
  from run_id_binds [OF ok this] show ?thesis by simp
qed

end
