(* ===== verification/Vault_Library.thy ===== *)
theory Vault_Library
  imports Canonical_Json Js_Web
begin

text \<open>
  The credential vault's library: \<open>vault/src/vault.ts\<close> (validation, access patterns, response and request
  headers), \<open>vault/src/crypto.ts\<close> (the sealed envelope) and the denial audit record of
  \<open>vault/src/handler.ts\<close>. AES-GCM is the pair of parameters \<open>aes_encrypt\<close> and \<open>aes_decrypt\<close>, the platform's
  URL parser the parameter \<open>parse_url\<close>, and random bytes are arguments. A header list holds lower-case
  names, as iterating a \<open>Headers\<close> object yields them; \<open>headers_set\<close> follows the Fetch standard.

  The access pattern matcher is proved equal to the plain meaning of a pattern, sealing is proved to be
  undone by unsealing, and the outgoing request is characterised header by header.
\<close>

section \<open>Names, addresses and payload sizes\<close>

definition validateServiceName :: "jsstr \<Rightarrow> bool" where
  "validateServiceName name =
     (case name of [] \<Rightarrow> False
      | c # r \<Rightarrow> alnum c \<and> (\<forall>d \<in> set r. alnum d \<or> d = of_char CHR ''_'' \<or> d = of_char CHR ''-''))"

text \<open>\<open>/^[a-z0-9]([a-z0-9.-]*[a-z0-9])?$/\<close>.\<close>

definition domain_shaped :: "jsstr \<Rightarrow> bool" where
  "domain_shaped host =
     (let edge = (\<lambda>c. is_lower c \<or> dec_digit c) in
      host \<noteq> [] \<and> edge (hd host) \<and> edge (last host) \<and>
      (\<forall>c \<in> set host. edge c \<or> c = of_char CHR ''.'' \<or> c = of_char CHR ''-''))"

definition validateUpstreamUrl :: "(jsstr \<Rightarrow> url option) \<Rightarrow> jsstr \<Rightarrow> bool" where
  "validateUpstreamUrl parse_url s =
     (case parse_url s of
        None \<Rightarrow> False
      | Some parsed \<Rightarrow>
          let host = ascii_lower (u_hostname parsed) in
          if u_protocol parsed \<noteq> js ''https:'' then False
          else if u_username parsed \<noteq> [] \<or> u_password parsed \<noteq> [] then False
          else if of_char CHR ''['' \<in> set host \<or> of_char CHR '']'' \<in> set host \<or> of_char CHR '':'' \<in> set host then False
          else if host \<noteq> [] \<and> (\<forall>c \<in> set host. dec_digit c \<or> c = of_char CHR ''.'') then False
          else if host = js ''localhost'' \<or> ends_with host (js ''.localhost'') then False
          else if ends_with host (js ''.internal'') then False
          else if of_char CHR ''.'' \<notin> set host then False
          else if \<not> domain_shaped host then False
          else True)"

definition MAX_HEADER_COUNT :: nat where "MAX_HEADER_COUNT = 32"
definition MAX_HEADER_KEY_BYTES :: nat where "MAX_HEADER_KEY_BYTES = 256"
definition MAX_HEADER_VALUE_BYTES :: nat where "MAX_HEADER_VALUE_BYTES = 8 * 1024"
definition MAX_TOTAL_HEADERS_BYTES :: nat where "MAX_TOTAL_HEADERS_BYTES = 16 * 1024"
definition MAX_ALLOWED_SUBS_COUNT :: nat where "MAX_ALLOWED_SUBS_COUNT = 64"
definition MAX_ALLOWED_SUB_BYTES :: nat where "MAX_ALLOWED_SUB_BYTES = 512"

record storedCredential =
  sc_upstream :: jsstr
  sc_headers :: "(jsstr \<times> jsstr) list"
  sc_allowedSubs :: "jsstr list"

definition byteLength :: "jsstr \<Rightarrow> nat" where
  "byteLength s = length (utf8_encode s)"

definition over :: "string \<Rightarrow> nat \<Rightarrow> nat \<Rightarrow> string \<Rightarrow> jsstr" where
  "over what n bound unit = js what @ js '' ('' @ dec_digits n @ js '' > '' @ dec_digits bound @ js unit @ js '')''"

text \<open>The loop over the headers: \<open>Inl\<close> is the refusal, \<open>Inr\<close> the total of bytes.\<close>

fun header_sizes :: "(jsstr \<times> jsstr) list \<Rightarrow> nat \<Rightarrow> jsstr + nat" where
  "header_sizes [] sum_bytes = Inr sum_bytes"
| "header_sizes ((k, v) # hs) sum_bytes =
     (if byteLength k > MAX_HEADER_KEY_BYTES
      then Inl (over ''header key too long'' (byteLength k) MAX_HEADER_KEY_BYTES '' bytes'')
      else if byteLength v > MAX_HEADER_VALUE_BYTES
      then Inl (over ''header value too long'' (byteLength v) MAX_HEADER_VALUE_BYTES '' bytes'')
      else header_sizes hs (sum_bytes + (byteLength k + byteLength v)))"

text \<open>\<open>None\<close> accepts.\<close>

definition validateCredentialPayload :: "storedCredential \<Rightarrow> jsstr option" where
  "validateCredentialPayload cred =
     (let headers = sc_headers cred; subs = sc_allowedSubs cred in
      if length headers > MAX_HEADER_COUNT
      then Some (over ''too many headers'' (length headers) MAX_HEADER_COUNT '''')
      else case header_sizes headers 0 of
        Inl reason \<Rightarrow> Some reason
      | Inr sum_bytes \<Rightarrow>
          if sum_bytes > MAX_TOTAL_HEADERS_BYTES
          then Some (over ''headers exceed total size'' sum_bytes MAX_TOTAL_HEADERS_BYTES '' bytes'')
          else if length subs > MAX_ALLOWED_SUBS_COUNT
          then Some (over ''too many allowedSubs'' (length subs) MAX_ALLOWED_SUBS_COUNT '''')
          else case find (\<lambda>s. byteLength s > MAX_ALLOWED_SUB_BYTES) subs of
            Some s \<Rightarrow> Some (over ''allowedSubs entry too long'' (byteLength s) MAX_ALLOWED_SUB_BYTES '' bytes'')
          | None \<Rightarrow> None)"

definition buildErrorResponse :: "jsstr \<Rightarrow> jsstr \<Rightarrow> jsstr \<Rightarrow> storedCredential option \<Rightarrow> json" where
  "buildErrorResponse type sub service cred = JObj [(js ''error'', JStr type), (js ''service'', JStr service)]"

section \<open>Access patterns\<close>

abbreviation star :: jschar where
  "star \<equiv> of_char CHR ''*''"

fun glob_loop :: "jsstr \<Rightarrow> nat \<Rightarrow> jsstr list \<Rightarrow> nat \<Rightarrow> nat \<Rightarrow> bool" where
  "glob_loop v n [] i pos = True"
| "glob_loop v n (seg # segs) i pos =
     (if seg = [] then glob_loop v n segs (i + 1) pos
      else if i = 0 then (if \<not> starts_with v seg then False else glob_loop v n segs (i + 1) (length seg))
      else if i = n - 1 then
        (if \<not> ends_with v seg then False
         else if int (length v) - int (length seg) < int pos then False
         else glob_loop v n segs (i + 1) pos)
      else (case index_from v seg pos of
              None \<Rightarrow> False
            | Some idx \<Rightarrow> glob_loop v n segs (i + 1) (idx + length seg)))"

definition globMatch :: "jsstr \<Rightarrow> jsstr \<Rightarrow> bool" where
  "globMatch pat v =
     (if pat = [star] then True
      else if star \<notin> set pat then pat = v
      else let segments = split_on star pat in glob_loop v (length segments) segments 0 0)"

definition checkAccess :: "jsstr list \<Rightarrow> jsstr \<Rightarrow> bool" where
  "checkAccess allowedSubs sub =
     (if \<exists>c \<in> set sub. is_control c then False
      else \<exists>pat \<in> set allowedSubs. globMatch pat sub)"

section \<open>Headers\<close>

definition ALLOWED_RESPONSE_HEADERS :: "jsstr list" where
  "ALLOWED_RESPONSE_HEADERS = map js [''content-type'', ''content-length'', ''content-encoding'', ''cache-control'', ''etag'',
     ''last-modified'', ''date'', ''x-ratelimit-limit'', ''x-ratelimit-remaining'', ''x-ratelimit-reset'', ''retry-after'']"

text \<open>The loop that sets the entries of one \<open>Headers\<close> object in a new one, for the names that pass; the names and
  values come from a \<open>Headers\<close> object, so setting them again never throws.\<close>

definition copy_headers :: "(jsstr \<Rightarrow> bool) \<Rightarrow> headers \<Rightarrow> headers" where
  "copy_headers passes hs = foldl (\<lambda>acc (key, value). if passes key then AList.update key value acc else acc) [] hs"

definition sanitizeResponse :: "response \<Rightarrow> response" where
  "sanitizeResponse upstream =
     upstream\<lparr>rs_headers := copy_headers (\<lambda>key. ascii_lower key \<in> set ALLOWED_RESPONSE_HEADERS) (rs_headers upstream)\<rparr>"

definition STRIPPED_HEADERS :: "jsstr list" where
  "STRIPPED_HEADERS = map js [''authorization'', ''x-client-cert'', ''dpop'', ''cookie'', ''cf-connecting-ip'', ''cf-ray'',
     ''cf-visitor'', ''cf-ipcountry'', ''cf-worker'', ''x-forwarded-for'', ''x-forwarded-proto'', ''x-real-ip'', ''host'',
     ''connection'', ''keep-alive'', ''transfer-encoding'', ''te'', ''upgrade'']"

record upstream_request =
  ur_url :: url
  ur_method :: jsstr
  ur_headers :: headers
  ur_body :: "bytes option"

text \<open>\<open>URLSearchParams.prototype.set\<close>: the first entry of the name is overwritten, the others go.\<close>

fun params_set :: "(jsstr \<times> jsstr) list \<Rightarrow> jsstr \<Rightarrow> jsstr \<Rightarrow> (jsstr \<times> jsstr) list" where
  "params_set [] k v = [(k, v)]"
| "params_set ((k', v') # ps) k v =
     (if k' = k then (k, v) # filter (\<lambda>p. fst p \<noteq> k) ps else (k', v') # params_set ps k v)"

fun set_all :: "headers \<Rightarrow> (jsstr \<times> jsstr) list \<Rightarrow> headers option" where
  "set_all hs [] = Some hs"
| "set_all hs ((k, v) # kvs) = (case headers_set hs k v of None \<Rightarrow> None | Some hs' \<Rightarrow> set_all hs' kvs)"

definition buildProxyRequest :: "(jsstr \<Rightarrow> url option) \<Rightarrow> web_request \<Rightarrow> storedCredential \<Rightarrow> upstream_request option" where
  "buildProxyRequest parse_url incoming cred =
     (case (parse_url (wr_url incoming), parse_url (sc_upstream cred)) of
        (Some incomingUrl, Some upstreamUrl) \<Rightarrow>
          let params = foldl (\<lambda>ps (k, v). params_set ps k v) (u_params upstreamUrl) (u_params incomingUrl);
              safe = copy_headers (\<lambda>key. ascii_lower key \<notin> set STRIPPED_HEADERS) (wr_headers incoming);
              hasBody = (wr_method incoming \<noteq> js ''GET'' \<and> wr_method incoming \<noteq> js ''HEAD'')
          in case set_all safe (sc_headers cred) of
               None \<Rightarrow> None
             | Some hs \<Rightarrow> Some \<lparr>ur_url = upstreamUrl\<lparr>u_params := params\<rparr>, ur_method = wr_method incoming,
                                 ur_headers = hs, ur_body = (if hasBody then Some (wr_body incoming) else None)\<rparr>
      | _ \<Rightarrow> None)"

section \<open>The sealed envelope\<close>

record aes =
  aes_encrypt :: "bytes \<Rightarrow> bytes \<Rightarrow> bytes \<Rightarrow> bytes"
  aes_decrypt :: "bytes \<Rightarrow> bytes \<Rightarrow> bytes \<Rightarrow> bytes option"

record sealedCredential =
  se_wrappedDek :: jsstr
  se_iv :: jsstr
  se_ciphertext :: jsstr

text \<open>The random data key and the two random initialisation vectors of one call.\<close>

record seal_random =
  rnd_dek :: bytes
  rnd_iv :: bytes
  rnd_wrapIv :: bytes

definition headers_json :: "(jsstr \<times> jsstr) list \<Rightarrow> json" where
  "headers_json hs = JObj (map (\<lambda>(k, v). (k, JStr v)) hs)"

definition encrypt :: "aes \<Rightarrow> seal_random \<Rightarrow> (jsstr \<times> jsstr) list \<Rightarrow> bytes \<Rightarrow> sealedCredential" where
  "encrypt cipher rnd headers kek =
     (let plaintext = utf8_encode (json_text (headers_json headers));
          ciphertext = aes_encrypt cipher (rnd_dek rnd) (rnd_iv rnd) plaintext;
          wrappedDek = aes_encrypt cipher kek (rnd_wrapIv rnd) (rnd_dek rnd)
      in \<lparr>se_wrappedDek = b64encode (rnd_wrapIv rnd @ wrappedDek), se_iv = b64encode (rnd_iv rnd),
          se_ciphertext = b64encode ciphertext\<rparr>)"

text \<open>\<open>None\<close> is a rejected promise; the values of the parsed object are coerced to strings where they are used.\<close>

definition decrypt :: "aes \<Rightarrow> sealedCredential \<Rightarrow> bytes \<Rightarrow> (jsstr \<times> jsstr) list option" where
  "decrypt cipher sealed kek =
     (case (b64decode (se_wrappedDek sealed), b64decode (se_iv sealed), b64decode (se_ciphertext sealed)) of
        (Some wrapped, Some iv, Some ciphertext) \<Rightarrow>
          (case aes_decrypt cipher kek (take 12 wrapped) (drop 12 wrapped) of
             None \<Rightarrow> None
           | Some dek \<Rightarrow>
               case aes_decrypt cipher dek iv ciphertext of
                 None \<Rightarrow> None
               | Some plain \<Rightarrow>
                   case json_parse (utf8_decode plain) of
                     None \<Rightarrow> None
                   | Some v \<Rightarrow> map_option (map (\<lambda>(k, w). (k, js_string w))) (object_entries v))
      | _ \<Rightarrow> None)"

section \<open>Audit records\<close>

datatype vaultDenialEvent = Rate_limited | Rate_limited_burst | Credential_missing | Credential_denied
  | Lease_failed | Service_undeclared | Manifest_deny | Store_unavailable

record denial_audit =
  da_event :: vaultDenialEvent
  da_subjectFp :: "jsstr option"
  da_callerSub :: "jsstr option"
  da_service :: "jsstr option"
  da_reason :: "jsstr option"
  da_retryAfterSec :: "int option"
  da_ts :: int

definition shorten :: "jsstr \<Rightarrow> jsstr" where
  "shorten s = (if length s > 16 then take 16 s @ [0x2026] else s)"

definition buildDenialAuditEntry :: "vaultDenialEvent \<Rightarrow> jsstr option \<Rightarrow> jsstr option \<Rightarrow> jsstr option \<Rightarrow> jsstr option \<Rightarrow> int option \<Rightarrow> int \<Rightarrow> denial_audit" where
  "buildDenialAuditEntry event subjectFp callerSub service reason retryAfterSec now =
     \<lparr>da_event = event, da_subjectFp = map_option shorten subjectFp, da_callerSub = map_option shorten callerSub,
      da_service = service, da_reason = reason, da_retryAfterSec = retryAfterSec, da_ts = now\<rparr>"


section \<open>Patterns mean what they say\<close>

text \<open>The plain meaning of a pattern: \<open>*\<close> stands for any text, every other character for itself.\<close>

fun glob_matches :: "jsstr \<Rightarrow> jsstr \<Rightarrow> bool" where
  "glob_matches [] v = (v = [])"
| "glob_matches (c # p) v =
     (if c = star then \<exists>k \<in> set [0..<Suc (length v)]. glob_matches p (drop k v)
      else case v of [] \<Rightarrow> False | x # u \<Rightarrow> x = c \<and> glob_matches p u)"

text \<open>The same by segments: \<open>segs_match\<close> from a segment on, \<open>rest_match\<close> from a \<open>*\<close> on.\<close>

fun segs_match :: "jsstr list \<Rightarrow> jsstr \<Rightarrow> bool" where
  "segs_match [] v = True"
| "segs_match [w] v = (v = w)"
| "segs_match (w # ws) v = (starts_with v w \<and> (\<exists>k \<le> length v. length w \<le> k \<and> segs_match ws (drop k v)))"

definition rest_match :: "jsstr list \<Rightarrow> jsstr \<Rightarrow> bool" where
  "rest_match ws v = (\<exists>k \<le> length v. segs_match ws (drop k v))"

lemma segs_match_Cons: "ws \<noteq> [] \<Longrightarrow> segs_match (w # ws) v \<longleftrightarrow> starts_with v w \<and> rest_match ws (drop (length w) v)"
proof -
  assume "ws \<noteq> []"
  then have "segs_match (w # ws) v \<longleftrightarrow> starts_with v w \<and> (\<exists>k \<le> length v. length w \<le> k \<and> segs_match ws (drop k v))"
    by (cases ws) auto
  also have "\<dots> \<longleftrightarrow> starts_with v w \<and> rest_match ws (drop (length w) v)"
  proof (cases "starts_with v w")
    case True
    then have len: "length w \<le> length v" by (auto simp: starts_with_iff)
    have "(\<exists>k \<le> length v. length w \<le> k \<and> P k) \<longleftrightarrow> (\<exists>k \<le> length v - length w. P (length w + k))" for P
    proof
      assume "\<exists>k \<le> length v. length w \<le> k \<and> P k"
      then obtain k where "k \<le> length v" "length w \<le> k" "P k" by blast
      then show "\<exists>k \<le> length v - length w. P (length w + k)" by (intro exI [of _ "k - length w"]) auto
    next
      assume "\<exists>k \<le> length v - length w. P (length w + k)"
      then obtain k where "k \<le> length v - length w" "P (length w + k)" by blast
      then show "\<exists>k \<le> length v. length w \<le> k \<and> P k" using len by (intro exI [of _ "length w + k"]) auto
    qed
    then show ?thesis by (simp add: rest_match_def add.commute)
  qed simp
  finally show ?thesis .
qed

lemma rest_match_suffix: "rest_match ws (drop a v) \<Longrightarrow> b \<le> a \<Longrightarrow> rest_match ws (drop b v)"
  unfolding rest_match_def
proof (elim exE conjE)
  fix k assume *: "b \<le> a" "k \<le> length (drop a v)" "segs_match ws (drop k (drop a v))"
  show "\<exists>k \<le> length (drop b v). segs_match ws (drop k (drop b v))"
  proof (cases "a \<le> length v")
    case True
    then show ?thesis using * by (intro exI [of _ "k + a - b"]) (auto simp: algebra_simps)
  next
    case False
    then show ?thesis using * by (intro exI [of _ "length v - b"]) (auto simp: algebra_simps)
  qed
qed

lemma segs_match_star: "segs_match ([] # ws) v \<longleftrightarrow> (if ws = [] then v = [] else rest_match ws v)"
  using segs_match_Cons [of ws "[]" v] by auto

lemma segs_match_char:
  "segs_match ((x # w) # ws) v \<longleftrightarrow> (case v of [] \<Rightarrow> False | y # u \<Rightarrow> y = x \<and> segs_match (w # ws) u)"
proof (cases "ws = []")
  case False
  then show ?thesis by (cases v) (auto simp: segs_match_Cons starts_with_iff)
qed (auto split: list.split)

lemma glob_matches_segs: "glob_matches p v = segs_match (split_on star p) v"
proof (induction p arbitrary: v)
  case (Cons c p)
  have ex: "(\<exists>k \<in> set [0..<Suc (length v)]. glob_matches p (drop k v)) \<longleftrightarrow> rest_match (split_on star p) v"
    by (simp add: rest_match_def Cons Bex_def less_Suc_eq_le del: upt_Suc)
  show ?case
  proof (cases "c = star")
    case True
    then show ?thesis using ex by (simp add: segs_match_star del: set_upt upt_Suc)
  next
    case False
    obtain w ws where "split_on star p = w # ws" using split_on_nonempty by (cases "split_on star p") blast+
    then show ?thesis using False Cons by (simp add: segs_match_char split: list.split)
  qed
qed simp

text \<open>The leftmost occurrence of a middle segment leaves the most text, so taking it loses no match.\<close>

lemma rest_match_greedy:
  assumes "ws \<noteq> []"
  shows "rest_match (w # ws) v \<longleftrightarrow> (case find_sub w v of None \<Rightarrow> False | Some i \<Rightarrow> rest_match ws (drop (i + length w) v))"
proof -
  have "rest_match (w # ws) v \<longleftrightarrow> (\<exists>k \<le> length v. starts_with (drop k v) w \<and> rest_match ws (drop (k + length w) v))"
    unfolding rest_match_def [of "w # ws"] segs_match_Cons [OF assms] by (simp add: add.commute)
  also have "\<dots> \<longleftrightarrow> (case find_sub w v of None \<Rightarrow> False | Some i \<Rightarrow> rest_match ws (drop (i + length w) v))"
  proof (cases "find_sub w v")
    case None
    then show ?thesis using find_sub_first [of _ v w] by fastforce
  next
    case (Some i)
    then show ?thesis using find_sub_SomeD [OF Some] find_sub_first [of _ v w] rest_match_suffix [of ws _ v "i + length w"]
      by fastforce
  qed
  finally show ?thesis .
qed

lemma rest_match_last: "rest_match [w] v \<longleftrightarrow> ends_with v w"
  unfolding rest_match_def ends_with_iff segs_match.simps
  by (metis append_eq_conv_conj append_take_drop_id drop_all le_cases length_append le_add1)

lemma ends_with_drop:
  "pos \<le> length v \<Longrightarrow> ends_with (drop pos v) w \<longleftrightarrow> ends_with v w \<and> int pos \<le> int (length v) - int (length w)"
proof -
  assume p: "pos \<le> length v"
  have "ends_with (drop pos v) w \<longleftrightarrow> length w \<le> length (drop pos v) \<and> drop (length (drop pos v) - length w) (drop pos v) = w"
    by (auto simp: ends_with_def)
  also have "\<dots> \<longleftrightarrow> length w \<le> length v - pos \<and> drop (length v - length w) v = w" using p by (auto simp: algebra_simps)
  also have "\<dots> \<longleftrightarrow> ends_with v w \<and> int pos \<le> int (length v) - int (length w)" using p by (auto simp: ends_with_def)
  finally show ?thesis .
qed

lemma glob_loop_rest:
  "segs \<noteq> [] \<Longrightarrow> 0 < i \<Longrightarrow> n = i + length segs \<Longrightarrow> pos \<le> length v \<Longrightarrow> glob_loop v n segs i pos = rest_match segs (drop pos v)"
proof (induction segs arbitrary: i pos)
  case (Cons seg segs)
  show ?case
  proof (cases "segs = []")
    case True
    then show ?thesis using Cons.prems ends_with_drop [of pos v seg] by (auto simp: rest_match_last)
  next
    case False
    have IH: "glob_loop v n segs (i + 1) p = rest_match segs (drop p v)" if "p \<le> length v" for p
      using Cons.IH [OF False, of "i + 1" p] Cons.prems that by simp
    show ?thesis
    proof (cases "seg = []")
      case True
      then show ?thesis using IH Cons.prems(4) by (simp add: rest_match_greedy [OF False])
    next
      case seg: False
      have "i \<noteq> n - 1" using False Cons.prems(3) by (cases segs) auto
      moreover have "pos + idx + length seg \<le> length v" if "find_sub seg (drop pos v) = Some idx" for idx
        using find_sub_length [OF that] Cons.prems(4) by simp
      ultimately show ?thesis using seg Cons.prems(2,4) IH
        by (auto simp: rest_match_greedy [OF False] index_from_def min_def algebra_simps split: option.split)
    qed
  qed
qed simp

lemma globMatch_meaning: "globMatch pat v = glob_matches pat v"
proof (cases "star \<in> set pat")
  case False
  then show ?thesis by (auto simp: globMatch_def glob_matches_segs split_on_single)
next
  case True
  obtain w ws where s: "split_on star pat = w # ws" using split_on_nonempty by (cases "split_on star pat") blast+
  have ws: "ws \<noteq> []"
  proof
    assume "ws = []"
    have "split_on star p = [w] \<Longrightarrow> star \<notin> set p" for p w
      by (induction p arbitrary: w) (auto split: if_splits list.splits)
    then show False using s True \<open>ws = []\<close> by blast
  qed
  have "glob_loop v (length (w # ws)) (w # ws) 0 0 = segs_match (w # ws) v"
    using ws glob_loop_rest [of ws 1 "Suc (length ws)" "length w" v] glob_loop_rest [of ws 1 "Suc (length ws)" 0 v]
    by (auto simp: segs_match_Cons starts_with_iff)
  moreover have "glob_matches [star] v" by (auto intro: bexI [of _ "length v"])
  ultimately show ?thesis using True s by (auto simp: globMatch_def glob_matches_segs)
qed


text \<open>C19: A caller is allowed exactly when its subject has no control character and one of the stored patterns matches
  it, each \<open>*\<close> of a pattern standing for any text; the left-to-right search without backtracking misses no match.
\<close>

theorem access_patterns_mean_what_they_say:
  "checkAccess allowedSubs sub \<longleftrightarrow> \<not> list_ex is_control sub \<and> list_ex (\<lambda>pat. glob_matches pat sub) allowedSubs"
  by (simp add: checkAccess_def globMatch_meaning list_ex_iff)

section \<open>Sealing\<close>

lemma headers_json_distinct: "distinct (map fst hs) \<Longrightarrow> distinct_keys (headers_json hs)"
  by (auto simp: headers_json_def comp_def case_prod_unfold list_all_iff)

lemma headers_json_well_formed: "well_formed (json_text (headers_json hs))"
proof -
  have "well_formed (json_quote k @ [58] @ json_quote v)" for k v
    by (intro well_formed_append well_formed_quote) (auto simp: is_hi_def is_lo_def)
  then have "well_formed ([123] @ join_with [44] (map (\<lambda>(k, v). json_quote k @ [58] @ json_quote v) hs) @ [125])"
    by (intro well_formed_append well_formed_join) (auto simp: is_hi_def is_lo_def)
  then show ?thesis by (simp add: headers_json_def comp_def case_prod_unfold)
qed

lemma headers_json_utf8: "utf8_decode (utf8_encode (json_text (headers_json hs))) = json_text (headers_json hs)"
  by (rule utf8_roundtrip) (use headers_json_well_formed [of hs] in \<open>simp add: plain_text_def headers_json_def\<close>)

lemma entries_headers_json: "map_option (map (\<lambda>(k, w). (k, js_string w))) (object_entries (headers_json hs)) = Some hs"
  by (simp add: headers_json_def comp_def case_prod_unfold)

lemma decrypt_encrypt:
  assumes "\<And>k iv p. aes_decrypt cipher k iv (aes_encrypt cipher k iv p) = Some p"
    and "length (rnd_wrapIv rnd) = 12" "distinct (map fst headers)"
  shows "decrypt cipher (encrypt cipher rnd headers kek) kek = Some headers"
proof -
  have "json_parse (json_text (headers_json headers)) = Some (headers_json headers)"
    by (rule json_parse_text [OF headers_json_distinct [OF assms(3)]])
  then show ?thesis using assms(2) entries_headers_json [of headers]
    by (simp add: decrypt_def encrypt_def Let_def b64_roundtrip assms(1) headers_json_utf8)
qed

section \<open>Requests and responses\<close>

lemma copy_headers_filter: "distinct (map fst hs) \<Longrightarrow> copy_headers passes hs = filter (\<lambda>h. passes (fst h)) hs"
proof -
  have upd: "k \<notin> fst ` set acc \<Longrightarrow> AList.update k v acc = acc @ [(k, v)]" for k :: jsstr and v :: jsstr and acc
    by (induction acc) auto
  have "distinct (map fst (acc @ hs)) \<Longrightarrow>
    foldl (\<lambda>acc (key, value). if passes key then AList.update key value acc else acc) acc hs = acc @ filter (\<lambda>h. passes (fst h)) hs" for acc
    by (induction hs arbitrary: acc) (auto simp: upd)
  then show "distinct (map fst hs) \<Longrightarrow> ?thesis" by (simp add: copy_headers_def)
qed

lemma set_all_other: "set_all hs kvs = Some hs' \<Longrightarrow> name \<notin> ascii_lower ` fst ` set kvs \<Longrightarrow> map_of hs' name = map_of hs name"
  by (induction hs kvs rule: set_all.induct) (auto dest!: headers_set_lookup split: option.splits)

lemma set_all_own:
  "set_all hs kvs = Some hs' \<Longrightarrow> distinct (map (ascii_lower \<circ> fst) kvs) \<Longrightarrow> (k, v) \<in> set kvs \<Longrightarrow> map_of hs' (ascii_lower k) = Some (http_trim v)"
proof (induction hs kvs rule: set_all.induct)
  case (2 hs k0 v0 kvs)
  then obtain hs1 where s: "headers_set hs k0 v0 = Some hs1" "set_all hs1 kvs = Some hs'" by (auto split: option.splits)
  show ?case
  proof (cases "(k, v) \<in> set kvs")
    case True
    then show ?thesis using 2 s by auto
  next
    case False
    then have kv: "k = k0" "v = v0" using 2 by auto
    have "ascii_lower k0 \<notin> ascii_lower ` fst ` set kvs" using 2(3) by (auto simp: image_image)
    then have "map_of hs' (ascii_lower k0) = map_of hs1 (ascii_lower k0)" by (rule set_all_other [OF s(2)])
    then show ?thesis using headers_set_lookup [OF s(1)] by (simp add: kv)
  qed
qed simp

text \<open>Names of a \<open>Headers\<close> object: distinct and in lower case.\<close>

definition headers_ok :: "headers \<Rightarrow> bool" where
  "headers_ok hs \<longleftrightarrow> distinct (map fst hs) \<and> list_all (\<lambda>(k, v). ascii_lower k = k) hs"

lemma map_of_filter_key: "map_of (filter (\<lambda>h. P (fst h)) hs) k = (if P k then map_of hs k else None)"
  by (induction hs) auto

lemma map_of_filter_lower:
  "headers_ok hs \<Longrightarrow> map_of (filter (\<lambda>h. P (ascii_lower (fst h))) hs) k = (if P k then map_of hs k else None)"
proof -
  assume ok: "headers_ok hs"
  then have "filter (\<lambda>h. P (ascii_lower (fst h))) hs = filter (\<lambda>h. P (fst h)) hs"
    by (intro filter_cong) (auto simp: headers_ok_def list_all_iff)
  then show ?thesis by (simp add: map_of_filter_key)
qed

lemma buildProxyRequest_headers:
  assumes "buildProxyRequest parse_url incoming cred = Some req" "headers_ok (wr_headers incoming)" "name \<notin> ascii_lower ` fst ` set (sc_headers cred)"
  shows "map_of (ur_headers req) name = (if name \<in> set STRIPPED_HEADERS then None else map_of (wr_headers incoming) name)"
proof -
  obtain hs where hs: "set_all (copy_headers (\<lambda>k. ascii_lower k \<notin> set STRIPPED_HEADERS) (wr_headers incoming)) (sc_headers cred) = Some hs" "ur_headers req = hs"
    using assms(1) by (auto simp: buildProxyRequest_def Let_def split: option.splits)
  have "distinct (map fst (wr_headers incoming))" using assms(2) by (simp add: headers_ok_def)
  then show ?thesis
    using set_all_other [OF hs(1) assms(3)] map_of_filter_lower [OF assms(2), of "\<lambda>k. k \<notin> set STRIPPED_HEADERS" name]
    by (simp add: hs(2) copy_headers_filter)
qed

lemma buildProxyRequest_credential:
  assumes "buildProxyRequest parse_url incoming cred = Some req" "distinct (map (ascii_lower \<circ> fst) (sc_headers cred))" "(k, v) \<in> set (sc_headers cred)"
  shows "map_of (ur_headers req) (ascii_lower k) = Some (http_trim v)"
  using assms set_all_own [OF _ assms(2,3)] by (auto simp: buildProxyRequest_def Let_def split: option.splits)

lemma sanitizeResponse_headers:
  assumes "headers_ok (rs_headers r)"
  shows "map_of (rs_headers (sanitizeResponse r)) name = (if name \<in> set ALLOWED_RESPONSE_HEADERS then map_of (rs_headers r) name else None)"
  using assms map_of_filter_lower [OF assms, of "\<lambda>k. k \<in> set ALLOWED_RESPONSE_HEADERS" name]
  by (simp add: sanitizeResponse_def copy_headers_filter headers_ok_def)

text \<open>A payload that passes is within every bound.\<close>

lemma header_sizes_bound:
  "header_sizes hs acc = Inr n \<Longrightarrow> n = acc + (\<Sum>(k, v) \<leftarrow> hs. byteLength k + byteLength v) \<and>
     list_all (\<lambda>(k, v). byteLength k \<le> MAX_HEADER_KEY_BYTES \<and> byteLength v \<le> MAX_HEADER_VALUE_BYTES) hs"
  by (induction hs acc rule: header_sizes.induct) (auto split: if_splits)

lemma payload_within_bounds:
  "validateCredentialPayload cred = None \<longleftrightarrow>
     length (sc_headers cred) \<le> MAX_HEADER_COUNT \<and>
     (\<Sum>(k, v) \<leftarrow> sc_headers cred. byteLength k + byteLength v) \<le> MAX_TOTAL_HEADERS_BYTES \<and>
     list_all (\<lambda>(k, v). byteLength k \<le> MAX_HEADER_KEY_BYTES \<and> byteLength v \<le> MAX_HEADER_VALUE_BYTES) (sc_headers cred) \<and>
     length (sc_allowedSubs cred) \<le> MAX_ALLOWED_SUBS_COUNT \<and>
     list_all (\<lambda>s. byteLength s \<le> MAX_ALLOWED_SUB_BYTES) (sc_allowedSubs cred)"
proof -
  have within: "\<exists>n. header_sizes hs acc = Inr n" if "list_all (\<lambda>(k, v). byteLength k \<le> MAX_HEADER_KEY_BYTES \<and> byteLength v \<le> MAX_HEADER_VALUE_BYTES) hs" for hs acc
    using that by (induction hs acc rule: header_sizes.induct) auto
  have none: "find (\<lambda>s. MAX_ALLOWED_SUB_BYTES < byteLength s) subs = None \<longleftrightarrow> list_all (\<lambda>s. byteLength s \<le> MAX_ALLOWED_SUB_BYTES) subs" for subs
    by (auto simp: find_None_iff list_all_iff)
  show ?thesis
  proof (cases "header_sizes (sc_headers cred) 0")
    case (Inl r)
    then show ?thesis using within [of "sc_headers cred" 0] by (auto simp: validateCredentialPayload_def Let_def)
  next
    case (Inr n)
    then show ?thesis using header_sizes_bound [OF Inr] none [of "sc_allowedSubs cred"]
      by (auto simp: validateCredentialPayload_def Let_def not_less split: option.splits)
  qed
qed

end
