(* ===== verification/Kek_Source.thy ===== *)
theory Kek_Source
  imports Vault_Library
begin

text \<open>
  Where the vault's key comes from: the sources of \<open>vault/src/kek-source.ts\<close>, the tenant scoping of
  \<open>vault/src/kek-scope.ts\<close> and \<open>deriveKEK\<close> of \<open>vault/src/crypto.ts\<close>. The worker's bindings are a record: string
  variables, the disk service and the helper service, the last answering each attempt. HKDF-SHA256 is the
  parameter \<open>hkdf\<close> (salt, info, key material); the exceptions are the values of \<open>kek_error\<close>.
\<close>

section \<open>Sources\<close>

datatype fetch_outcome = FetchThrew jsstr | Fetched int jsstr

record kek_env =
  ke_vars :: "jsstr \<Rightarrow> jsstr option"
  ke_disk :: "(jsstr \<Rightarrow> fetch_outcome) option"
  ke_helper :: "(jsstr \<Rightarrow> nat \<Rightarrow> fetch_outcome) option"

datatype kek_error =
  Spec_empty
| Scheme_unsupported
| Env_name_invalid
| Env_unset
| File_malformed
| File_host
| File_path
| Disk_unbound
| Disk_threw
| Disk_status int
| File_empty
| Helper_unbound
| Helper_empty
| Helper_status int
| Helper_failed jsstr
| Tenant_invalid
| Root_empty
| Service_undeclared_spec
| Source_unset
| Spec_pin_mismatch
| Scope_pin_mismatch

datatype kekSource = EnvKekSource jsstr | FileKekSource jsstr | HelperKekSource jsstr

definition HELPER_SCHEMES :: "jsstr list" where
  "HELPER_SCHEMES = map js [''keychain://'', ''secret-tool://'', ''op://'', ''apple-password://'', ''keyring://'', ''http://'', ''https://'']"

definition new_EnvKekSource :: "jsstr \<Rightarrow> kek_error + kekSource" where
  "new_EnvKekSource varName =
     (if varName = [] \<or> (\<exists>c \<in> set varName. \<not> (alnum c \<or> c = of_char CHR ''_'')) then Inl Env_name_invalid
      else Inr (EnvKekSource varName))"

definition new_FileKekSource :: "(jsstr \<Rightarrow> url option) \<Rightarrow> jsstr \<Rightarrow> kek_error + kekSource" where
  "new_FileKekSource parse_url spec =
     (case parse_url spec of
        None \<Rightarrow> Inl File_malformed
      | Some u \<Rightarrow>
          if u_hostname u \<noteq> [] then Inl File_host
          else if u_pathname u = [] \<or> u_pathname u = js ''/'' then Inl File_path
          else Inr (FileKekSource (u_pathname u)))"

definition buildKekSource :: "(jsstr \<Rightarrow> url option) \<Rightarrow> jsstr \<Rightarrow> kek_error + kekSource" where
  "buildKekSource parse_url spec =
     (if spec = [] then Inl Spec_empty
      else if starts_with spec (js ''env://'') then new_EnvKekSource (drop (length (js ''env://'')) spec)
      else if starts_with spec (js ''file://'') then new_FileKekSource parse_url spec
      else if \<exists>prefix \<in> set HELPER_SCHEMES. starts_with spec prefix then Inr (HelperKekSource spec)
      else Inl Scheme_unsupported)"

definition stripTrailingNewlines :: "jsstr \<Rightarrow> jsstr" where
  "stripTrailingNewlines s = rev (dropWhile (\<lambda>c. c = 10 \<or> c = 13) (rev s))"

definition ok_status :: "int \<Rightarrow> bool" where
  "ok_status n = (200 \<le> n \<and> n \<le> 299)"

definition ATTEMPTS :: nat where
  "ATTEMPTS = 3"

text \<open>The retry loop from an attempt on, with the number of attempts left and the last error seen.\<close>

fun helper_loop :: "(nat \<Rightarrow> fetch_outcome) \<Rightarrow> nat \<Rightarrow> nat \<Rightarrow> jsstr \<Rightarrow> kek_error + jsstr" where
  "helper_loop helper attempt 0 lastErr = Inl (Helper_failed lastErr)"
| "helper_loop helper attempt (Suc left) lastErr =
     (case helper attempt of
        FetchThrew message \<Rightarrow> helper_loop helper (attempt + 1) left (js ''fetch: '' @ message)
      | Fetched status body \<Rightarrow>
          if ok_status status then
            (let text = stripTrailingNewlines body in if length text = 0 then Inl Helper_empty else Inr text)
          else if 400 \<le> status \<and> status < 500 then Inl (Helper_status status)
          else helper_loop helper (attempt + 1) left (js ''status '' @ dec_of_int status))"

definition kek_resolve :: "kek_env \<Rightarrow> kekSource \<Rightarrow> kek_error + jsstr" where
  "kek_resolve env source =
     (case source of
        EnvKekSource varName \<Rightarrow>
          (case ke_vars env varName of
             None \<Rightarrow> Inl Env_unset
           | Some raw \<Rightarrow> if length raw = 0 then Inl Env_unset else Inr raw)
      | FileKekSource path \<Rightarrow>
          (case ke_disk env of
             None \<Rightarrow> Inl Disk_unbound
           | Some disk \<Rightarrow>
               case disk path of
                 FetchThrew _ \<Rightarrow> Inl Disk_threw
               | Fetched status body \<Rightarrow>
                   if \<not> ok_status status then Inl (Disk_status status)
                   else let trimmed = stripTrailingNewlines body in if length trimmed = 0 then Inl File_empty else Inr trimmed)
      | HelperKekSource spec \<Rightarrow>
          (case ke_helper env of
             None \<Rightarrow> Inl Helper_unbound
           | Some helper \<Rightarrow> helper_loop (helper spec) 0 ATTEMPTS (js ''unknown'')))"

section \<open>Tenant scope\<close>

datatype kekScope = Cluster_scope jsstr | Service_scope jsstr

definition HKDF_INFO_PREFIX :: jsstr where
  "HKDF_INFO_PREFIX = js ''cloister/cred-iso/v1/tenant/''"

definition isValidTenantName :: "jsstr \<Rightarrow> bool" where
  "isValidTenantName name =
     (if length name = 0 then False
      else if length name > 253 then False
      else if \<exists>ch \<in> set name. \<not> (is_lower ch \<or> dec_digit ch \<or> ch = of_char CHR ''-'' \<or> ch = of_char CHR ''.'') then False
      else if starts_with name (js ''.'') \<or> ends_with name (js ''.'') then False
      else if starts_with name (js ''-'') \<or> ends_with name (js ''-'') then False
      else if has_sub name (js ''..'') then False
      else True)"

type_synonym hkdf = "bytes \<Rightarrow> bytes \<Rightarrow> bytes \<Rightarrow> bytes"

definition deriveClusterTenantKek :: "hkdf \<Rightarrow> jsstr \<Rightarrow> jsstr \<Rightarrow> kek_error + jsstr" where
  "deriveClusterTenantKek hkdf rootKek tenantName =
     (if \<not> isValidTenantName tenantName then Inl Tenant_invalid
      else if length rootKek = 0 then Inl Root_empty
      else Inr (to_hex (hkdf [] (utf8_encode (HKDF_INFO_PREFIX @ tenantName)) (utf8_encode rootKek))))"

text \<open>Building the source and resolving it at once; the two differ only in when an exception surfaces.\<close>

definition scope_resolve :: "(jsstr \<Rightarrow> url option) \<Rightarrow> hkdf \<Rightarrow> kek_env \<Rightarrow> kekScope \<Rightarrow> jsstr \<Rightarrow> (jsstr \<Rightarrow> jsstr option) \<Rightarrow> kek_error + jsstr" where
  "scope_resolve parse_url hkdf env scope clusterRootSpec serviceSpecs =
     (case scope of
        Cluster_scope tenantName \<Rightarrow>
          (case buildKekSource parse_url clusterRootSpec of
             Inl e \<Rightarrow> Inl e
           | Inr source \<Rightarrow>
               case kek_resolve env source of Inl e \<Rightarrow> Inl e | Inr root \<Rightarrow> deriveClusterTenantKek hkdf root tenantName)
      | Service_scope name \<Rightarrow>
          (case serviceSpecs name of
             None \<Rightarrow> Inl Service_undeclared_spec
           | Some spec \<Rightarrow>
               case buildKekSource parse_url spec of Inl e \<Rightarrow> Inl e | Inr source \<Rightarrow> kek_resolve env source))"

definition HKDF_SALT :: bytes where "HKDF_SALT = utf8_encode (js ''notme-vault-kek-v1'')"
definition HKDF_INFO :: bytes where "HKDF_INFO = utf8_encode (js ''credential-encryption'')"

definition deriveKEK :: "hkdf \<Rightarrow> jsstr \<Rightarrow> bytes" where
  "deriveKEK hkdf secret = hkdf HKDF_SALT HKDF_INFO (utf8_encode secret)"

section \<open>Retries\<close>

text \<open>An attempt after which the loop goes on: a thrown error, or a status that is neither a success nor 4xx.\<close>

definition transient :: "fetch_outcome \<Rightarrow> bool" where
  "transient r = (case r of FetchThrew _ \<Rightarrow> True | Fetched status _ \<Rightarrow> \<not> ok_status status \<and> \<not> (400 \<le> status \<and> status < 500))"

lemma helper_loop_final:
  "\<lbrakk>\<forall>i < n. transient (helper (a + i)); n < left; helper (a + n) = Fetched status body; \<not> transient (Fetched status body)\<rbrakk> \<Longrightarrow>
     helper_loop helper a left e =
       (if ok_status status
        then (if stripTrailingNewlines body = [] then Inl Helper_empty else Inr (stripTrailingNewlines body))
        else Inl (Helper_status status))"
proof (induction n arbitrary: a left e)
  case 0
  then show ?case by (cases left) (auto simp: transient_def)
next
  case (Suc n)
  obtain l where l: "left = Suc l" using Suc.prems(2) by (cases left) auto
  have t: "transient (helper a)" using Suc.prems(1) by (metis add_0_right zero_less_Suc)
  have "\<forall>i < n. transient (helper (a + 1 + i))" using Suc.prems(1) by (metis Suc_less_eq add.assoc plus_1_eq_Suc)
  then have IH: "helper_loop helper (a + 1) l e' = (if ok_status status
        then (if stripTrailingNewlines body = [] then Inl Helper_empty else Inr (stripTrailingNewlines body))
        else Inl (Helper_status status))" for e'
    using Suc.prems l by (intro Suc.IH) auto
  show ?case using t IH by (auto simp: l transient_def split: fetch_outcome.splits)
qed

lemma helper_loop_exhausted: "\<forall>i < left. transient (helper (a + i)) \<Longrightarrow> \<exists>m. helper_loop helper a left e = Inl (Helper_failed m)"
proof (induction left arbitrary: a e)
  case (Suc l)
  have t: "transient (helper a)" using Suc.prems by (metis add_0_right zero_less_Suc)
  have "\<forall>i < l. transient (helper (a + 1 + i))" using Suc.prems by (metis Suc_less_eq add.assoc plus_1_eq_Suc)
  from Suc.IH [OF this] show ?case using t by (auto simp: transient_def split: fetch_outcome.splits)
qed simp

lemma kek_resolve_nonempty: "kek_resolve env source = Inr secret \<Longrightarrow> secret \<noteq> []"
proof (cases source)
  case (HelperKekSource spec)
  have "helper_loop h a l e = Inr s \<Longrightarrow> s \<noteq> []" for h a l e s
    by (induction h a l e rule: helper_loop.induct) (auto simp: Let_def split: fetch_outcome.splits if_splits)
  then show "kek_resolve env source = Inr secret \<Longrightarrow> secret \<noteq> []" by (auto simp: HelperKekSource kek_resolve_def split: option.splits)
qed (auto simp: kek_resolve_def Let_def split: option.splits fetch_outcome.splits if_splits)

text \<open>C21: The helper is asked at most three times; the first answer that is a success or a 4xx decides, and transient
  failures before it make no difference.
\<close>

theorem kek_helper_bounded_retry:
  assumes "ke_helper env = Some helper"
  shows "(\<forall>i < 3. transient (helper spec i)) \<and> (\<exists>m. kek_resolve env (HelperKekSource spec) = Inl (Helper_failed m)) \<or>
    (\<exists>n < 3. \<exists>status body. (\<forall>i < n. transient (helper spec i)) \<and> helper spec n = Fetched status body \<and>
       kek_resolve env (HelperKekSource spec) =
         (if ok_status status
          then (if stripTrailingNewlines body = [] then Inl Helper_empty else Inr (stripTrailingNewlines body))
          else Inl (Helper_status status)))"
proof (cases "\<forall>i < 3. transient (helper spec i)")
  case True
  then show ?thesis using helper_loop_exhausted [of 3 "helper spec" 0 "js ''unknown''"] assms
    by (simp add: kek_resolve_def ATTEMPTS_def del: helper_loop.simps list.map)
next
  case False
  define n where "n = (LEAST i. \<not> transient (helper spec i))"
  obtain j where j: "j < 3" "\<not> transient (helper spec j)" using False by blast
  have n: "\<not> transient (helper spec n)" unfolding n_def by (rule LeastI) (rule j(2))
  have "n \<le> j" unfolding n_def by (rule Least_le) (rule j(2))
  then have n3: "n < 3" using j(1) by simp
  have before: "\<forall>i < n. transient (helper spec (0 + i))" using not_less_Least unfolding n_def by auto
  obtain status body where f: "helper spec n = Fetched status body" using n by (cases "helper spec n") (auto simp: transient_def)
  have "helper_loop (helper spec) 0 3 (js ''unknown'') = (if ok_status status
          then (if stripTrailingNewlines body = [] then Inl Helper_empty else Inr (stripTrailingNewlines body))
          else Inl (Helper_status status))"
    using n f n3 by (intro helper_loop_final [OF before]) auto
  then show ?thesis using before f n3 assms
    by (intro disjI2 exI [of _ n] conjI exI [of _ status] exI [of _ body]) (auto simp: kek_resolve_def ATTEMPTS_def simp del: helper_loop.simps list.map)
qed

text \<open>The key material handed to HKDF differs between tenants.\<close>

lemma tenant_ascii: "isValidTenantName t \<Longrightarrow> ascii t"
  by (auto simp: isValidTenantName_def ascii_def is_lower_def dec_digit_def split: if_splits)

lemma tenant_info_inject:
  assumes "isValidTenantName s" "isValidTenantName t"
  shows "utf8_encode (HKDF_INFO_PREFIX @ s) = utf8_encode (HKDF_INFO_PREFIX @ t) \<longleftrightarrow> s = t"
proof -
  have "ascii (HKDF_INFO_PREFIX @ u)" if "ascii u" for u using that by (simp add: HKDF_INFO_PREFIX_def ascii_def)
  then have "well_formed (HKDF_INFO_PREFIX @ s)" "well_formed (HKDF_INFO_PREFIX @ t)"
    using assms by (blast intro: ascii_well_formed tenant_ascii)+
  then show ?thesis using utf8_encode_inject by auto
qed

text \<open>Two tenants of one cluster root share a key only if the key derivation maps two different info strings to the
  same bytes.
\<close>

theorem tenant_keys_separated:
  assumes "deriveClusterTenantKek hkdf root s = Inr k" "deriveClusterTenantKek hkdf root t = Inr k" "s \<noteq> t"
  shows "\<exists>info info'. info \<noteq> info' \<and> hkdf [] info (utf8_encode root) = hkdf [] info' (utf8_encode root)"
proof -
  have "utf8_encode (HKDF_INFO_PREFIX @ s) \<noteq> utf8_encode (HKDF_INFO_PREFIX @ t)"
    using assms tenant_info_inject [of s t] by (auto simp: deriveClusterTenantKek_def split: if_splits)
  moreover have "hkdf [] (utf8_encode (HKDF_INFO_PREFIX @ s)) (utf8_encode root) = hkdf [] (utf8_encode (HKDF_INFO_PREFIX @ t)) (utf8_encode root)"
    using assms by (auto simp: deriveClusterTenantKek_def split: if_splits)
  ultimately show ?thesis by blast
qed

definition flaky_helper :: "jsstr \<Rightarrow> nat \<Rightarrow> fetch_outcome" where
  "flaky_helper spec n = (if n = 0 then FetchThrew (js ''down'') else if n = 1 then Fetched 503 [] else Fetched 200 (js ''key'' @ [10]))"

definition helper_env :: kek_env where
  "helper_env = \<lparr>ke_vars = (\<lambda>_. None), ke_disk = None, ke_helper = Some flaky_helper\<rparr>"

theorem kek_helper_bounded_retry_witness:
  "kek_resolve helper_env (HelperKekSource (js ''keychain://k'')) = Inr (js ''key'') \<and>
   (\<exists>n < 3. \<exists>status body. flaky_helper (js ''keychain://k'') n = Fetched status body \<and> ok_status status)"
proof -
  have r: "kek_resolve helper_env (HelperKekSource (js ''keychain://k'')) = Inr (js ''key'')"
    by (simp add: kek_resolve_def helper_env_def ATTEMPTS_def numeral_3_eq_3 flaky_helper_def ok_status_def stripTrailingNewlines_def)
  have "ke_helper helper_env = Some flaky_helper" by (simp add: helper_env_def)
  from kek_helper_bounded_retry [OF this, of "js ''keychain://k''"] r show ?thesis
    by (auto simp del: list.map split: if_splits)
qed

end
