(* ===== verification/Rate_Budget.thy ===== *)
theory Rate_Budget imports Js_Json "HOL-Library.AList" Complex_Main begin

text \<open>
  The two token buckets: the vault's per-subject bucket (\<open>vault/src/rate-bucket.ts\<close>) and the per-address
  budget in front of the lease check (\<open>src/routes/pre-auth-budget.ts\<close>). Token counts are exact
  rationals where the code has doubles; times are integral milliseconds. A \<open>Map\<close> is an association
  list in insertion order, and \<open>set\<close> on a known key keeps its place.

  \<open>token_bucket\<close> is the contract both share; what it admits over time and how long a refused caller has
  to wait are proved once for any capacity and rate.
\<close>

section \<open>Buckets\<close>

record bucket =
  tokens :: rat
  lastRefillMs :: int

datatype consume_result =
  Consumed bucket
| Refused bucket int

text \<open>The arithmetic of \<open>refillBucket\<close> and \<open>refillBucketWithLimits\<close>, and of \<open>tryConsume\<close> and
  \<open>consumeWithLimits\<close>, with their limits as arguments.\<close>

definition refill_with :: "rat \<Rightarrow> rat \<Rightarrow> bucket option \<Rightarrow> int \<Rightarrow> bucket" where
  "refill_with capacity rate prev nowMs =
     (case prev of
        None \<Rightarrow> \<lparr>tokens = capacity, lastRefillMs = nowMs\<rparr>
      | Some b \<Rightarrow>
          let elapsedSec = max 0 (of_int (nowMs - lastRefillMs b) / 1000)
          in \<lparr>tokens = min capacity (tokens b + elapsedSec * rate), lastRefillMs = nowMs\<rparr>)"

definition consume_with :: "rat \<Rightarrow> bucket \<Rightarrow> rat \<Rightarrow> consume_result" where
  "consume_with rate refilled cost =
     (if tokens refilled < cost
      then Refused refilled (max 1 \<lceil>(cost - tokens refilled) / rate\<rceil>)
      else Consumed \<lparr>tokens = tokens refilled - cost, lastRefillMs = lastRefillMs refilled\<rparr>)"

record rate_limits =
  CAPACITY :: rat
  REFILL_PER_SEC :: rat

definition RATE_LIMITS :: rate_limits where
  "RATE_LIMITS = \<lparr>CAPACITY = 100, REFILL_PER_SEC = 10\<rparr>"

datatype op_cost = Read_cost | Write_cost | Proxy_cost

definition COST :: "op_cost \<Rightarrow> rat" where
  "COST op = (case op of Read_cost \<Rightarrow> 1 | Write_cost \<Rightarrow> 3 | Proxy_cost \<Rightarrow> 5)"

definition refillBucket :: "bucket option \<Rightarrow> int \<Rightarrow> bucket" where
  "refillBucket prev nowMs = refill_with (CAPACITY RATE_LIMITS) (REFILL_PER_SEC RATE_LIMITS) prev nowMs"

definition tryConsume :: "bucket \<Rightarrow> rat \<Rightarrow> consume_result" where
  "tryConsume refilled cost = consume_with (REFILL_PER_SEC RATE_LIMITS) refilled cost"

section \<open>The pre-auth budget\<close>

definition PRE_AUTH_LIMITS :: rate_limits where
  "PRE_AUTH_LIMITS = \<lparr>CAPACITY = 300, REFILL_PER_SEC = 10\<rparr>"

definition COST_PER_REQUEST :: rat where
  "COST_PER_REQUEST = 1"

definition MAX_KEYS :: nat where
  "MAX_KEYS = 10000"

definition refillBucketWithLimits :: "bucket option \<Rightarrow> int \<Rightarrow> bucket" where
  "refillBucketWithLimits prev nowMs = refill_with (CAPACITY PRE_AUTH_LIMITS) (REFILL_PER_SEC PRE_AUTH_LIMITS) prev nowMs"

definition consumeWithLimits :: "bucket \<Rightarrow> rat \<Rightarrow> consume_result" where
  "consumeWithLimits refilled cost = consume_with (REFILL_PER_SEC PRE_AUTH_LIMITS) refilled cost"

text \<open>The argument is the value of \<open>cf-connecting-ip\<close>.\<close>

definition extractClientIp :: "jsstr option \<Rightarrow> jsstr" where
  "extractClientIp cfip = (case cfip of Some s \<Rightarrow> if length s > 0 then s else js ''anonymous'' | None \<Rightarrow> js ''anonymous'')"

datatype preAuthVerdict = PreAuthOk | PreAuthRetry int

type_synonym bucket_map = "(jsstr \<times> bucket) list"

definition evict :: "bucket_map \<Rightarrow> bucket_map" where
  "evict m = (if length m \<ge> MAX_KEYS then drop (MAX_KEYS div 10) m else m)"

definition preAuthBurstLimit :: "bucket_map \<Rightarrow> jsstr option \<Rightarrow> int \<Rightarrow> bucket_map \<times> preAuthVerdict" where
  "preAuthBurstLimit m cfip now =
     (let key = extractClientIp cfip;
          m = evict m;
          refilled = refillBucketWithLimits (map_of m key) now
      in case consumeWithLimits refilled COST_PER_REQUEST of
           Consumed b \<Rightarrow> (AList.update key b m, PreAuthOk)
         | Refused b retry \<Rightarrow> (AList.update key b m, PreAuthRetry retry))"

section \<open>Contract of a token bucket\<close>

definition bucket_step :: "(bucket option \<Rightarrow> int \<Rightarrow> bucket) \<Rightarrow> (bucket \<Rightarrow> rat \<Rightarrow> consume_result) \<Rightarrow> bucket \<times> rat \<Rightarrow> int \<times> rat \<Rightarrow> bucket \<times> rat" where
  "bucket_step refill take_tokens s r =
     (case s of (b, spent) \<Rightarrow> case r of (now, cost) \<Rightarrow>
        case take_tokens (refill (Some b) now) cost of
          Consumed b' \<Rightarrow> (b', spent + cost)
        | Refused b' _ \<Rightarrow> (b', spent))"

locale token_bucket =
  fixes refill :: "bucket option \<Rightarrow> int \<Rightarrow> bucket"
    and take_tokens :: "bucket \<Rightarrow> rat \<Rightarrow> consume_result"
    and capacity :: rat
    and rate :: rat
  assumes rate_pos: "0 < rate"
    and capacity_nonneg: "0 \<le> capacity"
    and refill_stamp: "lastRefillMs (refill prev now) = now"
    and refill_new: "tokens (refill None now) = capacity"
    and refill_gain: "lastRefillMs b \<le> now \<Longrightarrow>
      tokens (refill (Some b) now) = min capacity (tokens b + of_int (now - lastRefillMs b) / 1000 * rate)"
    and take_ok: "cost \<le> tokens b \<Longrightarrow> take_tokens b cost = Consumed \<lparr>tokens = tokens b - cost, lastRefillMs = lastRefillMs b\<rparr>"
    and take_refused: "tokens b < cost \<Longrightarrow> \<exists>s. take_tokens b cost = Refused b s \<and> (cost - tokens b) / rate \<le> of_int s \<and> 1 \<le> s"
begin

text \<open>One request under a clock that does not run backwards.\<close>

lemma step_balance:
  assumes "bucket_step refill take_tokens (b, spent) (now, cost) = (b', spent')" "lastRefillMs b \<le> now" "0 \<le> tokens b" "tokens b \<le> capacity" "0 \<le> cost"
  shows "lastRefillMs b' = now \<and> 0 \<le> tokens b' \<and> tokens b' \<le> capacity \<and>
    spent' + tokens b' \<le> spent + tokens b + of_int (now - lastRefillMs b) / 1000 * rate"
proof -
  let ?r = "refill (Some b) now"
  have nonneg: "0 \<le> of_int (now - lastRefillMs b) / 1000 * rate" using assms(2) rate_pos by simp
  have r: "0 \<le> tokens ?r" "tokens ?r \<le> capacity" "tokens ?r \<le> tokens b + of_int (now - lastRefillMs b) / 1000 * rate"
    using refill_gain [OF assms(2)] assms(3) nonneg capacity_nonneg by auto
  show ?thesis
  proof (cases "cost \<le> tokens ?r")
    case True
    then show ?thesis using assms(1,5) take_ok [OF True] r refill_stamp by (auto simp: bucket_step_def)
  next
    case False
    then show ?thesis using assms(1) take_refused [of ?r cost] r refill_stamp by (auto simp: bucket_step_def)
  qed
qed

lemma run_balance:
  assumes "foldl (bucket_step refill take_tokens) (b, spent) rs = (b', spent')"
    "sorted (lastRefillMs b # map fst rs)" "0 \<le> tokens b" "tokens b \<le> capacity" "\<forall>r \<in> set rs. 0 \<le> snd r"
  shows "lastRefillMs b' = last (lastRefillMs b # map fst rs) \<and> 0 \<le> tokens b' \<and> tokens b' \<le> capacity \<and>
    spent' + tokens b' \<le> spent + tokens b + of_int (lastRefillMs b' - lastRefillMs b) / 1000 * rate"
  using assms
proof (induction rs arbitrary: b spent)
  case (Cons r rs)
  obtain now cost where r: "r = (now, cost)" by force
  obtain b1 spent1 where s: "bucket_step refill take_tokens (b, spent) (now, cost) = (b1, spent1)" by force
  have h: "lastRefillMs b1 = now \<and> 0 \<le> tokens b1 \<and> tokens b1 \<le> capacity \<and>
    spent1 + tokens b1 \<le> spent + tokens b + of_int (now - lastRefillMs b) / 1000 * rate"
    using Cons.prems r by (intro step_balance [OF s]) auto
  have "foldl (bucket_step refill take_tokens) (b1, spent1) rs = (b', spent')" using Cons.prems(1) r s by simp
  from Cons.IH [OF this] have t: "lastRefillMs b' = last (now # map fst rs)" "0 \<le> tokens b'" "tokens b' \<le> capacity"
    "spent' + tokens b' \<le> spent1 + tokens b1 + of_int (lastRefillMs b' - now) / 1000 * rate"
    using Cons.prems h r by auto
  have "of_int (now - lastRefillMs b) / 1000 * rate + of_int (lastRefillMs b' - now) / 1000 * rate = of_int (lastRefillMs b' - lastRefillMs b) / 1000 * rate"
    by (simp add: algebra_simps diff_divide_distrib)
  then show ?case using t h r by (cases rs) auto
qed auto

text \<open>What is admitted never exceeds the capacity plus what the time refilled.\<close>

lemma admission_bound:
  assumes "foldl (bucket_step refill take_tokens) (refill None t0, 0) rs = (b', spent)" "sorted (t0 # map fst rs)" "\<forall>r \<in> set rs. 0 \<le> snd r"
  shows "spent \<le> capacity + of_int (last (t0 # map fst rs) - t0) / 1000 * rate"
proof -
  have "lastRefillMs b' = last (t0 # map fst rs)" "0 \<le> tokens b'"
    "spent + tokens b' \<le> capacity + of_int (lastRefillMs b' - t0) / 1000 * rate"
    using run_balance [OF assms(1)] assms(2,3) capacity_nonneg by (auto simp: refill_stamp refill_new)
  then show ?thesis by simp
qed

text \<open>A refused caller that waits the announced time is admitted.\<close>

lemma retry_enough:
  assumes "take_tokens b cost = Refused b s" "tokens b < cost" "cost \<le> capacity" "lastRefillMs b + 1000 * s \<le> now"
  shows "\<exists>b'. take_tokens (refill (Some b) now) cost = Consumed b'"
proof -
  have s: "(cost - tokens b) / rate \<le> of_int s" "1 \<le> s" using take_refused [OF assms(2)] assms(1) by auto
  then have "cost - tokens b \<le> of_int s * rate" using rate_pos by (simp add: pos_divide_le_eq)
  also have "\<dots> \<le> of_int (now - lastRefillMs b) / 1000 * rate"
  proof -
    have "of_int (1000 * s) \<le> (of_int (now - lastRefillMs b) :: rat)" using assms(4) by (simp only: of_int_le_iff)
    then have "of_int s \<le> (of_int (now - lastRefillMs b) :: rat) / 1000" by (simp add: pos_le_divide_eq)
    then show ?thesis using rate_pos by (intro mult_right_mono) auto
  qed
  finally have "cost \<le> tokens (refill (Some b) now)" using refill_gain [of b now] assms(3,4) s(2) by simp
  then show ?thesis using take_ok by blast
qed

end

lemma token_bucket_with:
  assumes "0 < rate" "0 \<le> capacity"
  shows "token_bucket (refill_with capacity rate) (consume_with rate) capacity rate"
proof
  show "\<exists>s. consume_with rate b cost = Refused b s \<and> (cost - tokens b) / rate \<le> of_int s \<and> 1 \<le> s" if "tokens b < cost" for b cost
    using that by (auto simp: consume_with_def intro: order_trans [OF le_of_int_ceiling])
qed (use assms in \<open>auto simp: refill_with_def consume_with_def Let_def max_def split: option.split\<close>)

interpretation vault_bucket: token_bucket refillBucket tryConsume "CAPACITY RATE_LIMITS" "REFILL_PER_SEC RATE_LIMITS"
  unfolding refillBucket_def [abs_def] tryConsume_def [abs_def] by (rule token_bucket_with) (simp_all add: RATE_LIMITS_def)

interpretation pre_auth_bucket: token_bucket refillBucketWithLimits consumeWithLimits "CAPACITY PRE_AUTH_LIMITS" "REFILL_PER_SEC PRE_AUTH_LIMITS"
  unfolding refillBucketWithLimits_def [abs_def] consumeWithLimits_def [abs_def] by (rule token_bucket_with) (simp_all add: PRE_AUTH_LIMITS_def)


section \<open>The budget over the map of buckets\<close>

text \<open>A run of requests, each with its address header and time, and the verdicts in order.\<close>

fun pre_auth_run :: "bucket_map \<Rightarrow> (jsstr option \<times> int) list \<Rightarrow> bucket_map \<times> preAuthVerdict list" where
  "pre_auth_run m [] = (m, [])"
| "pre_auth_run m ((ip, now) # rs) =
     (let (m1, v) = preAuthBurstLimit m ip now; (m2, vs) = pre_auth_run m1 rs in (m2, v # vs))"

definition admitted :: "jsstr \<Rightarrow> (jsstr option \<times> int) list \<Rightarrow> preAuthVerdict list \<Rightarrow> nat" where
  "admitted key rs vs = length (filter (\<lambda>(r, v). extractClientIp (fst r) = key \<and> v = PreAuthOk) (zip rs vs))"

definition bucket_ok :: "int \<Rightarrow> bucket \<Rightarrow> bool" where
  "bucket_ok t b \<longleftrightarrow> lastRefillMs b \<le> t \<and> 0 \<le> tokens b \<and> tokens b \<le> CAPACITY PRE_AUTH_LIMITS"

text \<open>What a key may spend in the window from \<open>t0\<close> to \<open>T\<close>: a bucket last touched before the window is refilled up to its
  start, and clamped there.\<close>

definition may_spend :: "bucket_map \<Rightarrow> jsstr \<Rightarrow> int \<Rightarrow> int \<Rightarrow> rat" where
  "may_spend m key t0 T = (case map_of m key of
      None \<Rightarrow> 300 + of_int (T - t0) / 100
    | Some b \<Rightarrow> if lastRefillMs b < t0 then min 300 (tokens b + of_int (t0 - lastRefillMs b) / 100) + of_int (T - t0) / 100
        else tokens b + of_int (T - lastRefillMs b) / 100)"

lemma may_spend_le:
  assumes "\<forall>b \<in> ran (map_of m). bucket_ok u b"
  shows "may_spend m key t0 T \<le> 300 + of_int (T - t0) / 100"
proof (cases "map_of m key")
  case (Some b)
  then have "tokens b \<le> 300" using assms by (auto simp: bucket_ok_def PRE_AUTH_LIMITS_def intro: ranI)
  moreover have "tokens b + of_int (T - lastRefillMs b) / 100 \<le> 300 + of_int (T - t0) / 100" if "\<not> lastRefillMs b < t0"
  proof -
    have "rat_of_int t0 \<le> rat_of_int (lastRefillMs b)" using that by simp
    then have "rat_of_int T / 100 - rat_of_int (lastRefillMs b) / 100 \<le> rat_of_int T / 100 - rat_of_int t0 / 100" by linarith
    then show ?thesis using calculation by (simp only: of_int_diff diff_divide_distrib add_mono)
  qed
  ultimately show ?thesis using Some by (simp add: may_spend_def)
qed (simp add: may_spend_def)

lemma pre_auth_rate [simp]: "CAPACITY PRE_AUTH_LIMITS = 300" "REFILL_PER_SEC PRE_AUTH_LIMITS = 10" "COST_PER_REQUEST = 1"
  by (simp_all add: PRE_AUTH_LIMITS_def COST_PER_REQUEST_def)

lemma length_update: "length (AList.update k v m) = (if k \<in> fst ` set m then length m else Suc (length m))"
  by (induction m) auto

lemma length_evict: "length (evict m) < MAX_KEYS \<or> length m > MAX_KEYS"
  by (auto simp: evict_def MAX_KEYS_def)

lemma preAuth_map: "\<exists>b. fst (preAuthBurstLimit m ip now) = AList.update (extractClientIp ip) b (evict m)"
  by (auto simp: preAuthBurstLimit_def Let_def split: consume_result.split)

lemma preAuth_bounded: "length m \<le> MAX_KEYS \<Longrightarrow> length (fst (preAuthBurstLimit m ip now)) \<le> MAX_KEYS"
  using preAuth_map [of m ip now] length_evict [of m] by (auto simp: length_update)

text \<open>One request without eviction: the bucket of its key pays for the admission.\<close>

lemma preAuth_step:
  assumes "preAuthBurstLimit m ip now = (m', v)" "length m < MAX_KEYS" "\<forall>b \<in> ran (map_of m). bucket_ok now b" "t0 \<le> now" "now \<le> T"
  shows "\<exists>b. bucket_ok now b \<and> map_of m' = (map_of m)(extractClientIp ip \<mapsto> b) \<and>
    (if v = PreAuthOk then 1 else 0) + may_spend m' (extractClientIp ip) t0 T \<le> may_spend m (extractClientIp ip) t0 T"
proof -
  let ?k = "extractClientIp ip"
  let ?r = "refillBucketWithLimits (map_of m ?k) now"
  have e: "evict m = m" using assms(2) by (simp add: evict_def)
  have stamp: "lastRefillMs ?r = now" by (rule pre_auth_bucket.refill_stamp)
  have r: "0 \<le> tokens ?r" "tokens ?r \<le> 300" "tokens ?r + of_int (T - now) / 100 \<le> may_spend m ?k t0 T"
  proof (atomize (full), cases "map_of m ?k")
    case None
    then show "0 \<le> tokens ?r \<and> tokens ?r \<le> 300 \<and> tokens ?r + of_int (T - now) / 100 \<le> may_spend m ?k t0 T"
      using assms(4) pre_auth_bucket.refill_new by (simp add: may_spend_def divide_right_mono)
  next
    case (Some b)
    then have ok: "bucket_ok now b" using assms(3) by (auto intro: ranI)
    have "of_int (now - lastRefillMs b) / 1000 * 10 = (of_int (now - lastRefillMs b) / 100 :: rat)" by simp
    then have "tokens ?r = min 300 (tokens b + of_int (now - lastRefillMs b) / 100)"
      using pre_auth_bucket.refill_gain [of b now] Some ok by (simp only: bucket_ok_def pre_auth_rate)
    moreover have "0 \<le> (of_int (now - lastRefillMs b) :: rat)" using ok by (simp add: bucket_ok_def)
    moreover have "0 \<le> (of_int (now - t0) :: rat)" using assms(4) by simp
    ultimately show "0 \<le> tokens ?r \<and> tokens ?r \<le> 300 \<and> tokens ?r + of_int (T - now) / 100 \<le> may_spend m ?k t0 T"
      using ok Some by (auto simp: may_spend_def bucket_ok_def diff_divide_distrib min_def)
  qed
  show ?thesis
  proof (cases "1 \<le> tokens ?r")
    case True
    let ?b = "\<lparr>tokens = tokens ?r - 1, lastRefillMs = now\<rparr>"
    have "m' = AList.update ?k ?b m" "v = PreAuthOk"
      using assms(1) pre_auth_bucket.take_ok [OF True] stamp by (simp_all add: preAuthBurstLimit_def Let_def e)
    then show ?thesis using r True assms(4) by (intro exI [of _ ?b]) (simp add: update_conv' bucket_ok_def may_spend_def)
  next
    case False
    then obtain n where "consumeWithLimits ?r 1 = Refused ?r n" using pre_auth_bucket.take_refused [of ?r 1] by auto
    then have "m' = AList.update ?k ?r m" "v \<noteq> PreAuthOk" using assms(1) by (auto simp: preAuthBurstLimit_def Let_def e)
    then show ?thesis using r stamp assms(4) by (intro exI [of _ ?r]) (simp add: update_conv' bucket_ok_def may_spend_def)
  qed
qed

lemma map_of_keys_length: "dom (map_of m) \<subseteq> K \<Longrightarrow> distinct (map fst m) \<Longrightarrow> finite K \<Longrightarrow> length m \<le> card K"
  by (metis card_mono distinct_card dom_map_of_conv_image_fst length_map list.set_map)

text \<open>The maps of a run: no key twice, no key but those of the requests, every bucket within its limits.\<close>

definition map_ok :: "jsstr set \<Rightarrow> int \<Rightarrow> bucket_map \<Rightarrow> bool" where
  "map_ok K t m \<longleftrightarrow> distinct (map fst m) \<and> dom (map_of m) \<subseteq> K \<and> (\<forall>b \<in> ran (map_of m). bucket_ok t b)"

lemma map_ok_later: "map_ok K t m \<Longrightarrow> t \<le> t' \<Longrightarrow> map_ok K t' m"
  by (force simp: map_ok_def bucket_ok_def)

lemma map_ok_room: "map_ok K t m \<Longrightarrow> finite K \<Longrightarrow> card K < MAX_KEYS \<Longrightarrow> length m < MAX_KEYS"
  using map_of_keys_length [of m K] by (auto simp: map_ok_def)

lemma map_ok_step:
  assumes "preAuthBurstLimit m ip now = (m', v)" "map_ok K now m" "finite K" "card K < MAX_KEYS" "extractClientIp ip \<in> K"
  shows "map_ok K now m'"
proof -
  have len: "length m < MAX_KEYS" by (rule map_ok_room [OF assms(2-4)])
  then obtain b where b: "bucket_ok now b" "map_of m' = (map_of m)(extractClientIp ip \<mapsto> b)"
    using preAuth_step [OF assms(1) len, of now now] assms(2) by (auto simp: map_ok_def)
  have "distinct (map fst m')" using preAuth_map [of m ip now] assms(1,2) len by (auto simp: evict_def map_ok_def distinct_update)
  moreover have "ran (map_of m') \<subseteq> insert b (ran (map_of m))" using b(2) by (auto simp: ran_def)
  ultimately show ?thesis using b assms(2,5) by (auto simp: map_ok_def)
qed

lemma pre_auth_run_append:
  "pre_auth_run m (rs @ ss) = (case pre_auth_run m rs of (m1, vs) \<Rightarrow> case pre_auth_run m1 ss of (m2, ws) \<Rightarrow> (m2, vs @ ws))"
  by (induction rs arbitrary: m) (auto split: prod.splits)

lemma pre_auth_run_length: "pre_auth_run m rs = (m', vs) \<Longrightarrow> length vs = length rs"
  by (induction rs arbitrary: m vs) (auto split: prod.splits)

lemma pre_auth_run_ok:
  assumes "pre_auth_run m rs = (m', vs)" "map_ok K t m" "finite K" "card K < MAX_KEYS" "\<forall>r \<in> set rs. extractClientIp (fst r) \<in> K"
    "sorted (t # map snd rs)"
  shows "map_ok K (last (t # map snd rs)) m'"
  using assms(1,2,5,6)
proof (induction rs arbitrary: m vs t)
  case (Cons r rs)
  obtain ip now where r: "r = (ip, now)" by force
  obtain m1 v where s: "preAuthBurstLimit m ip now = (m1, v)" by force
  obtain vs' where t: "pre_auth_run m1 rs = (m', vs')" using Cons.prems(1) r s by (auto split: prod.splits)
  have "map_ok K now m" using map_ok_later [OF Cons.prems(2), of now] Cons.prems(4) r by simp
  from map_ok_step [OF s this assms(3,4)] have "map_ok K now m1" using Cons.prems(3) r by simp
  from Cons.IH [OF t this] show ?case using Cons.prems(3,4) r by auto
qed simp

lemma pre_auth_run_spends:
  assumes "pre_auth_run m rs = (m', vs)" "map_ok K t m" "finite K" "card K < MAX_KEYS" "\<forall>r \<in> set rs. extractClientIp (fst r) \<in> K"
    "sorted (t # map snd rs)" "\<forall>r \<in> set rs. t0 \<le> snd r \<and> snd r \<le> T" "t \<le> T" "t0 \<le> T"
  shows "of_nat (admitted key rs vs) \<le> may_spend m key t0 T"
  using assms(1,2,5-8)
proof (induction rs arbitrary: m vs t)
  case Nil
  have "0 \<le> may_spend m key t0 T"
  proof (cases "map_of m key")
    case (Some b)
    then have "bucket_ok t b" using Nil.prems(2) unfolding map_ok_def by (meson ranI)
    then have "0 \<le> tokens b" "lastRefillMs b \<le> T" using Nil.prems(6) by (simp_all add: bucket_ok_def)
    then show ?thesis using Some assms(9) by (auto simp: may_spend_def min_def)
  qed (use assms(9) in \<open>simp add: may_spend_def\<close>)
  then show ?case using Nil.prems(1) by (simp add: admitted_def)
next
  case (Cons r rs)
  obtain ip now where r: "r = (ip, now)" by force
  obtain m1 v where s: "preAuthBurstLimit m ip now = (m1, v)" by force
  obtain vs' where t: "pre_auth_run m1 rs = (m', vs')" "vs = v # vs'" using Cons.prems(1) r s by (auto split: prod.splits)
  have now: "map_ok K now m" using map_ok_later [OF Cons.prems(2), of now] Cons.prems(4) r by simp
  have len: "length m < MAX_KEYS" by (rule map_ok_room [OF now assms(3,4)])
  obtain b where b: "map_of m1 = (map_of m)(extractClientIp ip \<mapsto> b)"
    and pay: "(if v = PreAuthOk then 1 else 0) + may_spend m1 (extractClientIp ip) t0 T \<le> may_spend m (extractClientIp ip) t0 T"
    using preAuth_step [OF s len, of t0 T] now Cons.prems(5) r by (auto simp: map_ok_def)
  have ok1: "map_ok K now m1" using map_ok_step [OF s now assms(3,4)] Cons.prems(3) r by simp
  have IH: "of_nat (admitted key rs vs') \<le> may_spend m1 key t0 T"
    using Cons.prems(3-5) r by (intro Cons.IH [OF t(1) ok1]) auto
  have other: "key \<noteq> extractClientIp ip \<Longrightarrow> may_spend m1 key t0 T = may_spend m key t0 T" by (simp add: may_spend_def b)
  show ?case using IH pay other by (cases "extractClientIp ip = key") (auto simp: admitted_def t(2) r)
qed

text \<open>C20: In any window of a run of the worker, whatever requests came before it, each address is admitted at most the capacity of 300
  plus ten requests per second of the window: an idle bucket does not save up more than the capacity. The clock is assumed not to run
  backwards, and fewer than \<open>MAX_KEYS\<close> addresses to be seen, so that nothing is evicted.\<close>

theorem pre_auth_admission_bounded:
  assumes "pre_auth_run [] (before @ window) = (m, vs)" "sorted (map snd (before @ window))"
    and "card ((extractClientIp \<circ> fst) ` set (before @ window)) < MAX_KEYS"
    and "\<forall>r \<in> set window. t0 \<le> snd r \<and> snd r \<le> T" "t0 \<le> T"
  shows "of_nat (admitted key window (drop (length before) vs)) \<le> (300 + of_int (T - t0) / 100 :: rat)"
proof (cases "window = []")
  case False
  let ?K = "(extractClientIp \<circ> fst) ` set (before @ window)" and ?first = "last (hd (map snd (before @ window)) # map snd before)"
  obtain m1 us ws where runs: "pre_auth_run [] before = (m1, us)" "pre_auth_run m1 window = (m, ws)" "vs = us @ ws"
    using assms(1) by (auto simp: pre_auth_run_append split: prod.splits)
  have hd_le: "\<forall>x \<in> set (map snd (before @ window)). hd (map snd (before @ window)) \<le> x" using assms(2) by (cases "before @ window") auto
  have srt: "sorted (hd (map snd (before @ window)) # map snd before)" using assms(2) hd_le by (auto simp: sorted_append)
  have ok: "map_ok ?K ?first m1"
    by (rule pre_auth_run_ok [OF runs(1) _ _ assms(3) _ srt]) (auto simp: map_ok_def)
  have le: "\<forall>x \<in> set (map snd window). ?first \<le> x"
  proof (cases "before = []")
    case False
    then have "?first \<in> set (map snd before)" by (simp add: last_map)
    moreover have "\<forall>x \<in> set (map snd before). \<forall>y \<in> set (map snd window). x \<le> y"
      using assms(2) unfolding map_append sorted_append by blast
    ultimately show ?thesis by blast
  qed (use hd_le in simp)
  obtain r where "r \<in> set window" using False by (cases window) auto
  then have "?first \<le> T" using le assms(4) by force
  moreover have "sorted (?first # map snd window)" using assms(2) le by (simp add: sorted_append)
  ultimately have "of_nat (admitted key window ws) \<le> may_spend m1 key t0 T"
    using assms(4,5) by (intro pre_auth_run_spends [OF runs(2) ok _ assms(3)]) auto
  also have "\<dots> \<le> 300 + of_int (T - t0) / 100" using ok may_spend_le unfolding map_ok_def by blast
  finally show ?thesis using runs(3) pre_auth_run_length [OF runs(1)] by simp
qed (use assms(5) in \<open>simp add: admitted_def\<close>)

text \<open>A bucket that idled for a day before a window of five milliseconds.\<close>

theorem pre_auth_admission_bounded_witness:
  "of_nat (admitted (js ''anonymous'') [(None, 86400000), (None, 86400005)] [PreAuthOk, PreAuthOk]) \<le> (300 + of_int (86400005 - 86400000) / 100 :: rat)"
proof -
  have "pre_auth_run [] ([(None, 0)] @ [(None, 86400000), (None, 86400005)]) =
      ([(js ''anonymous'', \<lparr>tokens = 29805 / 100 + 1 - 1, lastRefillMs = 86400005\<rparr>)], [PreAuthOk, PreAuthOk, PreAuthOk])"
    by (simp add: preAuthBurstLimit_def Let_def evict_def MAX_KEYS_def extractClientIp_def refillBucketWithLimits_def
        refill_with_def consumeWithLimits_def consume_with_def del: list.map)
  from pre_auth_admission_bounded [OF this, of 86400000 86400005 "js ''anonymous''"] show ?thesis
    by (simp add: MAX_KEYS_def extractClientIp_def numeral_2_eq_2)
qed

text \<open>A refused caller whose request costs no more than the capacity is admitted when it comes back after the
  announced number of seconds.
\<close>

theorem vault_retry_hint_suffices:
  assumes "tryConsume b cost = Refused b' s" "cost \<le> CAPACITY RATE_LIMITS" "lastRefillMs b + 1000 * s \<le> now"
  shows "\<exists>b''. tryConsume (refillBucket (Some b') now) cost = Consumed b''"
proof -
  have less: "tokens b < cost" using assms(1) vault_bucket.take_ok [of cost b] by (cases "tokens b < cost") auto
  then have "b' = b" using assms(1) vault_bucket.take_refused by fastforce
  then show ?thesis using vault_bucket.retry_enough [OF _ less assms(2,3)] assms(1) by simp
qed

text \<open>When the map is full, the oldest tenth is dropped before the requester's bucket is read; a requester whose
  bucket is among them starts again with a full one, however depleted it was.
\<close>

theorem eviction_refills_requester:
  assumes "length m = MAX_KEYS" "distinct (map fst m)" "extractClientIp ip \<in> fst ` set (take (MAX_KEYS div 10) m)"
  shows "snd (preAuthBurstLimit m ip now) = PreAuthOk"
proof -
  have "extractClientIp ip \<notin> fst ` set (drop (MAX_KEYS div 10) m)"
  proof -
    have "set (take n (map fst m)) \<inter> set (drop n (map fst m)) = {}" for n
      using assms(2) by (intro set_take_disj_set_drop_if_distinct) auto
    then show ?thesis using assms(3) unfolding take_map drop_map set_map by blast
  qed
  then have "map_of (evict m) (extractClientIp ip) = None" using assms(1) by (simp add: evict_def map_of_eq_None_iff)
  then show ?thesis
    by (simp add: preAuthBurstLimit_def Let_def refillBucketWithLimits_def refill_with_def consumeWithLimits_def consume_with_def del: list.map)
qed


definition full_map :: bucket_map where
  "full_map = map (\<lambda>i. (dec_digits i, \<lparr>tokens = 0, lastRefillMs = 1000\<rparr>)) [0..<MAX_KEYS]"

theorem eviction_refills_requester_witness:
  "map_of full_map (dec_digits 0) = Some \<lparr>tokens = 0, lastRefillMs = 1000\<rparr> \<and>
   snd (preAuthBurstLimit full_map (Some (dec_digits 0)) 1000) = PreAuthOk"
proof -
  have k: "extractClientIp (Some (dec_digits 0)) = dec_digits 0" using dec_digits_nonempty [of 0] by (simp add: extractClientIp_def)
  have d: "distinct (map fst full_map)" by (simp add: full_map_def comp_def distinct_map inj_on_def)
  have pos: "0 < MAX_KEYS div 10" "MAX_KEYS div 10 \<le> MAX_KEYS" by (simp_all add: MAX_KEYS_def)
  then have "take (MAX_KEYS div 10) full_map = map (\<lambda>i. (dec_digits i, \<lparr>tokens = 0, lastRefillMs = 1000\<rparr>)) [0..<MAX_KEYS div 10]"
    by (simp add: full_map_def take_map)
  then have t: "extractClientIp (Some (dec_digits 0)) \<in> fst ` set (take (MAX_KEYS div 10) full_map)" using pos(1) k by force
  have "(dec_digits 0, \<lparr>tokens = 0, lastRefillMs = 1000\<rparr>) \<in> set full_map" using pos by (force simp: full_map_def)
  then have "map_of full_map (dec_digits 0) = Some \<lparr>tokens = 0, lastRefillMs = 1000\<rparr>" using d by simp
  moreover have "snd (preAuthBurstLimit full_map (Some (dec_digits 0)) 1000) = PreAuthOk"
    by (rule eviction_refills_requester [OF _ d t]) (simp add: full_map_def)
  ultimately show ?thesis by blast
qed

theorem vault_retry_hint_suffices_witness:
  "\<exists>b. tryConsume (refillBucket (Some \<lparr>tokens = 2, lastRefillMs = 0\<rparr>) 1000) (COST Proxy_cost) = Consumed b"
proof (rule vault_retry_hint_suffices)
  show "tryConsume \<lparr>tokens = 2, lastRefillMs = 0\<rparr> (COST Proxy_cost) = Refused \<lparr>tokens = 2, lastRefillMs = 0\<rparr> 1"
    by (simp add: tryConsume_def consume_with_def COST_def RATE_LIMITS_def)
qed (simp_all add: COST_def RATE_LIMITS_def)

end
