(* ===== verification/Vault_Store.thy ===== *)
theory Vault_Store
  imports Kek_Source Rate_Budget Sql_Table
begin

text \<open>
  The Durable Object \<open>CredentialVault\<close> of \<open>src/vault-store.ts\<close>. Its state is a record of the three tables and of the
  fields that live as long as the instance (the derived key, the counts of running proxies, the seed flag).
  \<open>proxyRequest\<close> is cut where the object waits for the upstream: \<open>proxy_begin\<close> is everything before the upstream
  fetch, \<open>proxy_end\<close> what follows it, and \<open>vault_step\<close> interleaves them with the other calls, with restarts and with
  configuration changes. The host's ciphers, key derivation and URL parser are the record \<open>vault_host\<close>; random
  bytes and the clock are arguments. A development seed is modelled for the declared types of its fields.
\<close>

section \<open>State\<close>

record cred_row =
  cr_subject_fp :: jsstr
  cr_service :: jsstr
  cr_upstream :: jsstr
  cr_sealed_headers :: jsstr
  cr_allowed_subs_json :: jsstr

definition cr_key :: "cred_row \<Rightarrow> jsstr \<times> jsstr" where
  "cr_key r = (cr_subject_fp r, cr_service r)"

record bucket_row =
  br_subject_fp :: jsstr
  br_bucket :: bucket

text \<open>The stored \<open>credentials\<close> table before the constructor runs.\<close>

datatype cred_table = Absent_table | Unscoped_table | Scoped_table "cred_row list"

record vault_storage =
  vs_credentials :: cred_table
  vs_rate_buckets :: "bucket_row list"
  vs_vault_state :: "(jsstr \<times> jsstr) list"

record vault_do =
  vd_credentials :: "cred_row list"
  vd_rate_buckets :: "bucket_row list"
  vd_vault_state :: "(jsstr \<times> jsstr) list"
  vd_kek :: "bytes option"
  vd_inflight :: "(jsstr \<times> int) list"
  vd_devSeeded :: bool

definition new_CredentialVault :: "vault_storage \<Rightarrow> vault_do" where
  "new_CredentialVault storage =
     \<lparr>vd_credentials = (case vs_credentials storage of Scoped_table rows \<Rightarrow> rows | _ \<Rightarrow> []),
      vd_rate_buckets = vs_rate_buckets storage, vd_vault_state = vs_vault_state storage,
      vd_kek = None, vd_inflight = [], vd_devSeeded = False\<rparr>"

definition stored :: "vault_do \<Rightarrow> vault_storage" where
  "stored v = \<lparr>vs_credentials = Scoped_table (vd_credentials v), vs_rate_buckets = vd_rate_buckets v, vs_vault_state = vd_vault_state v\<rparr>"

record vault_env =
  ve_kek :: kek_env
  ve_VAULT_KEK_SOURCE :: "jsstr option"
  ve_VAULT_KEK_TENANT_SCOPED :: "jsstr option"
  ve_CLOISTER_MODE :: "jsstr option"
  ve_DEV_VAULT_SEED :: "jsstr option"
  ve_id_name :: "jsstr option"

record vault_host =
  vh_aes :: aes
  vh_hkdf :: hkdf
  vh_parse_url :: "jsstr \<Rightarrow> url option"

datatype vault_error =
  Subject_empty
| Subject_control
| Rate_limited_retry int
| Payload_rejected jsstr
| Kek_failed kek_error
| State_conflict
| Envelope_broken
| Proxy_unbuildable
| Upstream_threw

section \<open>Budget and running proxies\<close>

definition MAX_INFLIGHT :: int where
  "MAX_INFLIGHT = 16"

definition assertSubjectFp :: "jsstr \<Rightarrow> vault_error option" where
  "assertSubjectFp subjectFp =
     (if length subjectFp = 0 then Some Subject_empty
      else if \<exists>c \<in> set subjectFp. is_control c then Some Subject_control
      else None)"

text \<open>\<open>None\<close> is the accepted request, \<open>Some n\<close> the seconds to wait.\<close>

definition consumeBudget :: "vault_do \<Rightarrow> jsstr \<Rightarrow> rat \<Rightarrow> int \<Rightarrow> vault_do \<times> int option" where
  "consumeBudget v subjectFp cost now =
     (let prev = map_option br_bucket (lookup_pk br_subject_fp subjectFp (vd_rate_buckets v));
          put = (\<lambda>b. v\<lparr>vd_rate_buckets := upsert br_subject_fp \<lparr>br_subject_fp = subjectFp, br_bucket = b\<rparr> (vd_rate_buckets v)\<rparr>)
      in case tryConsume (refillBucket prev now) cost of
           Refused b retryAfterSec \<Rightarrow> (put b, Some retryAfterSec)
         | Consumed b \<Rightarrow> (put b, None))"

definition checkInflight :: "vault_do \<Rightarrow> jsstr \<Rightarrow> bool" where
  "checkInflight v subjectFp = (nullish (map_of (vd_inflight v) subjectFp) 0 < MAX_INFLIGHT)"

definition incInflight :: "vault_do \<Rightarrow> jsstr \<Rightarrow> vault_do" where
  "incInflight v subjectFp =
     v\<lparr>vd_inflight := AList.update subjectFp (nullish (map_of (vd_inflight v) subjectFp) 0 + 1) (vd_inflight v)\<rparr>"

definition decInflight :: "vault_do \<Rightarrow> jsstr \<Rightarrow> vault_do" where
  "decInflight v subjectFp =
     (let next_count = nullish (map_of (vd_inflight v) subjectFp) 1 - 1 in
      if next_count \<le> 0 then v\<lparr>vd_inflight := AList.delete subjectFp (vd_inflight v)\<rparr>
      else v\<lparr>vd_inflight := AList.update subjectFp next_count (vd_inflight v)\<rparr>)"

section \<open>The key\<close>

definition currentSpec :: "vault_env \<Rightarrow> jsstr" where
  "currentSpec env = (case ve_VAULT_KEK_SOURCE env of Some s \<Rightarrow> js_trim s | None \<Rightarrow> [])"

definition tenantScoped :: "vault_env \<Rightarrow> bool" where
  "tenantScoped env = (case ve_VAULT_KEK_TENANT_SCOPED env of Some s \<Rightarrow> js_trim s = js ''1'' | None \<Rightarrow> False)"

definition scoped_flag :: "vault_env \<Rightarrow> jsstr" where
  "scoped_flag env = (if tenantScoped env then js ''1'' else js ''0'')"

definition kek_source_key :: jsstr where "kek_source_key = js ''kek_source''"
definition kek_scoped_key :: jsstr where "kek_scoped_key = js ''kek_tenant_scoped''"

text \<open>The two \<open>INSERT\<close>s are separate statements: a conflict on the second leaves the first.\<close>

definition assertKekSourceSpecPinned :: "vault_env \<Rightarrow> vault_do \<Rightarrow> vault_do \<times> vault_error option" where
  "assertKekSourceSpecPinned env v =
     (let pinned = map_of (vd_vault_state v) in
      case pinned kek_source_key of
        None \<Rightarrow>
          (case insert_row fst (kek_source_key, currentSpec env) (vd_vault_state v) of
             None \<Rightarrow> (v, Some State_conflict)
           | Some t1 \<Rightarrow>
               case insert_row fst (kek_scoped_key, scoped_flag env) t1 of
                 None \<Rightarrow> (v\<lparr>vd_vault_state := t1\<rparr>, Some State_conflict)
               | Some t2 \<Rightarrow> (v\<lparr>vd_vault_state := t2\<rparr>, None))
      | Some pinnedSpec \<Rightarrow>
          if pinnedSpec \<noteq> currentSpec env then (v, Some (Kek_failed Spec_pin_mismatch))
          else if pinned kek_scoped_key \<noteq> Some (scoped_flag env) then (v, Some (Kek_failed Scope_pin_mismatch))
          else (v, None))"

definition resolveKekSource :: "vault_host \<Rightarrow> vault_env \<Rightarrow> kek_error + jsstr" where
  "resolveKekSource host env =
     (let explicit = currentSpec env in
      if length explicit = 0 then Inl Source_unset
      else if tenantScoped env then
        scope_resolve (vh_parse_url host) (vh_hkdf host) (ve_kek env)
          (Cluster_scope (nullish (ve_id_name env) (js ''cluster''))) explicit (\<lambda>_. None)
      else case buildKekSource (vh_parse_url host) explicit of
             Inl e \<Rightarrow> Inl e
           | Inr source \<Rightarrow> kek_resolve (ve_kek env) source)"

text \<open>A rejected derivation clears the memo, so only a derived key is remembered.\<close>

definition getKEK :: "vault_host \<Rightarrow> vault_env \<Rightarrow> vault_do \<Rightarrow> vault_do \<times> (vault_error + bytes)" where
  "getKEK host env v =
     (case vd_kek v of
        Some kek \<Rightarrow> (v, Inr kek)
      | None \<Rightarrow>
          case assertKekSourceSpecPinned env v of
            (v1, Some e) \<Rightarrow> (v1, Inl e)
          | (v1, None) \<Rightarrow>
              case resolveKekSource host env of
                Inl e \<Rightarrow> (v1, Inl (Kek_failed e))
              | Inr secret \<Rightarrow> let kek = deriveKEK (vh_hkdf host) secret in (v1\<lparr>vd_kek := Some kek\<rparr>, Inr kek))"

section \<open>Rows\<close>

definition sealed_text :: "sealedCredential \<Rightarrow> jsstr" where
  "sealed_text s = json_text (JObj [(js ''wrappedDek'', JStr (se_wrappedDek s)), (js ''iv'', JStr (se_iv s)), (js ''ciphertext'', JStr (se_ciphertext s))])"

definition parse_sealed :: "jsstr \<Rightarrow> sealedCredential option" where
  "parse_sealed text =
     (let v = json_parse text in
      case (get_prop v (js ''wrappedDek''), get_prop v (js ''iv''), get_prop v (js ''ciphertext'')) of
        (Some (JStr w), Some (JStr i), Some (JStr c)) \<Rightarrow> Some \<lparr>se_wrappedDek = w, se_iv = i, se_ciphertext = c\<rparr>
      | _ \<Rightarrow> None)"

definition subs_text :: "jsstr list \<Rightarrow> jsstr" where
  "subs_text subs = json_text (JArr (map JStr subs))"

fun as_str :: "json \<Rightarrow> jsstr option" where
  "as_str (JStr s) = Some s"
| "as_str _ = None"

definition parse_subs :: "jsstr \<Rightarrow> jsstr list option" where
  "parse_subs text =
     (case json_parse text of
        Some (JArr vs) \<Rightarrow> if list_all (\<lambda>v. as_str v \<noteq> None) vs then Some (map (the \<circ> as_str) vs) else None
      | _ \<Rightarrow> None)"

definition readRow :: "vault_do \<Rightarrow> jsstr \<Rightarrow> jsstr \<Rightarrow> (vault_error + storedCredential) option" where
  "readRow v subjectFp service =
     (case lookup_pk cr_key (subjectFp, service) (vd_credentials v) of
        None \<Rightarrow> None
      | Some r \<Rightarrow> Some (case parse_subs (cr_allowed_subs_json r) of
            None \<Rightarrow> Inl Envelope_broken
          | Some subs \<Rightarrow> Inr \<lparr>sc_upstream = cr_upstream r, sc_headers = [], sc_allowedSubs = subs\<rparr>))"

definition writeRow :: "vault_host \<Rightarrow> vault_env \<Rightarrow> seal_random \<Rightarrow> vault_do \<Rightarrow> jsstr \<Rightarrow> jsstr \<Rightarrow> storedCredential \<Rightarrow> vault_do \<times> vault_error option" where
  "writeRow host env rnd v subjectFp service cred =
     (case getKEK host env v of
        (v1, Inl e) \<Rightarrow> (v1, Some e)
      | (v1, Inr kek) \<Rightarrow>
          let sealed = encrypt (vh_aes host) rnd (sc_headers cred) kek;
              row = \<lparr>cr_subject_fp = subjectFp, cr_service = service, cr_upstream = sc_upstream cred,
                     cr_sealed_headers = sealed_text sealed, cr_allowed_subs_json = subs_text (sc_allowedSubs cred)\<rparr>
          in (v1\<lparr>vd_credentials := upsert cr_key row (vd_credentials v1)\<rparr>, None))"

definition deleteRow :: "vault_do \<Rightarrow> jsstr \<Rightarrow> jsstr \<Rightarrow> vault_do \<times> bool" where
  "deleteRow v subjectFp service =
     (let (rows, gone) = delete_where (\<lambda>r. cr_subject_fp r = subjectFp \<and> cr_service r = service) (vd_credentials v)
      in (v\<lparr>vd_credentials := rows\<rparr>, gone \<noteq> []))"

definition listRows :: "vault_do \<Rightarrow> jsstr \<Rightarrow> jsstr list" where
  "listRows v subjectFp = map cr_service (order_by_text cr_service (select_where (\<lambda>r. cr_subject_fp r = subjectFp) (vd_credentials v)))"

section \<open>Calls\<close>

text \<open>The two gates every call but \<open>proxyRequest\<close> opens with.\<close>

definition call_gate :: "vault_do \<Rightarrow> jsstr \<Rightarrow> op_cost \<Rightarrow> int \<Rightarrow> vault_do \<times> vault_error option" where
  "call_gate v subjectFp op now =
     (case assertSubjectFp subjectFp of
        Some e \<Rightarrow> (v, Some e)
      | None \<Rightarrow>
          case consumeBudget v subjectFp (COST op) now of
            (v1, Some retry) \<Rightarrow> (v1, Some (Rate_limited_retry retry))
          | (v1, None) \<Rightarrow> (v1, None))"

definition putCredential :: "vault_host \<Rightarrow> vault_env \<Rightarrow> seal_random \<Rightarrow> int \<Rightarrow> vault_do \<Rightarrow> jsstr \<Rightarrow> jsstr \<Rightarrow> storedCredential \<Rightarrow> vault_do \<times> vault_error option" where
  "putCredential host env rnd now v subjectFp service cred =
     (case call_gate v subjectFp Write_cost now of
        (v1, Some e) \<Rightarrow> (v1, Some e)
      | (v1, None) \<Rightarrow>
          case validateCredentialPayload cred of
            Some reason \<Rightarrow> (v1, Some (Payload_rejected reason))
          | None \<Rightarrow> writeRow host env rnd v1 subjectFp service cred)"

definition getCredentialMetadata :: "int \<Rightarrow> vault_do \<Rightarrow> jsstr \<Rightarrow> jsstr \<Rightarrow> vault_do \<times> (vault_error + (jsstr \<times> jsstr list) option)" where
  "getCredentialMetadata now v subjectFp service =
     (case call_gate v subjectFp Read_cost now of
        (v1, Some e) \<Rightarrow> (v1, Inl e)
      | (v1, None) \<Rightarrow>
          (v1, case readRow v1 subjectFp service of
                 None \<Rightarrow> Inr None
               | Some (Inl e) \<Rightarrow> Inl e
               | Some (Inr row) \<Rightarrow> Inr (Some (sc_upstream row, sc_allowedSubs row))))"

definition vault_deleteCredential :: "int \<Rightarrow> vault_do \<Rightarrow> jsstr \<Rightarrow> jsstr \<Rightarrow> vault_do \<times> (vault_error + bool)" where
  "vault_deleteCredential now v subjectFp service =
     (case call_gate v subjectFp Read_cost now of
        (v1, Some e) \<Rightarrow> (v1, Inl e)
      | (v1, None) \<Rightarrow> let (v2, deleted) = deleteRow v1 subjectFp service in (v2, Inr deleted))"

definition vault_listServices :: "int \<Rightarrow> vault_do \<Rightarrow> jsstr \<Rightarrow> vault_do \<times> (vault_error + jsstr list)" where
  "vault_listServices now v subjectFp =
     (case call_gate v subjectFp Read_cost now of
        (v1, Some e) \<Rightarrow> (v1, Inl e)
      | (v1, None) \<Rightarrow> (v1, Inr (listRows v1 subjectFp)))"

record vault_seed =
  seed_peerFp :: jsstr
  seed_service :: jsstr
  seed_cred :: storedCredential

definition parse_seed :: "jsstr \<Rightarrow> vault_seed option" where
  "parse_seed text =
     (let v = json_parse text;
          subs = (case get_prop v (js ''allowedSubs'') of
                    None \<Rightarrow> Some [] | Some JNull \<Rightarrow> Some []
                  | Some (JArr vs) \<Rightarrow> if list_all (\<lambda>v. as_str v \<noteq> None) vs then Some (map (the \<circ> as_str) vs) else None
                  | _ \<Rightarrow> None);
          headers = (case get_prop v (js ''headers'') of
                       Some (JObj ps) \<Rightarrow> if list_all (\<lambda>(k, w). as_str w \<noteq> None) ps then Some (map (\<lambda>(k, w). (k, the (as_str w))) ps) else None
                     | _ \<Rightarrow> None)
      in case (get_prop v (js ''peerFp''), get_prop v (js ''service''), get_prop v (js ''upstream''), headers, subs) of
           (Some (JStr p), Some (JStr s), Some (JStr u), Some hs, Some ss) \<Rightarrow>
             Some \<lparr>seed_peerFp = p, seed_service = s, seed_cred = \<lparr>sc_upstream = u, sc_headers = hs, sc_allowedSubs = ss\<rparr>\<rparr>
         | _ \<Rightarrow> None)"

text \<open>Failures of the seed are logged and swallowed.\<close>

definition maybeDevSeed :: "vault_host \<Rightarrow> vault_env \<Rightarrow> seal_random \<Rightarrow> int \<Rightarrow> vault_do \<Rightarrow> vault_do" where
  "maybeDevSeed host env rnd now v =
     (if vd_devSeeded v then v
      else
        let v1 = v\<lparr>vd_devSeeded := True\<rparr> in
        if ve_CLOISTER_MODE env \<noteq> Some (js ''dev'') \<or> \<not> truthy_str (ve_DEV_VAULT_SEED env) then v1
        else case parse_seed (nullish (ve_DEV_VAULT_SEED env) []) of
               None \<Rightarrow> v1
             | Some seed \<Rightarrow> fst (putCredential host env rnd now v1 (seed_peerFp seed) (seed_service seed) (seed_cred seed)))"

section \<open>The proxy\<close>

definition REQUIRED_ERROR_HEADERS :: headers where
  "REQUIRED_ERROR_HEADERS = [(js ''content-type'', js ''application/json''), (js ''cache-control'', js ''no-store''),
     (js ''x-content-type-options'', js ''nosniff'')]"

definition errorResponse :: "int \<Rightarrow> jsstr \<Rightarrow> headers \<Rightarrow> response" where
  "errorResponse status body extraHeaders =
     \<lparr>rs_status = status, rs_statusText = [], rs_headers = foldl (\<lambda>hs (k, v). AList.update k v hs) REQUIRED_ERROR_HEADERS extraHeaders,
      rs_body = utf8_encode body\<rparr>"

datatype proxy_result = Proxy_threw vault_error | Proxy_reply response | Proxy_forwarding upstream_request

definition vault_error_reply :: "int \<Rightarrow> string \<Rightarrow> jsstr \<Rightarrow> jsstr \<Rightarrow> headers \<Rightarrow> response" where
  "vault_error_reply status type callerSub service extra =
     errorResponse status (json_text (buildErrorResponse (js type) callerSub service None)) extra"

text \<open>\<open>#proxyRequestInner\<close> up to the upstream fetch.\<close>

definition proxyRequestInner :: "vault_host \<Rightarrow> vault_env \<Rightarrow> int \<Rightarrow> vault_do \<Rightarrow> jsstr \<Rightarrow> jsstr \<Rightarrow> jsstr \<Rightarrow> web_request \<Rightarrow> vault_do \<times> denial_audit list \<times> proxy_result" where
  "proxyRequestInner host env now v subjectFp service callerSub incoming =
     (let audit = (\<lambda>event. buildDenialAuditEntry event (Some subjectFp) (Some callerSub) (Some service) None None now) in
      case lookup_pk cr_key (subjectFp, service) (vd_credentials v) of
        None \<Rightarrow> (v, [audit Credential_missing], Proxy_reply (vault_error_reply 404 ''not_found'' callerSub service []))
      | Some row \<Rightarrow>
          case parse_subs (cr_allowed_subs_json row) of
            None \<Rightarrow> (v, [], Proxy_threw Envelope_broken)
          | Some allowedSubs \<Rightarrow>
              if \<not> checkAccess allowedSubs callerSub
              then (v, [audit Credential_denied], Proxy_reply (vault_error_reply 404 ''not_found'' callerSub service []))
              else
                case getKEK host env v of
                  (v1, Inl e) \<Rightarrow> (v1, [], Proxy_threw e)
                | (v1, Inr kek) \<Rightarrow>
                    case Option.bind (parse_sealed (cr_sealed_headers row)) (\<lambda>sealed. decrypt (vh_aes host) sealed kek) of
                      None \<Rightarrow> (v1, [], Proxy_threw Envelope_broken)
                    | Some headers \<Rightarrow>
                        case buildProxyRequest (vh_parse_url host) incoming
                               \<lparr>sc_upstream = cr_upstream row, sc_headers = headers, sc_allowedSubs = allowedSubs\<rparr> of
                          None \<Rightarrow> (v1, [], Proxy_threw Proxy_unbuildable)
                        | Some req \<Rightarrow> (v1, [], Proxy_forwarding req))"

definition proxy_begin :: "vault_host \<Rightarrow> vault_env \<Rightarrow> seal_random \<Rightarrow> int \<Rightarrow> vault_do \<Rightarrow> jsstr \<Rightarrow> jsstr \<Rightarrow> jsstr \<Rightarrow> web_request \<Rightarrow> vault_do \<times> denial_audit list \<times> proxy_result" where
  "proxy_begin host env rnd now v subjectFp service callerSub incoming =
     (let audit = (\<lambda>event retry. buildDenialAuditEntry event (Some subjectFp) (Some callerSub) (Some service) None (Some retry) now) in
      case assertSubjectFp subjectFp of
        Some e \<Rightarrow> (v, [], Proxy_threw e)
      | None \<Rightarrow>
          let v0 = maybeDevSeed host env rnd now v in
          if \<not> checkInflight v0 subjectFp
          then (v0, [audit Rate_limited_burst 1], Proxy_reply (vault_error_reply 429 ''rate_limited'' callerSub service [(js ''retry-after'', js ''1'')]))
          else
            case consumeBudget v0 subjectFp (COST Proxy_cost) now of
              (v1, Some retry) \<Rightarrow>
                (v1, [audit Rate_limited retry], Proxy_reply (vault_error_reply 429 ''rate_limited'' callerSub service [(js ''retry-after'', dec_of_int retry)]))
            | (v1, None) \<Rightarrow>
                case proxyRequestInner host env now (incInflight v1 subjectFp) subjectFp service callerSub incoming of
                  (v2, entries, Proxy_forwarding req) \<Rightarrow> (v2, entries, Proxy_forwarding req)
                | (v2, entries, r) \<Rightarrow> (decInflight v2 subjectFp, entries, r))"

text \<open>What remains once the upstream answered (\<open>None\<close>: its fetch threw).\<close>

definition proxy_end :: "vault_do \<Rightarrow> jsstr \<Rightarrow> response option \<Rightarrow> vault_do \<times> (vault_error + response)" where
  "proxy_end v subjectFp upstream =
     (decInflight v subjectFp, case upstream of None \<Rightarrow> Inl Upstream_threw | Some r \<Rightarrow> Inr (sanitizeResponse r))"

definition vault_fetch :: response where
  "vault_fetch = \<lparr>rs_status = 405, rs_statusText = [], rs_headers = [(js ''content-type'', js ''text/plain'')],
     rs_body = utf8_encode (js ''credential-vault: no inbound HTTP surface; use RPC'')\<rparr>"


section \<open>Calls in any order\<close>

datatype vault_call =
  Call_put jsstr jsstr storedCredential seal_random
| Call_metadata jsstr jsstr
| Call_delete jsstr jsstr
| Call_list jsstr
| Call_proxy jsstr jsstr jsstr web_request seal_random
| Call_proxy_done jsstr "response option"

datatype vault_reply =
  Reply_put "vault_error option"
| Reply_metadata "vault_error + (jsstr \<times> jsstr list) option"
| Reply_delete "vault_error + bool"
| Reply_list "vault_error + jsstr list"
| Reply_proxy "denial_audit list" proxy_result
| Reply_proxy_done "vault_error + response"

fun vault_exec :: "vault_host \<Rightarrow> vault_env \<Rightarrow> int \<Rightarrow> vault_do \<Rightarrow> vault_call \<Rightarrow> vault_do \<times> vault_reply" where
  "vault_exec host env now v (Call_put s service cred rnd) = (case putCredential host env rnd now v s service cred of (v', r) \<Rightarrow> (v', Reply_put r))"
| "vault_exec host env now v (Call_metadata s service) = (case getCredentialMetadata now v s service of (v', r) \<Rightarrow> (v', Reply_metadata r))"
| "vault_exec host env now v (Call_delete s service) = (case vault_deleteCredential now v s service of (v', r) \<Rightarrow> (v', Reply_delete r))"
| "vault_exec host env now v (Call_list s) = (case vault_listServices now v s of (v', r) \<Rightarrow> (v', Reply_list r))"
| "vault_exec host env now v (Call_proxy s service callerSub req rnd) =
     (case proxy_begin host env rnd now v s service callerSub req of (v', audit, r) \<Rightarrow> (v', Reply_proxy audit r))"
| "vault_exec host env now v (Call_proxy_done s upstream) = (case proxy_end v s upstream of (v', r) \<Rightarrow> (v', Reply_proxy_done r))"

fun caller :: "vault_call \<Rightarrow> jsstr" where
  "caller (Call_put s _ _ _) = s"
| "caller (Call_metadata s _) = s"
| "caller (Call_delete s _) = s"
| "caller (Call_list s) = s"
| "caller (Call_proxy s _ _ _ _) = s"
| "caller (Call_proxy_done s _) = s"

text \<open>The subjects whose proxied request is waiting for its upstream.\<close>

fun next_running :: "jsstr list \<Rightarrow> vault_call \<Rightarrow> vault_reply \<Rightarrow> jsstr list" where
  "next_running running (Call_proxy s _ _ _ _) (Reply_proxy _ (Proxy_forwarding _)) = s # running"
| "next_running running (Call_proxy_done s _) _ = remove1 s running"
| "next_running running _ _ = running"

definition enabled :: "jsstr list \<Rightarrow> vault_call \<Rightarrow> bool" where
  "enabled running call = (case call of Call_proxy_done s _ \<Rightarrow> s \<in> set running | _ \<Rightarrow> True)"

inductive vault_reach :: "vault_host \<Rightarrow> vault_env \<Rightarrow> vault_do \<Rightarrow> jsstr list \<Rightarrow> bool" for host where
  start: "vault_reach host env (new_CredentialVault \<lparr>vs_credentials = table, vs_rate_buckets = [], vs_vault_state = []\<rparr>) []"
    if "table = Absent_table \<or> table = Unscoped_table"
| call: "vault_reach host env v running \<Longrightarrow> enabled running c \<Longrightarrow> vault_exec host env now v c = (v', r) \<Longrightarrow>
    vault_reach host env v' (next_running running c r)"
| restart: "vault_reach host env v running \<Longrightarrow> vault_reach host env' (new_CredentialVault (stored v)) []"

inductive_cases vault_reachE: "vault_reach host env v running"

section \<open>What each part of a call leaves alone\<close>

lemma getKEK_frame [simp]:
  "vd_credentials (fst (getKEK host env v)) = vd_credentials v"
  "vd_rate_buckets (fst (getKEK host env v)) = vd_rate_buckets v"
  "vd_inflight (fst (getKEK host env v)) = vd_inflight v"
  "vd_devSeeded (fst (getKEK host env v)) = vd_devSeeded v"
  by (auto simp: getKEK_def assertKekSourceSpecPinned_def Let_def split: option.split sum.split)

lemma consumeBudget_frame [simp]:
  "vd_credentials (fst (consumeBudget v s c now)) = vd_credentials v"
  "vd_inflight (fst (consumeBudget v s c now)) = vd_inflight v"
  "vd_kek (fst (consumeBudget v s c now)) = vd_kek v"
  "vd_vault_state (fst (consumeBudget v s c now)) = vd_vault_state v"
  by (auto simp: consumeBudget_def Let_def split: consume_result.split)

lemma inflight_frame [simp]:
  "vd_credentials (incInflight v s) = vd_credentials v" "vd_credentials (decInflight v s) = vd_credentials v"
  "vd_rate_buckets (incInflight v s) = vd_rate_buckets v" "vd_rate_buckets (decInflight v s) = vd_rate_buckets v"
  "vd_kek (incInflight v s) = vd_kek v" "vd_kek (decInflight v s) = vd_kek v"
  "vd_vault_state (incInflight v s) = vd_vault_state v" "vd_vault_state (decInflight v s) = vd_vault_state v"
  by (auto simp: incInflight_def decInflight_def Let_def)

lemma call_gate_state: "fst (call_gate v s op now) = v \<or> fst (call_gate v s op now) = fst (consumeBudget v s (COST op) now)"
  by (auto simp: call_gate_def split: option.split prod.split)

lemma consumeBudget_bucket:
  "lookup_pk br_subject_fp t (vd_rate_buckets (fst (consumeBudget v s c now))) = lookup_pk br_subject_fp t (vd_rate_buckets v)" if "t \<noteq> s"
  using that by (auto simp: consumeBudget_def Let_def table_simps split: consume_result.split)

lemma filter_upsert_other: "(\<And>x. key x = key r \<Longrightarrow> \<not> P x) \<Longrightarrow> filter P (upsert key r t) = filter P t"
proof -
  assume other: "\<And>x. key x = key r \<Longrightarrow> \<not> P x"
  then have "filter P (map (\<lambda>x. if key x = key r then r else x) t) = filter P t" by (induction t) auto
  then show ?thesis using other by (simp add: upsert_def)
qed

section \<open>Subjects are isolated\<close>

text \<open>Everything the object holds for a subject.\<close>

definition subject_view :: "jsstr \<Rightarrow> vault_do \<Rightarrow> cred_row list \<times> bucket_row option \<times> int option" where
  "subject_view s v = (filter (\<lambda>r. cr_subject_fp r = s) (vd_credentials v), lookup_pk br_subject_fp s (vd_rate_buckets v), map_of (vd_inflight v) s)"

lemma view_getKEK [simp]: "subject_view s (fst (getKEK host env v)) = subject_view s v"
  by (simp add: subject_view_def)

lemma view_budget: "t \<noteq> s \<Longrightarrow> subject_view t (fst (consumeBudget v s c now)) = subject_view t v"
  by (simp add: subject_view_def consumeBudget_bucket)

lemma view_gate: "t \<noteq> s \<Longrightarrow> subject_view t (fst (call_gate v s op now)) = subject_view t v"
  using call_gate_state [of v s op now] by (auto simp: view_budget)

lemma view_inflight: "t \<noteq> s \<Longrightarrow> subject_view t (incInflight v s) = subject_view t v" "t \<noteq> s \<Longrightarrow> subject_view t (decInflight v s) = subject_view t v"
  by (auto simp: subject_view_def incInflight_def decInflight_def Let_def update_conv' delete_conv')

lemma view_writeRow: "t \<noteq> s \<Longrightarrow> subject_view t (fst (writeRow host env rnd v s service cred)) = subject_view t v"
proof -
  assume t: "t \<noteq> s"
  obtain v1 r where k: "getKEK host env v = (v1, r)" by force
  then have "subject_view t v1 = subject_view t v" using view_getKEK [of t host env v] by simp
  moreover have "filter (\<lambda>r. cr_subject_fp r = t) (upsert cr_key row rows) = filter (\<lambda>r. cr_subject_fp r = t) rows" if "cr_subject_fp row = s" for row rows
    using t that by (intro filter_upsert_other) (auto simp: cr_key_def)
  ultimately show ?thesis by (cases r) (simp_all add: writeRow_def k Let_def subject_view_def)
qed

lemma view_put: "t \<noteq> s \<Longrightarrow> subject_view t (fst (putCredential host env rnd now v s service cred)) = subject_view t v"
  using view_gate [of t s v Write_cost now] view_writeRow [of t s host env rnd _ service cred]
  by (auto simp: putCredential_def split: prod.split option.split)

lemma view_delete: "t \<noteq> s \<Longrightarrow> subject_view t (fst (deleteRow v s service)) = subject_view t v"
  by (auto simp: deleteRow_def delete_where_def subject_view_def filter_filter intro!: filter_cong)

lemma view_inner: "subject_view t (fst (proxyRequestInner host env now v s service callerSub req)) = subject_view t v"
proof -
  obtain v1 r where k: "getKEK host env v = (v1, r)" by force
  then have "subject_view t v1 = subject_view t v" using view_getKEK [of t host env v] by simp
  then show ?thesis by (auto simp: proxyRequestInner_def Let_def k split: option.split sum.split)
qed

lemma no_seed: "ve_CLOISTER_MODE env \<noteq> Some (js ''dev'') \<Longrightarrow> maybeDevSeed host env rnd now v = (if vd_devSeeded v then v else v\<lparr>vd_devSeeded := True\<rparr>)"
  by (simp add: maybeDevSeed_def del: list.map)

lemma view_no_seed: "ve_CLOISTER_MODE env \<noteq> Some (js ''dev'') \<Longrightarrow> subject_view t (maybeDevSeed host env rnd now v) = subject_view t v"
  by (auto simp: no_seed subject_view_def simp del: list.map)

lemma view_proxy:
  assumes "t \<noteq> s" "ve_CLOISTER_MODE env \<noteq> Some (js ''dev'')"
  shows "subject_view t (fst (proxy_begin host env rnd now v s service callerSub req)) = subject_view t v"
proof -
  let ?v0 = "maybeDevSeed host env rnd now v"
  obtain v1 b where b: "consumeBudget ?v0 s (COST Proxy_cost) now = (v1, b)" by force
  have v1: "subject_view t v1 = subject_view t v" using view_budget [OF assms(1), of ?v0 "COST Proxy_cost" now] view_no_seed [OF assms(2)] b by simp
  obtain v2 l r where i: "proxyRequestInner host env now (incInflight v1 s) s service callerSub req = (v2, l, r)" by (metis prod_cases3)
  have "subject_view t v2 = subject_view t v" using view_inner [of t host env now "incInflight v1 s" s service callerSub req] i v1 assms(1) by (simp add: view_inflight)
  then show ?thesis using assms v1 view_no_seed [OF assms(2)]
    by (cases r; cases b) (auto simp: proxy_begin_def Let_def b i view_inflight simp del: list.map split: option.split)
qed

text \<open>C15: Outside development mode, no call made for one subject changes the credentials, the rate budget or the count
  of running proxies of another.
\<close>

theorem vault_subjects_isolated:
  assumes "ve_CLOISTER_MODE env \<noteq> Some (js ''dev'')" "s \<noteq> caller call"
  shows "subject_view s (fst (vault_exec host env now v call)) = subject_view s v"
proof (cases call)
  case (Call_proxy s' service callerSub req rnd)
  then show ?thesis using view_proxy [OF _ assms(1), of s s' host rnd now v service callerSub req] assms(2) by (simp add: case_prod_unfold)
next
  case (Call_put s' service cred rnd)
  then show ?thesis using view_put [of s s' host env rnd now v service cred] assms(2) by (simp add: case_prod_unfold)
next
  case (Call_delete s' service)
  then show ?thesis using view_gate [of s s' v Read_cost now] view_delete [of s s' _ service] assms(2)
    by (auto simp: vault_deleteCredential_def case_prod_unfold Let_def split: option.split)
next
  case (Call_metadata s' service)
  then show ?thesis using view_gate [of s s' v Read_cost now] assms(2)
    by (auto simp: getCredentialMetadata_def case_prod_unfold split: option.split)
next
  case (Call_list s')
  then show ?thesis using view_gate [of s s' v Read_cost now] assms(2)
    by (auto simp: vault_listServices_def case_prod_unfold split: option.split)
next
  case (Call_proxy_done s' upstream)
  then show ?thesis using assms(2) by (simp add: proxy_end_def view_inflight)
qed


section \<open>Invariants\<close>

definition inflight_ok :: "(jsstr \<times> int) list \<Rightarrow> jsstr list \<Rightarrow> bool" where
  "inflight_ok m running \<longleftrightarrow>
     (\<forall>s. map_of m s = (if count_list running s = 0 then None else Some (int (count_list running s))) \<and>
          int (count_list running s) \<le> MAX_INFLIGHT)"

text \<open>A remembered key is the one the environment resolves to, and the pins name that environment.\<close>

definition kek_ok :: "vault_host \<Rightarrow> vault_env \<Rightarrow> vault_do \<Rightarrow> bool" where
  "kek_ok host env v \<longleftrightarrow>
     (\<forall>k. vd_kek v = Some k \<longrightarrow>
        map_of (vd_vault_state v) kek_source_key = Some (currentSpec env) \<and> map_of (vd_vault_state v) kek_scoped_key = Some (scoped_flag env) \<and>
        (\<exists>secret. resolveKekSource host env = Inr secret \<and> k = deriveKEK (vh_hkdf host) secret))"

definition vault_inv :: "vault_host \<Rightarrow> vault_env \<Rightarrow> vault_do \<Rightarrow> jsstr list \<Rightarrow> bool" where
  "vault_inv host env v running \<longleftrightarrow>
     pk_unique cr_key (vd_credentials v) \<and> pk_unique br_subject_fp (vd_rate_buckets v) \<and>
     inflight_ok (vd_inflight v) running \<and> kek_ok host env v"

lemma count_list_remove1: "count_list (remove1 x xs) y = count_list xs y - (if x = y then 1 else 0)"
  by (induction xs) auto

lemma inflight_inc: "checkInflight v s \<Longrightarrow> inflight_ok (vd_inflight v) running \<Longrightarrow> inflight_ok (vd_inflight (incInflight v s)) (s # running)"
  by (auto simp: inflight_ok_def incInflight_def checkInflight_def update_conv' MAX_INFLIGHT_def split: if_splits)

lemma inflight_dec: "s \<in> set running \<Longrightarrow> inflight_ok (vd_inflight v) running \<Longrightarrow> inflight_ok (vd_inflight (decInflight v s)) (remove1 s running)"
proof -
  assume *: "s \<in> set running" "inflight_ok (vd_inflight v) running"
  then have n: "0 < count_list running s" using count_list_0_iff [of running s] by linarith
  then have m: "map_of (vd_inflight v) s = Some (int (count_list running s))" using *(2) by (simp add: inflight_ok_def)
  have "map_of (vd_inflight (decInflight v s)) t = (if count_list (remove1 s running) t = 0 then None else Some (int (count_list (remove1 s running) t)))" for t
    using * m n by (auto simp: decInflight_def Let_def inflight_ok_def count_list_remove1 update_conv' delete_conv' of_nat_diff)
  moreover have "int (count_list (remove1 s running) t) \<le> MAX_INFLIGHT" for t
  proof -
    have "int (count_list (remove1 s running) t) \<le> int (count_list running t)" by (simp add: count_list_remove1)
    also have "\<dots> \<le> MAX_INFLIGHT" using *(2) by (simp add: inflight_ok_def)
    finally show ?thesis .
  qed
  ultimately show ?thesis by (simp add: inflight_ok_def)
qed

lemma pin_keys_differ [simp]: "kek_source_key \<noteq> kek_scoped_key" "kek_scoped_key \<noteq> kek_source_key"
  by (simp_all add: kek_source_key_def kek_scoped_key_def)

lemma pinned_after: "assertKekSourceSpecPinned env v = (v1, None) \<Longrightarrow>
    map_of (vd_vault_state v1) kek_source_key = Some (currentSpec env) \<and> map_of (vd_vault_state v1) kek_scoped_key = Some (scoped_flag env) \<and> vd_kek v1 = vd_kek v"
  by (auto simp: assertKekSourceSpecPinned_def Let_def insert_row_def map_add_def
      simp flip: map_of_eq_None_iff split: option.splits if_splits)

lemma getKEK_kek_ok: "kek_ok host env v \<Longrightarrow> kek_ok host env (fst (getKEK host env v))"
proof (cases "vd_kek v")
  case None
  obtain v1 e where a: "assertKekSourceSpecPinned env v = (v1, e)" by force
  have "vd_kek v1 = None" using None a by (auto simp: assertKekSourceSpecPinned_def Let_def split: option.splits if_splits)
  then show ?thesis using None a pinned_after [of env v v1]
    by (cases e; cases "resolveKekSource host env") (auto simp: getKEK_def kek_ok_def Let_def)
qed (simp add: getKEK_def)

lemma getKEK_memo: "getKEK host env v = (v', Inr k) \<Longrightarrow> vd_kek v' = Some k"
  by (auto simp: getKEK_def Let_def split: option.splits sum.splits prod.splits)

lemma inv_getKEK [inv_intros]: "vault_inv host env v running \<Longrightarrow> vault_inv host env (fst (getKEK host env v)) running"
  by (simp add: vault_inv_def getKEK_kek_ok)

lemma inv_budget [inv_intros]: "vault_inv host env v running \<Longrightarrow> vault_inv host env (fst (consumeBudget v s c now)) running"
proof -
  assume "vault_inv host env v running"
  moreover have "pk_unique br_subject_fp (vd_rate_buckets v) \<Longrightarrow> pk_unique br_subject_fp (vd_rate_buckets (fst (consumeBudget v s c now)))"
    by (auto simp: consumeBudget_def Let_def intro: pk_unique_upsert split: consume_result.split)
  ultimately show ?thesis by (simp add: vault_inv_def kek_ok_def)
qed

lemma inv_gate [inv_intros]: "vault_inv host env v running \<Longrightarrow> vault_inv host env (fst (call_gate v s op now)) running"
  using call_gate_state [of v s op now] inv_budget by auto

lemma inv_rows: "vault_inv host env v running \<Longrightarrow> pk_unique cr_key rows \<Longrightarrow> vault_inv host env (v\<lparr>vd_credentials := rows\<rparr>) running"
  by (simp add: vault_inv_def kek_ok_def)

lemma inv_writeRow [inv_intros]: "vault_inv host env v running \<Longrightarrow> vault_inv host env (fst (writeRow host env rnd v s service cred)) running"
proof -
  assume i: "vault_inv host env v running"
  obtain v1 r where k: "getKEK host env v = (v1, r)" by force
  then have "vault_inv host env v1 running" using inv_getKEK [OF i] by simp
  moreover have "vault_inv host env (v1\<lparr>vd_credentials := upsert cr_key row (vd_credentials v1)\<rparr>) running" for row
    using calculation by (intro inv_rows pk_unique_upsert) (simp_all add: vault_inv_def)
  ultimately show ?thesis by (cases r) (simp_all add: writeRow_def k Let_def)
qed

lemma inv_put [inv_intros]: "vault_inv host env v running \<Longrightarrow> vault_inv host env (fst (putCredential host env rnd now v s service cred)) running"
  using inv_gate [of host env v running s Write_cost now] inv_writeRow by (auto simp: putCredential_def split: prod.split option.split)

lemma inv_delete [inv_intros]: "vault_inv host env v running \<Longrightarrow> vault_inv host env (fst (deleteRow v s service)) running"
proof -
  assume i: "vault_inv host env v running"
  then have "pk_unique cr_key (filter (\<lambda>r. \<not> (cr_subject_fp r = s \<and> cr_service r = service)) (vd_credentials v))"
    by (intro pk_unique_filter) (simp add: vault_inv_def)
  then show ?thesis using inv_rows [OF i] by (simp add: deleteRow_def delete_where_def)
qed

lemma inv_seed [inv_intros]: "vault_inv host env v running \<Longrightarrow> vault_inv host env (maybeDevSeed host env rnd now v) running"
proof -
  assume i: "vault_inv host env v running"
  then have "vault_inv host env (v\<lparr>vd_devSeeded := True\<rparr>) running" by (simp add: vault_inv_def kek_ok_def)
  then show ?thesis using i inv_put by (auto simp: maybeDevSeed_def Let_def simp del: list.map split: option.split)
qed

lemma inv_inflight:
  "vault_inv host env v running \<Longrightarrow> checkInflight v s \<Longrightarrow> vault_inv host env (incInflight v s) (s # running)"
  "vault_inv host env v running \<Longrightarrow> s \<in> set running \<Longrightarrow> vault_inv host env (decInflight v s) (remove1 s running)"
  using inflight_inc [of v s running] inflight_dec [of s running v] by (auto simp: vault_inv_def kek_ok_def)

lemma inv_inner [inv_intros]: "vault_inv host env v running \<Longrightarrow> vault_inv host env (fst (proxyRequestInner host env now v s service callerSub req)) running"
proof -
  assume i: "vault_inv host env v running"
  obtain v1 r where k: "getKEK host env v = (v1, r)" by force
  then have "vault_inv host env v1 running" using inv_getKEK [OF i] by simp
  then show ?thesis using i by (auto simp: proxyRequestInner_def Let_def k split: option.split sum.split)
qed

lemma inv_proxy:
  assumes i: "vault_inv host env v running" and p: "proxy_begin host env rnd now v s service callerSub req = (v', audit, r)"
  shows "vault_inv host env v' (case r of Proxy_forwarding _ \<Rightarrow> s # running | _ \<Rightarrow> running)"
proof (cases "assertSubjectFp s")
  case None
  let ?v0 = "maybeDevSeed host env rnd now v"
  have i0: "vault_inv host env ?v0 running" by (rule inv_seed [OF i])
  show ?thesis
  proof (cases "checkInflight ?v0 s")
    case True
    obtain v1 b where b: "consumeBudget ?v0 s (COST Proxy_cost) now = (v1, b)" by force
    have i1: "vault_inv host env v1 running" using inv_budget [OF i0] b by (metis fst_conv)
    have "vd_inflight v1 = vd_inflight ?v0" using consumeBudget_frame(2) [of ?v0 s "COST Proxy_cost" now] b by simp
    then have "checkInflight v1 s" using True by (simp add: checkInflight_def)
    then have i2: "vault_inv host env (incInflight v1 s) (s # running)" by (rule inv_inflight(1) [OF i1])
    obtain v2 l q where q: "proxyRequestInner host env now (incInflight v1 s) s service callerSub req = (v2, l, q)" by (metis prod_cases3)
    have i3: "vault_inv host env v2 (s # running)" using inv_inner [OF i2] q by (metis fst_conv)
    then have i4: "vault_inv host env (decInflight v2 s) running" using inv_inflight(2) [OF i3, of s] by simp
    show ?thesis using p None True b q i1 i3 i4 by (cases b; cases q) (auto simp: proxy_begin_def Let_def simp del: list.map)
  qed (use p None i0 in \<open>auto simp: proxy_begin_def Let_def simp del: list.map\<close>)
qed (use i p in \<open>auto simp: proxy_begin_def Let_def simp del: list.map\<close>)

lemma inv_exec:
  assumes "vault_inv host env v running" "enabled running c" "vault_exec host env now v c = (v', r)"
  shows "vault_inv host env v' (next_running running c r)"
proof (cases c)
  case (Call_proxy s service callerSub req rnd)
  obtain audit q where p: "proxy_begin host env rnd now v s service callerSub req = (v', audit, q)" "r = Reply_proxy audit q"
    using assms(3) Call_proxy by (auto split: prod.splits)
  then show ?thesis using inv_proxy [OF assms(1) p(1)] by (cases q) (auto simp: Call_proxy)
next
  case (Call_put s service cred rnd)
  then show ?thesis using inv_put [OF assms(1), of rnd now s service cred] assms(3) by (auto split: prod.splits)
next
  case (Call_metadata s service)
  then show ?thesis using inv_gate [OF assms(1), of s Read_cost now] assms(3)
    by (auto simp: getCredentialMetadata_def split: prod.splits option.splits)
next
  case (Call_delete s service)
  then show ?thesis using inv_gate [OF assms(1), of s Read_cost now] inv_delete assms(3)
    by (fastforce simp: vault_deleteCredential_def Let_def case_prod_unfold split: option.splits)
next
  case (Call_list s)
  then show ?thesis using inv_gate [OF assms(1), of s Read_cost now] assms(3)
    by (auto simp: vault_listServices_def split: prod.splits option.splits)
next
  case (Call_proxy_done s upstream)
  then show ?thesis using inv_inflight(2) [OF assms(1), of s] assms(2,3) by (auto simp: proxy_end_def enabled_def)
qed

lemma vault_reach_inv: "vault_reach host env v running \<Longrightarrow> vault_inv host env v running"
proof (induction rule: vault_reach.induct)
  case (start "table" env)
  then show ?case by (auto simp: vault_inv_def new_CredentialVault_def inflight_ok_def kek_ok_def MAX_INFLIGHT_def)
next
  case (call env v running c now v' r)
  then show ?case using inv_exec by blast
next
  case (restart env v running env')
  then show ?case by (auto simp: vault_inv_def new_CredentialVault_def stored_def inflight_ok_def kek_ok_def MAX_INFLIGHT_def)
qed

text \<open>C17: Under any interleaving of calls, upstream answers and restarts, the object counts exactly the proxies that are
  waiting, never more than sixteen for a subject, keeps no entry for an idle one, and holds one row per subject and service.
\<close>

theorem vault_inflight_exact:
  assumes "vault_reach host env v running"
  shows "nullish (map_of (vd_inflight v) s) 0 = int (count_list running s) \<and> int (count_list running s) \<le> MAX_INFLIGHT \<and>
    (map_of (vd_inflight v) s = None \<longleftrightarrow> s \<notin> set running) \<and> pk_unique cr_key (vd_credentials v)"
  using vault_reach_inv [OF assms] by (auto simp: vault_inv_def inflight_ok_def count_list_0_iff)


section \<open>Stored credentials and denials\<close>

lemma parse_subs_text: "parse_subs (subs_text subs) = Some subs"
proof -
  have "json_parse (json_text (JArr (map JStr subs))) = Some (JArr (map JStr subs))" by (rule json_parse_text) (simp add: list_all_iff)
  then show ?thesis by (simp add: parse_subs_def subs_text_def list_all_iff comp_def del: json_text.simps)
qed

lemma parse_sealed_text: "parse_sealed (sealed_text sealed) = Some sealed"
proof -
  let ?j = "JObj [(js ''wrappedDek'', JStr (se_wrappedDek sealed)), (js ''iv'', JStr (se_iv sealed)), (js ''ciphertext'', JStr (se_ciphertext sealed))]"
  have "json_parse (json_text ?j) = Some ?j" by (rule json_parse_text) simp
  then show ?thesis by (simp add: parse_sealed_def sealed_text_def get_prop_def Let_def del: json_text.simps)
qed

lemma put_ok:
  assumes "putCredential host env rnd now v s service cred = (v1, None)"
  shows "\<exists>vg vk kek. vg = fst (call_gate v s Write_cost now) \<and> getKEK host env vg = (vk, Inr kek) \<and>
    v1 = vk\<lparr>vd_credentials := upsert cr_key \<lparr>cr_subject_fp = s, cr_service = service, cr_upstream = sc_upstream cred,
      cr_sealed_headers = sealed_text (encrypt (vh_aes host) rnd (sc_headers cred) kek),
      cr_allowed_subs_json = subs_text (sc_allowedSubs cred)\<rparr> (vd_credentials vk)\<rparr>"
proof -
  obtain vg g where g: "call_gate v s Write_cost now = (vg, g)" by force
  obtain vk r where k: "getKEK host env vg = (vk, r)" by force
  show ?thesis using assms g k by (cases g; cases r) (auto simp: putCredential_def writeRow_def Let_def split: option.splits)
qed

lemma put_state:
  assumes "putCredential host env rnd now v s service cred = (v1, None)"
  shows "\<exists>kek. vd_kek v1 = Some kek" "vd_rate_buckets v1 = vd_rate_buckets (fst (call_gate v s Write_cost now))"
    "\<exists>row. lookup_pk cr_key (s, service) (vd_credentials v1) = Some row \<and> cr_allowed_subs_json row = subs_text (sc_allowedSubs cred)"
proof -
  obtain vk kek where g: "getKEK host env (fst (call_gate v s Write_cost now)) = (vk, Inr kek)"
    and v1: "v1 = vk\<lparr>vd_credentials := upsert cr_key \<lparr>cr_subject_fp = s, cr_service = service, cr_upstream = sc_upstream cred,
      cr_sealed_headers = sealed_text (encrypt (vh_aes host) rnd (sc_headers cred) kek),
      cr_allowed_subs_json = subs_text (sc_allowedSubs cred)\<rparr> (vd_credentials vk)\<rparr>"
    using put_ok [OF assms] by blast
  show "\<exists>kek. vd_kek v1 = Some kek" using getKEK_memo [OF g] v1 by simp
  have "vd_rate_buckets vk = vd_rate_buckets (fst (call_gate v s Write_cost now))" using getKEK_frame(2) g by (metis fst_conv)
  then show "vd_rate_buckets v1 = vd_rate_buckets (fst (call_gate v s Write_cost now))" by (simp add: v1)
  show "\<exists>row. lookup_pk cr_key (s, service) (vd_credentials v1) = Some row \<and> cr_allowed_subs_json row = subs_text (sc_allowedSubs cred)"
    by (simp add: v1 table_simps cr_key_def)
qed

lemma getKEK_after_restart:
  assumes "kek_ok host env v" "vd_kek v = Some k"
  shows "snd (getKEK host env (new_CredentialVault (stored v))) = Inr k"
  using assms by (auto simp: kek_ok_def getKEK_def assertKekSourceSpecPinned_def new_CredentialVault_def stored_def Let_def)

lemma inner_forwards:
  assumes row: "lookup_pk cr_key (s, service) (vd_credentials v) = Some row" and subs: "parse_subs (cr_allowed_subs_json row) = Some subs"
    and acc: "checkAccess subs callerSub" and key: "snd (getKEK host env v) = Inr kek"
    and hs: "Option.bind (parse_sealed (cr_sealed_headers row)) (\<lambda>sealed. decrypt (vh_aes host) sealed kek) = Some headers"
  shows "snd (snd (proxyRequestInner host env now v s service callerSub req)) =
    (case buildProxyRequest (vh_parse_url host) req \<lparr>sc_upstream = cr_upstream row, sc_headers = headers, sc_allowedSubs = subs\<rparr> of
       None \<Rightarrow> Proxy_threw Proxy_unbuildable | Some out \<Rightarrow> Proxy_forwarding out)"
proof -
  obtain v1 where "getKEK host env v = (v1, Inr kek)" using key by (metis prod.collapse)
  then show ?thesis using row subs acc hs by (auto simp: proxyRequestInner_def Let_def split: option.split)
qed

lemma put_then_inner:
  assumes "\<And>k iv p. aes_decrypt (vh_aes host) k iv (aes_encrypt (vh_aes host) k iv p) = Some p"
    and "length (rnd_wrapIv rnd) = 12" "distinct (map fst (sc_headers cred))"
    and "putCredential host env rnd now v s service cred = (v1, None)" "checkAccess (sc_allowedSubs cred) callerSub"
    and "vd_credentials v2 = vd_credentials v1" "vd_kek v1 = Some kek" "snd (getKEK host env v2) = Inr kek"
  shows "snd (snd (proxyRequestInner host env now2 v2 s service callerSub req)) =
    (case buildProxyRequest (vh_parse_url host) req cred of None \<Rightarrow> Proxy_threw Proxy_unbuildable | Some out \<Rightarrow> Proxy_forwarding out)"
proof -
  obtain vg vk kek' where g: "getKEK host env vg = (vk, Inr kek')"
    and v1: "v1 = vk\<lparr>vd_credentials := upsert cr_key \<lparr>cr_subject_fp = s, cr_service = service, cr_upstream = sc_upstream cred,
      cr_sealed_headers = sealed_text (encrypt (vh_aes host) rnd (sc_headers cred) kek'),
      cr_allowed_subs_json = subs_text (sc_allowedSubs cred)\<rparr> (vd_credentials vk)\<rparr>"
    using put_ok [OF assms(4)] by blast
  let ?row = "\<lparr>cr_subject_fp = s, cr_service = service, cr_upstream = sc_upstream cred,
      cr_sealed_headers = sealed_text (encrypt (vh_aes host) rnd (sc_headers cred) kek'),
      cr_allowed_subs_json = subs_text (sc_allowedSubs cred)\<rparr>"
  have "kek' = kek" using getKEK_memo [OF g] v1 assms(7) by simp
  then have "Option.bind (parse_sealed (cr_sealed_headers ?row)) (\<lambda>sealed. decrypt (vh_aes host) sealed kek) = Some (sc_headers cred)"
    using decrypt_encrypt [OF assms(1-3)] by (simp add: parse_sealed_text)
  moreover have "lookup_pk cr_key (s, service) (vd_credentials v2) = Some ?row" by (simp add: assms(6) v1 table_simps cr_key_def)
  ultimately show ?thesis using inner_forwards [OF _ _ assms(5,8), of s service ?row] by (cases cred) (simp add: parse_subs_text)
qed

text \<open>C16: A stored credential is usable: for an allowed caller the admitted request goes to the stored upstream with the
  stored headers decrypted, at once or after the object was restarted under the same configuration.
\<close>

theorem stored_credential_usable:
  assumes "\<And>k iv p. aes_decrypt (vh_aes host) k iv (aes_encrypt (vh_aes host) k iv p) = Some p"
    and "length (rnd_wrapIv rnd) = 12" "distinct (map fst (sc_headers cred))"
    and "vault_reach host env v running" "putCredential host env rnd now v s service cred = (v1, None)"
    and "checkAccess (sc_allowedSubs cred) callerSub" "v2 = v1 \<or> v2 = new_CredentialVault (stored v1)"
  shows "snd (snd (proxyRequestInner host env now2 v2 s service callerSub req)) =
    (case buildProxyRequest (vh_parse_url host) req cred of None \<Rightarrow> Proxy_threw Proxy_unbuildable | Some out \<Rightarrow> Proxy_forwarding out)"
proof -
  have ok: "kek_ok host env v1"
    using inv_put [OF vault_reach_inv [OF assms(4)], of rnd now s service cred] assms(5) by (simp add: vault_inv_def)
  obtain kek where memo: "vd_kek v1 = Some kek" using put_state(1) [OF assms(5)] by blast
  have "snd (getKEK host env v2) = Inr kek" using assms(7) getKEK_after_restart [OF ok memo] memo by (auto simp: getKEK_def)
  moreover have "vd_credentials v2 = vd_credentials v1" using assms(7) by (auto simp: new_CredentialVault_def stored_def)
  ultimately show ?thesis by (intro put_then_inner [OF assms(1-3,5,6) _ memo])
qed

lemma proxy_begin_authorised:
  assumes "proxy_begin host env rnd now v s service callerSub req = (v', audit, Proxy_forwarding out)" "ve_CLOISTER_MODE env \<noteq> Some (js ''dev'')"
  shows "\<exists>row subs kek headers. lookup_pk cr_key (s, service) (vd_credentials v) = Some row \<and>
    parse_subs (cr_allowed_subs_json row) = Some subs \<and> checkAccess subs callerSub \<and> vd_kek v' = Some kek \<and>
    Option.bind (parse_sealed (cr_sealed_headers row)) (\<lambda>sealed. decrypt (vh_aes host) sealed kek) = Some headers \<and>
    buildProxyRequest (vh_parse_url host) req \<lparr>sc_upstream = cr_upstream row, sc_headers = headers, sc_allowedSubs = subs\<rparr> = Some out"
proof -
  let ?v0 = "maybeDevSeed host env rnd now v"
  obtain v1 b where b: "consumeBudget ?v0 s (COST Proxy_cost) now = (v1, b)" by force
  obtain v2 l q where q: "proxyRequestInner host env now (incInflight v1 s) s service callerSub req = (v2, l, q)" by (metis prod_cases3)
  have out: "q = Proxy_forwarding out" "v' = v2" using assms(1) b q
    by (cases b; cases q; auto simp: proxy_begin_def Let_def simp del: list.map split: option.splits if_splits)+
  have "vd_credentials (incInflight v1 s) = vd_credentials v"
  proof -
    have "vd_credentials v1 = vd_credentials ?v0" using consumeBudget_frame(1) b by (metis fst_conv)
    then show ?thesis by (simp add: no_seed [OF assms(2)])
  qed
  moreover obtain v3 r where k: "getKEK host env (incInflight v1 s) = (v3, r)" by force
  ultimately show ?thesis using q out getKEK_memo [of host env "incInflight v1 s" v3]
    by (cases r) (auto simp: proxyRequestInner_def Let_def simp del: list.map split: option.splits if_splits)
qed

text \<open>Outside development mode a request leaves the vault only for a stored row of the subject and service whose
  patterns admit the caller, and carries that row's decrypted headers.
\<close>

theorem forwarded_only_if_allowed:
  assumes "proxy_begin host env rnd now v s service callerSub req = (v', audit, Proxy_forwarding out)" "ve_CLOISTER_MODE env \<noteq> Some (js ''dev'')"
  shows "\<exists>row subs kek headers. lookup_pk cr_key (s, service) (vd_credentials v) = Some row \<and>
    parse_subs (cr_allowed_subs_json row) = Some subs \<and> checkAccess subs callerSub \<and> vd_kek v' = Some kek \<and>
    Option.bind (parse_sealed (cr_sealed_headers row)) (\<lambda>sealed. decrypt (vh_aes host) sealed kek) = Some headers \<and>
    buildProxyRequest (vh_parse_url host) req \<lparr>sc_upstream = cr_upstream row, sc_headers = headers, sc_allowedSubs = subs\<rparr> = Some out"
  by (rule proxy_begin_authorised [OF assms])

text \<open>A caller cannot tell a service that is not stored from one it may not use: the two answers are the same
  response and change nothing, while the audit records differ.
\<close>

theorem vault_denials_indistinguishable:
  assumes "lookup_pk cr_key (s, service) (vd_credentials v1) = None"
    and "lookup_pk cr_key (s, service) (vd_credentials v2) = Some row" "parse_subs (cr_allowed_subs_json row) = Some subs" "\<not> checkAccess subs callerSub"
  shows "\<exists>reply a1 a2. proxyRequestInner host env now v1 s service callerSub req = (v1, [a1], Proxy_reply reply) \<and>
    proxyRequestInner host env now v2 s service callerSub req' = (v2, [a2], Proxy_reply reply) \<and>
    da_event a1 = Credential_missing \<and> da_event a2 = Credential_denied"
  using assms by (auto simp: proxyRequestInner_def Let_def buildDenialAuditEntry_def)


section \<open>The pinned key source\<close>

text \<open>No key is at hand, and the pins name another source or another scope than the environment.\<close>

definition locked :: "vault_env \<Rightarrow> vault_do \<Rightarrow> bool" where
  "locked env v \<longleftrightarrow> vd_kek v = None \<and> (\<exists>spec. map_of (vd_vault_state v) kek_source_key = Some spec \<and>
     (spec \<noteq> currentSpec env \<or> map_of (vd_vault_state v) kek_scoped_key \<noteq> Some (scoped_flag env)))"

fun vault_run :: "vault_host \<Rightarrow> vault_env \<Rightarrow> vault_do \<Rightarrow> (int \<times> vault_call) list \<Rightarrow> vault_do \<times> vault_reply list" where
  "vault_run host env v [] = (v, [])"
| "vault_run host env v ((now, c) # cs) =
     (case vault_exec host env now v c of (v1, r) \<Rightarrow> case vault_run host env v1 cs of (v2, rs) \<Rightarrow> (v2, r # rs))"

text \<open>A reply that shows the key in use: a credential stored or a request sent upstream.\<close>

definition used_key :: "vault_reply \<Rightarrow> bool" where
  "used_key r = (case r of Reply_put None \<Rightarrow> True | Reply_proxy _ (Proxy_forwarding _) \<Rightarrow> True | _ \<Rightarrow> False)"

lemma locked_getKEK: "locked env v \<Longrightarrow> \<exists>e. getKEK host env v = (v, Inl e)"
  by (auto simp: locked_def getKEK_def assertKekSourceSpecPinned_def Let_def)

lemma locked_cong: "vd_kek v' = vd_kek v \<Longrightarrow> vd_vault_state v' = vd_vault_state v \<Longrightarrow> locked env v' \<longleftrightarrow> locked env v"
  by (simp add: locked_def)

lemma locked_budget: "locked env (fst (consumeBudget v s c now)) \<longleftrightarrow> locked env v"
  by (rule locked_cong) simp_all

lemma locked_gate: "locked env (fst (call_gate v s op now)) \<longleftrightarrow> locked env v"
  using call_gate_state [of v s op now] by (auto simp: locked_budget)

lemma gate_rows: "vd_credentials (fst (call_gate v s op now)) = vd_credentials v"
  using call_gate_state [of v s op now] by auto

lemma locked_put:
  assumes "locked env v"
  shows "locked env (fst (putCredential host env rnd now v s service cred)) \<and> snd (putCredential host env rnd now v s service cred) \<noteq> None \<and>
    vd_credentials (fst (putCredential host env rnd now v s service cred)) = vd_credentials v"
proof -
  obtain vg g where g: "call_gate v s Write_cost now = (vg, g)" by force
  have l: "locked env vg" using locked_gate [of env v s Write_cost now] g assms by simp
  then obtain e where "getKEK host env vg = (vg, Inl e)" using locked_getKEK by blast
  moreover have "vd_credentials vg = vd_credentials v" using gate_rows [of v s Write_cost now] g by simp
  ultimately show ?thesis using l g by (cases g) (auto simp: putCredential_def writeRow_def split: option.split)
qed

lemma locked_seed: "locked env v \<Longrightarrow> locked env (maybeDevSeed host env rnd now v) \<and> vd_credentials (maybeDevSeed host env rnd now v) = vd_credentials v"
proof -
  assume l: "locked env v"
  then have "locked env (v\<lparr>vd_devSeeded := True\<rparr>)" by (simp add: locked_def)
  from locked_put [OF this] l this show ?thesis by (auto simp: maybeDevSeed_def Let_def simp del: list.map split: option.split)
qed

lemma locked_inner:
  assumes "locked env v"
  shows "fst (proxyRequestInner host env now v s service callerSub req) = v \<and>
    (\<forall>out. snd (snd (proxyRequestInner host env now v s service callerSub req)) \<noteq> Proxy_forwarding out)"
proof -
  obtain e where "getKEK host env v = (v, Inl e)" using locked_getKEK [OF assms] by blast
  then show ?thesis by (auto simp: proxyRequestInner_def Let_def split: option.split)
qed

lemma locked_proxy:
  assumes "locked env v" "proxy_begin host env rnd now v s service callerSub req = (v', audit, r)"
  shows "locked env v' \<and> (\<forall>out. r \<noteq> Proxy_forwarding out) \<and> vd_credentials v' = vd_credentials v"
proof -
  let ?v0 = "maybeDevSeed host env rnd now v"
  have l0: "locked env ?v0" "vd_credentials ?v0 = vd_credentials v" using locked_seed [OF assms(1)] by auto
  obtain v1 b where b: "consumeBudget ?v0 s (COST Proxy_cost) now = (v1, b)" by force
  have l1: "locked env v1" "vd_credentials v1 = vd_credentials v"
    using locked_budget [of env ?v0 s "COST Proxy_cost" now] consumeBudget_frame(1) [of ?v0 s "COST Proxy_cost" now] l0 b by auto
  have l2: "locked env (incInflight v1 s)" "locked env (decInflight (incInflight v1 s) s)" using l1(1) by (simp_all add: locked_def)
  obtain l q where q: "proxyRequestInner host env now (incInflight v1 s) s service callerSub req = (incInflight v1 s, l, q)" "\<forall>out. q \<noteq> Proxy_forwarding out"
    using locked_inner [OF l2(1), of host now s service callerSub req] by (metis prod.collapse)
  show ?thesis using assms l0 l1 l2 b q
    by (cases b; cases q) (auto simp: proxy_begin_def Let_def simp del: list.map split: option.splits if_splits)
qed

lemma locked_exec:
  assumes "locked env v" "vault_exec host env now v c = (v', r)"
  shows "locked env v' \<and> \<not> used_key r \<and> set (vd_credentials v') \<subseteq> set (vd_credentials v)"
proof (cases c)
  case (Call_put s service cred rnd)
  then show ?thesis using locked_put [OF assms(1), of host rnd now s service cred] assms(2) by (auto simp: used_key_def split: prod.splits option.splits)
next
  case (Call_metadata s service)
  then show ?thesis using assms locked_gate [of env v s Read_cost now] gate_rows [of v s Read_cost now]
    by (auto simp: getCredentialMetadata_def used_key_def split: prod.splits option.splits)
next
  case (Call_delete s service)
  then show ?thesis using assms locked_gate [of env v s Read_cost now] gate_rows [of v s Read_cost now]
    by (auto simp: vault_deleteCredential_def used_key_def deleteRow_def delete_where_def locked_def split: prod.splits option.splits)
next
  case (Call_list s)
  then show ?thesis using assms locked_gate [of env v s Read_cost now] gate_rows [of v s Read_cost now]
    by (auto simp: vault_listServices_def used_key_def split: prod.splits option.splits)
next
  case (Call_proxy s service callerSub req rnd)
  then obtain audit q where "proxy_begin host env rnd now v s service callerSub req = (v', audit, q)" "r = Reply_proxy audit q"
    using assms(2) by (auto split: prod.splits)
  then show ?thesis using locked_proxy [OF assms(1)] by (auto simp: used_key_def split: proxy_result.split)
next
  case (Call_proxy_done s upstream)
  then show ?thesis using assms by (auto simp: proxy_end_def used_key_def locked_def)
qed

lemma locked_run:
  "locked env v \<Longrightarrow> vault_run host env v cs = (v', rs) \<Longrightarrow> list_all (\<lambda>r. \<not> used_key r) rs \<and> set (vd_credentials v') \<subseteq> set (vd_credentials v)"
proof (induction cs arbitrary: v rs)
  case (Cons p cs)
  obtain now c where p: "p = (now, c)" by force
  obtain v1 r where e: "vault_exec host env now v c = (v1, r)" by force
  obtain rs' where t: "vault_run host env v1 cs = (v', rs')" "rs = r # rs'" using Cons.prems(2) p e by (auto split: prod.splits)
  have l: "locked env v1" "\<not> used_key r" "set (vd_credentials v1) \<subseteq> set (vd_credentials v)" using locked_exec [OF Cons.prems(1) e] by auto
  show ?case using Cons.IH [OF l(1) t(1)] l(2,3) t(2) by auto
qed simp

text \<open>Once a key has been derived, an instance started with another key source or another tenant scope stores no
  credential and sends no request, whatever it is asked; it can only delete rows.
\<close>

theorem kek_change_refused:
  assumes "vault_reach host env v running" "vd_kek v = Some k"
    and "currentSpec env' \<noteq> currentSpec env \<or> scoped_flag env' \<noteq> scoped_flag env"
    and "vault_run host env' (new_CredentialVault (stored v)) cs = (v', rs)"
  shows "list_all (\<lambda>r. \<not> used_key r) rs \<and> set (vd_credentials v') \<subseteq> set (vd_credentials v)"
proof -
  have "locked env' (new_CredentialVault (stored v))"
    using vault_reach_inv [OF assms(1)] assms(2,3) by (auto simp: vault_inv_def kek_ok_def locked_def new_CredentialVault_def stored_def)
  from locked_run [OF this assms(4)] show ?thesis by (simp add: new_CredentialVault_def stored_def)
qed

text \<open>A first use with the key source unset pins the empty source: afterwards no instance with a configured source
  stores a credential or sends a request.
\<close>

theorem unset_source_locks_vault:
  assumes "map_of (vd_vault_state v) kek_source_key = None" "map_of (vd_vault_state v) kek_scoped_key = None" "vd_kek v = None"
    and "currentSpec env = []" "getKEK host env v = (v1, r)"
    and "currentSpec env' \<noteq> []" "vault_run host env' (new_CredentialVault (stored v1)) cs = (v', rs)"
  shows "r = Inl (Kek_failed Source_unset) \<and> list_all (\<lambda>r. \<not> used_key r) rs"
proof -
  have v1: "r = Inl (Kek_failed Source_unset)" "vd_vault_state v1 = vd_vault_state v @ [(kek_source_key, []), (kek_scoped_key, scoped_flag env)]"
  proof -
    have "kek_source_key \<notin> fst ` set (vd_vault_state v)" "kek_scoped_key \<notin> fst ` set (vd_vault_state v)"
      using assms(1,2) by (simp_all add: map_of_eq_None_iff)
    then show "r = Inl (Kek_failed Source_unset)" "vd_vault_state v1 = vd_vault_state v @ [(kek_source_key, []), (kek_scoped_key, scoped_flag env)]"
      using assms(1,3-5) by (auto simp: getKEK_def assertKekSourceSpecPinned_def Let_def insert_row_def resolveKekSource_def)
  qed
  then have "locked env' (new_CredentialVault (stored v1))"
    using assms(1,6) by (auto simp: locked_def new_CredentialVault_def stored_def map_add_def)
  from locked_run [OF this assms(7)] v1(1) show ?thesis by simp
qed

text \<open>After the documented rotation step (deleting the \<open>kek_source\<close> row only) the next derivation fails on the row
  left behind; where the tenant scope was to change, the vault stays locked for good.
\<close>

theorem documented_rotation_fails:
  assumes "map_of (vd_vault_state v) kek_scoped_key = Some flag" "vd_kek v = None"
    and "getKEK host env (v\<lparr>vd_vault_state := fst (delete_where (\<lambda>p. fst p = kek_source_key) (vd_vault_state v))\<rparr>) = (v1, r)"
  shows "r = Inl State_conflict \<and>
    (flag \<noteq> scoped_flag env \<longrightarrow>
       list_all (\<lambda>r. \<not> used_key r) (snd (vault_run host env (new_CredentialVault (stored v1)) cs)))"
proof -
  let ?t = "filter (\<lambda>p. fst p \<noteq> kek_source_key) (vd_vault_state v)"
  have s: "map_of ?t kek_source_key = None" "map_of ?t kek_scoped_key = Some flag"
    using assms(1) map_of_filter_key [of "\<lambda>k. k \<noteq> kek_source_key" "vd_vault_state v"] by simp_all
  have d: "fst (delete_where (\<lambda>p. fst p = kek_source_key) (vd_vault_state v)) = ?t" by (simp add: delete_where_def)
  have src: "kek_source_key \<notin> fst ` set ?t" using s(1) by (simp add: map_of_eq_None_iff)
  have sc: "kek_scoped_key \<in> fst ` set ?t" using s(2) by (metis map_of_eq_None_iff option.distinct(1))
  have v1: "r = Inl State_conflict" "vd_vault_state v1 = ?t @ [(kek_source_key, currentSpec env)]"
    using assms(2,3) s(1) src sc by (auto simp: getKEK_def assertKekSourceSpecPinned_def Let_def insert_row_def d)
  have "locked env (new_CredentialVault (stored v1))" if "flag \<noteq> scoped_flag env"
    using that s v1(2) by (auto simp: locked_def new_CredentialVault_def stored_def map_add_def)
  then show ?thesis using locked_run [of env "new_CredentialVault (stored v1)" host cs] v1(1) by (metis prod.collapse)
qed


section \<open>Instances\<close>

definition vault_sample_host :: vault_host where
  "vault_sample_host = \<lparr>vh_aes = \<lparr>aes_encrypt = (\<lambda>_ _ p. p), aes_decrypt = (\<lambda>_ _ c. Some c)\<rparr>, vh_hkdf = (\<lambda>_ _ ikm. ikm),
     vh_parse_url = (\<lambda>s. Some \<lparr>u_protocol = js ''https:'', u_username = [], u_password = [], u_hostname = s, u_pathname = js ''/'', u_params = []\<rparr>)\<rparr>"

definition vault_sample_env :: vault_env where
  "vault_sample_env = \<lparr>ve_kek = \<lparr>ke_vars = (\<lambda>_. Some (js ''k'')), ke_disk = None, ke_helper = None\<rparr>, ve_VAULT_KEK_SOURCE = Some (js ''env://K''),
     ve_VAULT_KEK_TENANT_SCOPED = None, ve_CLOISTER_MODE = None, ve_DEV_VAULT_SEED = None, ve_id_name = None\<rparr>"

definition vault_sample_rnd :: seal_random where
  "vault_sample_rnd = \<lparr>rnd_dek = replicate 32 1, rnd_iv = replicate 12 2, rnd_wrapIv = replicate 12 3\<rparr>"

definition vault_sample_cred :: storedCredential where
  "vault_sample_cred = \<lparr>sc_upstream = js ''u'', sc_headers = [(js ''apiKey'', js ''v'')], sc_allowedSubs = [js ''s*'']\<rparr>"

definition vault_sample_request :: web_request where
  "vault_sample_request = \<lparr>wr_method = js ''GET'', wr_url = js ''i'', wr_headers = [], wr_body = []\<rparr>"

definition vault_sample_empty :: vault_do where
  "vault_sample_empty = new_CredentialVault \<lparr>vs_credentials = Absent_table, vs_rate_buckets = [], vs_vault_state = []\<rparr>"

definition vault_sample_full :: vault_do where
  "vault_sample_full = fst (putCredential vault_sample_host vault_sample_env vault_sample_rnd 0 vault_sample_empty (js ''s1'') (js ''svc'') vault_sample_cred)"

lemma sample_env_facts:
  "currentSpec vault_sample_env = js ''env://K''" "tenantScoped vault_sample_env = False"
  "resolveKekSource vault_sample_host vault_sample_env = Inr (js ''k'')"
  by (simp_all add: currentSpec_def vault_sample_env_def js_trim_def js_space_def Let_def tenantScoped_def resolveKekSource_def
      buildKekSource_def starts_with_def new_EnvKekSource_def alnum_def is_upper_def is_lower_def dec_digit_def kek_resolve_def)

lemma sample_payload: "validateCredentialPayload vault_sample_cred = None"
  by (simp add: validateCredentialPayload_def vault_sample_cred_def MAX_HEADER_COUNT_def MAX_HEADER_KEY_BYTES_def MAX_HEADER_VALUE_BYTES_def
      MAX_TOTAL_HEADERS_BYTES_def MAX_ALLOWED_SUBS_COUNT_def MAX_ALLOWED_SUB_BYTES_def byteLength_def utf8_encode_ascii)

lemma sample_put:
  "putCredential vault_sample_host vault_sample_env vault_sample_rnd 0 vault_sample_empty (js ''s1'') (js ''svc'') vault_sample_cred = (vault_sample_full, None)"
proof -
  have "assertSubjectFp (js ''s1'') = None" by (simp add: assertSubjectFp_def is_control_def)
  then have "snd (putCredential vault_sample_host vault_sample_env vault_sample_rnd 0 vault_sample_empty (js ''s1'') (js ''svc'') vault_sample_cred) = None"
    by (simp add: putCredential_def call_gate_def consumeBudget_def vault_sample_empty_def new_CredentialVault_def refillBucket_def refill_with_def
        tryConsume_def consume_with_def RATE_LIMITS_def COST_def sample_payload writeRow_def getKEK_def assertKekSourceSpecPinned_def
        insert_row_def sample_env_facts upsert_def Let_def del: list.map)
  then show ?thesis unfolding vault_sample_full_def by (metis prod.collapse)
qed

lemma sample_reach_empty: "vault_reach vault_sample_host vault_sample_env vault_sample_empty []"
  unfolding vault_sample_empty_def by (rule vault_reach.start) simp

lemma sample_reach: "vault_reach vault_sample_host vault_sample_env vault_sample_full []"
  using vault_reach.call [OF sample_reach_empty, of "Call_put (js ''s1'') (js ''svc'') vault_sample_cred vault_sample_rnd" 0] sample_put
  by (simp add: enabled_def del: list.map)

lemma sample_access: "checkAccess (sc_allowedSubs vault_sample_cred) (js ''s1'')"
  by (simp add: checkAccess_def vault_sample_cred_def globMatch_def starts_with_def is_control_def)


lemma sample_memo: "\<exists>kek. vd_kek vault_sample_full = Some kek"
  by (rule put_state(1) [OF sample_put])

lemma sample_build: "\<exists>out. buildProxyRequest (vh_parse_url vault_sample_host) vault_sample_request vault_sample_cred = Some out"
  by (simp add: buildProxyRequest_def vault_sample_host_def vault_sample_request_def vault_sample_cred_def headers_set_def Let_def
      token_char_def alnum_def is_lower_def is_upper_def http_trim_def http_ws_def copy_headers_def)

lemma sample_wrapped: "length (rnd_wrapIv vault_sample_rnd) = 12" "distinct (map fst (sc_headers vault_sample_cred))"
  "aes_decrypt (vh_aes vault_sample_host) k iv (aes_encrypt (vh_aes vault_sample_host) k iv p) = Some p"
  by (simp_all add: vault_sample_rnd_def vault_sample_cred_def vault_sample_host_def)

theorem vault_subjects_isolated_witness:
  "subject_view (js ''s1'') (fst (vault_exec vault_sample_host vault_sample_env 5 vault_sample_full (Call_delete (js ''s2'') (js ''svc'')))) =
   subject_view (js ''s1'') vault_sample_full"
  by (rule vault_subjects_isolated) (simp_all add: vault_sample_env_def)

theorem stored_credential_usable_witness:
  "\<exists>out. snd (snd (proxyRequestInner vault_sample_host vault_sample_env 9 (new_CredentialVault (stored vault_sample_full))
     (js ''s1'') (js ''svc'') (js ''s1'') vault_sample_request)) = Proxy_forwarding out"
proof -
  note use = stored_credential_usable [OF sample_wrapped(3,1,2) sample_reach_empty sample_put sample_access disjI2 [OF refl]]
  show ?thesis using sample_build unfolding use by (elim exE) (simp only: option.case, blast)
qed

lemma sample_buckets: "vd_rate_buckets vault_sample_full = [\<lparr>br_subject_fp = js ''s1'', br_bucket = \<lparr>tokens = 97, lastRefillMs = 0\<rparr>\<rparr>]"
proof -
  have "vd_rate_buckets vault_sample_full = vd_rate_buckets (fst (call_gate vault_sample_empty (js ''s1'') Write_cost 0))"
    by (rule put_state(2) [OF sample_put])
  moreover have "assertSubjectFp (js ''s1'') = None" by (simp add: assertSubjectFp_def is_control_def)
  ultimately show ?thesis
    by (simp add: call_gate_def consumeBudget_def vault_sample_empty_def new_CredentialVault_def refillBucket_def refill_with_def
        tryConsume_def consume_with_def RATE_LIMITS_def COST_def upsert_def Let_def del: list.map)
qed

lemma sample_idle: "vd_inflight vault_sample_full = []"
proof -
  have "map_of (vd_inflight vault_sample_full) s = None" for s using vault_reach_inv [OF sample_reach] by (simp add: vault_inv_def inflight_ok_def)
  then have "map_of (vd_inflight vault_sample_full) = Map.empty" by (rule ext)
  then show ?thesis by simp
qed

lemma sample_proxy_at:
  assumes "0 \<le> now" and out: "buildProxyRequest (vh_parse_url vault_sample_host) req vault_sample_cred = Some out"
  shows "\<exists>v' audit. proxy_begin vault_sample_host vault_sample_env vault_sample_rnd now vault_sample_full (js ''s1'') (js ''svc'') (js ''s1'')
     req = (v', audit, Proxy_forwarding out)"
proof -
  let ?v0 = "maybeDevSeed vault_sample_host vault_sample_env vault_sample_rnd now vault_sample_full"
  have a: "assertSubjectFp (js ''s1'') = None" by (simp add: assertSubjectFp_def is_control_def)
  have m: "vd_rate_buckets ?v0 = vd_rate_buckets vault_sample_full" "vd_inflight ?v0 = []" "vd_kek ?v0 = vd_kek vault_sample_full" "vd_credentials ?v0 = vd_credentials vault_sample_full"
    by (simp_all add: no_seed vault_sample_env_def sample_idle)
  then have c: "checkInflight ?v0 (js ''s1'')" by (simp add: checkInflight_def MAX_INFLIGHT_def)
  have "snd (consumeBudget ?v0 (js ''s1'') (COST Proxy_cost) now) = None" using assms(1)
    by (auto simp: consumeBudget_def m sample_buckets refillBucket_def refill_with_def tryConsume_def consume_with_def RATE_LIMITS_def COST_def Let_def min_def simp del: list.map)
  then obtain v1 where b: "consumeBudget ?v0 (js ''s1'') (COST Proxy_cost) now = (v1, None)" by (metis prod.collapse)
  have f: "vd_credentials v1 = vd_credentials vault_sample_full" "vd_kek v1 = vd_kek vault_sample_full"
    using consumeBudget_frame(1,3) b m by (metis fst_conv)+
  obtain kek where k: "vd_kek vault_sample_full = Some kek" using sample_memo by blast
  have "snd (getKEK vault_sample_host vault_sample_env (incInflight v1 (js ''s1''))) = Inr kek" using f k by (simp add: getKEK_def)
  then have i: "snd (snd (proxyRequestInner vault_sample_host vault_sample_env now (incInflight v1 (js ''s1'')) (js ''s1'') (js ''svc'') (js ''s1'') req)) =
      (case buildProxyRequest (vh_parse_url vault_sample_host) req vault_sample_cred of None \<Rightarrow> Proxy_threw Proxy_unbuildable | Some out \<Rightarrow> Proxy_forwarding out)"
    by (intro put_then_inner [OF sample_wrapped(3,1,2) sample_put sample_access _ k]) (simp add: f)
  obtain v2 l where "proxyRequestInner vault_sample_host vault_sample_env now (incInflight v1 (js ''s1'')) (js ''s1'') (js ''svc'') (js ''s1'') req = (v2, l, Proxy_forwarding out)"
    using i out by (metis option.case(2) prod.collapse)
  then show ?thesis using a c b by (simp add: proxy_begin_def Let_def del: list.map)
qed

lemma sample_proxy:
  "\<exists>v' audit out. proxy_begin vault_sample_host vault_sample_env vault_sample_rnd 0 vault_sample_full (js ''s1'') (js ''svc'') (js ''s1'')
     vault_sample_request = (v', audit, Proxy_forwarding out)"
  using sample_build sample_proxy_at [of 0 vault_sample_request] by blast

theorem forwarded_only_if_allowed_witness:
  "\<exists>row subs. lookup_pk cr_key (js ''s1'', js ''svc'') (vd_credentials vault_sample_full) = Some row \<and>
     parse_subs (cr_allowed_subs_json row) = Some subs \<and> checkAccess subs (js ''s1'')"
proof -
  obtain v' audit out where p: "proxy_begin vault_sample_host vault_sample_env vault_sample_rnd 0 vault_sample_full (js ''s1'') (js ''svc'') (js ''s1'')
     vault_sample_request = (v', audit, Proxy_forwarding out)" using sample_proxy by blast
  show ?thesis using forwarded_only_if_allowed [OF p] by (auto simp: vault_sample_env_def simp del: list.map)
qed

theorem vault_inflight_exact_witness:
  "\<exists>v'. vault_reach vault_sample_host vault_sample_env v' [js ''s1''] \<and> map_of (vd_inflight v') (js ''s1'') = Some 1"
proof -
  obtain v' audit out where p: "proxy_begin vault_sample_host vault_sample_env vault_sample_rnd 0 vault_sample_full (js ''s1'') (js ''svc'') (js ''s1'')
     vault_sample_request = (v', audit, Proxy_forwarding out)" using sample_proxy by blast
  have r: "vault_reach vault_sample_host vault_sample_env v' [js ''s1'']"
    using vault_reach.call [OF sample_reach, of "Call_proxy (js ''s1'') (js ''svc'') (js ''s1'') vault_sample_request vault_sample_rnd" 0] p
    by (simp add: enabled_def del: list.map)
  then have "nullish (map_of (vd_inflight v') (js ''s1'')) 0 = 1" "map_of (vd_inflight v') (js ''s1'') \<noteq> None"
    using vault_inflight_exact [OF r, of "js ''s1''"] by auto
  then show ?thesis using r by auto
qed

theorem vault_denials_indistinguishable_witness:
  "\<exists>reply a1 a2. proxyRequestInner vault_sample_host vault_sample_env 0 vault_sample_empty (js ''s1'') (js ''svc'') (js ''x'') vault_sample_request = (vault_sample_empty, [a1], Proxy_reply reply) \<and>
    proxyRequestInner vault_sample_host vault_sample_env 0 vault_sample_full (js ''s1'') (js ''svc'') (js ''x'') vault_sample_request = (vault_sample_full, [a2], Proxy_reply reply) \<and>
    da_event a1 = Credential_missing \<and> da_event a2 = Credential_denied"
proof -
  obtain row where "lookup_pk cr_key (js ''s1'', js ''svc'') (vd_credentials vault_sample_full) = Some row" "cr_allowed_subs_json row = subs_text (sc_allowedSubs vault_sample_cred)"
    using put_state(3) [OF sample_put] by blast
  moreover have "\<not> checkAccess (sc_allowedSubs vault_sample_cred) (js ''x'')"
    by (simp add: checkAccess_def vault_sample_cred_def globMatch_def starts_with_def is_control_def)
  moreover have "lookup_pk cr_key (js ''s1'', js ''svc'') (vd_credentials vault_sample_empty) = None" by (simp add: vault_sample_empty_def new_CredentialVault_def)
  ultimately show ?thesis using vault_denials_indistinguishable parse_subs_text by metis
qed

definition other_source :: vault_env where
  "other_source = vault_sample_env\<lparr>ve_VAULT_KEK_SOURCE := Some (js ''env://L'')\<rparr>"

definition no_source :: vault_env where
  "no_source = vault_sample_env\<lparr>ve_VAULT_KEK_SOURCE := None\<rparr>"

lemma other_source_spec: "currentSpec other_source = js ''env://L''"
  by (simp add: currentSpec_def other_source_def js_trim_def js_space_def Let_def)

theorem kek_change_refused_witness:
  "list_all (\<lambda>r. \<not> used_key r) (snd (vault_run vault_sample_host other_source (new_CredentialVault (stored vault_sample_full))
     [(5, Call_put (js ''s2'') (js ''svc'') vault_sample_cred vault_sample_rnd)]))"
proof -
  obtain kek where k: "vd_kek vault_sample_full = Some kek" using sample_memo by blast
  have "currentSpec other_source \<noteq> currentSpec vault_sample_env \<or> scoped_flag other_source \<noteq> scoped_flag vault_sample_env"
    using other_source_spec sample_env_facts by simp
  from kek_change_refused [OF sample_reach k this surjective_pairing] show ?thesis by blast
qed

theorem unset_source_locks_vault_witness:
  "snd (getKEK vault_sample_host no_source vault_sample_empty) = Inl (Kek_failed Source_unset) \<and>
   list_all (\<lambda>r. \<not> used_key r) (snd (vault_run vault_sample_host vault_sample_env
     (new_CredentialVault (stored (fst (getKEK vault_sample_host no_source vault_sample_empty))))
     [(5, Call_put (js ''s2'') (js ''svc'') vault_sample_cred vault_sample_rnd)]))"
proof -
  have e: "currentSpec no_source = []" "currentSpec vault_sample_env \<noteq> []" using sample_env_facts by (simp_all add: no_source_def currentSpec_def)
  have v: "map_of (vd_vault_state vault_sample_empty) kek_source_key = None" "map_of (vd_vault_state vault_sample_empty) kek_scoped_key = None" "vd_kek vault_sample_empty = None"
    by (simp_all add: vault_sample_empty_def new_CredentialVault_def)
  show ?thesis by (rule unset_source_locks_vault [OF v e(1) surjective_pairing e(2) surjective_pairing])
qed

definition scoped_source :: vault_env where
  "scoped_source = vault_sample_env\<lparr>ve_VAULT_KEK_TENANT_SCOPED := Some (js ''1'')\<rparr>"

definition pinned_vault :: vault_do where
  "pinned_vault = vault_sample_empty\<lparr>vd_vault_state := [(kek_source_key, js ''env://K''), (kek_scoped_key, js ''0'')]\<rparr>"

theorem documented_rotation_fails_witness:
  "let v0 = pinned_vault\<lparr>vd_vault_state := fst (delete_where (\<lambda>p. fst p = kek_source_key) (vd_vault_state pinned_vault))\<rparr>;
       (v1, r) = getKEK vault_sample_host scoped_source v0
   in r = Inl State_conflict \<and>
      list_all (\<lambda>r. \<not> used_key r) (snd (vault_run vault_sample_host scoped_source (new_CredentialVault (stored v1))
        [(5, Call_put (js ''s2'') (js ''svc'') vault_sample_cred vault_sample_rnd)]))"
proof -
  let ?v0 = "pinned_vault\<lparr>vd_vault_state := fst (delete_where (\<lambda>p. fst p = kek_source_key) (vd_vault_state pinned_vault))\<rparr>"
  obtain v1 r where g: "getKEK vault_sample_host scoped_source ?v0 = (v1, r)" by force
  have "js ''0'' \<noteq> scoped_flag scoped_source"
    by (simp add: scoped_flag_def tenantScoped_def scoped_source_def js_trim_def js_space_def Let_def)
  moreover have "map_of (vd_vault_state pinned_vault) kek_scoped_key = Some (js ''0'')" by (simp add: pinned_vault_def)
  moreover have "vd_kek pinned_vault = None" by (simp add: pinned_vault_def vault_sample_empty_def new_CredentialVault_def)
  ultimately have "r = Inl State_conflict \<and> list_all (\<lambda>r. \<not> used_key r) (snd (vault_run vault_sample_host scoped_source (new_CredentialVault (stored v1)) cs))" for cs
    using documented_rotation_fails [OF _ _ g] by blast
  then show ?thesis using g by (simp del: list.map vault_run.simps)
qed

end
