(* ===== verification/Vault_Proxy.thy ===== *)
theory Vault_Proxy
  imports Vault_Store
begin

text \<open>
  The credential-isolation proxy of \<open>src/routes/vault-proxy.ts\<close> with the telemetry guard of
  \<open>src/routes/receipt-guard.ts\<close> and the stores of \<open>src/routes/vault-proxy-credential-store.ts\<close> and
  \<open>src/routes/vault-do-credential-store.ts\<close>. The upstream is a function from the outgoing request to its
  response, \<open>None\<close> where the fetch throws; the clock and the receipt nonce are arguments; \<open>None\<close> as a result
  is an exception. A body-field path is modelled for segments other than \<open>__proto__\<close>.
\<close>

unbundle bit_operations_syntax

section \<open>Configuration and paths\<close>

datatype injectionStrategy =
  AuthorizationBearer
| AuthorizationBasic
| HeaderNamed jsstr
| QueryParam jsstr
| BodyField jsstr
| Passthrough

fun injection_kind :: "injectionStrategy \<Rightarrow> jsstr" where
  "injection_kind AuthorizationBearer = js ''authorizationBearer''"
| "injection_kind AuthorizationBasic = js ''authorizationBasic''"
| "injection_kind (HeaderNamed _) = js ''headerNamed''"
| "injection_kind (QueryParam _) = js ''queryParam''"
| "injection_kind (BodyField _) = js ''bodyField''"
| "injection_kind Passthrough = js ''passthrough''"

record vaultProxyService =
  vps_name :: jsstr
  vps_upstreamBaseUrl :: jsstr
  vps_injection :: injectionStrategy
  vps_defaultAllowedSubs :: "jsstr list"
  vps_rateLimitPerMinute :: int

definition isValidServiceName :: "jsstr \<Rightarrow> bool" where
  "isValidServiceName name =
     (case name of [] \<Rightarrow> False
      | c # r \<Rightarrow> (is_lower c \<or> dec_digit c) \<and> length r \<le> 62 \<and>
          (\<forall>d \<in> set r. is_lower d \<or> dec_digit d \<or> d = of_char CHR ''.'' \<or> d = of_char CHR ''_'' \<or> d = of_char CHR ''-''))"

definition vault_prefix :: jsstr where
  "vault_prefix = js ''/vault/proxy/''"

definition parseVaultProxyPath :: "jsstr \<Rightarrow> (jsstr \<times> jsstr) option" where
  "parseVaultProxyPath pathname =
     (if \<not> starts_with pathname vault_prefix then None
      else let tail = drop (length vault_prefix) pathname in
        case index_of (of_char CHR ''/'') tail of
          None \<Rightarrow> if isValidServiceName tail then Some (tail, []) else None
        | Some firstSlash \<Rightarrow>
            let service = take firstSlash tail; upstreamPath = drop firstSlash tail in
            if \<not> isValidServiceName service then None else Some (service, upstreamPath))"

section \<open>Rate limit\<close>

record rate_window =
  rw_count :: int
  rw_windowStart :: int

type_synonym rate_map = "(jsstr \<times> rate_window) list"

definition RATE_WINDOW_MS :: int where
  "RATE_WINDOW_MS = 60 * 1000"

definition consumeRateBudget :: "rate_map \<Rightarrow> jsstr \<Rightarrow> vaultProxyService \<Rightarrow> int \<Rightarrow> rate_map \<times> bool" where
  "consumeRateBudget m peerFp cfg now =
     (if vps_rateLimitPerMinute cfg \<le> 0 then (m, True)
      else
        let key = peerFp @ js ''::'' @ vps_name cfg;
            bucket = (case map_of m key of
                        Some b \<Rightarrow> if now - rw_windowStart b \<ge> RATE_WINDOW_MS then \<lparr>rw_count = 0, rw_windowStart = now\<rparr> else b
                      | None \<Rightarrow> \<lparr>rw_count = 0, rw_windowStart = now\<rparr>)
        in if rw_count bucket \<ge> vps_rateLimitPerMinute cfg then (AList.update key bucket m, False)
           else (AList.update key (bucket\<lparr>rw_count := rw_count bucket + 1\<rparr>) m, True))"

section \<open>Outgoing requests\<close>

record outgoing =
  og_url :: jsstr
  og_method :: jsstr
  og_headers :: headers
  og_body :: "bytes option"

definition strip_slashes :: "jsstr \<Rightarrow> jsstr" where
  "strip_slashes s = rev (dropWhile (\<lambda>c. c = of_char CHR ''/'') (rev s))"

definition ascii_upper :: "jsstr \<Rightarrow> jsstr" where
  "ascii_upper s = map (\<lambda>c. if is_lower c then c - 32 else c) s"

definition methodCanHaveBody :: "jsstr \<Rightarrow> bool" where
  "methodCanHaveBody method = (let m = ascii_upper method in m \<noteq> js ''GET'' \<and> m \<noteq> js ''HEAD'')"

definition buildUpstreamRequest :: "jsstr \<Rightarrow> web_request \<Rightarrow> headers \<Rightarrow> bytes option \<Rightarrow> outgoing" where
  "buildUpstreamRequest target req hs overrideBody =
     \<lparr>og_url = target, og_method = wr_method req, og_headers = hs,
      og_body = (case overrideBody of Some b \<Rightarrow> Some b
                 | None \<Rightarrow> if methodCanHaveBody (wr_method req) then Some (wr_body req) else None)\<rparr>"

text \<open>\<open>btoa\<close> of a string; \<open>None\<close> is its exception on a character above 255.\<close>

definition btoa_string :: "jsstr \<Rightarrow> jsstr option" where
  "btoa_string s = (if \<exists>c \<in> set s. unat c > 255 then None else Some (btoa (map (\<lambda>c. of_nat (unat c)) s)))"

definition hex_upper :: "nat \<Rightarrow> jschar" where
  "hex_upper n = of_char (''0123456789ABCDEF'' ! n)"

definition uri_unreserved :: "byte \<Rightarrow> bool" where
  "uri_unreserved b = (let c = (of_nat (unat b) :: jschar) in alnum c \<or> c \<in> set (js ''-_.!~*()'' @ [39]))"

definition encodeURIComponent :: "jsstr \<Rightarrow> jsstr option" where
  "encodeURIComponent s =
     (if \<not> well_formed s then None
      else Some (concat (map (\<lambda>b. if uri_unreserved b then [of_nat (unat b)]
                                   else [of_char CHR ''%'', hex_upper (unat b div 16), hex_upper (unat b mod 16)]) (utf8_encode s))))"

definition applyHeaderInjection :: "headers \<Rightarrow> injectionStrategy \<Rightarrow> jsstr \<Rightarrow> jsstr \<Rightarrow> headers option" where
  "applyHeaderInjection hs strategy credential username =
     (case strategy of
        AuthorizationBearer \<Rightarrow> headers_set hs (js ''Authorization'') (js ''Bearer '' @ credential)
      | AuthorizationBasic \<Rightarrow>
          (case btoa_string (username @ js '':'' @ credential) of
             None \<Rightarrow> None | Some b \<Rightarrow> headers_set hs (js ''Authorization'') (js ''Basic '' @ b))
      | HeaderNamed name \<Rightarrow> headers_set hs name credential
      | _ \<Rightarrow> Some hs)"

definition appendQueryParam :: "jsstr \<Rightarrow> jsstr \<Rightarrow> jsstr \<Rightarrow> jsstr option" where
  "appendQueryParam target name value =
     (let sep = (if of_char CHR ''?'' \<in> set target then js ''&'' else js ''?'') in
      case (encodeURIComponent name, encodeURIComponent value) of
        (Some n, Some v) \<Rightarrow> Some (target @ sep @ n @ js ''='' @ v)
      | _ \<Rightarrow> None)"

fun object_props :: "json option \<Rightarrow> (jsstr \<times> json) list" where
  "object_props (Some (JObj ps)) = ps"
| "object_props _ = []"

fun deep_set :: "(jsstr \<times> json) list \<Rightarrow> jsstr list \<Rightarrow> jsstr \<Rightarrow> (jsstr \<times> json) list" where
  "deep_set ps [] value = ps"
| "deep_set ps [seg] value = set_prop ps seg (JStr value)"
| "deep_set ps (seg # segs) value = set_prop ps seg (JObj (deep_set (object_props (map_of ps seg)) segs value))"

definition deepSetPath :: "json \<Rightarrow> jsstr \<Rightarrow> jsstr \<Rightarrow> json" where
  "deepSetPath v path value = JObj (deep_set (object_props (Some v)) (split_on (of_char CHR ''.'') path) value)"

definition lease_internal :: "jsstr \<Rightarrow> bool" where
  "lease_internal name = starts_with (ascii_lower name) (js ''x-interlace-'')"

record proxy_request =
  pr_request :: web_request
  pr_upstreamPath :: jsstr
  pr_peerFp :: "jsstr option"
  pr_serviceConfig :: "vaultProxyService option"
  pr_storedCredential :: "jsstr option"
  pr_storedUsername :: "jsstr option"

text \<open>The request \<open>proxyToUpstream\<close> sends, or \<open>None\<close> where it throws before.\<close>

definition proxyToUpstream :: "proxy_request \<Rightarrow> jsstr \<Rightarrow> vaultProxyService \<Rightarrow> outgoing option" where
  "proxyToUpstream req credential cfg =
     (let baseUrl = strip_slashes (vps_upstreamBaseUrl cfg) @ pr_upstreamPath req;
          hs = filter (\<lambda>h. \<not> lease_internal (fst h)) (wr_headers (pr_request req));
          username = nullish (pr_storedUsername req) (vps_name cfg);
          build = (\<lambda>target hs. buildUpstreamRequest target (pr_request req) hs None)
      in case vps_injection cfg of
           Passthrough \<Rightarrow> None
         | QueryParam name \<Rightarrow> map_option (\<lambda>target. build target hs) (appendQueryParam baseUrl name credential)
         | BodyField path \<Rightarrow>
             (let original = utf8_decode (wr_body (pr_request req));
                  parsed = (if length original = 0 then Some (JObj []) else json_parse original)
              in case parsed of
                   None \<Rightarrow> None
                 | Some v \<Rightarrow>
                     case headers_set hs (js ''content-type'') (js ''application/json'') of
                       None \<Rightarrow> None
                     | Some hs' \<Rightarrow> Some (buildUpstreamRequest baseUrl (pr_request req) hs'
                                           (Some (utf8_encode (json_text (deepSetPath v path credential))))))
         | strategy \<Rightarrow> map_option (build baseUrl) (applyHeaderInjection hs strategy credential username))"

definition passthrough_strips :: "jsstr \<Rightarrow> bool" where
  "passthrough_strips name =
     (let k = ascii_lower name in
      starts_with k (js ''x-interlace-'') \<or> starts_with k (js ''x-signet-'') \<or> k = js ''authorization'' \<or> k = js ''host'')"

definition passthroughToUpstream :: "vaultProxyService \<Rightarrow> jsstr \<Rightarrow> web_request \<Rightarrow> outgoing" where
  "passthroughToUpstream cfg upstreamPath req =
     (let baseUrl = strip_slashes (vps_upstreamBaseUrl cfg) @ upstreamPath;
          hs = filter (\<lambda>h. \<not> passthrough_strips (fst h)) (wr_headers req);
          harnessAuth = map_of (wr_headers req) (js ''x-harness-authorization'');
          hs' = (if truthy_str harnessAuth
                 then AList.delete (js ''x-harness-authorization'') (AList.update (js ''authorization'') (nullish harnessAuth []) hs)
                 else hs)
      in buildUpstreamRequest baseUrl req hs' None)"

section \<open>Wire shapes\<close>

definition CONSTANT_TIME_ERROR_BODY :: jsstr where
  "CONSTANT_TIME_ERROR_BODY = json_text (JObj [(js ''error'', JStr (js ''unauthorized'')),
     (js ''reason'', JStr (js ''credential not available or caller not authorized''))])"

definition SHAPE_U_ERROR_BODY :: jsstr where
  "SHAPE_U_ERROR_BODY = json_text (JObj [(js ''error'', JStr (js ''upstream_unavailable''))])"

definition PROXY_SERVER_HEADER_VALUE :: jsstr where
  "PROXY_SERVER_HEADER_VALUE = js ''cloister/credential-isolation/v1''"

definition rejection :: "int \<Rightarrow> response" where
  "rejection status = errorResponse status CONSTANT_TIME_ERROR_BODY []"

definition stampReservedHeaders :: "response \<Rightarrow> response" where
  "stampReservedHeaders res = res\<lparr>rs_headers := AList.update (js ''server'') PROXY_SERVER_HEADER_VALUE (rs_headers res)\<rparr>"

definition access_failure :: "int \<Rightarrow> bool" where
  "access_failure status = (status = 401 \<or> status = 403 \<or> status = 404 \<or> status = 429)"

definition upstream_failure :: "int \<Rightarrow> bool" where
  "upstream_failure status = (status = 502 \<or> status = 503)"

definition collapseWireShape :: "response \<Rightarrow> response" where
  "collapseWireShape res =
     (let status = rs_status res in
      if status \<ge> 200 \<and> status < 400 then stampReservedHeaders res
      else if \<not> access_failure status \<and> \<not> upstream_failure status then res
      else
        let canonicalBody = (if access_failure status then CONSTANT_TIME_ERROR_BODY else SHAPE_U_ERROR_BODY);
            retryAfter = map_of (rs_headers res) (js ''retry-after'');
            extra = (if truthy_str retryAfter then [(js ''retry-after'', nullish retryAfter [])] else [])
        in stampReservedHeaders (errorResponse status canonicalBody extra))"

section \<open>Telemetry\<close>

definition FORBIDDEN_RECEIPT_FIELD_MARKERS :: "jsstr list" where
  "FORBIDDEN_RECEIPT_FIELD_MARKERS = map js [''cred'', ''apikey'', ''secret'', ''token'', ''password'', ''passphrase'',
     ''privatekey'', ''authorization'', ''cookie'']"

definition FORBIDDEN_RECEIPT_FIELD_NAMES :: "jsstr list" where
  "FORBIDDEN_RECEIPT_FIELD_NAMES = map js [''requestbody'', ''reqbody'', ''body'', ''responsebody'', ''respbody'', ''query'',
     ''querystring'', ''queryparams'', ''searchparams'', ''allowedsubs'']"

definition normalize_field :: "jsstr \<Rightarrow> jsstr" where
  "normalize_field name = filter (\<lambda>c. \<not> (c = of_char CHR ''_'' \<or> c = of_char CHR ''-'' \<or> c = of_char CHR ''.'' \<or> js_space c)) (ascii_lower name)"

definition forbidden_field :: "jsstr \<Rightarrow> bool" where
  "forbidden_field key =
     (let n = normalize_field key in
      n \<in> set FORBIDDEN_RECEIPT_FIELD_NAMES \<or> (\<exists>marker \<in> set FORBIDDEN_RECEIPT_FIELD_MARKERS. has_sub n marker))"

definition findForbiddenReceiptField :: "jsstr list \<Rightarrow> jsstr option" where
  "findForbiddenReceiptField keys = find forbidden_field keys"

record proxyCallReceipt =
  pc_peerFp :: jsstr
  pc_service :: jsstr
  pc_upstreamStatus :: int
  pc_upstreamUrlPath :: jsstr
  pc_requestSizeBytes :: int
  pc_responseSizeBytes :: int
  pc_wallClockMs :: int
  pc_tsMs :: int
  pc_nonceHex :: jsstr

definition receipt_keys :: "jsstr list" where
  "receipt_keys = map js [''capability'', ''peerFp'', ''service'', ''upstreamStatus'', ''upstreamUrlPath'', ''requestSizeBytes'',
     ''responseSizeBytes'', ''wallClockMs'', ''tsMs'', ''nonceHex'']"

record metric =
  mt_service :: jsstr
  mt_peer_fp :: jsstr
  mt_status :: int
  mt_injection_kind :: jsstr

definition metric_keys :: "jsstr list" where
  "metric_keys = map js [''service'', ''peer_fp'', ''status'', ''injection_kind'']"

datatype telemetry = Receipt_row proxyCallReceipt | Metric_row metric

record telemetry_args =
  ta_peerFp :: jsstr
  ta_cfg :: vaultProxyService
  ta_upstreamPath :: jsstr
  ta_startMs :: int
  ta_endMs :: int
  ta_status :: int
  ta_requestSizeBytes :: int
  ta_responseSizeBytes :: int
  ta_nonceHex :: jsstr

definition refuseIfForbidden :: "jsstr list \<Rightarrow> bool" where
  "refuseIfForbidden keys = (findForbiddenReceiptField keys \<noteq> None)"

definition receipt_of :: "telemetry_args \<Rightarrow> proxyCallReceipt" where
  "receipt_of a = \<lparr>pc_peerFp = ta_peerFp a, pc_service = vps_name (ta_cfg a), pc_upstreamStatus = ta_status a,
     pc_upstreamUrlPath = hd (split_on (of_char CHR ''?'') (ta_upstreamPath a)), pc_requestSizeBytes = ta_requestSizeBytes a,
     pc_responseSizeBytes = ta_responseSizeBytes a, pc_wallClockMs = ta_endMs a - ta_startMs a, pc_tsMs = ta_startMs a, pc_nonceHex = ta_nonceHex a\<rparr>"

definition metric_of :: "telemetry_args \<Rightarrow> metric" where
  "metric_of a = \<lparr>mt_service = vps_name (ta_cfg a), mt_peer_fp = ta_peerFp a, mt_status = ta_status a,
     mt_injection_kind = injection_kind (vps_injection (ta_cfg a))\<rparr>"

text \<open>The rows emitted; a refused receipt also skips the metric.\<close>

definition emitProxyCallTelemetry :: "bool \<Rightarrow> bool \<Rightarrow> telemetry_args \<Rightarrow> telemetry list" where
  "emitProxyCallTelemetry receipts metrics a =
     (if receipts \<and> refuseIfForbidden receipt_keys then []
      else (if receipts then [Receipt_row (receipt_of a)] else []) @
           (if metrics \<and> \<not> refuseIfForbidden metric_keys then [Metric_row (metric_of a)] else []))"

definition size_header :: "headers \<Rightarrow> int" where
  "size_header hs =
     (case map_of hs (js ''content-length'') of
        None \<Rightarrow> 0
      | Some cl \<Rightarrow> case parse_int10 cl of None \<Rightarrow> 0 | Some n \<Rightarrow> if n \<ge> 0 then n else 0)"

record call_meta =
  cm_receipts :: bool
  cm_metrics :: bool
  cm_start :: int
  cm_end :: int
  cm_nonce :: jsstr

text \<open>Both wrappers: the rows emitted in the \<open>finally\<close> block, and the response or the exception passed on.\<close>

definition forwardWithReceipt :: "call_meta \<Rightarrow> jsstr \<Rightarrow> vaultProxyService \<Rightarrow> jsstr \<Rightarrow> int \<Rightarrow> response option \<Rightarrow> telemetry list \<times> response option" where
  "forwardWithReceipt meta peerFp cfg upstreamPath requestSize outcome =
     (emitProxyCallTelemetry (cm_receipts meta) (cm_metrics meta)
        \<lparr>ta_peerFp = peerFp, ta_cfg = cfg, ta_upstreamPath = upstreamPath, ta_startMs = cm_start meta, ta_endMs = cm_end meta,
         ta_status = (case outcome of None \<Rightarrow> 0 | Some r \<Rightarrow> rs_status r), ta_requestSizeBytes = requestSize,
         ta_responseSizeBytes = (case outcome of None \<Rightarrow> 0 | Some r \<Rightarrow> size_header (rs_headers r)), ta_nonceHex = cm_nonce meta\<rparr>,
      outcome)"

section \<open>The handler and the stores\<close>

record handler_result =
  hr_rate :: rate_map
  hr_sent :: "outgoing list"
  hr_rows :: "telemetry list"
  hr_response :: "response option"

definition vaultProxyHandler :: "(outgoing \<Rightarrow> response option) \<Rightarrow> call_meta \<Rightarrow> rate_map \<Rightarrow> proxy_request \<Rightarrow> handler_result" where
  "vaultProxyHandler upstream meta m req =
     (let reply = (\<lambda>m r. \<lparr>hr_rate = m, hr_sent = [], hr_rows = [], hr_response = Some r\<rparr>) in
      case (pr_peerFp req, pr_serviceConfig req) of
        (None, _) \<Rightarrow> reply m (rejection 401)
      | (Some peerFp, None) \<Rightarrow> reply m (rejection 404)
      | (Some peerFp, Some cfg) \<Rightarrow>
          if \<not> checkAccess (vps_defaultAllowedSubs cfg) peerFp then reply m (rejection 403)
          else case pr_storedCredential req of
            None \<Rightarrow> reply m (rejection 404)
          | Some credential \<Rightarrow>
              case consumeRateBudget m peerFp cfg (cm_start meta) of
                (m1, False) \<Rightarrow> reply m1 (errorResponse 429 (json_text (JObj [(js ''error'', JStr (js ''rate_limited'')), (js ''service'', JStr (vps_name cfg))])) [])
              | (m1, True) \<Rightarrow>
                  let out = proxyToUpstream req credential cfg;
                      outcome = (case out of None \<Rightarrow> None | Some og \<Rightarrow> upstream og);
                      (rows, res) = forwardWithReceipt meta peerFp cfg (pr_upstreamPath req) (size_header (wr_headers (pr_request req))) outcome
                  in \<lparr>hr_rate = m1, hr_sent = (case out of None \<Rightarrow> [] | Some og \<Rightarrow> [og]), hr_rows = rows, hr_response = res\<rparr>)"

record credentialLookup =
  cl_credential :: jsstr
  cl_username :: "jsstr option"

type_synonym memory_store = "(jsstr \<times> credentialLookup) list"

definition store_key :: "jsstr \<Rightarrow> jsstr \<Rightarrow> jsstr" where
  "store_key peerFp service = peerFp @ js ''::'' @ service"

definition memory_resolve :: "memory_store \<Rightarrow> jsstr \<Rightarrow> jsstr \<Rightarrow> credentialLookup option" where
  "memory_resolve m peerFp service = map_of m (store_key peerFp service)"

definition memory_set :: "memory_store \<Rightarrow> jsstr \<Rightarrow> jsstr \<Rightarrow> credentialLookup \<Rightarrow> memory_store" where
  "memory_set m peerFp service l = AList.update (store_key peerFp service) l m"

definition memory_delete :: "memory_store \<Rightarrow> jsstr \<Rightarrow> jsstr \<Rightarrow> memory_store \<times> bool" where
  "memory_delete m peerFp service = (AList.delete (store_key peerFp service) m, map_of m (store_key peerFp service) \<noteq> None)"

text \<open>FNV-1a as written, with JavaScript's 32-bit operators.\<close>

definition fnv_step :: "int \<Rightarrow> jschar \<Rightarrow> int" where
  "fnv_step h c =
     (let h1 = sint ((word_of_int h XOR word_of_int (uint c)) :: 32 word)
      in js_ushr (h1 + (js_shl h1 1 + js_shl h1 4 + js_shl h1 7 + js_shl h1 8 + js_shl h1 24)) 0)"

definition fnv_hash :: "jsstr \<Rightarrow> int" where
  "fnv_hash name = foldl fnv_step 0x811c9dc5 name"

text \<open>\<open>VaultDoCredentialStore.forward\<close>: an absent binding, an exception of the object, or its answer.\<close>

datatype do_outcome = Do_threw | Do_answered response

definition store_forward :: "do_outcome option \<Rightarrow> response" where
  "store_forward outcome =
     (case outcome of
        None \<Rightarrow> errorResponse 503 (json_text (JObj [(js ''error'', JStr (js ''vault_unavailable''))])) []
      | Some Do_threw \<Rightarrow> errorResponse 502 (json_text (JObj [(js ''error'', JStr (js ''upstream_unavailable''))])) []
      | Some (Do_answered r) \<Rightarrow> r)"


section \<open>Paths\<close>

lemma valid_service_no_slash: "isValidServiceName s \<Longrightarrow> of_char CHR ''/'' \<notin> set s"
  by (cases s) (auto simp: isValidServiceName_def is_lower_def dec_digit_def)

lemma index_of_append: "c \<notin> set xs \<Longrightarrow> index_of c (xs @ c # ys) = Some (length xs)"
  by (induction xs) auto

text \<open>A path is read as a service and an upstream path exactly when it is the prefix, a valid service name and a rest
  that is empty or starts with a slash; reading loses nothing.
\<close>

theorem vault_path_roundtrip:
  "parseVaultProxyPath pathname = Some (service, upstreamPath) \<longleftrightarrow>
     pathname = vault_prefix @ service @ upstreamPath \<and> isValidServiceName service \<and> (upstreamPath = [] \<or> hd upstreamPath = of_char CHR ''/'')"
proof
  assume *: "parseVaultProxyPath pathname = Some (service, upstreamPath)"
  then obtain t where t: "pathname = vault_prefix @ t"
    by (auto simp: parseVaultProxyPath_def starts_with_iff split: if_splits)
  show "pathname = vault_prefix @ service @ upstreamPath \<and> isValidServiceName service \<and> (upstreamPath = [] \<or> hd upstreamPath = of_char CHR ''/'')"
  proof (cases "index_of (of_char CHR ''/'') t")
    case None
    then show ?thesis using * t by (auto simp: parseVaultProxyPath_def starts_with_iff split: if_splits)
  next
    case (Some i)
    then have "i < length t \<and> t ! i = of_char CHR ''/''" using index_of_SomeD by fastforce
    then show ?thesis using * t Some by (auto simp: parseVaultProxyPath_def Let_def hd_drop_conv_nth split: if_splits)
  qed
next
  assume *: "pathname = vault_prefix @ service @ upstreamPath \<and> isValidServiceName service \<and> (upstreamPath = [] \<or> hd upstreamPath = of_char CHR ''/'')"
  have ns: "of_char CHR ''/'' \<notin> set service" using * valid_service_no_slash by blast
  show "parseVaultProxyPath pathname = Some (service, upstreamPath)"
  proof (cases upstreamPath)
    case Nil
    then show ?thesis using * ns index_of_None_iff [of "of_char CHR ''/''" service]
      by (simp add: parseVaultProxyPath_def starts_with_iff Let_def)
  next
    case (Cons c r)
    then have "index_of (of_char CHR ''/'') (service @ upstreamPath) = Some (length service)" using * index_of_append [OF ns, of r] by simp
    then show ?thesis using * by (simp add: parseVaultProxyPath_def starts_with_iff Let_def)
  qed
qed

section \<open>Telemetry is never dropped and carries no query\<close>

lemma clean_keys: "findForbiddenReceiptField receipt_keys = None" "findForbiddenReceiptField metric_keys = None"
  by (simp_all add: findForbiddenReceiptField_def receipt_keys_def metric_keys_def forbidden_field_def normalize_field_def Let_def ascii_lower_def
      js_space_def FORBIDDEN_RECEIPT_FIELD_NAMES_def FORBIDDEN_RECEIPT_FIELD_MARKERS_def has_sub_def starts_with_def)

lemma telemetry_rows: "emitProxyCallTelemetry True True a = [Receipt_row (receipt_of a), Metric_row (metric_of a)]"
  by (simp add: emitProxyCallTelemetry_def refuseIfForbidden_def clean_keys)

lemma receipt_no_query: "of_char CHR ''?'' \<notin> set (pc_upstreamUrlPath (receipt_of a))"
  using split_on_no_sep [OF hd_in_set [OF split_on_nonempty]] by (simp add: receipt_of_def)

section \<open>Fingerprints\<close>

lemma fnv_step_word: "fnv_step h c = uint ((word_of_int h XOR word_of_int (uint c)) * 16777619 :: 32 word)"
proof -
  let ?w = "(word_of_int h XOR word_of_int (uint c)) :: 32 word"
  have "word_of_int (sint ?w + (js_shl (sint ?w) 1 + js_shl (sint ?w) 4 + js_shl (sint ?w) 7 + js_shl (sint ?w) 8 + js_shl (sint ?w) 24)) =
      ?w + (push_bit 1 ?w + push_bit 4 ?w + push_bit 7 ?w + push_bit 8 ?w + push_bit 24 ?w)"
    by (simp add: js_shl_def)
  also have "\<dots> = ?w * 16777619" by (simp add: push_bit_eq_mult algebra_simps)
  finally show ?thesis by (simp only: fnv_step_def Let_def js_ushr_def drop_bit_0 id_apply)
qed

text \<open>The shift-and-add loop of the bundle fingerprint is 32-bit FNV-1a over the code units of the name.
\<close>

theorem bundle_fingerprint_is_fnv1a:
  "fnv_hash name = uint (foldl (\<lambda>h c. (h XOR word_of_int (uint c)) * 16777619) (0x811c9dc5 :: 32 word) name)"
proof -
  have "foldl fnv_step (uint w) name = uint (foldl (\<lambda>h c. (h XOR word_of_int (uint c)) * 16777619) w name)" for w :: "32 word"
    by (induction name arbitrary: w) (simp_all add: fnv_step_word)
  from this [of "0x811c9dc5"] show ?thesis by (simp add: fnv_hash_def)
qed

section \<open>What reaches the upstream\<close>

text \<open>In audit passthrough the upstream never sees a lease header: no \<open>x-signet-\<close> or \<open>x-interlace-\<close> name, and an
  \<open>authorization\<close> header only with the harness's own value.
\<close>

theorem passthrough_hides_lease:
  assumes "headers_ok (wr_headers req)"
  shows "map_of (og_headers (passthroughToUpstream cfg path req)) name =
    (if name = js ''authorization'' then
       (case map_of (wr_headers req) (js ''x-harness-authorization'') of Some (c # v) \<Rightarrow> Some (c # v) | _ \<Rightarrow> None)
     else if passthrough_strips name then None
     else if name = js ''x-harness-authorization'' \<and> map_of (wr_headers req) name \<noteq> Some [] then None
     else map_of (wr_headers req) name)"
proof -
  have lower: "map_of (filter (\<lambda>h. \<not> passthrough_strips (fst h)) (wr_headers req)) k = (if passthrough_strips k then None else map_of (wr_headers req) k)" for k
    using map_of_filter_key [of "\<lambda>k. \<not> passthrough_strips k" "wr_headers req" k] by simp
  have auth: "passthrough_strips (js ''authorization'')" "\<not> passthrough_strips (js ''x-harness-authorization'')"
    by (simp_all add: passthrough_strips_def ascii_lower_def starts_with_def Let_def)
  have ne: "js ''authorization'' \<noteq> js ''x-harness-authorization''" by simp
  show ?thesis
  proof (cases "map_of (wr_headers req) (js ''x-harness-authorization'')")
    case None
    then show ?thesis using auth ne by (simp add: passthroughToUpstream_def buildUpstreamRequest_def Let_def lower del: list.map)
  next
    case (Some v)
    then show ?thesis using auth ne
      by (cases v) (auto simp: passthroughToUpstream_def buildUpstreamRequest_def Let_def lower delete_conv' update_conv' simp del: list.map)
  qed
qed

text \<open>The header a strategy writes.\<close>

definition injected_name :: "injectionStrategy \<Rightarrow> jsstr option" where
  "injected_name strategy = (case strategy of
      AuthorizationBearer \<Rightarrow> Some (js ''authorization'') | AuthorizationBasic \<Rightarrow> Some (js ''authorization'')
    | HeaderNamed name \<Rightarrow> Some (ascii_lower name) | BodyField _ \<Rightarrow> Some (js ''content-type'') | _ \<Rightarrow> None)"

lemma proxyToUpstream_keeps:
  assumes "proxyToUpstream req credential cfg = Some out" "Some name \<noteq> injected_name (vps_injection cfg)"
  shows "map_of (og_headers out) name = (if lease_internal name then None else map_of (wr_headers (pr_request req)) name)"
proof -
  let ?hs = "filter (\<lambda>h. \<not> lease_internal (fst h)) (wr_headers (pr_request req))"
  have base: "map_of ?hs name = (if lease_internal name then None else map_of (wr_headers (pr_request req)) name)"
    using map_of_filter_key [of "\<lambda>k. \<not> lease_internal k" "wr_headers (pr_request req)" name] by simp
  have lower: "ascii_lower (js ''Authorization'') = js ''authorization''" "ascii_lower (js ''content-type'') = js ''content-type''"
    by (simp_all add: ascii_lower_def)
  have set: "headers_set ?hs k v = Some hs' \<Longrightarrow> ascii_lower k \<noteq> name \<Longrightarrow> map_of hs' name = map_of ?hs name" for k v hs'
    using headers_set_lookup [of ?hs k v hs'] by simp
  have "map_of (og_headers out) name = map_of ?hs name"
    using assms set [of "js ''Authorization''"] set [of "js ''content-type''"] set lower
    by (cases "vps_injection cfg")
      (auto simp: proxyToUpstream_def Let_def applyHeaderInjection_def injected_name_def buildUpstreamRequest_def
        simp del: list.map split: option.splits if_splits)
  then show ?thesis using base by simp
qed

text \<open>When the handler injects the credential itself, the caller's \<open>x-signet-\<close> headers are sent to the upstream, and
  unless the credential goes into the \<open>authorization\<close> header so is the caller's lease in it.
\<close>

theorem injecting_handler_forwards_lease:
  assumes "proxyToUpstream req credential cfg = Some out" "map_of (wr_headers (pr_request req)) (js ''x-signet-sig'') = Some sig"
    and "map_of (wr_headers (pr_request req)) (js ''authorization'') = Some lease" "vps_injection cfg \<in> {QueryParam q, BodyField b}"
  shows "map_of (og_headers out) (js ''x-signet-sig'') = Some sig \<and> map_of (og_headers out) (js ''authorization'') = Some lease"
proof -
  have n: "\<not> lease_internal (js ''x-signet-sig'')" "\<not> lease_internal (js ''authorization'')"
    by (simp_all add: lease_internal_def ascii_lower_def starts_with_def)
  have i: "Some (js ''x-signet-sig'') \<noteq> injected_name (vps_injection cfg)" "Some (js ''authorization'') \<noteq> injected_name (vps_injection cfg)"
    using assms(4) by (auto simp: injected_name_def)
  show ?thesis using proxyToUpstream_keeps [OF assms(1) i(1)] proxyToUpstream_keeps [OF assms(1) i(2)] n assms(2,3) by simp
qed

section \<open>Wire shapes\<close>

lemma stamp_simps [simp]:
  "rs_status (stampReservedHeaders r) = rs_status r" "rs_body (stampReservedHeaders r) = rs_body r"
  "map_of (rs_headers (stampReservedHeaders r)) (js ''server'') = Some PROXY_SERVER_HEADER_VALUE"
  by (simp_all add: stampReservedHeaders_def update_conv' del: list.map)

lemma errorResponse_simps [simp]: "rs_status (errorResponse st body extra) = st" "rs_body (errorResponse st body extra) = utf8_encode body"
  by (simp_all add: errorResponse_def)

lemma collapse_status [simp]: "rs_status (collapseWireShape r) = rs_status r"
  by (simp add: collapseWireShape_def Let_def)

lemma collapse_body:
  "access_failure (rs_status r) \<Longrightarrow> rs_body (collapseWireShape r) = utf8_encode CONSTANT_TIME_ERROR_BODY"
  "upstream_failure (rs_status r) \<Longrightarrow> rs_body (collapseWireShape r) = utf8_encode SHAPE_U_ERROR_BODY"
  by (auto simp: collapseWireShape_def Let_def access_failure_def upstream_failure_def)

text \<open>Responses of the same failing status differ on the wire only in \<open>retry-after\<close>.\<close>

lemma collapse_uniform:
  assumes "access_failure (rs_status r) \<or> upstream_failure (rs_status r)" "rs_status r' = rs_status r"
    and "map_of (rs_headers r') (js ''retry-after'') = map_of (rs_headers r) (js ''retry-after'')"
  shows "collapseWireShape r' = collapseWireShape r"
  using assms by (auto simp: collapseWireShape_def Let_def access_failure_def upstream_failure_def simp del: list.map)

text \<open>A status outside the two classes passes with every header of the upstream, \<open>server\<close> included.\<close>

lemma collapse_other: "rs_status r = 500 \<Longrightarrow> collapseWireShape r = r"
  by (simp add: collapseWireShape_def Let_def access_failure_def upstream_failure_def)


theorem passthrough_hides_lease_witness:
  "\<forall>name. map_of (og_headers (passthroughToUpstream \<lparr>vps_name = js ''svc'', vps_upstreamBaseUrl = js ''https://u'', vps_injection = Passthrough, vps_defaultAllowedSubs = [], vps_rateLimitPerMinute = 1\<rparr>
      (js ''/p'') \<lparr>wr_method = js ''GET'', wr_url = [], wr_headers =
      [(js ''authorization'', js ''Signet x''), (js ''x-signet-sig'', js ''y''), (js ''x-harness-authorization'', js ''z'')], wr_body = []\<rparr>)) name =
    (if name = js ''authorization'' then Some (js ''z'') else None)"
  (is "\<forall>name. map_of (og_headers (passthroughToUpstream ?cfg (js ''/p'') ?req)) name = ?r name")
proof
  fix name
  have "headers_ok (wr_headers ?req)" by (simp add: headers_ok_def ascii_lower_def)
  moreover have "passthrough_strips (js ''x-signet-sig'')" by (simp add: passthrough_strips_def ascii_lower_def starts_with_def Let_def)
  ultimately show "map_of (og_headers (passthroughToUpstream ?cfg (js ''/p'') ?req)) name = ?r name" by (subst passthrough_hides_lease) auto
qed

end
