(* ===== verification/Vault_Route.thy ===== *)
theory Vault_Route imports Vault_Proxy Lease_Middleware begin

text \<open>
  The route \<open>VaultProxyRoute\<close> of \<open>src/routes/vault-proxy-route.ts\<close>: the address budget, the lease gate, the manifest's
  service and its allowed subjects, then one of three ways upstream (the caller's own credential, the vault object, or a
  store handed in). It composes the components below it: \<open>preAuthBurstLimit\<close>, \<open>gateAndVerify\<close>, \<open>checkAccess\<close>,
  \<open>proxy_begin\<close> and \<open>proxy_end\<close> of the vault object, and the handler. Everything the route sends out is part of its
  result, so that what an unauthenticated caller cannot cause is a statement about it.
\<close>

section \<open>Configuration\<close>

datatype credential_choice = Explicit_store memory_store | Vault_binding bool

record route_deps =
  rd_credentials :: credential_choice
  rd_services :: "jsstr \<Rightarrow> vaultProxyService option"
  rd_receipts :: bool
  rd_metrics :: bool
  rd_bundleIdName :: "jsstr option"

definition DEFAULT_BUNDLE_ID_NAME :: jsstr where
  "DEFAULT_BUNDLE_ID_NAME = js ''router''"

definition route_bundle :: "route_deps \<Rightarrow> jsstr" where
  "route_bundle deps = (if length (nullish (rd_bundleIdName deps) []) > 0 then nullish (rd_bundleIdName deps) [] else DEFAULT_BUNDLE_ID_NAME)"

record dev_env =
  dv_CLOISTER_MODE :: "jsstr option"
  dv_DEV_ALLOWED_SUBS :: "jsstr option"
  dv_DEV_PASSTHROUGH_SERVICES :: "jsstr option"

definition comma_list :: "jsstr \<Rightarrow> jsstr list" where
  "comma_list s = filter (\<lambda>x. x \<noteq> []) (map js_trim (split_on (of_char CHR '','') s))"

text \<open>A JSON list is taken for the declared type, an array of strings; any other text is read as a comma list.\<close>

definition dev_subs :: "jsstr \<Rightarrow> jsstr list" where
  "dev_subs text =
     (let raw = js_trim text in
      if starts_with raw (js ''['') then (case parse_subs raw of Some subs \<Rightarrow> subs | None \<Rightarrow> comma_list raw) else comma_list raw)"

definition applyDevAllowedSubs :: "dev_env \<Rightarrow> vaultProxyService option \<Rightarrow> vaultProxyService option" where
  "applyDevAllowedSubs env cfg =
     (case cfg of
        None \<Rightarrow> None
      | Some c \<Rightarrow>
          if dv_CLOISTER_MODE env \<noteq> Some (js ''dev'') \<or> \<not> truthy_str (dv_DEV_ALLOWED_SUBS env) then cfg
          else let subs = dev_subs (nullish (dv_DEV_ALLOWED_SUBS env) []) in
            if length subs = 0 then cfg else Some (c\<lparr>vps_defaultAllowedSubs := vps_defaultAllowedSubs c @ subs\<rparr>))"

definition applyDevPassthrough :: "dev_env \<Rightarrow> vaultProxyService option \<Rightarrow> vaultProxyService option" where
  "applyDevPassthrough env cfg =
     (case cfg of
        None \<Rightarrow> None
      | Some c \<Rightarrow>
          if dv_CLOISTER_MODE env \<noteq> Some (js ''dev'') \<or> \<not> truthy_str (dv_DEV_PASSTHROUGH_SERVICES env) then cfg
          else if vps_name c \<notin> set (comma_list (nullish (dv_DEV_PASSTHROUGH_SERVICES env) [])) then cfg
          else Some (c\<lparr>vps_injection := Passthrough\<rparr>))"

definition route_match :: "jsstr \<Rightarrow> bool" where
  "route_match pathname = starts_with pathname vault_prefix"

section \<open>The request\<close>

text \<open>What the route needs from around it: the hosts of the lease check and of the vault, the environments, the
  answers of the authority and of the upstreams, the clock and the random data.\<close>

record route_ctx =
  rc_lease_host :: host
  rc_lease_env :: env
  rc_notme :: "unit \<Rightarrow> notme_response"
  rc_dev :: dev_env
  rc_vault_host :: vault_host
  rc_vault_env :: vault_env
  rc_upstream :: "outgoing \<Rightarrow> response option"
  rc_vault_upstream :: "upstream_request \<Rightarrow> response option"
  rc_now :: int
  rc_end :: int
  rc_rnd :: seal_random
  rc_nonce :: jsstr

record route_state =
  rt_pre :: bucket_map
  rt_worker :: worker
  rt_rate :: rate_map
  rt_vault :: vault_do

datatype sent = Sent_direct outgoing | Sent_by_vault upstream_request

record route_result =
  rr_state :: route_state
  rr_sent :: "sent list"
  rr_rows :: "telemetry list"
  rr_response :: "response option"

definition lease_verify_args :: "web_request \<Rightarrow> (jsstr \<times> jsstr) option \<Rightarrow> verify_args" where
  "lease_verify_args req parsed =
     \<lparr>va_req = \<lparr>rq_method = wr_method req, rq_url = wr_url req, rq_headers = wr_headers req\<rparr>,
      va_body = (if wr_method req = js ''GET'' \<or> wr_method req = js ''HEAD'' then [] else utf8_decode (wr_body req)),
      va_method = js ''vaultProxy'',
      va_params = Some (case parsed of None \<Rightarrow> JObj []
        | Some (service, upstreamPath) \<Rightarrow> JObj [(js ''service'', JStr service), (js ''upstreamPath'', JStr upstreamPath)]),
      va_requestedScope = None\<rparr>"

datatype lease_verdict = Lease_passed verifiedLease | Lease_refused int | Lease_raised

definition defaultLeaseVerifier :: "route_ctx \<Rightarrow> worker \<Rightarrow> web_request \<Rightarrow> (jsstr \<times> jsstr) option \<Rightarrow> worker \<times> lease_verdict" where
  "defaultLeaseVerifier ctx w req parsed =
     (case gateAndVerify (rc_lease_host ctx) (rc_lease_env ctx) (rc_notme ctx) (rc_now ctx) w (rc_now ctx) (lease_verify_args req parsed) (Some True) of
        (w', VerdictPass lease) \<Rightarrow> (w', Lease_passed lease)
      | (w', VerdictReject code _) \<Rightarrow> (w', Lease_refused (if code = ERR_CA_UNAVAILABLE then 503 else 401))
      | (w', VerdictOff) \<Rightarrow> (w', Lease_refused 401)
      | (w', VerdictThrew) \<Rightarrow> (w', Lease_raised))"

definition size_or_zero :: "headers \<Rightarrow> int" where
  "size_or_zero hs = nullish (parse_int10 (nullish (map_of hs (js ''content-length'')) (js ''0''))) 0"

text \<open>The vault object's whole \<open>proxyRequest\<close>, with its upstream.\<close>

definition vault_proxyRequest :: "route_ctx \<Rightarrow> vault_do \<Rightarrow> jsstr \<Rightarrow> jsstr \<Rightarrow> jsstr \<Rightarrow> web_request \<Rightarrow> vault_do \<times> sent list \<times> do_outcome" where
  "vault_proxyRequest ctx v subjectFp service callerSub req =
     (case proxy_begin (rc_vault_host ctx) (rc_vault_env ctx) (rc_rnd ctx) (rc_now ctx) v subjectFp service callerSub req of
        (v1, _, Proxy_threw _) \<Rightarrow> (v1, [], Do_threw)
      | (v1, _, Proxy_reply r) \<Rightarrow> (v1, [], Do_answered r)
      | (v1, _, Proxy_forwarding out) \<Rightarrow>
          (case proxy_end v1 subjectFp (rc_vault_upstream ctx out) of
             (v2, Inl _) \<Rightarrow> (v2, [Sent_by_vault out], Do_threw)
           | (v2, Inr r) \<Rightarrow> (v2, [Sent_by_vault out], Do_answered r)))"

definition route_meta :: "route_ctx \<Rightarrow> route_deps \<Rightarrow> call_meta" where
  "route_meta ctx deps = \<lparr>cm_receipts = rd_receipts deps, cm_metrics = rd_metrics deps, cm_start = rc_now ctx, cm_end = rc_end ctx, cm_nonce = rc_nonce ctx\<rparr>"

text \<open>After the gates, with the lease and the service settled (\<open>parsed = None\<close> leaves no service).\<close>

definition route_serve :: "route_ctx \<Rightarrow> route_deps \<Rightarrow> route_state \<Rightarrow> web_request \<Rightarrow> (jsstr \<times> jsstr) option \<Rightarrow> vaultProxyService option \<Rightarrow> jsstr \<Rightarrow> route_result" where
  "route_serve ctx deps st req parsed serviceConfig peerFp =
     (let service = (case parsed of Some (s, _) \<Rightarrow> s | None \<Rightarrow> []);
          upstreamPath = (case parsed of Some (_, u) \<Rightarrow> u | None \<Rightarrow> js ''/'');
          meta = route_meta ctx deps;
          reply = (\<lambda>r. \<lparr>rr_state = st, rr_sent = [], rr_rows = [], rr_response = Some r\<rparr>);
          audited = (\<lambda>cfg outcome. forwardWithReceipt meta peerFp cfg upstreamPath (size_or_zero (wr_headers req)) outcome);
          handler = (\<lambda>m.
             let lookup = (if service \<noteq> [] then memory_resolve m peerFp service else None);
                 h = vaultProxyHandler (rc_upstream ctx) meta (rt_rate st)
                       \<lparr>pr_request = req, pr_upstreamPath = upstreamPath, pr_peerFp = Some peerFp, pr_serviceConfig = serviceConfig,
                        pr_storedCredential = map_option cl_credential lookup, pr_storedUsername = Option.bind lookup cl_username\<rparr>
             in \<lparr>rr_state = st\<lparr>rt_rate := hr_rate h\<rparr>, rr_sent = map Sent_direct (hr_sent h), rr_rows = hr_rows h, rr_response = hr_response h\<rparr>)
      in case serviceConfig of
           Some cfg \<Rightarrow>
             if vps_injection cfg = Passthrough then
               (let out = passthroughToUpstream cfg upstreamPath req; (rows, res) = audited cfg (rc_upstream ctx out)
                in \<lparr>rr_state = st, rr_sent = [Sent_direct out], rr_rows = rows, rr_response = map_option collapseWireShape res\<rparr>)
             else (case rd_credentials deps of
                Vault_binding False \<Rightarrow> reply (errorResponse 503 SHAPE_U_ERROR_BODY [])
              | Vault_binding True \<Rightarrow>
                  (let (v, sent, answer) = vault_proxyRequest ctx (rt_vault st) peerFp service peerFp req;
                       (rows, res) = audited cfg (Some (store_forward (Some answer)))
                   in \<lparr>rr_state = st\<lparr>rt_vault := v\<rparr>, rr_sent = sent, rr_rows = rows, rr_response = map_option collapseWireShape res\<rparr>)
              | Explicit_store m \<Rightarrow> handler m)
         | None \<Rightarrow>
             (case rd_credentials deps of
                Vault_binding False \<Rightarrow> reply (errorResponse 503 SHAPE_U_ERROR_BODY [])
              | Vault_binding True \<Rightarrow> handler []
              | Explicit_store m \<Rightarrow> handler m))"

definition route_handle :: "route_ctx \<Rightarrow> route_deps \<Rightarrow> route_state \<Rightarrow> jsstr \<Rightarrow> web_request \<Rightarrow> route_result" where
  "route_handle ctx deps st pathname req =
     (let parsed = parseVaultProxyPath pathname;
          (pre, preAuth) = preAuthBurstLimit (rt_pre st) (map_of (wr_headers req) (js ''cf-connecting-ip'')) (rc_now ctx);
          st1 = st\<lparr>rt_pre := pre\<rparr>;
          reply = (\<lambda>st r. \<lparr>rr_state = st, rr_sent = [], rr_rows = [], rr_response = Some r\<rparr>)
      in case preAuth of
           PreAuthRetry n \<Rightarrow> reply st1 (errorResponse 429 CONSTANT_TIME_ERROR_BODY [(js ''retry-after'', dec_of_int n)])
         | PreAuthOk \<Rightarrow>
             (case defaultLeaseVerifier ctx (rt_worker st1) req parsed of
                (w, Lease_raised) \<Rightarrow> \<lparr>rr_state = st1\<lparr>rt_worker := w\<rparr>, rr_sent = [], rr_rows = [], rr_response = None\<rparr>
              | (w, Lease_refused status) \<Rightarrow> reply (st1\<lparr>rt_worker := w\<rparr>) (errorResponse status CONSTANT_TIME_ERROR_BODY [])
              | (w, Lease_passed lease) \<Rightarrow>
                  let st2 = st1\<lparr>rt_worker := w\<rparr>;
                      declared = (case parsed of None \<Rightarrow> None | Some (service, _) \<Rightarrow> rd_services deps service);
                      serviceConfig = applyDevPassthrough (rc_dev ctx) (applyDevAllowedSubs (rc_dev ctx) declared)
                  in if parsed \<noteq> None \<and> serviceConfig = None then reply st2 (errorResponse 404 CONSTANT_TIME_ERROR_BODY [])
                     else if parsed \<noteq> None \<and> (case serviceConfig of None \<Rightarrow> False | Some cfg \<Rightarrow> \<not> checkAccess (vps_defaultAllowedSubs cfg) (vl_peerFp lease))
                     then reply st2 (errorResponse 404 CONSTANT_TIME_ERROR_BODY [])
                     else route_serve ctx deps st2 req parsed serviceConfig (vl_peerFp lease)))"


section \<open>Nothing leaves without a lease\<close>

text \<open>The service in force once the development overlays are applied.\<close>

definition effective_service :: "route_ctx \<Rightarrow> route_deps \<Rightarrow> jsstr \<Rightarrow> vaultProxyService option" where
  "effective_service ctx deps service = applyDevPassthrough (rc_dev ctx) (applyDevAllowedSubs (rc_dev ctx) (rd_services deps service))"

lemma overlay_None [simp]: "applyDevPassthrough env (applyDevAllowedSubs env None) = None"
  by (simp add: applyDevPassthrough_def applyDevAllowedSubs_def)

lemma overlay_production:
  "dv_CLOISTER_MODE (rc_dev ctx) \<noteq> Some (js ''dev'') \<Longrightarrow> effective_service ctx deps service = rd_services deps service"
  by (auto simp: effective_service_def applyDevPassthrough_def applyDevAllowedSubs_def simp del: list.map split: option.split)

text \<open>The state in which the route serves, after the budget and the gate.\<close>

definition admitted_state :: "route_ctx \<Rightarrow> route_state \<Rightarrow> web_request \<Rightarrow> worker \<Rightarrow> route_state" where
  "admitted_state ctx st req w = st\<lparr>rt_pre := fst (preAuthBurstLimit (rt_pre st) (map_of (wr_headers req) (js ''cf-connecting-ip'')) (rc_now ctx)), rt_worker := w\<rparr>"

lemma serve_without_service: "rr_sent (route_serve ctx deps st req None None peerFp) = []"
  by (auto simp: route_serve_def Let_def vaultProxyHandler_def split: credential_choice.split bool.split)

text \<open>Every answer of the route is an early refusal or comes from serving a declared service to an admitted caller.\<close>

lemma route_cases:
  "(\<exists>lease w service path cfg. gateAndVerify (rc_lease_host ctx) (rc_lease_env ctx) (rc_notme ctx) (rc_now ctx) (rt_worker st) (rc_now ctx)
        (lease_verify_args req (Some (service, path))) (Some True) = (w, VerdictPass lease) \<and>
      parseVaultProxyPath pathname = Some (service, path) \<and> effective_service ctx deps service = Some cfg \<and>
      checkAccess (vps_defaultAllowedSubs cfg) (vl_peerFp lease) \<and>
      route_handle ctx deps st pathname req = route_serve ctx deps (admitted_state ctx st req w) req (Some (service, path)) (Some cfg) (vl_peerFp lease)) \<or>
   (\<exists>w peerFp. parseVaultProxyPath pathname = None \<and> route_handle ctx deps st pathname req = route_serve ctx deps (admitted_state ctx st req w) req None None peerFp) \<or>
   (rr_sent (route_handle ctx deps st pathname req) = [] \<and> rr_rows (route_handle ctx deps st pathname req) = [] \<and>
    rt_vault (rr_state (route_handle ctx deps st pathname req)) = rt_vault st \<and> rt_rate (rr_state (route_handle ctx deps st pathname req)) = rt_rate st \<and>
    (rr_response (route_handle ctx deps st pathname req) = None \<or>
     (\<exists>status extra. rr_response (route_handle ctx deps st pathname req) = Some (errorResponse status CONSTANT_TIME_ERROR_BODY extra))))"
proof -
  obtain pre v where p: "preAuthBurstLimit (rt_pre st) (map_of (wr_headers req) (js ''cf-connecting-ip'')) (rc_now ctx) = (pre, v)" by force
  let ?parsed = "parseVaultProxyPath pathname"
  obtain w g where g: "gateAndVerify (rc_lease_host ctx) (rc_lease_env ctx) (rc_notme ctx) (rc_now ctx) (rt_worker st) (rc_now ctx)
        (lease_verify_args req ?parsed) (Some True) = (w, g)" by force
  show ?thesis
  proof (cases v)
    case PreAuthRetry
    then show ?thesis by (auto simp: route_handle_def Let_def p simp del: list.map)
  next
    case PreAuthOk
    show ?thesis
    proof (cases g)
      case (VerdictPass lease)
      show ?thesis
      proof (cases ?parsed)
        case None
        then have "route_handle ctx deps st pathname req = route_serve ctx deps (admitted_state ctx st req w) req None None (vl_peerFp lease)"
          using PreAuthOk VerdictPass g by (simp add: route_handle_def Let_def p defaultLeaseVerifier_def admitted_state_def del: list.map)
        then show ?thesis using None by blast
      next
        case (Some sp)
        obtain service path where sp: "sp = (service, path)" by force
        show ?thesis
        proof (cases "effective_service ctx deps service")
          case None
          then show ?thesis using Some sp PreAuthOk VerdictPass g
            by (auto simp: route_handle_def Let_def p defaultLeaseVerifier_def effective_service_def simp del: list.map)
        next
          case (Some cfg)
          show ?thesis
          proof (cases "checkAccess (vps_defaultAllowedSubs cfg) (vl_peerFp lease)")
            case True
            then have "route_handle ctx deps st pathname req = route_serve ctx deps (admitted_state ctx st req w) req (Some (service, path)) (Some cfg) (vl_peerFp lease)"
              using \<open>?parsed = Some sp\<close> Some sp PreAuthOk VerdictPass g
              by (simp add: route_handle_def Let_def p defaultLeaseVerifier_def effective_service_def admitted_state_def del: list.map)
            then show ?thesis using True \<open>?parsed = Some sp\<close> Some sp VerdictPass g
              by (intro disjI1 exI [of _ lease] exI [of _ w] exI [of _ service] exI [of _ path] exI [of _ cfg] conjI) simp_all
          next
            case False
            then show ?thesis using \<open>?parsed = Some sp\<close> Some sp PreAuthOk VerdictPass g
              by (auto simp: route_handle_def Let_def p defaultLeaseVerifier_def effective_service_def simp del: list.map)
          qed
        qed
      qed
    qed (use PreAuthOk g in \<open>auto simp: route_handle_def Let_def p defaultLeaseVerifier_def simp del: list.map\<close>)
  qed
qed

lemma vault_sent:
  assumes "vault_proxyRequest ctx v s service callerSub req = (v', sent, answer)"
  shows "sent = [] \<or> (\<exists>v1 audit out. proxy_begin (rc_vault_host ctx) (rc_vault_env ctx) (rc_rnd ctx) (rc_now ctx) v s service callerSub req = (v1, audit, Proxy_forwarding out) \<and> sent = [Sent_by_vault out])"
  using assms by (auto simp: vault_proxyRequest_def split: prod.splits proxy_result.splits sum.splits)

text \<open>C14: Whatever the route sends, directly or through the vault, it sends for a caller whose lease was verified, to a
  declared service whose patterns admit the lease's subject; what goes through the vault was stored for that very subject
  and service, for callers that include it.
\<close>

theorem vault_route_sends_only_authorised:
  assumes "s \<in> set (rr_sent (route_handle ctx deps st pathname req))" "ve_CLOISTER_MODE (rc_vault_env ctx) \<noteq> Some (js ''dev'')"
  shows "\<exists>lease w service path cfg. parseVaultProxyPath pathname = Some (service, path) \<and>
    gateAndVerify (rc_lease_host ctx) (rc_lease_env ctx) (rc_notme ctx) (rc_now ctx) (rt_worker st) (rc_now ctx)
        (lease_verify_args req (Some (service, path))) (Some True) = (w, VerdictPass lease) \<and>
    effective_service ctx deps service = Some cfg \<and> checkAccess (vps_defaultAllowedSubs cfg) (vl_peerFp lease) \<and>
    (\<forall>out. s = Sent_by_vault out \<longrightarrow>
      (\<exists>row subs. lookup_pk cr_key (vl_peerFp lease, service) (vd_credentials (rt_vault st)) = Some row \<and>
        parse_subs (cr_allowed_subs_json row) = Some subs \<and> checkAccess subs (vl_peerFp lease)))"
proof -
  obtain lease w service path cfg where c: "parseVaultProxyPath pathname = Some (service, path)"
    "gateAndVerify (rc_lease_host ctx) (rc_lease_env ctx) (rc_notme ctx) (rc_now ctx) (rt_worker st) (rc_now ctx)
        (lease_verify_args req (Some (service, path))) (Some True) = (w, VerdictPass lease)"
    "effective_service ctx deps service = Some cfg" "checkAccess (vps_defaultAllowedSubs cfg) (vl_peerFp lease)"
    and h: "route_handle ctx deps st pathname req = route_serve ctx deps (admitted_state ctx st req w) req (Some (service, path)) (Some cfg) (vl_peerFp lease)"
    using route_cases [of ctx st req pathname deps] assms(1) serve_without_service by (elim disjE exE conjE) (auto simp del: list.map)
  have "\<exists>row subs. lookup_pk cr_key (vl_peerFp lease, service) (vd_credentials (rt_vault st)) = Some row \<and>
      parse_subs (cr_allowed_subs_json row) = Some subs \<and> checkAccess subs (vl_peerFp lease)" if "s = Sent_by_vault out" for out
  proof -
    obtain v' l answer where v: "vault_proxyRequest ctx (rt_vault st) (vl_peerFp lease) service (vl_peerFp lease) req = (v', l, answer)" by (metis prod_cases3)
    have "s \<in> set l" using assms(1) that v
      by (auto simp: h route_serve_def Let_def forwardWithReceipt_def admitted_state_def simp del: list.map split: if_splits credential_choice.splits bool.splits)
    then obtain v1 audit out' where "proxy_begin (rc_vault_host ctx) (rc_vault_env ctx) (rc_rnd ctx) (rc_now ctx) (rt_vault st) (vl_peerFp lease) service (vl_peerFp lease) req = (v1, audit, Proxy_forwarding out')"
      using vault_sent [OF v] by auto
    from proxy_begin_authorised [OF this assms(2)] show ?thesis by blast
  qed
  then show ?thesis using c by blast
qed


text \<open>On an unauthenticated request nothing but the address budget and the trust cache can change.\<close>

lemma route_refused_state:
  assumes "parseVaultProxyPath pathname = Some (service, path)"
    and "\<And>w lease. gateAndVerify (rc_lease_host ctx) (rc_lease_env ctx) (rc_notme ctx) (rc_now ctx) (rt_worker st) (rc_now ctx)
        (lease_verify_args req (Some (service, path))) (Some True) \<noteq> (w, VerdictPass lease)"
  shows "rr_sent (route_handle ctx deps st pathname req) = [] \<and> rt_vault (rr_state (route_handle ctx deps st pathname req)) = rt_vault st"
  using route_cases [of ctx st req pathname deps] assms by auto

section \<open>Answers and audit\<close>

text \<open>C18: On the production path, with the vault bound or not, every access failure has the one body: a caller without a
  lease, an undeclared service, a subject the manifest or the vault refuses and an exhausted budget look alike, and the
  failures behind the gate (502, and 503 of the vault) share theirs.\<close>

theorem vault_route_failures_uniform:
  assumes "rd_credentials deps = Vault_binding b" "rr_response (route_handle ctx deps st pathname req) = Some r" "access_failure (rs_status r)"
  shows "rs_body r = utf8_encode CONSTANT_TIME_ERROR_BODY"
proof -
  consider (serve) w service path cfg peerFp where
      "route_handle ctx deps st pathname req = route_serve ctx deps (admitted_state ctx st req w) req (Some (service, path)) (Some cfg) peerFp"
    | (none) w peerFp where "route_handle ctx deps st pathname req = route_serve ctx deps (admitted_state ctx st req w) req None None peerFp"
    | (early) status extra where "rr_response (route_handle ctx deps st pathname req) = Some (errorResponse status CONSTANT_TIME_ERROR_BODY extra)"
    using route_cases [of ctx st req pathname deps] assms(2) by fastforce
  then show ?thesis
  proof cases
    case serve
    have "access_failure 503 = False" by (simp add: access_failure_def)
    then show ?thesis using assms serve collapse_body(1)
      by (cases b) (auto simp: route_serve_def Let_def forwardWithReceipt_def simp del: list.map split: if_splits prod.splits option.splits)
  next
    case none
    then show ?thesis using assms
      by (cases b) (auto simp: route_serve_def Let_def vaultProxyHandler_def rejection_def access_failure_def simp del: list.map)
  next
    case early
    then show ?thesis using assms(2) by simp
  qed
qed

definition audited_rows :: "jsstr \<Rightarrow> vaultProxyService \<Rightarrow> telemetry list \<Rightarrow> bool" where
  "audited_rows peerFp cfg rows \<longleftrightarrow>
     (\<exists>a. ta_peerFp a = peerFp \<and> ta_cfg a = cfg \<and> rows = [Receipt_row (receipt_of a), Metric_row (metric_of a)])"

lemma forward_audited:
  "cm_receipts meta \<Longrightarrow> cm_metrics meta \<Longrightarrow> forwardWithReceipt meta peerFp cfg path n outcome = (rows, res) \<Longrightarrow> audited_rows peerFp cfg rows"
  unfolding audited_rows_def forwardWithReceipt_def
  by (auto simp: telemetry_rows intro!: exI [of _ "\<lparr>ta_peerFp = peerFp, ta_cfg = cfg, ta_upstreamPath = path, ta_startMs = cm_start meta, ta_endMs = cm_end meta,
      ta_status = (case outcome of None \<Rightarrow> 0 | Some r \<Rightarrow> rs_status r), ta_requestSizeBytes = n,
      ta_responseSizeBytes = (case outcome of None \<Rightarrow> 0 | Some r \<Rightarrow> size_header (rs_headers r)), ta_nonceHex = cm_nonce meta\<rparr>"])

lemma handler_audited:
  assumes "cm_receipts meta" "cm_metrics meta" "hr_sent (vaultProxyHandler upstream meta m req) \<noteq> []" "pr_peerFp req = Some peerFp" "pr_serviceConfig req = Some cfg"
  shows "audited_rows peerFp cfg (hr_rows (vaultProxyHandler upstream meta m req))"
  using assms by (auto simp: vaultProxyHandler_def Let_def simp del: list.map intro: forward_audited
      split: if_splits option.splits prod.splits bool.splits)

text \<open>With both emitters configured, whatever the route sends is recorded: one receipt and one metric, for the subject
  of the lease and the service called, and the receipt's path carries no query.\<close>

theorem vault_route_audited:
  assumes "rd_receipts deps" "rd_metrics deps" "rr_sent (route_handle ctx deps st pathname req) \<noteq> []"
  shows "\<exists>lease w service path cfg receipt metric. parseVaultProxyPath pathname = Some (service, path) \<and>
    gateAndVerify (rc_lease_host ctx) (rc_lease_env ctx) (rc_notme ctx) (rc_now ctx) (rt_worker st) (rc_now ctx)
        (lease_verify_args req (Some (service, path))) (Some True) = (w, VerdictPass lease) \<and>
    effective_service ctx deps service = Some cfg \<and>
    rr_rows (route_handle ctx deps st pathname req) = [Receipt_row receipt, Metric_row metric] \<and>
    pc_peerFp receipt = vl_peerFp lease \<and> pc_service receipt = vps_name cfg \<and> mt_peer_fp metric = vl_peerFp lease \<and>
    of_char CHR ''?'' \<notin> set (pc_upstreamUrlPath receipt)"
proof -
  obtain lease w service path cfg where c: "parseVaultProxyPath pathname = Some (service, path)"
    "gateAndVerify (rc_lease_host ctx) (rc_lease_env ctx) (rc_notme ctx) (rc_now ctx) (rt_worker st) (rc_now ctx)
        (lease_verify_args req (Some (service, path))) (Some True) = (w, VerdictPass lease)"
    "effective_service ctx deps service = Some cfg"
    and h: "route_handle ctx deps st pathname req = route_serve ctx deps (admitted_state ctx st req w) req (Some (service, path)) (Some cfg) (vl_peerFp lease)"
    using route_cases [of ctx st req pathname deps] assms(3) serve_without_service by (elim disjE exE conjE) (auto simp del: list.map)
  have meta: "cm_receipts (route_meta ctx deps)" "cm_metrics (route_meta ctx deps)" using assms(1,2) by (simp_all add: route_meta_def)
  have "audited_rows (vl_peerFp lease) cfg (rr_rows (route_handle ctx deps st pathname req))"
  proof (cases "vps_injection cfg = Passthrough")
    case True
    then show ?thesis using meta by (auto simp: h route_serve_def Let_def simp del: list.map intro: forward_audited split: prod.split)
  next
    case False
    then show ?thesis
    proof (cases "rd_credentials deps")
      case (Explicit_store m)
      then show ?thesis using assms(3) False meta unfolding h
        by (auto simp: route_serve_def Let_def simp del: list.map intro!: handler_audited)
    next
      case (Vault_binding b)
      then show ?thesis using assms(3) False meta
        by (cases b) (auto simp: h route_serve_def Let_def simp del: list.map intro: forward_audited split: prod.splits)
    qed
  qed
  then obtain a where a: "ta_peerFp a = vl_peerFp lease" "ta_cfg a = cfg" "rr_rows (route_handle ctx deps st pathname req) = [Receipt_row (receipt_of a), Metric_row (metric_of a)]"
    unfolding audited_rows_def by blast
  show ?thesis
    using c a receipt_no_query [of a]
    by (intro exI [of _ lease] exI [of _ w] exI [of _ service] exI [of _ path] exI [of _ cfg] exI [of _ "receipt_of a"] exI [of _ "metric_of a"] conjI)
      (simp_all add: receipt_of_def metric_of_def del: list.map)
qed

text \<open>What the vault sends ignores the path the caller asked for: it goes to the path of the stored upstream, while the
  receipt records the requested path; the service's own rate limit is not consulted either.\<close>

lemma buildProxyRequest_url:
  "buildProxyRequest parse_url incoming cred = Some req \<Longrightarrow>
     \<exists>u. parse_url (sc_upstream cred) = Some u \<and> u_pathname (ur_url req) = u_pathname u \<and> u_hostname (ur_url req) = u_hostname u"
  by (auto simp: buildProxyRequest_def Let_def split: option.splits)

lemma serve_by_vault:
  assumes "Sent_by_vault out \<in> set (rr_sent (route_serve ctx deps st req (Some (service, path)) (Some cfg) peerFp))"
  shows "\<exists>v1 audit. proxy_begin (rc_vault_host ctx) (rc_vault_env ctx) (rc_rnd ctx) (rc_now ctx) (rt_vault st) peerFp service peerFp req = (v1, audit, Proxy_forwarding out) \<and>
    rt_rate (rr_state (route_serve ctx deps st req (Some (service, path)) (Some cfg) peerFp)) = rt_rate st \<and>
    (rd_receipts deps \<longrightarrow> (\<exists>receipt. Receipt_row receipt \<in> set (rr_rows (route_serve ctx deps st req (Some (service, path)) (Some cfg) peerFp)) \<and>
       pc_upstreamUrlPath receipt = hd (split_on (of_char CHR ''?'') path)))"
proof -
  obtain v' l answer where v: "vault_proxyRequest ctx (rt_vault st) peerFp service peerFp req = (v', l, answer)" by (metis prod_cases3)
  have cases: "vps_injection cfg \<noteq> Passthrough" "rd_credentials deps = Vault_binding True" "Sent_by_vault out \<in> set l"
    using assms v by (auto simp: route_serve_def Let_def simp del: list.map split: if_splits credential_choice.splits bool.splits prod.splits)
  have rows: "\<exists>receipt. Receipt_row receipt \<in> set (emitProxyCallTelemetry True m a) \<and> pc_upstreamUrlPath receipt = hd (split_on (of_char CHR ''?'') (ta_upstreamPath a))" for m a
    by (auto simp: emitProxyCallTelemetry_def refuseIfForbidden_def clean_keys receipt_of_def)
  have sv: "route_serve ctx deps st req (Some (service, path)) (Some cfg) peerFp =
      (let (rows, res) = forwardWithReceipt (route_meta ctx deps) peerFp cfg path (size_or_zero (wr_headers req)) (Some (store_forward (Some answer)))
       in \<lparr>rr_state = st\<lparr>rt_vault := v'\<rparr>, rr_sent = l, rr_rows = rows, rr_response = map_option collapseWireShape res\<rparr>)"
    using cases(1,2) v by (simp add: route_serve_def Let_def del: list.map)
  have "rd_receipts deps \<longrightarrow> (\<exists>receipt. Receipt_row receipt \<in> set (rr_rows (route_serve ctx deps st req (Some (service, path)) (Some cfg) peerFp)) \<and>
       pc_upstreamUrlPath receipt = hd (split_on (of_char CHR ''?'') path))"
    using rows [of "rd_metrics deps" "\<lparr>ta_peerFp = peerFp, ta_cfg = cfg, ta_upstreamPath = path, ta_startMs = rc_now ctx, ta_endMs = rc_end ctx,
      ta_status = rs_status (store_forward (Some answer)), ta_requestSizeBytes = size_or_zero (wr_headers req),
      ta_responseSizeBytes = size_header (rs_headers (store_forward (Some answer))), ta_nonceHex = rc_nonce ctx\<rparr>"]
    by (simp add: sv Let_def forwardWithReceipt_def route_meta_def del: list.map)
  then show ?thesis using vault_sent [OF v] cases by (auto simp: sv Let_def forwardWithReceipt_def)
qed

theorem vault_route_ignores_path:
  assumes "Sent_by_vault out \<in> set (rr_sent (route_handle ctx deps st pathname req))" "ve_CLOISTER_MODE (rc_vault_env ctx) \<noteq> Some (js ''dev'')"
    and "rd_receipts deps"
  shows "\<exists>service path peerFp row u receipt. parseVaultProxyPath pathname = Some (service, path) \<and>
    lookup_pk cr_key (peerFp, service) (vd_credentials (rt_vault st)) = Some row \<and> vh_parse_url (rc_vault_host ctx) (cr_upstream row) = Some u \<and>
    u_pathname (ur_url out) = u_pathname u \<and> Receipt_row receipt \<in> set (rr_rows (route_handle ctx deps st pathname req)) \<and>
    pc_upstreamUrlPath receipt = hd (split_on (of_char CHR ''?'') path) \<and>
    rt_rate (rr_state (route_handle ctx deps st pathname req)) = rt_rate st"
proof -
  obtain peerFp w service path cfg where c: "parseVaultProxyPath pathname = Some (service, path)"
    and h: "route_handle ctx deps st pathname req = route_serve ctx deps (admitted_state ctx st req w) req (Some (service, path)) (Some cfg) peerFp"
    using route_cases [of ctx st req pathname deps] assms(1) serve_without_service by (elim disjE exE conjE) (auto simp del: list.map)
  obtain v1 audit where p: "proxy_begin (rc_vault_host ctx) (rc_vault_env ctx) (rc_rnd ctx) (rc_now ctx) (rt_vault st) peerFp service peerFp req = (v1, audit, Proxy_forwarding out)"
    and rest: "rt_rate (rr_state (route_handle ctx deps st pathname req)) = rt_rate st"
      "\<exists>receipt. Receipt_row receipt \<in> set (rr_rows (route_handle ctx deps st pathname req)) \<and> pc_upstreamUrlPath receipt = hd (split_on (of_char CHR ''?'') path)"
    using serve_by_vault [OF assms(1) [unfolded h]] assms(3) unfolding h by (auto simp: admitted_state_def simp del: list.map)
  obtain row subs headers where r: "lookup_pk cr_key (peerFp, service) (vd_credentials (rt_vault st)) = Some row"
    "buildProxyRequest (vh_parse_url (rc_vault_host ctx)) req \<lparr>sc_upstream = cr_upstream row, sc_headers = headers, sc_allowedSubs = subs\<rparr> = Some out"
    using proxy_begin_authorised [OF p assms(2)] by blast
  then show ?thesis using c rest buildProxyRequest_url [OF r(2)] by auto
qed

section \<open>Instances\<close>

text \<open>A production deployment with a cached bundle, one declared service and the vault bound.\<close>

definition route_sample_request :: web_request where
  "route_sample_request = \<lparr>wr_method = js ''GET'', wr_url = js ''i'', wr_headers = rq_headers (sample_request (js ''GET'')), wr_body = []\<rparr>"

definition route_sample_path :: jsstr where
  "route_sample_path = js ''/vault/proxy/svc/p''"

definition route_sample_deps :: route_deps where
  "route_sample_deps = \<lparr>rd_credentials = Vault_binding True,
     rd_services = (\<lambda>s. Some \<lparr>vps_name = s, vps_upstreamBaseUrl = js ''https://u'', vps_injection = AuthorizationBearer, vps_defaultAllowedSubs = [js ''*''],
        vps_rateLimitPerMinute = 1\<rparr>),
     rd_receipts = True, rd_metrics = True, rd_bundleIdName = None\<rparr>"

definition route_sample_ctx :: route_ctx where
  "route_sample_ctx = \<lparr>rc_lease_host = route_sample_host, rc_lease_env = prod_env, rc_notme = (\<lambda>_. NotmeStatus 500 None),
     rc_dev = \<lparr>dv_CLOISTER_MODE = None, dv_DEV_ALLOWED_SUBS = None, dv_DEV_PASSTHROUGH_SERVICES = None\<rparr>,
     rc_vault_host = vault_sample_host, rc_vault_env = vault_sample_env, rc_upstream = (\<lambda>_. None),
     rc_vault_upstream = (\<lambda>_. Some \<lparr>rs_status = 404, rs_statusText = [], rs_headers = [], rs_body = [1]\<rparr>),
     rc_now = 1700000000000, rc_end = 1700000000001, rc_rnd = vault_sample_rnd, rc_nonce = []\<rparr>"

definition route_sample_state :: route_state where
  "route_sample_state = \<lparr>rt_pre = [], rt_worker = route_sample_worker, rt_rate = [], rt_vault = vault_sample_full\<rparr>"

lemma route_sample_budget: "\<exists>pre. preAuthBurstLimit [] ip (rc_now route_sample_ctx) = (pre, PreAuthOk)"
  by (simp add: preAuthBurstLimit_def Let_def evict_def refillBucketWithLimits_def refill_with_def consumeWithLimits_def consume_with_def
      COST_PER_REQUEST_def PRE_AUTH_LIMITS_def route_sample_ctx_def del: list.map)

lemma route_sample_parse: "parseVaultProxyPath route_sample_path = Some (js ''svc'', js ''/p'')"
  by (simp add: parseVaultProxyPath_def route_sample_path_def vault_prefix_def starts_with_def isValidServiceName_def is_lower_def dec_digit_def Let_def)

lemma route_sample_build: "\<exists>out. buildProxyRequest (vh_parse_url vault_sample_host) route_sample_request vault_sample_cred = Some out"
  by (simp add: buildProxyRequest_def vault_sample_host_def vault_sample_cred_def headers_set_def Let_def
      token_char_def alnum_def is_lower_def is_upper_def http_trim_def http_ws_def)

lemma route_sample_sent:
  "\<exists>out. rr_sent (route_handle route_sample_ctx route_sample_deps route_sample_state route_sample_path route_sample_request) = [Sent_by_vault out]"
proof -
  let ?args = "lease_verify_args route_sample_request (Some (js ''svc'', js ''/p''))"
  obtain w lease where g: "gateAndVerify route_sample_host prod_env (\<lambda>_. NotmeStatus 500 None) 1700000000000 route_sample_worker 1700000000000 ?args (Some True) = (w, VerdictPass lease)"
    and s1: "vl_peerFp lease = js ''s1''"
    using route_sample_gate [of ?args "js ''GET''" "\<lambda>_. NotmeStatus 500 None"]
    by (force simp: lease_verify_args_def route_sample_request_def simp del: list.map)
  obtain out where out: "buildProxyRequest (vh_parse_url vault_sample_host) route_sample_request vault_sample_cred = Some out" using route_sample_build by blast
  obtain v' audit where p: "proxy_begin vault_sample_host vault_sample_env vault_sample_rnd 1700000000000 vault_sample_full (js ''s1'') (js ''svc'') (js ''s1'')
     route_sample_request = (v', audit, Proxy_forwarding out)" using sample_proxy_at [OF _ out, of 1700000000000] by auto
  have acc: "checkAccess [js ''*''] (js ''s1'')" by (simp add: checkAccess_def globMatch_def starts_with_def is_control_def)
  have "effective_service route_sample_ctx route_sample_deps (js ''svc'') = rd_services route_sample_deps (js ''svc'')"
    by (rule overlay_production) (simp add: route_sample_ctx_def)
  then have e: "applyDevPassthrough (rc_dev route_sample_ctx) (applyDevAllowedSubs (rc_dev route_sample_ctx) (rd_services route_sample_deps (js ''svc''))) =
      rd_services route_sample_deps (js ''svc'')" by (simp only: effective_service_def)
  have d: "defaultLeaseVerifier route_sample_ctx route_sample_worker route_sample_request (Some (js ''svc'', js ''/p'')) = (w, Lease_passed lease)"
    using g by (simp add: defaultLeaseVerifier_def route_sample_ctx_def del: list.map)
  obtain v2 answer where v: "vault_proxyRequest route_sample_ctx vault_sample_full (js ''s1'') (js ''svc'') (js ''s1'') route_sample_request = (v2, [Sent_by_vault out], answer)"
    using p by (simp add: vault_proxyRequest_def route_sample_ctx_def proxy_end_def del: list.map)
  obtain pre' where "preAuthBurstLimit [] (map_of (wr_headers route_sample_request) (js ''cf-connecting-ip'')) (rc_now route_sample_ctx) = (pre', PreAuthOk)"
    using route_sample_budget by blast
  then have "rr_sent (route_handle route_sample_ctx route_sample_deps route_sample_state route_sample_path route_sample_request) =
      rr_sent (route_serve route_sample_ctx route_sample_deps (\<lparr>rt_pre = pre', rt_worker = w, rt_rate = [], rt_vault = vault_sample_full\<rparr>) route_sample_request
        (Some (js ''svc'', js ''/p'')) (rd_services route_sample_deps (js ''svc'')) (js ''s1''))"
    using d e acc by (simp add: route_handle_def route_sample_parse route_sample_state_def s1 Let_def route_sample_deps_def del: list.map)
  also have "\<dots> = [Sent_by_vault out]"
    using v by (simp add: route_serve_def Let_def route_sample_deps_def forwardWithReceipt_def del: list.map)
  finally show ?thesis by blast
qed

theorem vault_route_sends_only_authorised_witness:
  "\<exists>service path row subs peerFp. parseVaultProxyPath route_sample_path = Some (service, path) \<and>
     lookup_pk cr_key (peerFp, service) (vd_credentials vault_sample_full) = Some row \<and> parse_subs (cr_allowed_subs_json row) = Some subs \<and> checkAccess subs peerFp"
proof -
  obtain out where s: "rr_sent (route_handle route_sample_ctx route_sample_deps route_sample_state route_sample_path route_sample_request) = [Sent_by_vault out]"
    using route_sample_sent by blast
  have m: "ve_CLOISTER_MODE (rc_vault_env route_sample_ctx) \<noteq> Some (js ''dev'')" by (simp add: route_sample_ctx_def vault_sample_env_def)
  have "rt_vault route_sample_state = vault_sample_full" by (simp add: route_sample_state_def)
  then show ?thesis
    using vault_route_sends_only_authorised [of "Sent_by_vault out" route_sample_ctx route_sample_deps route_sample_state route_sample_path route_sample_request] s m by auto
qed

theorem vault_route_audited_witness:
  "\<exists>receipt metric. rr_rows (route_handle route_sample_ctx route_sample_deps route_sample_state route_sample_path route_sample_request) = [Receipt_row receipt, Metric_row metric] \<and>
     of_char CHR ''?'' \<notin> set (pc_upstreamUrlPath receipt)"
proof -
  have "rr_sent (route_handle route_sample_ctx route_sample_deps route_sample_state route_sample_path route_sample_request) \<noteq> []" using route_sample_sent by force
  then show ?thesis
    using vault_route_audited [of route_sample_deps route_sample_ctx route_sample_state route_sample_path route_sample_request]
    by (auto simp: route_sample_deps_def simp del: list.map)
qed

theorem vault_route_ignores_path_witness:
  "\<exists>out receipt. rr_sent (route_handle route_sample_ctx route_sample_deps route_sample_state route_sample_path route_sample_request) = [Sent_by_vault out] \<and>
     u_pathname (ur_url out) = js ''/'' \<and> pc_upstreamUrlPath receipt = js ''/p'' \<and>
     Receipt_row receipt \<in> set (rr_rows (route_handle route_sample_ctx route_sample_deps route_sample_state route_sample_path route_sample_request))"
proof -
  obtain out where s: "rr_sent (route_handle route_sample_ctx route_sample_deps route_sample_state route_sample_path route_sample_request) = [Sent_by_vault out]"
    using route_sample_sent by blast
  have "hd (split_on (of_char CHR ''?'') (js ''/p'')) = js ''/p''" by simp
  moreover have "ve_CLOISTER_MODE (rc_vault_env route_sample_ctx) \<noteq> Some (js ''dev'')" "rd_receipts route_sample_deps" "rc_vault_host route_sample_ctx = vault_sample_host"
    by (simp_all add: route_sample_ctx_def vault_sample_env_def route_sample_deps_def)
  moreover have "u_pathname u = js ''/''" if "vh_parse_url vault_sample_host x = Some u" for u x using that by (auto simp: vault_sample_host_def)
  ultimately show ?thesis
    using vault_route_ignores_path [of out route_sample_ctx route_sample_deps route_sample_state route_sample_path route_sample_request] s route_sample_parse
    by (force simp del: list.map)
qed

theorem vault_route_failures_uniform_witness:
  "\<exists>r. rr_response (route_handle route_sample_ctx route_sample_deps route_sample_state route_sample_path vault_sample_request) = Some r \<and>
     rs_status r = 401 \<and> rs_body r = utf8_encode CONSTANT_TIME_ERROR_BODY"
proof -
  let ?h = "route_handle route_sample_ctx route_sample_deps route_sample_state route_sample_path vault_sample_request"
  have h: "parseAuthHeaders (va_req (lease_verify_args vault_sample_request p)) = Inl MissingAuthorization" for p
    by (simp add: parseAuthHeaders_def header_def lease_verify_args_def vault_sample_request_def truthy_str_def)
  have g: "\<exists>w. defaultLeaseVerifier route_sample_ctx route_sample_worker vault_sample_request p = (w, Lease_refused 401)" for p
    using route_sample_trust by (simp add: defaultLeaseVerifier_def gateAndVerify_def verifyAndUpsertLease_def h Let_def route_sample_ctx_def ERR_UNAUTHENTICATED_def ERR_CA_UNAVAILABLE_def del: list.map)
  obtain pre' where "preAuthBurstLimit [] (map_of (wr_headers vault_sample_request) (js ''cf-connecting-ip'')) (rc_now route_sample_ctx) = (pre', PreAuthOk)"
    using route_sample_budget by blast
  then have r: "rr_response ?h = Some (errorResponse 401 CONSTANT_TIME_ERROR_BODY [])"
    using g [of "Some (js ''svc'', js ''/p'')"] by (auto simp: route_handle_def route_sample_parse route_sample_state_def Let_def simp del: list.map)
  have st: "rs_status (errorResponse 401 CONSTANT_TIME_ERROR_BODY []) = 401" by (simp add: errorResponse_def)
  have "rs_body (errorResponse 401 CONSTANT_TIME_ERROR_BODY []) = utf8_encode CONSTANT_TIME_ERROR_BODY"
    by (rule vault_route_failures_uniform [OF _ r]) (simp_all add: route_sample_deps_def st access_failure_def del: list.map)
  then show ?thesis using r st by blast
qed

end
