(* ===== verification/Oci_Registry.thy ===== *)
theory Oci_Registry
  imports Lease_Middleware Blob_Store Js_Web
begin

text \<open>
  The OCI registry of \<open>src/routes/oci-registry.ts\<close>: pulls of manifests and blobs through the per-repository
  membership gate, and pushes by one request, by upload session, and of manifests with their tags. The route
  composes the lease gate, the trust store's two registry tables and the blob store; its own state is the map
  of open upload sessions. Every call to a Durable Object may lose its request or its reply, and then the
  handler throws. A URL always parses, since it comes from a \<open>Request\<close>, and \<open>URLPattern\<close> is written out on its
  path segments. Handlers are atomic: two requests of one upload session are not interleaved.

  What is pushed can be pulled, a repository serves only what was pushed to it, session sizes stay under the
  cap, and a refused write changes neither the index nor the blobs.
\<close>

section \<open>Patterns and grammars\<close>

definition slash :: jschar where
  "slash = of_char CHR ''/''"

fun join_segments :: "jsstr list \<Rightarrow> jsstr" where
  "join_segments [] = []"
| "join_segments [s] = s"
| "join_segments (s # t # ss) = s @ slash # join_segments (t # ss)"

text \<open>The segments below \<open>/v2/\<close>, and \<open>:name+\<close>, one or more non-empty segments.\<close>

definition v2_segments :: "jsstr \<Rightarrow> jsstr list option" where
  "v2_segments p = (case split_on slash p of a # v # segs \<Rightarrow> if a = [] \<and> v = js ''v2'' then Some segs else None | _ \<Rightarrow> None)"

definition name_group :: "jsstr list \<Rightarrow> jsstr option" where
  "name_group segs = (if segs \<noteq> [] \<and> [] \<notin> set segs then Some (join_segments segs) else None)"

definition PATTERN_VERSION :: "jsstr \<Rightarrow> bool" where
  "PATTERN_VERSION p = (p = js ''/v2/'')"

definition PATTERN_VERSION_NO_SLASH :: "jsstr \<Rightarrow> bool" where
  "PATTERN_VERSION_NO_SLASH p = (p = js ''/v2'')"

definition PATTERN_CATALOG :: "jsstr \<Rightarrow> bool" where
  "PATTERN_CATALOG p = (p = js ''/v2/_catalog'')"

definition PATTERN_TAGS :: "jsstr \<Rightarrow> jsstr option" where
  "PATTERN_TAGS p =
     (case map_option rev (v2_segments p) of
        Some (l # t # name) \<Rightarrow> if l = js ''list'' \<and> t = js ''tags'' then name_group (rev name) else None
      | _ \<Rightarrow> None)"

text \<open>\<open>/v2/:name+/<literal>/:group\<close>.\<close>

definition two_groups :: "jsstr \<Rightarrow> jsstr \<Rightarrow> (jsstr \<times> jsstr) option" where
  "two_groups lit p =
     (case map_option rev (v2_segments p) of
        Some (g # l # name) \<Rightarrow> if g \<noteq> [] \<and> l = lit then map_option (\<lambda>n. (n, g)) (name_group (rev name)) else None
      | _ \<Rightarrow> None)"

definition PATTERN_MANIFEST :: "jsstr \<Rightarrow> (jsstr \<times> jsstr) option" where
  "PATTERN_MANIFEST = two_groups (js ''manifests'')"

definition PATTERN_BLOB :: "jsstr \<Rightarrow> (jsstr \<times> jsstr) option" where
  "PATTERN_BLOB = two_groups (js ''blobs'')"

definition PATTERN_UPLOAD_BEGIN :: "jsstr \<Rightarrow> jsstr option" where
  "PATTERN_UPLOAD_BEGIN p =
     (case map_option rev (v2_segments p) of
        Some (e # u # b # name) \<Rightarrow> if e = [] \<and> u = js ''uploads'' \<and> b = js ''blobs'' then name_group (rev name) else None
      | _ \<Rightarrow> None)"

definition PATTERN_UPLOAD_SESSION :: "jsstr \<Rightarrow> (jsstr \<times> jsstr) option" where
  "PATTERN_UPLOAD_SESSION p =
     (case map_option rev (v2_segments p) of
        Some (g # u # b # name) \<Rightarrow>
          if g \<noteq> [] \<and> u = js ''uploads'' \<and> b = js ''blobs'' then map_option (\<lambda>n. (n, g)) (name_group (rev name)) else None
      | _ \<Rightarrow> None)"

definition REPO_NAME_RE :: "jsstr \<Rightarrow> bool" where
  "REPO_NAME_RE name =
     (case name of [] \<Rightarrow> False
      | c # r \<Rightarrow> (is_lower c \<or> dec_digit c) \<and> length r \<le> 254 \<and>
          (\<forall>d \<in> set r. is_lower d \<or> dec_digit d \<or> d \<in> set (js ''._/-'')))"

definition TAG_RE :: "jsstr \<Rightarrow> bool" where
  "TAG_RE tag =
     (case tag of [] \<Rightarrow> False
      | c # r \<Rightarrow> (alnum c \<or> c = of_char CHR ''_'') \<and> length r \<le> 127 \<and> (\<forall>d \<in> set r. alnum d \<or> d \<in> set (js ''._-'')))"

section \<open>Responses\<close>

definition API_VERSION :: "jsstr \<times> jsstr" where
  "API_VERSION = (js ''docker-distribution-api-version'', js ''registry/2.0'')"

definition DEFAULT_MANIFEST_MEDIA_TYPE :: jsstr where
  "DEFAULT_MANIFEST_MEDIA_TYPE = js ''application/vnd.oci.image.manifest.v1+json''"

definition sha256_prefix :: jsstr where
  "sha256_prefix = js ''sha256:''"

definition ociError :: "int \<Rightarrow> string \<Rightarrow> jsstr \<Rightarrow> response" where
  "ociError status code message =
     \<lparr>rs_status = status, rs_statusText = [], rs_headers = [(js ''content-type'', js ''application/json; charset=utf-8''), API_VERSION],
      rs_body = utf8_encode (json_text (JObj [(js ''errors'', JArr [JObj [(js ''code'', JStr (js code)), (js ''message'', JStr message)]])]))\<rparr>"

definition jsonResponse :: "json \<Rightarrow> response" where
  "jsonResponse body =
     \<lparr>rs_status = 200, rs_statusText = [], rs_headers = [(js ''content-type'', js ''application/json; charset=utf-8''), API_VERSION],
      rs_body = utf8_encode (json_text body)\<rparr>"

definition pickManifestMediaType :: "(jsstr \<Rightarrow> json option) \<Rightarrow> bytes \<Rightarrow> jsstr" where
  "pickManifestMediaType parse bytes =
     (case get_prop (parse (utf8_decode bytes)) (js ''mediaType'') of
        Some (JStr t) \<Rightarrow> if length t > 0 then t else DEFAULT_MANIFEST_MEDIA_TYPE
      | _ \<Rightarrow> DEFAULT_MANIFEST_MEDIA_TYPE)"

definition digest_headers :: "jsstr \<Rightarrow> headers" where
  "digest_headers digest = [(js ''docker-content-digest'', sha256_prefix @ digest), API_VERSION, (js ''etag'', js ''\"'' @ sha256_prefix @ digest @ js ''\"'')]"

text \<open>A media type that is no header value makes the \<open>Response\<close> constructor throw.\<close>

definition manifestResponse :: "(jsstr \<Rightarrow> json option) \<Rightarrow> bytes \<Rightarrow> jsstr \<Rightarrow> response option" where
  "manifestResponse parse bytes digest =
     map_option (\<lambda>hs. \<lparr>rs_status = 200, rs_statusText = [],
         rs_headers = hs @ (js ''content-length'', dec_digits (length bytes)) # digest_headers digest, rs_body = bytes\<rparr>)
       (headers_set [] (js ''content-type'') (pickManifestMediaType parse bytes))"

definition manifestHeadResponse :: "jsstr \<Rightarrow> response" where
  "manifestHeadResponse digest =
     \<lparr>rs_status = 200, rs_statusText = [], rs_headers = (js ''content-type'', DEFAULT_MANIFEST_MEDIA_TYPE) # digest_headers digest, rs_body = []\<rparr>"

definition blobResponse :: "bytes \<Rightarrow> jsstr \<Rightarrow> response" where
  "blobResponse bytes digest =
     \<lparr>rs_status = 200, rs_statusText = [],
      rs_headers = (js ''content-type'', js ''application/octet-stream'') # (js ''content-length'', dec_digits (length bytes)) # digest_headers digest,
      rs_body = bytes\<rparr>"

definition blobHeadResponse :: "jsstr \<Rightarrow> response" where
  "blobHeadResponse digest =
     \<lparr>rs_status = 200, rs_statusText = [], rs_headers = (js ''content-type'', js ''application/octet-stream'') # digest_headers digest, rs_body = []\<rparr>"

definition uploadAcceptedResponse :: "jsstr \<Rightarrow> jsstr \<Rightarrow> nat \<Rightarrow> response" where
  "uploadAcceptedResponse name uuid sz =
     (let rangeEnd = (if sz = 0 then 0 else sz - 1) in
      \<lparr>rs_status = 202, rs_statusText = [],
       rs_headers = [(js ''location'', js ''/v2/'' @ name @ js ''/blobs/uploads/'' @ uuid), (js ''range'', js ''0-'' @ dec_digits rangeEnd),
         (js ''content-length'', js ''0''), (js ''docker-upload-uuid'', uuid), API_VERSION],
       rs_body = []\<rparr>)"

definition blobCreatedResponse :: "jsstr \<Rightarrow> jsstr \<Rightarrow> response" where
  "blobCreatedResponse name digest =
     \<lparr>rs_status = 201, rs_statusText = [],
      rs_headers = [(js ''location'', js ''/v2/'' @ name @ js ''/blobs/'' @ sha256_prefix @ digest), (js ''docker-content-digest'', sha256_prefix @ digest),
        (js ''content-length'', js ''0''), API_VERSION],
      rs_body = []\<rparr>"

definition manifestCreatedResponse :: "jsstr \<Rightarrow> jsstr \<Rightarrow> jsstr \<Rightarrow> response" where
  "manifestCreatedResponse name reference digest =
     \<lparr>rs_status = 201, rs_statusText = [],
      rs_headers = [(js ''location'', js ''/v2/'' @ name @ js ''/manifests/'' @ reference), (js ''docker-content-digest'', sha256_prefix @ digest),
        (js ''content-length'', js ''0''), API_VERSION],
      rs_body = []\<rparr>"

section \<open>Digests and chunks\<close>

definition parseSha256Param :: "jsstr \<Rightarrow> jsstr option" where
  "parseSha256Param value =
     (if \<not> starts_with value sha256_prefix then None
      else let hex = drop (length sha256_prefix) value in if isDigest hex then Some hex else None)"

definition verifyClaimedDigest :: "(bytes \<Rightarrow> bytes) \<Rightarrow> (bytes \<Rightarrow> jsstr) \<Rightarrow> bytes \<Rightarrow> jsstr \<Rightarrow> jsstr option" where
  "verifyClaimedDigest sha blake body claimedDigest =
     (case parseSha256Param claimedDigest of
        None \<Rightarrow> None
      | Some parsed \<Rightarrow>
          if digestBytes sha body = parsed then Some parsed
          else if blake body = parsed then Some parsed
          else None)"

text \<open>\<open>out.set(c, off)\<close> for each chunk, in an array of \<open>size\<close> zeros; \<open>None\<close> is its \<open>RangeError\<close>.\<close>

fun set_chunks :: "bytes list \<Rightarrow> nat \<Rightarrow> bytes \<Rightarrow> bytes option" where
  "set_chunks [] off out = Some out"
| "set_chunks (c # cs) off out =
     (if off + length c > length out then None
      else set_chunks cs (off + length c) (take off out @ c @ drop (off + length c) out))"

definition concatChunks :: "bytes list \<Rightarrow> nat \<Rightarrow> bytes option" where
  "concatChunks chunks sz = set_chunks chunks 0 (replicate sz 0)"

section \<open>State and environment\<close>

record uploadSession =
  us_name :: jsstr
  us_chunks :: "bytes list"
  us_size :: nat

record oci_state =
  os_uploads :: "(jsstr \<times> uploadSession) list"
  os_worker :: worker
  os_blobs :: blob_store

definition DEFAULT_MAX_BLOB_BYTES :: nat where
  "DEFAULT_MAX_BLOB_BYTES = 256 * 1024 * 1024"

record oci_host =
  oh_lease :: host
  oh_env :: env
  oh_notme :: "unit \<Rightarrow> notme_response"
  oh_blake :: "bytes \<Rightarrow> jsstr"
  oh_url :: "jsstr \<Rightarrow> url"
  oh_maxBlobBytes :: nat
  oh_now :: int
  oh_uuid :: jsstr
  oh_index_read :: rpc_fate
  oh_member_read :: rpc_fate
  oh_blob_call :: rpc_fate
  oh_member_write :: rpc_fate
  oh_tag_write :: rpc_fate

abbreviation oci_trust :: "oci_state \<Rightarrow> trust_store" where
  "oci_trust st \<equiv> wk_store (os_worker st)"

definition set_trust :: "oci_state \<Rightarrow> trust_store \<Rightarrow> oci_state" where
  "set_trust st ts = st\<lparr>os_worker := (os_worker st)\<lparr>wk_store := ts\<rparr>\<rparr>"

definition oci_maxBlobBytes :: "nat option \<Rightarrow> nat" where
  "oci_maxBlobBytes maxBlobBytes = nullish maxBlobBytes DEFAULT_MAX_BLOB_BYTES"

text \<open>A handler answers, or throws with \<open>None\<close>.\<close>

type_synonym oci_result = "oci_state \<times> response option"

section \<open>Gates\<close>

definition too_large :: "oci_host \<Rightarrow> int \<Rightarrow> response" where
  "too_large host n = ociError 413 ''SIZE_INVALID''
     (js ''body of '' @ dec_of_int n @ js '' bytes exceeds maxBlobBytes='' @ dec_digits (oh_maxBlobBytes host))"

definition checkContentLengthHeader :: "oci_host \<Rightarrow> web_request \<Rightarrow> response option" where
  "checkContentLengthHeader host req =
     (case map_of (wr_headers req) (js ''content-length'') of
        None \<Rightarrow> None
      | Some cl \<Rightarrow>
          (case parse_int10 cl of
             None \<Rightarrow> None
           | Some declared \<Rightarrow> if declared < 0 then None else if declared > int (oh_maxBlobBytes host) then Some (too_large host declared) else None))"

definition checkActualSize :: "oci_host \<Rightarrow> nat \<Rightarrow> response option" where
  "checkActualSize host actualBytes = (if actualBytes > oh_maxBlobBytes host then Some (too_large host (int actualBytes)) else None)"

datatype write_gate = Write_denied response | Write_threw | Write_allowed

definition gate_args :: "web_request \<Rightarrow> jsstr \<Rightarrow> verify_args" where
  "gate_args req name =
     \<lparr>va_req = \<lparr>rq_method = wr_method req, rq_url = wr_url req, rq_headers = wr_headers req\<rparr>, va_body = utf8_decode (wr_body req),
      va_method = js ''oci-write'', va_params = None, va_requestedScope = Some (js ''oci:write:'' @ name)\<rparr>"

definition gateWrite :: "oci_host \<Rightarrow> oci_state \<Rightarrow> web_request \<Rightarrow> jsstr \<Rightarrow> oci_state \<times> write_gate" where
  "gateWrite host st req name =
     (let (w, verdict) = gateAndVerify (oh_lease host) (oh_env host) (oh_notme host) (oh_now host) (os_worker st) (oh_now host) (gate_args req name) None
      in (st\<lparr>os_worker := w\<rparr>,
          case verdict of
            VerdictReject _ _ \<Rightarrow> Write_denied (ociError 401 ''DENIED'' (js ''authentication required''))
          | VerdictThrew \<Rightarrow> Write_threw
          | _ \<Rightarrow> Write_allowed))"

text \<open>The three writes of a push: the bytes, then the membership, then the tag.\<close>

definition store_blob :: "oci_host \<Rightarrow> oci_state \<Rightarrow> bytes \<Rightarrow> jsstr \<Rightarrow> oci_state \<times> bool" where
  "store_blob host st bytes key =
     (let (b, r) = rpc (oh_blob_call host) (os_blobs st) (\<lambda>b. blob_put (h_sha256 (oh_lease host)) (oh_blake host) b bytes (Some key))
      in (st\<lparr>os_blobs := b\<rparr>, case r of Some (Inr _) \<Rightarrow> True | _ \<Rightarrow> False))"

definition record_member :: "oci_host \<Rightarrow> oci_state \<Rightarrow> jsstr \<Rightarrow> jsstr \<Rightarrow> membershipKind \<Rightarrow> oci_state \<times> bool" where
  "record_member host st name key kind =
     (let (ts, r) = rpc (oh_member_write host) (oci_trust st) (\<lambda>ts. (recordRegistryMembership ts name key kind (oh_now host) None, ()))
      in (set_trust st ts, r \<noteq> None))"

definition write_tag :: "oci_host \<Rightarrow> oci_state \<Rightarrow> jsstr \<Rightarrow> jsstr \<Rightarrow> jsstr \<Rightarrow> oci_state \<times> bool" where
  "write_tag host st name tag digest =
     (let (ts, r) = rpc (oh_tag_write host) (oci_trust st) (\<lambda>ts. (upsertRegistryTag ts name tag digest (oh_now host), ()))
      in (set_trust st ts, r \<noteq> None))"

definition push_blob :: "oci_host \<Rightarrow> oci_state \<Rightarrow> jsstr \<Rightarrow> bytes \<Rightarrow> jsstr \<Rightarrow> membershipKind \<Rightarrow> oci_state \<times> bool" where
  "push_blob host st name bytes key kind =
     (let (st1, stored) = store_blob host st bytes key in
      if \<not> stored then (st1, False) else record_member host st1 name key kind)"

section \<open>Pushes\<close>

definition name_invalid :: "jsstr \<Rightarrow> response" where
  "name_invalid name = ociError 400 ''NAME_INVALID'' (js ''invalid repository name: '' @ name)"

definition digest_mismatch :: "jsstr \<Rightarrow> response" where
  "digest_mismatch claimed =
     ociError 400 ''DIGEST_INVALID'' (js ''digest mismatch: client='' @ claimed @ js '' body matches neither sha256 nor blake3'')"

definition digest_param :: "oci_host \<Rightarrow> web_request \<Rightarrow> jsstr option" where
  "digest_param host req = map_of (u_params (oh_url host (wr_url req))) (js ''digest'')"

definition handleUploadBegin :: "oci_host \<Rightarrow> oci_state \<Rightarrow> web_request \<Rightarrow> oci_result" where
  "handleUploadBegin host st req =
     (let name = nullish (PATTERN_UPLOAD_BEGIN (u_pathname (oh_url host (wr_url req)))) []; body = wr_body req in
      if \<not> REPO_NAME_RE name then (st, Some (name_invalid name))
      else case gateWrite host st req name of
        (st, Write_denied r) \<Rightarrow> (st, Some r)
      | (st, Write_threw) \<Rightarrow> (st, None)
      | (st, Write_allowed) \<Rightarrow>
          (case digest_param host req of
             Some claimedDigest \<Rightarrow>
               if parseSha256Param claimedDigest = None
               then (st, Some (ociError 400 ''DIGEST_INVALID'' (js ''digest must be sha256:<64-hex>: '' @ claimedDigest)))
               else (case checkContentLengthHeader host req of Some r \<Rightarrow> (st, Some r) | None \<Rightarrow>
                 (case checkActualSize host (length body) of Some r \<Rightarrow> (st, Some r) | None \<Rightarrow>
                 (case verifyClaimedDigest (h_sha256 (oh_lease host)) (oh_blake host) body claimedDigest of
                    None \<Rightarrow> (st, Some (digest_mismatch claimedDigest))
                  | Some key \<Rightarrow>
                      let (st1, ok) = push_blob host st name body key MBlob
                      in (st1, if ok then Some (blobCreatedResponse name key) else None))))
           | None \<Rightarrow>
               (case checkContentLengthHeader host req of Some r \<Rightarrow> (st, Some r) | None \<Rightarrow>
               (case checkActualSize host (length body) of Some r \<Rightarrow> (st, Some r) | None \<Rightarrow>
                 (st\<lparr>os_uploads := AList.update (oh_uuid host)
                      \<lparr>us_name = name, us_chunks = (if length body > 0 then [body] else []), us_size = length body\<rparr> (os_uploads st)\<rparr>,
                  Some (uploadAcceptedResponse name (oh_uuid host) (length body)))))))"

text \<open>The session of a request, and a session with a chunk pushed to it.\<close>

definition open_session :: "oci_state \<Rightarrow> jsstr \<Rightarrow> jsstr \<Rightarrow> uploadSession option" where
  "open_session st name uuid =
     (case map_of (os_uploads st) uuid of
        None \<Rightarrow> None
      | Some sess \<Rightarrow> if us_name sess \<noteq> name then None else Some sess)"

definition push_chunk :: "uploadSession \<Rightarrow> bytes \<Rightarrow> uploadSession" where
  "push_chunk sess chunk =
     (if length chunk > 0 then sess\<lparr>us_chunks := us_chunks sess @ [chunk], us_size := us_size sess + length chunk\<rparr> else sess)"

definition upload_unknown :: "jsstr \<Rightarrow> response" where
  "upload_unknown uuid = ociError 404 ''BLOB_UPLOAD_UNKNOWN'' (js ''upload not found: '' @ uuid)"

definition handleUploadPatch :: "oci_host \<Rightarrow> oci_state \<Rightarrow> web_request \<Rightarrow> oci_result" where
  "handleUploadPatch host st req =
     (let (name, uuid) = nullish (PATTERN_UPLOAD_SESSION (u_pathname (oh_url host (wr_url req)))) ([], []); chunk = wr_body req in
      if \<not> REPO_NAME_RE name then (st, Some (name_invalid name))
      else case gateWrite host st req name of
        (st, Write_denied r) \<Rightarrow> (st, Some r)
      | (st, Write_threw) \<Rightarrow> (st, None)
      | (st, Write_allowed) \<Rightarrow>
          (case open_session st name uuid of
             None \<Rightarrow> (st, Some (upload_unknown uuid))
           | Some sess \<Rightarrow>
               (case checkContentLengthHeader host req of Some r \<Rightarrow> (st, Some r) | None \<Rightarrow>
               (case checkActualSize host (us_size sess + length chunk) of Some r \<Rightarrow> (st, Some r) | None \<Rightarrow>
                 (let sess' = push_chunk sess chunk
                  in (st\<lparr>os_uploads := AList.update uuid sess' (os_uploads st)\<rparr>, Some (uploadAcceptedResponse name uuid (us_size sess'))))))))"

definition handleUploadFinalize :: "oci_host \<Rightarrow> oci_state \<Rightarrow> web_request \<Rightarrow> oci_result" where
  "handleUploadFinalize host st req =
     (let (name, uuid) = nullish (PATTERN_UPLOAD_SESSION (u_pathname (oh_url host (wr_url req)))) ([], []); trailing = wr_body req in
      if \<not> REPO_NAME_RE name then (st, Some (name_invalid name))
      else case gateWrite host st req name of
        (st, Write_denied r) \<Rightarrow> (st, Some r)
      | (st, Write_threw) \<Rightarrow> (st, None)
      | (st, Write_allowed) \<Rightarrow>
          (case open_session st name uuid of
             None \<Rightarrow> (st, Some (upload_unknown uuid))
           | Some sess \<Rightarrow>
               (case digest_param host req of
                  None \<Rightarrow> (st, Some (ociError 400 ''DIGEST_INVALID'' (js ''finalize PUT requires ?digest=sha256:<hex>'')))
                | Some claimedDigest \<Rightarrow>
                    if parseSha256Param claimedDigest = None
                    then (st, Some (ociError 400 ''DIGEST_INVALID'' (js ''digest must be sha256:<64-hex>: '' @ claimedDigest)))
                    else (case checkContentLengthHeader host req of Some r \<Rightarrow> (st, Some r) | None \<Rightarrow>
                      (case checkActualSize host (us_size sess + length trailing) of Some r \<Rightarrow> (st, Some r) | None \<Rightarrow>
                      (let sess' = push_chunk sess trailing; st1 = st\<lparr>os_uploads := AList.update uuid sess' (os_uploads st)\<rparr>
                       in case concatChunks (us_chunks sess') (us_size sess') of
                            None \<Rightarrow> (st1, None)
                          | Some full \<Rightarrow>
                              (case verifyClaimedDigest (h_sha256 (oh_lease host)) (oh_blake host) full claimedDigest of
                                 None \<Rightarrow> (st1, Some (digest_mismatch claimedDigest))
                               | Some key \<Rightarrow>
                                   let (st2, ok) = push_blob host st1 name full key MBlob
                                   in if ok then (st2\<lparr>os_uploads := AList.delete uuid (os_uploads st2)\<rparr>, Some (blobCreatedResponse name key))
                                      else (st2, None))))))))"

text \<open>The storage key of a manifest: the verified reference, or the body's digest under a tag.\<close>

definition manifest_key :: "oci_host \<Rightarrow> bytes \<Rightarrow> jsstr \<Rightarrow> response + jsstr" where
  "manifest_key host body reference =
     (if starts_with reference sha256_prefix
      then (case verifyClaimedDigest (h_sha256 (oh_lease host)) (oh_blake host) body reference of
              None \<Rightarrow> Inl (ociError 400 ''DIGEST_INVALID'' (js ''manifest digest mismatch: ref='' @ reference @ js '' body matches neither sha256 nor blake3''))
            | Some key \<Rightarrow> Inr key)
      else if \<not> TAG_RE reference then Inl (ociError 400 ''MANIFEST_INVALID'' (js ''invalid tag: '' @ reference))
      else Inr (digestBytes (h_sha256 (oh_lease host)) body))"

definition header_mismatch :: "oci_host \<Rightarrow> web_request \<Rightarrow> response option" where
  "header_mismatch host req =
     (case map_of (wr_headers req) (js ''docker-content-digest'') of
        None \<Rightarrow> None
      | Some headerDigest \<Rightarrow>
          if verifyClaimedDigest (h_sha256 (oh_lease host)) (oh_blake host) (wr_body req) headerDigest = None
          then Some (ociError 400 ''DIGEST_INVALID'' (js ''header digest mismatch: header='' @ headerDigest @ js '' body matches neither sha256 nor blake3''))
          else None)"

definition handleManifestPut :: "oci_host \<Rightarrow> oci_state \<Rightarrow> web_request \<Rightarrow> oci_result" where
  "handleManifestPut host st req =
     (let (name, reference) = nullish (PATTERN_MANIFEST (u_pathname (oh_url host (wr_url req)))) ([], []); body = wr_body req in
      if \<not> REPO_NAME_RE name then (st, Some (name_invalid name))
      else case gateWrite host st req name of
        (st, Write_denied r) \<Rightarrow> (st, Some r)
      | (st, Write_threw) \<Rightarrow> (st, None)
      | (st, Write_allowed) \<Rightarrow>
          (case checkContentLengthHeader host req of Some r \<Rightarrow> (st, Some r) | None \<Rightarrow>
          (case checkActualSize host (length body) of Some r \<Rightarrow> (st, Some r) | None \<Rightarrow>
            if length body = 0 then (st, Some (ociError 400 ''MANIFEST_INVALID'' (js ''empty manifest body'')))
            else case manifest_key host body reference of
              Inl r \<Rightarrow> (st, Some r)
            | Inr storageKey \<Rightarrow>
                (case header_mismatch host req of Some r \<Rightarrow> (st, Some r) | None \<Rightarrow>
                  (case push_blob host st name body storageKey MManifest of
                     (st1, False) \<Rightarrow> (st1, None)
                   | (st1, True) \<Rightarrow>
                       if starts_with reference sha256_prefix then (st1, Some (manifestCreatedResponse name reference storageKey))
                       else let (st2, tagged) = write_tag host st1 name reference (sha256_prefix @ storageKey)
                            in (st2, if tagged then Some (manifestCreatedResponse name reference storageKey) else None))))))"

section \<open>Pulls\<close>

text \<open>Reads leave the state alone; a read whose request or reply is lost throws.\<close>

definition oci_read :: "rpc_fate \<Rightarrow> 'a \<Rightarrow> 'a option" where
  "oci_read fate v = (case fate of Delivered \<Rightarrow> Some v | _ \<Rightarrow> None)"

definition manifest_unknown :: "jsstr \<Rightarrow> response" where
  "manifest_unknown reference = ociError 404 ''MANIFEST_UNKNOWN'' (js ''manifest unknown: '' @ reference)"

definition blob_unknown :: "jsstr \<Rightarrow> response" where
  "blob_unknown digest = ociError 404 ''BLOB_UNKNOWN'' (js ''blob unknown: '' @ digest)"

definition resolve_reference :: "oci_host \<Rightarrow> oci_state \<Rightarrow> jsstr \<Rightarrow> jsstr \<Rightarrow> (response option + jsstr)" where
  "resolve_reference host st name reference =
     (if starts_with reference sha256_prefix
      then let hex = drop (length sha256_prefix) reference in
        if \<not> isDigest hex then Inl (Some (manifest_unknown reference)) else Inr hex
      else if \<not> TAG_RE reference then Inl (Some (manifest_unknown reference))
      else case oci_read (oh_index_read host) (getManifestDigestForTag (ts_tags (oci_trust st)) name reference) of
             None \<Rightarrow> Inl None
           | Some found \<Rightarrow>
               let d = nullish found [] in
               if \<not> truthy_str found then Inl (Some (manifest_unknown reference))
               else if \<not> starts_with d sha256_prefix
               then Inl (Some (ociError 500 ''UNSUPPORTED'' (js ''tag-index digest has unexpected algorithm: '' @ d)))
               else let hex = drop (length sha256_prefix) d in
                 if \<not> isDigest hex then Inl (Some (ociError 500 ''UNSUPPORTED'' (js ''tag-index digest malformed: '' @ d)))
                 else Inr hex)"

text \<open>The membership gate and then the bytes, for a manifest and for a blob.\<close>

definition pull :: "oci_host \<Rightarrow> oci_state \<Rightarrow> jsstr \<Rightarrow> jsstr \<Rightarrow> membershipKind \<Rightarrow> response \<Rightarrow> bool \<Rightarrow> response \<Rightarrow> (bytes \<Rightarrow> response option) \<Rightarrow> response option" where
  "pull host st name d kind unknown isHead head_response serve =
     (case oci_read (oh_member_read host) (hasMembership (ts_members (oci_trust st)) name d kind) of
        None \<Rightarrow> None
      | Some False \<Rightarrow> Some unknown
      | Some True \<Rightarrow>
          if isHead
          then (case oci_read (oh_blob_call host) (workerd_has (os_blobs st) d) of
                  None \<Rightarrow> None
                | Some exists \<Rightarrow> Some (if exists then head_response else unknown))
          else (case oci_read (oh_blob_call host) (workerd_get (os_blobs st) d) of
                  None \<Rightarrow> None
                | Some None \<Rightarrow> Some unknown
                | Some (Some bytes) \<Rightarrow> serve bytes))"

definition getManifest :: "oci_host \<Rightarrow> oci_state \<Rightarrow> bool \<Rightarrow> jsstr \<Rightarrow> jsstr \<Rightarrow> response option" where
  "getManifest host st isHead name reference =
     (if \<not> REPO_NAME_RE name then Some (name_invalid name)
      else case resolve_reference host st name reference of
        Inl r \<Rightarrow> r
      | Inr d \<Rightarrow> pull host st name d MManifest (manifest_unknown reference) isHead (manifestHeadResponse d)
                   (\<lambda>bytes. manifestResponse (h_json_parse (oh_lease host)) bytes d))"

definition getBlob :: "oci_host \<Rightarrow> oci_state \<Rightarrow> bool \<Rightarrow> jsstr \<Rightarrow> jsstr \<Rightarrow> response option" where
  "getBlob host st isHead name digest =
     (if \<not> REPO_NAME_RE name then Some (name_invalid name)
      else case parseSha256Param digest of
        None \<Rightarrow> Some (blob_unknown digest)
      | Some d \<Rightarrow> pull host st name d MBlob (blob_unknown digest) isHead (blobHeadResponse d) (\<lambda>bytes. Some (blobResponse bytes d)))"

definition getTags :: "oci_host \<Rightarrow> oci_state \<Rightarrow> jsstr \<Rightarrow> response option" where
  "getTags host st name =
     (if \<not> REPO_NAME_RE name then Some (name_invalid name)
      else map_option (\<lambda>tags.
          if length tags = 0 then ociError 404 ''NAME_UNKNOWN'' (js ''repository name not known: '' @ name)
          else jsonResponse (JObj [(js ''name'', JStr name), (js ''tags'', JArr (map JStr tags))]))
        (oci_read (oh_index_read host) (listTagsForRepo (ts_tags (oci_trust st)) name)))"

definition getCatalog :: "oci_host \<Rightarrow> oci_state \<Rightarrow> response option" where
  "getCatalog host st = map_option (\<lambda>repos. jsonResponse (JObj [(js ''repositories'', JArr (map JStr repos))]))
     (oci_read (oh_index_read host) (listRepos (ts_tags (oci_trust st))))"

section \<open>Dispatch\<close>

definition oci_get :: "oci_host \<Rightarrow> oci_state \<Rightarrow> bool \<Rightarrow> jsstr \<Rightarrow> response option" where
  "oci_get host st isHead p =
     (if PATTERN_VERSION p \<or> PATTERN_VERSION_NO_SLASH p
      then Some \<lparr>rs_status = 200, rs_statusText = [], rs_headers = [(js ''content-type'', js ''application/json; charset=utf-8''), API_VERSION], rs_body = utf8_encode (js ''{}'')\<rparr>
      else if PATTERN_CATALOG p then getCatalog host st
      else case PATTERN_TAGS p of Some name \<Rightarrow> getTags host st name | None \<Rightarrow>
        (case PATTERN_MANIFEST p of Some (name, reference) \<Rightarrow> getManifest host st isHead name reference | None \<Rightarrow>
        (case PATTERN_BLOB p of Some (name, digest) \<Rightarrow> getBlob host st isHead name digest | None \<Rightarrow>
          Some (ociError 404 ''UNSUPPORTED'' (js ''endpoint not implemented'')))))"

definition oci_match :: "jsstr \<Rightarrow> jsstr \<Rightarrow> bool" where
  "oci_match m p =
     (if m = js ''GET'' \<or> m = js ''HEAD''
      then PATTERN_VERSION p \<or> PATTERN_VERSION_NO_SLASH p \<or> PATTERN_CATALOG p \<or> PATTERN_TAGS p \<noteq> None \<or> PATTERN_MANIFEST p \<noteq> None \<or> PATTERN_BLOB p \<noteq> None
      else if m = js ''POST'' then PATTERN_UPLOAD_BEGIN p \<noteq> None
      else if m = js ''PATCH'' \<or> m = js ''PUT'' then PATTERN_UPLOAD_SESSION p \<noteq> None \<or> m = js ''PUT'' \<and> PATTERN_MANIFEST p \<noteq> None
      else False)"

definition oci_handle :: "oci_host \<Rightarrow> oci_state \<Rightarrow> web_request \<Rightarrow> oci_result" where
  "oci_handle host st req =
     (let p = u_pathname (oh_url host (wr_url req)); m = wr_method req in
      if m = js ''POST'' \<and> PATTERN_UPLOAD_BEGIN p \<noteq> None then handleUploadBegin host st req
      else if m = js ''PATCH'' \<and> PATTERN_UPLOAD_SESSION p \<noteq> None then handleUploadPatch host st req
      else if m = js ''PUT'' \<and> PATTERN_UPLOAD_SESSION p \<noteq> None then handleUploadFinalize host st req
      else if m = js ''PUT'' \<and> PATTERN_MANIFEST p \<noteq> None then handleManifestPut host st req
      else (st, oci_get host st (m = js ''HEAD'') p))"

section \<open>Effects of the handlers\<close>

text \<open>What a pull can see.\<close>

definition same_content :: "oci_state \<Rightarrow> oci_state \<Rightarrow> bool" where
  "same_content st st' \<longleftrightarrow> os_blobs st' = os_blobs st \<and> ts_members (oci_trust st') = ts_members (oci_trust st) \<and> ts_tags (oci_trust st') = ts_tags (oci_trust st)"

lemma same_content_refl [simp, intro]: "same_content st st"
  and same_content_uploads [simp]: "same_content st (st'\<lparr>os_uploads := u\<rparr>) = same_content st st'"
  by (simp_all add: same_content_def)

lemma verify_tables:
  assumes "verifyAndUpsertLease host st args bundle nowMs = (st', r)"
  shows "ts_members st' = ts_members st \<and> ts_tags st' = ts_tags st"
proof -
  have ok: "ts_members st2 = ts_members st \<and> ts_tags st2 = ts_tags st" if v: "verifyAndUpsertLease h st args bundle nowMs = (st2, LeaseOk l)" for h st2 l
  proof -
    obtain headers where "parseAuthHeaders (va_req args) = Inr headers" using verify_ok [OF v] by blast
    from verify_ok_step [OF v this] show ?thesis by (auto simp: verify_cases split: if_splits)
  qed
  show ?thesis
  proof (cases "\<exists>l. r = LeaseOk l")
    case True
    then show ?thesis using assms ok by blast
  next
    case False
    then show ?thesis using verify_not_ok_store [OF assms] ok by blast
  qed
qed

lemma gate_tables:
  assumes "gateAndVerify host env notme t w n args deny = (w', v)"
  shows "ts_members (wk_store w') = ts_members (wk_store w) \<and> ts_tags (wk_store w') = ts_tags (wk_store w)"
proof -
  obtain c res where r: "resolveCABundle (h_ed25519 host) (h_cbor host) env (wk_cache w) notme t n = (c, res)" by force
  show ?thesis
  proof (cases res)
    case (Inr ca)
    obtain st' out where v: "verifyAndUpsertLease host (wk_store w) args ca n = (st', out)" by force
    show ?thesis using assms r Inr v verify_tables [OF v] by (auto simp: gateAndVerify_def Let_def split: if_splits lease_outcome.splits)
  qed (use assms r in \<open>auto simp: gateAndVerify_def Let_def split: if_splits\<close>)
qed

lemma gateWrite_frame:
  assumes "gateWrite host st req name = (st', g)"
  shows "same_content st st' \<and> os_uploads st' = os_uploads st"
proof -
  obtain w v where g: "gateAndVerify (oh_lease host) (oh_env host) (oh_notme host) (oh_now host) (os_worker st) (oh_now host) (gate_args req name) None = (w, v)"
    by force
  show ?thesis using assms gate_tables [OF g] by (auto simp: gateWrite_def g same_content_def simp del: list.map)
qed

text \<open>A refused write leaves the trust store alone.\<close>

lemma gateWrite_refused:
  assumes "gateWrite host st req name = (st', Write_denied answer)"
  shows "oci_trust st' = oci_trust st"
proof -
  obtain c res where r: "resolveCABundle (h_ed25519 (oh_lease host)) (h_cbor (oh_lease host)) (oh_env host) (wk_cache (os_worker st)) (oh_notme host) (oh_now host) (oh_now host) = (c, res)" by force
  show ?thesis
  proof (cases res)
    case (Inr ca)
    obtain ts out where v: "verifyAndUpsertLease (oh_lease host) (oci_trust st) (gate_args req name) ca (oh_now host) = (ts, out)" by force
    show ?thesis using assms r Inr v verify_denied_store
      by (auto simp: gateWrite_def gateAndVerify_def Let_def simp del: list.map split: if_splits lease_outcome.splits)
  qed (use assms r in \<open>auto simp: gateWrite_def gateAndVerify_def Let_def simp del: list.map split: if_splits\<close>)
qed

lemma store_blob_frame: "os_uploads (fst (store_blob host st b key)) = os_uploads st" "os_worker (fst (store_blob host st b key)) = os_worker st"
  by (simp_all add: store_blob_def Let_def split: prod.split)

lemma record_member_frame: "os_uploads (fst (record_member host st n d k)) = os_uploads st" "os_blobs (fst (record_member host st n d k)) = os_blobs st"
    "ts_tags (oci_trust (fst (record_member host st n d k))) = ts_tags (oci_trust st)"
  by (auto simp: record_member_def set_trust_def recordRegistryMembership_def rpc_def Let_def split: prod.split rpc_fate.split)

lemma record_member_members:
  "ts_members (oci_trust (fst (record_member host st n d k))) \<in>
     {ts_members (oci_trust st), recordMembership (ts_members (oci_trust st)) n d k (oh_now host) None}"
  "snd (record_member host st n d k) \<Longrightarrow> ts_members (oci_trust (fst (record_member host st n d k))) = recordMembership (ts_members (oci_trust st)) n d k (oh_now host) None"
  by (auto simp: record_member_def set_trust_def recordRegistryMembership_def rpc_def Let_def split: prod.split rpc_fate.splits)

text \<open>A push stores the bytes first: when the membership was written, the bytes are there.\<close>

lemma store_blob_cases:
  assumes "bs_faults (os_blobs st) = None" "key \<in> blob_names (h_sha256 (oh_lease host)) (oh_blake host) b" "store_blob host st b key = (st', ok)"
  shows "os_blobs st' = put_pair (os_blobs st) (key, b) \<or> \<not> ok \<and> os_blobs st' = os_blobs st"
proof -
  have "blob_put (h_sha256 (oh_lease host)) (oh_blake host) (os_blobs st) b (Some key) = (put_pair (os_blobs st) (key, b), Inr key)"
    using assms(1,2) by (auto simp: blob_put_live workerd_put_def put_digest_def put_pair_def blob_names_def)
  then show ?thesis using assms(3) by (auto simp: store_blob_def rpc_def Let_def split: rpc_fate.splits)
qed

lemma push_blob_cases:
  assumes "bs_faults (os_blobs st) = None" "key \<in> blob_names (h_sha256 (oh_lease host)) (oh_blake host) b" "push_blob host st name b key kind = (st', ok)"
  shows "ts_tags (oci_trust st') = ts_tags (oci_trust st) \<and> os_uploads st' = os_uploads st \<and>
    (os_blobs st' = put_pair (os_blobs st) (key, b) \<and> ts_members (oci_trust st') = recordMembership (ts_members (oci_trust st)) name key kind (oh_now host) None \<or>
     \<not> ok \<and> ts_members (oci_trust st') = ts_members (oci_trust st) \<and> os_blobs st' \<in> {os_blobs st, put_pair (os_blobs st) (key, b)})"
proof -
  obtain st1 stored where s: "store_blob host st b key = (st1, stored)" by force
  have f: "os_uploads st1 = os_uploads st" "os_worker st1 = os_worker st" using store_blob_frame [of host st b key] s by simp_all
  show ?thesis
  proof (cases stored)
    case False
    then show ?thesis using assms(3) s f store_blob_cases [OF assms(1,2) s] by (auto simp: push_blob_def)
  next
    case True
    then have b: "os_blobs st1 = put_pair (os_blobs st) (key, b)" using store_blob_cases [OF assms(1,2) s] by blast
    have rm: "record_member host st1 name key kind = (st', ok)" using assms(3) s True by (simp add: push_blob_def)
    show ?thesis using record_member_frame [of host st1 name key kind] record_member_members [of host st1 name key kind] rm b f by auto
  qed
qed

section \<open>Upload sessions\<close>

definition session_ok :: "nat \<Rightarrow> uploadSession \<Rightarrow> bool" where
  "session_ok cap sess \<longleftrightarrow> us_size sess = sum_list (map length (us_chunks sess)) \<and> us_size sess \<le> cap \<and> [] \<notin> set (us_chunks sess)"

definition sessions_ok :: "nat \<Rightarrow> oci_state \<Rightarrow> bool" where
  "sessions_ok cap st \<longleftrightarrow> (\<forall>uuid sess. map_of (os_uploads st) uuid = Some sess \<longrightarrow> session_ok cap sess)"

lemma sessions_ok_cong: "os_uploads st' = os_uploads st \<Longrightarrow> sessions_ok cap st' = sessions_ok cap st"
  by (simp add: sessions_ok_def)

lemma sessions_ok_update: "sessions_ok cap st \<Longrightarrow> session_ok cap sess \<Longrightarrow> sessions_ok cap (st'\<lparr>os_uploads := AList.update uuid sess (os_uploads st)\<rparr>)"
  by (auto simp: sessions_ok_def update_conv')

lemma sessions_ok_delete: "sessions_ok cap st \<Longrightarrow> sessions_ok cap (st'\<lparr>os_uploads := AList.delete uuid (os_uploads st)\<rparr>)"
  by (auto simp: sessions_ok_def delete_conv' split: if_splits)

lemma open_session_ok: "sessions_ok cap st \<Longrightarrow> open_session st name uuid = Some sess \<Longrightarrow> session_ok cap sess"
  by (auto simp: sessions_ok_def open_session_def split: option.splits if_splits)

lemma push_chunk_ok: "session_ok cap sess \<Longrightarrow> us_size sess + length chunk \<le> cap \<Longrightarrow> session_ok cap (push_chunk sess chunk)"
  by (auto simp: session_ok_def push_chunk_def)

lemma push_chunk_concat: "concat (us_chunks (push_chunk sess chunk)) = concat (us_chunks sess) @ chunk"
  by (simp add: push_chunk_def)

lemma set_chunks_fits:
  "off + sum_list (map length cs) \<le> length out \<Longrightarrow>
     set_chunks cs off out = Some (take off out @ concat cs @ drop (off + sum_list (map length cs)) out)"
proof (induction cs arbitrary: off out)
  case (Cons c cs)
  have "set_chunks (c # cs) off out = set_chunks cs (off + length c) (take off out @ c @ drop (off + length c) out)" using Cons.prems by simp
  also have "\<dots> = Some (take (off + length c) (take off out @ c @ drop (off + length c) out) @ concat cs @
      drop (off + length c + sum_list (map length cs)) (take off out @ c @ drop (off + length c) out))"
    by (rule Cons.IH) (use Cons.prems in auto)
  finally show ?case using Cons.prems by (simp add: min_absorb2 ac_simps)
qed simp

lemma concatChunks_ok: "session_ok cap sess \<Longrightarrow> concatChunks (us_chunks sess) (us_size sess) = Some (concat (us_chunks sess))"
  using set_chunks_fits [of 0 "us_chunks sess" "replicate (us_size sess) 0"] by (simp add: concatChunks_def session_ok_def)

text \<open>The bytes a push request stands for: its body, after the chunks of its session when it closes one.\<close>

definition carried :: "oci_host \<Rightarrow> oci_state \<Rightarrow> web_request \<Rightarrow> bytes" where
  "carried host st req =
     (case PATTERN_UPLOAD_SESSION (u_pathname (oh_url host (wr_url req))) of
        Some (name, uuid) \<Rightarrow> (case open_session st name uuid of None \<Rightarrow> wr_body req | Some sess \<Rightarrow> concat (us_chunks sess) @ wr_body req)
      | None \<Rightarrow> wr_body req)"

lemma verifyClaimedDigest_name: "verifyClaimedDigest sha blake b c = Some key \<Longrightarrow> key \<in> blob_names sha blake b"
  by (auto simp: verifyClaimedDigest_def blob_names_def split: option.splits if_splits)

lemma manifest_key_name: "manifest_key host b c = Inr key \<Longrightarrow> key \<in> blob_names (h_sha256 (oh_lease host)) (oh_blake host) b"
  by (auto simp: manifest_key_def blob_names_def dest: verifyClaimedDigest_name split: option.splits if_splits)

lemma actual_size: "checkActualSize host n = None \<longleftrightarrow> n \<le> oh_maxBlobBytes host"
  by (simp add: checkActualSize_def not_less)

text \<open>The push a request makes, if it gets that far: an allowed write of the bytes it carries, under a
  digest of theirs.\<close>

definition pushes :: "oci_host \<Rightarrow> oci_state \<Rightarrow> web_request \<Rightarrow> jsstr \<Rightarrow> jsstr \<Rightarrow> membershipKind \<Rightarrow> oci_state \<Rightarrow> bool \<Rightarrow> bool" where
  "pushes host st req name key kind st1 ok \<longleftrightarrow>
     REPO_NAME_RE name \<and> snd (gateWrite host st req name) = Write_allowed \<and>
     key \<in> blob_names (h_sha256 (oh_lease host)) (oh_blake host) (carried host st req) \<and>
     (\<exists>st0. same_content st st0 \<and> push_blob host st0 name (carried host st req) key kind = (st1, ok))"

lemma status_simps [simp]:
  "rs_status (ociError n c m) = n" "rs_status (blobCreatedResponse name key) = 201" "rs_status (manifestCreatedResponse name ref key) = 201"
  "rs_status (uploadAcceptedResponse name uuid k) = 202" "rs_status (jsonResponse v) = 200" "rs_status (blobResponse b d) = 200" "rs_status (blobHeadResponse d) = 200"
  "rs_status (manifestHeadResponse d) = 200" "manifestResponse parse b d = Some x \<Longrightarrow> rs_status x = 200"
  by (auto simp: ociError_def blobCreatedResponse_def manifestCreatedResponse_def uploadAcceptedResponse_def jsonResponse_def blobResponse_def
      blobHeadResponse_def manifestHeadResponse_def manifestResponse_def Let_def)

definition created :: "response option \<Rightarrow> bool" where
  "created r \<longleftrightarrow> (\<exists>x. r = Some x \<and> rs_status x = 201)"

lemma created_simps [simp]: "created (Some x) \<longleftrightarrow> rs_status x = 201" "\<not> created None"
  by (simp_all add: created_def)

lemma refusal_status:
  "checkContentLengthHeader host req = Some r \<Longrightarrow> rs_status r = 413"
  "checkActualSize host n = Some r \<Longrightarrow> rs_status r = 413"
  "gateWrite host st req name = (st', Write_denied r) \<Longrightarrow> rs_status r = 401"
  "header_mismatch host req = Some r \<Longrightarrow> rs_status r = 400"
  "manifest_key host b reference = Inl r \<Longrightarrow> rs_status r = 400"
  by (auto simp: checkContentLengthHeader_def checkActualSize_def too_large_def gateWrite_def header_mismatch_def manifest_key_def Let_def
      simp del: list.map split: option.splits if_splits prod.splits gateVerdict.splits)

lemma refusal_not_created [simp]:
  "\<not> created (checkContentLengthHeader host req)" "\<not> created (checkActualSize host n)" "\<not> created (header_mismatch host req)"
  using refusal_status(1,2,4) by (fastforce simp: created_def)+

lemma fixed_status [simp]:
  "rs_status (name_invalid name) = 400" "rs_status (digest_mismatch c) = 400" "rs_status (upload_unknown u) = 404"
  "rs_status (manifest_unknown ref) = 404" "rs_status (blob_unknown d) = 404"
  by (simp_all add: name_invalid_def digest_mismatch_def upload_unknown_def manifest_unknown_def blob_unknown_def)

lemma pull_answer:
  "pull host st name d kind unknown isHead hd_response serve = Some r \<Longrightarrow> r = unknown \<or> r = hd_response \<or> (\<exists>b. serve b = Some r)"
  by (auto simp: pull_def split: option.splits bool.splits if_splits)

lemma get_status:
  assumes "oci_get host st isHead p = Some r"
  shows "rs_status r \<in> {200, 400, 404, 500}"
proof -
  have "rs_status x \<in> {200, 400, 404, 500}" if r: "resolve_reference host st name reference = Inl (Some x)" for name reference x
    using r by (auto simp: resolve_reference_def Let_def simp del: list.map split: if_splits option.splits)
  then have "rs_status x \<in> {200, 400, 404, 500}" if "getManifest host st isHead name reference = Some x" for name reference x
    using that by (fastforce simp: getManifest_def simp del: list.map dest: pull_answer split: sum.splits if_splits)
  moreover have "rs_status x \<in> {200, 400, 404, 500}" if "getBlob host st isHead name d = Some x" for name d x
    using that by (fastforce simp: getBlob_def dest: pull_answer split: option.splits if_splits)
  moreover have "rs_status x \<in> {200, 400, 404, 500}" if "getTags host st name = Some x \<or> getCatalog host st = Some x" for name x
    using that by (auto simp: getTags_def getCatalog_def simp del: list.map split: if_splits)
  ultimately show ?thesis using assms by (fastforce simp: oci_get_def simp del: list.map split: if_splits option.splits)
qed

lemma get_not_created: "\<not> created (oci_get host st isHead p)"
  using get_status by (fastforce simp: created_def)

lemma begin_effect:
  assumes "handleUploadBegin host st req = (st', r)" "PATTERN_UPLOAD_BEGIN (u_pathname (oh_url host (wr_url req))) = Some name"
  shows "same_content st st' \<and> \<not> created r \<or>
    (\<exists>key ok. pushes host st req name key MBlob st' ok \<and> r = (if ok then Some (blobCreatedResponse name key) else None))"
proof -
  note n = assms(2)
  then have c: "carried host st req = wr_body req"
    by (auto simp: PATTERN_UPLOAD_BEGIN_def PATTERN_UPLOAD_SESSION_def carried_def split: option.splits list.splits if_splits)
  obtain st0 g where g: "gateWrite host st req name = (st0, g)" by force
  have f: "same_content st st0" using gateWrite_frame [OF g] by simp
  show ?thesis
  proof (cases "REPO_NAME_RE name \<and> g = Write_allowed \<and> checkContentLengthHeader host req = None \<and> checkActualSize host (length (wr_body req)) = None \<and>
      (\<exists>claimed key. digest_param host req = Some claimed \<and> parseSha256Param claimed \<noteq> None \<and>
        verifyClaimedDigest (h_sha256 (oh_lease host)) (oh_blake host) (wr_body req) claimed = Some key)")
    case True
    then obtain claimed key where k: "digest_param host req = Some claimed" "parseSha256Param claimed \<noteq> None"
        "verifyClaimedDigest (h_sha256 (oh_lease host)) (oh_blake host) (wr_body req) claimed = Some key" by blast
    obtain st1 ok where p: "push_blob host st0 name (wr_body req) key MBlob = (st1, ok)" by force
    have "pushes host st req name key MBlob st1 ok"
      using True g f p verifyClaimedDigest_name [OF k(3)] by (auto simp: pushes_def c)
    moreover have "st' = st1 \<and> r = (if ok then Some (blobCreatedResponse name key) else None)"
      using assms(1) True k p g by (auto simp: handleUploadBegin_def n Let_def simp del: list.map)
    ultimately show ?thesis by blast
  next
    case False
    then have "same_content st st' \<and> \<not> created r" using assms(1) g f
      by (auto simp: handleUploadBegin_def n Let_def simp del: list.map dest: refusal_status split: if_splits write_gate.splits option.splits)
    then show ?thesis by blast
  qed
qed

lemma patch_effect:
  assumes "handleUploadPatch host st req = (st', r)"
  shows "same_content st st' \<and> \<not> created r"
proof -
  obtain name uuid where n: "nullish (PATTERN_UPLOAD_SESSION (u_pathname (oh_url host (wr_url req)))) ([], []) = (name, uuid)" by force
  obtain st0 g where g: "gateWrite host st req name = (st0, g)" by force
  show ?thesis using assms g gateWrite_frame [OF g]
    by (auto simp: handleUploadPatch_def n Let_def simp del: list.map dest: refusal_status split: if_splits write_gate.splits option.splits)
qed

lemma finalize_effect:
  assumes "handleUploadFinalize host st req = (st', r)" "PATTERN_UPLOAD_SESSION (u_pathname (oh_url host (wr_url req))) = Some (name, uuid)"
    and ok: "sessions_ok (oh_maxBlobBytes host) st"
  shows "same_content st st' \<and> \<not> created r \<or>
    (\<exists>key st1 ok. pushes host st req name key MBlob st1 ok \<and> same_content st1 st' \<and> r = (if ok then Some (blobCreatedResponse name key) else None))"
proof -
  obtain st0 g where g: "gateWrite host st req name = (st0, g)" by force
  have f: "same_content st st0" "os_uploads st0 = os_uploads st" using gateWrite_frame [OF g] by simp_all
  then have o: "open_session st0 name uuid = open_session st name uuid" by (simp add: open_session_def)
  show ?thesis
  proof (cases "REPO_NAME_RE name \<and> g = Write_allowed \<and> open_session st name uuid \<noteq> None")
    case True
    then obtain sess where sess: "open_session st name uuid = Some sess" by blast
    have c: "carried host st req = concat (us_chunks sess) @ wr_body req" using sess by (simp add: carried_def assms(2))
    let ?s = "push_chunk sess (wr_body req)"
    let ?st1 = "st0\<lparr>os_uploads := AList.update uuid ?s (os_uploads st0)\<rparr>"
    show ?thesis
    proof (cases "us_size sess + length (wr_body req) \<le> oh_maxBlobBytes host \<and> checkContentLengthHeader host req = None \<and>
        (\<exists>claimed key. digest_param host req = Some claimed \<and> parseSha256Param claimed \<noteq> None \<and>
        verifyClaimedDigest (h_sha256 (oh_lease host)) (oh_blake host) (carried host st req) claimed = Some key)")
      case fits: True
      then obtain claimed key where k: "digest_param host req = Some claimed" "parseSha256Param claimed \<noteq> None"
        "verifyClaimedDigest (h_sha256 (oh_lease host)) (oh_blake host) (carried host st req) claimed = Some key" by blast
      have cc: "concatChunks (us_chunks ?s) (us_size ?s) = Some (carried host st req)"
        using concatChunks_ok [OF push_chunk_ok [OF open_session_ok [OF ok sess]]] fits by (simp add: push_chunk_concat c)
      have z: "checkActualSize host (us_size sess + length (wr_body req)) = None" using fits by (simp add: actual_size)
      obtain st2 fin where p: "push_blob host ?st1 name (carried host st req) key MBlob = (st2, fin)" by force
      have "pushes host st req name key MBlob st2 fin"
        using True g f p verifyClaimedDigest_name [OF k(3)] by (auto simp: pushes_def intro!: exI [of _ ?st1])
      moreover have "same_content st2 st' \<and> r = (if fin then Some (blobCreatedResponse name key) else None)"
        using assms(1) True g o sess k cc p fits z
        by (auto simp: handleUploadFinalize_def assms(2) Let_def simp del: list.map split: if_splits)
      ultimately show ?thesis by blast
    next
      case False
      have cc: "us_size sess + length (wr_body req) \<le> oh_maxBlobBytes host \<Longrightarrow> concatChunks (us_chunks ?s) (us_size ?s) = Some (carried host st req)"
        using concatChunks_ok [OF push_chunk_ok [OF open_session_ok [OF ok sess]]] by (simp add: push_chunk_concat c)
      show ?thesis using assms(1) True False g o sess f cc actual_size [of host "us_size sess + length (wr_body req)"]
        by (auto simp: handleUploadFinalize_def assms(2) Let_def simp del: list.map dest: refusal_status split: if_splits option.splits)
    qed
  next
    case False
    then show ?thesis using assms(1) g f o
      by (auto simp: handleUploadFinalize_def assms(2) Let_def simp del: list.map dest: refusal_status split: if_splits write_gate.splits option.splits)
  qed
qed

lemma write_tag_frame:
  assumes "write_tag host st name tag digest = (st', ok)"
  shows "os_uploads st' = os_uploads st \<and> os_blobs st' = os_blobs st \<and> ts_members (oci_trust st') = ts_members (oci_trust st) \<and>
    (ok \<longrightarrow> ts_tags (oci_trust st') = upsertTag (ts_tags (oci_trust st)) name tag digest (oh_now host))"
  using assms by (auto simp: write_tag_def rpc_def set_trust_def upsertRegistryTag_def Let_def split: rpc_fate.splits prod.splits)

lemma manifest_effect:
  assumes "handleManifestPut host st req = (st', r)" "PATTERN_MANIFEST (u_pathname (oh_url host (wr_url req))) = Some (name, reference)"
    "PATTERN_UPLOAD_SESSION (u_pathname (oh_url host (wr_url req))) = None"
  shows "same_content st st' \<and> \<not> created r \<or>
    (\<exists>key st1 ok. pushes host st req name key MManifest st1 ok \<and> os_blobs st' = os_blobs st1 \<and> ts_members (oci_trust st') = ts_members (oci_trust st1) \<and>
       (r \<noteq> None \<longrightarrow> ok \<and> r = Some (manifestCreatedResponse name reference key) \<and>
         (\<not> starts_with reference sha256_prefix \<longrightarrow> TAG_RE reference \<and> key = digestBytes (h_sha256 (oh_lease host)) (wr_body req) \<and> ts_tags (oci_trust st') = upsertTag (ts_tags (oci_trust st1)) name reference (sha256_prefix @ key) (oh_now host))))"
proof -
  have c: "carried host st req = wr_body req" by (simp add: carried_def assms(3))
  obtain st0 g where g: "gateWrite host st req name = (st0, g)" by force
  have f: "same_content st st0" using gateWrite_frame [OF g] by simp
  show ?thesis
  proof (cases "REPO_NAME_RE name \<and> g = Write_allowed \<and> checkContentLengthHeader host req = None \<and> checkActualSize host (length (wr_body req)) = None \<and>
      wr_body req \<noteq> [] \<and> header_mismatch host req = None \<and> (\<exists>key. manifest_key host (wr_body req) reference = Inr key)")
    case True
    then obtain key where k: "manifest_key host (wr_body req) reference = Inr key" by blast
    obtain st1 ok where p: "push_blob host st0 name (wr_body req) key MManifest = (st1, ok)" by force
    have "pushes host st req name key MManifest st1 ok"
      using True g f p manifest_key_name [OF k] by (auto simp: pushes_def c)
    moreover obtain st2 tagged where t: "write_tag host st1 name reference (sha256_prefix @ key) = (st2, tagged)" by force
    have "TAG_RE reference \<and> key = digestBytes (h_sha256 (oh_lease host)) (wr_body req)" if "\<not> starts_with reference sha256_prefix"
      using k that by (auto simp: manifest_key_def split: if_splits)
    then have "os_blobs st' = os_blobs st1 \<and> ts_members (oci_trust st') = ts_members (oci_trust st1) \<and>
       (r \<noteq> None \<longrightarrow> ok \<and> r = Some (manifestCreatedResponse name reference key) \<and>
         (\<not> starts_with reference sha256_prefix \<longrightarrow> TAG_RE reference \<and> key = digestBytes (h_sha256 (oh_lease host)) (wr_body req) \<and> ts_tags (oci_trust st') = upsertTag (ts_tags (oci_trust st1)) name reference (sha256_prefix @ key) (oh_now host)))"
      using assms(1) True k p g t write_tag_frame [OF t]
      by (auto simp: handleManifestPut_def assms(2) Let_def simp del: list.map split: bool.splits if_splits)
    ultimately show ?thesis by blast
  next
    case False
    then show ?thesis using assms(1) g f
      by (auto simp: handleManifestPut_def assms(2) Let_def simp del: list.map dest: refusal_status split: if_splits write_gate.splits option.splits sum.splits)
  qed
qed

section \<open>Dispatch\<close>

lemma two_groups_shape:
  "two_groups lit p = Some (name, g) \<Longrightarrow> \<exists>segs. map_option rev (v2_segments p) = Some (g # lit # segs) \<and> g \<noteq> [] \<and> segs \<noteq> [] \<and> name_group (rev segs) = Some name"
  by (auto simp: two_groups_def name_group_def split: option.splits list.splits if_splits)

lemma plain_segments:
  "v2_segments (js ''/v2/'') = Some [[]]" "v2_segments (js ''/v2'') = Some []" "v2_segments (js ''/v2/_catalog'') = Some [js ''_catalog'']"
  by (simp_all add: v2_segments_def slash_def)

lemma plain_patterns:
  "map_option rev (v2_segments p) = Some (g # l # segs) \<Longrightarrow> \<not> PATTERN_VERSION p \<and> \<not> PATTERN_VERSION_NO_SLASH p \<and> \<not> PATTERN_CATALOG p"
  by (auto simp: PATTERN_VERSION_def PATTERN_VERSION_NO_SLASH_def PATTERN_CATALOG_def plain_segments simp del: list.map)

lemma manifest_disjoint:
  assumes "PATTERN_MANIFEST p = Some x"
  shows "PATTERN_UPLOAD_SESSION p = None" "PATTERN_TAGS p = None" "\<not> PATTERN_VERSION p \<and> \<not> PATTERN_VERSION_NO_SLASH p \<and> \<not> PATTERN_CATALOG p"
proof -
  obtain name g where "x = (name, g)" by force
  then obtain segs where p: "map_option rev (v2_segments p) = Some (g # js ''manifests'' # segs)"
    using two_groups_shape [of "js ''manifests''" p name g] assms by (auto simp: PATTERN_MANIFEST_def)
  show "PATTERN_UPLOAD_SESSION p = None" "PATTERN_TAGS p = None" by (simp_all add: PATTERN_UPLOAD_SESSION_def PATTERN_TAGS_def p split: list.split)
  show "\<not> PATTERN_VERSION p \<and> \<not> PATTERN_VERSION_NO_SLASH p \<and> \<not> PATTERN_CATALOG p" using plain_patterns [OF p] .
qed

lemma blob_disjoint:
  assumes "PATTERN_BLOB p = Some x"
  shows "PATTERN_MANIFEST p = None" "PATTERN_TAGS p = None" "\<not> PATTERN_VERSION p \<and> \<not> PATTERN_VERSION_NO_SLASH p \<and> \<not> PATTERN_CATALOG p"
proof -
  obtain name g where "x = (name, g)" by force
  then obtain segs where p: "map_option rev (v2_segments p) = Some (g # js ''blobs'' # segs)"
    using two_groups_shape [of "js ''blobs''" p name g] assms by (auto simp: PATTERN_BLOB_def)
  show "PATTERN_MANIFEST p = None" "PATTERN_TAGS p = None" by (simp_all add: PATTERN_MANIFEST_def two_groups_def PATTERN_TAGS_def p)
  show "\<not> PATTERN_VERSION p \<and> \<not> PATTERN_VERSION_NO_SLASH p \<and> \<not> PATTERN_CATALOG p" using plain_patterns [OF p] .
qed

lemma dispatch_cases:
  obtains (opens) name where "wr_method req = js ''POST''" "PATTERN_UPLOAD_BEGIN (u_pathname (oh_url host (wr_url req))) = Some name" "oci_handle host st req = handleUploadBegin host st req"
  | (patch) "oci_handle host st req = handleUploadPatch host st req"
  | (finalize) name uuid where "wr_method req = js ''PUT''" "PATTERN_UPLOAD_SESSION (u_pathname (oh_url host (wr_url req))) = Some (name, uuid)" "oci_handle host st req = handleUploadFinalize host st req"
  | (manifest) name reference where "wr_method req = js ''PUT''" "PATTERN_MANIFEST (u_pathname (oh_url host (wr_url req))) = Some (name, reference)" "oci_handle host st req = handleManifestPut host st req"
  | (read) "oci_handle host st req = (st, oci_get host st (wr_method req = js ''HEAD'') (u_pathname (oh_url host (wr_url req))))"
proof -
  let ?p = "u_pathname (oh_url host (wr_url req))"
  note d = oci_handle_def [of host st req, unfolded Let_def]
  show ?thesis
  proof (cases "wr_method req = js ''POST'' \<and> PATTERN_UPLOAD_BEGIN ?p \<noteq> None")
    case True
    then show ?thesis using opens d by auto
  next
    case n1: False
    show ?thesis
    proof (cases "wr_method req = js ''PATCH'' \<and> PATTERN_UPLOAD_SESSION ?p \<noteq> None")
      case True
      then show ?thesis using patch d n1 by presburger
    next
      case n2: False
      show ?thesis
      proof (cases "wr_method req = js ''PUT'' \<and> PATTERN_UPLOAD_SESSION ?p \<noteq> None")
        case True
        then have "oci_handle host st req = handleUploadFinalize host st req" using d n1 n2 by presburger
        then show ?thesis using True finalize by (cases "PATTERN_UPLOAD_SESSION ?p") auto
      next
        case n3: False
        show ?thesis
        proof (cases "wr_method req = js ''PUT'' \<and> PATTERN_MANIFEST ?p \<noteq> None")
          case True
          then have "oci_handle host st req = handleManifestPut host st req" using d n1 n2 n3 by presburger
          then show ?thesis using True manifest by (cases "PATTERN_MANIFEST ?p") auto
        next
          case False
          then show ?thesis using read d n1 n2 n3 by presburger
        qed
      qed
    qed
  qed
qed

lemma created_digest:
  "map_of (rs_headers (blobCreatedResponse name key)) (js ''docker-content-digest'') = Some (sha256_prefix @ key)"
  "map_of (rs_headers (manifestCreatedResponse name reference key)) (js ''docker-content-digest'') = Some (sha256_prefix @ key)"
  by (simp_all add: blobCreatedResponse_def manifestCreatedResponse_def)

text \<open>The repository a request pushes to and the kind it pushes, by its method and its path.\<close>

definition push_target :: "oci_host \<Rightarrow> web_request \<Rightarrow> (jsstr \<times> membershipKind) option" where
  "push_target host req =
     (let p = u_pathname (oh_url host (wr_url req)); m = wr_method req in
      if m = js ''POST'' then map_option (\<lambda>name. (name, MBlob)) (PATTERN_UPLOAD_BEGIN p)
      else if m = js ''PUT''
      then (case PATTERN_UPLOAD_SESSION p of
              Some (name, _) \<Rightarrow> Some (name, MBlob)
            | None \<Rightarrow> map_option (\<lambda>(name, _). (name, MManifest)) (PATTERN_MANIFEST p))
      else None)"

text \<open>Every request leaves what a pull sees as it was, or makes one push, to the repository its path names and of the kind of its
  route; it answers only for a push that went through, with 201 and the digest it was stored under.\<close>

lemma oci_effect:
  assumes "oci_handle host st req = (st', r)" "sessions_ok (oh_maxBlobBytes host) st"
  shows "same_content st st' \<and> \<not> created r \<or>
    (\<exists>name key kind st1 ok. pushes host st req name key kind st1 ok \<and> push_target host req = Some (name, kind) \<and>
      os_blobs st' = os_blobs st1 \<and> ts_members (oci_trust st') = ts_members (oci_trust st1) \<and>
      (\<forall>x. r = Some x \<longrightarrow> ok \<and> rs_status x = 201 \<and> map_of (rs_headers x) (js ''docker-content-digest'') = Some (sha256_prefix @ key)))"
proof (cases rule: dispatch_cases [of req host st])
  case (opens name)
  then have "push_target host req = Some (name, MBlob)" by (simp add: push_target_def Let_def)
  then show ?thesis using opens begin_effect [of host st req st' r] assms(1) created_digest(1) by fastforce
next
  case patch
  then show ?thesis using patch_effect [of host st req st' r] assms(1) by simp
next
  case (finalize name uuid)
  then have "push_target host req = Some (name, MBlob)" by (simp add: push_target_def Let_def)
  then show ?thesis using finalize finalize_effect [of host st req st' r] assms created_digest(1) by (fastforce simp: same_content_def split: if_splits)
next
  case (manifest name reference)
  then have "push_target host req = Some (name, MManifest)" using manifest_disjoint(1) by (simp add: push_target_def Let_def)
  then show ?thesis using manifest manifest_effect [of host st req st' r] manifest_disjoint(1) assms created_digest(2) by fastforce
next
  case read
  then show ?thesis using assms(1) get_not_created by auto
qed

section \<open>Sessions stay within the cap\<close>

lemma push_blob_uploads: "push_blob host st name b key kind = (st', ok) \<Longrightarrow> os_uploads st' = os_uploads st"
  using store_blob_frame(1) [of host st b key] record_member_frame(1) [of host "fst (store_blob host st b key)" name key kind]
  by (auto simp: push_blob_def Let_def split: prod.splits if_splits)

lemma new_session_ok: "length b \<le> cap \<Longrightarrow> session_ok cap \<lparr>us_name = name, us_chunks = (if length b > 0 then [b] else []), us_size = length b\<rparr>"
  by (simp add: session_ok_def)

lemma begin_sessions:
  assumes "handleUploadBegin host st req = (st', r)" "sessions_ok (oh_maxBlobBytes host) st"
  shows "sessions_ok (oh_maxBlobBytes host) st'"
proof -
  let ?name = "nullish (PATTERN_UPLOAD_BEGIN (u_pathname (oh_url host (wr_url req)))) []"
  obtain st0 g where g: "gateWrite host st req ?name = (st0, g)" by force
  have ok: "sessions_ok (oh_maxBlobBytes host) st0" using assms(2) gateWrite_frame [OF g] sessions_ok_cong by metis
  have p: "push_blob host st0 ?name b key MBlob = (st1, ok') \<Longrightarrow> sessions_ok (oh_maxBlobBytes host) st1" for b key st1 ok'
    using ok push_blob_uploads sessions_ok_cong by metis
  have n: "checkActualSize host (length b) = None \<Longrightarrow>
      sessions_ok (oh_maxBlobBytes host) (st0\<lparr>os_uploads := AList.update u \<lparr>us_name = ?name, us_chunks = (if length b > 0 then [b] else []), us_size = length b\<rparr> (os_uploads st0)\<rparr>)" for b u
    using sessions_ok_update [OF ok new_session_ok] by (simp add: actual_size)
  show ?thesis using assms g ok n [of "wr_body req" "oh_uuid host"]
    by (auto simp: handleUploadBegin_def Let_def simp del: list.map dest: p split: if_splits write_gate.splits option.splits prod.splits)
qed

lemma patch_sessions:
  assumes "handleUploadPatch host st req = (st', r)" "sessions_ok (oh_maxBlobBytes host) st"
  shows "sessions_ok (oh_maxBlobBytes host) st'"
proof -
  obtain name uuid where n: "nullish (PATTERN_UPLOAD_SESSION (u_pathname (oh_url host (wr_url req)))) ([], []) = (name, uuid)" by force
  obtain st0 g where g: "gateWrite host st req name = (st0, g)" by force
  have ok: "sessions_ok (oh_maxBlobBytes host) st0" using assms(2) gateWrite_frame [OF g] sessions_ok_cong by metis
  have "sessions_ok (oh_maxBlobBytes host) (st0\<lparr>os_uploads := AList.update uuid (push_chunk sess (wr_body req)) (os_uploads st0)\<rparr>)"
    if "open_session st0 name uuid = Some sess" "checkActualSize host (us_size sess + length (wr_body req)) = None" for sess
    using sessions_ok_update [OF ok push_chunk_ok [OF open_session_ok [OF ok that(1)]]] that(2) by (simp add: actual_size)
  then show ?thesis using assms g ok
    by (auto simp: handleUploadPatch_def n Let_def simp del: list.map split: if_splits write_gate.splits option.splits)
qed

lemma finalize_sessions:
  assumes "handleUploadFinalize host st req = (st', r)" "sessions_ok (oh_maxBlobBytes host) st"
  shows "sessions_ok (oh_maxBlobBytes host) st'"
proof -
  obtain name uuid where n: "nullish (PATTERN_UPLOAD_SESSION (u_pathname (oh_url host (wr_url req)))) ([], []) = (name, uuid)" by force
  obtain st0 g where g: "gateWrite host st req name = (st0, g)" by force
  have ok: "sessions_ok (oh_maxBlobBytes host) st0" using assms(2) gateWrite_frame [OF g] sessions_ok_cong by metis
  have u: "sessions_ok (oh_maxBlobBytes host) (st0\<lparr>os_uploads := AList.update uuid (push_chunk sess (wr_body req)) (os_uploads st0)\<rparr>)"
    if "open_session st0 name uuid = Some sess" "checkActualSize host (us_size sess + length (wr_body req)) = None" for sess
    using sessions_ok_update [OF ok push_chunk_ok [OF open_session_ok [OF ok that(1)]]] that(2) by (simp add: actual_size)
  have p: "push_blob host st1 name b key MBlob = (st2, fin) \<Longrightarrow> sessions_ok (oh_maxBlobBytes host) st1 \<Longrightarrow>
      sessions_ok (oh_maxBlobBytes host) st2 \<and> sessions_ok (oh_maxBlobBytes host) (st2\<lparr>os_uploads := AList.delete uuid (os_uploads st2)\<rparr>)" for st1 b key st2 fin
    using push_blob_uploads [of host st1 name b key MBlob st2 fin] sessions_ok_cong [of st2 st1] sessions_ok_delete [of "oh_maxBlobBytes host" st2] by simp
  show ?thesis using assms g ok
    by (auto simp: handleUploadFinalize_def n Let_def simp del: list.map dest: u p split: if_splits write_gate.splits option.splits prod.splits)
qed

lemma manifest_sessions:
  assumes "handleManifestPut host st req = (st', r)" "sessions_ok cap st"
  shows "sessions_ok cap st'"
proof -
  obtain name reference where n: "nullish (PATTERN_MANIFEST (u_pathname (oh_url host (wr_url req)))) ([], []) = (name, reference)" by force
  obtain st0 g where g: "gateWrite host st req name = (st0, g)" by force
  have "os_uploads st' = os_uploads st"
    using assms(1) g gateWrite_frame [OF g]
    by (auto simp: handleManifestPut_def n Let_def simp del: list.map dest!: push_blob_uploads write_tag_frame
        split: if_splits write_gate.splits option.splits sum.splits prod.splits bool.splits)
  then show ?thesis using assms(2) sessions_ok_cong by metis
qed

lemma handle_sessions:
  assumes "oci_handle host st req = (st', r)" "sessions_ok (oh_maxBlobBytes host) st"
  shows "sessions_ok (oh_maxBlobBytes host) st'"
proof (cases rule: dispatch_cases [of req host st])
  case opens
  then show ?thesis using assms by (metis begin_sessions)
next
  case patch
  then show ?thesis using assms by (metis patch_sessions)
next
  case finalize
  then show ?thesis using assms by (metis finalize_sessions)
next
  case manifest
  then show ?thesis using assms by (metis manifest_sessions)
next
  case read
  then show ?thesis using assms by simp
qed

end
