(* ===== verification/Oci_History.thy ===== *)
theory Oci_History
  imports Oci_Registry
begin

text \<open>
  The OCI registry over time: its state under any sequence of requests, while other components use the trust
  store and the blob store and isolates restart. The invariant ties every membership to bytes in the blob
  store and to an earlier allowed request that carried them; the contract \<open>content_store\<close> of the blob store
  carries the proofs. SHA-256 and BLAKE3 are assumed not to collide on the bodies stored.
\<close>

section \<open>Histories\<close>

text \<open>The registry under any requests, while the rest of the cluster uses the trust store and the blob store
  (but not the two registry tables, which only this route writes), and isolates restart. \<open>B\<close> is the set of bodies stored,
  the log keeps each request with the state it met.\<close>

inductive oci_reach :: "(bytes \<Rightarrow> bytes) \<Rightarrow> (bytes \<Rightarrow> jsstr) \<Rightarrow> nat \<Rightarrow> bytes set \<Rightarrow> oci_state \<Rightarrow> (oci_host \<times> oci_state \<times> web_request) list \<Rightarrow> bool"
  for sha blake cap B where
  start: "oci_reach sha blake cap B \<lparr>os_uploads = [], os_worker = \<lparr>wk_cache = None, wk_store = new_trust_store faults now\<rparr>, os_blobs = new_blob_store None\<rparr> []"
| request: "oci_reach sha blake cap B st log \<Longrightarrow> h_sha256 (oh_lease host) = sha \<Longrightarrow> oh_blake host = blake \<Longrightarrow> oh_maxBlobBytes host = cap \<Longrightarrow>
    (\<And>name key kind st1 ok. pushes host st req name key kind st1 ok \<Longrightarrow> carried host st req \<in> B) \<Longrightarrow>
    oci_handle host st req = (st', r) \<Longrightarrow> oci_reach sha blake cap B st' (log @ [(host, st, req)])"
| others_trust: "oci_reach sha blake cap B st log \<Longrightarrow> ts_members ts = ts_members (oci_trust st) \<Longrightarrow> ts_tags ts = ts_tags (oci_trust st) \<Longrightarrow>
    oci_reach sha blake cap B (set_trust st ts) log"
| others_blob: "oci_reach sha blake cap B st log \<Longrightarrow> b \<in> B \<Longrightarrow> oci_reach sha blake cap B (st\<lparr>os_blobs := blob_step sha blake (os_blobs st) (b, key)\<rparr>) log"
| restart: "oci_reach sha blake cap B st log \<Longrightarrow> oci_reach sha blake cap B (st\<lparr>os_uploads := [], os_worker := (os_worker st)\<lparr>wk_cache := None\<rparr>\<rparr>) log"

text \<open>Some request of the log pushed the bytes to the repository: its path names this repository and its route this kind, its write to
  the repository was allowed, it carried the bytes, and it was not refused (it was answered with 201, or threw when the push was
  under way).\<close>

definition pushed_to :: "(oci_host \<times> oci_state \<times> web_request) list \<Rightarrow> jsstr \<Rightarrow> membershipKind \<Rightarrow> bytes \<Rightarrow> bool" where
  "pushed_to log name kind b \<longleftrightarrow> (\<exists>host st req. (host, st, req) \<in> set log \<and> push_target host req = Some (name, kind) \<and>
     snd (gateWrite host st req name) = Write_allowed \<and> carried host st req = b \<and> (\<forall>x. snd (oci_handle host st req) = Some x \<longrightarrow> rs_status x = 201))"

definition oci_inv :: "(bytes \<Rightarrow> bytes) \<Rightarrow> (bytes \<Rightarrow> jsstr) \<Rightarrow> nat \<Rightarrow> bytes set \<Rightarrow> oci_state \<Rightarrow> (oci_host \<times> oci_state \<times> web_request) list \<Rightarrow> bool" where
  "oci_inv sha blake cap B st log \<longleftrightarrow> sessions_ok cap st \<and> blob_inv sha blake B (os_blobs st) \<and> bs_faults (os_blobs st) = None \<and>
     (\<forall>name d kind. hasMembership (ts_members (oci_trust st)) name d kind \<longrightarrow> (\<exists>b. workerd_get (os_blobs st) d = Some b \<and> pushed_to log name kind b))"

lemma get_kept:
  "blob_inv sha blake B st \<Longrightarrow> blob_ok sha blake B (k, c) \<Longrightarrow> workerd_get st d = Some b \<Longrightarrow> workerd_get (put_pair st (k, c)) d = Some b"
  using blobs.get_put [of sha blake B st k c d] blobs.get_ok [of sha blake B st d b] blobs.ok_unique [of sha blake B st d b c] by auto

lemma pushed_to_mono: "pushed_to log name kind b \<Longrightarrow> pushed_to (log @ l) name kind b"
  by (auto simp: pushed_to_def)

lemma push_content:
  assumes i: "blob_inv sha blake B (os_blobs st)" "bs_faults (os_blobs st) = None" and p: "pushes host st req name key kind st1 ok"
    and sh: "h_sha256 (oh_lease host) = sha" "oh_blake host = blake" and B: "carried host st req \<in> B"
    and st': "os_blobs st' = os_blobs st1" "ts_members (oci_trust st') = ts_members (oci_trust st1)"
  shows "blob_inv sha blake B (os_blobs st') \<and> bs_faults (os_blobs st') = None"
    and "workerd_get (os_blobs st) d = Some b \<Longrightarrow> workerd_get (os_blobs st') d = Some b"
    and "hasMembership (ts_members (oci_trust st)) n d kd \<Longrightarrow> hasMembership (ts_members (oci_trust st')) n d kd"
    and "hasMembership (ts_members (oci_trust st')) n d kd \<Longrightarrow> hasMembership (ts_members (oci_trust st)) n d kd \<or>
      n = name \<and> d = key \<and> kd = kind \<and> workerd_get (os_blobs st') key = Some (carried host st req)"
    and "ok \<Longrightarrow> hasMembership (ts_members (oci_trust st')) name key kind \<and> workerd_get (os_blobs st') key = Some (carried host st req)"
proof -
  let ?b = "carried host st req"
  obtain st0 where s: "same_content st st0" "push_blob host st0 name ?b key kind = (st1, ok)" and k: "key \<in> blob_names sha blake ?b"
    using p sh by (auto simp: pushes_def)
  have okb: "blob_ok sha blake B (key, ?b)" using k B by (simp add: blob_ok_def)
  have f: "bs_faults (os_blobs st0) = None" using i s by (simp add: same_content_def)
  have c: "os_blobs st' = put_pair (os_blobs st) (key, ?b) \<and> ts_members (oci_trust st') = recordMembership (ts_members (oci_trust st)) name key kind (oh_now host) None \<or>
     \<not> ok \<and> ts_members (oci_trust st') = ts_members (oci_trust st) \<and> os_blobs st' \<in> {os_blobs st, put_pair (os_blobs st) (key, ?b)}"
    using push_blob_cases [OF f, of key host ?b name kind st1 ok] k s sh st' by (simp add: same_content_def)
  have here: "workerd_get (put_pair (os_blobs st) (key, ?b)) key = Some ?b" using blobs.get_put [OF i(1) okb] by simp
  show "blob_inv sha blake B (os_blobs st') \<and> bs_faults (os_blobs st') = None" using c i blobs.inv_put [OF i(1) okb] by auto
  show "workerd_get (os_blobs st) d = Some b \<Longrightarrow> workerd_get (os_blobs st') d = Some b" using c get_kept [OF i(1) okb] by auto
  show "hasMembership (ts_members (oci_trust st)) n d kd \<Longrightarrow> hasMembership (ts_members (oci_trust st')) n d kd" using c by (auto simp: hasMembership_record)
  show "hasMembership (ts_members (oci_trust st')) n d kd \<Longrightarrow> hasMembership (ts_members (oci_trust st)) n d kd \<or>
      n = name \<and> d = key \<and> kd = kind \<and> workerd_get (os_blobs st') key = Some ?b" using c here by (auto simp: hasMembership_record)
  show "ok \<Longrightarrow> hasMembership (ts_members (oci_trust st')) name key kind \<and> workerd_get (os_blobs st') key = Some ?b"
    using c here by (auto simp: hasMembership_record)
qed

lemma inv_push:
  assumes i: "oci_inv sha blake cap B st log" and p: "pushes host st req name key kind st1 ok"
    and t: "push_target host req = Some (name, kind)" "\<forall>x. snd (oci_handle host st req) = Some x \<longrightarrow> rs_status x = 201"
    and sh: "h_sha256 (oh_lease host) = sha" "oh_blake host = blake" and B: "carried host st req \<in> B"
    and st': "os_blobs st' = os_blobs st1" "ts_members (oci_trust st') = ts_members (oci_trust st1)" "sessions_ok cap st'"
  shows "oci_inv sha blake cap B st' (log @ [(host, st, req)])"
proof -
  have bi: "blob_inv sha blake B (os_blobs st)" "bs_faults (os_blobs st) = None" using i by (simp_all add: oci_inv_def)
  note c = push_content [OF bi p sh B st'(1,2)]
  have new: "pushed_to (log @ [(host, st, req)]) name kind (carried host st req)" using p t by (auto simp: pushed_to_def pushes_def)
  have "\<exists>b. workerd_get (os_blobs st') d = Some b \<and> pushed_to (log @ [(host, st, req)]) n kd b" if h: "hasMembership (ts_members (oci_trust st')) n d kd" for n d kd
    using c(4) [OF h] i c(2) new pushed_to_mono unfolding oci_inv_def by metis
  then show ?thesis using c(1) st'(3) by (simp add: oci_inv_def)
qed

lemma inv_quiet:
  "oci_inv sha blake cap B st log \<Longrightarrow> same_content st st' \<Longrightarrow> sessions_ok cap st' \<Longrightarrow> oci_inv sha blake cap B st' (log @ l)"
  unfolding oci_inv_def same_content_def using pushed_to_mono by metis

lemma new_trust_members: "ts_members (new_trust_store faults now) = []"
  by (simp add: new_trust_store_def ensureAlarmScheduled_def)

lemma reach_inv:
  assumes "collision_free sha blake B"
  shows "oci_reach sha blake cap B st log \<Longrightarrow> oci_inv sha blake cap B st log"
proof (induction rule: oci_reach.induct)
  case (start faults now)
  then show ?case using blob_inv_new [OF assms, of None]
    by (simp add: oci_inv_def sessions_ok_def new_trust_members hasMembership_iff) (simp add: new_blob_store_def)
next
  case (request st log host req st' r)
  have s: "sessions_ok (oh_maxBlobBytes host) st" using request by (simp add: oci_inv_def)
  have s': "sessions_ok cap st'" using handle_sessions [OF request.hyps(6) s] request.hyps(4) by simp
  from oci_effect [OF request.hyps(6) s] show ?case
  proof (elim disjE exE conjE)
    assume "same_content st st'"
    then show ?case using inv_quiet [OF request.IH _ s'] by blast
  next
    fix name key kind st1 ok assume a: "pushes host st req name key kind st1 ok" "push_target host req = Some (name, kind)"
      "os_blobs st' = os_blobs st1" "ts_members (oci_trust st') = ts_members (oci_trust st1)"
      and x: "\<forall>x. r = Some x \<longrightarrow> ok \<and> rs_status x = 201 \<and> map_of (rs_headers x) (js ''docker-content-digest'') = Some (sha256_prefix @ key)"
    have "\<forall>x. snd (oci_handle host st req) = Some x \<longrightarrow> rs_status x = 201" using x request.hyps(6) by simp
    from inv_push [OF request.IH a(1,2) this request.hyps(2,3) request.hyps(5) [OF a(1)] a(3,4) s'] show ?case .
  qed
next
  case (others_trust st log ts)
  then show ?case using inv_quiet [of sha blake cap B st log "set_trust st ts" "[]"]
    by (simp add: same_content_def set_trust_def sessions_ok_def oci_inv_def)
next
  case (others_blob st log b key)
  have i: "blob_inv sha blake B (os_blobs st)" "bs_faults (os_blobs st) = None" using others_blob by (simp_all add: oci_inv_def)
  show ?case
  proof (cases "accepted sha blake (b, key)")
    case None
    then show ?thesis using others_blob i by (simp add: blob_step_accepted)
  next
    case (Some p)
    then have ok: "blob_ok sha blake B p" using accepted_ok others_blob by fastforce
    have "workerd_get (put_pair (os_blobs st) p) d = Some c" if "workerd_get (os_blobs st) d = Some c" for d c
      using get_kept [OF i(1) _ that] ok by (cases p) simp
    then show ?thesis using others_blob i Some blobs.inv_put [OF i(1) ok]
      by (simp add: blob_step_accepted oci_inv_def sessions_ok_def) blast
  qed
next
  case (restart st log)
  then show ?case by (simp add: oci_inv_def sessions_ok_def)
qed

text \<open>A request that was answered with 201 stays pullable.\<close>

definition kept :: "oci_state \<Rightarrow> oci_host \<times> oci_state \<times> web_request \<Rightarrow> bool" where
  "kept st e = (case e of (host, st0, req) \<Rightarrow> \<forall>st1 x. oci_handle host st0 req = (st1, Some x) \<longrightarrow> rs_status x = 201 \<longrightarrow>
     (\<exists>name key kind. push_target host req = Some (name, kind) \<and> REPO_NAME_RE name \<and> key \<in> blob_names (h_sha256 (oh_lease host)) (oh_blake host) (carried host st0 req) \<and>
        map_of (rs_headers x) (js ''docker-content-digest'') = Some (sha256_prefix @ key) \<and>
        hasMembership (ts_members (oci_trust st)) name key kind \<and> workerd_get (os_blobs st) key = Some (carried host st0 req)))"

lemma kept_mono:
  assumes "kept st e" "\<And>d b. workerd_get (os_blobs st) d = Some b \<Longrightarrow> workerd_get (os_blobs st') d = Some b"
    and "\<And>n d k. hasMembership (ts_members (oci_trust st)) n d k \<Longrightarrow> hasMembership (ts_members (oci_trust st')) n d k"
  shows "kept st' e"
proof -
  obtain host st0 req where e: "e = (host, st0, req)" by (cases e)
  show ?thesis using assms(1) unfolding kept_def e prod.case by (blast intro: assms(2,3))
qed

lemma kept_same: "same_content st st' \<Longrightarrow> kept st e \<Longrightarrow> kept st' e"
  by (erule kept_mono) (simp_all add: same_content_def)

lemma reach_kept:
  assumes cf: "collision_free sha blake B"
  shows "oci_reach sha blake cap B st log \<Longrightarrow> \<forall>e \<in> set log. kept st e"
proof (induction rule: oci_reach.induct)
  case (request st log host req st' r)
  have i: "oci_inv sha blake cap B st log" by (rule reach_inv [OF cf request.hyps(1)])
  then have bi: "blob_inv sha blake B (os_blobs st)" "bs_faults (os_blobs st) = None" and s: "sessions_ok (oh_maxBlobBytes host) st"
    using request.hyps(4) by (simp_all add: oci_inv_def)
  from oci_effect [OF request.hyps(6) s] show ?case
  proof (elim disjE exE conjE)
    assume q: "same_content st st'" "\<not> created r"
    then have "kept st' (host, st, req)" using request.hyps(6) by (auto simp: kept_def created_def)
    then show ?case using q request.IH kept_same by auto
  next
    fix name key kind st1 ok
    assume a: "pushes host st req name key kind st1 ok" "os_blobs st' = os_blobs st1" "ts_members (oci_trust st') = ts_members (oci_trust st1)"
      and t: "push_target host req = Some (name, kind)"
      and x: "\<forall>x. r = Some x \<longrightarrow> ok \<and> rs_status x = 201 \<and> map_of (rs_headers x) (js ''docker-content-digest'') = Some (sha256_prefix @ key)"
    note c = push_content [OF bi a(1) request.hyps(2,3) request.hyps(5) [OF a(1)] a(2,3)]
    have "kept st' e" if "e \<in> set log" for e using kept_mono [OF _ c(2,3)] request.IH that by blast
    moreover have "kept st' (host, st, req)" using request.hyps(6) x c(5) a(1) t by (auto simp: kept_def pushes_def)
    ultimately show ?case by simp
  qed
next
  case (others_trust st log ts)
  then show ?case using kept_same [of st "set_trust st ts"] by (simp add: same_content_def set_trust_def)
next
  case (others_blob st log b key)
  have i: "blob_inv sha blake B (os_blobs st)" "bs_faults (os_blobs st) = None" using reach_inv [OF cf others_blob.hyps(1)] by (simp_all add: oci_inv_def)
  have "workerd_get (blob_step sha blake (os_blobs st) (b, key)) d = Some c" if "workerd_get (os_blobs st) d = Some c" for d c
  proof (cases "accepted sha blake (b, key)")
    case (Some p)
    then have "blob_ok sha blake B p" using accepted_ok others_blob by fastforce
    then show ?thesis using get_kept [OF i(1) _ that] i(2) Some by (cases p) (simp add: blob_step_accepted)
  qed (use that i in \<open>simp add: blob_step_accepted\<close>)
  then show ?case using others_blob.IH kept_mono [of st _ "st\<lparr>os_blobs := blob_step sha blake (os_blobs st) (b, key)\<rparr>"] by simp
next
  case (restart st log)
  then show ?case using kept_same [of st "st\<lparr>os_uploads := [], os_worker := (os_worker st)\<lparr>wk_cache := None\<rparr>\<rparr>"] by (simp add: same_content_def)
qed simp

section \<open>Properties\<close>

lemma pull_served:
  assumes "pull host st name d kind unknown False hd_response serve = Some r" "rs_status r = 200" "rs_status unknown = 404"
  shows "hasMembership (ts_members (oci_trust st)) name d kind \<and> (\<exists>b. workerd_get (os_blobs st) d = Some b \<and> serve b = Some r)"
  using assms by (auto simp: pull_def oci_read_def split: option.splits bool.splits rpc_fate.splits)

lemma served_bodies:
  "rs_body (blobResponse b d) = b" "map_of (rs_headers (blobResponse b d)) (js ''docker-content-digest'') = Some (sha256_prefix @ d)"
  "manifestResponse parse b d = Some r \<Longrightarrow> rs_body r = b \<and> map_of (rs_headers r) (js ''docker-content-digest'') = Some (sha256_prefix @ d)"
proof -
  have hs: "headers_set [] n v = Some hs \<Longrightarrow> hs = [(ascii_lower n, http_trim v)]" for n v hs by (auto simp: headers_set_def Let_def split: if_splits)
  have n: "ascii_lower (js ''content-type'') = js ''content-type''" by (simp add: ascii_lower_def)
  show "rs_body (blobResponse b d) = b" "map_of (rs_headers (blobResponse b d)) (js ''docker-content-digest'') = Some (sha256_prefix @ d)"
    by (simp_all add: blobResponse_def digest_headers_def)
  assume "manifestResponse parse b d = Some r"
  then obtain hs where h: "headers_set [] (js ''content-type'') (pickManifestMediaType parse b) = Some hs"
    "r = \<lparr>rs_status = 200, rs_statusText = [], rs_headers = hs @ (js ''content-length'', dec_digits (length b)) # digest_headers d, rs_body = b\<rparr>"
    by (auto simp: manifestResponse_def simp del: list.map)
  show "rs_body r = b \<and> map_of (rs_headers r) (js ''docker-content-digest'') = Some (sha256_prefix @ d)"
    using hs [OF h(1)] unfolding h(2) n by (simp add: digest_headers_def)
qed

lemma getBlob_served:
  assumes "getBlob host st False name dg = Some r" "rs_status r = 200"
  shows "\<exists>d. dg = sha256_prefix @ d \<and> hasMembership (ts_members (oci_trust st)) name d MBlob \<and> workerd_get (os_blobs st) d = Some (rs_body r) \<and>
    map_of (rs_headers r) (js ''docker-content-digest'') = Some (sha256_prefix @ d)"
proof -
  obtain d where d: "parseSha256Param dg = Some d" "pull host st name d MBlob (blob_unknown dg) False (blobHeadResponse d) (\<lambda>bytes. Some (blobResponse bytes d)) = Some r"
    using assms by (auto simp: getBlob_def split: if_splits option.splits)
  have "dg = sha256_prefix @ d" using d(1) by (auto simp: parseSha256Param_def starts_with_iff Let_def split: if_splits)
  then show ?thesis using pull_served [OF d(2) assms(2)] served_bodies(1,2) by auto
qed

lemma resolve_digest: "resolve_reference host st name reference = Inr d \<Longrightarrow> starts_with reference sha256_prefix \<Longrightarrow> reference = sha256_prefix @ d"
  by (auto simp: resolve_reference_def starts_with_iff Let_def simp del: list.map split: if_splits)

lemma getManifest_served:
  assumes "getManifest host st False name reference = Some r" "rs_status r = 200"
  shows "\<exists>d. resolve_reference host st name reference = Inr d \<and> hasMembership (ts_members (oci_trust st)) name d MManifest \<and> workerd_get (os_blobs st) d = Some (rs_body r) \<and>
    map_of (rs_headers r) (js ''docker-content-digest'') = Some (sha256_prefix @ d)"
proof -
  have "resolve_reference host st name reference = Inl (Some x) \<Longrightarrow> rs_status x \<noteq> 200" for x
    by (auto simp: resolve_reference_def Let_def simp del: list.map split: if_splits option.splits)
  then obtain d where d: "resolve_reference host st name reference = Inr d"
      "pull host st name d MManifest (manifest_unknown reference) False (manifestHeadResponse d) (\<lambda>bytes. manifestResponse (h_json_parse (oh_lease host)) bytes d) = Some r"
    using assms by (auto simp: getManifest_def split: if_splits sum.splits)
  then show ?thesis using pull_served [OF d(2) assms(2)] served_bodies(3) by fastforce
qed

lemma get_request:
  assumes "wr_method req = js ''GET''"
  shows "PATTERN_BLOB (u_pathname (oh_url host (wr_url req))) = Some (name, g) \<Longrightarrow> oci_handle host st req = (st, getBlob host st False name g)"
    and "PATTERN_MANIFEST (u_pathname (oh_url host (wr_url req))) = Some (name, g) \<Longrightarrow> oci_handle host st req = (st, getManifest host st False name g)"
  using assms blob_disjoint manifest_disjoint by (auto simp: oci_handle_def oci_get_def Let_def)

text \<open>C22: A repository serves only what was pushed to it: whatever a pull of a blob or a manifest answers with status 200, in
  any history of the registry, was pushed by an earlier request whose own path names this very repository, on the route of
  blobs for a blob and of manifests for a manifest; that request's write to the repository was allowed and it was not refused.
  The bytes are served under a digest of theirs, the requested one when the reference is a digest.\<close>

theorem oci_serves_only_pushed:
  assumes "collision_free sha blake B" "oci_reach sha blake cap B st log" "wr_method req = js ''GET''"
    and "kind = MBlob \<and> PATTERN_BLOB (u_pathname (oh_url host (wr_url req))) = Some (name, reference) \<or>
      kind = MManifest \<and> PATTERN_MANIFEST (u_pathname (oh_url host (wr_url req))) = Some (name, reference)"
    and "oci_handle host st req = (st', Some r)" "rs_status r = 200"
  shows "pushed_to log name kind (rs_body r) \<and> (\<exists>d \<in> blob_names sha blake (rs_body r).
    map_of (rs_headers r) (js ''docker-content-digest'') = Some (sha256_prefix @ d) \<and> (starts_with reference sha256_prefix \<longrightarrow> reference = sha256_prefix @ d))"
proof -
  have i: "oci_inv sha blake cap B st log" by (rule reach_inv [OF assms(1,2)])
  have "\<exists>d. hasMembership (ts_members (oci_trust st)) name d kind \<and> workerd_get (os_blobs st) d = Some (rs_body r) \<and>
      map_of (rs_headers r) (js ''docker-content-digest'') = Some (sha256_prefix @ d) \<and> (starts_with reference sha256_prefix \<longrightarrow> reference = sha256_prefix @ d)"
    using assms(4)
  proof (elim disjE conjE)
    assume k: "kind = MBlob" "PATTERN_BLOB (u_pathname (oh_url host (wr_url req))) = Some (name, reference)"
    from get_request(1) [OF assms(3) k(2)] show ?thesis using k(1) getBlob_served [of host st name reference r] assms(5,6) by auto
  next
    assume k: "kind = MManifest" "PATTERN_MANIFEST (u_pathname (oh_url host (wr_url req))) = Some (name, reference)"
    from get_request(2) [OF assms(3) k(2)] show ?thesis using k(1) getManifest_served [of host st name reference r] resolve_digest assms(5,6) by fastforce
  qed
  then obtain d where d: "hasMembership (ts_members (oci_trust st)) name d kind" "workerd_get (os_blobs st) d = Some (rs_body r)"
    "map_of (rs_headers r) (js ''docker-content-digest'') = Some (sha256_prefix @ d)" "starts_with reference sha256_prefix \<longrightarrow> reference = sha256_prefix @ d" by blast
  moreover have "d \<in> blob_names sha blake (rs_body r)" using blobs.get_ok [OF _ d(2)] i by (auto simp: oci_inv_def blob_ok_def)
  ultimately show ?thesis using i unfolding oci_inv_def by fastforce
qed

lemma isDigest_hex:
  assumes "length (sha b) = 32"
  shows "isDigest (digestBytes sha b)"
proof -
  have "\<forall>n \<in> set [0..<16]. 48 \<le> unat (hex_digit n) \<and> unat (hex_digit n) \<le> 57 \<or> 97 \<le> unat (hex_digit n) \<and> unat (hex_digit n) \<le> 102"
    by (simp add: upt_rec hex_digit_def hex_alphabet_def)
  then have h: "n < 16 \<Longrightarrow> 48 \<le> unat (hex_digit n) \<and> unat (hex_digit n) \<le> 57 \<or> 97 \<le> unat (hex_digit n) \<and> unat (hex_digit n) \<le> 102" for n by simp
  have n: "unat x div 16 < 16" for x :: byte using unsigned_less [of x, where 'a = nat] by simp
  have "list_all (\<lambda>c. 48 \<le> unat c \<and> unat c \<le> 57 \<or> 97 \<le> unat c \<and> unat c \<le> 102) (to_hex bs)" for bs
    by (induction bs) (simp_all add: h n)
  then show ?thesis using assms by (simp add: isDigest_def digestBytes_def)
qed

lemma parse_prefixed: "isDigest key \<Longrightarrow> parseSha256Param (sha256_prefix @ key) = Some key" "isDigest key \<Longrightarrow> REPO_NAME_RE name \<Longrightarrow> resolve_reference host st name (sha256_prefix @ key) = Inr key"
  by (simp_all add: parseSha256Param_def resolve_reference_def starts_with_iff)

text \<open>C23: What was pushed can be pulled: after a push that was answered with 201, a pull of the digest of that answer from the
  repository in the push's own path serves its bytes unchanged, as a blob when it was pushed as a blob and as a manifest when it
  was pushed as a manifest, at any later time, whatever requests, other writers and restarts came between. The two hash functions
  are taken to have outputs of 32 bytes and not to collide on the bodies stored.\<close>

theorem oci_push_then_pull:
  assumes "collision_free sha blake B" "\<And>b. length (sha b) = 32" "\<And>b. isDigest (blake b)" "oci_reach sha blake cap B st log"
    and "(host, st0, req) \<in> set log" "oci_handle host st0 req = (st1, Some x)" "rs_status x = 201" "h_sha256 (oh_lease host) = sha" "oh_blake host = blake"
    and "oh_member_read reader = Delivered" "oh_blob_call reader = Delivered"
  shows "\<exists>name kind. push_target host req = Some (name, kind) \<and> (\<exists>key \<in> blob_names sha blake (carried host st0 req).
    map_of (rs_headers x) (js ''docker-content-digest'') = Some (sha256_prefix @ key) \<and>
    (case kind of
       MBlob \<Rightarrow> getBlob reader st False name (sha256_prefix @ key) = Some (blobResponse (carried host st0 req) key)
     | MManifest \<Rightarrow> getManifest reader st False name (sha256_prefix @ key) = manifestResponse (h_json_parse (oh_lease reader)) (carried host st0 req) key))"
proof -
  have "kept st (host, st0, req)" using reach_kept [OF assms(1,4)] assms(5) by blast
  then obtain name key kind where t: "push_target host req = Some (name, kind)"
      and k: "REPO_NAME_RE name" "key \<in> blob_names sha blake (carried host st0 req)"
      "map_of (rs_headers x) (js ''docker-content-digest'') = Some (sha256_prefix @ key)"
      "hasMembership (ts_members (oci_trust st)) name key kind" "workerd_get (os_blobs st) key = Some (carried host st0 req)"
    using assms(6-9) unfolding kept_def by auto
  have d: "isDigest key" using k(2) assms(2,3) isDigest_hex by (auto simp: blob_names_def)
  have "case kind of
       MBlob \<Rightarrow> getBlob reader st False name (sha256_prefix @ key) = Some (blobResponse (carried host st0 req) key)
     | MManifest \<Rightarrow> getManifest reader st False name (sha256_prefix @ key) = manifestResponse (h_json_parse (oh_lease reader)) (carried host st0 req) key"
    using k(1,4,5) d assms(10,11) by (auto simp: getBlob_def getManifest_def parse_prefixed pull_def oci_read_def split: membershipKind.split)
  then show ?thesis using t k(2,3) by blast
qed

lemma tag_after_write: "getManifestDigestForTag (upsertTag t name tag d now) name tag = Some d"
  by (simp add: digest_for_tag_lookup upsertTag_def rt_key_def table_simps)

lemma tag_pull:
  assumes "collision_free sha blake B" "\<And>b. length (sha b) = 32" "oci_reach sha blake cap B st log"
    and "h_sha256 (oh_lease host) = sha" "oh_blake host = blake" "wr_body req \<in> B"
    and "wr_method req = js ''PUT''" "PATTERN_MANIFEST (u_pathname (oh_url host (wr_url req))) = Some (name, tag)" "\<not> starts_with tag sha256_prefix"
    and "oci_handle host st req = (st', Some x)" "rs_status x = 201"
    and "oh_index_read reader = Delivered" "oh_member_read reader = Delivered" "oh_blob_call reader = Delivered"
  shows "getManifest reader st' False name tag = manifestResponse (h_json_parse (oh_lease reader)) (wr_body req) (digestBytes sha (wr_body req))"
proof -
  have i: "blob_inv sha blake B (os_blobs st)" "bs_faults (os_blobs st) = None" using reach_inv [OF assms(1,3)] by (simp_all add: oci_inv_def)
  note p = manifest_disjoint(1) [OF assms(8)]
  have h: "handleManifestPut host st req = (st', Some x)" using assms(7,8,10) p by (simp add: oci_handle_def Let_def)
  have c: "carried host st req = wr_body req" by (simp add: carried_def p)
  let ?key = "digestBytes sha (wr_body req)"
  obtain st1 where e: "pushes host st req name ?key MManifest st1 True" "os_blobs st' = os_blobs st1" "ts_members (oci_trust st') = ts_members (oci_trust st1)"
      "TAG_RE tag" "ts_tags (oci_trust st') = upsertTag (ts_tags (oci_trust st1)) name tag (sha256_prefix @ ?key) (oh_now host)"
    using manifest_effect [OF h assms(8) p] assms(4,9,11) by auto
  have m: "hasMembership (ts_members (oci_trust st')) name ?key MManifest \<and> workerd_get (os_blobs st') ?key = Some (wr_body req)"
    using push_content(5) [OF i e(1) assms(4,5) _ e(2,3)] assms(6) c by simp
  have "isDigest ?key" using isDigest_hex assms(2) by blast
  moreover have "truthy_str (Some (sha256_prefix @ ?key))" by (simp add: truthy_str_def sha256_prefix_def)
  ultimately have "resolve_reference reader st' name tag = Inr ?key"
    using assms(9,12) e(4) by (simp add: resolve_reference_def e(5) tag_after_write oci_read_def starts_with_iff Let_def)
  moreover have "REPO_NAME_RE name" using e(1) by (simp add: pushes_def)
  ultimately show ?thesis using m assms(13,14) by (simp add: getManifest_def pull_def oci_read_def)
qed

text \<open>Pushing a manifest under a tag makes the tag resolve to it: right after a push by tag that was answered with 201, the
  tag serves exactly the pushed bytes under their SHA-256 digest, whatever the tag named before.\<close>

theorem oci_tag_serves_pushed:
  assumes "collision_free sha blake B" "\<And>b. length (sha b) = 32" "oci_reach sha blake cap B st log"
    and "h_sha256 (oh_lease host) = sha" "oh_blake host = blake" "wr_body req \<in> B"
    and "wr_method req = js ''PUT''" "PATTERN_MANIFEST (u_pathname (oh_url host (wr_url req))) = Some (name, tag)" "\<not> starts_with tag sha256_prefix"
    and "oci_handle host st req = (st', Some x)" "rs_status x = 201"
    and "oh_index_read reader = Delivered" "oh_member_read reader = Delivered" "oh_blob_call reader = Delivered"
  shows "getManifest reader st' False name tag = manifestResponse (h_json_parse (oh_lease reader)) (wr_body req) (digestBytes sha (wr_body req))"
  by (rule tag_pull [OF assms])

lemma reach_sessions: "oci_reach sha blake cap B st log \<Longrightarrow> sessions_ok cap st"
proof (induction rule: oci_reach.induct)
  case (request st log host req st' r)
  then show ?case using handle_sessions [of host st req st' r] by simp
qed (simp_all add: sessions_ok_def set_trust_def)

text \<open>C24: Open uploads stay within the cap: in every history each session's byte count is the sum of its chunks and at most the
  configured maximum, and joining its chunks, as the closing request does, never runs out of the array.\<close>

theorem oci_sessions_bounded:
  assumes "oci_reach sha blake cap B st log" "map_of (os_uploads st) uuid = Some sess"
  shows "us_size sess = sum_list (map length (us_chunks sess)) \<and> us_size sess \<le> cap \<and> concatChunks (us_chunks sess) (us_size sess) = Some (concat (us_chunks sess))"
proof -
  have "session_ok cap sess" using reach_sessions [OF assms(1)] assms(2) by (auto simp: sessions_ok_def)
  then show ?thesis using concatChunks_ok by (auto simp: session_ok_def)
qed

lemma denied_begin:
  "handleUploadBegin host st req = (st', Some r) \<Longrightarrow> rs_status r = 401 \<Longrightarrow> \<exists>name. gateWrite host st req name = (st', Write_denied r)"
  by (auto simp: handleUploadBegin_def Let_def simp del: list.map dest: refusal_status
      split: if_splits prod.splits write_gate.splits option.splits)

lemma denied_patch:
  "handleUploadPatch host st req = (st', Some r) \<Longrightarrow> rs_status r = 401 \<Longrightarrow> \<exists>name. gateWrite host st req name = (st', Write_denied r)"
  by (auto simp: handleUploadPatch_def Let_def simp del: list.map dest: refusal_status
      split: if_splits prod.splits write_gate.splits option.splits)

lemma denied_finalize:
  "handleUploadFinalize host st req = (st', Some r) \<Longrightarrow> rs_status r = 401 \<Longrightarrow> \<exists>name. gateWrite host st req name = (st', Write_denied r)"
  by (auto simp: handleUploadFinalize_def Let_def simp del: list.map dest: refusal_status
      split: if_splits prod.splits write_gate.splits option.splits)

lemma denied_manifest:
  "handleManifestPut host st req = (st', Some r) \<Longrightarrow> rs_status r = 401 \<Longrightarrow> \<exists>name. gateWrite host st req name = (st', Write_denied r)"
  by (auto simp: handleManifestPut_def Let_def simp del: list.map dest: refusal_status
      split: if_splits prod.splits write_gate.splits option.splits sum.splits bool.splits)

text \<open>A refused write changes nothing the registry keeps: no session, no blob, and no table of the trust store, the nonce
  ledger and the lease counters included.\<close>

theorem oci_refused_write_no_trace:
  assumes "oci_handle host st req = (st', Some r)" "rs_status r = 401"
  shows "os_uploads st' = os_uploads st \<and> os_blobs st' = os_blobs st \<and> oci_trust st' = oci_trust st"
proof -
  have "\<exists>name. gateWrite host st req name = (st', Write_denied r)"
  proof (cases rule: dispatch_cases [of req host st])
    case read
    then show ?thesis using assms get_status [of host st "wr_method req = js ''HEAD''" _ r] by fastforce
  qed (use assms denied_begin denied_patch denied_finalize denied_manifest in metis)+
  then obtain name where g: "gateWrite host st req name = (st', Write_denied r)" by blast
  show ?thesis using gateWrite_frame [OF g] gateWrite_refused [OF g] by (simp add: same_content_def)
qed

text \<open>A closing request that fails its digest check keeps its own body in the session, so the retry it is meant to allow carries
  that body twice.\<close>

theorem finalize_retry_repeats_body:
  assumes "PATTERN_UPLOAD_SESSION (u_pathname (oh_url host (wr_url req))) = Some (name, uuid)"
    and "REPO_NAME_RE name" "open_session st name uuid \<noteq> None" "digest_param host req = Some claimed" "parseSha256Param claimed \<noteq> None"
    and "handleUploadFinalize host st req = (st', Some r)" "rs_status r = 400"
  shows "carried host st' req = carried host st req @ wr_body req"
proof -
  obtain st0 g where g: "gateWrite host st req name = (st0, g)" by force
  have f: "os_uploads st0 = os_uploads st" using gateWrite_frame [OF g] by simp
  obtain sess where s: "open_session st name uuid = Some sess" using assms(3) by blast
  have s0: "open_session st0 name uuid = Some sess" using s f by (simp add: open_session_def)
  have "\<exists>st1. st' = st1\<lparr>os_uploads := AList.update uuid (push_chunk sess (wr_body req)) (os_uploads st)\<rparr>"
    using assms(1,2,4-7) g s0 f
    by (auto simp: handleUploadFinalize_def Let_def simp del: list.map dest: refusal_status split: if_splits prod.splits write_gate.splits option.splits)
  moreover have "us_name (push_chunk sess (wr_body req)) = name" using s by (auto simp: open_session_def push_chunk_def split: option.splits if_splits)
  ultimately have "open_session st' name uuid = Some (push_chunk sess (wr_body req))" by (auto simp: open_session_def update_conv')
  then show ?thesis using s by (simp add: carried_def assms(1) push_chunk_concat)
qed

section \<open>Instances\<close>

text \<open>A deployment in the explicit dev opt-out, where writes need no lease, with paths as URLs.\<close>

definition oci_sample_host :: oci_host where
  "oci_sample_host = \<lparr>oh_lease = sample_host, oh_env = prod_env\<lparr>env_CLOISTER_MODE := Some (js ''dev''), env_INTERLACE_ROOT_PUBKEY := None\<rparr>,
     oh_notme = (\<lambda>_. NotmeStatus 500 None), oh_blake = (\<lambda>_. to_hex (replicate 32 1)),
     oh_url = (\<lambda>u. \<lparr>u_protocol = [], u_username = [], u_password = [], u_hostname = [], u_pathname = u, u_params = []\<rparr>),
     oh_maxBlobBytes = 8, oh_now = 0, oh_uuid = js ''u'', oh_index_read = Delivered, oh_member_read = Delivered, oh_blob_call = Delivered,
     oh_member_write = Delivered, oh_tag_write = Delivered\<rparr>"

definition oci_sample_start :: oci_state where
  "oci_sample_start = \<lparr>os_uploads = [], os_worker = \<lparr>wk_cache = None, wk_store = new_trust_store None 0\<rparr>, os_blobs = new_blob_store None\<rparr>"

definition oci_sample_request :: "jsstr \<Rightarrow> jsstr \<Rightarrow> web_request" where
  "oci_sample_request m p = \<lparr>wr_method = m, wr_url = p, wr_headers = [], wr_body = [1]\<rparr>"

abbreviation oci_sample_sha :: "bytes \<Rightarrow> bytes" where
  "oci_sample_sha \<equiv> \<lambda>_. replicate 32 0"

abbreviation oci_sample_put :: web_request where
  "oci_sample_put \<equiv> oci_sample_request (js ''PUT'') (js ''/v2/r/manifests/t'')"

lemma oci_sample_fields [simp]:
  "h_sha256 (oh_lease oci_sample_host) = oci_sample_sha" "oh_maxBlobBytes oci_sample_host = 8" "u_pathname (oh_url oci_sample_host p) = p"
  "oh_index_read oci_sample_host = Delivered" "oh_member_read oci_sample_host = Delivered" "oh_blob_call oci_sample_host = Delivered"
  "oh_member_write oci_sample_host = Delivered" "oh_tag_write oci_sample_host = Delivered" "oh_uuid oci_sample_host = js ''u''" "u_params (oh_url oci_sample_host p) = []"
  "oh_blake oci_sample_host = (\<lambda>_. to_hex (replicate 32 1))" "h_json_parse (oh_lease oci_sample_host) = h_json_parse sample_host"
  "wr_body (oci_sample_request m p) = [1]" "wr_url (oci_sample_request m p) = p" "wr_method (oci_sample_request m p) = m" "wr_headers (oci_sample_request m p) = []"
  by (simp_all add: oci_sample_host_def sample_host_def oci_sample_request_def)

lemma oci_sample_gate: "gateWrite oci_sample_host st req name = (st, Write_allowed)"
  by (simp add: gateWrite_def gateAndVerify_def leaseEnforced_def resolveLeaseGate_def oci_sample_host_def prod_env_def truthy_str_def)

lemma oci_sample_cf: "collision_free oci_sample_sha blake {[1]}"
  by (simp add: collision_free_def)

lemma oci_sample_manifest: "PATTERN_MANIFEST (js ''/v2/r/manifests/t'') = Some (js ''r'', js ''t'')" "\<not> starts_with (js ''t'') sha256_prefix"
  by (simp_all add: PATTERN_MANIFEST_def two_groups_def v2_segments_def name_group_def slash_def sha256_prefix_def starts_with_def)

lemma oci_sample_pushed:
  "\<exists>st1 x. oci_handle oci_sample_host oci_sample_start oci_sample_put = (st1, Some x) \<and> rs_status x = 201"
proof -
  obtain bs d where b: "blob_put oci_sample_sha (\<lambda>_. to_hex (replicate 32 1)) (os_blobs oci_sample_start) [1] (Some (digestBytes oci_sample_sha [1])) = (bs, Inr d)"
    by (simp add: oci_sample_start_def new_blob_store_def blob_put_live workerd_put_def put_digest_def)
  have "\<exists>st1 x. handleManifestPut oci_sample_host oci_sample_start oci_sample_put = (st1, Some x) \<and> rs_status x = 201"
    using b by (simp add: handleManifestPut_def oci_sample_manifest [simplified] oci_sample_gate REPO_NAME_RE_def is_lower_def checkContentLengthHeader_def checkActualSize_def
        manifest_key_def TAG_RE_def alnum_def header_mismatch_def push_blob_def store_blob_def record_member_def write_tag_def rpc_def Let_def split: prod.split)
  then show ?thesis using manifest_disjoint(1) [OF oci_sample_manifest(1)] by (simp add: oci_handle_def Let_def oci_sample_manifest del: list.map)
qed

lemma oci_sample_start_reach: "oci_reach oci_sample_sha (\<lambda>_. to_hex (replicate 32 1)) 8 {[1]} oci_sample_start []"
  unfolding oci_sample_start_def by (rule oci_reach.start)

lemma oci_sample_reach:
  assumes "oci_handle oci_sample_host oci_sample_start oci_sample_put = (st1, r)"
  shows "oci_reach oci_sample_sha (\<lambda>_. to_hex (replicate 32 1)) 8 {[1]} st1 [(oci_sample_host, oci_sample_start, oci_sample_put)]"
proof -
  have "carried oci_sample_host oci_sample_start oci_sample_put = [1]" using manifest_disjoint(1) [OF oci_sample_manifest(1)] by (simp add: carried_def)
  then show ?thesis using oci_reach.request [OF oci_sample_start_reach _ _ _ _ assms] by simp
qed

lemma oci_sample_facts:
  "length (oci_sample_sha b) = 32" "h_sha256 (oh_lease oci_sample_host) = oci_sample_sha" "oh_blake oci_sample_host = (\<lambda>_. to_hex (replicate 32 1))"
  "wr_body oci_sample_put \<in> {[1]}" "wr_method oci_sample_put = js ''PUT''"
  "PATTERN_MANIFEST (u_pathname (oh_url oci_sample_host (wr_url oci_sample_put))) = Some (js ''r'', js ''t'')"
  by (simp_all add: oci_sample_manifest del: list.map)

theorem oci_tag_serves_pushed_witness:
  "\<exists>st1 x. oci_handle oci_sample_host oci_sample_start oci_sample_put = (st1, Some x) \<and>
     getManifest oci_sample_host st1 False (js ''r'') (js ''t'') = manifestResponse (h_json_parse sample_host) [1] (digestBytes oci_sample_sha [1])"
proof -
  obtain st1 x where p: "oci_handle oci_sample_host oci_sample_start oci_sample_put = (st1, Some x)" "rs_status x = 201" using oci_sample_pushed by blast
  have "getManifest oci_sample_host st1 False (js ''r'') (js ''t'') =
      manifestResponse (h_json_parse (oh_lease oci_sample_host)) (wr_body oci_sample_put) (digestBytes oci_sample_sha (wr_body oci_sample_put))"
    by (rule oci_tag_serves_pushed [OF oci_sample_cf oci_sample_facts(1) oci_sample_start_reach oci_sample_facts(2-6) oci_sample_manifest(2) p]) simp_all
  then show ?thesis using p(1) by (simp del: list.map)
qed

lemma oci_sample_media: "\<exists>r. manifestResponse (h_json_parse sample_host) b d = Some r \<and> rs_status r = 200"
proof -
  have "headers_set [] (js ''content-type'') DEFAULT_MANIFEST_MEDIA_TYPE \<noteq> None" by code_simp
  moreover have "pickManifestMediaType (h_json_parse sample_host) b = DEFAULT_MANIFEST_MEDIA_TYPE"
    by (simp add: pickManifestMediaType_def sample_host_def get_prop_def)
  ultimately show ?thesis by (auto simp: manifestResponse_def simp del: list.map)
qed

lemma oci_sample_get:
  "\<exists>st1 r. fst (oci_handle oci_sample_host oci_sample_start oci_sample_put) = st1 \<and> getManifest oci_sample_host st1 False (js ''r'') (js ''t'') = Some r \<and> rs_status r = 200"
proof -
  obtain st1 x where p: "oci_handle oci_sample_host oci_sample_start oci_sample_put = (st1, Some x)" "rs_status x = 201" using oci_sample_pushed by blast
  have "getManifest oci_sample_host st1 False (js ''r'') (js ''t'') =
      manifestResponse (h_json_parse (oh_lease oci_sample_host)) (wr_body oci_sample_put) (digestBytes oci_sample_sha (wr_body oci_sample_put))"
    by (rule tag_pull [OF oci_sample_cf oci_sample_facts(1) oci_sample_start_reach oci_sample_facts(2-6) oci_sample_manifest(2) p]) simp_all
  then show ?thesis using p(1) oci_sample_media [of "[1]" "digestBytes oci_sample_sha [1]"] by (simp del: list.map)
qed

theorem oci_serves_only_pushed_witness:
  "\<exists>st1 r. snd (oci_handle oci_sample_host st1 (oci_sample_request (js ''GET'') (js ''/v2/r/manifests/t''))) = Some r \<and> rs_status r = 200 \<and>
     pushed_to [(oci_sample_host, oci_sample_start, oci_sample_put)] (js ''r'') MManifest (rs_body r)"
proof -
  let ?get = "oci_sample_request (js ''GET'') (js ''/v2/r/manifests/t'')"
  obtain st1 p r where p: "oci_handle oci_sample_host oci_sample_start oci_sample_put = (st1, p)"
    and r: "getManifest oci_sample_host st1 False (js ''r'') (js ''t'') = Some r" "rs_status r = 200" using oci_sample_get by (metis prod.collapse)
  have m: "PATTERN_MANIFEST (u_pathname (oh_url oci_sample_host (wr_url ?get))) = Some (js ''r'', js ''t'')" "wr_method ?get = js ''GET''"
    by (simp_all add: oci_sample_manifest del: list.map)
  have g: "oci_handle oci_sample_host st1 ?get = (st1, Some r)" using get_request(2) [OF m(2,1)] r(1) by simp
  have "pushed_to [(oci_sample_host, oci_sample_start, oci_sample_put)] (js ''r'') MManifest (rs_body r)"
    using oci_serves_only_pushed [OF oci_sample_cf oci_sample_reach [OF p] m(2) disjI2 [OF conjI [OF refl m(1)]] g r(2)] by blast
  then show ?thesis using g r(2) by (intro exI [of _ st1] exI [of _ r]) simp
qed

theorem oci_push_then_pull_witness:
  "\<exists>st1 key. getManifest oci_sample_host st1 False (js ''r'') (sha256_prefix @ key) = manifestResponse (h_json_parse sample_host) [1] key"
proof -
  obtain st1 x where p: "oci_handle oci_sample_host oci_sample_start oci_sample_put = (st1, Some x)" "rs_status x = 201" using oci_sample_pushed by blast
  have c: "carried oci_sample_host oci_sample_start oci_sample_put = [1]" using manifest_disjoint(1) [OF oci_sample_manifest(1)] by (simp add: carried_def)
  have t: "push_target oci_sample_host oci_sample_put = Some (js ''r'', MManifest)"
    using manifest_disjoint(1) [OF oci_sample_manifest(1)] by (simp add: push_target_def oci_sample_manifest Let_def del: list.map)
  have "isDigest (digestBytes (\<lambda>_. replicate 32 1) b)" for b by (rule isDigest_hex) simp
  then have d: "isDigest (to_hex (replicate 32 1))" by (simp only: digestBytes_def)
  have "\<exists>name kind. push_target oci_sample_host oci_sample_put = Some (name, kind) \<and> (\<exists>key. case kind of
       MBlob \<Rightarrow> getBlob oci_sample_host st1 False name (sha256_prefix @ key) = Some (blobResponse [1] key)
     | MManifest \<Rightarrow> getManifest oci_sample_host st1 False name (sha256_prefix @ key) = manifestResponse (h_json_parse (oh_lease oci_sample_host)) [1] key)"
    using oci_push_then_pull [OF oci_sample_cf oci_sample_facts(1) d oci_sample_reach [OF p(1)] _ p oci_sample_facts(2,3), of oci_sample_host]
    unfolding c by (metis (no_types, lifting) list.set_intros(1) oci_sample_fields(5,6))
  then show ?thesis unfolding t by auto
qed

theorem oci_sessions_bounded_witness:
  "\<exists>sess. map_of (os_uploads (fst (oci_handle oci_sample_host oci_sample_start (oci_sample_request (js ''POST'') (js ''/v2/r/blobs/uploads/''))))) (js ''u'') = Some sess \<and> us_size sess \<le> 8"
proof -
  let ?req = "oci_sample_request (js ''POST'') (js ''/v2/r/blobs/uploads/'')"
  have b: "PATTERN_UPLOAD_BEGIN (js ''/v2/r/blobs/uploads/'') = Some (js ''r'')"
    by (simp add: PATTERN_UPLOAD_BEGIN_def v2_segments_def name_group_def slash_def)
  have n: "REPO_NAME_RE (js ''r'')" by (simp add: REPO_NAME_RE_def is_lower_def)
  have h: "oci_handle oci_sample_host oci_sample_start ?req =
      (oci_sample_start\<lparr>os_uploads := [(js ''u'', \<lparr>us_name = js ''r'', us_chunks = [[1]], us_size = 1\<rparr>)]\<rparr>, Some (uploadAcceptedResponse (js ''r'') (js ''u'') 1))"
    by (simp add: oci_handle_def b handleUploadBegin_def oci_sample_gate n digest_param_def checkContentLengthHeader_def
        checkActualSize_def oci_sample_start_def Let_def del: list.map)
  have "PATTERN_UPLOAD_SESSION (js ''/v2/r/blobs/uploads/'') = None" by (simp add: PATTERN_UPLOAD_SESSION_def v2_segments_def slash_def)
  then have "carried oci_sample_host oci_sample_start ?req = [1]" by (simp add: carried_def del: list.map)
  then have r: "oci_reach oci_sample_sha (\<lambda>_. to_hex (replicate 32 1)) 8 {[1]} (fst (oci_handle oci_sample_host oci_sample_start ?req)) ([] @ [(oci_sample_host, oci_sample_start, ?req)])"
    by (intro oci_reach.request [OF oci_sample_start_reach _ _ _ _ surjective_pairing]) simp_all
  from oci_sessions_bounded [OF r, of "js ''u''"] show ?thesis by (simp add: h del: list.map)
qed

theorem oci_refused_write_no_trace_witness:
  "os_blobs (fst (oci_handle (oci_sample_host\<lparr>oh_env := prod_env\<lparr>env_INTERLACE_ROOT_PUBKEY := None\<rparr>\<rparr>) oci_sample_start oci_sample_put)) = os_blobs oci_sample_start"
proof -
  let ?host = "oci_sample_host\<lparr>oh_env := prod_env\<lparr>env_INTERLACE_ROOT_PUBKEY := None\<rparr>\<rparr>"
  have g: "gateWrite ?host oci_sample_start oci_sample_put name = (oci_sample_start, Write_denied (ociError 401 ''DENIED'' (js ''authentication required'')))" for name
    by (simp add: gateWrite_def gateAndVerify_def leaseEnforced_def resolveLeaseGate_def resolveCABundle_def devCaBundle_def prod_env_def truthy_str_def oci_sample_start_def)
  have n: "REPO_NAME_RE (js ''r'')" by (simp add: REPO_NAME_RE_def is_lower_def)
  have m: "handleManifestPut ?host oci_sample_start oci_sample_put = (oci_sample_start, Some (ociError 401 ''DENIED'' (js ''authentication required'')))"
    by (simp add: handleManifestPut_def oci_sample_manifest n g Let_def del: list.map)
  have h: "oci_handle ?host oci_sample_start oci_sample_put = (oci_sample_start, Some (ociError 401 ''DENIED'' (js ''authentication required'')))"
    using m manifest_disjoint(1) [OF oci_sample_manifest(1)]
    by (simp add: oci_handle_def Let_def oci_sample_manifest del: list.map)
  then have "oci_handle ?host oci_sample_start oci_sample_put = (fst (oci_handle ?host oci_sample_start oci_sample_put), Some (ociError 401 ''DENIED'' (js ''authentication required'')))"
    by (simp only: fst_conv)
  from oci_refused_write_no_trace [OF this] show ?thesis by simp
qed

end
