(* ===== verification/Spec2Isabelle.thy ===== *)
theory Spec2Isabelle
  imports Receipt_Stream Tool_Backends Run_Identity Vault_Route Oci_History
begin

text \<open>
  A verification development of cloister, the gateway that stands between MCP clients and a cluster of
  Durable Objects. A request carries a lease envelope (a certificate, a nonce, a timestamp and a
  signature). The edge verifies the envelope against a CA bundle, spends the nonce and advances the
  peer's chain in the trust store, and then runs the tool; a state-changing tool writes content to the
  blob store, a row to the bead database of the repository and an attestation to the trust store. Every
  answer to an admitted request carries a signed receipt. Beside the tools the gateway keeps credentials
  in a vault and forwards requests with them, serves an OCI registry, and discloses a peer's chain.

  \<^bold>\<open>Theories and sources.\<close>

  \<^item> \<open>Js_Prelude\<close>, \<open>Js_Text\<close>, \<open>Js_Base64\<close>, \<open>Js_Json\<close>, \<open>Js_Strings\<close>, \<open>Js_Web\<close>: the JavaScript the code rests on. A string is a list
    of UTF-16 units, \<open>TextEncoder\<close> and \<open>TextDecoder\<close> are total functions on them, 32-bit operators act on
    words, base64 and hexadecimal are executable, JSON values are a datatype with integral numbers, headers
    and responses are records, a remote call may be lost before or after it took effect.
  \<^item> \<open>Sql_Table\<close>: the SQLite statements the storage helpers send, over lists of rows, and the contract
    \<open>keyed_store\<close> of a table written by upserts.
  \<^item> \<open>Receipts_Cbor\<close> (\<open>src/wire/receipts-cbor.ts\<close>): encoder and strict decoder of receipts, with every error.
  \<^item> \<open>Canonical_Json\<close> (\<open>src/storage/canonical.ts\<close>): sorted-key serialization, \<open>JSON.stringify\<close> and
    \<open>JSON.parse\<close>.
  \<^item> \<open>Registry_Index\<close> (\<open>registry-tags.ts\<close>, \<open>registry-membership.ts\<close>), \<open>Receipt_Archive\<close>
    (\<open>peer-receipts.ts\<close>, \<open>actor-ca-bundle.ts\<close>), \<open>Lease_Ledger\<close> (\<open>seen-nonces.ts\<close>,
    \<open>peer-lease-counters.ts\<close>), \<open>Attestations\<close> (\<open>peer-attestations.ts\<close>, \<open>pending-attestations.ts\<close>): the
    tables of the trust store, one theory per group, all under \<open>src/storage\<close>.
  \<^item> \<open>Trust_Store\<close> (\<open>src/trust-store.ts\<close>): the Durable Object over these tables, its transaction, its
    alarm, its schema migration, and a step relation over its operations.
  \<^item> \<open>CA_Bundle\<close> (\<open>ca-bundle-cache.ts\<close>, \<open>ca-bundle-source.ts\<close>, \<open>bundle-canonical.ts\<close>,
    \<open>notme-bundle-fetcher.ts\<close>, \<open>src/routes/lease-gate.ts\<close>): where the trust anchor comes from and when the
    gate enforces.
  \<^item> \<open>Lease_Middleware\<close> (\<open>src/routes/lease-middleware.ts\<close>, \<open>src/wire/signet-verify.ts\<close>): header parsing,
    certificate chain, request signature, scope, replay check, and the gate around them.
  \<^item> \<open>Origins\<close> (\<open>src/wire/origin.ts\<close>): content provenance and derived confidence.
  \<^item> \<open>Blob_Store\<close> (\<open>src/storage/workerd.ts\<close>, \<open>src/blob-store.ts\<close>): content-addressed blobs with
    chunking, and compare-and-swap references.
  \<^item> \<open>Bead_Store\<close> (\<open>src/beads.ts\<close>): the per-repository database and its JSON-RPC methods.
  \<^item> \<open>Bead_Create\<close> (\<open>src/routes/bead-create-orchestrator.ts\<close>, \<open>src/storage/bead-canonical.ts\<close>): the four
    hops of a bead creation, with lost requests and lost replies.
  \<^item> \<open>Rate_Budget\<close> (\<open>vault/src/rate-bucket.ts\<close>, \<open>src/routes/pre-auth-budget.ts\<close>), \<open>Vault_Library\<close> (\<open>vault/src/vault.ts\<close>,
    \<open>crypto.ts\<close>), \<open>Kek_Source\<close> (\<open>vault/src/kek-source.ts\<close>, \<open>kek-scope.ts\<close>), \<open>Vault_Store\<close> (\<open>src/vault-store.ts\<close>),
    \<open>Vault_Proxy\<close> and \<open>Vault_Route\<close> (\<open>src/routes/vault-proxy.ts\<close>, \<open>vault-proxy-route.ts\<close> and their credential
    stores): budgets, sealed credentials, the object that keeps them, and the forwarding of requests.
  \<^item> \<open>Oci_Registry\<close>, \<open>Oci_History\<close> (\<open>src/routes/oci-registry.ts\<close>): the registry protocol and its histories.
  \<^item> \<open>Receipts\<close>, \<open>Receipts_Codec\<close>, \<open>Receipts_Verify\<close> (\<open>src/wire/receipts.ts\<close>, \<open>receipt-verify.ts\<close>), \<open>Receipt_Emit\<close>
    (\<open>src/routes/receipt-emitter.ts\<close>, \<open>src/wire/receipt-delegated-signer.ts\<close>), \<open>Receipt_Stream\<close>
    (\<open>src/routes/receipt-stream.ts\<close>): commitments, signing, verification, and receipts of event streams.
  \<^item> \<open>Disclosure\<close> (\<open>src/routes/disclosure.ts\<close>, \<open>src/storage/disclosure-cursor.ts\<close>): the paged disclosure of a chain.
  \<^item> \<open>Mcp_Route\<close> (\<open>src/routes/mcp.ts\<close>, \<open>src/routes/roots-state.ts\<close>, \<open>src/cors.ts\<close>, \<open>src/backends.ts\<close>): the edge, over the
    lease gate, the orchestrator, the backends and the receipt emitter.
  \<^item> \<open>Wire_Codec\<close>, \<open>Wire_Messages\<close> (\<open>src/wire/codec.ts\<close>, \<open>tool-call.ts\<close>, \<open>tool-result.ts\<close>, \<open>manifest.ts\<close>): the wire of the
    companion; \<open>Tool_Backends\<close> (\<open>src/manifest/backends\<close>): the backends without a state of their own.
  \<^item> \<open>Run_Identity\<close> (\<open>src/wire/cas-hash.ts\<close>, \<open>partition.ts\<close>, \<open>run-id.ts\<close>): identities computed by the wasm bridge.

  \<^bold>\<open>State and operations.\<close> Each Durable Object is a record of its tables; each method is one function that
  takes the record and returns it updated, with exceptions as a branch of a sum or option type. Calls
  between objects are composed as the code composes them. What the code reads from outside (Web
  Crypto, the wasm modules, the network, clocks, randomness, exception texts of the host) is a field of
  a record of parameters or an argument.

  \<^bold>\<open>What is shown.\<close> A signed envelope is accepted at most once, hourly sweeps of the ledger included; an
  accepted request passed every check; a refused one leaves no trace. The stored lease counter refines
  the fold of the accepted requests, and equal chain heads mean equal histories or a hash collision.
  Attestation chains never fork and only grow under every interleaving of the trust store's operations;
  the retry queue keeps a write until it is committed and follows its backoff. Outside dev mode every
  CA bundle in use is signed by the pinned root and recent, and without an anchor the gate refuses
  everything. The CBOR and JSON codecs round-trip and their bytes determine the value. Accepted blobs
  stay readable under their digest. The bead database keeps its invariant and the identity of every
  row under any requests. A successful bead creation is stored, committed and attested or queued, and
  a failing one leaves the trust store alone. The vault route sends nothing upstream without a verified
  lease and an admitting pattern, keeps subjects apart and answers every failure alike; a stored credential
  reaches the upstream unchanged. The registry serves in a repository only what was pushed there, and what
  was pushed. An attached receipt verifies, live and archived, and binds request, response and events; a
  stream is passed on unchanged and ends in a verifying close. The disclosure route serves a chain only to
  its lease and completely, page by page. At the edge nothing changes without a verified lease, and only in
  its peer's name. Calls to the companion and its answers round-trip, buffers of the wasm module are freed on
  every path, and the name of a run binds its authority. Several theorems pin behaviour that differs from the
  comments of the source; they are marked as such in the text before them.

  \<^bold>\<open>Interfaces.\<close> \<open>keyed_store\<close> (last write wins), \<open>replay_ledger\<close> (a key is spent once until a sweep),
  \<open>append_log\<close> (a log only grows), \<open>content_store\<close> (a digest reads back its bytes, for the blob store and the
  registry above it), \<open>token_bucket\<close> (what a window of calls may spend) and \<open>codec\<close> (an encoder with its
  decoder: UTF-8, base64, receipts, companion messages) are locales interpreted on the model's own
  operations; the properties rest on the interpreted facts.

  \<^bold>\<open>Fuel and termination.\<close> The JSON and CBOR parsers run on fuel equal to the length of the input plus one;
  every nested call has consumed a character, and the round-trip theorems show that it is enough. The
  chunk loop terminates because its offset grows. The rounding of large integers looks at twelve excess bits,
  enough below \<open>2^64\<close>. All other recursion is structural.

  \<^bold>\<open>Not modelled.\<close> Fractional numbers: a JSON text with one is outside the model. SQLite's own failures. Values
  with an exotic prototype in decoded receipts, and request bodies outside the declared types, are marked
  as such and nothing is claimed of them. The proxy to upstream MCP servers, manifest loading, the static
  well-known documents, bundle tokens and tenant dispatch, the draft URL canonicalization no route calls, the
  harness shim, the command line tools and the generated schemas: they hold no state of the gateway or only
  move bytes of the network. The wasm verifiers and digests are compiled from Rust outside this development
  and are parameters.
\<close>

end
